(* ===== verification/Prelude.thy ===== *)
theory Prelude
  imports Main "HOL-Library.AList" "HOL-Library.Sublist"
begin

text \<open>
  Shared vocabulary of the development.

  The durable state of the program lives in Postgres tables. A table is modelled as the list
  of its rows, and the four statement shapes the source uses are the combinators
  \<open>update_where\<close>, \<open>delete_where\<close>, \<open>select_where\<close> and \<open>count_where\<close>. A function of
  \<^verbatim>\<open>packages/db\<close> that runs inside one transaction is a function from the tables to the new
  tables and the returned value; a thrown error is a value of a sum type and, because the
  transaction is rolled back, carries no new tables.

  The second half holds the generic machines: running a list of operations, an invariant or a
  monotone measure of every operation lifted to runs, and the epoch-fenced compare-and-set
  that the lease and the session pointer both use, each as a locale.
\<close>

type_synonym uuid = string
type_synonym millis = int

named_theorems table_simps \<open>rewrite rules for the table combinators\<close>
named_theorems json_simps \<open>rewrite rules for the JSON path operators\<close>

subsection \<open>Tables\<close>

definition update_where :: "('r \<Rightarrow> bool) \<Rightarrow> ('r \<Rightarrow> 'r) \<Rightarrow> 'r list \<Rightarrow> 'r list" where
  "update_where p f rows = map (\<lambda>r. if p r then f r else r) rows"

definition delete_where :: "('r \<Rightarrow> bool) \<Rightarrow> 'r list \<Rightarrow> 'r list" where
  "delete_where p rows = filter (\<lambda>r. \<not> p r) rows"

definition select_where :: "('r \<Rightarrow> bool) \<Rightarrow> 'r list \<Rightarrow> 'r list" where
  "select_where p rows = filter p rows"

definition count_where :: "('r \<Rightarrow> bool) \<Rightarrow> 'r list \<Rightarrow> nat" where
  "count_where p rows = length (filter p rows)"

definition exists_where :: "('r \<Rightarrow> bool) \<Rightarrow> 'r list \<Rightarrow> bool" where
  "exists_where p rows = list_ex p rows"

subsection \<open>Runs of operations\<close>

fun run_ops :: "('e \<Rightarrow> 's \<Rightarrow> 's) \<Rightarrow> 'e list \<Rightarrow> 's \<Rightarrow> 's" where
  "run_ops step [] s = s"
| "run_ops step (e # es) s = run_ops step es (step e s)"

fun admissible :: "('e \<Rightarrow> 's \<Rightarrow> 's) \<Rightarrow> ('e \<Rightarrow> 's \<Rightarrow> bool) \<Rightarrow> 'e list \<Rightarrow> 's \<Rightarrow> bool" where
  "admissible step ok [] s = True"
| "admissible step ok (e # es) s = (ok e s \<and> admissible step ok es (step e s))"

subsection \<open>Lemmas on tables\<close>

lemma update_where_Nil [table_simps, simp]: "update_where p f [] = []"
  by (simp add: update_where_def)

lemma update_where_Cons [table_simps, simp]:
  "update_where p f (r # rs) = (if p r then f r else r) # update_where p f rs"
  by (simp add: update_where_def)

lemma update_where_append [table_simps]:
  "update_where p f (xs @ ys) = update_where p f xs @ update_where p f ys"
  by (simp add: update_where_def)

lemma length_update_where [simp]: "length (update_where p f rs) = length rs"
  by (simp add: update_where_def)

lemma set_update_where [table_simps]:
  "set (update_where p f rs) = (\<lambda>r. if p r then f r else r) ` set rs"
  by (simp add: update_where_def)

lemma update_where_none: "\<not> (\<exists>r \<in> set rs. p r) \<Longrightarrow> update_where p f rs = rs"
  by (induction rs) auto

lemma map_update_where:
  "(\<And>r. r \<in> set rs \<Longrightarrow> p r \<Longrightarrow> k (f r) = k r) \<Longrightarrow> map k (update_where p f rs) = map k rs"
  by (auto simp: update_where_def)

lemma ball_update_where:
  "(\<forall>r \<in> set (update_where p f rs). P r) \<longleftrightarrow> (\<forall>r \<in> set rs. P (if p r then f r else r))"
  by (auto simp: update_where_def)

lemma select_where_update_where:
  "(\<And>r. r \<in> set rs \<Longrightarrow> q (if p r then f r else r) = q r) \<Longrightarrow>
   select_where q (update_where p f rs) = map (\<lambda>r. if p r then f r else r) (select_where q rs)"
  by (induction rs) (auto simp: select_where_def)

lemma count_where_Nil [simp]: "count_where p [] = 0"
  by (simp add: count_where_def)

lemma count_where_Cons [simp]:
  "count_where p (r # rs) = (if p r then 1 else 0) + count_where p rs"
  by (simp add: count_where_def)

lemma count_where_append [simp]: "count_where p (xs @ ys) = count_where p xs + count_where p ys"
  by (simp add: count_where_def)

lemma count_where_0_iff: "count_where p rs = 0 \<longleftrightarrow> (\<forall>r \<in> set rs. \<not> p r)"
  by (auto simp: count_where_def filter_empty_conv)

lemma count_where_update_where:
  "(\<And>r. r \<in> set rs \<Longrightarrow> p r \<Longrightarrow> q (f r) = q r) \<Longrightarrow>
   count_where q (update_where p f rs) = count_where q rs"
  by (induction rs) auto

lemma count_where_split:
  "(\<And>r. r \<in> set rs \<Longrightarrow> p r \<longleftrightarrow> (q r \<or> q' r)) \<Longrightarrow> (\<And>r. r \<in> set rs \<Longrightarrow> \<not> (q r \<and> q' r)) \<Longrightarrow>
   count_where p rs = count_where q rs + count_where q' rs"
  by (induction rs) auto

lemma set_delete_where [table_simps]: "set (delete_where p rs) = {r \<in> set rs. \<not> p r}"
  by (auto simp: delete_where_def)

lemma exists_where_iff [table_simps]: "exists_where p rs \<longleftrightarrow> (\<exists>r \<in> set rs. p r)"
  by (simp add: exists_where_def list_ex_iff)

lemma set_select_where [table_simps]: "set (select_where p rs) = {r \<in> set rs. p r}"
  by (auto simp: select_where_def)

lemma distinct_delete_where:
  "distinct (map k rs) \<Longrightarrow> distinct (map k (delete_where p rs))"
  by (simp add: delete_where_def distinct_map_filter)

lemma find_SomeD: "List.find p rs = Some r \<Longrightarrow> r \<in> set rs \<and> p r"
  by (auto simp: find_Some_iff)

lemma find_NoneD: "List.find p rs = None \<Longrightarrow> r \<in> set rs \<Longrightarrow> \<not> p r"
  by (auto simp: find_None_iff)

lemma find_unique:
  assumes "distinct (map k rs)" "r \<in> set rs" "k r = key"
  shows "List.find (\<lambda>x. k x = key) rs = Some r"
  using assms by (induction rs) (auto simp: rev_image_eqI)

lemma find_update_where:
  "(\<And>r. r \<in> set rs \<Longrightarrow> p r \<Longrightarrow> q (f r) = q r) \<Longrightarrow>
   List.find q (update_where p f rs) = map_option (\<lambda>r. if p r then f r else r) (List.find q rs)"
  by (induction rs) auto

lemma find_append:
  "List.find p (xs @ ys) = (case List.find p xs of None \<Rightarrow> List.find p ys | Some r \<Rightarrow> Some r)"
  by (induction xs) auto

lemma distinct_map_inj: "distinct (map k rs) \<Longrightarrow> r \<in> set rs \<Longrightarrow> s \<in> set rs \<Longrightarrow> k r = k s \<Longrightarrow> r = s"
  by (auto simp: distinct_map inj_on_def)

subsection \<open>Invariants and measures of runs\<close>

lemma run_ops_append: "run_ops step (xs @ ys) s = run_ops step ys (run_ops step xs s)"
  by (induction xs arbitrary: s) auto

locale step_invariant =
  fixes step :: "'e \<Rightarrow> 's \<Rightarrow> 's"
    and ok :: "'e \<Rightarrow> 's \<Rightarrow> bool"
    and inv :: "'s \<Rightarrow> bool"
  assumes step_inv: "inv s \<Longrightarrow> ok e s \<Longrightarrow> inv (step e s)"
begin

lemma run_inv: "inv s \<Longrightarrow> admissible step ok es s \<Longrightarrow> inv (run_ops step es s)"
  by (induction es arbitrary: s) (auto intro: step_inv)

end

locale step_monotone =
  fixes step :: "'e \<Rightarrow> 's \<Rightarrow> 's"
    and rel :: "'s \<Rightarrow> 's \<Rightarrow> bool"
  assumes rel_refl: "rel s s"
    and rel_trans: "rel s t \<Longrightarrow> rel t u \<Longrightarrow> rel s u"
    and step_rel: "rel s (step e s)"
begin

lemma run_rel: "rel s (run_ops step es s)"
proof (induction es arbitrary: s)
  case Nil
  show ?case by (simp add: rel_refl)
next
  case (Cons e es)
  have "rel (step e s) (run_ops step es (step e s))" by (rule Cons.IH)
  with step_rel show ?case by (auto intro: rel_trans)
qed

end

subsection \<open>The epoch-fenced compare-and-set\<close>

text \<open>
  A cell carries an epoch. A compare-and-set names the epoch its caller observed; it takes
  effect only when the cell still carries it, and then the cell's epoch grows by one. Any
  other operation on the cell (\<open>env\<close>) leaves the epoch at least where it was.
\<close>

locale epoch_cas = step_invariant env ok inv
  for env :: "'e \<Rightarrow> 's \<Rightarrow> 's" and ok :: "'e \<Rightarrow> 's \<Rightarrow> bool" and inv :: "'s \<Rightarrow> bool" +
  fixes epoch :: "'s \<Rightarrow> int option"
    and cas :: "int \<Rightarrow> 'v \<Rightarrow> 's \<Rightarrow> 's \<times> bool"
  assumes cas_hit: "inv s \<Longrightarrow> snd (cas x v s) \<Longrightarrow>
      epoch s = Some x \<and> epoch (fst (cas x v s)) = Some (x + 1) \<and> inv (fst (cas x v s))"
    and env_mono: "inv s \<Longrightarrow> ok e s \<Longrightarrow> epoch s = Some n \<Longrightarrow> \<exists>m. epoch (env e s) = Some m \<and> n \<le> m"
begin

lemma env_run_mono:
  "inv s \<Longrightarrow> admissible env ok es s \<Longrightarrow> epoch s = Some n \<Longrightarrow>
   \<exists>m. epoch (run_ops env es s) = Some m \<and> n \<le> m"
proof (induction es arbitrary: s n)
  case Nil
  then show ?case by simp
next
  case (Cons e es)
  then obtain m where "epoch (env e s) = Some m" "n \<le> m" using env_mono by force
  moreover have "inv (env e s)" using Cons.prems by (simp add: step_inv)
  ultimately show ?case using Cons.IH [of "env e s" m] Cons.prems by force
qed

lemma cas_once:
  assumes "inv s" "snd (cas x v s)" "admissible env ok es (fst (cas x v s))"
  shows "\<not> snd (cas x w (run_ops env es (fst (cas x v s))))"
proof
  let ?s = "fst (cas x v s)"
  assume again: "snd (cas x w (run_ops env es ?s))"
  have hit: "epoch ?s = Some (x + 1)" "inv ?s" using cas_hit assms(1,2) by auto
  have "inv (run_ops env es ?s)" using hit(2) assms(3) by (rule run_inv)
  with env_run_mono [OF hit(2) assms(3) hit(1)] cas_hit [OF _ again] show False by auto
qed

end

end
