(* ===== verification/Json.thy ===== *)
theory Json
  imports Prelude
begin

text \<open>
  JSON values as the source sees them: a parsed JavaScript value, a \<^verbatim>\<open>jsonb\<close> column. Numbers
  are integers (every number the modelled code stores or reads is a counter, a sequence number
  or a millisecond count). An object is an association list; keys are unique in every object a
  parser or \<^verbatim>\<open>jsonb\<close> produces, and only look-ups observe it. The operators are those of
  Postgres used by \<^verbatim>\<open>packages/db/src/index.ts\<close>: \<open>->\<close>, \<open>#>\<close>, \<open>->>\<close>/\<open>#>>\<close>, \<open>||\<close>,
  \<^verbatim>\<open>jsonb_set\<close>, \<^verbatim>\<open>jsonb_strip_nulls\<close>, \<^verbatim>\<open>jsonb_typeof = 'object'\<close>, and the cast \<open>::int\<close>.
  SQL NULL is \<open>None\<close>; JSON null is \<open>JNull\<close>.
\<close>

datatype json =
    JNull
  | JBool bool
  | JNum int
  | JStr string
  | JArr "json list"
  | JObj "(string \<times> json) list"

subsection \<open>Decimal text\<close>

definition digit_char :: "nat \<Rightarrow> char" where
  "digit_char d = char_of (48 + d)"

fun nat_dec :: "nat \<Rightarrow> string" where
  "nat_dec n = (if n < 10 then [digit_char n] else nat_dec (n div 10) @ [digit_char (n mod 10)])"

declare nat_dec.simps [simp del]

definition int_dec :: "int \<Rightarrow> string" where
  "int_dec i = (if i < 0 then CHR ''-'' # nat_dec (nat (- i)) else nat_dec (nat i))"

definition is_digit :: "char \<Rightarrow> bool" where
  "is_digit c \<longleftrightarrow> 48 \<le> (of_char c :: nat) \<and> (of_char c :: nat) \<le> 57"

definition dec_value :: "string \<Rightarrow> nat" where
  "dec_value cs = foldl (\<lambda>n c. 10 * n + (of_char c - 48)) 0 cs"

definition dec_int :: "string \<Rightarrow> int option" where
  "dec_int s =
     (case s of
        CHR ''-'' # ds \<Rightarrow> if ds \<noteq> [] \<and> list_all is_digit ds then Some (- int (dec_value ds)) else None
      | _ \<Rightarrow> if s \<noteq> [] \<and> list_all is_digit s then Some (int (dec_value s)) else None)"

subsection \<open>Operators\<close>

fun jget :: "json \<Rightarrow> string \<Rightarrow> json option" where
  "jget (JObj fs) k = map_of fs k"
| "jget _ k = None"

fun jpath :: "json \<Rightarrow> string list \<Rightarrow> json option" where
  "jpath j [] = Some j"
| "jpath j (k # ks) = (case jget j k of None \<Rightarrow> None | Some v \<Rightarrow> jpath v ks)"

definition is_obj :: "json option \<Rightarrow> bool" where
  "is_obj j = (case j of Some (JObj _) \<Rightarrow> True | _ \<Rightarrow> False)"

fun obj_fields :: "json option \<Rightarrow> (string \<times> json) list" where
  "obj_fields (Some (JObj fs)) = fs"
| "obj_fields _ = []"

definition jput :: "string \<Rightarrow> json \<Rightarrow> (string \<times> json) list \<Rightarrow> (string \<times> json) list" where
  "jput k v fs = AList.update k v fs"

definition jmerge :: "(string \<times> json) list \<Rightarrow> (string \<times> json) list \<Rightarrow> (string \<times> json) list" where
  "jmerge fs gs = foldl (\<lambda>acc (k, v). jput k v acc) fs gs"

fun jstrip_nulls :: "json \<Rightarrow> json" where
  "jstrip_nulls (JObj fs) =
     JObj (map (\<lambda>kv. (fst kv, jstrip_nulls (snd kv))) (filter (\<lambda>kv. snd kv \<noteq> JNull) fs))"
| "jstrip_nulls (JArr xs) = JArr (map jstrip_nulls xs)"
| "jstrip_nulls JNull = JNull"
| "jstrip_nulls (JBool b) = JBool b"
| "jstrip_nulls (JNum n) = JNum n"
| "jstrip_nulls (JStr s) = JStr s"

fun intersperse_str :: "string \<Rightarrow> string list \<Rightarrow> string" where
  "intersperse_str sep [] = []"
| "intersperse_str sep [x] = x"
| "intersperse_str sep (x # y # zs) = x @ sep @ intersperse_str sep (y # zs)"

definition hex_char :: "nat \<Rightarrow> char" where
  "hex_char d = (if d < 10 then char_of (48 + d) else char_of (87 + d))"

definition jescape :: "char \<Rightarrow> string" where
  "jescape c =
     (let n = (of_char c :: nat) in
      if c = CHR 0x22 \<or> c = CHR 0x5C then [CHR 0x5C, c]
      else if n = 8 then [CHR 0x5C, CHR ''b'']
      else if n = 9 then [CHR 0x5C, CHR ''t'']
      else if n = 10 then [CHR 0x5C, CHR ''n'']
      else if n = 12 then [CHR 0x5C, CHR ''f'']
      else if n = 13 then [CHR 0x5C, CHR ''r'']
      else if n < 32 then [CHR 0x5C] @ ''u00'' @ [hex_char (n div 16), hex_char (n mod 16)]
      else [c])"

definition jquote :: "string \<Rightarrow> string" where
  "jquote s = CHR 0x22 # concat (map jescape s) @ [CHR 0x22]"

fun jrender :: "json \<Rightarrow> string" where
  "jrender JNull = ''null''"
| "jrender (JBool b) = (if b then ''true'' else ''false'')"
| "jrender (JNum n) = int_dec n"
| "jrender (JStr s) = jquote s"
| "jrender (JArr xs) = ''['' @ intersperse_str '', '' (map jrender xs) @ '']''"
| "jrender (JObj fs) =
     ''{'' @ intersperse_str '', '' (map (\<lambda>kv. jquote (fst kv) @ '': '' @ jrender (snd kv)) fs) @ ''}''"

text \<open>\<open>->>\<close> and \<open>#>>\<close>: the text of a value, SQL NULL for an absent value or a JSON null.\<close>

definition jtext :: "json option \<Rightarrow> string option" where
  "jtext j =
     (case j of
        None \<Rightarrow> None
      | Some JNull \<Rightarrow> None
      | Some (JStr s) \<Rightarrow> Some s
      | Some v \<Rightarrow> Some (jrender v))"

text \<open>\<open>(x ->> k)::int\<close>: the cast raises on text that is not an integer.\<close>

datatype cast_error = InvalidTextRepresentation

definition jint :: "json option \<Rightarrow> cast_error + int option" where
  "jint j =
     (case j of
        None \<Rightarrow> Inr None
      | Some JNull \<Rightarrow> Inr None
      | Some (JNum n) \<Rightarrow> Inr (Some n)
      | Some (JStr s) \<Rightarrow> (case dec_int s of Some n \<Rightarrow> Inr (Some n) | None \<Rightarrow> Inl InvalidTextRepresentation)
      | Some _ \<Rightarrow> Inl InvalidTextRepresentation)"

subsection \<open>Lemmas\<close>

lemma map_of_jput [json_simps, simp]: "map_of (jput k v fs) = (map_of fs)(k \<mapsto> v)"
  by (simp add: jput_def update_conv')

lemma jmerge_Nil [json_simps, simp]: "jmerge fs [] = fs"
  by (simp add: jmerge_def)

lemma jmerge_Cons [json_simps, simp]: "jmerge fs ((k, v) # gs) = jmerge (jput k v fs) gs"
  by (simp add: jmerge_def)

lemma jget_JObj_jput [json_simps, simp]:
  "jget (JObj (jput k v fs)) k' = (if k' = k then Some v else jget (JObj fs) k')"
  by simp

lemma jtext_None_iff: "jtext j = None \<longleftrightarrow> j = None \<or> j = Some JNull"
  by (auto simp: jtext_def split: option.splits json.splits)

lemma jtext_JStr [json_simps, simp]: "jtext (Some (JStr s)) = Some s"
  by (simp add: jtext_def)

lemma jtext_None [json_simps, simp]: "jtext None = None"
  by (simp add: jtext_def)

lemma jtext_JNull [json_simps, simp]: "jtext (Some JNull) = None"
  by (simp add: jtext_def)

lemma jint_JNum [json_simps, simp]: "jint (Some (JNum n)) = Inr (Some n)"
  by (simp add: jint_def)

lemma jint_None [json_simps, simp]: "jint None = Inr None"
  by (simp add: jint_def)

text \<open>Stripping nulls keeps every field that is not null (with its own nulls stripped).\<close>

lemma map_of_strip:
  "distinct (map fst fs) \<Longrightarrow>
   map_of (map (\<lambda>kv. (fst kv, jstrip_nulls (snd kv))) (filter (\<lambda>kv. snd kv \<noteq> JNull) fs)) k =
     (case map_of fs k of
        None \<Rightarrow> None
      | Some v \<Rightarrow> if v = JNull then None else Some (jstrip_nulls v))"
proof (induction fs)
  case Nil
  then show ?case by simp
next
  case (Cons kv fs)
  obtain a v where [simp]: "kv = (a, v)" by (cases kv)
  have "map_of fs a = None" using Cons.prems by (simp add: map_of_eq_None_iff)
  with Cons show ?case by (auto split: option.splits)
qed

lemma map_of_strip_kept:
  "map_of fs k = Some v \<Longrightarrow> v \<noteq> JNull \<Longrightarrow>
   map_of (map (\<lambda>kv. (fst kv, jstrip_nulls (snd kv))) (filter (\<lambda>kv. snd kv \<noteq> JNull) fs)) k = Some (jstrip_nulls v)"
  by (induction fs) (auto split: if_splits)

text \<open>Decimal text parses back.\<close>

lemma of_char_digit: "d < 10 \<Longrightarrow> (of_char (digit_char d) :: nat) = 48 + d"
  by (simp add: digit_char_def)

lemma dec_value_snoc: "dec_value (cs @ [c]) = 10 * dec_value cs + (of_char c - 48)"
  by (simp add: dec_value_def)

lemma nat_dec_digits: "nat_dec n \<noteq> [] \<and> list_all is_digit (nat_dec n) \<and> dec_value (nat_dec n) = n"
proof (induction n rule: less_induct)
  case (less n)
  show ?case
  proof (cases "n < 10")
    case True
    then show ?thesis
      by (simp add: nat_dec.simps [of n] is_digit_def of_char_digit dec_value_def)
  next
    case False
    then have "n div 10 < n" by simp
    from less.IH [OF this] False show ?thesis
      by (simp add: nat_dec.simps [of n] is_digit_def of_char_digit dec_value_snoc)
  qed
qed

lemma dec_int_int_dec: "int_dec t \<noteq> [] \<and> dec_int (int_dec t) = Some t"
proof (cases "t < 0")
  case True
  then show ?thesis using nat_dec_digits [of "nat (- t)"] by (simp add: int_dec_def dec_int_def)
next
  case False
  obtain c cs where cs: "nat_dec (nat t) = c # cs"
    using nat_dec_digits [of "nat t"] by (cases "nat_dec (nat t)") auto
  with nat_dec_digits [of "nat t"] have "is_digit c" by simp
  then have "c \<noteq> CHR ''-''" by (auto simp: is_digit_def)
  then have "dec_int (c # cs) = (if list_all is_digit (c # cs) then Some (int (dec_value (c # cs))) else None)"
    by (auto simp: dec_int_def split: char.splits bool.splits)
  with False cs nat_dec_digits [of "nat t"] show ?thesis by (simp add: int_dec_def)
qed

end
