(* ===== verification/Lease.thy ===== *)
theory Lease
  imports Json
begin

text \<open>
  The sandbox lease (\<^verbatim>\<open>packages/db/src/index.ts\<close>, the block that opens with "Sandbox singleton
  lease"): one row per (workspace, sandbox group) that says whether the group's box is cold,
  being built, warm or draining, who holds it, and under which epoch. Every operation below is
  one transaction of the source; concurrent callers are serialised by the row lock, so an
  execution is a sequence of these operations in some order.

  Modelled: \<open>acquireLease\<close>, \<open>commitWarmingToWarm\<close>, \<open>recordWarmingSandboxCreated\<close>,
  \<open>failWarmingToCold\<close>, \<open>releaseLeaseHolder\<close>, \<open>heartbeatLeaseHolder\<close>, \<open>touchLeaseHolder\<close>,
  \<open>reapStaleLeaseHolders\<close>, \<open>reArmDrainingLease\<close>, \<open>confirmDrainCold\<close>, \<open>persistDrainSnapshot\<close> and
  \<open>persistWarmSnapshot\<close>, and the statements of \<open>forceDrainOverLimitViewerOnlyBoxes\<close> that change the tables
  (its limits are in \<open>Metering\<close>). \<open>now\<close> is the transaction's \<^verbatim>\<open>now()\<close> in milliseconds; a generated
  primary key is an argument. The columns \<^verbatim>\<open>created_at\<close> and \<^verbatim>\<open>updated_at\<close>, which no lease query
  reads, and the row-level-security context, which repeats the \<^verbatim>\<open>workspace_id\<close> filter every
  query already has, are left out.
\<close>

subsection \<open>Rows\<close>

datatype liveness = Cold | Warming | Warm | Draining

datatype holder_kind = TurnHolder | ViewerHolder

record lease_row =
  lr_id :: uuid
  lr_account_id :: uuid
  lr_workspace_id :: uuid
  lr_group_id :: uuid
  lr_liveness :: liveness
  lr_refcount :: nat
  lr_turn_holders :: nat
  lr_viewer_holders :: nat
  lr_instance_id :: "string option"
  lr_backend :: string
  lr_os :: string
  lr_image :: "string option"
  lr_rig_version_id :: "uuid option"
  lr_data_plane_url :: "string option"
  lr_terminal_data_plane_url :: "string option"
  lr_epoch :: int
  lr_resume_backend_id :: "string option"
  lr_resume_state :: "json option"
  lr_last_meter_at :: "millis option"
  lr_last_meter_tick :: int
  lr_expires_at :: millis

record holder_row =
  h_account_id :: uuid
  h_workspace_id :: uuid
  h_lease_id :: uuid
  h_kind :: holder_kind
  h_holder_id :: string
  h_subject_id :: "uuid option"
  h_last_heartbeat_at :: millis

record lease_db =
  leases :: "lease_row list"
  holders :: "holder_row list"

record lease_snapshot =
  ls_id :: uuid
  ls_group_id :: uuid
  ls_liveness :: liveness
  ls_refcount :: nat
  ls_turn_holders :: nat
  ls_viewer_holders :: nat
  ls_instance_id :: "string option"
  ls_backend :: string
  ls_os :: string
  ls_image :: "string option"
  ls_rig_version_id :: "uuid option"
  ls_data_plane_url :: "string option"
  ls_terminal_data_plane_url :: "string option"
  ls_epoch :: int
  ls_resume_backend_id :: "string option"
  ls_resume_state :: "json option"
  ls_expires_at :: millis

record acquire_input =
  ai_account_id :: uuid
  ai_workspace_id :: uuid
  ai_group_id :: uuid
  ai_kind :: holder_kind
  ai_holder_id :: string
  ai_subject_id :: "uuid option"
  ai_backend :: string
  ai_os :: "string option"
  ai_image :: "string option"
  ai_rig_version_id :: "uuid option"
  ai_lease_ttl_ms :: millis
  ai_warming_lease_ttl_ms :: "millis option"
  ai_expected_epoch :: "int option"

datatype acquire_role = Spawner | Attached | Rearmed | Fenced

datatype lease_error =
    LeaseRowVanished uuid
  | SandboxImageConflict uuid string string
  | SandboxRigConflict uuid uuid uuid

definition mapLeaseRow :: "lease_row \<Rightarrow> lease_snapshot" where
  "mapLeaseRow row =
     \<lparr>ls_id = lr_id row, ls_group_id = lr_group_id row, ls_liveness = lr_liveness row,
      ls_refcount = lr_refcount row, ls_turn_holders = lr_turn_holders row,
      ls_viewer_holders = lr_viewer_holders row, ls_instance_id = lr_instance_id row,
      ls_backend = lr_backend row, ls_os = lr_os row, ls_image = lr_image row,
      ls_rig_version_id = lr_rig_version_id row, ls_data_plane_url = lr_data_plane_url row,
      ls_terminal_data_plane_url = lr_terminal_data_plane_url row, ls_epoch = lr_epoch row,
      ls_resume_backend_id = lr_resume_backend_id row, ls_resume_state = lr_resume_state row,
      ls_expires_at = lr_expires_at row\<rparr>"

subsection \<open>Look-ups and the holder table\<close>

definition key_is :: "uuid \<Rightarrow> uuid \<Rightarrow> lease_row \<Rightarrow> bool" where
  "key_is ws grp r \<longleftrightarrow> (lr_workspace_id r, lr_group_id r) = (ws, grp)"

definition find_lease :: "uuid \<Rightarrow> uuid \<Rightarrow> lease_db \<Rightarrow> lease_row option" where
  "find_lease ws grp db = List.find (key_is ws grp) (leases db)"

definition total_holders :: "uuid \<Rightarrow> lease_db \<Rightarrow> nat" where
  "total_holders lid db = count_where (\<lambda>h. h_lease_id h = lid) (holders db)"

definition kind_holders :: "holder_kind \<Rightarrow> uuid \<Rightarrow> lease_db \<Rightarrow> nat" where
  "kind_holders k lid db = count_where (\<lambda>h. h_lease_id h = lid \<and> h_kind h = k) (holders db)"

definition holder_is :: "uuid \<Rightarrow> holder_kind \<Rightarrow> string \<Rightarrow> holder_row \<Rightarrow> bool" where
  "holder_is lid k hid h \<longleftrightarrow> (h_lease_id h, h_kind h, h_holder_id h) = (lid, k, hid)"

definition set_counts :: "lease_db \<Rightarrow> lease_row \<Rightarrow> lease_row" where
  "set_counts db r =
     r\<lparr>lr_refcount := total_holders (lr_id r) db,
       lr_turn_holders := kind_holders TurnHolder (lr_id r) db,
       lr_viewer_holders := kind_holders ViewerHolder (lr_id r) db\<rparr>"

definition stampRow :: "lease_db \<Rightarrow> millis \<Rightarrow> millis \<Rightarrow> liveness option \<Rightarrow> lease_row \<Rightarrow> lease_row" where
  "stampRow db now ttl setLiveness r =
     (set_counts db r)
       \<lparr>lr_expires_at := now + ttl,
        lr_liveness := (case setLiveness of None \<Rightarrow> lr_liveness r | Some l \<Rightarrow> l)\<rparr>"

definition recomputeAndStampLease :: "millis \<Rightarrow> uuid \<Rightarrow> millis \<Rightarrow> liveness option \<Rightarrow> lease_db \<Rightarrow> lease_db" where
  "recomputeAndStampLease now lid ttl setLiveness db =
     db\<lparr>leases := update_where (\<lambda>r. lr_id r = lid) (stampRow db now ttl setLiveness) (leases db)\<rparr>"

definition upsertLeaseHolder ::
    "millis \<Rightarrow> uuid \<Rightarrow> uuid \<Rightarrow> uuid \<Rightarrow> holder_kind \<Rightarrow> string \<Rightarrow> uuid option \<Rightarrow> lease_db \<Rightarrow> lease_db" where
  "upsertLeaseHolder now lid acct ws k hid subj db =
     (if exists_where (holder_is lid k hid) (holders db)
      then db\<lparr>holders := update_where (holder_is lid k hid) (\<lambda>h. h\<lparr>h_last_heartbeat_at := now\<rparr>) (holders db)\<rparr>
      else db\<lparr>holders := holders db @
             [\<lparr>h_account_id = acct, h_workspace_id = ws, h_lease_id = lid, h_kind = k,
               h_holder_id = hid, h_subject_id = subj, h_last_heartbeat_at = now\<rparr>]\<rparr>)"

subsection \<open>acquireLease\<close>

definition freshLeaseRow :: "millis \<Rightarrow> uuid \<Rightarrow> acquire_input \<Rightarrow> lease_row" where
  "freshLeaseRow now newId inp =
     \<lparr>lr_id = newId, lr_account_id = ai_account_id inp, lr_workspace_id = ai_workspace_id inp,
      lr_group_id = ai_group_id inp, lr_liveness = Cold, lr_refcount = 0, lr_turn_holders = 0,
      lr_viewer_holders = 0, lr_instance_id = None, lr_backend = ai_backend inp,
      lr_os = (case ai_os inp of None \<Rightarrow> ''linux'' | Some os \<Rightarrow> os), lr_image = ai_image inp,
      lr_rig_version_id = ai_rig_version_id inp, lr_data_plane_url = None,
      lr_terminal_data_plane_url = None, lr_epoch = 0, lr_resume_backend_id = None,
      lr_resume_state = None, lr_last_meter_at = None, lr_last_meter_tick = 0,
      lr_expires_at = now + ai_lease_ttl_ms inp\<rparr>"

definition materializeLease :: "millis \<Rightarrow> uuid \<Rightarrow> acquire_input \<Rightarrow> lease_db \<Rightarrow> lease_db" where
  "materializeLease now newId inp db =
     (if exists_where (key_is (ai_workspace_id inp) (ai_group_id inp)) (leases db) then db
      else db\<lparr>leases := leases db @ [freshLeaseRow now newId inp]\<rparr>)"

definition conflicts :: "'a option \<Rightarrow> 'a option \<Rightarrow> bool" where
  "conflicts requested current =
     (case requested of None \<Rightarrow> False | Some a \<Rightarrow> (case current of None \<Rightarrow> False | Some b \<Rightarrow> b \<noteq> a))"

definition stamp :: "'a option \<Rightarrow> 'a option \<Rightarrow> 'a option" where
  "stamp requested current = (case requested of None \<Rightarrow> current | Some a \<Rightarrow> Some a)"

definition other_holders :: "uuid \<Rightarrow> holder_kind \<Rightarrow> string \<Rightarrow> lease_db \<Rightarrow> nat" where
  "other_holders lid k hid db =
     count_where (\<lambda>h. h_lease_id h = lid \<and> \<not> (h_kind h = k \<and> h_holder_id h = hid)) (holders db)"

definition soloRecreate :: "acquire_input \<Rightarrow> lease_row \<Rightarrow> lease_row" where
  "soloRecreate inp r =
     r\<lparr>lr_liveness := Cold, lr_image := stamp (ai_image inp) (lr_image r),
       lr_rig_version_id := stamp (ai_rig_version_id inp) (lr_rig_version_id r),
       lr_instance_id := None, lr_data_plane_url := None, lr_terminal_data_plane_url := None,
       lr_resume_backend_id := None, lr_resume_state := None\<rparr>"

definition resolveConflict ::
    "acquire_input \<Rightarrow> lease_row \<Rightarrow> lease_db \<Rightarrow> lease_error + lease_db \<times> liveness" where
  "resolveConflict inp row db =
     (let imageConflict = conflicts (ai_image inp) (lr_image row);
          rigConflict = conflicts (ai_rig_version_id inp) (lr_rig_version_id row) in
      if lr_liveness row \<noteq> Cold \<and> (imageConflict \<or> rigConflict) then
        if 0 < other_holders (lr_id row) (ai_kind inp) (ai_holder_id inp) db then
          (if imageConflict
           then Inl (SandboxImageConflict (ai_group_id inp) (the (lr_image row)) (the (ai_image inp)))
           else Inl (SandboxRigConflict (ai_group_id inp) (the (lr_rig_version_id row))
                       (the (ai_rig_version_id inp))))
        else Inr (db\<lparr>leases := update_where (\<lambda>r. lr_id r = lr_id row) (soloRecreate inp) (leases db)\<rparr>,
                  Cold)
      else Inr (db, lr_liveness row))"

definition finishAcquire ::
    "millis \<Rightarrow> acquire_input \<Rightarrow> uuid \<Rightarrow> millis \<Rightarrow> liveness option \<Rightarrow> acquire_role \<Rightarrow> lease_db
      \<Rightarrow> lease_error + lease_db \<times> acquire_role \<times> lease_snapshot" where
  "finishAcquire now inp lid ttl setLiveness role db =
     (let db1 = upsertLeaseHolder now lid (ai_account_id inp) (ai_workspace_id inp) (ai_kind inp)
                  (ai_holder_id inp) (ai_subject_id inp) db;
          db2 = recomputeAndStampLease now lid ttl setLiveness db1 in
      case List.find (\<lambda>r. lr_id r = lid) (leases db2) of
        None \<Rightarrow> Inl (LeaseRowVanished (ai_group_id inp))
      | Some r \<Rightarrow> Inr (db2, role, mapLeaseRow r))"

definition casWarming :: "acquire_input \<Rightarrow> uuid \<Rightarrow> lease_db \<Rightarrow> lease_db \<times> bool" where
  "casWarming inp lid db =
     (let p = (\<lambda>r. lr_id r = lid \<and> lr_liveness r = Cold) in
      (db\<lparr>leases := update_where p
           (\<lambda>r. r\<lparr>lr_liveness := Warming, lr_image := stamp (ai_image inp) (lr_image r),
                  lr_rig_version_id := stamp (ai_rig_version_id inp) (lr_rig_version_id r)\<rparr>) (leases db)\<rparr>,
       exists_where p (leases db)))"

definition acquireLease ::
    "millis \<Rightarrow> uuid \<Rightarrow> acquire_input \<Rightarrow> lease_db \<Rightarrow> lease_error + lease_db \<times> acquire_role \<times> lease_snapshot" where
  "acquireLease now newId inp db =
     (let warmingTtl = (case ai_warming_lease_ttl_ms inp of None \<Rightarrow> ai_lease_ttl_ms inp | Some t \<Rightarrow> t);
          db1 = materializeLease now newId inp db in
      case find_lease (ai_workspace_id inp) (ai_group_id inp) db1 of
        None \<Rightarrow> Inl (LeaseRowVanished (ai_group_id inp))
      | Some row \<Rightarrow>
          (case resolveConflict inp row db1 of
             Inl e \<Rightarrow> Inl e
           | Inr (db2, live) \<Rightarrow>
               if live = Draining then
                 finishAcquire now inp (lr_id row) (ai_lease_ttl_ms inp) (Some Warm) Rearmed db2
               else if live = Cold then
                 (let (db3, won) = casWarming inp (lr_id row) db2 in
                  finishAcquire now inp (lr_id row) warmingTtl None (if won then Spawner else Attached) db3)
               else if live = Warm \<and> ai_kind inp = TurnHolder \<and> ai_expected_epoch inp \<noteq> None
                       \<and> ai_expected_epoch inp \<noteq> Some (lr_epoch row) then
                 Inr (db2, Fenced, mapLeaseRow row)
               else finishAcquire now inp (lr_id row)
                      (if live = Warming then warmingTtl else ai_lease_ttl_ms inp) None Attached db2))"

subsection \<open>Warming: commit, record, fail\<close>

definition epoch_fence :: "uuid \<Rightarrow> uuid \<Rightarrow> liveness \<Rightarrow> int \<Rightarrow> lease_row \<Rightarrow> bool" where
  "epoch_fence ws grp l e r \<longleftrightarrow> key_is ws grp r \<and> lr_liveness r = l \<and> lr_epoch r = e"

definition updateFenced ::
    "(lease_row \<Rightarrow> bool) \<Rightarrow> (lease_row \<Rightarrow> lease_row) \<Rightarrow> lease_db \<Rightarrow> lease_db \<times> lease_row option" where
  "updateFenced p f db =
     (db\<lparr>leases := update_where p f (leases db)\<rparr>, map_option f (List.find p (leases db)))"

record commit_input =
  ci_workspace_id :: uuid
  ci_group_id :: uuid
  ci_expected_epoch :: int
  ci_instance_id :: string
  ci_data_plane_url :: "string option"
  ci_resume_backend_id :: "string option"
  ci_resume_state :: "json option"
  ci_lease_ttl_ms :: millis
  ci_warming_lease_ttl_ms :: "millis option"

definition commitWarmingToWarm ::
    "millis \<Rightarrow> commit_input \<Rightarrow> lease_db \<Rightarrow> lease_db \<times> bool \<times> lease_snapshot option" where
  "commitWarmingToWarm now inp db =
     (let (db', hit) = updateFenced
            (epoch_fence (ci_workspace_id inp) (ci_group_id inp) Warming (ci_expected_epoch inp))
            (\<lambda>r. r\<lparr>lr_liveness := Warm, lr_instance_id := Some (ci_instance_id inp),
                   lr_data_plane_url := ci_data_plane_url inp, lr_terminal_data_plane_url := None,
                   lr_resume_backend_id := ci_resume_backend_id inp,
                   lr_resume_state := ci_resume_state inp, lr_epoch := lr_epoch r + 1,
                   lr_expires_at := now + ci_lease_ttl_ms inp\<rparr>) db
      in (db', hit \<noteq> None, map_option mapLeaseRow hit))"

definition recordWarmingSandboxCreated ::
    "millis \<Rightarrow> commit_input \<Rightarrow> lease_db \<Rightarrow> lease_db \<times> bool \<times> lease_snapshot option" where
  "recordWarmingSandboxCreated now inp db =
     (let warmingTtl = (case ci_warming_lease_ttl_ms inp of None \<Rightarrow> ci_lease_ttl_ms inp | Some t \<Rightarrow> t);
          (db', hit) = updateFenced
            (epoch_fence (ci_workspace_id inp) (ci_group_id inp) Warming (ci_expected_epoch inp))
            (\<lambda>r. r\<lparr>lr_instance_id := Some (ci_instance_id inp),
                   lr_resume_backend_id := ci_resume_backend_id inp,
                   lr_resume_state := ci_resume_state inp, lr_expires_at := now + warmingTtl\<rparr>) db
      in (db', hit \<noteq> None, map_option mapLeaseRow hit))"

text \<open>
  The envelope a lease keeps when its box is gone: the two workspace archives and the capture
  time, nothing of the dead box; SQL NULL when there is no archive.
\<close>

definition archive_path :: "string \<Rightarrow> json option \<Rightarrow> json option" where
  "archive_path k rs = (case rs of None \<Rightarrow> None | Some j \<Rightarrow> jpath j [''sessionState'', k])"

definition has_archive :: "json option \<Rightarrow> bool" where
  "has_archive rs \<longleftrightarrow> jtext (archive_path ''workspaceArchive'' rs) \<noteq> None"

definition or_null :: "json option \<Rightarrow> json" where
  "or_null j = (case j of None \<Rightarrow> JNull | Some v \<Rightarrow> v)"

definition text_or_null :: "string option \<Rightarrow> json" where
  "text_or_null s = (case s of None \<Rightarrow> JNull | Some t \<Rightarrow> JStr t)"

definition coldEnvelope :: "string option \<Rightarrow> json option \<Rightarrow> json option" where
  "coldEnvelope backend rs =
     (if has_archive rs then
        Some (JObj
          [(''backendId'',
            text_or_null (case jtext (case rs of None \<Rightarrow> None | Some j \<Rightarrow> jget j ''backendId'') of
                            Some b \<Rightarrow> Some b | None \<Rightarrow> backend)),
           (''sessionState'', jstrip_nulls (JObj
              [(''workspaceArchive'', or_null (archive_path ''workspaceArchive'' rs)),
               (''workspaceArchivePrev'', or_null (archive_path ''workspaceArchivePrev'' rs)),
               (''workspaceArchiveAt'', or_null (archive_path ''workspaceArchiveAt'' rs))]))])
      else None)"

definition goCold :: "lease_row \<Rightarrow> lease_row" where
  "goCold r =
     r\<lparr>lr_liveness := Cold, lr_instance_id := None, lr_data_plane_url := None,
       lr_terminal_data_plane_url := None,
       lr_resume_state := coldEnvelope (lr_resume_backend_id r) (lr_resume_state r),
       lr_resume_backend_id := (if has_archive (lr_resume_state r) then lr_resume_backend_id r else None)\<rparr>"

definition failWarmingToCold :: "uuid \<Rightarrow> uuid \<Rightarrow> int \<Rightarrow> lease_db \<Rightarrow> lease_db" where
  "failWarmingToCold ws grp e db = fst (updateFenced (epoch_fence ws grp Warming e) goCold db)"

subsection \<open>Holders: release, heartbeat, touch\<close>

definition releaseLeaseHolder ::
    "millis \<Rightarrow> uuid \<Rightarrow> uuid \<Rightarrow> holder_kind \<Rightarrow> string \<Rightarrow> millis \<Rightarrow> lease_db
      \<Rightarrow> lease_db \<times> (liveness \<times> nat) option" where
  "releaseLeaseHolder now ws grp k hid idleGrace db =
     (case find_lease ws grp db of
        None \<Rightarrow> (db, None)
      | Some row \<Rightarrow>
          (let db1 = db\<lparr>holders := delete_where (holder_is (lr_id row) k hid) (holders db)\<rparr>;
               total = total_holders (lr_id row) db1;
               turns = kind_holders TurnHolder (lr_id row) db1;
               enterDraining = (lr_liveness row = Warm \<and> total = 0 \<and> turns = 0);
               f = (\<lambda>r. let r' = set_counts db1 r in
                      if enterDraining
                      then r'\<lparr>lr_liveness := Draining, lr_expires_at := now + idleGrace\<rparr> else r')
           in (db1\<lparr>leases := update_where (\<lambda>r. lr_id r = lr_id row) f (leases db1)\<rparr>,
               Some (if enterDraining then Draining else lr_liveness row, total))))"

definition touchLeaseHolder ::
    "millis \<Rightarrow> uuid \<Rightarrow> uuid \<Rightarrow> holder_kind \<Rightarrow> string \<Rightarrow> lease_db \<Rightarrow> lease_db \<times> bool" where
  "touchLeaseHolder now ws grp k hid db =
     (case find_lease ws grp db of
        None \<Rightarrow> (db, False)
      | Some row \<Rightarrow>
          (let p = holder_is (lr_id row) k hid in
           (db\<lparr>holders := update_where p (\<lambda>h. h\<lparr>h_last_heartbeat_at := now\<rparr>) (holders db)\<rparr>,
            exists_where p (holders db))))"

definition heartbeatLeaseHolder ::
    "millis \<Rightarrow> uuid \<Rightarrow> uuid \<Rightarrow> holder_kind \<Rightarrow> string \<Rightarrow> millis \<Rightarrow> int \<Rightarrow> lease_db \<Rightarrow> lease_db \<times> bool" where
  "heartbeatLeaseHolder now ws grp k hid ttl e db =
     (let (db1, touched) = touchLeaseHolder now ws grp k hid db in
      if \<not> touched then (db1, False)
      else
        (let p = (\<lambda>r. key_is ws grp r \<and> lr_epoch r = e
                       \<and> (lr_liveness r = Warm \<or> lr_liveness r = Warming));
             (db2, hit) = updateFenced p (\<lambda>r. r\<lparr>lr_expires_at := now + ttl\<rparr>) db1
         in (db2, hit \<noteq> None)))"

subsection \<open>The reaper\<close>

definition reapViewerHolders :: "millis \<Rightarrow> uuid \<Rightarrow> millis \<Rightarrow> lease_db \<Rightarrow> lease_db" where
  "reapViewerHolders now ws ttl db =
     db\<lparr>holders := delete_where
        (\<lambda>h. h_workspace_id h = ws \<and> h_kind h = ViewerHolder \<and> h_last_heartbeat_at h < now - ttl)
        (holders db)\<rparr>"

definition reapTurnHolders :: "millis \<Rightarrow> uuid \<Rightarrow> millis option \<Rightarrow> lease_db \<Rightarrow> lease_db" where
  "reapTurnHolders now ws ttl db =
     (case ttl of
        None \<Rightarrow> db
      | Some t \<Rightarrow>
          if 0 < t then
            db\<lparr>holders := delete_where
               (\<lambda>h. h_workspace_id h = ws \<and> h_kind h = TurnHolder \<and> h_last_heartbeat_at h < now - t)
               (holders db)\<rparr>
          else db)"

definition reapRecount :: "millis \<Rightarrow> uuid \<Rightarrow> millis \<Rightarrow> lease_db \<Rightarrow> lease_db" where
  "reapRecount now ws idleGrace db =
     db\<lparr>leases := update_where (\<lambda>r. lr_workspace_id r = ws)
        (\<lambda>r. let r' = set_counts db r in
              if lr_liveness r = Warm \<and> lr_refcount r' = 0 \<and> lr_turn_holders r' = 0
              then r'\<lparr>lr_liveness := Draining, lr_expires_at := now + idleGrace\<rparr> else r')
        (leases db)\<rparr>"

definition warmingDead :: "millis \<Rightarrow> uuid \<Rightarrow> lease_row \<Rightarrow> bool" where
  "warmingDead now ws r \<longleftrightarrow> lr_workspace_id r = ws \<and> lr_liveness r = Warming \<and> lr_expires_at r < now"

definition reapWarmingReset :: "millis \<Rightarrow> uuid \<Rightarrow> lease_db \<Rightarrow> lease_db \<times> nat" where
  "reapWarmingReset now ws db =
     (let p = (\<lambda>r. warmingDead now ws r \<and> lr_instance_id r = None) in
      (db\<lparr>leases := update_where p
          (\<lambda>r. r\<lparr>lr_liveness := Cold, lr_instance_id := None, lr_resume_backend_id := None,
                 lr_resume_state := None, lr_data_plane_url := None,
                 lr_terminal_data_plane_url := None\<rparr>) (leases db)\<rparr>,
       count_where p (leases db)))"

definition reapWarmingDrain :: "millis \<Rightarrow> uuid \<Rightarrow> lease_db \<Rightarrow> lease_db \<times> nat" where
  "reapWarmingDrain now ws db =
     (let p = (\<lambda>r. warmingDead now ws r \<and> lr_instance_id r \<noteq> None) in
      (db\<lparr>leases := update_where p
          (\<lambda>r. r\<lparr>lr_liveness := Draining, lr_refcount := 0, lr_turn_holders := 0,
                 lr_viewer_holders := 0, lr_data_plane_url := None,
                 lr_terminal_data_plane_url := None, lr_expires_at := now - 1\<rparr>) (leases db)\<rparr>,
       count_where p (leases db)))"

definition drainable :: "millis \<Rightarrow> uuid \<Rightarrow> lease_row \<Rightarrow> bool" where
  "drainable now ws r \<longleftrightarrow>
     lr_workspace_id r = ws \<and> lr_liveness r = Draining \<and> lr_expires_at r < now \<and> lr_refcount r = 0"

record reap_result =
  rr_reaped_viewers :: nat
  rr_reaped_turns :: nat
  rr_warming_reset :: nat
  rr_drained :: "(uuid \<times> uuid \<times> string option \<times> int) list"

definition reapStaleLeaseHolders ::
    "millis \<Rightarrow> uuid \<Rightarrow> millis \<Rightarrow> millis option \<Rightarrow> millis \<Rightarrow> lease_db \<Rightarrow> lease_db \<times> reap_result" where
  "reapStaleLeaseHolders now ws viewerTtl turnTtl idleGrace db =
     (let db1 = reapViewerHolders now ws viewerTtl db;
          db2 = reapTurnHolders now ws turnTtl db1;
          db3 = reapRecount now ws idleGrace db2;
          (db4, nReset) = reapWarmingReset now ws db3;
          (db5, nDrain) = reapWarmingDrain now ws db4 in
      (db5,
       \<lparr>rr_reaped_viewers = length (holders db) - length (holders db1),
        rr_reaped_turns = length (holders db1) - length (holders db2),
        rr_warming_reset = nReset + nDrain,
        rr_drained = map (\<lambda>r. (ws, lr_group_id r, lr_instance_id r, lr_epoch r))
                       (select_where (drainable now ws) (leases db5))\<rparr>))"

subsection \<open>Draining: re-arm, snapshot, confirm\<close>

definition reArmDrainingLease :: "millis \<Rightarrow> uuid \<Rightarrow> uuid \<Rightarrow> millis \<Rightarrow> lease_db \<Rightarrow> lease_db \<times> bool" where
  "reArmDrainingLease now ws grp ttl db =
     (let p = (\<lambda>r. key_is ws grp r \<and> lr_liveness r = Draining) in
      (db\<lparr>leases := update_where p (\<lambda>r. r\<lparr>lr_liveness := Warm, lr_expires_at := now + ttl\<rparr>) (leases db)\<rparr>,
       exists_where p (leases db)))"

definition drain_fence :: "uuid \<Rightarrow> uuid \<Rightarrow> int \<Rightarrow> lease_row \<Rightarrow> bool" where
  "drain_fence ws grp e r \<longleftrightarrow> epoch_fence ws grp Draining e r \<and> lr_refcount r = 0"

definition confirmDrainCold :: "uuid \<Rightarrow> uuid \<Rightarrow> int \<Rightarrow> lease_db \<Rightarrow> lease_db \<times> bool" where
  "confirmDrainCold ws grp e db =
     (let (db', hit) = updateFenced (drain_fence ws grp e) goCold db in (db', hit \<noteq> None))"

text \<open>
  \<open>archiveAt\<close> is the text stored as \<^verbatim>\<open>workspaceArchiveAt\<close>; \<open>prior\<close> is the previous archive to
  keep, \<open>None\<close> when it is cleared. \<open>nowText\<close> below is the text of \<^verbatim>\<open>now()\<close>; \<open>toISOString\<close>
  and \<open>dateParse\<close> are the methods of JavaScript's \<^verbatim>\<open>Date\<close>, with \<open>None\<close> for \<^verbatim>\<open>NaN\<close>.
\<close>

definition foldArchive :: "string \<Rightarrow> string \<Rightarrow> string option \<Rightarrow> json option \<Rightarrow> json option" where
  "foldArchive archive archiveAt prior rs =
     Some (JObj (jput ''sessionState''
        (jstrip_nulls (JObj (jmerge
           (obj_fields (case rs of None \<Rightarrow> None | Some j \<Rightarrow> jget j ''sessionState''))
           [(''workspaceArchive'', JStr archive),
            (''workspaceArchiveAt'', JStr archiveAt),
            (''workspaceArchivePrev'', text_or_null prior)])))
        (obj_fields rs)))"

definition foldWorkspaceArchiveOntoLease ::
    "(lease_row \<Rightarrow> bool) \<Rightarrow> string \<Rightarrow> string \<Rightarrow> string option \<Rightarrow> lease_db \<Rightarrow> lease_db" where
  "foldWorkspaceArchiveOntoLease guard archive archiveAt prior db =
     fst (updateFenced guard
       (\<lambda>r. r\<lparr>lr_resume_state := foldArchive archive archiveAt prior (lr_resume_state r)\<rparr>) db)"

record drain_persist_result =
  dp_wrote :: bool
  dp_prior_archive :: "string option"
  dp_prior_archive_prev :: "string option"

definition persistDrainSnapshot ::
    "string \<Rightarrow> uuid \<Rightarrow> uuid \<Rightarrow> int \<Rightarrow> string option \<Rightarrow> lease_db
      \<Rightarrow> lease_db \<times> drain_persist_result" where
  "persistDrainSnapshot nowText ws grp e archive db =
     (case List.find (drain_fence ws grp e) (leases db) of
        None \<Rightarrow> (db, \<lparr>dp_wrote = False, dp_prior_archive = None, dp_prior_archive_prev = None\<rparr>)
      | Some r \<Rightarrow>
          (case archive of
             None \<Rightarrow> (db, \<lparr>dp_wrote = True, dp_prior_archive = None, dp_prior_archive_prev = None\<rparr>)
           | Some a \<Rightarrow>
               (foldWorkspaceArchiveOntoLease (drain_fence ws grp e) a nowText None db,
                \<lparr>dp_wrote = True,
                 dp_prior_archive = jtext (archive_path ''workspaceArchive'' (lr_resume_state r)),
                 dp_prior_archive_prev = jtext (archive_path ''workspaceArchivePrev'' (lr_resume_state r))\<rparr>)))"

record warm_persist_result =
  wp_wrote :: bool
  wp_throttled :: bool
  wp_superseded :: bool
  wp_prior_archive_for_gc :: "string option"

definition persistWarmSnapshot ::
    "(millis \<Rightarrow> string) \<Rightarrow> (string \<Rightarrow> millis option) \<Rightarrow> uuid \<Rightarrow> uuid \<Rightarrow> int \<Rightarrow> string \<Rightarrow> millis \<Rightarrow> millis
      \<Rightarrow> lease_db \<Rightarrow> lease_db \<times> warm_persist_result" where
  "persistWarmSnapshot toISOString dateParse ws grp e archive minInterval capturedAt db =
     (case List.find (epoch_fence ws grp Warm e) (leases db) of
        None \<Rightarrow> (db, \<lparr>wp_wrote = False, wp_throttled = False, wp_superseded = False,
                       wp_prior_archive_for_gc = None\<rparr>)
      | Some r \<Rightarrow>
          (let priorArchive = jtext (archive_path ''workspaceArchive'' (lr_resume_state r));
               priorPrev = jtext (archive_path ''workspaceArchivePrev'' (lr_resume_state r));
               priorAt = (case jtext (archive_path ''workspaceArchiveAt'' (lr_resume_state r)) of
                            None \<Rightarrow> None
                          | Some t \<Rightarrow> if t = [] then None else dateParse t) in
           if (case priorAt of None \<Rightarrow> False | Some p \<Rightarrow> capturedAt \<le> p) then
             (db, \<lparr>wp_wrote = False, wp_throttled = False, wp_superseded = True,
                   wp_prior_archive_for_gc = None\<rparr>)
           else if 0 < minInterval
                   \<and> (case priorAt of None \<Rightarrow> False | Some p \<Rightarrow> capturedAt - p < minInterval) then
             (db, \<lparr>wp_wrote = False, wp_throttled = True, wp_superseded = False,
                   wp_prior_archive_for_gc = None\<rparr>)
           else
             (foldWorkspaceArchiveOntoLease (epoch_fence ws grp Warm e) archive
                (toISOString capturedAt) priorArchive db,
              \<lparr>wp_wrote = True, wp_throttled = False, wp_superseded = False,
               wp_prior_archive_for_gc = priorPrev\<rparr>)))"

subsection \<open>Data-plane addresses and materialized files\<close>

definition served_fence :: "uuid \<Rightarrow> uuid \<Rightarrow> int \<Rightarrow> lease_row \<Rightarrow> bool" where
  "served_fence ws grp e r \<longleftrightarrow>
     key_is ws grp r \<and> lr_epoch r = e \<and> (lr_liveness r = Warm \<or> lr_liveness r = Draining)"

definition recordLeaseDataPlaneUrl ::
    "uuid \<Rightarrow> uuid \<Rightarrow> int \<Rightarrow> string option \<Rightarrow> lease_db \<Rightarrow> lease_db \<times> lease_snapshot option" where
  "recordLeaseDataPlaneUrl ws grp e url db =
     (let (db', hit) = updateFenced (served_fence ws grp e) (\<lambda>r. r\<lparr>lr_data_plane_url := url\<rparr>) db in
      (db', map_option mapLeaseRow hit))"

definition recordLeaseTerminalDataPlaneUrl ::
    "uuid \<Rightarrow> uuid \<Rightarrow> int \<Rightarrow> string option \<Rightarrow> lease_db \<Rightarrow> lease_db \<times> lease_snapshot option" where
  "recordLeaseTerminalDataPlaneUrl ws grp e url db =
     (let (db', hit) = updateFenced (served_fence ws grp e) (\<lambda>r. r\<lparr>lr_terminal_data_plane_url := url\<rparr>) db in
      (db', map_option mapLeaseRow hit))"

text \<open>
  \<^verbatim>\<open>resume_state -> 'opengeniFileMaterialization'\<close>, one entry per box instance. \<open>rank\<close> is the place of a
  text in the database's collation. \<^verbatim>\<open>jsonb_array_elements\<close> raises on a value that is no array (\<open>None\<close>).
\<close>

definition materializations :: "json option \<Rightarrow> json list option" where
  "materializations rs =
     (case rs of
        None \<Rightarrow> Some []
      | Some j \<Rightarrow> (case jget j ''opengeniFileMaterialization'' of
                     None \<Rightarrow> Some [] | Some (JArr xs) \<Rightarrow> Some xs | Some _ \<Rightarrow> None))"

definition entry_instance :: "json \<Rightarrow> string option" where
  "entry_instance x = jtext (jget x ''instanceId'')"

definition concat_elems :: "json option \<Rightarrow> json list" where
  "concat_elems j = (case j of None \<Rightarrow> [] | Some (JArr xs) \<Rightarrow> xs | Some v \<Rightarrow> [v])"

definition mergedFileIds :: "(string \<Rightarrow> nat) \<Rightarrow> json option \<Rightarrow> string list \<Rightarrow> json list" where
  "mergedFileIds rank existing fileIds =
     (let texts = map (\<lambda>v. jtext (Some v)) (concat_elems existing @ map JStr fileIds) in
      map JStr (sort_key rank (remdups (List.map_filter id texts))) @ (if None \<in> set texts then [JNull] else []))"

definition materialized_entries ::
    "(string \<Rightarrow> nat) \<Rightarrow> string \<Rightarrow> string list \<Rightarrow> json list \<Rightarrow> json list" where
  "materialized_entries rank inst fileIds xs =
     (let mine = List.find (\<lambda>x. entry_instance x = Some inst) xs;
          entry = JObj [(''instanceId'', JStr inst),
            (''fileIds'', JArr (mergedFileIds rank
               (case mine of None \<Rightarrow> None | Some x \<Rightarrow> jget x ''fileIds'') fileIds))];
          others = filter (\<lambda>x. entry_instance x \<noteq> None \<and> entry_instance x \<noteq> Some inst) xs
      in sort_key (\<lambda>x. rank (the (entry_instance x))) (entry # others))"

definition materialized_fence :: "uuid \<Rightarrow> uuid \<Rightarrow> int \<Rightarrow> string \<Rightarrow> lease_row \<Rightarrow> bool" where
  "materialized_fence ws grp e inst r \<longleftrightarrow> epoch_fence ws grp Warm e r \<and> lr_instance_id r = Some inst"

definition markMaterialized :: "(string \<Rightarrow> nat) \<Rightarrow> string \<Rightarrow> string list \<Rightarrow> lease_row \<Rightarrow> lease_row" where
  "markMaterialized rank inst fileIds r =
     r\<lparr>lr_resume_state := Some (JObj (jput ''opengeniFileMaterialization''
         (JArr (materialized_entries rank inst fileIds (the (materializations (lr_resume_state r)))))
         (obj_fields (lr_resume_state r))))\<rparr>"

definition markSandboxFileResourcesMaterialized ::
    "(string \<Rightarrow> nat) \<Rightarrow> uuid \<Rightarrow> uuid \<Rightarrow> int \<Rightarrow> string \<Rightarrow> string list \<Rightarrow> lease_db \<Rightarrow> (lease_db \<times> bool) option" where
  "markSandboxFileResourcesMaterialized rank ws grp e inst fileIds db =
     (let ids = rev (remdups (rev (filter (\<lambda>i. i \<noteq> []) fileIds)));
          p = materialized_fence ws grp e inst
      in if ids = [] then Some (db, False)
         else if exists_where (\<lambda>r. p r \<and> materializations (lr_resume_state r) = None) (leases db) then None
         else (let (db', hit) = updateFenced p (markMaterialized rank inst ids) db in Some (db', hit \<noteq> None)))"

text \<open>The lax JSON path \<^verbatim>\<open>$.opengeniFileMaterialization[*] ? (@.instanceId == $instanceId).fileIds[*]\<close>.\<close>

definition lax_elems :: "json \<Rightarrow> json list" where
  "lax_elems j = (case j of JArr xs \<Rightarrow> xs | _ \<Rightarrow> [j])"

definition lax_member :: "string \<Rightarrow> json \<Rightarrow> json list" where
  "lax_member k j = List.map_filter (\<lambda>x. jget x k) (lax_elems j)"

definition materialized_file_ids :: "string \<Rightarrow> json \<Rightarrow> json list" where
  "materialized_file_ids inst rs =
     concat (map lax_elems (concat (map (lax_member ''fileIds'')
       (filter (\<lambda>x. JStr inst \<in> set (concat (map lax_elems (lax_member ''instanceId'' x))))
         (concat (map lax_elems (lax_member ''opengeniFileMaterialization'' rs)))))))"

definition getMaterializedSandboxFileResources ::
    "uuid \<Rightarrow> uuid \<Rightarrow> int \<Rightarrow> string \<Rightarrow> lease_db \<Rightarrow> string set" where
  "getMaterializedSandboxFileResources ws grp e inst db =
     (case List.find (materialized_fence ws grp e inst) (leases db) of
        None \<Rightarrow> {}
      | Some r \<Rightarrow>
          (case lr_resume_state r of
             None \<Rightarrow> {}
           | Some rs \<Rightarrow> set (List.map_filter (\<lambda>v. case v of JStr s \<Rightarrow> Some s | _ \<Rightarrow> None)
                                (materialized_file_ids inst rs))))"

subsection \<open>Force-drain\<close>

text \<open>
  What \<^verbatim>\<open>forceDrainOverLimitViewerOnlyBoxes\<close> writes once a workspace is over a limit: the viewer holders
  of its warm boxes without a turn go, and those boxes start draining. The limit itself is read in
  the Metering theory.
\<close>

definition viewer_only :: "uuid \<Rightarrow> lease_row \<Rightarrow> bool" where
  "viewer_only ws r \<longleftrightarrow> lr_workspace_id r = ws \<and> lr_liveness r = Warm \<and> lr_turn_holders r = 0"

definition forceDrain :: "millis \<Rightarrow> uuid \<Rightarrow> millis \<Rightarrow> lease_db \<Rightarrow> lease_db \<times> uuid list" where
  "forceDrain now ws grace db =
     (let p = viewer_only ws;
          ids = map lr_id (select_where p (leases db));
          db1 = db\<lparr>holders := delete_where (\<lambda>h. h_kind h = ViewerHolder \<and> h_lease_id h \<in> set ids) (holders db)\<rparr>
      in (db1\<lparr>leases := update_where p
             (\<lambda>r. r\<lparr>lr_liveness := Draining, lr_refcount := 0, lr_turn_holders := 0, lr_viewer_holders := 0,
                    lr_expires_at := now + grace\<rparr>) (leases db1)\<rparr>,
          map lr_group_id (select_where p (leases db1))))"

subsection \<open>The operations as steps\<close>

text \<open>
  One constructor per transaction the program runs. A transaction that throws is rolled back.
  \<open>reArmDrainingLease\<close> is exported by the package but has no caller, so it is not a step.
\<close>

datatype lease_op =
    OpAcquire millis uuid acquire_input
  | OpCommit millis commit_input
  | OpRecordCreated millis commit_input
  | OpFailWarming uuid uuid int
  | OpRelease millis uuid uuid holder_kind string millis
  | OpHeartbeat millis uuid uuid holder_kind string millis int
  | OpTouch millis uuid uuid holder_kind string
  | OpReap millis uuid millis "millis option" millis
  | OpConfirmCold uuid uuid int
  | OpPersistDrain string uuid uuid int "string option"
  | OpPersistWarm "millis \<Rightarrow> string" "string \<Rightarrow> millis option" uuid uuid int string millis millis
  | OpDataPlaneUrl uuid uuid int "string option"
  | OpTerminalUrl uuid uuid int "string option"
  | OpMaterialized "string \<Rightarrow> nat" uuid uuid int string "string list"
  | OpForceDrain millis uuid millis

fun lease_step :: "lease_op \<Rightarrow> lease_db \<Rightarrow> lease_db" where
  "lease_step (OpAcquire now newId inp) db =
     (case acquireLease now newId inp db of Inl _ \<Rightarrow> db | Inr (db', _) \<Rightarrow> db')"
| "lease_step (OpCommit now inp) db = fst (commitWarmingToWarm now inp db)"
| "lease_step (OpRecordCreated now inp) db = fst (recordWarmingSandboxCreated now inp db)"
| "lease_step (OpFailWarming ws grp e) db = failWarmingToCold ws grp e db"
| "lease_step (OpRelease now ws grp k hid grace) db = fst (releaseLeaseHolder now ws grp k hid grace db)"
| "lease_step (OpHeartbeat now ws grp k hid ttl e) db = fst (heartbeatLeaseHolder now ws grp k hid ttl e db)"
| "lease_step (OpTouch now ws grp k hid) db = fst (touchLeaseHolder now ws grp k hid db)"
| "lease_step (OpReap now ws vttl tttl grace) db = fst (reapStaleLeaseHolders now ws vttl tttl grace db)"
| "lease_step (OpConfirmCold ws grp e) db = fst (confirmDrainCold ws grp e db)"
| "lease_step (OpPersistDrain nowText ws grp e a) db = fst (persistDrainSnapshot nowText ws grp e a db)"
| "lease_step (OpPersistWarm fmt prs ws grp e a mi cap) db =
     fst (persistWarmSnapshot fmt prs ws grp e a mi cap db)"
| "lease_step (OpDataPlaneUrl ws grp e url) db = fst (recordLeaseDataPlaneUrl ws grp e url db)"
| "lease_step (OpTerminalUrl ws grp e url) db = fst (recordLeaseTerminalDataPlaneUrl ws grp e url db)"
| "lease_step (OpMaterialized rank ws grp e inst ids) db =
     (case markSandboxFileResourcesMaterialized rank ws grp e inst ids db of None \<Rightarrow> db | Some (db', _) \<Rightarrow> db')"
| "lease_step (OpForceDrain now ws grace) db = fst (forceDrain now ws grace db)"

definition fresh_ids :: "lease_op \<Rightarrow> lease_db \<Rightarrow> bool" where
  "fresh_ids op db =
     (case op of OpAcquire now newId inp \<Rightarrow> newId \<notin> lr_id ` set (leases db) | _ \<Rightarrow> True)"

definition lease_empty :: lease_db where
  "lease_empty = \<lparr>leases = [], holders = []\<rparr>"

end
