(* ===== verification/Lease_Inv.thy ===== *)
theory Lease_Inv
  imports Lease
begin

text \<open>
  The invariant of the lease tables and its preservation by every operation: the two unique
  indexes, the foreign key with matching workspaces, and the counters. The counters of a row are
  the numbers of holder rows it has, with one exception the code itself creates: the reaper's
  warming-death branch zeroes the counters of a row without touching its holders, so a draining
  or cold row may carry zeroes instead.
\<close>

definition lease_key :: "lease_row \<Rightarrow> uuid \<times> uuid" where
  "lease_key r = (lr_workspace_id r, lr_group_id r)"

definition holder_key :: "holder_row \<Rightarrow> uuid \<times> holder_kind \<times> string" where
  "holder_key h = (h_lease_id h, h_kind h, h_holder_id h)"

definition in_sync :: "lease_db \<Rightarrow> lease_row \<Rightarrow> bool" where
  "in_sync db r \<longleftrightarrow>
     lr_refcount r = total_holders (lr_id r) db
     \<and> lr_turn_holders r = kind_holders TurnHolder (lr_id r) db
     \<and> lr_viewer_holders r = kind_holders ViewerHolder (lr_id r) db"

definition zeroed :: "lease_row \<Rightarrow> bool" where
  "zeroed r \<longleftrightarrow> lr_refcount r = 0 \<and> lr_turn_holders r = 0 \<and> lr_viewer_holders r = 0
     \<and> (lr_liveness r = Cold \<or> lr_liveness r = Draining)"

definition holder_fk :: "lease_db \<Rightarrow> holder_row \<Rightarrow> bool" where
  "holder_fk db h \<longleftrightarrow> (\<exists>r \<in> set (leases db). lr_id r = h_lease_id h \<and> lr_workspace_id r = h_workspace_id h)"

definition lease_inv :: "lease_db \<Rightarrow> bool" where
  "lease_inv db \<longleftrightarrow>
     distinct (map lease_key (leases db)) \<and> distinct (map lr_id (leases db))
     \<and> distinct (map holder_key (holders db))
     \<and> (\<forall>h \<in> set (holders db). holder_fk db h)
     \<and> (\<forall>r \<in> set (leases db). in_sync db r \<or> zeroed r)"

subsection \<open>Counting holders\<close>

lemma holders_upd [simp]:
  "total_holders lid (db\<lparr>leases := ls\<rparr>) = total_holders lid db"
  "kind_holders k lid (db\<lparr>leases := ls\<rparr>) = kind_holders k lid db"
  "set_counts (db\<lparr>leases := ls\<rparr>) = set_counts db"
  "in_sync (db\<lparr>leases := ls\<rparr>) = in_sync db"
  by (auto simp: total_holders_def kind_holders_def set_counts_def in_sync_def fun_eq_iff)

lemma set_counts_fields [simp]:
  "lr_id (set_counts db r) = lr_id r" "lr_workspace_id (set_counts db r) = lr_workspace_id r"
  "lr_group_id (set_counts db r) = lr_group_id r" "lr_liveness (set_counts db r) = lr_liveness r"
  "lr_epoch (set_counts db r) = lr_epoch r" "lr_instance_id (set_counts db r) = lr_instance_id r"
  "lr_expires_at (set_counts db r) = lr_expires_at r"
  "lr_resume_state (set_counts db r) = lr_resume_state r"
  "lr_image (set_counts db r) = lr_image r" "lr_rig_version_id (set_counts db r) = lr_rig_version_id r"
  "lr_last_meter_at (set_counts db r) = lr_last_meter_at r"
  "lr_refcount (set_counts db r) = total_holders (lr_id r) db"
  "lr_turn_holders (set_counts db r) = kind_holders TurnHolder (lr_id r) db"
  "lr_viewer_holders (set_counts db r) = kind_holders ViewerHolder (lr_id r) db"
  by (simp_all add: set_counts_def)

lemma in_sync_set_counts [simp]: "in_sync db (set_counts db r)"
  by (simp add: in_sync_def)

lemma in_sync_cong:
  "lr_id r' = lr_id r \<Longrightarrow> lr_refcount r' = lr_refcount r \<Longrightarrow> lr_turn_holders r' = lr_turn_holders r \<Longrightarrow>
   lr_viewer_holders r' = lr_viewer_holders r \<Longrightarrow> in_sync db r' = in_sync db r"
  by (simp add: in_sync_def)

lemma kind_holders_le: "kind_holders k lid db \<le> total_holders lid db"
proof -
  have "count_where (\<lambda>h. h_lease_id h = lid \<and> h_kind h = k) hs \<le> count_where (\<lambda>h. h_lease_id h = lid) hs"
    for hs by (induction hs) auto
  then show ?thesis by (simp add: kind_holders_def total_holders_def)
qed

lemma total_holders_split:
  "total_holders lid db = kind_holders TurnHolder lid db + kind_holders ViewerHolder lid db"
  unfolding total_holders_def kind_holders_def
  by (rule count_where_split) (auto, metis holder_kind.exhaust)

lemma total_holders_0_iff: "total_holders lid db = 0 \<longleftrightarrow> (\<forall>h \<in> set (holders db). h_lease_id h \<noteq> lid)"
  by (auto simp: total_holders_def count_where_0_iff)

lemma count_where_delete_other:
  "(\<And>h. h \<in> set hs \<Longrightarrow> p h \<Longrightarrow> \<not> q h) \<Longrightarrow> count_where q (delete_where p hs) = count_where q hs"
  by (induction hs) (auto simp: delete_where_def)

lemma holders_delete_other:
  assumes "\<And>h. h \<in> set (holders db) \<Longrightarrow> p h \<Longrightarrow> h_lease_id h \<noteq> lid"
  shows "total_holders lid (db\<lparr>holders := delete_where p (holders db)\<rparr>) = total_holders lid db"
    and "kind_holders k lid (db\<lparr>holders := delete_where p (holders db)\<rparr>) = kind_holders k lid db"
  unfolding total_holders_def kind_holders_def
  using assms by (auto intro!: count_where_delete_other)

lemma holders_heartbeat [simp]:
  "total_holders lid (db\<lparr>holders := update_where p (\<lambda>h. h\<lparr>h_last_heartbeat_at := t\<rparr>) (holders db)\<rparr>)
     = total_holders lid db"
  "kind_holders k lid (db\<lparr>holders := update_where p (\<lambda>h. h\<lparr>h_last_heartbeat_at := t\<rparr>) (holders db)\<rparr>)
     = kind_holders k lid db"
  by (simp_all add: total_holders_def kind_holders_def count_where_update_where)

lemma upsert_leases [simp]: "leases (upsertLeaseHolder now lid acct ws k hid subj db) = leases db"
  by (simp add: upsertLeaseHolder_def)

lemma upsert_other:
  assumes "lid' \<noteq> lid"
  shows "total_holders lid' (upsertLeaseHolder now lid acct ws k hid subj db) = total_holders lid' db"
    and "kind_holders kd lid' (upsertLeaseHolder now lid acct ws k hid subj db) = kind_holders kd lid' db"
  using assms by (auto simp: upsertLeaseHolder_def)
     (simp_all add: total_holders_def kind_holders_def)

lemma upsert_distinct:
  "distinct (map holder_key (holders db)) \<Longrightarrow>
   distinct (map holder_key (holders (upsertLeaseHolder now lid acct ws k hid subj db)))"
  by (auto simp: upsertLeaseHolder_def exists_where_iff holder_is_def holder_key_def
        map_update_where)

lemma upsert_mem:
  "h \<in> set (holders (upsertLeaseHolder now lid acct ws k hid subj db)) \<Longrightarrow>
   (h_lease_id h = lid \<and> h_workspace_id h = ws)
   \<or> (\<exists>h' \<in> set (holders db). h_lease_id h = h_lease_id h' \<and> h_workspace_id h = h_workspace_id h')"
  by (auto simp: upsertLeaseHolder_def set_update_where split: if_splits)

lemma upsert_has: "\<exists>h \<in> set (holders (upsertLeaseHolder now lid acct ws k hid subj db)).
    holder_is lid k hid h \<and> h_last_heartbeat_at h = now"
proof (cases "exists_where (holder_is lid k hid) (holders db)")
  case True
  then obtain h where h: "h \<in> set (holders db)" "holder_is lid k hid h"
    by (auto simp: exists_where_iff)
  then have "h\<lparr>h_last_heartbeat_at := now\<rparr> \<in> set (holders (upsertLeaseHolder now lid acct ws k hid subj db))"
    using True by (auto simp: upsertLeaseHolder_def set_update_where)
  moreover have "holder_is lid k hid (h\<lparr>h_last_heartbeat_at := now\<rparr>)"
    using h(2) by (simp add: holder_is_def)
  ultimately show ?thesis by (metis holder_row.select_convs(7) holder_row.surjective holder_row.update_convs(7))
next
  case False
  then show ?thesis by (simp add: upsertLeaseHolder_def holder_is_def)
qed

subsection \<open>Updates of the lease table\<close>

text \<open>An update keeps the invariant when it keeps each row's identity and its counters.\<close>

lemma fk_update_leases:
  assumes "\<And>r. r \<in> set (leases db) \<Longrightarrow> p r \<Longrightarrow> lr_id (f r) = lr_id r \<and> lease_key (f r) = lease_key r"
    and "holder_fk db h"
  shows "holder_fk (db\<lparr>leases := update_where p f (leases db)\<rparr>) h"
proof -
  from assms(2) obtain r where r: "r \<in> set (leases db)" "lr_id r = h_lease_id h"
      "lr_workspace_id r = h_workspace_id h"
    by (auto simp: holder_fk_def)
  let ?r = "if p r then f r else r"
  have "lr_id ?r = lr_id r" "lr_workspace_id ?r = lr_workspace_id r"
    using assms(1) [OF r(1)] by (auto simp: lease_key_def)
  moreover have "?r \<in> set (update_where p f (leases db))"
    using r(1) by (auto simp: set_update_where)
  ultimately show ?thesis using r by (force simp: holder_fk_def)
qed

lemma lease_inv_update:
  assumes inv: "lease_inv db"
    and keep: "\<And>r. r \<in> set (leases db) \<Longrightarrow> p r \<Longrightarrow>
        lr_id (f r) = lr_id r \<and> lease_key (f r) = lease_key r \<and> (in_sync db (f r) \<or> zeroed (f r))"
  shows "lease_inv (db\<lparr>leases := update_where p f (leases db)\<rparr>)"
proof -
  have "map lease_key (update_where p f (leases db)) = map lease_key (leases db)"
    and "map lr_id (update_where p f (leases db)) = map lr_id (leases db)"
    using keep by (auto intro: map_update_where)
  moreover have "\<forall>h \<in> set (holders db). holder_fk (db\<lparr>leases := update_where p f (leases db)\<rparr>) h"
    using inv keep fk_update_leases by (simp add: lease_inv_def)
  moreover have "\<forall>r \<in> set (update_where p f (leases db)). in_sync db r \<or> zeroed r"
    using inv keep by (auto simp: lease_inv_def set_update_where)
  ultimately show ?thesis using inv by (simp add: lease_inv_def)
qed

lemma lease_inv_updateFenced:
  assumes "lease_inv db"
    and "\<And>r. r \<in> set (leases db) \<Longrightarrow> p r \<Longrightarrow>
        lr_id (f r) = lr_id r \<and> lease_key (f r) = lease_key r \<and> (in_sync db (f r) \<or> zeroed (f r))"
  shows "lease_inv (fst (updateFenced p f db))"
  using assms by (simp add: updateFenced_def lease_inv_update)

text \<open>
  The common case: identity and counters are kept, and a row whose counters may be zeroed (cold
  or draining) does not become live.
\<close>

definition keeps_counters :: "(lease_row \<Rightarrow> lease_row) \<Rightarrow> lease_row \<Rightarrow> bool" where
  "keeps_counters f r \<longleftrightarrow>
     lr_id (f r) = lr_id r \<and> lease_key (f r) = lease_key r \<and> lr_refcount (f r) = lr_refcount r
     \<and> lr_turn_holders (f r) = lr_turn_holders r \<and> lr_viewer_holders (f r) = lr_viewer_holders r
     \<and> (lr_liveness (f r) = lr_liveness r \<or> lr_liveness r = Warming \<or> lr_liveness (f r) = Cold)"

lemma lease_inv_keeps_counters:
  assumes inv: "lease_inv db" and keep: "\<And>r. p r \<Longrightarrow> keeps_counters f r"
  shows "lease_inv (fst (updateFenced p f db))"
  using inv
proof (rule lease_inv_updateFenced)
  fix r assume "r \<in> set (leases db)" "p r"
  with inv keep have "in_sync db r \<or> zeroed r" "keeps_counters f r" by (auto simp: lease_inv_def)
  then show "lr_id (f r) = lr_id r \<and> lease_key (f r) = lease_key r \<and> (in_sync db (f r) \<or> zeroed (f r))"
    by (auto simp: keeps_counters_def in_sync_def zeroed_def)
qed

text \<open>
  Holders and other columns change for one lease only, and that lease is recounted.
\<close>

definition lease_ident :: "lease_row \<Rightarrow> uuid \<times> uuid \<times> uuid" where
  "lease_ident r = (lr_id r, lr_workspace_id r, lr_group_id r)"

lemma ident_maps:
  assumes "map lease_ident rs' = map lease_ident rs"
  shows "map lr_id rs' = map lr_id rs" "map lease_key rs' = map lease_key rs"
proof -
  have "map lr_id rs = map fst (map lease_ident rs)" "map lease_key rs = map snd (map lease_ident rs)" for rs
    by (simp_all add: lease_ident_def lease_key_def)
  with assms show "map lr_id rs' = map lr_id rs" "map lease_key rs' = map lease_key rs" by metis+
qed

lemma ident_mem:
  assumes "map lease_ident rs' = map lease_ident rs" "r \<in> set rs"
  shows "\<exists>r' \<in> set rs'. lease_ident r' = lease_ident r"
proof -
  from assms(2) have "lease_ident r \<in> set (map lease_ident rs)" by simp
  then have "lease_ident r \<in> set (map lease_ident rs')" by (simp only: assms(1))
  then show ?thesis by (metis (no_types, lifting) imageE list.set_map)
qed

lemma lease_inv_recount:
  assumes inv: "lease_inv db" and r0: "r0 \<in> set (leases db)"
    and ident: "map lease_ident (leases db') = map lease_ident (leases db)"
    and old: "\<And>r. r \<in> set (leases db') \<Longrightarrow> lr_id r \<noteq> lr_id r0 \<Longrightarrow> r \<in> set (leases db)"
    and other: "\<And>lid k. lid \<noteq> lr_id r0 \<Longrightarrow>
        total_holders lid db' = total_holders lid db \<and> kind_holders k lid db' = kind_holders k lid db"
    and dist: "distinct (map holder_key (holders db'))"
    and fk: "\<And>h. h \<in> set (holders db') \<Longrightarrow>
        (h_lease_id h = lr_id r0 \<and> h_workspace_id h = lr_workspace_id r0)
        \<or> (\<exists>h' \<in> set (holders db). h_lease_id h = h_lease_id h' \<and> h_workspace_id h = h_workspace_id h')"
    and f: "\<And>r. lease_ident (f r) = lease_ident r \<and> in_sync db' (f r)"
  shows "lease_inv (db'\<lparr>leases := update_where (\<lambda>r. lr_id r = lr_id r0) f (leases db')\<rparr>)"
proof -
  let ?p = "\<lambda>r. lr_id r = lr_id r0"
  let ?ls = "update_where ?p f (leases db')"
  have ident': "map lease_ident ?ls = map lease_ident (leases db)"
    using f ident by (simp add: map_update_where)
  have fk': "holder_fk (db'\<lparr>leases := ?ls\<rparr>) h" if h: "h \<in> set (holders db')" for h
  proof -
    have "\<exists>r \<in> set (leases db). lr_id r = h_lease_id h \<and> lr_workspace_id r = h_workspace_id h"
      using fk [OF h] r0 inv by (auto simp: lease_inv_def holder_fk_def)
    then show ?thesis
      using ident_mem [OF ident'] by (fastforce simp: holder_fk_def lease_ident_def)
  qed
  have "\<forall>r \<in> set ?ls. in_sync db' r \<or> zeroed r"
    using inv f other old by (auto simp: lease_inv_def set_update_where in_sync_def)
  with fk' show ?thesis
    using inv dist ident_maps [OF ident'] by (simp add: lease_inv_def)
qed

subsection \<open>Every operation keeps the invariant\<close>

lemma find_leaseD:
  "find_lease ws grp db = Some r \<Longrightarrow> r \<in> set (leases db) \<and> lr_workspace_id r = ws \<and> lr_group_id r = grp"
  by (auto simp: find_lease_def key_is_def dest: find_SomeD)

lemma lease_inv_empty: "lease_inv lease_empty"
  by (simp add: lease_inv_def lease_empty_def)

lemma freshLeaseRow_fields [simp]:
  "lr_id (freshLeaseRow now newId inp) = newId"
  "lr_workspace_id (freshLeaseRow now newId inp) = ai_workspace_id inp"
  "lr_group_id (freshLeaseRow now newId inp) = ai_group_id inp"
  "lr_liveness (freshLeaseRow now newId inp) = Cold"
  "lr_refcount (freshLeaseRow now newId inp) = 0" "lr_turn_holders (freshLeaseRow now newId inp) = 0"
  "lr_viewer_holders (freshLeaseRow now newId inp) = 0" "lr_epoch (freshLeaseRow now newId inp) = 0"
  "lr_image (freshLeaseRow now newId inp) = ai_image inp"
  "lr_rig_version_id (freshLeaseRow now newId inp) = ai_rig_version_id inp"
  by (simp_all add: freshLeaseRow_def)

lemma materialize_inv:
  assumes inv: "lease_inv db" and fresh: "newId \<notin> lr_id ` set (leases db)"
  shows "lease_inv (materializeLease now newId inp db)"
proof (cases "exists_where (key_is (ai_workspace_id inp) (ai_group_id inp)) (leases db)")
  case True
  with inv show ?thesis by (simp add: materializeLease_def)
next
  case False
  let ?r = "freshLeaseRow now newId inp"
  let ?db = "db\<lparr>leases := leases db @ [?r]\<rparr>"
  have none: "total_holders newId db = 0"
    using inv fresh by (metis image_eqI holder_fk_def lease_inv_def total_holders_0_iff)
  then have "kind_holders k newId db = 0" for k
    using kind_holders_le [of k newId db] by simp
  with none have "in_sync db ?r" by (simp add: in_sync_def)
  moreover have "lease_key ?r \<notin> lease_key ` set (leases db)"
    using False by (auto simp: exists_where_iff key_is_def lease_key_def)
  moreover have "\<forall>h \<in> set (holders db). holder_fk ?db h"
    using inv by (auto simp: lease_inv_def holder_fk_def)
  ultimately have "lease_inv ?db" using inv fresh by (auto simp: lease_inv_def)
  with False show ?thesis by (simp add: materializeLease_def)
qed

lemma soloRecreate_fields [simp]:
  "lr_id (soloRecreate inp r) = lr_id r" "lease_key (soloRecreate inp r) = lease_key r"
  "lr_epoch (soloRecreate inp r) = lr_epoch r" "lr_liveness (soloRecreate inp r) = Cold"
  "lr_refcount (soloRecreate inp r) = lr_refcount r"
  "lr_turn_holders (soloRecreate inp r) = lr_turn_holders r"
  "lr_viewer_holders (soloRecreate inp r) = lr_viewer_holders r"
  "lr_workspace_id (soloRecreate inp r) = lr_workspace_id r"
  "lr_group_id (soloRecreate inp r) = lr_group_id r"
  by (simp_all add: soloRecreate_def lease_key_def)

lemma goCold_fields [simp]:
  "lr_id (goCold r) = lr_id r" "lease_key (goCold r) = lease_key r" "lr_epoch (goCold r) = lr_epoch r"
  "lr_liveness (goCold r) = Cold" "lr_refcount (goCold r) = lr_refcount r"
  "lr_turn_holders (goCold r) = lr_turn_holders r" "lr_viewer_holders (goCold r) = lr_viewer_holders r"
  "lr_workspace_id (goCold r) = lr_workspace_id r" "lr_group_id (goCold r) = lr_group_id r"
  "lr_resume_state (goCold r) = coldEnvelope (lr_resume_backend_id r) (lr_resume_state r)"
  by (simp_all add: goCold_def lease_key_def)

lemma resolveConflict_cases:
  assumes "resolveConflict inp row db = Inr (db', live)"
  obtains (same) "db' = db" "live = lr_liveness row"
  | (recreate) "db' = db\<lparr>leases := update_where (\<lambda>r. lr_id r = lr_id row) (soloRecreate inp) (leases db)\<rparr>"
      "live = Cold" "lr_liveness row \<noteq> Cold"
      "other_holders (lr_id row) (ai_kind inp) (ai_holder_id inp) db = 0"
      "conflicts (ai_image inp) (lr_image row) \<or> conflicts (ai_rig_version_id inp) (lr_rig_version_id row)"
  using assms by (auto simp: resolveConflict_def Let_def split: if_splits)

lemma ident_update_where:
  "(\<And>r. lease_ident (f r) = lease_ident r) \<Longrightarrow> map lease_ident (update_where p f rs) = map lease_ident rs"
  by (simp add: map_update_where)

text \<open>What \<open>acquireLease\<close> does to the tables once the row is found: the row is rewritten (or not)
  before its holder is upserted and its counters are recomputed.\<close>

lemma finishAcquire_inv:
  assumes inv: "lease_inv db" and row: "row \<in> set (leases db)" "lr_workspace_id row = ai_workspace_id inp"
    and g: "\<And>r. lease_ident (g r) = lease_ident r"
    and fin: "finishAcquire now inp (lr_id row) ttl sl role
        (db\<lparr>leases := update_where (\<lambda>r. lr_id r = lr_id row \<and> q r) g (leases db)\<rparr>) = Inr (db', role', snap)"
  shows "lease_inv db'"
proof -
  let ?db1 = "db\<lparr>leases := update_where (\<lambda>r. lr_id r = lr_id row \<and> q r) g (leases db)\<rparr>"
  let ?db2 = "upsertLeaseHolder now (lr_id row) (ai_account_id inp) (ai_workspace_id inp) (ai_kind inp)
       (ai_holder_id inp) (ai_subject_id inp) ?db1"
  let ?f = "stampRow ?db2 now ttl sl"
  have db': "db' = ?db2\<lparr>leases := update_where (\<lambda>r. lr_id r = lr_id row) ?f (leases ?db2)\<rparr>"
    using fin by (simp add: finishAcquire_def recomputeAndStampLease_def Let_def split: option.splits)
  show ?thesis
    unfolding db'
  proof (rule lease_inv_recount [OF inv row(1)])
    show "map lease_ident (leases ?db2) = map lease_ident (leases db)"
      using g by (simp add: ident_update_where)
    show "r \<in> set (leases db)" if "r \<in> set (leases ?db2)" "lr_id r \<noteq> lr_id row" for r
      using that g by (auto simp: set_update_where lease_ident_def split: if_splits)
    show "total_holders lid ?db2 = total_holders lid db \<and> kind_holders k lid ?db2 = kind_holders k lid db"
      if "lid \<noteq> lr_id row" for lid k
      using that by (simp add: upsert_other)
    show "distinct (map holder_key (holders ?db2))"
      using inv by (intro upsert_distinct) (simp add: lease_inv_def)
    show "(h_lease_id h = lr_id row \<and> h_workspace_id h = lr_workspace_id row)
        \<or> (\<exists>h' \<in> set (holders db). h_lease_id h = h_lease_id h' \<and> h_workspace_id h = h_workspace_id h')"
      if "h \<in> set (holders ?db2)" for h
      using upsert_mem [OF that] row(2) by simp
    show "lease_ident (?f r) = lease_ident r \<and> in_sync ?db2 (?f r)" for r
      by (simp add: lease_ident_def in_sync_def stampRow_def)
  qed
qed

lemma finishAcquire_inv_plain:
  assumes "lease_inv db" "row \<in> set (leases db)" "lr_workspace_id row = ai_workspace_id inp"
    and "finishAcquire now inp (lr_id row) ttl sl role db = Inr (db', role', snap)"
  shows "lease_inv db'"
proof -
  have "db = db\<lparr>leases := update_where (\<lambda>r. lr_id r = lr_id row \<and> False) id (leases db)\<rparr>"
    by (simp add: update_where_def)
  then show ?thesis
    using assms finishAcquire_inv [of db row inp id now ttl sl role "\<lambda>_. False" db' role' snap] by simp
qed

lemma casWarming_finish_inv:
  assumes "lease_inv db" "row \<in> set (leases db)" "lr_workspace_id row = ai_workspace_id inp"
    and "finishAcquire now inp (lr_id row) ttl sl role (fst (casWarming inp (lr_id row) db)) = Inr (db', role', snap)"
  shows "lease_inv db'"
  using assms(4) unfolding casWarming_def Let_def fst_conv
  by (rule finishAcquire_inv [OF assms(1-3), rotated]) (simp add: lease_ident_def)

lemma resolveConflict_inv:
  assumes inv: "lease_inv db" and row: "row \<in> set (leases db)"
    and res: "resolveConflict inp row db = Inr (db', live)"
  shows "lease_inv db' \<and> (\<exists>row' \<in> set (leases db'). lease_ident row' = lease_ident row)"
  using res
proof (cases rule: resolveConflict_cases)
  case same
  with inv row show ?thesis by auto
next
  case recreate
  have "lease_inv db'"
    unfolding recreate using inv
    by (intro lease_inv_update) (auto simp: lease_inv_def in_sync_def zeroed_def)
  moreover have "map lease_ident (leases db') = map lease_ident (leases db)"
    unfolding recreate by (simp add: ident_update_where lease_ident_def)
  ultimately show ?thesis using ident_mem row by blast
qed

lemma acquireLease_inv:
  assumes inv: "lease_inv db" and fresh: "newId \<notin> lr_id ` set (leases db)"
    and acq: "acquireLease now newId inp db = Inr (db', role, snap)"
  shows "lease_inv db'"
proof -
  let ?db1 = "materializeLease now newId inp db"
  have inv1: "lease_inv ?db1" using inv fresh by (rule materialize_inv)
  from acq obtain row where row: "find_lease (ai_workspace_id inp) (ai_group_id inp) ?db1 = Some row"
    by (auto simp: acquireLease_def Let_def split: option.splits)
  from acq row obtain db2 live where res: "resolveConflict inp row ?db1 = Inr (db2, live)"
    by (auto simp: acquireLease_def Let_def split: sum.splits)
  from find_leaseD [OF row] have mem: "row \<in> set (leases ?db1)" "lr_workspace_id row = ai_workspace_id inp"
    by auto
  from resolveConflict_inv [OF inv1 mem(1) res] obtain row2
    where inv2: "lease_inv db2" and row2: "row2 \<in> set (leases db2)" "lr_id row2 = lr_id row"
      "lr_workspace_id row2 = ai_workspace_id inp"
    using mem by (auto simp: lease_ident_def)
  note plain = finishAcquire_inv_plain [OF inv2 row2(1,3), unfolded row2(2)]
  note cas = casWarming_finish_inv [OF inv2 row2(1,3), unfolded row2(2)]
  show ?thesis
    using acq row res inv2 plain cas
    by (auto simp: acquireLease_def Let_def split_beta split: if_splits)
qed

lemma release_inv:
  assumes inv: "lease_inv db"
  shows "lease_inv (fst (releaseLeaseHolder now ws grp k hid grace db))"
proof (cases "find_lease ws grp db")
  case None
  with inv show ?thesis by (simp add: releaseLeaseHolder_def)
next
  case (Some row)
  then have mem: "row \<in> set (leases db)" by (simp add: find_leaseD)
  let ?db1 = "db\<lparr>holders := delete_where (holder_is (lr_id row) k hid) (holders db)\<rparr>"
  let ?drain = "lr_liveness row = Warm \<and> total_holders (lr_id row) ?db1 = 0
       \<and> kind_holders TurnHolder (lr_id row) ?db1 = 0"
  let ?f = "\<lambda>r. let r' = set_counts ?db1 r in
       if ?drain then r'\<lparr>lr_liveness := Draining, lr_expires_at := now + grace\<rparr> else r'"
  have "lease_inv (?db1\<lparr>leases := update_where (\<lambda>r. lr_id r = lr_id row) ?f (leases ?db1)\<rparr>)"
  proof (rule lease_inv_recount [OF inv mem])
    show "total_holders lid ?db1 = total_holders lid db \<and> kind_holders kd lid ?db1 = kind_holders kd lid db"
      if "lid \<noteq> lr_id row" for lid kd
      using that by (auto simp: holder_is_def intro!: holders_delete_other)
    show "distinct (map holder_key (holders ?db1))"
      using inv by (simp add: lease_inv_def distinct_delete_where)
    show "lease_ident (?f r) = lease_ident r \<and> in_sync ?db1 (?f r)" for r
      by (simp add: lease_ident_def in_sync_def Let_def)
  qed (auto simp: set_delete_where)
  with Some show ?thesis by (simp add: releaseLeaseHolder_def Let_def)
qed

lemma touch_inv:
  assumes inv: "lease_inv db"
  shows "lease_inv (fst (touchLeaseHolder now ws grp k hid db))"
proof (cases "find_lease ws grp db")
  case None
  with inv show ?thesis by (simp add: touchLeaseHolder_def)
next
  case (Some row)
  let ?p = "holder_is (lr_id row) k hid"
  let ?db1 = "db\<lparr>holders := update_where ?p (\<lambda>h. h\<lparr>h_last_heartbeat_at := now\<rparr>) (holders db)\<rparr>"
  have "map holder_key (holders ?db1) = map holder_key (holders db)"
    by (simp add: map_update_where holder_key_def)
  moreover have "in_sync ?db1 r = in_sync db r" for r
    by (simp add: in_sync_def)
  moreover have "\<forall>h \<in> set (holders ?db1). holder_fk ?db1 h"
    using inv by (auto simp: lease_inv_def holder_fk_def set_update_where)
  ultimately have "lease_inv ?db1" using inv by (simp add: lease_inv_def)
  with Some show ?thesis by (simp add: touchLeaseHolder_def Let_def)
qed

lemma heartbeat_inv:
  assumes "lease_inv db"
  shows "lease_inv (fst (heartbeatLeaseHolder now ws grp k hid ttl e db))"
proof -
  have "lease_inv (fst (updateFenced p (\<lambda>r. r\<lparr>lr_expires_at := t\<rparr>) db1))" if "lease_inv db1" for p t db1
    using that by (rule lease_inv_keeps_counters) (simp add: keeps_counters_def lease_key_def)
  then show ?thesis
    using touch_inv [OF assms, of now ws grp k hid]
    by (simp add: heartbeatLeaseHolder_def split_beta Let_def)
qed

text \<open>The reaper deletes holders of one workspace and recounts all leases of that workspace.\<close>

lemma reapRecount_inv:
  assumes inv: "lease_inv db"
    and p: "\<And>h. p h \<Longrightarrow> h_workspace_id h = ws"
  shows "lease_inv (reapRecount now ws grace (db\<lparr>holders := delete_where p (holders db)\<rparr>))"
proof -
  let ?db1 = "db\<lparr>holders := delete_where p (holders db)\<rparr>"
  let ?f = "\<lambda>r. let r' = set_counts ?db1 r in
      if lr_liveness r = Warm \<and> lr_refcount r' = 0 \<and> lr_turn_holders r' = 0
      then r'\<lparr>lr_liveness := Draining, lr_expires_at := now + grace\<rparr> else r'"
  let ?ls = "update_where (\<lambda>r. lr_workspace_id r = ws) ?f (leases db)"
  have eq: "reapRecount now ws grace ?db1 = ?db1\<lparr>leases := ?ls\<rparr>"
    by (simp add: reapRecount_def)
  have f: "lease_ident (?f r) = lease_ident r \<and> in_sync ?db1 (?f r)" for r
    by (simp add: lease_ident_def in_sync_def Let_def)
  have ident: "map lease_ident ?ls = map lease_ident (leases db)"
    using f by (simp add: ident_update_where)
  have other: "in_sync ?db1 r = in_sync db r" if r: "r \<in> set (leases db)" "lr_workspace_id r \<noteq> ws" for r
  proof -
    have "h_lease_id h \<noteq> lr_id r" if h: "h \<in> set (holders db)" "p h" for h
    proof
      assume eq: "h_lease_id h = lr_id r"
      from inv h(1) obtain r' where r': "r' \<in> set (leases db)" "lr_id r' = h_lease_id h"
          "lr_workspace_id r' = h_workspace_id h"
        by (auto simp: lease_inv_def holder_fk_def)
      have "r' = r" using inv r(1) r' eq by (auto simp: lease_inv_def intro: distinct_map_inj)
      with r' r(2) p [OF h(2)] show False by simp
    qed
    then show ?thesis by (simp add: in_sync_def holders_delete_other)
  qed
  have "holder_fk (?db1\<lparr>leases := ?ls\<rparr>) h" if "h \<in> set (holders ?db1)" for h
  proof -
    have "\<exists>r \<in> set (leases db). lr_id r = h_lease_id h \<and> lr_workspace_id r = h_workspace_id h"
      using that inv by (auto simp: set_delete_where lease_inv_def holder_fk_def)
    then show ?thesis using ident_mem [OF ident] by (fastforce simp: holder_fk_def lease_ident_def)
  qed
  moreover have "\<forall>r \<in> set ?ls. in_sync ?db1 r \<or> zeroed r"
    using inv f other by (auto simp: lease_inv_def set_update_where)
  ultimately show ?thesis
    using inv ident_maps [OF ident] by (simp add: eq lease_inv_def distinct_delete_where)
qed

definition stale_holder :: "millis \<Rightarrow> uuid \<Rightarrow> millis \<Rightarrow> millis option \<Rightarrow> holder_row \<Rightarrow> bool" where
  "stale_holder now ws vttl tttl h \<longleftrightarrow> h_workspace_id h = ws \<and>
     (h_kind h = ViewerHolder \<and> h_last_heartbeat_at h < now - vttl
      \<or> h_kind h = TurnHolder \<and> (case tttl of None \<Rightarrow> False | Some t \<Rightarrow> 0 < t \<and> h_last_heartbeat_at h < now - t))"

lemma reap_holders_eq:
  "reapTurnHolders now ws tttl (reapViewerHolders now ws vttl db)
     = db\<lparr>holders := delete_where (stale_holder now ws vttl tttl) (holders db)\<rparr>"
  by (cases tttl)
    (auto simp: reapTurnHolders_def reapViewerHolders_def stale_holder_def delete_where_def
      intro!: arg_cong [where f = "\<lambda>hs. db\<lparr>holders := hs\<rparr>"] filter_cong)

lemma reap_db_eq:
  "fst (reapStaleLeaseHolders now ws vttl tttl grace db) =
     fst (reapWarmingDrain now ws (fst (reapWarmingReset now ws (reapRecount now ws grace
       (db\<lparr>holders := delete_where (stale_holder now ws vttl tttl) (holders db)\<rparr>)))))"
  by (simp add: reapStaleLeaseHolders_def split_beta Let_def reap_holders_eq)

lemma reapWarmingReset_inv: "lease_inv db \<Longrightarrow> lease_inv (fst (reapWarmingReset now ws db))"
  unfolding reapWarmingReset_def Let_def fst_conv
  by (rule lease_inv_update) (auto simp: lease_inv_def lease_key_def in_sync_def zeroed_def)

lemma reapWarmingDrain_inv: "lease_inv db \<Longrightarrow> lease_inv (fst (reapWarmingDrain now ws db))"
  unfolding reapWarmingDrain_def Let_def fst_conv
  by (rule lease_inv_update) (auto simp: lease_inv_def lease_key_def in_sync_def zeroed_def)

lemma reap_inv:
  "lease_inv db \<Longrightarrow> lease_inv (fst (reapStaleLeaseHolders now ws vttl tttl grace db))"
  unfolding reap_db_eq
  by (intro reapWarmingDrain_inv reapWarmingReset_inv reapRecount_inv) (auto simp: stale_holder_def)

lemma foldArchive_inv:
  "lease_inv db \<Longrightarrow> lease_inv (foldWorkspaceArchiveOntoLease guard a at prior db)"
  unfolding foldWorkspaceArchiveOntoLease_def
  by (rule lease_inv_keeps_counters) (simp_all add: keeps_counters_def lease_key_def)

subsection \<open>Force-drain\<close>

definition drained :: "millis \<Rightarrow> millis \<Rightarrow> lease_row \<Rightarrow> lease_row" where
  "drained now grace r =
     r\<lparr>lr_liveness := Draining, lr_refcount := 0, lr_turn_holders := 0, lr_viewer_holders := 0,
       lr_expires_at := now + grace\<rparr>"

lemma drained_fields [simp]:
  "lr_id (drained now grace r) = lr_id r" "lease_key (drained now grace r) = lease_key r"
  "lr_workspace_id (drained now grace r) = lr_workspace_id r"
  "zeroed (drained now grace r)"
  by (simp_all add: drained_def lease_key_def zeroed_def)

definition victims :: "uuid \<Rightarrow> lease_db \<Rightarrow> uuid list" where
  "victims ws db = map lr_id (select_where (viewer_only ws) (leases db))"

definition drained_holder :: "uuid \<Rightarrow> lease_db \<Rightarrow> holder_row \<Rightarrow> bool" where
  "drained_holder ws db h \<longleftrightarrow> h_kind h = ViewerHolder \<and> h_lease_id h \<in> set (victims ws db)"

lemma forceDrain_eq:
  "fst (forceDrain now ws grace db) = db\<lparr>holders := delete_where (drained_holder ws db) (holders db),
     leases := update_where (viewer_only ws) (drained now grace) (leases db)\<rparr>"
  by (simp add: forceDrain_def Let_def drained_def [abs_def] victims_def drained_holder_def [abs_def])

lemma forceDrain_inv:
  assumes inv: "lease_inv db"
  shows "lease_inv (fst (forceDrain now ws grace db))"
proof -
  let ?db1 = "db\<lparr>holders := delete_where (drained_holder ws db) (holders db)\<rparr>"
  let ?ls = "update_where (viewer_only ws) (drained now grace) (leases db)"
  have keys: "map lease_key ?ls = map lease_key (leases db)" "map lr_id ?ls = map lr_id (leases db)"
    by (auto intro: map_update_where)
  have "holder_fk (db\<lparr>holders := hs, leases := ?ls\<rparr>) h" if "holder_fk db h" for h hs
    using fk_update_leases [OF _ that, of "viewer_only ws" "drained now grace"] by (simp add: holder_fk_def)
  moreover have "in_sync (db\<lparr>holders := delete_where (drained_holder ws db) (holders db), leases := ?ls\<rparr>) r \<or> zeroed r"
    if "r \<in> set ?ls" for r
  proof -
    from that obtain r0 where r0: "r0 \<in> set (leases db)" "r = (if viewer_only ws r0 then drained now grace r0 else r0)"
      by (auto simp: set_update_where)
    show ?thesis
    proof (cases "viewer_only ws r0")
      case True
      with r0 show ?thesis by simp
    next
      case False
      then have "lr_id r0 \<notin> set (victims ws db)"
        using inv r0(1) by (auto simp: victims_def set_select_where lease_inv_def dest: distinct_map_inj)
      then have "\<And>h. drained_holder ws db h \<Longrightarrow> h_lease_id h \<noteq> lr_id r0" by (auto simp: drained_holder_def)
      from holders_delete_other [OF this] have "in_sync ?db1 r0 = in_sync db r0" by (simp add: in_sync_def)
      moreover have "in_sync (db\<lparr>holders := hs, leases := ls\<rparr>) r0 = in_sync (db\<lparr>holders := hs\<rparr>) r0" for hs ls
        by (simp add: in_sync_def total_holders_def kind_holders_def)
      ultimately show ?thesis using inv r0 False by (auto simp: lease_inv_def)
    qed
  qed
  ultimately show ?thesis
    using inv keys by (auto simp: lease_inv_def forceDrain_eq set_delete_where distinct_delete_where)
qed

lemma turn_holders_counted:
  assumes "lease_inv db" "r \<in> set (leases db)" "lr_liveness r = Warm"
  shows "lr_turn_holders r = kind_holders TurnHolder (lr_id r) db"
proof -
  have "in_sync db r" using assms by (auto simp: lease_inv_def zeroed_def)
  then show ?thesis by (simp add: in_sync_def)
qed

subsection \<open>Every step\<close>

lemma lease_step_inv:
  assumes inv: "lease_inv db" and fresh: "fresh_ids op db"
  shows "lease_inv (lease_step op db)"
proof (cases op)
  case (OpAcquire now newId inp)
  with inv fresh show ?thesis
    by (auto simp: fresh_ids_def intro: acquireLease_inv split: sum.splits)
next
  case (OpCommit now inp)
  with inv show ?thesis
    by (auto simp: commitWarmingToWarm_def split_beta Let_def keeps_counters_def lease_key_def epoch_fence_def
        intro!: lease_inv_keeps_counters)
next
  case (OpRecordCreated now inp)
  with inv show ?thesis
    by (auto simp: recordWarmingSandboxCreated_def split_beta Let_def keeps_counters_def lease_key_def
        intro!: lease_inv_keeps_counters)
next
  case (OpFailWarming ws grp e)
  with inv show ?thesis
    by (auto simp: failWarmingToCold_def keeps_counters_def intro!: lease_inv_keeps_counters)
next
  case (OpConfirmCold ws grp e)
  with inv show ?thesis
    by (auto simp: confirmDrainCold_def split_beta Let_def keeps_counters_def
        intro!: lease_inv_keeps_counters)
next
  case (OpPersistDrain nowText ws grp e a)
  with inv show ?thesis
    by (auto simp: persistDrainSnapshot_def foldArchive_inv split: option.splits)
next
  case (OpPersistWarm fmt prs ws grp e a mi cap)
  with inv show ?thesis
    by (auto simp: persistWarmSnapshot_def Let_def foldArchive_inv split: option.splits)
next
  case (OpDataPlaneUrl ws grp e url)
  with inv show ?thesis
    by (auto simp: recordLeaseDataPlaneUrl_def split_beta Let_def keeps_counters_def lease_key_def
        intro!: lease_inv_keeps_counters)
next
  case (OpTerminalUrl ws grp e url)
  with inv show ?thesis
    by (auto simp: recordLeaseTerminalDataPlaneUrl_def split_beta Let_def keeps_counters_def lease_key_def
        intro!: lease_inv_keeps_counters)
next
  case (OpMaterialized rank ws grp e inst ids)
  with inv show ?thesis
    by (auto simp: markSandboxFileResourcesMaterialized_def markMaterialized_def split_beta Let_def keeps_counters_def
        lease_key_def intro!: lease_inv_keeps_counters)
qed (use inv in \<open>simp_all add: release_inv heartbeat_inv touch_inv reap_inv forceDrain_inv\<close>)

interpretation lease_run: step_invariant lease_step fresh_ids lease_inv
  by unfold_locales (rule lease_step_inv)

end
