(* ===== verification/Lease_Machine.thy ===== *)
theory Lease_Machine
  imports Lease_Inv
begin

text \<open>
  The lease as a state machine. \<open>live_trans\<close> is the abstract contract of one group's lease (its
  liveness and epoch); every operation of the model refines it. From it follow the epoch fence
  (an epoch is committed at most once in any run) and the guarantee that a box with a live turn
  is not drained.
\<close>

type_synonym lease_abs_state = "(liveness \<times> int) option"

inductive live_trans :: "lease_abs_state \<Rightarrow> lease_abs_state \<Rightarrow> bool" where
  spawn_new: "live_trans None (Some (Warming, 0))"
| spawn: "live_trans (Some (Cold, e)) (Some (Warming, e))"
| recreate: "l \<noteq> Cold \<Longrightarrow> live_trans (Some (l, e)) (Some (Warming, e))"
| commit: "live_trans (Some (Warming, e)) (Some (Warm, e + 1))"
| spawn_failed: "live_trans (Some (Warming, e)) (Some (Cold, e))"
| warming_dead: "live_trans (Some (Warming, e)) (Some (Draining, e))"
| drain: "live_trans (Some (Warm, e)) (Some (Draining, e))"
| rearm: "live_trans (Some (Draining, e)) (Some (Warm, e))"
| go_cold: "live_trans (Some (Draining, e)) (Some (Cold, e))"

inductive_cases live_trans_from: "live_trans (Some (l, e)) s"
inductive_cases live_trans_to_spawn: "live_trans s (Some (Warming, e))"

definition lease_abs :: "uuid \<Rightarrow> uuid \<Rightarrow> lease_db \<Rightarrow> lease_abs_state" where
  "lease_abs ws grp db = map_option (\<lambda>r. (lr_liveness r, lr_epoch r)) (find_lease ws grp db)"

definition lease_epoch :: "uuid \<Rightarrow> uuid \<Rightarrow> lease_db \<Rightarrow> int option" where
  "lease_epoch ws grp db = map_option lr_epoch (find_lease ws grp db)"

subsection \<open>Finding a row after an update\<close>

lemma key_is_iff: "key_is ws grp r \<longleftrightarrow> lease_key r = (ws, grp)"
  by (simp add: key_is_def lease_key_def)

lemma find_lease_update:
  assumes "\<And>r. lease_key (f r) = lease_key r"
  shows "find_lease ws grp (db\<lparr>leases := update_where p f (leases db)\<rparr>)
    = map_option (\<lambda>r. if p r then f r else r) (find_lease ws grp db)"
  unfolding find_lease_def using assms by (simp add: find_update_where key_is_iff)

lemma find_lease_updateFenced:
  assumes "\<And>r. lease_key (f r) = lease_key r"
  shows "find_lease ws grp (fst (updateFenced p f db))
    = map_option (\<lambda>r. if p r then f r else r) (find_lease ws grp db)"
  using assms by (simp add: updateFenced_def find_lease_update)

lemma find_lease_holders [simp]: "find_lease ws grp (db\<lparr>holders := hs\<rparr>) = find_lease ws grp db"
  by (simp add: find_lease_def)

lemma find_lease_upsert [simp]:
  "find_lease ws grp (upsertLeaseHolder now lid acct w k hid subj db) = find_lease ws grp db"
  by (simp add: find_lease_def)

lemma find_lease_mem:
  assumes "lease_inv db" "r \<in> set (leases db)"
  shows "find_lease (lr_workspace_id r) (lr_group_id r) db = Some r"
proof -
  have "key_is (lr_workspace_id r) (lr_group_id r) = (\<lambda>x. lease_key x = lease_key r)"
    by (auto simp: key_is_iff lease_key_def)
  then show ?thesis
    using assms by (auto simp: find_lease_def lease_inv_def intro: find_unique)
qed

lemma find_lease_same_id:
  assumes "lease_inv db" "find_lease ws grp db = Some r" "find_lease ws' grp' db = Some r'" "lr_id r = lr_id r'"
  shows "r = r' \<and> ws = ws' \<and> grp = grp'"
  using assms find_leaseD [OF assms(2)] find_leaseD [OF assms(3)]
  by (auto simp: lease_inv_def dest: distinct_map_inj)

lemma find_lease_materialize:
  "find_lease ws grp (materializeLease now newId inp db) =
     (case find_lease ws grp db of
        Some r \<Rightarrow> Some r
      | None \<Rightarrow> if (ws, grp) = (ai_workspace_id inp, ai_group_id inp)
                then Some (freshLeaseRow now newId inp) else None)"
proof -
  have "find_lease ws grp db \<noteq> None"
    if "exists_where (key_is ws grp) (leases db)"
    using that by (auto simp: find_lease_def find_None_iff exists_where_iff)
  then show ?thesis
    by (auto simp: materializeLease_def find_lease_def find_append key_is_def split: option.splits)
qed

subsection \<open>What acquireLease does to the row\<close>

lemma stampRow_fields [simp]:
  "lr_id (stampRow db now ttl sl r) = lr_id r" "lease_key (stampRow db now ttl sl r) = lease_key r"
  "lr_epoch (stampRow db now ttl sl r) = lr_epoch r"
  "lr_image (stampRow db now ttl sl r) = lr_image r"
  "lr_instance_id (stampRow db now ttl sl r) = lr_instance_id r"
  "lr_rig_version_id (stampRow db now ttl sl r) = lr_rig_version_id r"
  "lr_liveness (stampRow db now ttl sl r) = (case sl of None \<Rightarrow> lr_liveness r | Some l \<Rightarrow> l)"
  by (simp_all add: stampRow_def lease_key_def)

lemma finishAcquire_SomeD:
  assumes "finishAcquire now inp lid ttl sl role db = Inr (db', role', snap)"
  shows "role' = role"
    and "holders db' = holders (upsertLeaseHolder now lid (ai_account_id inp) (ai_workspace_id inp)
           (ai_kind inp) (ai_holder_id inp) (ai_subject_id inp) db)"
    and "\<exists>dbc. \<forall>ws grp. find_lease ws grp db'
           = map_option (\<lambda>r. if lr_id r = lid then stampRow dbc now ttl sl r else r) (find_lease ws grp db)"
proof -
  let ?db1 = "upsertLeaseHolder now lid (ai_account_id inp) (ai_workspace_id inp) (ai_kind inp)
       (ai_holder_id inp) (ai_subject_id inp) db"
  have db': "db' = ?db1\<lparr>leases := update_where (\<lambda>r. lr_id r = lid) (stampRow ?db1 now ttl sl) (leases ?db1)\<rparr>"
    and "role' = role"
    using assms by (auto simp: finishAcquire_def recomputeAndStampLease_def Let_def split: option.splits)
  then show "role' = role" "holders db' = holders ?db1" by simp_all
  have "find_lease ws grp db' = map_option (\<lambda>r. if lr_id r = lid then stampRow ?db1 now ttl sl r else r)
      (find_lease ws grp ?db1)" for ws grp
    unfolding db' by (rule find_lease_update) simp
  then show "\<exists>dbc. \<forall>ws grp. find_lease ws grp db'
      = map_option (\<lambda>r. if lr_id r = lid then stampRow dbc now ttl sl r else r) (find_lease ws grp db)"
    by auto
qed

lemma casWarming_find:
  "find_lease ws grp (fst (casWarming inp lid db)) =
     map_option (\<lambda>r. if lr_id r = lid \<and> lr_liveness r = Cold
                     then r\<lparr>lr_liveness := Warming, lr_image := stamp (ai_image inp) (lr_image r),
                            lr_rig_version_id := stamp (ai_rig_version_id inp) (lr_rig_version_id r)\<rparr>
                     else r) (find_lease ws grp db)"
  unfolding casWarming_def Let_def fst_conv by (rule find_lease_update) (simp add: lease_key_def)

text \<open>
  The result of a successful \<open>acquireLease\<close>, by role. \<open>row\<close> is the row the critical section
  locked; no other group's row is touched.
\<close>

definition acquire_effect :: "acquire_input \<Rightarrow> lease_db \<Rightarrow> lease_row \<Rightarrow> acquire_role \<Rightarrow> lease_row \<Rightarrow> bool" where
  "acquire_effect inp db row role row' \<longleftrightarrow>
     lr_id row' = lr_id row \<and> lr_epoch row' = lr_epoch row \<and>
     (case role of
        Spawner \<Rightarrow> lr_liveness row' = Warming \<and>
          (lr_liveness row = Cold
           \<or> (conflicts (ai_image inp) (lr_image row) \<or> conflicts (ai_rig_version_id inp) (lr_rig_version_id row))
             \<and> other_holders (lr_id row) (ai_kind inp) (ai_holder_id inp) db = 0)
      | Attached \<Rightarrow> lr_liveness row' = lr_liveness row \<and> (lr_liveness row = Warm \<or> lr_liveness row = Warming)
          \<and> lr_instance_id row' = lr_instance_id row
      | Rearmed \<Rightarrow> lr_liveness row = Draining \<and> lr_liveness row' = Warm
          \<and> lr_instance_id row' = lr_instance_id row
      | Fenced \<Rightarrow> row' = row \<and> lr_liveness row = Warm \<and> ai_kind inp = TurnHolder
          \<and> (\<exists>e. ai_expected_epoch inp = Some e \<and> e \<noteq> lr_epoch row))"

definition same_elsewhere :: "acquire_input \<Rightarrow> lease_db \<Rightarrow> lease_db \<Rightarrow> bool" where
  "same_elsewhere inp db db' \<longleftrightarrow>
     (\<forall>ws grp. (ws, grp) \<noteq> (ai_workspace_id inp, ai_group_id inp) \<longrightarrow> find_lease ws grp db' = find_lease ws grp db)"

lemma same_elsewhere_trans:
  "same_elsewhere inp a b \<Longrightarrow> same_elsewhere inp b c \<Longrightarrow> same_elsewhere inp a c"
  by (simp add: same_elsewhere_def)

lemma same_elsewhere_by_id:
  assumes inv: "lease_inv db" and row: "find_lease (ai_workspace_id inp) (ai_group_id inp) db = Some row"
    and upd: "\<And>ws grp. find_lease ws grp db' =
        map_option (\<lambda>r. if lr_id r = lr_id row \<and> q r then f r else r) (find_lease ws grp db)"
  shows "same_elsewhere inp db db'"
  unfolding same_elsewhere_def
proof (intro allI impI)
  fix ws grp
  assume ne: "(ws, grp) \<noteq> (ai_workspace_id inp, ai_group_id inp)"
  show "find_lease ws grp db' = find_lease ws grp db"
  proof (cases "find_lease ws grp db")
    case None
    then show ?thesis by (simp add: upd)
  next
    case (Some r)
    then have "lr_id r \<noteq> lr_id row"
      using find_lease_same_id [OF inv row Some] ne by auto
    then show ?thesis by (simp add: upd Some)
  qed
qed

lemma same_elsewhere_materialize: "same_elsewhere inp db (materializeLease now newId inp db)"
  by (auto simp: same_elsewhere_def find_lease_materialize split: option.splits)

lemma resolveConflict_effect:
  assumes inv: "lease_inv db" and row: "find_lease (ai_workspace_id inp) (ai_group_id inp) db = Some row"
    and res: "resolveConflict inp row db = Inr (db2, live)"
  shows "lease_inv db2 \<and> holders db2 = holders db \<and> same_elsewhere inp db db2 \<and>
    (\<exists>row2. find_lease (ai_workspace_id inp) (ai_group_id inp) db2 = Some row2 \<and> lr_id row2 = lr_id row
      \<and> lr_epoch row2 = lr_epoch row \<and> lr_liveness row2 = live
      \<and> (row2 = row \<or> live = Cold \<and>
            (conflicts (ai_image inp) (lr_image row) \<or> conflicts (ai_rig_version_id inp) (lr_rig_version_id row))
            \<and> other_holders (lr_id row) (ai_kind inp) (ai_holder_id inp) db = 0))"
  using res
proof (cases rule: resolveConflict_cases)
  case same
  with inv row show ?thesis by (auto simp: same_elsewhere_def)
next
  case recreate
  have upd: "find_lease ws grp db2 = map_option (\<lambda>r. if lr_id r = lr_id row \<and> True then soloRecreate inp r else r)
      (find_lease ws grp db)" for ws grp
    unfolding recreate(1) by (simp add: find_lease_update)
  from resolveConflict_inv [OF inv _ res] find_leaseD [OF row] have "lease_inv db2" by blast
  moreover have "holders db2 = holders db" by (simp add: recreate(1))
  moreover have "same_elsewhere inp db db2" using inv row upd by (rule same_elsewhere_by_id)
  moreover have "find_lease (ai_workspace_id inp) (ai_group_id inp) db2 = Some (soloRecreate inp row)"
    by (simp add: upd row)
  ultimately show ?thesis using recreate(2-5) by auto
qed

lemma finishAcquire_effect:
  assumes inv: "lease_inv db" and row: "find_lease (ai_workspace_id inp) (ai_group_id inp) db = Some row"
    and f: "finishAcquire now inp (lr_id row) ttl sl role0 db3 = Inr (db', role, snap)"
    and db3: "\<And>ws grp. find_lease ws grp db3 =
        map_option (\<lambda>r. if lr_id r = lr_id row \<and> q r then g r else r) (find_lease ws grp db)"
    and g: "lr_id (g row) = lr_id row"
  shows "role = role0 \<and> same_elsewhere inp db db' \<and>
    (\<exists>dbc. find_lease (ai_workspace_id inp) (ai_group_id inp) db'
       = Some (stampRow dbc now ttl sl (if q row then g row else row)))"
proof -
  from finishAcquire_SomeD(3) [OF f] obtain dbc where upd: "\<And>ws grp. find_lease ws grp db' =
      map_option (\<lambda>r. if lr_id r = lr_id row then stampRow dbc now ttl sl r else r) (find_lease ws grp db3)"
    by blast
  let ?f = "\<lambda>r. (\<lambda>r'. if lr_id r' = lr_id row then stampRow dbc now ttl sl r' else r') (if q r then g r else r)"
  have "find_lease ws grp db' = map_option (\<lambda>r. if lr_id r = lr_id row \<and> True then ?f r else r)
      (find_lease ws grp db)" for ws grp
    by (auto simp: upd db3 option.map_comp o_def intro!: option.map_cong0)
  then have "same_elsewhere inp db db'" using inv row by (rule_tac same_elsewhere_by_id)
  moreover have "find_lease (ai_workspace_id inp) (ai_group_id inp) db'
      = Some (stampRow dbc now ttl sl (if q row then g row else row))"
    using row g by (simp add: upd db3)
  ultimately show ?thesis using finishAcquire_SomeD(1) [OF f] by blast
qed

lemma acquireLease_effect:
  assumes inv: "lease_inv db" and fresh: "newId \<notin> lr_id ` set (leases db)"
    and acq: "acquireLease now newId inp db = Inr (db', role, snap)"
  shows "same_elsewhere inp db db' \<and> (\<exists>row row'.
    find_lease (ai_workspace_id inp) (ai_group_id inp) (materializeLease now newId inp db) = Some row \<and>
    find_lease (ai_workspace_id inp) (ai_group_id inp) db' = Some row' \<and> acquire_effect inp db row role row')"
proof -
  let ?ws = "ai_workspace_id inp" and ?grp = "ai_group_id inp"
  let ?db1 = "materializeLease now newId inp db"
  have inv1: "lease_inv ?db1" using inv fresh by (rule materialize_inv)
  from acq obtain row where row: "find_lease ?ws ?grp ?db1 = Some row"
    by (auto simp: acquireLease_def Let_def split: option.splits)
  from acq row obtain db2 live where res: "resolveConflict inp row ?db1 = Inr (db2, live)"
    by (auto simp: acquireLease_def Let_def split: sum.splits)
  from resolveConflict_effect [OF inv1 row res] obtain row2
    where inv2: "lease_inv db2" and else2: "same_elsewhere inp ?db1 db2"
      and row2: "find_lease ?ws ?grp db2 = Some row2" "lr_id row2 = lr_id row"
        "lr_epoch row2 = lr_epoch row" "lr_liveness row2 = live"
      and why: "row2 = row \<or> live = Cold \<and>
        (conflicts (ai_image inp) (lr_image row) \<or> conflicts (ai_rig_version_id inp) (lr_rig_version_id row))
        \<and> other_holders (lr_id row) (ai_kind inp) (ai_holder_id inp) ?db1 = 0"
    by blast
  have oh: "other_holders lid k hid ?db1 = other_holders lid k hid db" for lid k hid
    by (simp add: other_holders_def materializeLease_def)
  have else2': "same_elsewhere inp db db2"
    using same_elsewhere_materialize else2 by (rule same_elsewhere_trans)
  have plain: "find_lease ws grp db2 = map_option (\<lambda>r. if lr_id r = lr_id row2 \<and> False then id r else r)
      (find_lease ws grp db2)" for ws grp
    by (simp add: option.map_ident)
  note fin_plain = finishAcquire_effect [OF inv2 row2(1) _ plain, unfolded row2(2), simplified]
  note fin_cas = finishAcquire_effect [OF inv2 row2(1) _ casWarming_find, unfolded row2(2), simplified]
  have "same_elsewhere inp db2 db' \<and> (\<exists>row'. find_lease ?ws ?grp db' = Some row' \<and> acquire_effect inp db row role row')"
  proof (cases live)
    case Cold
    let ?warm = "row2\<lparr>lr_liveness := Warming, lr_image := stamp (ai_image inp) (lr_image row2),
        lr_rig_version_id := stamp (ai_rig_version_id inp) (lr_rig_version_id row2)\<rparr>"
    have "snd (casWarming inp (lr_id row) db2)"
      using find_leaseD [OF row2(1)] row2(2,4) Cold
      by (auto simp: casWarming_def Let_def exists_where_iff)
    with acq row res Cold obtain ttl where
      "finishAcquire now inp (lr_id row) ttl None Spawner (fst (casWarming inp (lr_id row) db2)) = Inr (db', role, snap)"
      by (auto simp: acquireLease_def Let_def split_beta)
    from fin_cas [OF this] row2 Cold why show ?thesis by (auto simp: acquire_effect_def oh)
  next
    case Draining
    with acq row res have "finishAcquire now inp (lr_id row) (ai_lease_ttl_ms inp) (Some Warm) Rearmed db2
        = Inr (db', role, snap)" by (simp add: acquireLease_def Let_def)
    from fin_plain [OF this] row2 Draining why show ?thesis by (auto simp: acquire_effect_def)
  next
    case Warming
    with acq row res obtain ttl where "finishAcquire now inp (lr_id row) ttl None Attached db2 = Inr (db', role, snap)"
      by (auto simp: acquireLease_def Let_def)
    from fin_plain [OF this] row2 Warming why show ?thesis by (auto simp: acquire_effect_def)
  next
    case Warm
    show ?thesis
    proof (cases "ai_kind inp = TurnHolder \<and> ai_expected_epoch inp \<noteq> None
        \<and> ai_expected_epoch inp \<noteq> Some (lr_epoch row)")
      case True
      with acq row res Warm have "db' = db2" "role = Fenced" by (auto simp: acquireLease_def Let_def)
      with True row2 Warm why show ?thesis by (auto simp: acquire_effect_def same_elsewhere_def)
    next
      case False
      with acq row res Warm have "finishAcquire now inp (lr_id row) (ai_lease_ttl_ms inp) None Attached db2
          = Inr (db', role, snap)" by (auto simp: acquireLease_def Let_def)
      from fin_plain [OF this] row2 Warm why show ?thesis by (auto simp: acquire_effect_def)
    qed
  qed
  with row else2' show ?thesis by (blast intro: same_elsewhere_trans)
qed

subsection \<open>What the other operations do to a row\<close>

text \<open>
  \<open>row_step db' r r'\<close>: the changes an operation other than \<open>acquireLease\<close> may make to a row,
  by the liveness it had. \<open>db'\<close> are the tables after the operation.
\<close>

definition row_step :: "lease_db \<Rightarrow> lease_row \<Rightarrow> lease_row \<Rightarrow> bool" where
  "row_step db' r r' \<longleftrightarrow> lr_id r' = lr_id r \<and>
     (case lr_liveness r of
        Cold \<Rightarrow> lr_liveness r' = Cold \<and> lr_epoch r' = lr_epoch r
      | Warming \<Rightarrow> (if lr_liveness r' = Warm then lr_epoch r' = lr_epoch r + 1 else lr_epoch r' = lr_epoch r)
      | Warm \<Rightarrow> lr_epoch r' = lr_epoch r \<and> lr_instance_id r' = lr_instance_id r
          \<and> (lr_liveness r' = Warm \<or> lr_liveness r' = Draining \<and> total_holders (lr_id r) db' = 0)
      | Draining \<Rightarrow> lr_epoch r' = lr_epoch r \<and>
          (lr_liveness r' = Draining \<or> lr_liveness r' = Cold \<and> lr_refcount r = 0))"

lemma row_step_refl: "row_step db' r r"
  by (simp add: row_step_def split: liveness.splits)

lemma row_step_expires: "row_step db' r (r\<lparr>lr_expires_at := t\<rparr>)"
  by (simp add: row_step_def split: liveness.splits)

definition acquires :: "lease_op \<Rightarrow> bool" where
  "acquires op = (case op of OpAcquire _ _ _ \<Rightarrow> True | _ \<Rightarrow> False)"

lemma release_row_step:
  assumes inv: "lease_inv db" and r: "find_lease ws grp db = Some r"
  shows "\<exists>r'. find_lease ws grp (fst (releaseLeaseHolder now w g k hid grace db)) = Some r'
    \<and> row_step (fst (releaseLeaseHolder now w g k hid grace db)) r r'"
proof (cases "find_lease w g db")
  case None
  with r show ?thesis by (auto simp: releaseLeaseHolder_def row_step_refl)
next
  case (Some row)
  let ?db1 = "db\<lparr>holders := delete_where (holder_is (lr_id row) k hid) (holders db)\<rparr>"
  define drain where "drain \<longleftrightarrow> lr_liveness row = Warm \<and> total_holders (lr_id row) ?db1 = 0
    \<and> kind_holders TurnHolder (lr_id row) ?db1 = 0"
  let ?f = "\<lambda>r. let r' = set_counts ?db1 r in
      if drain then r'\<lparr>lr_liveness := Draining, lr_expires_at := now + grace\<rparr> else r'"
  let ?db2 = "?db1\<lparr>leases := update_where (\<lambda>r. lr_id r = lr_id row) ?f (leases ?db1)\<rparr>"
  have eq: "fst (releaseLeaseHolder now w g k hid grace db) = ?db2"
    using Some by (simp add: releaseLeaseHolder_def Let_def drain_def)
  have "find_lease ws grp ?db2 = map_option (\<lambda>r. if lr_id r = lr_id row then ?f r else r) (find_lease ws grp ?db1)"
    by (rule find_lease_update) (simp add: Let_def lease_key_def)
  moreover have "row_step ?db2 r (?f r)" if "lr_id r = lr_id row"
    using find_lease_same_id [OF inv r Some that]
    by (auto simp: row_step_def drain_def Let_def total_holders_def split: liveness.splits)
  ultimately show ?thesis using r eq by (simp add: row_step_refl)
qed

lemma find_lease_reap:
  "find_lease ws grp (reapRecount now w grace db) =
     map_option (\<lambda>r. if lr_workspace_id r = w then
        (let r' = set_counts db r in
         if lr_liveness r = Warm \<and> lr_refcount r' = 0 \<and> lr_turn_holders r' = 0
         then r'\<lparr>lr_liveness := Draining, lr_expires_at := now + grace\<rparr> else r') else r) (find_lease ws grp db)"
  "find_lease ws grp (fst (reapWarmingReset now w db)) =
     map_option (\<lambda>r. if warmingDead now w r \<and> lr_instance_id r = None
        then r\<lparr>lr_liveness := Cold, lr_instance_id := None, lr_resume_backend_id := None,
                 lr_resume_state := None, lr_data_plane_url := None, lr_terminal_data_plane_url := None\<rparr>
        else r) (find_lease ws grp db)"
  "find_lease ws grp (fst (reapWarmingDrain now w db)) =
     map_option (\<lambda>r. if warmingDead now w r \<and> lr_instance_id r \<noteq> None
        then r\<lparr>lr_liveness := Draining, lr_refcount := 0, lr_turn_holders := 0, lr_viewer_holders := 0,
                 lr_data_plane_url := None, lr_terminal_data_plane_url := None, lr_expires_at := now - 1\<rparr>
        else r) (find_lease ws grp db)"
  unfolding reapRecount_def reapWarmingReset_def reapWarmingDrain_def Let_def fst_conv
  by (rule find_lease_update; simp add: lease_key_def)+

lemma holders_reap:
  "holders (fst (reapStaleLeaseHolders now w vttl tttl grace db))
     = delete_where (stale_holder now w vttl tttl) (holders db)"
  by (simp add: reap_db_eq reapWarmingDrain_def reapWarmingReset_def reapRecount_def Let_def)

lemma reap_row_step:
  assumes r: "find_lease ws grp db = Some r"
  shows "\<exists>r'. find_lease ws grp (fst (reapStaleLeaseHolders now w vttl tttl grace db)) = Some r'
    \<and> row_step (fst (reapStaleLeaseHolders now w vttl tttl grace db)) r r'"
proof -
  let ?out = "fst (reapStaleLeaseHolders now w vttl tttl grace db)"
  have out: "total_holders lid (db\<lparr>holders := delete_where (stale_holder now w vttl tttl) (holders db)\<rparr>)
      = total_holders lid ?out" for lid
    by (simp add: total_holders_def holders_reap)
  have "\<exists>r'. find_lease ws grp ?out = Some r' \<and> row_step db' r r'"
    if "\<And>lid. total_holders lid (db\<lparr>holders := delete_where (stale_holder now w vttl tttl) (holders db)\<rparr>)
      = total_holders lid db'" for db'
    using r unfolding reap_db_eq
    by (auto simp: find_lease_reap that row_step_def warmingDead_def Let_def split: liveness.splits)
  then show ?thesis using out by blast
qed

lemma find_lease_fold [simp]:
  "find_lease ws grp (foldWorkspaceArchiveOntoLease guard a at prior db) =
     map_option (\<lambda>r. if guard r then r\<lparr>lr_resume_state := foldArchive a at prior (lr_resume_state r)\<rparr> else r)
       (find_lease ws grp db)"
  unfolding foldWorkspaceArchiveOntoLease_def by (rule find_lease_updateFenced) (simp add: lease_key_def)

lemma find_lease_touch [simp]: "find_lease ws grp (fst (touchLeaseHolder now w g k hid db)) = find_lease ws grp db"
  by (simp add: touchLeaseHolder_def Let_def split: option.splits)

lemma find_lease_heartbeat:
  "\<exists>c. find_lease ws grp (fst (heartbeatLeaseHolder now w g k hid ttl e db))
     = map_option (\<lambda>r. if c r then r\<lparr>lr_expires_at := now + ttl\<rparr> else r) (find_lease ws grp db)"
proof (cases "snd (touchLeaseHolder now w g k hid db)")
  case True
  then show ?thesis
    by (intro exI) (simp add: heartbeatLeaseHolder_def split_beta Let_def find_lease_updateFenced lease_key_def)
next
  case False
  then show ?thesis
    by (intro exI [of _ "\<lambda>_. False"]) (simp add: heartbeatLeaseHolder_def split_beta option.map_ident)
qed

lemma row_step_resume: "row_step db' r (if b then markMaterialized rank inst ids r else r)"
  by (simp add: row_step_def markMaterialized_def split: liveness.splits)

lemma markMaterialized_cases:
  "markSandboxFileResourcesMaterialized rank w g e inst ids db = Some (db', wrote) \<Longrightarrow>
   db' = db \<or> (\<exists>jds. db' = fst (updateFenced (materialized_fence w g e inst) (markMaterialized rank inst jds) db))"
  by (auto simp: markSandboxFileResourcesMaterialized_def split_beta Let_def split: if_splits)

lemma find_lease_materialized:
  "find_lease ws grp (fst (updateFenced p (markMaterialized rank inst jds) db))
     = map_option (\<lambda>r. if p r then markMaterialized rank inst jds r else r) (find_lease ws grp db)"
  by (rule find_lease_updateFenced) (simp add: markMaterialized_def lease_key_def)

lemma find_lease_forceDrain:
  "find_lease w g (fst (forceDrain now ws grace db))
    = map_option (\<lambda>r. if viewer_only ws r then drained now grace r else r) (find_lease w g db)"
proof -
  have "find_lease w g (db\<lparr>holders := hs, leases := ls\<rparr>) = find_lease w g (db\<lparr>leases := ls\<rparr>)" for hs ls
    by (simp add: find_lease_def)
  then show ?thesis by (simp add: forceDrain_eq find_lease_update)
qed

lemma drained_holderless:
  assumes inv: "lease_inv db" and r: "r \<in> set (leases db)" and v: "viewer_only ws r"
  shows "total_holders (lr_id r) (fst (forceDrain now ws grace db)) = 0"
proof -
  have "count_where (\<lambda>h. h_lease_id h = lr_id r \<and> h_kind h = TurnHolder) (holders db) = 0"
    using v turn_holders_counted [OF inv r] by (simp add: viewer_only_def kind_holders_def conj_commute)
  then have "\<forall>h \<in> set (holders db). h_lease_id h = lr_id r \<longrightarrow> h_kind h = ViewerHolder"
    by (auto simp: count_where_0_iff) (metis holder_kind.exhaust)
  moreover have "lr_id r \<in> set (victims ws db)" using r v by (auto simp: victims_def set_select_where)
  ultimately show ?thesis
    by (auto simp: forceDrain_eq total_holders_0_iff set_delete_where drained_holder_def)
qed

lemma forceDrain_row_step:
  assumes inv: "lease_inv db" and r: "find_lease ws grp db = Some r"
  shows "\<exists>r'. find_lease ws grp (fst (forceDrain now w grace db)) = Some r'
    \<and> row_step (fst (forceDrain now w grace db)) r r'"
  using drained_holderless [OF inv, of r w now grace] find_leaseD [OF r] r
  by (auto simp: find_lease_forceDrain row_step_refl)
     (auto simp: row_step_def drained_def viewer_only_def)

lemma other_row_step:
  assumes inv: "lease_inv db" and op: "\<not> acquires op" and r: "find_lease ws grp db = Some r"
  shows "\<exists>r'. find_lease ws grp (lease_step op db) = Some r' \<and> row_step (lease_step op db) r r'"
proof (cases op)
  case (OpAcquire now newId inp)
  with op show ?thesis by (simp add: acquires_def)
next
  case (OpCommit now inp)
  with r show ?thesis
    by (auto simp: commitWarmingToWarm_def split_beta Let_def lease_key_def epoch_fence_def row_step_def find_lease_updateFenced
        split: liveness.splits)
next
  case (OpRecordCreated now inp)
  with r show ?thesis
    by (auto simp: recordWarmingSandboxCreated_def split_beta Let_def lease_key_def epoch_fence_def row_step_def find_lease_updateFenced
        split: liveness.splits)
next
  case (OpFailWarming w g e)
  with r show ?thesis
    by (auto simp: failWarmingToCold_def epoch_fence_def row_step_def find_lease_updateFenced
        split: liveness.splits)
next
  case (OpConfirmCold w g e)
  with r show ?thesis
    by (auto simp: confirmDrainCold_def split_beta Let_def drain_fence_def epoch_fence_def row_step_def find_lease_updateFenced
        split: liveness.splits)
next
  case (OpPersistDrain nowText w g e a)
  with r show ?thesis
    by (auto simp: persistDrainSnapshot_def row_step_refl split: option.splits)
       (auto simp: row_step_def split: liveness.splits)
next
  case (OpPersistWarm fmt prs w g e a mi cap)
  with r show ?thesis
    by (auto simp: persistWarmSnapshot_def Let_def row_step_refl split: option.splits)
       (auto simp: row_step_def split: liveness.splits)
next
  case (OpHeartbeat now w g k hid ttl e)
  with r find_lease_heartbeat [of ws grp now w g k hid ttl e db] show ?thesis
    by (auto simp: row_step_refl row_step_expires)
next
  case (OpTouch now w g k hid)
  with r show ?thesis by (auto simp: row_step_refl)
next
  case (OpDataPlaneUrl w g e url)
  with r show ?thesis
    by (auto simp: recordLeaseDataPlaneUrl_def split_beta Let_def lease_key_def row_step_def find_lease_updateFenced
        split: liveness.splits)
next
  case (OpTerminalUrl w g e url)
  with r show ?thesis
    by (auto simp: recordLeaseTerminalDataPlaneUrl_def split_beta Let_def lease_key_def row_step_def find_lease_updateFenced
        split: liveness.splits)
next
  case (OpMaterialized rank w g e inst ids)
  with r show ?thesis
    by (auto simp: row_step_refl row_step_resume find_lease_materialized split: option.splits dest!: markMaterialized_cases)
qed (use inv r in \<open>simp_all add: release_row_step reap_row_step forceDrain_row_step\<close>)

lemma keys_update_where:
  "(\<And>r. lease_key (f r) = lease_key r) \<Longrightarrow> map lease_key (update_where p f rs) = map lease_key rs"
  by (simp add: map_update_where)

lemma keys_updateFenced:
  "(\<And>r. lease_key (f r) = lease_key r) \<Longrightarrow>
   map lease_key (leases (fst (updateFenced p f db))) = map lease_key (leases db)"
  by (simp add: updateFenced_def keys_update_where)

lemma other_step_keys: "\<not> acquires op \<Longrightarrow> map lease_key (leases (lease_step op db)) = map lease_key (leases db)"
  by (cases op)
    (auto simp: acquires_def commitWarmingToWarm_def recordWarmingSandboxCreated_def failWarmingToCold_def
      releaseLeaseHolder_def heartbeatLeaseHolder_def touchLeaseHolder_def confirmDrainCold_def
      persistDrainSnapshot_def persistWarmSnapshot_def foldWorkspaceArchiveOntoLease_def reap_db_eq
      reapRecount_def reapWarmingReset_def reapWarmingDrain_def recordLeaseDataPlaneUrl_def
      recordLeaseTerminalDataPlaneUrl_def markSandboxFileResourcesMaterialized_def markMaterialized_def
      forceDrain_eq split_beta Let_def keys_updateFenced keys_update_where keys_update_where [OF drained_fields(2)]
      lease_key_def split: option.splits)

lemma find_lease_None_iff: "find_lease ws grp db = None \<longleftrightarrow> (ws, grp) \<notin> set (map lease_key (leases db))"
  by (force simp: find_lease_def find_None_iff key_is_iff)

lemma other_step_None:
  "\<not> acquires op \<Longrightarrow> find_lease ws grp db = None \<Longrightarrow> find_lease ws grp (lease_step op db) = None"
  by (simp add: find_lease_None_iff other_step_keys del: set_map)

subsection \<open>Every operation refines the abstract machine\<close>

lemma acquire_step_cases:
  assumes "lease_inv db" "newId \<notin> lr_id ` set (leases db)"
  obtains (rejected) err where "acquireLease now newId inp db = Inl err"
      "lease_step (OpAcquire now newId inp) db = db"
  | (granted) role snap row row' where
      "acquireLease now newId inp db = Inr (lease_step (OpAcquire now newId inp) db, role, snap)"
      "same_elsewhere inp db (lease_step (OpAcquire now newId inp) db)"
      "find_lease (ai_workspace_id inp) (ai_group_id inp) (materializeLease now newId inp db) = Some row"
      "find_lease (ai_workspace_id inp) (ai_group_id inp) (lease_step (OpAcquire now newId inp) db) = Some row'"
      "acquire_effect inp db row role row'"
proof (cases "acquireLease now newId inp db")
  case (Inl err)
  then show ?thesis by (intro rejected) simp_all
next
  case (Inr res)
  then obtain db' role snap where acq: "acquireLease now newId inp db = Inr (db', role, snap)"
    by (cases res) auto
  with acquireLease_effect [OF assms acq] show ?thesis by (auto intro: granted)
qed

lemma live_trans_acquire:
  assumes eff: "acquire_effect inp db row role row'"
    and row: "find_lease (ai_workspace_id inp) (ai_group_id inp) (materializeLease now newId inp db) = Some row"
    and row': "find_lease (ai_workspace_id inp) (ai_group_id inp) db' = Some row'"
  shows "lease_abs (ai_workspace_id inp) (ai_group_id inp) db' = lease_abs (ai_workspace_id inp) (ai_group_id inp) db
    \<or> live_trans (lease_abs (ai_workspace_id inp) (ai_group_id inp) db) (lease_abs (ai_workspace_id inp) (ai_group_id inp) db')"
proof (cases "find_lease (ai_workspace_id inp) (ai_group_id inp) db")
  case None
  with row have "row = freshLeaseRow now newId inp" by (simp add: find_lease_materialize)
  with None row' eff show ?thesis
    by (cases role) (auto simp: lease_abs_def acquire_effect_def intro: live_trans.intros)
next
  case (Some r)
  with row have "row = r" by (simp add: find_lease_materialize)
  with Some row' eff show ?thesis
    by (cases role; cases "lr_liveness r") (auto simp: lease_abs_def acquire_effect_def intro: live_trans.intros)
qed

lemma row_step_live_trans:
  assumes "row_step db' r r'"
  shows "(lr_liveness r', lr_epoch r') = (lr_liveness r, lr_epoch r)
    \<or> live_trans (Some (lr_liveness r, lr_epoch r)) (Some (lr_liveness r', lr_epoch r'))"
  using assms
  by (cases "lr_liveness r"; cases "lr_liveness r'") (auto simp: row_step_def intro: live_trans.intros)

lemma lease_step_live_trans:
  assumes inv: "lease_inv db" and fresh: "fresh_ids op db"
  shows "lease_abs ws grp (lease_step op db) = lease_abs ws grp db
    \<or> live_trans (lease_abs ws grp db) (lease_abs ws grp (lease_step op db))"
proof (cases "acquires op")
  case True
  then obtain now newId inp where op: "op = OpAcquire now newId inp" by (cases op) (auto simp: acquires_def)
  with fresh have new: "newId \<notin> lr_id ` set (leases db)" by (simp add: fresh_ids_def)
  show ?thesis
    using inv new
  proof (cases rule: acquire_step_cases [where now = now and inp = inp])
    case rejected
    with op show ?thesis by simp
  next
    case granted
    show ?thesis
    proof (cases "(ws, grp) = (ai_workspace_id inp, ai_group_id inp)")
      case False
      with granted(2) show ?thesis by (simp add: same_elsewhere_def lease_abs_def op)
    qed (use live_trans_acquire [OF granted(5,3,4)] op in auto)
  qed
next
  case False
  show ?thesis
  proof (cases "find_lease ws grp db")
    case None
    with False show ?thesis by (simp add: lease_abs_def other_step_None)
  next
    case (Some r)
    from other_row_step [OF inv False Some] obtain r'
      where "find_lease ws grp (lease_step op db) = Some r'" "row_step (lease_step op db) r r'" by blast
    with Some row_step_live_trans show ?thesis by (auto simp: lease_abs_def)
  qed
qed

subsection \<open>The commit as an epoch-fenced compare-and-set\<close>

definition lease_commit :: "uuid \<Rightarrow> uuid \<Rightarrow> int \<Rightarrow> millis \<times> commit_input \<Rightarrow> lease_db \<Rightarrow> lease_db \<times> bool" where
  "lease_commit ws grp e v db =
     (let (db', committed, _) = commitWarmingToWarm (fst v)
            ((snd v)\<lparr>ci_workspace_id := ws, ci_group_id := grp, ci_expected_epoch := e\<rparr>) db
      in (db', committed))"

lemma find_lease_fenced:
  assumes "lease_inv db" "List.find (epoch_fence ws grp l e) (leases db) = Some r"
  shows "find_lease ws grp db = Some r \<and> lr_liveness r = l \<and> lr_epoch r = e"
  using find_SomeD [OF assms(2)] find_lease_mem [OF assms(1), of r] by (auto simp: epoch_fence_def key_is_def)

lemma commit_hit:
  assumes inv: "lease_inv db" and hit: "fst (snd (commitWarmingToWarm now inp db))"
  shows "\<exists>r r'. find_lease (ci_workspace_id inp) (ci_group_id inp) db = Some r \<and> lr_liveness r = Warming
    \<and> lr_epoch r = ci_expected_epoch inp
    \<and> find_lease (ci_workspace_id inp) (ci_group_id inp) (fst (commitWarmingToWarm now inp db)) = Some r'
    \<and> lr_liveness r' = Warm \<and> lr_epoch r' = ci_expected_epoch inp + 1
    \<and> lr_instance_id r' = Some (ci_instance_id inp)"
proof -
  from hit obtain r where
    "List.find (epoch_fence (ci_workspace_id inp) (ci_group_id inp) Warming (ci_expected_epoch inp)) (leases db) = Some r"
    by (auto simp: commitWarmingToWarm_def updateFenced_def)
  with find_lease_fenced [OF inv this] find_SomeD [OF this] show ?thesis
    by (simp add: commitWarmingToWarm_def split_beta find_lease_updateFenced lease_key_def)
qed

lemma live_trans_epoch: "live_trans (Some (l, e)) s \<Longrightarrow> \<exists>l' e'. s = Some (l', e') \<and> e \<le> e'"
  by (auto elim: live_trans_from)

lemma lease_epoch_abs: "lease_epoch ws grp db = map_option snd (lease_abs ws grp db)"
  by (cases "find_lease ws grp db") (simp_all add: lease_epoch_def lease_abs_def)

interpretation lease_cas: epoch_cas lease_step fresh_ids lease_inv "lease_epoch ws grp" "lease_commit ws grp"
  for ws grp
proof
  fix db x v
  assume inv: "lease_inv db" and hit: "snd (lease_commit ws grp x v db)"
  let ?inp = "(snd v)\<lparr>ci_workspace_id := ws, ci_group_id := grp, ci_expected_epoch := x\<rparr>"
  have "fst (snd (commitWarmingToWarm (fst v) ?inp db))"
    using hit by (simp add: lease_commit_def split_beta)
  with commit_hit [OF inv this] lease_step_inv [OF inv, of "OpCommit (fst v) ?inp"]
  show "lease_epoch ws grp db = Some x
      \<and> lease_epoch ws grp (fst (lease_commit ws grp x v db)) = Some (x + 1)
      \<and> lease_inv (fst (lease_commit ws grp x v db))"
    by (auto simp: lease_epoch_def lease_commit_def split_beta fresh_ids_def)
next
  fix db op n
  assume "lease_inv db" "fresh_ids op db" "lease_epoch ws grp db = Some n"
  then show "\<exists>m. lease_epoch ws grp (lease_step op db) = Some m \<and> n \<le> m"
    using lease_step_live_trans [of db op ws grp]
    by (auto simp: lease_epoch_abs dest!: live_trans_epoch)
qed

subsection \<open>A served holder keeps its box\<close>

text \<open>
  \<open>serves\<close>: the group's box is warm at epoch \<open>e\<close> with instance \<open>i\<close>, and the holder
  \<open>(k, hid)\<close> is registered on it. \<open>spares\<close>: the operation is not that holder's own release,
  does not reap it as stale, is not its own re-acquire with another image or rig, and does not force-drain the
  box while only viewers hold it.
\<close>

definition serves :: "uuid \<Rightarrow> uuid \<Rightarrow> holder_kind \<Rightarrow> string \<Rightarrow> int \<Rightarrow> string option \<Rightarrow> lease_db \<Rightarrow> bool" where
  "serves ws grp k hid e i db \<longleftrightarrow> lease_inv db \<and>
     (\<exists>r. find_lease ws grp db = Some r \<and> lr_liveness r = Warm \<and> lr_epoch r = e \<and> lr_instance_id r = i
        \<and> (lr_id r, k, hid) \<in> holder_key ` set (holders db))"

definition spares :: "uuid \<Rightarrow> uuid \<Rightarrow> holder_kind \<Rightarrow> string \<Rightarrow> lease_op \<Rightarrow> lease_db \<Rightarrow> bool" where
  "spares ws grp k hid op db \<longleftrightarrow> fresh_ids op db \<and>
     (case find_lease ws grp db of
        None \<Rightarrow> True
      | Some r \<Rightarrow>
          (case op of
             OpAcquire now newId inp \<Rightarrow>
               (ai_workspace_id inp, ai_group_id inp, ai_kind inp, ai_holder_id inp) = (ws, grp, k, hid) \<longrightarrow>
               \<not> conflicts (ai_image inp) (lr_image r) \<and> \<not> conflicts (ai_rig_version_id inp) (lr_rig_version_id r)
           | OpRelease now w g k' hid' grace \<Rightarrow> (w, g, k', hid') \<noteq> (ws, grp, k, hid)
           | OpReap now w vttl tttl grace \<Rightarrow>
               \<forall>h \<in> set (holders db). holder_key h = (lr_id r, k, hid) \<longrightarrow> \<not> stale_holder now w vttl tttl h
           | OpForceDrain now w grace \<Rightarrow> k = TurnHolder \<or> \<not> viewer_only w r
           | _ \<Rightarrow> True))"

lemma keys_heartbeat [simp]:
  "holder_key ` set (update_where p (\<lambda>h. h\<lparr>h_last_heartbeat_at := t\<rparr>) hs) = holder_key ` set hs"
proof -
  have "map holder_key (update_where p (\<lambda>h. h\<lparr>h_last_heartbeat_at := t\<rparr>) hs) = map holder_key hs"
    by (simp add: map_update_where holder_key_def)
  then show ?thesis by (metis list.set_map)
qed

lemma upsert_keys:
  "holder_key ` set (holders db) \<subseteq> holder_key ` set (holders (upsertLeaseHolder now lid acct ws k hid subj db))"
  by (auto simp: upsertLeaseHolder_def)

lemma acquireLease_holders:
  assumes "acquireLease now newId inp db = Inr (db', role, snap)"
  shows "holder_key ` set (holders db) \<subseteq> holder_key ` set (holders db')"
proof -
  have fin: "holder_key ` set (holders d) \<subseteq> holder_key ` set (holders d')"
    if "finishAcquire now inp lid ttl sl r0 d = Inr (d', r, s)" for lid ttl sl r0 d d' r s
    using finishAcquire_SomeD(2) [OF that] upsert_keys by simp
  have mat: "holders (materializeLease now newId inp db) = holders db" by (simp add: materializeLease_def)
  from assms obtain row where row: "find_lease (ai_workspace_id inp) (ai_group_id inp)
      (materializeLease now newId inp db) = Some row"
    by (auto simp: acquireLease_def Let_def split: option.splits)
  from assms row obtain db2 live
    where res: "resolveConflict inp row (materializeLease now newId inp db) = Inr (db2, live)"
    by (auto simp: acquireLease_def Let_def split: sum.splits)
  have "holders db2 = holders db" using res mat by (cases rule: resolveConflict_cases) simp_all
  moreover have "holders (fst (casWarming inp lid d)) = holders d" for lid d
    by (simp add: casWarming_def Let_def)
  ultimately show ?thesis
    using assms row res by (auto simp: acquireLease_def Let_def split_beta split: if_splits dest!: fin)
qed

lemma holders_updateFenced [simp]: "holders (fst (updateFenced p f db)) = holders db"
  by (simp add: updateFenced_def)

lemma step_keeps_holder:
  assumes r: "find_lease ws grp db = Some r" and key: "(lr_id r, k, hid) \<in> holder_key ` set (holders db)"
    and inv: "lease_inv db" and sp: "spares ws grp k hid op db"
  shows "(lr_id r, k, hid) \<in> holder_key ` set (holders (lease_step op db))"
proof (cases op)
  case (OpAcquire now newId inp)
  with key show ?thesis by (auto dest!: acquireLease_holders split: sum.splits)
next
  case (OpRelease now w g k' hid' grace)
  show ?thesis
  proof (cases "find_lease w g db")
    case None
    with OpRelease key show ?thesis by (simp add: releaseLeaseHolder_def)
  next
    case (Some row)
    have "\<not> (lr_id row = lr_id r \<and> k' = k \<and> hid' = hid)"
      using find_lease_same_id [OF inv Some r] sp r OpRelease by (auto simp: spares_def)
    with OpRelease Some key show ?thesis
      by (auto simp: releaseLeaseHolder_def Let_def set_delete_where holder_key_def holder_is_def image_iff)
  qed
next
  case (OpReap now w vttl tttl grace)
  with sp r key show ?thesis by (auto simp: holders_reap set_delete_where spares_def image_iff)
next
  case (OpHeartbeat now w g k' hid' ttl e)
  with key show ?thesis
    by (auto simp: heartbeatLeaseHolder_def touchLeaseHolder_def split_beta Let_def split: option.splits)
next
  case (OpTouch now w g k' hid')
  with key show ?thesis by (auto simp: touchLeaseHolder_def Let_def split: option.splits)
next
  case (OpForceDrain now w grace)
  have "\<not> drained_holder w db h" if "holder_key h = (lr_id r, k, hid)" for h
    using sp r that OpForceDrain inv find_leaseD [OF r]
    by (auto simp: spares_def drained_holder_def victims_def set_select_where holder_key_def lease_inv_def
        dest: distinct_map_inj)
  with OpForceDrain key show ?thesis by (auto simp: forceDrain_eq set_delete_where image_iff)
qed (use key in \<open>auto simp: commitWarmingToWarm_def recordWarmingSandboxCreated_def failWarmingToCold_def
      confirmDrainCold_def persistDrainSnapshot_def persistWarmSnapshot_def foldWorkspaceArchiveOntoLease_def
      recordLeaseDataPlaneUrl_def recordLeaseTerminalDataPlaneUrl_def markSandboxFileResourcesMaterialized_def
      split_beta Let_def split: option.splits\<close>)

lemma other_holders_pos:
  assumes "(lid, k, hid) \<in> holder_key ` set (holders db)" "(k', hid') \<noteq> (k, hid)"
  shows "other_holders lid k' hid' db \<noteq> 0"
  using assms by (auto simp: other_holders_def count_where_0_iff holder_key_def)

lemma acquire_serves:
  assumes inv: "lease_inv db" and r: "find_lease ws grp db = Some r" and warm: "lr_liveness r = Warm"
    and key: "(lr_id r, k, hid) \<in> holder_key ` set (holders db)"
    and op: "op = OpAcquire now newId inp" and sp: "spares ws grp k hid op db"
  shows "\<exists>r'. find_lease ws grp (lease_step op db) = Some r' \<and> lr_id r' = lr_id r \<and> lr_liveness r' = Warm
    \<and> lr_epoch r' = lr_epoch r \<and> lr_instance_id r' = lr_instance_id r"
proof -
  have new: "newId \<notin> lr_id ` set (leases db)" using sp op by (simp add: spares_def fresh_ids_def)
  show ?thesis
    using inv new
  proof (cases rule: acquire_step_cases [where now = now and inp = inp])
    case rejected
    with op r warm show ?thesis by simp
  next
    case (granted role snap row row')
    show ?thesis
    proof (cases "(ws, grp) = (ai_workspace_id inp, ai_group_id inp)")
      case False
      with granted(2) op r warm show ?thesis by (simp add: same_elsewhere_def)
    next
      case True
      with granted(3) r have "row = r" by (simp add: find_lease_materialize)
      with granted(4,5) True r warm op sp other_holders_pos [OF key, of "ai_kind inp" "ai_holder_id inp"]
      show ?thesis by (cases role) (auto simp: acquire_effect_def spares_def)
    qed
  qed
qed

lemma serves_step:
  assumes s: "serves ws grp k hid e i db" and sp: "spares ws grp k hid op db"
  shows "serves ws grp k hid e i (lease_step op db)"
proof -
  from s obtain r where inv: "lease_inv db" and r: "find_lease ws grp db = Some r" "lr_liveness r = Warm"
      "lr_epoch r = e" "lr_instance_id r = i" and key: "(lr_id r, k, hid) \<in> holder_key ` set (holders db)"
    by (auto simp: serves_def)
  let ?db' = "lease_step op db"
  have inv': "lease_inv ?db'" using inv sp by (simp add: lease_step_inv spares_def)
  have key': "(lr_id r, k, hid) \<in> holder_key ` set (holders ?db')"
    using r(1) key inv sp by (rule step_keeps_holder)
  have "\<exists>r'. find_lease ws grp ?db' = Some r' \<and> lr_id r' = lr_id r \<and> lr_liveness r' = Warm
      \<and> lr_epoch r' = e \<and> lr_instance_id r' = i"
  proof (cases "acquires op")
    case True
    then obtain now newId inp where op: "op = OpAcquire now newId inp" by (cases op) (auto simp: acquires_def)
    from acquire_serves [OF inv r(1,2) key op sp] r show ?thesis by simp
  next
    case False
    from other_row_step [OF inv False r(1)] obtain r'
      where r': "find_lease ws grp ?db' = Some r'" "row_step ?db' r r'" by blast
    have "total_holders (lr_id r) ?db' \<noteq> 0" using key' by (auto simp: total_holders_0_iff holder_key_def)
    with r r' show ?thesis by (auto simp: row_step_def)
  qed
  with inv' key' show ?thesis by (auto simp: serves_def)
qed

interpretation served: step_invariant lease_step "spares ws grp k hid" "serves ws grp k hid e i"
  for ws grp k hid e i
  by unfold_locales (rule serves_step)

end
