(* ===== verification/Lease_Props.thy ===== *)
theory Lease_Props
  imports Lease_Machine
begin

text \<open>
  The properties of the sandbox lease: what holds in every run of its operations (counters,
  the state machine, the epoch fence, a served holder keeps its box), the cold stampede, the
  workspace archive that survives a drain and a failed re-warm, and the fences against stale
  callers. Two of them describe what the reaper really does where its comments say otherwise.
\<close>

subsection \<open>The workspace archive\<close>

definition lease_archive :: "lease_row \<Rightarrow> string option" where
  "lease_archive r = jtext (archive_path ''workspaceArchive'' (lr_resume_state r))"

lemma archive_path_fold:
  "archive_path ''workspaceArchive'' (foldArchive a at prior rs) = Some (JStr a)"
  "archive_path ''workspaceArchiveAt'' (foldArchive a at prior rs) = Some (JStr at)"
  by (simp_all add: archive_path_def foldArchive_def map_of_strip_kept)

lemma archive_path_cold:
  assumes "archive_path ''workspaceArchive'' rs = Some (JStr a)"
  shows "archive_path ''workspaceArchive'' (coldEnvelope b rs) = Some (JStr a)"
  using assms by (simp add: archive_path_def coldEnvelope_def has_archive_def or_null_def)

lemma goCold_archive:
  "archive_path ''workspaceArchive'' (lr_resume_state r) = Some (JStr a) \<Longrightarrow>
   archive_path ''workspaceArchive'' (lr_resume_state (goCold r)) = Some (JStr a)"
  by (simp add: goCold_def archive_path_cold)

lemma drain_fence_find:
  assumes "lease_inv db" "find_lease ws grp db = Some r" "drain_fence ws grp e r"
  shows "List.find (drain_fence ws grp e) (leases db) = Some r"
proof -
  have "r \<in> set (leases db)" using find_leaseD [OF assms(2)] by simp
  with assms(3) obtain r' where r': "List.find (drain_fence ws grp e) (leases db) = Some r'"
    by (cases "List.find (drain_fence ws grp e) (leases db)") (auto dest: find_NoneD)
  from find_SomeD [OF r'] find_lease_mem [OF assms(1), of r'] assms(2) have "r' = r"
    by (simp add: drain_fence_def epoch_fence_def key_is_def)
  with r' show ?thesis by simp
qed

lemma persistDrain_archive:
  assumes inv: "lease_inv db" and r: "find_lease ws grp db = Some r" and fence: "drain_fence ws grp e r"
  shows "dp_wrote (snd (persistDrainSnapshot nowText ws grp e (Some a) db))
    \<and> (\<exists>r'. find_lease ws grp (fst (persistDrainSnapshot nowText ws grp e (Some a) db)) = Some r'
         \<and> drain_fence ws grp e r' \<and> archive_path ''workspaceArchive'' (lr_resume_state r') = Some (JStr a))"
  using drain_fence_find [OF assms] r fence
  by (simp add: persistDrainSnapshot_def archive_path_fold drain_fence_def epoch_fence_def key_is_def)

lemma confirm_archive:
  assumes inv: "lease_inv db" and r: "find_lease ws grp db = Some r" and fence: "drain_fence ws grp e r"
    and a: "archive_path ''workspaceArchive'' (lr_resume_state r) = Some (JStr a)"
  shows "snd (confirmDrainCold ws grp e db)
    \<and> (\<exists>r'. find_lease ws grp (fst (confirmDrainCold ws grp e db)) = Some r' \<and> lr_liveness r' = Cold
         \<and> lr_epoch r' = lr_epoch r \<and> lr_instance_id r' = None
         \<and> archive_path ''workspaceArchive'' (lr_resume_state r') = Some (JStr a))"
  using drain_fence_find [OF inv r fence] r fence a
  by (auto simp: confirmDrainCold_def split_beta find_lease_updateFenced goCold_archive)
     (simp_all add: updateFenced_def goCold_def archive_path_cold)

subsection \<open>Acquiring a cold and a warming lease\<close>

lemma finishAcquire_ok:
  assumes "row \<in> set (leases db)" "lr_id row = lid"
  shows "\<exists>db' snap. finishAcquire now inp lid ttl sl role db = Inr (db', role, snap)"
proof -
  let ?db1 = "upsertLeaseHolder now lid (ai_account_id inp) (ai_workspace_id inp) (ai_kind inp)
       (ai_holder_id inp) (ai_subject_id inp) db"
  let ?db2 = "recomputeAndStampLease now lid ttl sl ?db1"
  have "stampRow ?db1 now ttl sl row \<in> set (leases ?db2)"
    using assms by (auto simp: recomputeAndStampLease_def set_update_where)
  moreover have "lr_id (stampRow ?db1 now ttl sl row) = lid" using assms by simp
  ultimately obtain r where "List.find (\<lambda>r. lr_id r = lid) (leases ?db2) = Some r"
    by (cases "List.find (\<lambda>r. lr_id r = lid) (leases ?db2)") (auto dest: find_NoneD)
  then show ?thesis by (auto simp: finishAcquire_def Let_def)
qed

lemma finishAcquire_ids:
  "finishAcquire now inp lid ttl sl role db = Inr (db', role', snap) \<Longrightarrow>
   map lr_id (leases db') = map lr_id (leases db)"
  by (auto simp: finishAcquire_def recomputeAndStampLease_def Let_def map_update_where split: option.splits)

definition same_setup :: "acquire_input \<Rightarrow> acquire_input \<Rightarrow> bool" where
  "same_setup a b \<longleftrightarrow> (ai_workspace_id a, ai_group_id a, ai_image a, ai_rig_version_id a)
     = (ai_workspace_id b, ai_group_id b, ai_image b, ai_rig_version_id b)"

definition no_conflict :: "acquire_input \<Rightarrow> lease_row \<Rightarrow> bool" where
  "no_conflict inp r \<longleftrightarrow>
     \<not> conflicts (ai_image inp) (lr_image r) \<and> \<not> conflicts (ai_rig_version_id inp) (lr_rig_version_id r)"

lemma conflicts_stamp [simp]: "\<not> conflicts x (stamp x y)"
  by (simp add: conflicts_def stamp_def split: option.splits)

lemma stampRow_resume [simp]: "lr_resume_state (stampRow db now ttl sl r) = lr_resume_state r"
  by (simp add: stampRow_def)

lemma acquire_cold:
  assumes inv: "lease_inv db" and new: "newId \<notin> lr_id ` set (leases db)"
    and r: "find_lease (ai_workspace_id inp) (ai_group_id inp) (materializeLease now newId inp db) = Some r"
    and cold: "lr_liveness r = Cold"
  shows "\<exists>db' snap r'. acquireLease now newId inp db = Inr (db', Spawner, snap)
    \<and> find_lease (ai_workspace_id inp) (ai_group_id inp) db' = Some r' \<and> lr_liveness r' = Warming
    \<and> lr_epoch r' = lr_epoch r \<and> no_conflict inp r' \<and> lr_resume_state r' = lr_resume_state r
    \<and> lr_id ` set (leases db') \<subseteq> insert newId (lr_id ` set (leases db))"
proof -
  let ?db1 = "materializeLease now newId inp db"
  have inv1: "lease_inv ?db1" using inv new by (rule materialize_inv)
  have mem: "r \<in> set (leases ?db1)" using find_leaseD [OF r] by simp
  have won: "snd (casWarming inp (lr_id r) ?db1)"
    using mem cold by (auto simp: casWarming_def Let_def exists_where_iff)
  define row3 where "row3 = r\<lparr>lr_liveness := Warming, lr_image := stamp (ai_image inp) (lr_image r),
      lr_rig_version_id := stamp (ai_rig_version_id inp) (lr_rig_version_id r)\<rparr>"
  have "row3 \<in> set (leases (fst (casWarming inp (lr_id r) ?db1)))"
    using mem cold unfolding row3_def casWarming_def Let_def fst_conv by (auto simp: set_update_where)
  then obtain db' snap where fin: "finishAcquire now inp (lr_id r)
      (case ai_warming_lease_ttl_ms inp of None \<Rightarrow> ai_lease_ttl_ms inp | Some t \<Rightarrow> t) None Spawner
      (fst (casWarming inp (lr_id r) ?db1)) = Inr (db', Spawner, snap)"
    using finishAcquire_ok by (fastforce simp: row3_def)
  have "acquireLease now newId inp db = Inr (db', Spawner, snap)"
    using r cold won fin by (simp add: acquireLease_def Let_def resolveConflict_def split_beta)
  moreover from finishAcquire_effect [OF inv1 r fin casWarming_find] cold obtain dbc ttl
    where "find_lease (ai_workspace_id inp) (ai_group_id inp) db' = Some (stampRow dbc now ttl None row3)"
    by (auto simp: row3_def)
  moreover have "map lr_id (leases db') = map lr_id (leases ?db1)"
    using finishAcquire_ids [OF fin] by (simp add: casWarming_def Let_def map_update_where)
  then have "lr_id ` set (leases db') = lr_id ` set (leases ?db1)" by (metis list.set_map)
  moreover have "lr_id ` set (leases ?db1) \<subseteq> insert newId (lr_id ` set (leases db))"
    by (auto simp: materializeLease_def)
  ultimately show ?thesis by (simp add: row3_def no_conflict_def)
qed

lemma acquire_warming:
  assumes inv: "lease_inv db"
    and r: "find_lease (ai_workspace_id inp) (ai_group_id inp) db = Some r"
    and warming: "lr_liveness r = Warming" and nc: "no_conflict inp r"
  shows "\<exists>db' snap r'. acquireLease now newId inp db = Inr (db', Attached, snap)
    \<and> find_lease (ai_workspace_id inp) (ai_group_id inp) db' = Some r' \<and> lr_liveness r' = Warming
    \<and> lr_image r' = lr_image r \<and> lr_rig_version_id r' = lr_rig_version_id r
    \<and> map lr_id (leases db') = map lr_id (leases db)"
proof -
  have mem: "r \<in> set (leases db)" using find_leaseD [OF r] by simp
  have db1: "materializeLease now newId inp db = db"
    using find_leaseD [OF r] by (auto simp: materializeLease_def exists_where_iff key_is_def)
  let ?ttl = "case ai_warming_lease_ttl_ms inp of None \<Rightarrow> ai_lease_ttl_ms inp | Some t \<Rightarrow> t"
  from finishAcquire_ok [OF mem refl] obtain db' snap
    where fin: "finishAcquire now inp (lr_id r) ?ttl None Attached db = Inr (db', Attached, snap)" by blast
  have "acquireLease now newId inp db = Inr (db', Attached, snap)"
    using r warming nc fin by (simp add: acquireLease_def Let_def db1 resolveConflict_def no_conflict_def)
  moreover have "find_lease ws grp db = map_option (\<lambda>x. if lr_id x = lr_id r \<and> False then id x else x)
      (find_lease ws grp db)" for ws grp by (simp add: option.map_ident)
  from finishAcquire_effect [OF inv r fin this] obtain dbc
    where "find_lease (ai_workspace_id inp) (ai_group_id inp) db' = Some (stampRow dbc now ?ttl None r)" by auto
  ultimately show ?thesis using warming finishAcquire_ids [OF fin] by simp
qed

fun acquire_all :: "(millis \<times> uuid \<times> acquire_input) list \<Rightarrow> lease_db \<Rightarrow> lease_db \<times> acquire_role option list" where
  "acquire_all [] db = (db, [])"
| "acquire_all ((now, newId, inp) # reqs) db =
     (let (db', role) = (case acquireLease now newId inp db of
                           Inl _ \<Rightarrow> (db, None) | Inr (d, r, _) \<Rightarrow> (d, Some r));
          (db'', roles) = acquire_all reqs db'
      in (db'', role # roles))"

lemma acquire_all_warming:
  assumes "lease_inv db" "find_lease (ai_workspace_id inp) (ai_group_id inp) db = Some r"
    "lr_liveness r = Warming" "no_conflict inp r"
    "\<forall>(now, newId, i) \<in> set reqs. same_setup i inp \<and> newId \<notin> lr_id ` set (leases db)"
  shows "snd (acquire_all reqs db) = replicate (length reqs) (Some Attached)"
  using assms
proof (induction reqs arbitrary: db r)
  case Nil
  then show ?case by simp
next
  case (Cons req reqs)
  obtain now newId i where req: "req = (now, newId, i)" by (cases req) auto
  with Cons.prems(5) have i: "same_setup i inp" and new: "newId \<notin> lr_id ` set (leases db)" by auto
  have key: "ai_workspace_id i = ai_workspace_id inp" "ai_group_id i = ai_group_id inp"
    using i by (simp_all add: same_setup_def)
  have nc: "no_conflict i r" using i Cons.prems(4) by (simp add: same_setup_def no_conflict_def)
  have r: "find_lease (ai_workspace_id i) (ai_group_id i) db = Some r" using Cons.prems(2) key by simp
  from acquire_warming [OF Cons.prems(1) r Cons.prems(3) nc] obtain db' snap r'
    where acq: "acquireLease now newId i db = Inr (db', Attached, snap)"
      and r': "find_lease (ai_workspace_id inp) (ai_group_id inp) db' = Some r'" "lr_liveness r' = Warming"
        "lr_image r' = lr_image r" "lr_rig_version_id r' = lr_rig_version_id r"
      and map_ids: "map lr_id (leases db') = map lr_id (leases db)"
    using key by metis
  have inv': "lease_inv db'" using Cons.prems(1) new acq by (rule acquireLease_inv)
  have ids: "lr_id ` set (leases db') = lr_id ` set (leases db)"
    using map_ids by (metis list.set_map)
  have "snd (acquire_all reqs db') = replicate (length reqs) (Some Attached)"
    using inv' r'(1,2)
  proof (rule Cons.IH)
    show "no_conflict inp r'" using r'(3,4) Cons.prems(4) by (simp add: no_conflict_def)
    show "\<forall>(now, newId, i) \<in> set reqs. same_setup i inp \<and> newId \<notin> lr_id ` set (leases db')"
      using Cons.prems(5) by (simp add: ids)
  qed
  with req acq show ?case by (simp add: split_beta)
qed

subsection \<open>Concrete inputs\<close>

definition demo_acquire :: "holder_kind \<Rightarrow> string \<Rightarrow> acquire_input" where
  "demo_acquire k hid =
     \<lparr>ai_account_id = ''a'', ai_workspace_id = ''w'', ai_group_id = ''g'', ai_kind = k, ai_holder_id = hid,
      ai_subject_id = None, ai_backend = ''modal'', ai_os = None, ai_image = None,
      ai_rig_version_id = None, ai_lease_ttl_ms = 90, ai_warming_lease_ttl_ms = None,
      ai_expected_epoch = None\<rparr>"

definition demo_commit :: "int \<Rightarrow> commit_input" where
  "demo_commit e =
     \<lparr>ci_workspace_id = ''w'', ci_group_id = ''g'', ci_expected_epoch = e, ci_instance_id = ''i'',
      ci_data_plane_url = None, ci_resume_backend_id = None, ci_resume_state = None,
      ci_lease_ttl_ms = 90, ci_warming_lease_ttl_ms = None\<rparr>"

definition demo_warm :: "lease_op list" where
  "demo_warm = [OpAcquire 0 ''l'' (demo_acquire TurnHolder ''t''),
                OpAcquire 1 ''m'' (demo_acquire ViewerHolder ''v''), OpCommit 2 (demo_commit 0)]"

definition demo_idle :: "lease_op list" where
  "demo_idle = demo_warm @ [OpRelease 3 ''w'' ''g'' TurnHolder ''t'' 5, OpRelease 3 ''w'' ''g'' ViewerHolder ''v'' 5]"

lemma demo_warm_ok: "admissible lease_step fresh_ids demo_warm lease_empty"
  by code_simp

lemma demo_idle_ok: "admissible lease_step fresh_ids demo_idle lease_empty"
  by code_simp

subsection \<open>Properties of every run\<close>

text \<open>
  C1: in every run of the lease operations from empty tables, the (workspace, group) index and
  the holder index stay unique, every holder belongs to a lease of its workspace, and the three
  counters of a live (warming or warm) lease are the numbers of holder rows it has, the total
  being turns plus viewers.
\<close>

theorem lease_counters_in_every_run:
  assumes "admissible lease_step fresh_ids ops lease_empty"
  defines "db \<equiv> run_ops lease_step ops lease_empty"
  shows "lease_inv db \<and>
    (\<forall>r \<in> set (leases db). lr_liveness r = Warming \<or> lr_liveness r = Warm \<longrightarrow>
       lr_refcount r = total_holders (lr_id r) db \<and> lr_turn_holders r = kind_holders TurnHolder (lr_id r) db
       \<and> lr_viewer_holders r = kind_holders ViewerHolder (lr_id r) db
       \<and> lr_refcount r = lr_turn_holders r + lr_viewer_holders r)"
proof -
  have "lease_inv db"
    unfolding db_def using lease_inv_empty assms(1) by (rule lease_run.run_inv)
  then show ?thesis
    by (auto simp: lease_inv_def in_sync_def zeroed_def total_holders_split)
qed

lemma lease_counters_in_every_run_witness:
  "(\<exists>r \<in> set (leases (run_ops lease_step demo_warm lease_empty)). lr_liveness r = Warm \<and> lr_refcount r = 2)
   \<and> lease_inv (run_ops lease_step demo_warm lease_empty)"
proof
  show "\<exists>r \<in> set (leases (run_ops lease_step demo_warm lease_empty)). lr_liveness r = Warm \<and> lr_refcount r = 2"
    by code_simp
  show "lease_inv (run_ops lease_step demo_warm lease_empty)"
    using lease_counters_in_every_run [OF demo_warm_ok] by blast
qed

text \<open>
  C2: every lease operation refines the abstract lease machine: seen from any group, it leaves
  liveness and epoch alone or takes one of the nine transitions (spawn, recreate, commit, spawn
  failure, warming death, drain, re-arm, go cold); only the commit changes the epoch, by one.
\<close>

theorem lease_refines_machine:
  assumes "admissible lease_step fresh_ids ops lease_empty"
    and "fresh_ids op (run_ops lease_step ops lease_empty)"
  defines "db \<equiv> run_ops lease_step ops lease_empty"
  shows "lease_abs ws grp (lease_step op db) = lease_abs ws grp db
    \<or> live_trans (lease_abs ws grp db) (lease_abs ws grp (lease_step op db))"
  unfolding db_def
  using lease_run.run_inv [OF lease_inv_empty assms(1)] assms(2) by (rule lease_step_live_trans)

lemma lease_refines_machine_witness:
  "lease_abs ''w'' ''g'' (run_ops lease_step demo_idle lease_empty) = Some (Draining, 1)
   \<and> lease_abs ''w'' ''g'' (lease_step (OpConfirmCold ''w'' ''g'' 1) (run_ops lease_step demo_idle lease_empty)) = Some (Cold, 1)
   \<and> live_trans (Some (Draining, 1)) (Some (Cold, 1))"
proof -
  have a: "lease_abs ''w'' ''g'' (run_ops lease_step demo_idle lease_empty) = Some (Draining, 1)"
    and b: "lease_abs ''w'' ''g'' (lease_step (OpConfirmCold ''w'' ''g'' 1) (run_ops lease_step demo_idle lease_empty))
      = Some (Cold, 1)"
    by code_simp+
  have "fresh_ids (OpConfirmCold ''w'' ''g'' 1) (run_ops lease_step demo_idle lease_empty)"
    by (simp add: fresh_ids_def)
  from lease_refines_machine [OF demo_idle_ok this, of "''w''" "''g''"] show ?thesis by (simp add: a b del: lease_step.simps)
qed

text \<open>
  C3: an epoch is committed at most once. After a successful \<open>commitWarmingToWarm\<close> at epoch
  \<open>e\<close>, no later commit of the same group at \<open>e\<close> succeeds, whatever operations run between.
\<close>

theorem commit_once_per_epoch:
  assumes "admissible lease_step fresh_ids ops lease_empty"
  defines "db \<equiv> run_ops lease_step ops lease_empty"
  assumes "fst (snd (commitWarmingToWarm now inp db))"
    and "admissible lease_step fresh_ids later (fst (commitWarmingToWarm now inp db))"
    and "(ci_workspace_id inp', ci_group_id inp', ci_expected_epoch inp')
      = (ci_workspace_id inp, ci_group_id inp, ci_expected_epoch inp)"
  shows "\<not> fst (snd (commitWarmingToWarm now' inp' (run_ops lease_step later (fst (commitWarmingToWarm now inp db)))))"
proof -
  have inv: "lease_inv db" unfolding db_def by (rule lease_run.run_inv [OF lease_inv_empty assms(1)])
  have "lease_commit (ci_workspace_id inp) (ci_group_id inp) (ci_expected_epoch inp) (t, i) d
      = (fst (commitWarmingToWarm t i d), fst (snd (commitWarmingToWarm t i d)))"
    if "(ci_workspace_id i, ci_group_id i, ci_expected_epoch i)
      = (ci_workspace_id inp, ci_group_id inp, ci_expected_epoch inp)" for t i d
  proof -
    have "i\<lparr>ci_workspace_id := ci_workspace_id inp, ci_group_id := ci_group_id inp,
        ci_expected_epoch := ci_expected_epoch inp\<rparr> = i" using that by (cases i) simp
    then show ?thesis by (simp add: lease_commit_def split_beta)
  qed
  note eq = this [OF refl] this [OF assms(5)]
  from lease_cas.cas_once [OF inv, of "ci_workspace_id inp" "ci_group_id inp" "ci_expected_epoch inp" "(now, inp)" later
      "(now', inp')"] assms(3,4) show ?thesis by (simp add: eq)
qed

lemma commit_once_per_epoch_witness:
  "fst (snd (commitWarmingToWarm 2 (demo_commit 0) (run_ops lease_step (take 2 demo_warm) lease_empty)))
   \<and> \<not> fst (snd (commitWarmingToWarm 9 (demo_commit 0) (run_ops lease_step [OpTouch 3 ''w'' ''g'' TurnHolder ''t'']
       (fst (commitWarmingToWarm 2 (demo_commit 0) (run_ops lease_step (take 2 demo_warm) lease_empty))))))"
proof -
  have a: "admissible lease_step fresh_ids (take 2 demo_warm) lease_empty" by code_simp
  have b: "fst (snd (commitWarmingToWarm 2 (demo_commit 0) (run_ops lease_step (take 2 demo_warm) lease_empty)))"
    by code_simp
  from commit_once_per_epoch [OF a b, of "[OpTouch 3 ''w'' ''g'' TurnHolder ''t'']" "demo_commit 0" 9] b
  show ?thesis by (simp add: fresh_ids_def)
qed

text \<open>
  C4: a holder registered on a warm box keeps it. In any run whose operations do not release
  that holder, do not reap it as stale, are not its own re-acquire with another image or rig and do
  not force-drain the workspace while the box has viewers only, the group stays warm at the same epoch on the same instance and the holder stays registered,
  whatever the other holders, spawners, heartbeats and reaper sweeps do. A turn survives every
  force-drain; a viewer is spared by one only while a turn holds the box too.
\<close>

theorem served_holder_keeps_box:
  assumes "serves ws grp k hid e i db" and "admissible lease_step (spares ws grp k hid) ops db"
  shows "\<exists>r. find_lease ws grp (run_ops lease_step ops db) = Some r \<and> lr_liveness r = Warm \<and> lr_epoch r = e
    \<and> lr_instance_id r = i
    \<and> (\<exists>h \<in> set (holders (run_ops lease_step ops db)). holder_is (lr_id r) k hid h)"
  using served.run_inv [OF assms] by (auto simp: serves_def holder_key_def holder_is_def)

definition demo_noise :: "lease_op list" where
  "demo_noise = [OpRelease 3 ''w'' ''g'' ViewerHolder ''v'' 5, OpReap 50 ''w'' 10 (Some 60) 5,
                 OpForceDrain 55 ''w'' 5, OpConfirmCold ''w'' ''g'' 1, OpFailWarming ''w'' ''g'' 1]"

lemma served_holder_keeps_box_witness:
  "\<exists>r. find_lease ''w'' ''g'' (run_ops lease_step demo_noise (run_ops lease_step demo_warm lease_empty)) = Some r
    \<and> lr_liveness r = Warm \<and> lr_instance_id r = Some ''i''"
proof -
  have "lease_inv (run_ops lease_step demo_warm lease_empty)" by (rule lease_run.run_inv [OF lease_inv_empty demo_warm_ok])
  moreover have "\<exists>r. find_lease ''w'' ''g'' (run_ops lease_step demo_warm lease_empty) = Some r \<and> lr_liveness r = Warm
      \<and> lr_epoch r = 1 \<and> lr_instance_id r = Some ''i''
      \<and> (lr_id r, TurnHolder, ''t'') \<in> holder_key ` set (holders (run_ops lease_step demo_warm lease_empty))"
    by (rule exI [of _ "the (find_lease ''w'' ''g'' (run_ops lease_step demo_warm lease_empty))"]) code_simp
  ultimately have "serves ''w'' ''g'' TurnHolder ''t'' 1 (Some ''i'') (run_ops lease_step demo_warm lease_empty)"
    by (simp add: serves_def)
  moreover have "admissible lease_step (spares ''w'' ''g'' TurnHolder ''t'') demo_noise
      (run_ops lease_step demo_warm lease_empty)"
    by code_simp
  ultimately show ?thesis using served_holder_keeps_box by blast
qed

subsection \<open>The cold stampede\<close>

text \<open>
  When any number of callers acquire a cold (or absent) lease with the same image and rig,
  the first becomes the spawner and every other one attaches: exactly one box is built, and no
  call fails.
\<close>

theorem cold_stampede_one_spawner:
  assumes "lease_inv db"
    and "\<forall>r \<in> set (leases db). key_is (ai_workspace_id inp) (ai_group_id inp) r \<longrightarrow> lr_liveness r = Cold"
    and "\<forall>(now', newId', i) \<in> set reqs. same_setup i inp"
    and "distinct (newId # map (fst \<circ> snd) reqs)"
    and "set (newId # map (fst \<circ> snd) reqs) \<inter> lr_id ` set (leases db) = {}"
  shows "snd (acquire_all ((now, newId, inp) # reqs) db) = Some Spawner # replicate (length reqs) (Some Attached)"
proof -
  have new: "newId \<notin> lr_id ` set (leases db)" using assms(5) by auto
  obtain r where r: "find_lease (ai_workspace_id inp) (ai_group_id inp) (materializeLease now newId inp db) = Some r"
    and cold: "lr_liveness r = Cold"
    using assms(2)
    by (cases "find_lease (ai_workspace_id inp) (ai_group_id inp) db")
       (auto simp: find_lease_materialize key_is_def dest: find_leaseD)
  from acquire_cold [OF assms(1) new r cold] obtain db' snap r'
    where acq: "acquireLease now newId inp db = Inr (db', Spawner, snap)"
      and r': "find_lease (ai_workspace_id inp) (ai_group_id inp) db' = Some r'" "lr_liveness r' = Warming"
        "no_conflict inp r'"
      and ids: "lr_id ` set (leases db') \<subseteq> insert newId (lr_id ` set (leases db))" by blast
  have inv': "lease_inv db'" using assms(1) new acq by (rule acquireLease_inv)
  have "\<forall>(now, newId, i) \<in> set reqs. same_setup i inp \<and> newId \<notin> lr_id ` set (leases db')"
  proof (clarify, intro conjI)
    fix t n i assume req: "(t, n, i) \<in> set reqs"
    then have n: "n \<in> set (map (fst \<circ> snd) reqs)" by force
    show "same_setup i inp" using req assms(3) by auto
    have "n \<noteq> newId" using n assms(4) by (metis distinct.simps(2))
    moreover have "n \<notin> lr_id ` set (leases db)" using n assms(5) by (metis disjoint_iff list.set_intros(2))
    ultimately show "n \<notin> lr_id ` set (leases db')" using ids by blast
  qed
  from acquire_all_warming [OF inv' r' this] acq show ?thesis by (simp add: split_beta)
qed

lemma cold_stampede_one_spawner_witness:
  "snd (acquire_all [(0, ''l'', demo_acquire TurnHolder ''t''), (0, ''m'', demo_acquire TurnHolder ''u''),
      (1, ''n'', demo_acquire ViewerHolder ''v'')] lease_empty) = [Some Spawner, Some Attached, Some Attached]"
  using cold_stampede_one_spawner [of lease_empty "demo_acquire TurnHolder ''t''"
      "[(0, ''m'', demo_acquire TurnHolder ''u''), (1, ''n'', demo_acquire ViewerHolder ''v'')]" "''l''" 0]
    lease_inv_empty
  by (simp add: lease_empty_def same_setup_def demo_acquire_def numeral_2_eq_2)

subsection \<open>The archive survives\<close>

text \<open>
  The workspace archive is not lost. A drainable box is snapshotted and confirmed cold; a
  later acquire makes its caller the spawner and hands it that same archive; when the re-warm
  fails, the cold lease still carries it.
\<close>

theorem archive_survives_drain_and_failed_rewarm:
  fixes nowText a :: string
  assumes inv: "lease_inv db" and r: "find_lease ws grp db = Some r" and fence: "drain_fence ws grp e r"
    and key: "(ai_workspace_id inp, ai_group_id inp) = (ws, grp)"
    and new: "newId \<notin> lr_id ` set (leases db)"
  defines "db1 \<equiv> fst (persistDrainSnapshot nowText ws grp e (Some a) db)"
  defines "db2 \<equiv> fst (confirmDrainCold ws grp e db1)"
  shows "dp_wrote (snd (persistDrainSnapshot nowText ws grp e (Some a) db)) \<and> snd (confirmDrainCold ws grp e db1)
    \<and> (\<exists>db3 snap. acquireLease now newId inp db2 = Inr (db3, Spawner, snap)
        \<and> map_option lease_archive (find_lease ws grp db3) = Some (Some a)
        \<and> map_option lease_archive (find_lease ws grp (failWarmingToCold ws grp e db3)) = Some (Some a)
        \<and> map_option lr_liveness (find_lease ws grp (failWarmingToCold ws grp e db3)) = Some Cold)"
proof -
  have inv1: "lease_inv db1" and inv2: "lease_inv db2"
    using lease_step_inv [OF inv, of "OpPersistDrain nowText ws grp e (Some a)"]
      lease_step_inv [of db1 "OpConfirmCold ws grp e"] by (simp_all add: fresh_ids_def db1_def db2_def)
  from persistDrain_archive [OF inv r fence, of nowText a] obtain r1
    where w1: "dp_wrote (snd (persistDrainSnapshot nowText ws grp e (Some a) db))"
      and r1: "find_lease ws grp db1 = Some r1" "drain_fence ws grp e r1"
        "archive_path ''workspaceArchive'' (lr_resume_state r1) = Some (JStr a)"
    by (auto simp: db1_def)
  from confirm_archive [OF inv1 r1] obtain r2
    where w2: "snd (confirmDrainCold ws grp e db1)" and r2: "find_lease ws grp db2 = Some r2"
        "lr_liveness r2 = Cold" "lr_epoch r2 = e"
        "archive_path ''workspaceArchive'' (lr_resume_state r2) = Some (JStr a)"
    using r1(2) by (auto simp: db2_def drain_fence_def epoch_fence_def)
  have "map lr_id (leases db2) = map lr_id (leases db)"
    by (simp add: db2_def db1_def confirmDrainCold_def persistDrainSnapshot_def foldWorkspaceArchiveOntoLease_def
        updateFenced_def split_beta map_update_where split: option.splits)
  then have new2: "newId \<notin> lr_id ` set (leases db2)" using new by (metis list.set_map)
  have "find_lease (ai_workspace_id inp) (ai_group_id inp) (materializeLease now newId inp db2) = Some r2"
    using r2(1) key by (simp add: find_lease_materialize)
  from acquire_cold [OF inv2 new2 this r2(2)] obtain db3 snap r3
    where acq: "acquireLease now newId inp db2 = Inr (db3, Spawner, snap)"
      and r3: "find_lease ws grp db3 = Some r3" "lr_liveness r3 = Warming" "lr_epoch r3 = e"
        "archive_path ''workspaceArchive'' (lr_resume_state r3) = Some (JStr a)"
    using key r2(3,4) by auto
  have "epoch_fence ws grp Warming e r3"
    using r3 find_leaseD [OF r3(1)] by (simp add: epoch_fence_def key_is_def)
  with r3 have "find_lease ws grp (failWarmingToCold ws grp e db3) = Some (goCold r3)"
    by (simp add: failWarmingToCold_def find_lease_updateFenced)
  with acq w1 w2 r3 goCold_archive [OF r3(4)] show ?thesis by (auto simp: lease_archive_def)
qed

lemma archive_survives_drain_and_failed_rewarm_witness:
  "\<exists>db3 snap. acquireLease 99 ''z'' (demo_acquire TurnHolder ''t2'')
      (fst (confirmDrainCold ''w'' ''g'' 1 (fst (persistDrainSnapshot ''now'' ''w'' ''g'' 1 (Some ''tar'')
        (run_ops lease_step demo_idle lease_empty))))) = Inr (db3, Spawner, snap)
    \<and> map_option lease_archive (find_lease ''w'' ''g'' (failWarmingToCold ''w'' ''g'' 1 db3)) = Some (Some ''tar'')"
proof -
  let ?db = "run_ops lease_step demo_idle lease_empty"
  have inv: "lease_inv ?db" by (rule lease_run.run_inv [OF lease_inv_empty demo_idle_ok])
  have "find_lease ''w'' ''g'' ?db = Some (hd (leases ?db))" "drain_fence ''w'' ''g'' 1 (hd (leases ?db))"
    "''z'' \<notin> lr_id ` set (leases ?db)"
    by code_simp+
  with archive_survives_drain_and_failed_rewarm [OF inv, where ws = "''w''" and grp = "''g''" and r = "hd (leases ?db)"
      and e = 1 and inp = "demo_acquire TurnHolder ''t2''" and newId = "''z''" and nowText = "''now''"
      and a = "''tar''" and now = 99]
  show ?thesis by (auto simp: demo_acquire_def)
qed

subsection \<open>Fences\<close>

lemma updateFenced_miss:
  assumes "lease_inv db" "find_lease ws grp db = Some r" "\<not> p r" "\<And>x. p x \<Longrightarrow> key_is ws grp x"
  shows "fst (updateFenced p f db) = db \<and> List.find p (leases db) = None"
proof -
  have none: "\<not> p x" if x: "x \<in> set (leases db)" for x
  proof
    assume "p x"
    then have "lr_workspace_id x = ws" "lr_group_id x = grp" using assms(4) by (auto simp: key_is_def)
    with find_lease_mem [OF assms(1) x] assms(2,3) \<open>p x\<close> show False by simp
  qed
  then show ?thesis by (simp add: updateFenced_def update_where_none find_None_iff)
qed

lemma stale_epoch_misses:
  assumes inv: "lease_inv db" and r: "find_lease ws grp db = Some r" and stale: "lr_epoch r \<noteq> e"
    and key: "(ci_workspace_id ci, ci_group_id ci, ci_expected_epoch ci) = (ws, grp, e)"
  shows "commitWarmingToWarm now ci db = (db, False, None)"
    and "recordWarmingSandboxCreated now ci db = (db, False, None)"
    and "failWarmingToCold ws grp e db = db"
    and "confirmDrainCold ws grp e db = (db, False)"
    and "\<not> dp_wrote (snd (persistDrainSnapshot nowText ws grp e a db)) \<and> fst (persistDrainSnapshot nowText ws grp e a db) = db"
    and "\<not> wp_wrote (snd (persistWarmSnapshot fmt prs ws grp e b mi cap db)) \<and> fst (persistWarmSnapshot fmt prs ws grp e b mi cap db) = db"
    and "\<not> snd (heartbeatLeaseHolder now ws grp k hid ttl e db) \<and> leases (fst (heartbeatLeaseHolder now ws grp k hid ttl e db)) = leases db"
proof -
  have miss: "List.find (epoch_fence ws grp l e) (leases db) = None"
      "fst (updateFenced (epoch_fence ws grp l e) f db) = db" for l f
    using updateFenced_miss [OF inv r, of "epoch_fence ws grp l e" f] stale by (auto simp: epoch_fence_def)
  have miss_d: "List.find (drain_fence ws grp e) (leases db) = None"
      "fst (updateFenced (drain_fence ws grp e) f db) = db" for f
    using updateFenced_miss [OF inv r, of "drain_fence ws grp e" f] stale
    by (auto simp: epoch_fence_def drain_fence_def)
  show "commitWarmingToWarm now ci db = (db, False, None)" "recordWarmingSandboxCreated now ci db = (db, False, None)"
    using miss key by (simp_all add: commitWarmingToWarm_def recordWarmingSandboxCreated_def updateFenced_def Let_def)
  show "failWarmingToCold ws grp e db = db" using miss by (simp add: failWarmingToCold_def)
  show "confirmDrainCold ws grp e db = (db, False)" using miss_d by (simp add: confirmDrainCold_def updateFenced_def)
  show "\<not> dp_wrote (snd (persistDrainSnapshot nowText ws grp e a db)) \<and> fst (persistDrainSnapshot nowText ws grp e a db) = db"
    using miss_d by (simp add: persistDrainSnapshot_def)
  show "\<not> wp_wrote (snd (persistWarmSnapshot fmt prs ws grp e b mi cap db)) \<and> fst (persistWarmSnapshot fmt prs ws grp e b mi cap db) = db"
    using miss by (simp add: persistWarmSnapshot_def)
  let ?db1 = "fst (touchLeaseHolder now ws grp k hid db)"
  have "lease_inv ?db1" using inv by (rule touch_inv)
  moreover have "find_lease ws grp ?db1 = Some r" using r by simp
  moreover have "leases ?db1 = leases db" by (simp add: touchLeaseHolder_def Let_def split: option.splits)
  ultimately show "\<not> snd (heartbeatLeaseHolder now ws grp k hid ttl e db)
      \<and> leases (fst (heartbeatLeaseHolder now ws grp k hid ttl e db)) = leases db"
    using updateFenced_miss [of ?db1 ws grp r "\<lambda>r. key_is ws grp r \<and> lr_epoch r = e
        \<and> (lr_liveness r = Warm \<or> lr_liveness r = Warming)"] stale
    by (auto simp: heartbeatLeaseHolder_def split_beta Let_def updateFenced_def)
qed

text \<open>
  A stale caller is inert. When the group's row carries another epoch than the one a caller
  holds, its commit, its record of a created box, its failure report, its confirm-cold and its
  snapshots change nothing and report a miss, and its heartbeat reports a miss and extends no
  lease.
\<close>

theorem stale_epoch_is_inert:
  assumes inv: "lease_inv db" and r: "find_lease ws grp db = Some r" and stale: "lr_epoch r \<noteq> e"
    and key: "(ci_workspace_id ci, ci_group_id ci, ci_expected_epoch ci) = (ws, grp, e)"
  shows "(commitWarmingToWarm now ci db = (db, False, None))
    \<and> (recordWarmingSandboxCreated now ci db = (db, False, None))
    \<and> (failWarmingToCold ws grp e db = db)
    \<and> (confirmDrainCold ws grp e db = (db, False))
    \<and> (\<not> dp_wrote (snd (persistDrainSnapshot nowText ws grp e a db)) \<and> fst (persistDrainSnapshot nowText ws grp e a db) = db)
    \<and> (\<not> wp_wrote (snd (persistWarmSnapshot fmt prs ws grp e b mi cap db)) \<and> fst (persistWarmSnapshot fmt prs ws grp e b mi cap db) = db)
    \<and> (\<not> snd (heartbeatLeaseHolder now ws grp k hid ttl e db) \<and> leases (fst (heartbeatLeaseHolder now ws grp k hid ttl e db)) = leases db)"
  using stale_epoch_misses [OF assms] by blast

lemma stale_epoch_is_inert_witness:
  "commitWarmingToWarm 9 (demo_commit 0) (run_ops lease_step demo_warm lease_empty)
     = (run_ops lease_step demo_warm lease_empty, False, None)"
proof -
  let ?db = "run_ops lease_step demo_warm lease_empty"
  have "find_lease ''w'' ''g'' ?db = Some (hd (leases ?db))" "lr_epoch (hd (leases ?db)) \<noteq> 0" by code_simp+
  from stale_epoch_is_inert [OF lease_run.run_inv [OF lease_inv_empty demo_warm_ok] this, of "demo_commit 0" 9]
  show ?thesis by (simp add: demo_commit_def)
qed

text \<open>
  A re-arm beats a drain in flight. When an acquire brings a draining box back to warm, the
  drain that listed it before can neither snapshot nor confirm it cold, at any epoch: both miss
  and change nothing.
\<close>

theorem rearm_defeats_drain:
  assumes inv: "lease_inv db" and new: "newId \<notin> lr_id ` set (leases db)"
    and acq: "acquireLease now newId inp db = Inr (db', Rearmed, snap)"
  shows "confirmDrainCold (ai_workspace_id inp) (ai_group_id inp) e db' = (db', False)
    \<and> \<not> dp_wrote (snd (persistDrainSnapshot nowText (ai_workspace_id inp) (ai_group_id inp) e a db'))
    \<and> fst (persistDrainSnapshot nowText (ai_workspace_id inp) (ai_group_id inp) e a db') = db'"
proof -
  have inv': "lease_inv db'" using inv new acq by (rule acquireLease_inv)
  from acquireLease_effect [OF inv new acq] obtain r'
    where r': "find_lease (ai_workspace_id inp) (ai_group_id inp) db' = Some r'" "lr_liveness r' = Warm"
    by (auto simp: acquire_effect_def)
  note miss = updateFenced_miss [OF inv' r'(1), of "drain_fence (ai_workspace_id inp) (ai_group_id inp) e" goCold]
  show ?thesis
    using miss r'(2)
    by (auto simp: confirmDrainCold_def persistDrainSnapshot_def updateFenced_def drain_fence_def epoch_fence_def)
qed

lemma rearm_defeats_drain_witness:
  "\<exists>db' snap. acquireLease 4 ''z'' (demo_acquire TurnHolder ''t2'') (run_ops lease_step demo_idle lease_empty)
      = Inr (db', Rearmed, snap) \<and> confirmDrainCold ''w'' ''g'' 1 db' = (db', False)"
proof -
  let ?db = "run_ops lease_step demo_idle lease_empty"
  let ?res = "projr (acquireLease 4 ''z'' (demo_acquire TurnHolder ''t2'') ?db)"
  have acq: "acquireLease 4 ''z'' (demo_acquire TurnHolder ''t2'') ?db = Inr (fst ?res, Rearmed, snd (snd ?res))"
    by code_simp
  have new: "''z'' \<notin> lr_id ` set (leases ?db)" by code_simp
  from rearm_defeats_drain [OF lease_run.run_inv [OF lease_inv_empty demo_idle_ok] new acq, of 1] acq
  show ?thesis by (auto simp: demo_acquire_def)
qed

subsection \<open>Warm snapshots\<close>

lemma fence_find:
  assumes "lease_inv db" "find_lease ws grp db = Some r" "epoch_fence ws grp l e r"
  shows "List.find (epoch_fence ws grp l e) (leases db) = Some r"
proof -
  have "r \<in> set (leases db)" using find_leaseD [OF assms(2)] by simp
  with assms(3) obtain r' where r': "List.find (epoch_fence ws grp l e) (leases db) = Some r'"
    by (cases "List.find (epoch_fence ws grp l e) (leases db)") (auto dest: find_NoneD)
  from find_lease_fenced [OF assms(1) r'] assms(2) r' show ?thesis by simp
qed

lemma archive_prev_fold:
  "archive_path ''workspaceArchivePrev'' (foldArchive a at (Some p) rs) = Some (JStr p)"
  by (simp add: archive_path_def foldArchive_def map_of_strip_kept text_or_null_def)

text \<open>
  A warm snapshot never goes back in time. Once a snapshot captured at \<open>cap\<close> is written, the
  lease carries it, the archive it replaced is kept as the previous one, and a snapshot captured
  at or before \<open>cap\<close> that arrives later is refused as superseded and changes nothing.
  \<open>toISOString\<close> and \<open>dateParse\<close> are JavaScript's; what is used of them is that a formatted
  date is not empty and parses back.
\<close>

theorem warm_snapshot_never_goes_back:
  assumes inv: "lease_inv db"
    and date: "\<And>t. toISOString t \<noteq> [] \<and> dateParse (toISOString t) = Some t"
    and wrote: "wp_wrote (snd (persistWarmSnapshot toISOString dateParse ws grp e a mi cap db))"
    and late: "cap' \<le> cap"
  defines "db1 \<equiv> fst (persistWarmSnapshot toISOString dateParse ws grp e a mi cap db)"
  shows "\<exists>r r1. find_lease ws grp db = Some r \<and> find_lease ws grp db1 = Some r1 \<and> lease_archive r1 = Some a
    \<and> (\<forall>p. lease_archive r = Some p \<longrightarrow>
          jtext (archive_path ''workspaceArchivePrev'' (lr_resume_state r1)) = Some p)
    \<and> fst (persistWarmSnapshot toISOString dateParse ws grp e a' mi' cap' db1) = db1
    \<and> wp_superseded (snd (persistWarmSnapshot toISOString dateParse ws grp e a' mi' cap' db1))"
proof -
  from wrote obtain r where r: "List.find (epoch_fence ws grp Warm e) (leases db) = Some r"
    by (auto simp: persistWarmSnapshot_def split: option.splits)
  note fr = find_lease_fenced [OF inv r]
  have fence: "epoch_fence ws grp Warm e r" using find_SomeD [OF r] by simp
  define r1 where "r1 = r\<lparr>lr_resume_state := foldArchive a (toISOString cap) (lease_archive r) (lr_resume_state r)\<rparr>"
  have db1: "db1 = foldWorkspaceArchiveOntoLease (epoch_fence ws grp Warm e) a (toISOString cap) (lease_archive r) db"
    using wrote r by (auto simp: db1_def persistWarmSnapshot_def Let_def lease_archive_def split: if_splits)
  have r1: "find_lease ws grp db1 = Some r1" using fr fence by (simp add: db1 r1_def)
  have fence1: "epoch_fence ws grp Warm e r1" using fence by (simp add: r1_def epoch_fence_def key_is_def)
  have "lease_inv db1" unfolding db1 by (rule foldArchive_inv [OF inv])
  from fence_find [OF this r1 fence1] date late
  have "fst (persistWarmSnapshot toISOString dateParse ws grp e a' mi' cap' db1) = db1
      \<and> wp_superseded (snd (persistWarmSnapshot toISOString dateParse ws grp e a' mi' cap' db1))"
    by (simp add: persistWarmSnapshot_def Let_def r1_def archive_path_fold)
  moreover have "lease_archive r1 = Some a" by (simp add: lease_archive_def r1_def archive_path_fold)
  ultimately show ?thesis using fr r1 by (auto simp: r1_def archive_prev_fold)
qed

lemma warm_snapshot_never_goes_back_witness:
  "wp_superseded (snd (persistWarmSnapshot int_dec dec_int ''w'' ''g'' 1 ''old'' 0 4
     (fst (persistWarmSnapshot int_dec dec_int ''w'' ''g'' 1 ''new'' 0 5 (run_ops lease_step demo_warm lease_empty)))))"
proof -
  let ?db = "run_ops lease_step demo_warm lease_empty"
  have "wp_wrote (snd (persistWarmSnapshot int_dec dec_int ''w'' ''g'' 1 ''new'' 0 5 ?db))" by code_simp
  from warm_snapshot_never_goes_back [OF lease_run.run_inv [OF lease_inv_empty demo_warm_ok] dec_int_int_dec this, of 4 "''old''" 0]
  show ?thesis by auto
qed

subsection \<open>What the reaper does to a dead warming\<close>

text \<open>
  A spawner that dies before its box exists costs the group its archive. For the same dead
  warming lease, \<open>failWarmingToCold\<close> keeps the workspace archive, while the reaper's reset
  brings the lease back cold with no resume state at all: the archive written by the last drain
  is no longer referenced.
\<close>

theorem reaper_reset_drops_archive:
  assumes r: "find_lease ws grp db = Some r" and dead: "warmingDead now ws r" and no_box: "lr_instance_id r = None"
    and archive: "archive_path ''workspaceArchive'' (lr_resume_state r) = Some (JStr a)"
  shows "(\<exists>r'. find_lease ws grp (fst (reapStaleLeaseHolders now ws vttl tttl grace db)) = Some r'
        \<and> lr_liveness r' = Cold \<and> lease_archive r' = None)
    \<and> (\<exists>r'. find_lease ws grp (failWarmingToCold ws grp (lr_epoch r) db) = Some r'
        \<and> lr_liveness r' = Cold \<and> lease_archive r' = Some a)"
proof
  have key: "lr_workspace_id r = ws" "lr_liveness r = Warming" "lr_expires_at r < now" "key_is ws grp r"
    using dead find_leaseD [OF r] by (simp_all add: warmingDead_def key_is_def)
  show "\<exists>r'. find_lease ws grp (fst (reapStaleLeaseHolders now ws vttl tttl grace db)) = Some r'
      \<and> lr_liveness r' = Cold \<and> lease_archive r' = None"
    using r key no_box
    by (simp add: reap_db_eq find_lease_reap Let_def warmingDead_def lease_archive_def archive_path_def)
  show "\<exists>r'. find_lease ws grp (failWarmingToCold ws grp (lr_epoch r) db) = Some r'
      \<and> lr_liveness r' = Cold \<and> lease_archive r' = Some a"
    using r key archive
    by (simp add: failWarmingToCold_def find_lease_updateFenced epoch_fence_def lease_archive_def archive_path_cold)
qed

definition demo_rewarm :: "lease_op list" where
  "demo_rewarm = demo_idle @ [OpPersistDrain ''now'' ''w'' ''g'' 1 (Some ''tar''), OpConfirmCold ''w'' ''g'' 1,
     OpAcquire 10 ''z'' (demo_acquire TurnHolder ''t2'')]"

lemma reaper_reset_drops_archive_witness:
  "\<exists>r'. find_lease ''w'' ''g'' (fst (reapStaleLeaseHolders 200 ''w'' 10 None 5 (run_ops lease_step demo_rewarm lease_empty))) = Some r'
     \<and> lr_liveness r' = Cold \<and> lease_archive r' = None"
proof -
  let ?db = "run_ops lease_step demo_rewarm lease_empty"
  have a: "find_lease ''w'' ''g'' ?db = Some (hd (leases ?db))" by code_simp
  have b: "warmingDead 200 ''w'' (hd (leases ?db))" "lr_instance_id (hd (leases ?db)) = None" by code_simp+
  have c: "archive_path ''workspaceArchive'' (lr_resume_state (hd (leases ?db))) = Some (JStr ''tar'')" by code_simp
  from reaper_reset_drops_archive [OF a b c] show ?thesis by blast
qed

text \<open>
  A box whose spawner died after creating it is listed for termination by one sweep only.
  The reaper moves the row to draining with zeroed counters but leaves its holder rows; while a
  holder is not stale, the next sweep counts it again and no longer lists the box.
\<close>

theorem dead_warming_box_listed_once:
  fixes grace :: millis
  assumes inv: "lease_inv db" and r: "find_lease ws grp db = Some r" and dead: "warmingDead now ws r"
    and box: "lr_instance_id r = Some i"
    and h: "h \<in> set (holders db)" "h_lease_id h = lr_id r"
    and alive: "\<not> stale_holder now ws vttl tttl h" "\<not> stale_holder now' ws vttl tttl h"
  defines "sweep1 \<equiv> reapStaleLeaseHolders now ws vttl tttl grace db"
  defines "sweep2 \<equiv> reapStaleLeaseHolders now' ws vttl tttl grace (fst sweep1)"
  shows "(ws, grp, Some i, lr_epoch r) \<in> set (rr_drained (snd sweep1))
    \<and> (\<forall>d \<in> set (rr_drained (snd sweep2)). fst (snd d) \<noteq> grp)"
proof
  let ?db1 = "fst sweep1" and ?db2 = "fst sweep2"
  have inv1: "lease_inv ?db1" and inv2: "lease_inv ?db2"
    using reap_inv [OF inv] reap_inv [of "fst sweep1"] by (simp_all add: sweep1_def sweep2_def)
  have key: "lr_workspace_id r = ws" "lr_group_id r = grp" "lr_liveness r = Warming" "lr_expires_at r < now"
    using dead find_leaseD [OF r] by (simp_all add: warmingDead_def)
  have drained: "rr_drained (snd (reapStaleLeaseHolders t ws vttl tttl grace d)) =
      map (\<lambda>r. (ws, lr_group_id r, lr_instance_id r, lr_epoch r))
        (select_where (drainable t ws) (leases (fst (reapStaleLeaseHolders t ws vttl tttl grace d))))" for t d
    by (simp add: reapStaleLeaseHolders_def split_beta Let_def)
  obtain r1 where r1: "find_lease ws grp ?db1 = Some r1" "lr_liveness r1 = Draining" "lr_refcount r1 = 0"
      "lr_expires_at r1 = now - 1" "lr_instance_id r1 = Some i" "lr_epoch r1 = lr_epoch r" "lr_id r1 = lr_id r"
      "lr_workspace_id r1 = ws" "lr_group_id r1 = grp"
    using r key box by (simp add: sweep1_def reap_db_eq find_lease_reap Let_def warmingDead_def)
  have mem1: "r1 \<in> set (leases ?db1)" using find_leaseD [OF r1(1)] by simp
  have "drainable now ws r1" using r1 by (simp add: drainable_def)
  with mem1 r1 show "(ws, grp, Some i, lr_epoch r) \<in> set (rr_drained (snd sweep1))"
    by (auto simp: sweep1_def drained set_select_where intro!: image_eqI [of _ _ r1])
  have "h \<in> set (holders (?db1\<lparr>holders := delete_where (stale_holder now' ws vttl tttl) (holders ?db1)\<rparr>))"
    using h alive by (simp add: sweep1_def holders_reap set_delete_where)
  then have pos: "total_holders (lr_id r) (?db1\<lparr>holders := delete_where (stale_holder now' ws vttl tttl) (holders ?db1)\<rparr>) \<noteq> 0"
    using h(2) by (auto simp: total_holders_0_iff)
  obtain r2 where r2: "find_lease ws grp ?db2 = Some r2" "lr_refcount r2 \<noteq> 0"
    using r1 pos by (simp add: sweep2_def reap_db_eq find_lease_reap Let_def warmingDead_def)
  show "\<forall>d \<in> set (rr_drained (snd sweep2)). fst (snd d) \<noteq> grp"
    using find_lease_mem [OF inv2] r2 by (auto simp: sweep2_def drained set_select_where drainable_def)
qed

definition demo_created :: "lease_op list" where
  "demo_created = [OpAcquire 0 ''l'' (demo_acquire TurnHolder ''t''), OpRecordCreated 1 (demo_commit 0)]"

lemma dead_warming_box_listed_once_witness:
  "(''w'', ''g'', Some ''i'', 0) \<in> set (rr_drained (snd (reapStaleLeaseHolders 100 ''w'' 10 (Some 900) 5
     (run_ops lease_step demo_created lease_empty))))"
proof -
  let ?db = "run_ops lease_step demo_created lease_empty"
  have ok: "admissible lease_step fresh_ids demo_created lease_empty" by code_simp
  have a: "find_lease ''w'' ''g'' ?db = Some (hd (leases ?db))" by code_simp
  have b: "warmingDead 100 ''w'' (hd (leases ?db))" "lr_instance_id (hd (leases ?db)) = Some ''i''" by code_simp+
  have c: "hd (holders ?db) \<in> set (holders ?db)" "h_lease_id (hd (holders ?db)) = lr_id (hd (leases ?db))" by code_simp+
  have d: "\<not> stale_holder 100 ''w'' 10 (Some 900) (hd (holders ?db))"
    "\<not> stale_holder 110 ''w'' 10 (Some 900) (hd (holders ?db))" by code_simp+
  have e: "lr_epoch (hd (leases ?db)) = 0" by code_simp
  from dead_warming_box_listed_once [OF lease_run.run_inv [OF lease_inv_empty ok] a b c d, of 5] e show ?thesis by simp
qed

subsection \<open>Files already on a box\<close>

lemma mergedFileIds_has: "i \<in> set ids \<Longrightarrow> JStr i \<in> set (mergedFileIds rank existing ids)"
  by (force simp: mergedFileIds_def Let_def List.map_filter_def jtext_def)

lemma materialized_read_back:
  assumes "i \<in> set ids" "rs = JObj (jput ''opengeniFileMaterialization'' (JArr (materialized_entries rank inst ids xs)) fs)"
  shows "JStr i \<in> set (materialized_file_ids inst rs)"
proof -
  let ?fids = "mergedFileIds rank
     (case List.find (\<lambda>x. entry_instance x = Some inst) xs of None \<Rightarrow> None | Some x \<Rightarrow> jget x ''fileIds'') ids"
  let ?entry = "JObj [(''instanceId'', JStr inst), (''fileIds'', JArr ?fids)]"
  have "?entry \<in> set (materialized_entries rank inst ids xs)"
    unfolding materialized_entries_def Let_def set_sort by simp
  moreover have "concat (map lax_elems (lax_member ''opengeniFileMaterialization'' rs)) = materialized_entries rank inst ids xs"
    by (simp add: assms(2) lax_member_def lax_elems_def List.map_filter_def jput_def update_conv)
  moreover have "JStr inst \<in> set (concat (map lax_elems (lax_member ''instanceId'' ?entry)))"
    by (simp add: lax_member_def lax_elems_def List.map_filter_def)
  moreover have "JArr ?fids \<in> set (lax_member ''fileIds'' ?entry)"
    by (simp add: lax_member_def lax_elems_def List.map_filter_def)
  moreover have "JStr i \<in> set (lax_elems (JArr ?fids))" using assms(1) by (simp add: lax_elems_def mergedFileIds_has)
  ultimately show ?thesis unfolding materialized_file_ids_def by fastforce
qed

text \<open>What was recorded for a box is read back for it, at the same epoch and instance.\<close>

lemma materialized_files_remembered:
  assumes inv: "lease_inv db"
    and m: "markSandboxFileResourcesMaterialized rank ws grp e inst ids db = Some (db', True)"
    and i: "i \<in> set ids" "i \<noteq> []"
  shows "i \<in> getMaterializedSandboxFileResources ws grp e inst db'"
proof -
  let ?p = "materialized_fence ws grp e inst"
  let ?f = "markMaterialized rank inst (rev (remdups (rev (filter (\<lambda>i. i \<noteq> []) ids))))"
  from m have db': "db' = fst (updateFenced ?p ?f db)" and "\<exists>r. List.find ?p (leases db) = Some r"
    by (auto simp: markSandboxFileResourcesMaterialized_def updateFenced_def split_beta Let_def split: if_splits)
  then obtain r where r: "List.find ?p (leases db) = Some r" by blast
  have "?p (?f x) = ?p x" for x by (simp add: materialized_fence_def epoch_fence_def key_is_def markMaterialized_def)
  then have "List.find ?p (leases db') = Some (?f r)"
    using r find_SomeD [OF r] by (simp add: db' updateFenced_def find_update_where)
  moreover have "JStr i \<in> set (materialized_file_ids inst (the (lr_resume_state (?f r))))"
    unfolding markMaterialized_def by (simp, rule materialized_read_back [OF _ refl]) (use i in auto)
  ultimately show ?thesis
    by (force simp: getMaterializedSandboxFileResources_def markMaterialized_def List.map_filter_def)
qed

end
