(* ===== verification/Payload.thy ===== *)
theory Payload
  imports Prelude "HOL-Library.Word"
begin

text \<open>
  JavaScript values as event payloads carry them, and the sanitiser every payload passes before
  it is stored (\<^verbatim>\<open>packages/db/src/event-payload-sanitizer.ts\<close>). A JavaScript string is a list of
  16-bit UTF-16 code units. An object is an association list of its own properties with unique
  keys; \<^verbatim>\<open>Object.fromEntries\<close> lets a later entry win. The order of properties is not modelled
  beyond insertion order.

  Shown: whatever the payload, the stored value holds no NUL and no lone surrogate in any string
  or key; clean strings are untouched; and every property with a sensitive name is redacted at
  every depth, provided the keys themselves carry no NUL (with a NUL in the key, they are not).
\<close>

type_synonym jstr = "16 word list"

datatype jsval =
    VNull
  | VBool bool
  | VNum int
  | VStr jstr
  | VArr "jsval list"
  | VObj "(jstr \<times> jsval) list"

definition u16 :: "string \<Rightarrow> jstr" where
  "u16 s = map (\<lambda>c. of_nat (of_char c)) s"

text \<open>The same over the code generator's integers, which evaluate faster than unary naturals.\<close>

definition char_unit :: "char \<Rightarrow> 16 word" where
  "char_unit c = of_int (of_char c)"

lemma char_unit_code [code abstract]: "uint (char_unit c) = of_char c"
proof -
  have "(of_char c :: int) < 256" "0 \<le> (of_char c :: int)" by (cases c, simp)+
  then show ?thesis by (simp add: char_unit_def unsigned_of_int take_bit_eq_mod of_nat_of_char)
qed

lemma u16_code [code]: "u16 s = map char_unit s"
  by (simp add: u16_def char_unit_def of_nat_of_char of_int_of_char)

definition js_put :: "jstr \<Rightarrow> jsval \<Rightarrow> (jstr \<times> jsval) list \<Rightarrow> (jstr \<times> jsval) list" where
  "js_put k v fs = AList.update k v fs"

definition fromEntries :: "(jstr \<times> jsval) list \<Rightarrow> (jstr \<times> jsval) list" where
  "fromEntries es = foldl (\<lambda>acc (k, v). js_put k v acc) [] es"

subsection \<open>Strings\<close>

definition high_surrogate :: "16 word \<Rightarrow> bool" where
  "high_surrogate c \<longleftrightarrow> 0xD800 \<le> c \<and> c \<le> 0xDBFF"

definition low_surrogate :: "16 word \<Rightarrow> bool" where
  "low_surrogate c \<longleftrightarrow> 0xDC00 \<le> c \<and> c \<le> 0xDFFF"

definition REPLACEMENT :: "16 word" where
  "REPLACEMENT = 0xFFFD"

definition REDACTED :: jsval where
  "REDACTED = VStr (u16 ''[redacted]'')"

fun rebuild :: "jstr \<Rightarrow> jstr" where
  "rebuild [] = []"
| "rebuild [c] =
     (if c = 0 then [] else if high_surrogate c then [REPLACEMENT]
      else if low_surrogate c then [REPLACEMENT] else [c])"
| "rebuild (c # d # cs) =
     (if c = 0 then rebuild (d # cs)
      else if high_surrogate c then
        if low_surrogate d then c # d # rebuild cs else REPLACEMENT # rebuild (d # cs)
      else if low_surrogate c then REPLACEMENT # rebuild (d # cs)
      else c # rebuild (d # cs))"

definition sanitizeEventString :: "jstr \<Rightarrow> jstr" where
  "sanitizeEventString s =
     (if list_ex (\<lambda>c. c = 0 \<or> (0xD800 \<le> c \<and> c \<le> 0xDFFF)) s then rebuild s else s)"

text \<open>
  \<^verbatim>\<open>toLowerCase\<close> followed by a comparison with ASCII names: only A to Z and the Kelvin sign have
  an ASCII lower case, so every other code unit is left as it is.
\<close>

definition lower_unit :: "16 word \<Rightarrow> 16 word" where
  "lower_unit c = (if 65 \<le> c \<and> c \<le> 90 then c + 32 else if c = 0x212A then 107 else c)"

definition normalizeFieldName :: "jstr \<Rightarrow> jstr" where
  "normalizeFieldName k = filter (\<lambda>c. c \<noteq> 45 \<and> c \<noteq> 95) (map lower_unit k)"

definition SENSITIVE_FIELD_NAMES :: "jstr list" where
  "SENSITIVE_FIELD_NAMES = map u16
     [''authorization'', ''headers'', ''accesstoken'', ''refreshtoken'', ''idtoken'', ''token'',
      ''apikey'', ''secret'', ''clientsecret'', ''credential'', ''credentialencrypted'',
      ''encryptedpkceverifier'', ''codeverifier'']"

definition is_sensitive :: "jstr \<Rightarrow> bool" where
  "is_sensitive k \<longleftrightarrow> normalizeFieldName k \<in> set SENSITIVE_FIELD_NAMES"

subsection \<open>Header names\<close>

fun js_le :: "jstr \<Rightarrow> jstr \<Rightarrow> bool" where
  "js_le [] _ = True"
| "js_le (_ # _) [] = False"
| "js_le (a # as) (b # bs) = (a < b \<or> a = b \<and> js_le as bs)"

fun js_insort :: "jstr \<Rightarrow> jstr list \<Rightarrow> jstr list" where
  "js_insort x [] = [x]"
| "js_insort x (y # ys) = (if js_le x y then x # y # ys else y # js_insort x ys)"

definition js_sort :: "jstr list \<Rightarrow> jstr list" where
  "js_sort xs = foldr js_insort xs []"

fun safeHeaderNames :: "jsval option \<Rightarrow> jstr list option" where
  "safeHeaderNames (Some (VObj fs)) = Some (js_sort (map (sanitizeEventString \<circ> fst) fs))"
| "safeHeaderNames _ = None"

definition header_keys :: "jstr list" where
  "header_keys = [u16 ''headers'', u16 ''headersEncrypted'']"

definition without_headers :: "(jstr \<times> jsval) list \<Rightarrow> (jstr \<times> jsval) list" where
  "without_headers fs = filter (\<lambda>kv. fst kv \<notin> set header_keys) fs"

definition item_header_names :: "(jstr \<times> jsval) list \<Rightarrow> jstr list option" where
  "item_header_names fs =
     (case safeHeaderNames (map_of fs (u16 ''headers'')) of
        Some ns \<Rightarrow> Some ns
      | None \<Rightarrow> safeHeaderNames (map_of fs (u16 ''headersEncrypted'')))"

definition withHeaderNames :: "jstr list option \<Rightarrow> jsval \<Rightarrow> jsval" where
  "withHeaderNames names cleaned =
     (case (names, cleaned) of
        (Some ns, VObj fs) \<Rightarrow> VObj (js_put (u16 ''headerNames'') (VArr (map VStr ns)) fs)
      | _ \<Rightarrow> cleaned)"

subsection \<open>The deep walk\<close>

text \<open>
  \<open>sanitizeHeaderList\<close> is the body shared, word for word, by \<^verbatim>\<open>sanitizeSessionMcpServerList\<close> and
  \<^verbatim>\<open>sanitizeMcpCredentialUpdateList\<close>.
\<close>

fun is_plain_object :: "jsval \<Rightarrow> bool" where
  "is_plain_object (VObj _) = True"
| "is_plain_object _ = False"

fun object_fields :: "jsval \<Rightarrow> (jstr \<times> jsval) list" where
  "object_fields (VObj fs) = fs"
| "object_fields _ = []"

lemma size_field: "kv \<in> set fs \<Longrightarrow> size (snd kv) < size (VObj fs)"
  by (induction fs) (auto simp: size_prod_simp)

lemma size_element: "v \<in> set xs \<Longrightarrow> size v < size (VArr xs)"
  by (induction xs) auto

lemma size_filter_fields: "size (VObj (filter P fs)) \<le> size (VObj fs)"
  by (induction fs) auto

lemma size_rest_item:
  assumes "is_plain_object item" "item \<in> set xs"
  shows "size (VObj (without_headers (object_fields item))) < size (VArr xs)"
proof -
  obtain fs where "item = VObj fs" using assms(1) by (cases item) auto
  with size_element [OF assms(2)] size_filter_fields [of "\<lambda>kv. fst kv \<notin> set header_keys" fs] show ?thesis
    by (simp add: without_headers_def)
qed

function (sequential)
  sanitizeEventPayload :: "jsval \<Rightarrow> jsval" and
  sanitizeSensitiveEventField :: "jstr \<Rightarrow> jsval \<Rightarrow> jsval" and
  sanitizeHeaderList :: "jsval \<Rightarrow> jsval" where
  "sanitizeEventPayload (VStr s) = VStr (sanitizeEventString s)"
| "sanitizeEventPayload (VArr xs) = VArr (map sanitizeEventPayload xs)"
| "sanitizeEventPayload (VObj fs) =
     VObj (fromEntries (map (\<lambda>kv. (sanitizeEventString (fst kv),
                                   sanitizeSensitiveEventField (fst kv) (snd kv))) fs))"
| "sanitizeEventPayload v = v"
| "sanitizeSensitiveEventField k v =
     (if k = u16 ''mcpServers'' then sanitizeHeaderList v
      else if k = u16 ''mcpCredentialUpdates'' then sanitizeHeaderList v
      else if is_sensitive k then REDACTED
      else sanitizeEventPayload v)"
| "sanitizeHeaderList (VArr xs) =
     VArr (map (\<lambda>item.
       if is_plain_object item
       then withHeaderNames (item_header_names (object_fields item))
              (sanitizeEventPayload (VObj (without_headers (object_fields item))))
       else sanitizeEventPayload item) xs)"
| "sanitizeHeaderList v = sanitizeEventPayload v"
  by pat_completeness auto

termination
  by (relation "measures
       [case_sum size (case_sum (\<lambda>(k, v). size v) size),
        case_sum (\<lambda>_. 0) (case_sum (\<lambda>_. 2) (\<lambda>_. 1))]")
     (auto dest: size_field size_element size_rest_item)

subsection \<open>What may be stored\<close>

fun str_ok :: "jstr \<Rightarrow> bool" where
  "str_ok [] = True"
| "str_ok [c] = (c \<noteq> 0 \<and> \<not> high_surrogate c \<and> \<not> low_surrogate c)"
| "str_ok (c # d # cs) =
     (c \<noteq> 0 \<and> (if high_surrogate c then low_surrogate d \<and> str_ok cs
               else \<not> low_surrogate c \<and> str_ok (d # cs)))"

fun js_ok :: "jsval \<Rightarrow> bool" where
  "js_ok (VStr s) = str_ok s"
| "js_ok (VArr xs) = list_all js_ok xs"
| "js_ok (VObj fs) = list_all (\<lambda>kv. str_ok (fst kv) \<and> js_ok (snd kv)) fs"
| "js_ok _ = True"

text \<open>Every property with a sensitive name carries the redaction marker, at every depth.\<close>

fun redacted :: "jsval \<Rightarrow> bool" where
  "redacted (VArr xs) = list_all redacted xs"
| "redacted (VObj fs) = list_all (\<lambda>kv. (is_sensitive (fst kv) \<longrightarrow> snd kv = REDACTED) \<and> redacted (snd kv)) fs"
| "redacted _ = True"

fun keys_ok :: "jsval \<Rightarrow> bool" where
  "keys_ok (VArr xs) = list_all keys_ok xs"
| "keys_ok (VObj fs) = list_all (\<lambda>kv. str_ok (fst kv) \<and> keys_ok (snd kv)) fs"
| "keys_ok _ = True"

subsection \<open>Lemmas\<close>

lemma surrogate_cases:
  "high_surrogate c \<Longrightarrow> \<not> low_surrogate c" "high_surrogate c \<Longrightarrow> c \<noteq> 0" "low_surrogate c \<Longrightarrow> c \<noteq> 0"
  "\<not> high_surrogate REPLACEMENT" "\<not> low_surrogate REPLACEMENT" "REPLACEMENT \<noteq> 0"
  by (auto simp: high_surrogate_def low_surrogate_def REPLACEMENT_def word_le_nat_alt)

lemma surrogate_range: "0xD800 \<le> c \<and> c \<le> 0xDFFF \<longleftrightarrow> high_surrogate c \<or> low_surrogate c" for c :: "16 word"
  unfolding high_surrogate_def low_surrogate_def by (simp add: word_le_nat_alt) arith

lemma str_ok_Cons:
  "c \<noteq> 0 \<Longrightarrow> \<not> high_surrogate c \<Longrightarrow> \<not> low_surrogate c \<Longrightarrow> str_ok (c # t) = str_ok t"
  by (cases t) auto

lemma str_ok_pair: "high_surrogate c \<Longrightarrow> low_surrogate d \<Longrightarrow> str_ok (c # d # t) = str_ok t"
  by (auto simp: surrogate_cases)

lemma rebuild_ok: "str_ok (rebuild s)"
  by (induction s rule: rebuild.induct) (auto simp: str_ok_Cons str_ok_pair surrogate_cases)

lemma rebuild_id: "str_ok s \<Longrightarrow> rebuild s = s"
  by (induction s rule: rebuild.induct) (auto simp: surrogate_cases split: if_splits)

lemma clean_ok: "\<not> list_ex (\<lambda>c. c = 0 \<or> high_surrogate c \<or> low_surrogate c) s \<Longrightarrow> str_ok s"
  by (induction s) (auto simp: str_ok_Cons)

lemma sanitizeEventString_ok: "str_ok (sanitizeEventString s)"
  by (simp add: sanitizeEventString_def surrogate_range rebuild_ok clean_ok)

lemma sanitizeEventString_id: "str_ok s \<Longrightarrow> sanitizeEventString s = s"
  by (simp add: sanitizeEventString_def rebuild_id)

lemma set_js_put: "set (js_put k v fs) \<subseteq> insert (k, v) (set fs)"
  unfolding js_put_def by (induction fs) auto

lemma set_fromEntries: "set (fromEntries es) \<subseteq> set es"
proof -
  have "set (foldl (\<lambda>acc (k, v). js_put k v acc) acc es) \<subseteq> set acc \<union> set es" for acc
  proof (induction es arbitrary: acc)
    case Nil
    then show ?case by simp
  next
    case (Cons e es)
    obtain k v where "e = (k, v)" by (cases e)
    with Cons.IH [of "js_put k v acc"] set_js_put [of k v acc] show ?case by auto
  qed
  then show ?thesis by (fastforce simp: fromEntries_def)
qed

lemma list_all_fromEntries: "list_all P es \<Longrightarrow> list_all P (fromEntries es)"
  using set_fromEntries by (auto simp: list_all_iff)

lemma list_all_js_put: "P (k, v) \<Longrightarrow> list_all P fs \<Longrightarrow> list_all P (js_put k v fs)"
  using set_js_put by (fastforce simp: list_all_iff)

lemma set_js_sort: "set (js_sort xs) = set xs"
proof -
  have "set (js_insort x ys) = insert x (set ys)" for x ys by (induction ys) auto
  then show ?thesis unfolding js_sort_def by (induction xs) auto
qed

lemma item_header_names_ok: "item_header_names fs = Some ns \<Longrightarrow> list_all str_ok ns"
proof -
  have "list_all str_ok ns" if "safeHeaderNames v = Some ns" for v
    using that by (cases v rule: safeHeaderNames.cases)
      (auto simp: list_all_iff set_js_sort sanitizeEventString_ok)
  then show "item_header_names fs = Some ns \<Longrightarrow> list_all str_ok ns"
    by (auto simp: item_header_names_def split: option.splits)
qed

lemma literals_ok: "str_ok (u16 ''headerNames'')" "str_ok (u16 ''[redacted]'')"
  "\<not> is_sensitive (u16 ''headerNames'')" "\<not> is_sensitive (u16 ''mcpServers'')"
  "\<not> is_sensitive (u16 ''mcpCredentialUpdates'')"
  by code_simp+

lemma withHeaderNames_ok:
  assumes "js_ok v"
  shows "js_ok (withHeaderNames (item_header_names fs) v)"
proof (cases "item_header_names fs")
  case None
  with assms show ?thesis by (simp add: withHeaderNames_def)
next
  case (Some ns)
  then have "list_all str_ok ns" by (rule item_header_names_ok)
  with assms Some show ?thesis
    by (cases v) (simp_all add: withHeaderNames_def list_all_js_put literals_ok list.pred_map o_def)
qed

lemma sanitize_js_ok:
  "js_ok (sanitizeEventPayload v)" "js_ok (sanitizeSensitiveEventField k v)" "js_ok (sanitizeHeaderList v)"
  by (induction v and k v and v
      rule: sanitizeEventPayload_sanitizeSensitiveEventField_sanitizeHeaderList.induct)
    (auto simp: sanitizeEventString_ok list.pred_map o_def list_all_iff REDACTED_def withHeaderNames_ok literals_ok
      dest!: set_fromEntries [THEN subsetD])

lemma withHeaderNames_redacted: "redacted v \<Longrightarrow> redacted (withHeaderNames names v)"
  by (cases names; cases v)
     (auto simp: withHeaderNames_def literals_ok list.pred_map o_def list_all_iff dest!: set_js_put [THEN subsetD])

lemma keys_ok_without_headers: "keys_ok (VObj fs) \<Longrightarrow> keys_ok (VObj (without_headers fs))"
  by (auto simp: without_headers_def list_all_iff)

lemma keys_ok_item: "keys_ok item \<Longrightarrow> is_plain_object item \<Longrightarrow> keys_ok (VObj (without_headers (object_fields item)))"
  by (cases item) (auto simp: keys_ok_without_headers simp del: keys_ok.simps)

lemma sanitize_redacted:
  "keys_ok v \<Longrightarrow> redacted (sanitizeEventPayload v)"
  "keys_ok v \<Longrightarrow> redacted (sanitizeSensitiveEventField k v)"
  "keys_ok v \<Longrightarrow> redacted (sanitizeHeaderList v)"
proof (induction v and k v and v
      rule: sanitizeEventPayload_sanitizeSensitiveEventField_sanitizeHeaderList.induct)
  case (3 fs)
  let ?es = "map (\<lambda>kv. (sanitizeEventString (fst kv), sanitizeSensitiveEventField (fst kv) (snd kv))) fs"
  have "(is_sensitive (fst kv) \<longrightarrow> snd kv = REDACTED) \<and> redacted (snd kv)" if "kv \<in> set (fromEntries ?es)" for kv
  proof -
    from that obtain f where f: "f \<in> set fs"
        "kv = (sanitizeEventString (fst f), sanitizeSensitiveEventField (fst f) (snd f))"
      using set_fromEntries by fastforce
    with 3 have "str_ok (fst f)" "redacted (snd kv)" by (auto simp: list_all_iff)
    with f show ?thesis by (auto simp: sanitizeEventString_id literals_ok)
  qed
  then show ?case by (simp add: list_all_iff)
next
  case (5 k v)
  then show ?case by (simp add: REDACTED_def)
next
  case (6 xs)
  have "redacted (if is_plain_object item
       then withHeaderNames (item_header_names (object_fields item))
              (sanitizeEventPayload (VObj (without_headers (object_fields item))))
       else sanitizeEventPayload item)" if "item \<in> set xs" for item
    using 6 that by (simp add: list_all_iff withHeaderNames_redacted keys_ok_item
        del: sanitizeEventPayload.simps keys_ok.simps(2))
  then show ?case
    unfolding sanitizeHeaderList.simps redacted.simps list_all_iff set_map by blast
qed (simp_all add: list_all_iff)

subsection \<open>Properties\<close>

text \<open>
  C5: whatever the payload, the sanitised value can be stored: no string and no key of it, at
  any depth, holds a NUL or a lone surrogate; and a string that is already storable is kept as
  it is.
\<close>

theorem sanitized_payload_storable:
  "js_ok (sanitizeEventPayload v) \<and> (\<forall>s. sanitizeEventString s = s \<longleftrightarrow> str_ok s)"
  using sanitize_js_ok(1) sanitizeEventString_ok sanitizeEventString_id by metis

text \<open>
  When the payload's own keys hold no NUL and no lone surrogate, every property of the
  sanitised payload with a sensitive name (authorization, headers, tokens, secrets, ...) carries
  the redaction marker, at every depth, also inside MCP server and credential-update lists.
\<close>

theorem sanitized_payload_redacted:
  assumes "keys_ok v"
  shows "redacted (sanitizeEventPayload v)"
  using assms by (rule sanitize_redacted)

lemma sanitized_payload_redacted_witness:
  "redacted (sanitizeEventPayload (VObj [(u16 ''mcpServers'', VArr [VObj [(u16 ''headers'', VObj [(u16 ''A'', VStr (u16 ''s''))]),
      (u16 ''api_key'', VStr (u16 ''k''))]])]))
   \<and> sanitizeEventPayload (VObj [(u16 ''mcpServers'', VArr [VObj [(u16 ''headers'', VObj [(u16 ''A'', VStr (u16 ''s''))]),
      (u16 ''api_key'', VStr (u16 ''k''))]])])
     = VObj [(u16 ''mcpServers'', VArr [VObj [(u16 ''api_key'', REDACTED), (u16 ''headerNames'', VArr [VStr (u16 ''A'')])]])]"
proof
  have "keys_ok (VObj [(u16 ''mcpServers'', VArr [VObj [(u16 ''headers'', VObj [(u16 ''A'', VStr (u16 ''s''))]),
      (u16 ''api_key'', VStr (u16 ''k''))]])])" by code_simp
  then show "redacted (sanitizeEventPayload (VObj [(u16 ''mcpServers'', VArr [VObj [(u16 ''headers'', VObj [(u16 ''A'', VStr (u16 ''s''))]),
      (u16 ''api_key'', VStr (u16 ''k''))]])]))" by (rule sanitized_payload_redacted)
qed code_simp

text \<open>
  A NUL in a key defeats the redaction. The name is compared before the NUL is stripped, so
  a property named \<open>to\<close>, NUL, \<open>ken\<close> is stored as \<open>token\<close> with its value in clear.
\<close>

theorem nul_in_key_defeats_redaction:
  assumes "str_ok s"
  shows "sanitizeEventPayload (VObj [(u16 ''to'' @ [0] @ u16 ''ken'', VStr s)]) = VObj [(u16 ''token'', VStr s)]
    \<and> (VStr s \<noteq> REDACTED \<longrightarrow> \<not> redacted (sanitizeEventPayload (VObj [(u16 ''to'' @ [0] @ u16 ''ken'', VStr s)])))"
proof -
  have key: "sanitizeEventString (u16 ''to'' @ [0] @ u16 ''ken'') = u16 ''token''"
    "\<not> is_sensitive (u16 ''to'' @ [0] @ u16 ''ken'')" "is_sensitive (u16 ''token'')"
    "u16 ''to'' @ [0] @ u16 ''ken'' \<noteq> u16 ''mcpServers''"
    "u16 ''to'' @ [0] @ u16 ''ken'' \<noteq> u16 ''mcpCredentialUpdates''"
    by code_simp+
  have "sanitizeEventPayload (VObj [(u16 ''to'' @ [0] @ u16 ''ken'', VStr s)]) = VObj [(u16 ''token'', VStr s)]"
    unfolding sanitizeEventPayload.simps sanitizeSensitiveEventField.simps list.map fst_conv snd_conv key
    using key assms by (simp add: sanitizeEventString_id fromEntries_def js_put_def del: append_Cons append_Nil)
  with key(3) show ?thesis by simp
qed

lemma nul_in_key_defeats_redaction_witness:
  "sanitizeEventPayload (VObj [(u16 ''to'' @ [0] @ u16 ''ken'', VStr (u16 ''abc''))]) = VObj [(u16 ''token'', VStr (u16 ''abc''))]"
  using nul_in_key_defeats_redaction [of "u16 ''abc''"] by (simp add: u16_def high_surrogate_def low_surrogate_def)

end
