(* ===== verification/Sessions.thy ===== *)
theory Sessions
  imports Payload Json
begin

text \<open>
  The session tables (\<^verbatim>\<open>packages/db/src/schema.ts\<close>): sessions, their durable event log, their
  queue of turns and their goal, in one record because the transactions of
  \<^verbatim>\<open>packages/db/src/index.ts\<close> write several of them at once. A \<^verbatim>\<open>jsonb\<close> column is a
  \<open>jsval\<close>.
  Columns no modelled operation reads (titles, instructions, pins, Codex accounts,
  \<^verbatim>\<open>updated_at\<close>) are left out. A generated primary key and \<^verbatim>\<open>now()\<close> are arguments of the
  operations.
\<close>

subsection \<open>Enumerations\<close>

datatype session_status = SQueued | SRunning | SIdle | SRequiresAction | SFailed | SCancelled

datatype turn_status = TQueued | TRunning | TRequiresAction | TCompleted | TFailed | TCancelled

datatype turn_source = FromUser | FromScheduledTask | FromApi | FromGoal

datatype goal_status = GActive | GPaused | GCompleted

datatype paused_reason = ByAgent | ByUserInterrupt | ByApi | NoProgress | MaxAutoContinuations | Limits

datatype goal_created_by = CreatedByApi | CreatedByAgent | CreatedByScheduledTask

subsection \<open>Rows\<close>

record session_row =
  s_id :: uuid
  s_account_id :: uuid
  s_workspace_id :: uuid
  s_status :: session_status
  s_initial_message :: jstr
  s_resources :: jsval
  s_tools :: jsval
  s_metadata :: jsval
  s_model :: string
  s_sandbox_backend :: string
  s_sandbox_group_id :: uuid
  s_active_sandbox_id :: "uuid option"
  s_active_epoch :: int
  s_working_dir :: "string option"
  s_temporal_workflow_id :: "string option"
  s_active_turn_id :: "uuid option"
  s_last_sequence :: int
  s_created_at :: millis

record event_row =
  er_id :: uuid
  er_account_id :: uuid
  er_workspace_id :: uuid
  er_session_id :: uuid
  er_turn_id :: "uuid option"
  er_sequence :: int
  er_type :: string
  er_payload :: jsval
  er_client_event_id :: "string option"
  er_producer_id :: "string option"
  er_producer_seq :: "int option"
  er_occurred_at :: millis

record turn_row =
  t_id :: uuid
  t_account_id :: uuid
  t_workspace_id :: uuid
  t_session_id :: uuid
  t_trigger_event_id :: uuid
  t_temporal_workflow_id :: string
  t_status :: turn_status
  t_source :: turn_source
  t_position :: int
  t_prompt :: jstr
  t_resources :: jsval
  t_tools :: jsval
  t_model :: string
  t_reasoning_effort :: string
  t_sandbox_backend :: string
  t_metadata :: jsval
  t_toolspace_call_count :: int
  t_started_at :: "millis option"
  t_finished_at :: "millis option"
  t_created_at :: millis

record goal_row =
  g_id :: uuid
  g_account_id :: uuid
  g_workspace_id :: uuid
  g_session_id :: uuid
  g_status :: goal_status
  g_text :: jstr
  g_success_criteria :: "jstr option"
  g_evidence :: "jstr option"
  g_rationale :: "jstr option"
  g_paused_reason :: "paused_reason option"
  g_created_by :: goal_created_by
  g_version :: int
  g_auto_continuations :: int
  g_no_progress_streak :: int
  g_max_auto_continuations :: "int option"
  g_last_continuation_turn_id :: "uuid option"
  g_version_at_last_continuation :: "int option"

record session_db =
  sessions :: "session_row list"
  session_events :: "event_row list"
  session_turns :: "turn_row list"
  session_goals :: "goal_row list"

text \<open>The event as the API returns it (\<open>mapEvent\<close>): the contract's \<^verbatim>\<open>SessionEvent\<close>.\<close>

record session_event =
  ev_id :: uuid
  ev_workspace_id :: uuid
  ev_session_id :: uuid
  ev_sequence :: int
  ev_type :: string
  ev_payload :: jsval
  ev_occurred_at :: millis
  ev_client_event_id :: "string option"
  ev_turn_id :: "uuid option"

definition mapEvent :: "event_row \<Rightarrow> session_event" where
  "mapEvent r =
     \<lparr>ev_id = er_id r, ev_workspace_id = er_workspace_id r, ev_session_id = er_session_id r,
      ev_sequence = er_sequence r, ev_type = er_type r, ev_payload = er_payload r,
      ev_occurred_at = er_occurred_at r, ev_client_event_id = er_client_event_id r,
      ev_turn_id = er_turn_id r\<rparr>"

datatype session_error =
    SessionNotFound uuid
  | TurnNotFound uuid
  | QueuedTurnNotFound uuid
  | PreemptibleTurnNotFound uuid
  | ReorderNotQueued
  | GoalNotFound uuid
  | GoalIsCompleted
  | UniqueViolation
  | IntegerOutOfRange
  | CastError

subsection \<open>Look-ups\<close>

definition session_is :: "uuid \<Rightarrow> uuid \<Rightarrow> session_row \<Rightarrow> bool" where
  "session_is ws sid s \<longleftrightarrow> s_workspace_id s = ws \<and> s_id s = sid"

definition find_session :: "uuid \<Rightarrow> uuid \<Rightarrow> session_db \<Rightarrow> session_row option" where
  "find_session ws sid db = List.find (session_is ws sid) (sessions db)"

definition update_session :: "uuid \<Rightarrow> uuid \<Rightarrow> (session_row \<Rightarrow> session_row) \<Rightarrow> session_db \<Rightarrow> session_db" where
  "update_session ws sid f db = db\<lparr>sessions := update_where (session_is ws sid) f (sessions db)\<rparr>"

definition turn_is :: "uuid \<Rightarrow> uuid \<Rightarrow> turn_row \<Rightarrow> bool" where
  "turn_is ws tid t \<longleftrightarrow> t_workspace_id t = ws \<and> t_id t = tid"

definition turn_of :: "uuid \<Rightarrow> uuid \<Rightarrow> turn_row \<Rightarrow> bool" where
  "turn_of ws sid t \<longleftrightarrow> t_workspace_id t = ws \<and> t_session_id t = sid"

lemma find_sessionD:
  "find_session ws sid db = Some s \<Longrightarrow> s \<in> set (sessions db) \<and> s_workspace_id s = ws \<and> s_id s = sid"
  by (auto simp: find_session_def session_is_def dest: find_SomeD)

lemma update_session_other [simp]:
  "session_events (update_session ws sid f db) = session_events db"
  "session_turns (update_session ws sid f db) = session_turns db"
  "session_goals (update_session ws sid f db) = session_goals db"
  by (simp_all add: update_session_def)

lemma mapEvent_fields [simp]:
  "ev_sequence (mapEvent r) = er_sequence r" "ev_session_id (mapEvent r) = er_session_id r"
  "ev_workspace_id (mapEvent r) = er_workspace_id r" "ev_type (mapEvent r) = er_type r"
  by (simp_all add: mapEvent_def)

end
