(* ===== verification/Durable_Log.thy ===== *)
theory Durable_Log
  imports Prelude
begin

text \<open>
  The interface between the durable event log and its readers. A reader pages through the log of
  one session with a cursor; the provider promises that a page is the run of entries right after
  the cursor, that an entry carries its own position, and that the log is only ever extended.
\<close>

locale durable_log = step_invariant step ok inv
  for step :: "'op \<Rightarrow> 's \<Rightarrow> 's" and ok :: "'op \<Rightarrow> 's \<Rightarrow> bool" and inv :: "'s \<Rightarrow> bool" +
  fixes last_seq :: "'s \<Rightarrow> int"
    and entry :: "'s \<Rightarrow> int \<Rightarrow> 'e"
    and seq :: "'e \<Rightarrow> int"
    and page :: "'s \<Rightarrow> int \<Rightarrow> int \<Rightarrow> 'e list"
  assumes page_run: "inv s \<Longrightarrow> 0 \<le> after \<Longrightarrow> 0 \<le> limit \<Longrightarrow>
      page s after limit = map (entry s) [after + 1..min (after + limit) (last_seq s)]"
    and entry_seq: "inv s \<Longrightarrow> 1 \<le> k \<Longrightarrow> k \<le> last_seq s \<Longrightarrow> seq (entry s k) = k"
    and append_only: "inv s \<Longrightarrow> ok op s \<Longrightarrow>
      last_seq s \<le> last_seq (step op s)
      \<and> (\<forall>k. 1 \<le> k \<longrightarrow> k \<le> last_seq s \<longrightarrow> entry (step op s) k = entry s k)"
begin

text \<open>\<open>extends s s'\<close>: the log of \<open>s'\<close> is that of \<open>s\<close> or a longer one with the same beginning.\<close>

definition extends :: "'s \<Rightarrow> 's \<Rightarrow> bool" where
  "extends s s' \<longleftrightarrow> inv s' \<and> last_seq s \<le> last_seq s'
     \<and> (\<forall>k. 1 \<le> k \<longrightarrow> k \<le> last_seq s \<longrightarrow> entry s' k = entry s k)"

lemma extends_refl: "inv s \<Longrightarrow> extends s s"
  by (simp add: extends_def)

lemma extends_run: "inv s \<Longrightarrow> admissible step ok ops s \<Longrightarrow> extends s (run_ops step ops s)"
proof (induction ops arbitrary: s)
  case Nil
  then show ?case by (simp add: extends_refl)
next
  case (Cons op ops)
  have "extends (step op s) (run_ops step ops (step op s))"
    using Cons.prems by (intro Cons.IH) (auto simp: step_inv)
  with append_only [OF Cons.prems(1), of op] Cons.prems(2) show ?case
    by (auto simp: extends_def)
qed

text \<open>A page read later still agrees with the log as it was, up to its old end.\<close>

lemma page_of_extension:
  assumes "extends s s'" "0 \<le> after" "0 \<le> limit" "after + limit \<le> last_seq s"
  shows "page s' after limit = map (entry s) [after + 1..after + limit]"
proof -
  have "page s' after limit = map (entry s') [after + 1..after + limit]"
    using assms page_run [of s' after limit] by (simp add: extends_def)
  also have "\<dots> = map (entry s) [after + 1..after + limit]"
    using assms by (intro map_cong) (auto simp: extends_def)
  finally show ?thesis .
qed

end

end
