(* ===== verification/Session_Log.thy ===== *)
theory Session_Log
  imports Sessions Durable_Log
begin

text \<open>
  The durable event log of a session (\<^verbatim>\<open>packages/db/src/index.ts\<close>): the four ways to append
  to it, each under the session's row lock, and the paged read. Sequences are handed out by the
  session's \<open>last_sequence\<close>; the unique indexes on (session, sequence), on the client event id and on the
  producer sequence are checked at the insert, and a violation rolls the transaction back.

  Shown: in every run the log of every session is exactly \<open>1, 2, \<dots>, last_sequence\<close>, only ever
  extended; a page is the contiguous run of events after its cursor (the interface
  \<open>durable_log\<close> that the stream client relies on); a client event id is accepted once.
\<close>

record append_input =
  ap_type :: string
  ap_payload :: "jsval option"
  ap_client_event_id :: "string option"
  ap_turn_id :: "uuid option"
  ap_producer_id :: "string option"
  ap_producer_seq :: "int option"
  ap_occurred_at :: "millis option"

record session_update =
  su_resources :: "jsval option"
  su_tools :: "jsval option"
  su_model :: "string option"
  su_metadata :: "jsval option"
  su_status :: "session_status option"
  su_active_turn_id :: "uuid option option"

definition POSTGRES_INT_MAX :: int where
  "POSTGRES_INT_MAX = 2147483647"

definition or_else :: "'a option \<Rightarrow> 'a \<Rightarrow> 'a" where
  "or_else x d = (case x of None \<Rightarrow> d | Some v \<Rightarrow> v)"

subsection \<open>Inserting events\<close>

definition eventRow ::
    "(int \<Rightarrow> uuid) \<Rightarrow> millis \<Rightarrow> session_row \<Rightarrow> int \<Rightarrow> append_input \<Rightarrow> event_row" where
  "eventRow newId now row sequence inp =
     \<lparr>er_id = newId sequence, er_account_id = s_account_id row, er_workspace_id = s_workspace_id row,
      er_session_id = s_id row, er_turn_id = ap_turn_id inp, er_sequence = sequence,
      er_type = ap_type inp, er_payload = sanitizeEventPayload (or_else (ap_payload inp) (VObj [])),
      er_client_event_id = ap_client_event_id inp, er_producer_id = ap_producer_id inp,
      er_producer_seq = ap_producer_seq inp, er_occurred_at = or_else (ap_occurred_at inp) now\<rparr>"

fun eventValues ::
    "(int \<Rightarrow> uuid) \<Rightarrow> millis \<Rightarrow> session_row \<Rightarrow> int \<Rightarrow> append_input list \<Rightarrow> event_row list" where
  "eventValues newId now row sequence [] = []"
| "eventValues newId now row sequence (inp # inps) =
     eventRow newId now row (sequence + 1) inp # eventValues newId now row (sequence + 1) inps"

definition client_keys :: "event_row list \<Rightarrow> (uuid \<times> uuid \<times> string option) list" where
  "client_keys es = map (\<lambda>e. (er_workspace_id e, er_session_id e, er_client_event_id e))
     (filter (\<lambda>e. er_client_event_id e \<noteq> None) es)"

definition producer_keys :: "event_row list \<Rightarrow> (uuid \<times> uuid \<times> string option \<times> int option) list" where
  "producer_keys es = map (\<lambda>e. (er_workspace_id e, er_session_id e, er_producer_id e, er_producer_seq e))
     (filter (\<lambda>e. er_producer_id e \<noteq> None \<and> er_producer_seq e \<noteq> None) es)"

definition sequence_keys :: "event_row list \<Rightarrow> (uuid \<times> uuid \<times> int) list" where
  "sequence_keys es = map (\<lambda>e. (er_workspace_id e, er_session_id e, er_sequence e)) es"

definition unique_indexes :: "event_row list \<Rightarrow> bool" where
  "unique_indexes es \<longleftrightarrow> distinct (sequence_keys es) \<and> distinct (client_keys es) \<and> distinct (producer_keys es)"

definition insertEvents :: "event_row list \<Rightarrow> session_db \<Rightarrow> session_error + session_db" where
  "insertEvents vs db =
     (if list_ex (\<lambda>v. POSTGRES_INT_MAX < er_sequence v) vs then Inl IntegerOutOfRange
      else if \<not> unique_indexes (session_events db @ vs) then Inl UniqueViolation
      else Inr (db\<lparr>session_events := session_events db @ vs\<rparr>))"

subsection \<open>The append operations\<close>

definition appendWith ::
    "(int \<Rightarrow> uuid) \<Rightarrow> millis \<Rightarrow> session_row \<Rightarrow> append_input list \<Rightarrow> (session_row \<Rightarrow> session_row) \<Rightarrow> session_db
      \<Rightarrow> session_error + session_db \<times> session_event list" where
  "appendWith newId now row inputs f db =
     (let values = eventValues newId now row (s_last_sequence row) inputs in
      case insertEvents values db of
        Inl e \<Rightarrow> Inl e
      | Inr db1 \<Rightarrow>
          Inr (update_session (s_workspace_id row) (s_id row)
                 (\<lambda>s. f (s\<lparr>s_last_sequence := s_last_sequence row + int (length inputs)\<rparr>)) db1,
               map mapEvent values))"

definition appendSessionEvents ::
    "(int \<Rightarrow> uuid) \<Rightarrow> millis \<Rightarrow> uuid \<Rightarrow> uuid \<Rightarrow> append_input list \<Rightarrow> session_db
      \<Rightarrow> session_error + session_db \<times> session_event list" where
  "appendSessionEvents newId now ws sid inputs db =
     (if inputs = [] then Inr (db, [])
      else case find_session ws sid db of
             None \<Rightarrow> Inl (SessionNotFound sid)
           | Some row \<Rightarrow> appendWith newId now row inputs id db)"

definition in_group :: "uuid \<Rightarrow> uuid \<Rightarrow> session_row \<Rightarrow> bool" where
  "in_group ws grp s \<longleftrightarrow> s_workspace_id s = ws \<and> s_sandbox_group_id s = grp"

definition appendSessionEventToSandboxGroup ::
    "(uuid \<Rightarrow> int \<Rightarrow> uuid) \<Rightarrow> millis \<Rightarrow> uuid \<Rightarrow> uuid \<Rightarrow> append_input \<Rightarrow> session_db
      \<Rightarrow> session_error + session_db \<times> session_event list" where
  "appendSessionEventToSandboxGroup newId now ws grp inp db =
     (let rows = sort_key s_created_at (select_where (in_group ws grp) (sessions db)) in
      if rows = [] then Inr (db, [])
      else
        (let values = map (\<lambda>row. eventRow (newId (s_id row)) now row (s_last_sequence row + 1) inp) rows in
         case insertEvents values db of
           Inl e \<Rightarrow> Inl e
         | Inr db1 \<Rightarrow>
             Inr (db1\<lparr>sessions := update_where (in_group ws grp)
                    (\<lambda>s. s\<lparr>s_last_sequence := s_last_sequence s + 1\<rparr>) (sessions db1)\<rparr>,
                  map mapEvent values)))"

definition applyUpdate :: "session_update \<Rightarrow> session_row \<Rightarrow> session_row" where
  "applyUpdate upd s =
     s\<lparr>s_resources := or_else (su_resources upd) (s_resources s),
       s_tools := or_else (su_tools upd) (s_tools s),
       s_model := or_else (su_model upd) (s_model s),
       s_metadata := or_else (su_metadata upd) (s_metadata s),
       s_status := or_else (su_status upd) (s_status s),
       s_active_turn_id := or_else (su_active_turn_id upd) (s_active_turn_id s)\<rparr>"

definition appendSessionEventsAndUpdateSession ::
    "(int \<Rightarrow> uuid) \<Rightarrow> millis \<Rightarrow> uuid \<Rightarrow> uuid \<Rightarrow> append_input list \<Rightarrow> session_update \<Rightarrow> session_db
      \<Rightarrow> session_error + session_db \<times> session_event list" where
  "appendSessionEventsAndUpdateSession newId now ws sid inputs upd db =
     (if inputs = [] then Inr (db, [])
      else case find_session ws sid db of
             None \<Rightarrow> Inl (SessionNotFound sid)
           | Some row \<Rightarrow> appendWith newId now row inputs (applyUpdate upd) db)"

definition pending_turns :: "uuid \<Rightarrow> uuid \<Rightarrow> session_db \<Rightarrow> turn_row list" where
  "pending_turns ws sid db =
     sort_key t_position (sort_key t_created_at (select_where
       (\<lambda>t. turn_of ws sid t \<and> t_status t \<in> {TQueued, TRunning, TRequiresAction}) (session_turns db)))"

text \<open>
  The caller's \<open>build\<close> callback sees the locked session and its pending turns; the credential
  updates it may also request go to another table and are not modelled.
\<close>

definition appendSessionEventsWithLockedSessionUpdate ::
    "(int \<Rightarrow> uuid) \<Rightarrow> millis \<Rightarrow> uuid \<Rightarrow> uuid
      \<Rightarrow> (session_row \<Rightarrow> turn_row list \<Rightarrow> append_input list \<times> session_update) \<Rightarrow> session_db
      \<Rightarrow> session_error + session_db \<times> session_event list" where
  "appendSessionEventsWithLockedSessionUpdate newId now ws sid build db =
     (case find_session ws sid db of
        None \<Rightarrow> Inl (SessionNotFound sid)
      | Some row \<Rightarrow>
          (let (evs, upd) = build row (pending_turns ws sid db) in
           if evs = [] then Inr (db, [])
           else appendWith newId now row evs (applyUpdate upd) db))"

subsection \<open>Reading\<close>

text \<open>A JavaScript number argument: an integer, or NaN or an infinity (callers pass no fractions).\<close>

datatype js_number = JSInt int | NonFinite

definition normalizeEventSequence :: "js_number option \<Rightarrow> int \<Rightarrow> int" where
  "normalizeEventSequence v fallback = (case v of Some (JSInt n) \<Rightarrow> n | _ \<Rightarrow> fallback)"

definition normalizeEventLimit :: "js_number option \<Rightarrow> int \<Rightarrow> int" where
  "normalizeEventLimit v fallback = (case v of Some (JSInt n) \<Rightarrow> max 0 n | _ \<Rightarrow> fallback)"

record list_options =
  lo_after :: "js_number option"
  lo_before :: "js_number option"
  lo_limit :: "js_number option"

definition events_of :: "uuid \<Rightarrow> uuid \<Rightarrow> session_db \<Rightarrow> event_row list" where
  "events_of ws sid db = filter (\<lambda>e. er_workspace_id e = ws \<and> er_session_id e = sid) (session_events db)"

definition listSessionEvents :: "uuid \<Rightarrow> uuid \<Rightarrow> list_options \<Rightarrow> session_db \<Rightarrow> session_event list" where
  "listSessionEvents ws sid opts db =
     (let after = normalizeEventSequence (lo_after opts) 0;
          limit = normalizeEventLimit (lo_limit opts) 500;
          before = (case lo_before opts of Some (JSInt n) \<Rightarrow> Some n | _ \<Rightarrow> None);
          rows = sort_key er_sequence (filter (\<lambda>e. after < er_sequence e
                   \<and> (case before of None \<Rightarrow> True
                      | Some b \<Rightarrow> b \<le> POSTGRES_INT_MAX \<longrightarrow> er_sequence e < b)) (events_of ws sid db)) in
      map mapEvent (if before \<noteq> None then rev (take (nat limit) (rev rows)) else take (nat limit) rows))"

definition page_options :: "int \<Rightarrow> int \<Rightarrow> list_options" where
  "page_options after limit = \<lparr>lo_after = Some (JSInt after), lo_before = None, lo_limit = Some (JSInt limit)\<rparr>"

subsection \<open>The operations as steps\<close>

datatype log_op =
    OpAppend "int \<Rightarrow> uuid" millis uuid uuid "append_input list"
  | OpAppendGroup "uuid \<Rightarrow> int \<Rightarrow> uuid" millis uuid uuid append_input
  | OpAppendUpdate "int \<Rightarrow> uuid" millis uuid uuid "append_input list" session_update
  | OpAppendLocked "int \<Rightarrow> uuid" millis uuid uuid
      "session_row \<Rightarrow> turn_row list \<Rightarrow> append_input list \<times> session_update"

fun log_result :: "log_op \<Rightarrow> session_db \<Rightarrow> session_error + session_db \<times> session_event list" where
  "log_result (OpAppend newId now ws sid inputs) db = appendSessionEvents newId now ws sid inputs db"
| "log_result (OpAppendGroup newId now ws grp inp) db = appendSessionEventToSandboxGroup newId now ws grp inp db"
| "log_result (OpAppendUpdate newId now ws sid inputs upd) db =
     appendSessionEventsAndUpdateSession newId now ws sid inputs upd db"
| "log_result (OpAppendLocked newId now ws sid build) db =
     appendSessionEventsWithLockedSessionUpdate newId now ws sid build db"

definition log_step :: "log_op \<Rightarrow> session_db \<Rightarrow> session_db" where
  "log_step op db = (case log_result op db of Inl _ \<Rightarrow> db | Inr (db', _) \<Rightarrow> db')"

subsection \<open>The log is contiguous\<close>

definition log_inv :: "session_db \<Rightarrow> bool" where
  "log_inv db \<longleftrightarrow> distinct (map s_id (sessions db)) \<and>
     (\<forall>s \<in> set (sessions db). 0 \<le> s_last_sequence s \<and>
        map er_sequence (events_of (s_workspace_id s) (s_id s) db) = [1..s_last_sequence s])"

lemma upto_append: "0 \<le> m \<Longrightarrow> 0 \<le> n \<Longrightarrow> [1..m] @ [m + 1..m + n] = [1..m + n]" for m n :: int
  by (cases "m = 0") (simp_all add: upto_split2 [of 1 m "m + n"])

lemma eventValues_sequences: "map er_sequence (eventValues newId now row q inps) = [q + 1..q + int (length inps)]"
proof (induction inps arbitrary: q)
  case Nil
  then show ?case by simp
next
  case (Cons inp inps)
  then show ?case by (simp add: upto_rec1 eventRow_def algebra_simps)
qed

lemma eventValues_owner:
  "e \<in> set (eventValues newId now row q inps) \<Longrightarrow> er_workspace_id e = s_workspace_id row \<and> er_session_id e = s_id row"
  by (induction inps arbitrary: q) (auto simp: eventRow_def)

lemma filter_eventValues:
  "filter (\<lambda>e. er_workspace_id e = ws \<and> er_session_id e = sid) (eventValues newId now row q inps)
     = (if (ws, sid) = (s_workspace_id row, s_id row) then eventValues newId now row q inps else [])"
  by (auto simp: filter_id_conv filter_empty_conv dest: eventValues_owner)

lemma insertEvents_Inr:
  assumes "insertEvents vs db = Inr db1"
  shows "db1 = db\<lparr>session_events := session_events db @ vs\<rparr>" and "unique_indexes (session_events db @ vs)"
  using assms by (auto simp: insertEvents_def split: if_splits)

lemma events_of_insert:
  "events_of ws sid (db\<lparr>session_events := session_events db @ vs\<rparr>) =
     events_of ws sid db @ filter (\<lambda>e. er_workspace_id e = ws \<and> er_session_id e = sid) vs"
  by (simp add: events_of_def)

lemma events_of_sessions [simp]: "events_of ws sid (db\<lparr>sessions := ss\<rparr>) = events_of ws sid db"
  by (simp add: events_of_def)

lemma events_of_update_session [simp]: "events_of ws sid (update_session w i f db) = events_of ws sid db"
  by (simp add: update_session_def)

definition keeps_identity :: "(session_row \<Rightarrow> session_row) \<Rightarrow> bool" where
  "keeps_identity f \<longleftrightarrow> (\<forall>s. s_id (f s) = s_id s \<and> s_workspace_id (f s) = s_workspace_id s
     \<and> s_sandbox_group_id (f s) = s_sandbox_group_id s \<and> s_last_sequence (f s) = s_last_sequence s)"

lemma keeps_identity_id [simp]: "keeps_identity id"
  by (simp add: keeps_identity_def)

lemma keeps_identity_applyUpdate [simp]: "keeps_identity (applyUpdate upd)"
  by (simp add: keeps_identity_def applyUpdate_def)

lemma appendWith_inv:
  assumes inv: "log_inv db" and row: "row \<in> set (sessions db)" and f: "keeps_identity f"
    and app: "appendWith newId now row inputs f db = Inr (db', evs)"
  shows "log_inv db'"
proof -
  let ?vs = "eventValues newId now row (s_last_sequence row) inputs"
  let ?db1 = "db\<lparr>session_events := session_events db @ ?vs\<rparr>"
  let ?g = "\<lambda>s. f (s\<lparr>s_last_sequence := s_last_sequence row + int (length inputs)\<rparr>)"
  have db': "db' = update_session (s_workspace_id row) (s_id row) ?g ?db1"
    using app by (auto simp: appendWith_def Let_def dest: insertEvents_Inr split: sum.splits)
  have ids: "map s_id (sessions db') = map s_id (sessions db)"
    using f by (simp add: db' update_session_def map_update_where keeps_identity_def)
  have "0 \<le> s_last_sequence s' \<and>
      map er_sequence (events_of (s_workspace_id s') (s_id s') db') = [1..s_last_sequence s']"
    if s': "s' \<in> set (sessions db')" for s'
  proof -
    from s' obtain s where s: "s \<in> set (sessions db)"
        "s' = (if session_is (s_workspace_id row) (s_id row) s then ?g s else s)"
      by (auto simp: db' update_session_def set_update_where)
    have old: "0 \<le> s_last_sequence s" "map er_sequence (events_of (s_workspace_id s) (s_id s) db) = [1..s_last_sequence s]"
      using inv s(1) by (auto simp: log_inv_def)
    show ?thesis
    proof (cases "session_is (s_workspace_id row) (s_id row) s")
      case True
      then have "s = row" using inv s(1) row by (auto simp: log_inv_def session_is_def dest: distinct_map_inj)
      with s True f old show ?thesis
        by (simp add: db' events_of_insert filter_eventValues eventValues_sequences keeps_identity_def upto_append)
    next
      case False
      with s old show ?thesis by (auto simp: db' events_of_insert filter_eventValues session_is_def)
    qed
  qed
  with inv ids show ?thesis by (simp add: log_inv_def)
qed

lemma filter_unique_id:
  "distinct (map k rows) \<Longrightarrow> r \<in> set rows \<Longrightarrow> filter (\<lambda>x. k x = k r) rows = [r]"
proof (induction rows)
  case Nil
  then show ?case by simp
next
  case (Cons x rows)
  then show ?case by (auto simp: filter_empty_conv rev_image_eqI)
qed

lemma groupAppend_inv:
  assumes inv: "log_inv db" and app: "appendSessionEventToSandboxGroup newId now ws grp inp db = Inr (db', evs)"
  shows "log_inv db'"
proof (cases "select_where (in_group ws grp) (sessions db) = []")
  case True
  with app inv show ?thesis by (simp add: appendSessionEventToSandboxGroup_def)
next
  case False
  let ?rows = "sort_key s_created_at (select_where (in_group ws grp) (sessions db))"
  let ?vs = "map (\<lambda>row. eventRow (newId (s_id row)) now row (s_last_sequence row + 1) inp) ?rows"
  have "?rows \<noteq> []" using False by (metis set_empty set_sort)
  then have db': "db' = db\<lparr>session_events := session_events db @ ?vs,
      sessions := update_where (in_group ws grp) (\<lambda>s. s\<lparr>s_last_sequence := s_last_sequence s + 1\<rparr>) (sessions db)\<rparr>"
    using app by (auto simp: appendSessionEventToSandboxGroup_def Let_def dest: insertEvents_Inr split: sum.splits)
  have rows: "distinct (map s_id ?rows)" "set ?rows = {s \<in> set (sessions db). in_group ws grp s}"
    using inv by (auto simp: log_inv_def select_where_def distinct_map inj_on_def)
  have fil: "filter (\<lambda>e. er_workspace_id e = s_workspace_id s \<and> er_session_id e = s_id s) ?vs
      = (if in_group ws grp s then [eventRow (newId (s_id s)) now s (s_last_sequence s + 1) inp] else [])"
    if s: "s \<in> set (sessions db)" for s
  proof (cases "in_group ws grp s")
    case True
    then have mem: "s \<in> set ?rows" using s rows(2) by simp
    have "filter (\<lambda>r. s_workspace_id r = s_workspace_id s \<and> s_id r = s_id s) ?rows = filter (\<lambda>r. s_id r = s_id s) ?rows"
      using rows(2) True by (intro filter_cong) (auto simp: in_group_def)
    with filter_unique_id [OF rows(1) mem] True show ?thesis
      by (simp add: filter_map o_def eventRow_def)
  next
    case False
    have "\<not> (s_workspace_id r = s_workspace_id s \<and> s_id r = s_id s)" if "r \<in> set ?rows" for r
      using that False s inv rows(2) by (auto simp: log_inv_def dest: distinct_map_inj)
    with False show ?thesis by (auto simp: filter_empty_conv eventRow_def)
  qed
  have ids: "map s_id (sessions db') = map s_id (sessions db)" by (simp add: db' map_update_where)
  have "0 \<le> s_last_sequence s' \<and> map er_sequence (events_of (s_workspace_id s') (s_id s') db') = [1..s_last_sequence s']"
    if "s' \<in> set (sessions db')" for s'
  proof -
    from that obtain s where s: "s \<in> set (sessions db)"
        "s' = (if in_group ws grp s then s\<lparr>s_last_sequence := s_last_sequence s + 1\<rparr> else s)"
      by (auto simp: db' set_update_where)
    have old: "0 \<le> s_last_sequence s" "map er_sequence (events_of (s_workspace_id s) (s_id s) db) = [1..s_last_sequence s]"
      using inv s(1) by (auto simp: log_inv_def)
    have "events_of (s_workspace_id s) (s_id s) db' = events_of (s_workspace_id s) (s_id s) db @
        (if in_group ws grp s then [eventRow (newId (s_id s)) now s (s_last_sequence s + 1) inp] else [])"
      using fil [OF s(1)] by (simp add: db' events_of_insert)
    with s old upto_append [of "s_last_sequence s" 1] show ?thesis by (simp add: eventRow_def)
  qed
  with inv ids show ?thesis by (simp add: log_inv_def)
qed

lemma log_result_cases:
  assumes "log_result op db = Inr (db', evs)"
  obtains (same) "db' = db"
  | (append) newId now row inputs f where "row \<in> set (sessions db)" "keeps_identity f"
      "appendWith newId now row inputs f db = Inr (db', evs)"
  | (group) newId now ws grp inp where "appendSessionEventToSandboxGroup newId now ws grp inp db = Inr (db', evs)"
proof (cases op)
  case (OpAppend newId now ws sid inputs)
  with assms show ?thesis
    by (auto simp: appendSessionEvents_def split: if_splits option.splits
        intro: same append [where f = id] dest: find_sessionD)
next
  case (OpAppendUpdate newId now ws sid inputs upd)
  with assms show ?thesis
    by (auto simp: appendSessionEventsAndUpdateSession_def split: if_splits option.splits
        intro: same append [where f = "applyUpdate upd"] dest: find_sessionD)
next
  case (OpAppendLocked newId now ws sid build)
  with assms show ?thesis
    by (auto simp: appendSessionEventsWithLockedSessionUpdate_def split: if_splits option.splits prod.splits
        intro: same append [OF _ keeps_identity_applyUpdate] dest: find_sessionD)
qed (use assms group in auto)

lemma log_result_inv:
  assumes "log_inv db" "log_result op db = Inr (db', evs)"
  shows "log_inv db'"
  using assms(2)
proof (cases rule: log_result_cases)
  case same
  with assms(1) show ?thesis by simp
next
  case append
  with assms(1) show ?thesis by (rule appendWith_inv)
next
  case group
  with assms(1) show ?thesis by (rule groupAppend_inv)
qed

lemma log_step_inv: "log_inv db \<Longrightarrow> log_inv (log_step op db)"
  by (auto simp: log_step_def log_result_inv split: sum.splits)

subsection \<open>The log is only extended\<close>

lemma log_step_events: "\<exists>vs. session_events (log_step op db) = session_events db @ vs"
proof (cases "log_result op db")
  case (Inl e)
  then show ?thesis by (simp add: log_step_def)
next
  case (Inr res)
  then obtain db' evs where r: "log_result op db = Inr (db', evs)" by (cases res) auto
  then have "log_step op db = db'" by (simp add: log_step_def)
  moreover from r have "\<exists>vs. session_events db' = session_events db @ vs"
    by (cases rule: log_result_cases)
       (auto simp: appendWith_def appendSessionEventToSandboxGroup_def Let_def insertEvents_def
          split: sum.splits if_splits)
  ultimately show ?thesis by simp
qed

lemma log_step_session:
  assumes "find_session ws sid db = Some s"
  shows "\<exists>s'. find_session ws sid (log_step op db) = Some s'"
proof (cases "log_result op db")
  case (Inl e)
  with assms show ?thesis by (simp add: log_step_def)
next
  case (Inr res)
  then obtain db' evs where r: "log_result op db = Inr (db', evs)" by (cases res) auto
  then have step: "log_step op db = db'" by (simp add: log_step_def)
  have upd: "\<exists>s'. List.find (session_is ws sid) (update_where p g (sessions db)) = Some s'"
    if "\<And>x. s_id (g x) = s_id x \<and> s_workspace_id (g x) = s_workspace_id x" for p g
    using assms that by (simp add: find_session_def find_update_where session_is_def)
  from r have "\<exists>s'. find_session ws sid db' = Some s'"
  proof (cases rule: log_result_cases)
    case same
    with assms show ?thesis by simp
  next
    case (append newId now row inputs f)
    then show ?thesis
      by (auto simp: appendWith_def Let_def insertEvents_def find_session_def update_session_def
          keeps_identity_def intro!: upd split: sum.splits if_splits)
  next
    case (group newId now w grp inp)
    with assms show ?thesis
      by (auto simp: appendSessionEventToSandboxGroup_def Let_def insertEvents_def find_session_def
          intro!: upd split: sum.splits if_splits)
  qed
  with step show ?thesis by simp
qed

subsection \<open>The log as a durable log\<close>

definition log_ready :: "uuid \<Rightarrow> uuid \<Rightarrow> session_db \<Rightarrow> bool" where
  "log_ready ws sid db \<longleftrightarrow> log_inv db \<and> find_session ws sid db \<noteq> None"

definition log_last :: "uuid \<Rightarrow> uuid \<Rightarrow> session_db \<Rightarrow> int" where
  "log_last ws sid db = (case find_session ws sid db of None \<Rightarrow> 0 | Some s \<Rightarrow> s_last_sequence s)"

definition log_entry :: "uuid \<Rightarrow> uuid \<Rightarrow> session_db \<Rightarrow> int \<Rightarrow> session_event" where
  "log_entry ws sid db k = mapEvent (events_of ws sid db ! nat (k - 1))"

definition log_page :: "uuid \<Rightarrow> uuid \<Rightarrow> session_db \<Rightarrow> int \<Rightarrow> int \<Rightarrow> session_event list" where
  "log_page ws sid db after limit = listSessionEvents ws sid (page_options after limit) db"

lemma log_ready_sequences:
  assumes "log_ready ws sid db"
  shows "0 \<le> log_last ws sid db \<and> map er_sequence (events_of ws sid db) = [1..log_last ws sid db]"
proof -
  from assms obtain s where s: "find_session ws sid db = Some s" and inv: "log_inv db"
    by (auto simp: log_ready_def)
  from find_sessionD [OF s] inv show ?thesis by (auto simp: log_inv_def log_last_def s)
qed

lemma log_length:
  assumes "log_ready ws sid db"
  shows "length (events_of ws sid db) = nat (log_last ws sid db)"
  using arg_cong [OF log_ready_sequences [OF assms, THEN conjunct2], of length] by simp

lemma log_ready_nth:
  assumes "log_ready ws sid db" "i < length (events_of ws sid db)"
  shows "er_sequence (events_of ws sid db ! i) = int i + 1"
proof -
  have "er_sequence (events_of ws sid db ! i) = map er_sequence (events_of ws sid db) ! i"
    using assms(2) by simp
  also have "\<dots> = [1..log_last ws sid db] ! i"
    using log_ready_sequences [OF assms(1)] by simp
  finally show ?thesis using assms(2) log_length [OF assms(1)] by (simp add: nth_upto)
qed

lemma filter_after:
  assumes "log_ready ws sid db" "0 \<le> after"
  shows "filter (\<lambda>e. after < er_sequence e) (events_of ws sid db) = drop (nat after) (events_of ws sid db)"
proof -
  let ?es = "events_of ws sid db"
  have "filter (\<lambda>e. after < er_sequence e) (take (nat after) ?es) = []"
    using assms log_ready_nth [OF assms(1)] by (auto simp: filter_empty_conv in_set_conv_nth)
  moreover have "filter (\<lambda>e. after < er_sequence e) (drop (nat after) ?es) = drop (nat after) ?es"
    using assms log_ready_nth [OF assms(1)] by (auto simp: filter_id_conv in_set_conv_nth)
  ultimately show ?thesis
    by (metis append_self_conv2 append_take_drop_id filter_append)
qed

lemma log_sorted: "log_ready ws sid db \<Longrightarrow> sorted (map er_sequence (events_of ws sid db))"
  using log_ready_sequences [of ws sid db] by simp

lemma log_page_run:
  assumes ready: "log_ready ws sid db" and "0 \<le> after" "0 \<le> limit"
  shows "log_page ws sid db after limit
    = map (log_entry ws sid db) [after + 1..min (after + limit) (log_last ws sid db)]"
proof -
  let ?es = "events_of ws sid db"
  have "sort_key er_sequence (drop (nat after) ?es) = drop (nat after) ?es"
    using log_sorted [OF ready] by (intro sort_key_id_if_sorted) (simp add: drop_map [symmetric] sorted_wrt_drop)
  then have page: "log_page ws sid db after limit = map mapEvent (take (nat limit) (drop (nat after) ?es))"
    using assms by (simp add: log_page_def listSessionEvents_def page_options_def Let_def normalizeEventSequence_def
        normalizeEventLimit_def filter_after)
  have len: "int (length ?es) = log_last ws sid db"
    using log_length [OF ready] log_ready_sequences [OF ready] by simp
  show ?thesis
    unfolding page
  proof (rule nth_equalityI)
    show "length (map mapEvent (take (nat limit) (drop (nat after) ?es)))
        = length (map (log_entry ws sid db) [after + 1..min (after + limit) (log_last ws sid db)])"
      using assms len by (simp add: min_def) linarith
    fix i assume "i < length (map mapEvent (take (nat limit) (drop (nat after) ?es)))"
    then have i: "after + 1 + int i \<le> min (after + limit) (log_last ws sid db)"
      "i < length (take (nat limit) (drop (nat after) ?es))"
      using assms len by auto
    have e1: "map (log_entry ws sid db) [after + 1..min (after + limit) (log_last ws sid db)] ! i
        = log_entry ws sid db (after + 1 + int i)"
      using nth_upto [OF i(1)] i by (subst nth_map) auto
    have "drop (nat after) ?es ! i = ?es ! (nat after + i)"
      using i(2) by (intro nth_drop) auto
    then show "map mapEvent (take (nat limit) (drop (nat after) ?es)) ! i
        = map (log_entry ws sid db) [after + 1..min (after + limit) (log_last ws sid db)] ! i"
      unfolding e1 using i assms by (simp add: log_entry_def nat_add_distrib)
  qed
qed

lemma events_of_step: "\<exists>vs. events_of ws sid (log_step op db) = events_of ws sid db @ vs"
proof -
  from log_step_events obtain vs where "session_events (log_step op db) = session_events db @ vs" by blast
  then show ?thesis by (simp add: events_of_def)
qed

interpretation session_log: durable_log log_step "\<lambda>_ _. True" "log_ready ws sid" "log_last ws sid" "log_entry ws sid"
  ev_sequence "log_page ws sid"
  for ws sid
proof
  show ready: "log_ready ws sid (log_step op db)" if "log_ready ws sid db" for op db
    using that log_step_inv log_step_session by (fastforce simp: log_ready_def)
  show "log_page ws sid db after limit = map (log_entry ws sid db) [after + 1..min (after + limit) (log_last ws sid db)]"
    if "log_ready ws sid db" "0 \<le> after" "0 \<le> limit" for db after limit
    using that by (rule log_page_run)
  show "ev_sequence (log_entry ws sid db k) = k"
    if "log_ready ws sid db" "1 \<le> k" "k \<le> log_last ws sid db" for db k
    using that log_ready_nth [OF that(1), of "nat (k - 1)"] log_length [OF that(1)] by (simp add: log_entry_def)
  show "log_last ws sid db \<le> log_last ws sid (log_step op db)
      \<and> (\<forall>k. 1 \<le> k \<longrightarrow> k \<le> log_last ws sid db \<longrightarrow> log_entry ws sid (log_step op db) k = log_entry ws sid db k)"
    if r: "log_ready ws sid db" for op db
  proof -
    obtain vs where vs: "events_of ws sid (log_step op db) = events_of ws sid db @ vs"
      using events_of_step by blast
    have len: "length (events_of ws sid db) = nat (log_last ws sid db)"
      "length (events_of ws sid (log_step op db)) = nat (log_last ws sid (log_step op db))"
      using log_length [OF r] log_length [OF ready [OF r]] by simp_all
    have "nat (log_last ws sid db) \<le> nat (log_last ws sid (log_step op db))"
      using len vs by (metis le_add1 length_append)
    then have "log_last ws sid db \<le> log_last ws sid (log_step op db)"
      using log_ready_sequences [OF ready [OF r], of op] log_ready_sequences [OF r] by linarith
    with vs len(1) show ?thesis by (auto simp: log_entry_def nth_append)
  qed
qed

interpretation log_run: step_invariant log_step "\<lambda>_ _. True" log_inv
  by unfold_locales (rule log_step_inv)

interpretation log_grows: step_monotone log_step "\<lambda>a b. prefix (session_events a) (session_events b)"
proof
  show "prefix (session_events db) (session_events (log_step op db))" for db op
    using log_step_events [of op db] by (auto simp: prefix_def)
qed auto

lemma admissible_True [simp]: "admissible step (\<lambda>_ _. True) ops s"
  by (induction ops arbitrary: s) auto

subsection \<open>Stored payloads\<close>

definition payloads_ok :: "session_db \<Rightarrow> bool" where
  "payloads_ok db \<longleftrightarrow> (\<forall>e \<in> set (session_events db). js_ok (er_payload e))"

lemma eventValues_payload: "e \<in> set (eventValues newId now row q inps) \<Longrightarrow> js_ok (er_payload e)"
  by (induction inps arbitrary: q) (auto simp: eventRow_def sanitize_js_ok)

lemma log_step_payloads:
  assumes "payloads_ok db"
  shows "payloads_ok (log_step op db)"
proof (cases "log_result op db")
  case (Inl e)
  with assms show ?thesis by (simp add: log_step_def)
next
  case (Inr res)
  then obtain db' evs where r: "log_result op db = Inr (db', evs)" by (cases res) auto
  from r have "payloads_ok db'"
    by (cases rule: log_result_cases)
       (use assms in \<open>auto simp: payloads_ok_def appendWith_def appendSessionEventToSandboxGroup_def Let_def
          insertEvents_def eventRow_def sanitize_js_ok dest: eventValues_payload split: sum.splits if_splits\<close>)
  with r show ?thesis by (simp add: log_step_def)
qed

interpretation payload_run: step_invariant log_step "\<lambda>_ _. True" payloads_ok
  by unfold_locales (rule log_step_payloads)

subsection \<open>Windows before a cursor\<close>

lemma drop_upto: "drop n [i..j] = [i + int n..j]"
  by (rule nth_equalityI) (auto simp: nth_upto nat_diff_distrib)

lemma take_upto: "take n [i..j] = [i..min (i + int n - 1) j]"
proof (rule nth_equalityI)
  show "length (take n [i..j]) = length [i..min (i + int n - 1) j]" by (auto simp: min_def)
  fix k assume "k < length (take n [i..j])"
  then have "k < n" "i + int k \<le> j" by auto
  then show "take n [i..j] ! k = [i..min (i + int n - 1) j] ! k" by (simp add: nth_upto)
qed

lemma rev_take_rev: "rev (take n (rev xs)) = drop (length xs - n) xs"
  by (simp add: rev_take)

lemma filter_before:
  assumes "log_ready ws sid db"
  shows "filter (\<lambda>e. 0 < er_sequence e \<and> er_sequence e < b) (events_of ws sid db) = take (nat (b - 1)) (events_of ws sid db)"
proof -
  let ?es = "events_of ws sid db" and ?P = "\<lambda>e. 0 < er_sequence e \<and> er_sequence e < b"
  have "filter ?P (take (nat (b - 1)) ?es) = take (nat (b - 1)) ?es"
    using log_ready_nth [OF assms] by (auto simp: filter_id_conv in_set_conv_nth)
  moreover have "filter ?P (drop (nat (b - 1)) ?es) = []"
    using log_ready_nth [OF assms] by (auto simp: filter_empty_conv in_set_conv_nth split: if_splits)
  ultimately show ?thesis using filter_append [of ?P "take (nat (b - 1)) ?es" "drop (nat (b - 1)) ?es"] by simp
qed

definition window_options :: "int \<Rightarrow> int \<Rightarrow> list_options" where
  "window_options before limit = \<lparr>lo_after = None, lo_before = Some (JSInt before), lo_limit = Some (JSInt limit)\<rparr>"

lemma window_sequences:
  assumes ready: "log_ready ws sid db" and b: "1 \<le> b" "b \<le> POSTGRES_INT_MAX" and l: "0 \<le> limit"
  shows "map ev_sequence (listSessionEvents ws sid (window_options b limit) db)
    = [max 1 (min b (log_last ws sid db + 1) - limit)..min (b - 1) (log_last ws sid db)]"
proof -
  let ?es = "events_of ws sid db" and ?n = "nat (b - 1)" and ?L = "log_last ws sid db"
  have seqs: "map er_sequence ?es = [1..?L]" and L: "0 \<le> ?L" using log_ready_sequences [OF ready] by auto
  have "sort_key er_sequence (take ?n ?es) = take ?n ?es"
    using log_sorted [OF ready] by (intro sort_key_id_if_sorted) (simp add: take_map [symmetric] sorted_wrt_take)
  then have "listSessionEvents ws sid (window_options b limit) db
      = map mapEvent (drop (length (take ?n ?es) - nat limit) (take ?n ?es))"
    using b l by (simp add: listSessionEvents_def window_options_def Let_def normalizeEventSequence_def
        normalizeEventLimit_def filter_before [OF ready] rev_take_rev del: length_take)
  then have "map ev_sequence (listSessionEvents ws sid (window_options b limit) db)
      = drop (length (take ?n [1..?L]) - nat limit) (take ?n [1..?L])"
    by (simp add: drop_map take_map o_def flip: seqs)
  also have "\<dots> = [1 + int (nat (min (b - 1) ?L) - nat limit)..min (b - 1) ?L]"
    using b L by (simp add: take_upto drop_upto)
  also have "1 + int (nat (min (b - 1) ?L) - nat limit) = max 1 (min b (?L + 1) - limit)"
    using b L l by (auto simp: min_def max_def nat_diff_distrib)
  finally show ?thesis .
qed

subsection \<open>Properties\<close>

definition demo_session :: "uuid \<Rightarrow> session_row" where
  "demo_session sid =
     \<lparr>s_id = sid, s_account_id = ''a'', s_workspace_id = ''w'', s_status = SIdle, s_initial_message = [],
      s_resources = VArr [], s_tools = VArr [], s_metadata = VObj [], s_model = ''m'',
      s_sandbox_backend = ''modal'', s_sandbox_group_id = ''g'', s_active_sandbox_id = None,
      s_active_epoch = 0, s_working_dir = None, s_temporal_workflow_id = None, s_active_turn_id = None,
      s_last_sequence = 0, s_created_at = 0\<rparr>"

definition demo_db :: session_db where
  "demo_db = \<lparr>sessions = [demo_session ''s'', demo_session ''p''], session_events = [], session_turns = [],
     session_goals = []\<rparr>"

definition demo_event :: "string option \<Rightarrow> append_input" where
  "demo_event cid = \<lparr>ap_type = ''user.message'', ap_payload = None, ap_client_event_id = cid, ap_turn_id = None,
     ap_producer_id = None, ap_producer_seq = None, ap_occurred_at = None\<rparr>"

definition demo_appends :: "log_op list" where
  "demo_appends = [OpAppend (\<lambda>_. ''e'') 1 ''w'' ''s'' [demo_event (Some ''c''), demo_event None],
     OpAppendGroup (\<lambda>_ _. ''e'') 2 ''w'' ''g'' (demo_event None),
     OpAppend (\<lambda>_. ''e'') 3 ''w'' ''s'' [demo_event (Some ''c'')], OpAppend (\<lambda>_. ''e'') 4 ''w'' ''s'' [demo_event None]]"

lemma demo_db_inv: "log_inv demo_db"
  by (simp add: log_inv_def demo_db_def demo_session_def events_of_def)

text \<open>
  C6: in every run of appends (single session, whole sandbox group, with a session update, under
  the session lock with a caller's callback), the log of every session is exactly the events
  \<open>1, 2, \<dots>, last_sequence\<close> in order, and the stored events are only ever extended.
\<close>

theorem log_contiguous_in_every_run:
  assumes "log_inv db" and "s \<in> set (sessions (run_ops log_step ops db))"
  shows "map er_sequence (events_of (s_workspace_id s) (s_id s) (run_ops log_step ops db)) = [1..s_last_sequence s]
    \<and> prefix (session_events db) (session_events (run_ops log_step ops db))"
proof -
  have "log_inv (run_ops log_step ops db)" using assms(1) by (rule log_run.run_inv) simp
  with assms(2) show ?thesis by (auto simp: log_inv_def intro: log_grows.run_rel)
qed

lemma log_contiguous_in_every_run_witness:
  "\<exists>s \<in> set (sessions (run_ops log_step demo_appends demo_db)). s_id s = ''s'' \<and> s_last_sequence s = 4
     \<and> map er_sequence (events_of ''w'' ''s'' (run_ops log_step demo_appends demo_db)) = [1..4]"
proof -
  let ?db = "run_ops log_step demo_appends demo_db"
  have a: "hd (sessions ?db) \<in> set (sessions ?db)" "s_id (hd (sessions ?db)) = ''s''"
    "s_workspace_id (hd (sessions ?db)) = ''w''" "s_last_sequence (hd (sessions ?db)) = 4"
    by code_simp+
  from log_contiguous_in_every_run [OF demo_db_inv a(1)] a show ?thesis by auto
qed

text \<open>
  A page of the log. Reading after a cursor returns the contiguous run of at most
  \<open>limit\<close> events right after it; reading before a sequence returns the last \<open>limit\<close> events
  below it, in ascending order.
\<close>

theorem log_pages:
  assumes "log_inv db" and "find_session ws sid db = Some s" and "0 \<le> limit"
  shows "(0 \<le> after \<longrightarrow> map ev_sequence (listSessionEvents ws sid (page_options after limit) db)
        = [after + 1..min (after + limit) (s_last_sequence s)])
    \<and> (1 \<le> b \<and> b \<le> POSTGRES_INT_MAX \<longrightarrow> map ev_sequence (listSessionEvents ws sid (window_options b limit) db)
        = [max 1 (min b (s_last_sequence s + 1) - limit)..min (b - 1) (s_last_sequence s)])"
proof (intro conjI impI)
  have ready: "log_ready ws sid db" and L: "log_last ws sid db = s_last_sequence s"
    using assms(1,2) by (simp_all add: log_ready_def log_last_def)
  show "map ev_sequence (listSessionEvents ws sid (page_options after limit) db)
      = [after + 1..min (after + limit) (s_last_sequence s)]" if "0 \<le> after"
  proof -
    have "map ev_sequence (map (log_entry ws sid db) [after + 1..min (after + limit) (s_last_sequence s)])
        = [after + 1..min (after + limit) (s_last_sequence s)]"
      using that by (auto simp: session_log.entry_seq [OF ready] L intro!: map_idI)
    with session_log.page_run [OF ready that assms(3)] show ?thesis by (simp add: log_page_def L)
  qed
  show "map ev_sequence (listSessionEvents ws sid (window_options b limit) db)
      = [max 1 (min b (s_last_sequence s + 1) - limit)..min (b - 1) (s_last_sequence s)]"
    if "1 \<le> b \<and> b \<le> POSTGRES_INT_MAX"
    using window_sequences [OF ready] that assms(3) by (simp add: L)
qed

lemma log_pages_witness:
  "map ev_sequence (listSessionEvents ''w'' ''s'' (page_options 1 2) (run_ops log_step demo_appends demo_db)) = [2, 3]
   \<and> map ev_sequence (listSessionEvents ''w'' ''s'' (window_options 4 2) (run_ops log_step demo_appends demo_db)) = [2, 3]"
proof -
  let ?db = "run_ops log_step demo_appends demo_db"
  have inv: "log_inv ?db" using demo_db_inv by (rule log_run.run_inv) simp
  have a: "find_session ''w'' ''s'' ?db = Some (hd (sessions ?db))" "s_last_sequence (hd (sessions ?db)) = 4" by code_simp+
  have u: "[2..3] = [2, 3::int]" by code_simp
  from log_pages [OF inv a(1), of 2 1 4] a(2) u show ?thesis by (simp add: POSTGRES_INT_MAX_def)
qed

text \<open>
  A client event id is accepted once. When the session's log already holds an event with
  client id \<open>c\<close>, an append that carries \<open>c\<close> again is refused by the unique index and
  nothing of the batch is stored.
\<close>

theorem client_event_id_accepted_once:
  assumes "find_session ws sid db = Some s"
    and "e \<in> set (events_of ws sid db)" "er_client_event_id e = Some c"
    and "inp \<in> set inputs" "ap_client_event_id inp = Some c"
    and "s_last_sequence s + int (length inputs) \<le> POSTGRES_INT_MAX"
  shows "appendSessionEvents newId now ws sid inputs db = Inl UniqueViolation
    \<and> log_step (OpAppend newId now ws sid inputs) db = db"
proof -
  let ?vs = "eventValues newId now s (s_last_sequence s) inputs"
  have owner: "s_workspace_id s = ws" "s_id s = sid" using find_sessionD [OF assms(1)] by auto
  have "\<exists>v \<in> set (eventValues newId now s q inps). er_client_event_id v = Some c" if "inp \<in> set inps" for q inps
    using that assms(5) by (induction inps arbitrary: q) (auto simp: eventRow_def)
  then obtain v where v: "v \<in> set ?vs" "er_client_event_id v = Some c" using assms(4) by blast
  have "(ws, sid, Some c) \<in> set (client_keys (session_events db))"
    using assms(2,3) by (force simp: client_keys_def events_of_def)
  moreover have "(ws, sid, Some c) \<in> set (client_keys ?vs)"
    using v eventValues_owner [OF v(1)] owner by (force simp: client_keys_def)
  moreover have "client_keys (session_events db @ ?vs) = client_keys (session_events db) @ client_keys ?vs"
    by (simp add: client_keys_def)
  ultimately have dup: "\<not> unique_indexes (session_events db @ ?vs)" by (auto simp: unique_indexes_def)
  have "er_sequence v \<in> set [s_last_sequence s + 1..s_last_sequence s + int (length inputs)]" if "v \<in> set ?vs" for v
    using that eventValues_sequences [of newId now s "s_last_sequence s" inputs] by (metis image_eqI list.set_map)
  then have "\<not> list_ex (\<lambda>v. POSTGRES_INT_MAX < er_sequence v) ?vs"
    using assms(6) by (fastforce simp: list_ex_iff)
  with dup assms(1,4) show ?thesis
    by (auto simp: log_step_def appendSessionEvents_def appendWith_def insertEvents_def Let_def)
qed

lemma client_event_id_accepted_once_witness:
  "appendSessionEvents (\<lambda>_. ''f'') 9 ''w'' ''s'' [demo_event (Some ''c'')] (run_ops log_step (take 2 demo_appends) demo_db)
     = Inl UniqueViolation"
proof -
  let ?db = "run_ops log_step (take 2 demo_appends) demo_db"
  have a: "find_session ''w'' ''s'' ?db = Some (hd (sessions ?db))"
    "hd (session_events ?db) \<in> set (events_of ''w'' ''s'' ?db)" "er_client_event_id (hd (session_events ?db)) = Some ''c''"
    by code_simp+
  have b: "s_last_sequence (hd (sessions ?db)) = 3" by code_simp
  from client_event_id_accepted_once [OF a, of "demo_event (Some ''c'')" "[demo_event (Some ''c'')]"] b
  show ?thesis by (simp add: demo_event_def POSTGRES_INT_MAX_def)
qed

text \<open>
  Every payload ever stored by an append is storable text: in every run, no string or key of
  a stored payload holds a NUL or a lone surrogate.
\<close>

theorem stored_payloads_storable:
  assumes "payloads_ok db"
  shows "payloads_ok (run_ops log_step ops db)"
  using assms by (rule payload_run.run_inv) simp

lemma stored_payloads_storable_witness:
  "payloads_ok (run_ops log_step demo_appends demo_db)"
  using stored_payloads_storable [of demo_db demo_appends] by (simp add: payloads_ok_def demo_db_def)

end
