(* ===== verification/Sse.thy ===== *)
theory Sse
  imports Sessions
begin

text \<open>
  The server-sent-events wire format: \<open>formatSse\<close> (\<^verbatim>\<open>packages/events/src/index.ts\<close>) writes an
  event as a block of lines, \<open>parseSseStream\<close> (\<^verbatim>\<open>packages/sdk/src/sse.ts\<close>) reads blocks back from
  the decoded chunks of a connection. The chunks are the strings the \<^verbatim>\<open>TextDecoder\<close> returns for
  each read; \<open>stringify\<close> is \<^verbatim>\<open>JSON.stringify\<close>, of which only this is used: its text holds no line
  break.

  Shown: how the connection was cut into chunks does not matter, blocks read back as they were
  written, and a connection cut short yields a prefix of the messages.
\<close>

record sse_message =
  m_id :: "jstr option"
  m_event :: "jstr option"
  m_data :: jstr

record sse_state =
  st_buffer :: jstr
  st_id :: "jstr option"
  st_event :: "jstr option"
  st_data_lines :: "jstr list option"

abbreviation newline :: "16 word" where
  "newline \<equiv> 10"

abbreviation carriage_return :: "16 word" where
  "carriage_return \<equiv> 13"

abbreviation colon :: "16 word" where
  "colon \<equiv> 58"

abbreviation space :: "16 word" where
  "space \<equiv> 32"

definition sse_start :: sse_state where
  "sse_start = \<lparr>st_buffer = [], st_id = None, st_event = None, st_data_lines = None\<rparr>"

fun join_lines :: "jstr list \<Rightarrow> jstr" where
  "join_lines [] = []"
| "join_lines [l] = l"
| "join_lines (l # ls) = l @ newline # join_lines ls"

subsection \<open>The parser\<close>

definition dispatch :: "sse_state \<Rightarrow> sse_state \<times> sse_message list" where
  "dispatch st =
     (st\<lparr>st_id := None, st_event := None, st_data_lines := None\<rparr>,
      case st_data_lines st of
        None \<Rightarrow> []
      | Some ls \<Rightarrow> [\<lparr>m_id = st_id st, m_event = st_event st, m_data = join_lines ls\<rparr>])"

definition handleLine :: "jstr \<Rightarrow> sse_state \<Rightarrow> sse_state \<times> sse_message list" where
  "handleLine line st =
     (if line = [] then dispatch st
      else if hd line = colon then (st, [])
      else
        (let field = takeWhile (\<lambda>c. c \<noteq> colon) line;
             rest = tl (dropWhile (\<lambda>c. c \<noteq> colon) line);
             value = (case rest of c # cs \<Rightarrow> if c = space then cs else rest | [] \<Rightarrow> []) in
         (if field = u16 ''data'' then
            st\<lparr>st_data_lines := Some ((case st_data_lines st of None \<Rightarrow> [] | Some ls \<Rightarrow> ls) @ [value])\<rparr>
          else if field = u16 ''event'' then st\<lparr>st_event := Some value\<rparr>
          else if field = u16 ''id'' then st\<lparr>st_id := Some value\<rparr>
          else st,
          [])))"

definition strip_cr :: "jstr \<Rightarrow> jstr" where
  "strip_cr line = (if line \<noteq> [] \<and> last line = carriage_return then butlast line else line)"

lemma handleLine_buffer [simp]:
  "st_buffer (fst (handleLine l st)) = st_buffer st"
  by (auto simp: handleLine_def dispatch_def Let_def)

lemma handleLine_bufferD: "(st', ms) = handleLine l st \<Longrightarrow> st_buffer st' = st_buffer st"
  by (metis fst_conv handleLine_buffer)

lemma length_rest:
  "newline \<in> set buf \<Longrightarrow> length (tl (dropWhile (\<lambda>c. c \<noteq> newline) buf)) < length buf"
  by (induction buf) auto

function drain :: "sse_state \<Rightarrow> sse_state \<times> sse_message list" where
  "drain st =
     (if newline \<in> set (st_buffer st) then
        (let line = takeWhile (\<lambda>c. c \<noteq> newline) (st_buffer st);
             rest = tl (dropWhile (\<lambda>c. c \<noteq> newline) (st_buffer st));
             (st1, ms) = handleLine (strip_cr line) (st\<lparr>st_buffer := rest\<rparr>);
             (st2, ms') = drain st1
         in (st2, ms @ ms'))
      else (st, []))"
  by pat_completeness auto

termination
  by (relation "measure (\<lambda>st. length (st_buffer st))") (auto dest!: handleLine_bufferD length_rest)

declare drain.simps [simp del]

fun parseSseStream :: "sse_state \<Rightarrow> jstr list \<Rightarrow> sse_state \<times> sse_message list" where
  "parseSseStream st [] = (st, [])"
| "parseSseStream st (chunk # chunks) =
     (let (st1, ms) = drain (st\<lparr>st_buffer := st_buffer st @ chunk\<rparr>);
          (st2, ms') = parseSseStream st1 chunks
      in (st2, ms @ ms'))"

subsection \<open>The writer\<close>

definition formatSse :: "(session_event \<Rightarrow> jstr) \<Rightarrow> session_event \<Rightarrow> jstr" where
  "formatSse stringify e =
     join_lines
       [u16 ''id: '' @ u16 (int_dec (ev_sequence e)), u16 ''event: '' @ u16 (ev_type e),
        u16 ''data: '' @ stringify e, [], []]"

definition messageOf :: "(session_event \<Rightarrow> jstr) \<Rightarrow> session_event \<Rightarrow> sse_message" where
  "messageOf stringify e =
     \<lparr>m_id = Some (u16 (int_dec (ev_sequence e))), m_event = Some (u16 (ev_type e)), m_data = stringify e\<rparr>"

subsection \<open>Chunks do not matter\<close>

definition line_of :: "jstr \<Rightarrow> jstr" where
  "line_of buf = takeWhile (\<lambda>c. c \<noteq> newline) buf"

definition after_line :: "jstr \<Rightarrow> jstr" where
  "after_line buf = tl (dropWhile (\<lambda>c. c \<noteq> newline) buf)"

lemma line_of_append: "newline \<in> set a \<Longrightarrow> line_of (a @ b) = line_of a"
  by (auto simp: line_of_def takeWhile_append1)

lemma after_line_append: "newline \<in> set a \<Longrightarrow> after_line (a @ b) = after_line a @ b"
  by (induction a) (auto simp: after_line_def)

lemma handleLine_set_buffer:
  "handleLine l (st\<lparr>st_buffer := x\<rparr>) = ((fst (handleLine l st))\<lparr>st_buffer := x\<rparr>, snd (handleLine l st))"
  by (auto simp: handleLine_def dispatch_def Let_def split: option.splits)

lemma drain_step:
  "newline \<in> set (st_buffer st) \<Longrightarrow>
   drain st =
     (let r = handleLine (strip_cr (line_of (st_buffer st))) (st\<lparr>st_buffer := after_line (st_buffer st)\<rparr>);
          q = drain (fst r)
      in (fst q, snd r @ snd q))"
  by (subst drain.simps) (simp add: Let_def split_beta line_of_def after_line_def)

lemma drain_done: "newline \<notin> set (st_buffer st) \<Longrightarrow> drain st = (st, [])"
  by (subst drain.simps) simp

lemma drain_append:
  "drain (st\<lparr>st_buffer := st_buffer st @ b\<rparr>) =
     (let r = drain st; q = drain ((fst r)\<lparr>st_buffer := st_buffer (fst r) @ b\<rparr>) in (fst q, snd r @ snd q))"
proof (induction st rule: measure_induct_rule [of "\<lambda>st. length (st_buffer st)"])
  case (less st)
  show ?case
  proof (cases "newline \<in> set (st_buffer st)")
    case False
    then show ?thesis by (simp add: drain_done)
  next
    case True
    let ?rest = "after_line (st_buffer st)"
    let ?r = "handleLine (strip_cr (line_of (st_buffer st))) (st\<lparr>st_buffer := ?rest\<rparr>)"
    have short: "length (st_buffer (fst ?r)) < length (st_buffer st)"
      using length_rest [OF True] by (simp add: after_line_def)
    have "handleLine (strip_cr (line_of (st_buffer st))) (st\<lparr>st_buffer := ?rest @ b\<rparr>)
        = ((fst ?r)\<lparr>st_buffer := st_buffer (fst ?r) @ b\<rparr>, snd ?r)"
      by (simp add: handleLine_set_buffer)
    with True less.IH [OF short] show ?thesis
      by (simp add: drain_step line_of_append after_line_append Let_def)
  qed
qed

lemma drain_no_newline: "newline \<notin> set (st_buffer (fst (drain st)))"
proof (induction st rule: measure_induct_rule [of "\<lambda>st. length (st_buffer st)"])
  case (less st)
  then show ?case
  proof (cases "newline \<in> set (st_buffer st)")
    case False
    then show ?thesis by (simp add: drain_done)
  next
    case True
    with less length_rest [OF True] show ?thesis by (simp add: drain_step Let_def after_line_def)
  qed
qed

lemma parse_concat:
  assumes "newline \<notin> set (st_buffer st)"
  shows "parseSseStream st chunks = drain (st\<lparr>st_buffer := st_buffer st @ concat chunks\<rparr>)"
  using assms
proof (induction chunks arbitrary: st)
  case Nil
  then show ?case by (simp add: drain_done)
next
  case (Cons c cs)
  let ?st1 = "st\<lparr>st_buffer := st_buffer st @ c\<rparr>"
  have "parseSseStream st (c # cs) = (let r = drain ?st1; q = drain ((fst r)\<lparr>st_buffer := st_buffer (fst r) @ concat cs\<rparr>)
      in (fst q, snd r @ snd q))"
    using Cons.IH [OF drain_no_newline] by (simp add: Let_def split_beta)
  also have "\<dots> = drain (?st1\<lparr>st_buffer := st_buffer ?st1 @ concat cs\<rparr>)"
    by (rule drain_append [symmetric])
  finally show ?case by simp
qed

subsection \<open>Blocks read back\<close>

lemma drain_line:
  "newline \<notin> set l \<Longrightarrow>
   drain (st\<lparr>st_buffer := l @ newline # rest\<rparr>) =
     (let r = handleLine (strip_cr l) (st\<lparr>st_buffer := rest\<rparr>); q = drain (fst r) in (fst q, snd r @ snd q))"
proof -
  assume "newline \<notin> set l"
  then have "line_of (l @ newline # rest) = l" "after_line (l @ newline # rest) = rest"
    by (induction l) (auto simp: line_of_def after_line_def)
  then show ?thesis by (simp add: drain_step)
qed

definition one_line :: "jstr \<Rightarrow> bool" where
  "one_line t \<longleftrightarrow> newline \<notin> set t \<and> carriage_return \<notin> set t"

lemma strip_cr_one_line: "one_line l \<Longrightarrow> strip_cr l = l"
  by (metis last_in_set one_line_def strip_cr_def)

definition setField :: "jstr \<Rightarrow> jstr \<Rightarrow> sse_state \<Rightarrow> sse_state" where
  "setField f v st =
     (if f = u16 ''data'' then st\<lparr>st_data_lines := Some ((case st_data_lines st of None \<Rightarrow> [] | Some ls \<Rightarrow> ls) @ [v])\<rparr>
      else if f = u16 ''event'' then st\<lparr>st_event := Some v\<rparr>
      else if f = u16 ''id'' then st\<lparr>st_id := Some v\<rparr> else st)"

lemma setField_buffer: "setField f v (st\<lparr>st_buffer := x\<rparr>) = (setField f v st)\<lparr>st_buffer := x\<rparr>"
  by (simp add: setField_def)

lemma field_line:
  assumes "colon \<notin> set f" "f \<noteq> []"
  shows "handleLine (f @ colon # space # v) st = (setField f v st, [])"
proof -
  have "takeWhile (\<lambda>c. c \<noteq> colon) (f @ colon # space # v) = f"
    "dropWhile (\<lambda>c. c \<noteq> colon) (f @ colon # space # v) = colon # space # v"
    using assms(1) by (induction f) auto
  moreover have "hd (f @ colon # space # v) \<noteq> colon" "f @ colon # space # v \<noteq> []"
    using assms by (cases f; auto)+
  ultimately show ?thesis by (simp add: handleLine_def setField_def Let_def)
qed

lemma drain_field:
  assumes "one_line f" "one_line v" "colon \<notin> set f" "f \<noteq> []"
  shows "drain (st\<lparr>st_buffer := f @ colon # space # v @ newline # rest\<rparr>) = drain ((setField f v st)\<lparr>st_buffer := rest\<rparr>)"
proof -
  have line: "one_line (f @ colon # space # v)" using assms(1,2) by (auto simp: one_line_def)
  then have "newline \<notin> set (f @ colon # space # v)" by (simp add: one_line_def)
  from drain_line [OF this, where st = st and rest = rest] line assms(3,4) show ?thesis
    by (simp add: strip_cr_one_line field_line setField_buffer)
qed

lemma field_names:
  "u16 ''id: '' = u16 ''id'' @ [colon, space]" "u16 ''event: '' = u16 ''event'' @ [colon, space]"
  "u16 ''data: '' = u16 ''data'' @ [colon, space]"
  "colon \<notin> set (u16 ''id'')" "colon \<notin> set (u16 ''event'')" "colon \<notin> set (u16 ''data'')"
  "one_line (u16 ''id'')" "one_line (u16 ''event'')" "one_line (u16 ''data'')"
  "u16 ''id'' \<noteq> u16 ''data''" "u16 ''id'' \<noteq> u16 ''event''" "u16 ''event'' \<noteq> u16 ''data''"
  "u16 ''id'' \<noteq> []" "u16 ''event'' \<noteq> []" "u16 ''data'' \<noteq> []"
  by code_simp+

lemma digit_unit: "is_digit c \<Longrightarrow> of_nat (of_char c) \<noteq> newline \<and> of_nat (of_char c) \<noteq> carriage_return"
proof -
  assume "is_digit c"
  then have "48 \<le> unat (of_nat (of_char c) :: 16 word)"
    by (auto simp: is_digit_def unat_of_nat)
  then show ?thesis by auto
qed

definition event_ok :: "(session_event \<Rightarrow> jstr) \<Rightarrow> session_event \<Rightarrow> bool" where
  "event_ok stringify e \<longleftrightarrow> one_line (stringify e) \<and> one_line (u16 (ev_type e))"

lemma digits_one_line: "one_line (u16 (int_dec n))"
proof -
  have "list_all (\<lambda>c. is_digit c \<or> c = CHR ''-'') (int_dec n)"
    using nat_dec_digits [of "nat n"] nat_dec_digits [of "nat (- n)"] by (auto simp: int_dec_def list_all_iff)
  then have chars: "is_digit c \<or> c = CHR ''-''" if "c \<in> set (int_dec n)" for c
    using that by (simp add: list_all_iff)
  have dash: "of_nat (of_char (CHR ''-'')) \<noteq> newline \<and> of_nat (of_char (CHR ''-'')) \<noteq> carriage_return"
    by code_simp
  have "of_nat (of_char c) \<noteq> newline \<and> of_nat (of_char c) \<noteq> carriage_return" if "c \<in> set (int_dec n)" for c
    using chars [OF that] digit_unit dash by blast
  then show ?thesis unfolding one_line_def u16_def set_map image_iff by metis
qed

text \<open>Reading one block from a clean state leaves a clean state.\<close>

lemma drain_block:
  assumes ok: "event_ok stringify e" and clean: "st_id st = None" "st_event st = None" "st_data_lines st = None"
  shows "drain (st\<lparr>st_buffer := formatSse stringify e @ rest\<rparr>) =
    (let q = drain (st\<lparr>st_buffer := rest\<rparr>) in (fst q, messageOf stringify e # snd q))"
proof -
  let ?n = "u16 (int_dec (ev_sequence e))" and ?t = "u16 (ev_type e)" and ?d = "stringify e"
  let ?st3 = "st\<lparr>st_id := Some ?n, st_event := Some ?t, st_data_lines := Some [?d]\<rparr>"
  have block: "formatSse stringify e @ rest =
      u16 ''id'' @ colon # space # ?n @ newline # u16 ''event'' @ colon # space # ?t @ newline #
      u16 ''data'' @ colon # space # ?d @ newline # newline # rest"
    by (simp add: formatSse_def field_names(1-3))
  have "drain (st\<lparr>st_buffer := formatSse stringify e @ rest\<rparr>) = drain (?st3\<lparr>st_buffer := [] @ newline # rest\<rparr>)"
    using ok clean unfolding block
    by (simp add: drain_field [OF field_names(7) _ field_names(4,13)] drain_field [OF field_names(8) _ field_names(5,14)]
        drain_field [OF field_names(9) _ field_names(6,15)] event_ok_def digits_one_line)
       (simp add: setField_def field_names)
  also have "\<dots> = (let r = handleLine [] (?st3\<lparr>st_buffer := rest\<rparr>); q = drain (fst r) in (fst q, snd r @ snd q))"
    by (subst drain_line) (simp_all add: strip_cr_def)
  also have "handleLine [] (?st3\<lparr>st_buffer := rest\<rparr>) = (st\<lparr>st_buffer := rest\<rparr>, [messageOf stringify e])"
    using clean by (simp add: handleLine_def dispatch_def messageOf_def)
  finally show ?thesis by simp
qed

subsection \<open>Properties\<close>

text \<open>
  C7: the parser does not depend on how the network cut the connection into chunks, and a
  connection cut short yields a prefix of the messages of the longer one.
\<close>

theorem sse_chunking_irrelevant:
  "parseSseStream sse_start chunks = parseSseStream sse_start [concat chunks]
   \<and> prefix (snd (parseSseStream sse_start chunks)) (snd (parseSseStream sse_start (chunks @ chunks2)))"
proof
  have start: "newline \<notin> set (st_buffer sse_start)" by (simp add: sse_start_def)
  show "parseSseStream sse_start chunks = parseSseStream sse_start [concat chunks]"
    using parse_concat [OF start, of chunks] parse_concat [OF start, of "[concat chunks]"] by simp
  have "prefix (snd (parseSseStream st chunks)) (snd (parseSseStream st (chunks @ chunks2)))" for st
    by (induction chunks arbitrary: st) (auto simp: Let_def split_beta)
  then show "prefix (snd (parseSseStream sse_start chunks)) (snd (parseSseStream sse_start (chunks @ chunks2)))" .
qed

text \<open>
  C8: what the server writes is what the client reads. A connection that carries the blocks of a
  list of events, in any chunks and followed by any comment, parses to exactly one message per
  event, in order, with its sequence as id, its type and its JSON text. Of \<open>stringify\<close> only
  this is used: its text holds no line break.
\<close>

theorem sse_roundtrip:
  assumes "list_all (event_ok stringify) es"
    and "concat chunks = concat (map (formatSse stringify) es) @ u16 '': connected'' @ [newline, newline]"
  shows "snd (parseSseStream sse_start chunks) = map (messageOf stringify) es"
proof -
  have start: "newline \<notin> set (st_buffer sse_start)" "st_buffer sse_start = []" "st_id sse_start = None"
    "st_event sse_start = None" "st_data_lines sse_start = None"
    by (simp_all add: sse_start_def)
  define tail where "tail = u16 '': connected'' @ [newline, newline]"
  have comment: "drain (sse_start\<lparr>st_buffer := tail\<rparr>) = (sse_start, [])" unfolding tail_def by code_simp
  have "drain (sse_start\<lparr>st_buffer := concat (map (formatSse stringify) es) @ tail\<rparr>)
      = (sse_start, map (messageOf stringify) es)"
    using assms(1) by (induction es) (simp_all add: comment drain_block start Let_def)
  with parse_concat [OF start(1), of chunks] assms(2) start(2) show ?thesis by (simp add: tail_def)
qed

definition demo_wire :: "int \<Rightarrow> session_event" where
  "demo_wire n = \<lparr>ev_id = ''e'', ev_workspace_id = ''w'', ev_session_id = ''s'', ev_sequence = n, ev_type = ''t'',
     ev_payload = VNull, ev_occurred_at = 0, ev_client_event_id = None, ev_turn_id = None\<rparr>"

lemma sse_roundtrip_witness:
  "snd (parseSseStream sse_start [formatSse (\<lambda>_. u16 ''{}'') (demo_wire 1) @ u16 '': connected'' @ [newline, newline]])
     = [\<lparr>m_id = Some (u16 ''1''), m_event = Some (u16 ''t''), m_data = u16 ''{}''\<rparr>]"
proof -
  have "list_all (event_ok (\<lambda>_. u16 ''{}'')) [demo_wire 1]" by code_simp
  from sse_roundtrip [OF this, of "[formatSse (\<lambda>_. u16 ''{}'') (demo_wire 1) @ u16 '': connected'' @ [newline, newline]]"]
  have "snd (parseSseStream sse_start [formatSse (\<lambda>_. u16 ''{}'') (demo_wire 1) @ u16 '': connected'' @ [newline, newline]])
      = [messageOf (\<lambda>_. u16 ''{}'') (demo_wire 1)]" by simp
  moreover have "messageOf (\<lambda>_. u16 ''{}'') (demo_wire 1)
      = \<lparr>m_id = Some (u16 ''1''), m_event = Some (u16 ''t''), m_data = u16 ''{}''\<rparr>" by code_simp
  ultimately show ?thesis by simp
qed

end
