(* ===== verification/Stream.thy ===== *)
theory Stream
  imports Session_Log Sse
begin

text \<open>
  The event stream of a session: the client's \<open>streamSessionEvents\<close> with its backfill and
  reconnect loop (\<^verbatim>\<open>packages/sdk/src/stream.ts\<close>, error classes in \<^verbatim>\<open>errors.ts\<close>), and the
  server's replay-then-live stream (\<^verbatim>\<open>apps/api/src/http/sse.ts\<close>).

  What the network does is a script, one entry per connection attempt: the open fails, or it
  succeeds and delivers a list of parsed messages before it ends. Each message comes with the
  behaviour of the replay endpoint while that message is handled. The generator's yields, its
  sleeps and its state changes are the trace it produces; a script that is used up leaves the
  generator running. Two bus callbacks of the server that interleave at an \<^verbatim>\<open>await\<close> are not
  modelled: a callback runs to its end.

  Shown, for every script: over a durable log the client yields exactly the log's entries after
  its cursor, each once and in order, and never gives up on a gap; the reconnect delays are
  bounded; the server replays the whole log and terminates.
\<close>

subsection \<open>Errors\<close>

datatype stream_fault = BackfillStalled | BackfillMissing | GaveUp

datatype stream_error = ApiError int | TypeErr | AbortErr | StreamError stream_fault | OtherErr

definition isAbortError :: "stream_error \<Rightarrow> bool" where
  "isAbortError e \<longleftrightarrow> e = AbortErr"

fun isRetryableStreamError :: "stream_error \<Rightarrow> bool" where
  "isRetryableStreamError (ApiError s) = (s = 408 \<or> s = 409 \<or> s = 425 \<or> s = 429 \<or> 500 \<le> s)"
| "isRetryableStreamError TypeErr = True"
| "isRetryableStreamError _ = False"

type_synonym list_events = "int \<Rightarrow> int \<Rightarrow> stream_error + session_event list"

subsection \<open>Backfill\<close>

fun deliver :: "int \<Rightarrow> session_event list \<Rightarrow> session_event list \<times> int \<times> stream_error option" where
  "deliver cursor [] = ([], cursor, None)"
| "deliver cursor (e # es) =
     (if ev_sequence e \<noteq> cursor + 1 then ([], cursor, Some (StreamError BackfillMissing))
      else let (out, c, err) = deliver (ev_sequence e) es in (e # out, c, err))"

lemma deliver_cursor:
  "fst (snd (deliver cursor es)) = cursor + int (length (fst (deliver cursor es)))
   \<and> (snd (snd (deliver cursor es)) = None \<longrightarrow> length (fst (deliver cursor es)) = length es)"
  by (induction es arbitrary: cursor) (auto simp: Let_def split_beta)

lemma deliver_progress: "deliver cursor es = (out, c, None) \<Longrightarrow> es \<noteq> [] \<Longrightarrow> cursor < c"
  using deliver_cursor [of cursor es] by auto

function backfillEvents ::
    "list_events \<Rightarrow> int \<Rightarrow> int \<Rightarrow> session_event list \<times> int \<times> stream_error option" where
  "backfillEvents listEvents cursor toInclusive =
     (if cursor < toInclusive then
        (case listEvents cursor (min 500 (toInclusive - cursor)) of
           Inl e \<Rightarrow> ([], cursor, Some e)
         | Inr page \<Rightarrow>
             (let advancing = sort_key ev_sequence
                    (filter (\<lambda>e. cursor < ev_sequence e \<and> ev_sequence e \<le> toInclusive) page) in
              if advancing = [] then ([], cursor, Some (StreamError BackfillStalled))
              else
                (case deliver cursor advancing of
                   (out, c, Some e) \<Rightarrow> (out, c, Some e)
                 | (out, c, None) \<Rightarrow>
                     (let (out', c', err) = backfillEvents listEvents c toInclusive in (out @ out', c', err)))))
      else ([], cursor, None))"
  by pat_completeness auto
termination
  by (relation "measure (\<lambda>(l, c, t). nat (t - c))") (auto dest!: deliver_progress [OF sym])

declare backfillEvents.simps [simp del]

subsection \<open>One connection\<close>

type_synonym live_message = "session_event option \<times> list_events"

fun consume :: "int \<Rightarrow> live_message list \<Rightarrow> session_event list \<times> int \<times> stream_error option" where
  "consume cursor [] = ([], cursor, None)"
| "consume cursor ((None, _) # ms) = consume cursor ms"
| "consume cursor ((Some e, listEvents) # ms) =
     (if ev_sequence e \<le> cursor then consume cursor ms
      else
        (let (out, c, err) =
               (if cursor + 1 < ev_sequence e then backfillEvents listEvents cursor (ev_sequence e - 1)
                else ([], cursor, None)) in
         case err of
           Some x \<Rightarrow> (out, c, Some x)
         | None \<Rightarrow> (let (out', c', err') = consume (ev_sequence e) ms in (out @ e # out', c', err'))))"

subsection \<open>The reconnect loop\<close>

datatype conn_end = CleanClose | Dropped stream_error | ConnAborted

datatype attempt = OpenFailed stream_error | Opened "live_message list" conn_end | AbortedBeforeOpen

datatype connection_state = Connecting | Live | Reconnecting

datatype client_action = StateChange connection_state | Yield session_event | Sleep millis

datatype outcome = StillRunning | Returned | Threw stream_error

record stream_options =
  so_after :: "int option"
  so_reconnect :: "bool option"
  so_reconnect_delay_ms :: "millis option"
  so_max_reconnect_delay_ms :: "millis option"
  so_max_reconnect_attempts :: "nat option"

record client_state =
  cs_cursor :: int
  cs_failed_attempts :: nat
  cs_delay_ms :: millis
  cs_ever_connected :: bool

definition base_delay :: "stream_options \<Rightarrow> millis" where
  "base_delay opts = or_else (so_reconnect_delay_ms opts) 500"

definition max_delay :: "stream_options \<Rightarrow> millis" where
  "max_delay opts = or_else (so_max_reconnect_delay_ms opts) 10000"

definition client_start :: "stream_options \<Rightarrow> client_state" where
  "client_start opts = \<lparr>cs_cursor = or_else (so_after opts) 0, cs_failed_attempts = 0, cs_delay_ms = base_delay opts,
     cs_ever_connected = False\<rparr>"

text \<open>The \<^verbatim>\<open>catch\<close> block: an outcome, or the trace and the state the loop goes on with.\<close>

definition catchError ::
    "stream_options \<Rightarrow> client_state \<Rightarrow> stream_error \<Rightarrow> outcome + client_action list \<times> client_state" where
  "catchError opts st e =
     (if isAbortError e then Inl Returned
      else if \<not> or_else (so_reconnect opts) True \<or> \<not> isRetryableStreamError e then Inl (Threw e)
      else
        (let failed = cs_failed_attempts st + 1 in
         if (case so_max_reconnect_attempts opts of None \<Rightarrow> False | Some n \<Rightarrow> n < failed)
         then Inl (Threw (StreamError GaveUp))
         else Inr ([Sleep (cs_delay_ms st)],
                st\<lparr>cs_failed_attempts := failed,
                   cs_delay_ms := min (max (cs_delay_ms st * 2) (base_delay opts)) (max_delay opts)\<rparr>)))"

definition attemptStep ::
    "stream_options \<Rightarrow> client_state \<Rightarrow> attempt \<Rightarrow> client_action list \<times> (outcome + client_action list \<times> client_state) \<times> int" where
  "attemptStep opts st a =
     (let entering = StateChange (if cs_ever_connected st \<or> 0 < cs_failed_attempts st then Reconnecting else Connecting) in
      case a of
        AbortedBeforeOpen \<Rightarrow> ([], Inl Returned, cs_cursor st)
      | OpenFailed e \<Rightarrow> ([entering], catchError opts st e, cs_cursor st)
      | Opened ms ending \<Rightarrow>
          (let (out, c, err) = consume (cs_cursor st) ms;
               st' = st\<lparr>cs_cursor := c, cs_failed_attempts := 0, cs_delay_ms := base_delay opts, cs_ever_connected := True\<rparr>;
               acts = [entering, StateChange Live] @ map Yield out in
           case err of
             Some e \<Rightarrow> (acts, catchError opts st' e, c)
           | None \<Rightarrow>
               (case ending of
                  ConnAborted \<Rightarrow> (acts, Inl Returned, c)
                | Dropped e \<Rightarrow> (acts, catchError opts st' e, c)
                | CleanClose \<Rightarrow>
                    if \<not> or_else (so_reconnect opts) True then (acts, Inl Returned, c)
                    else (acts, Inr (if c = cs_cursor st then [Sleep (base_delay opts)] else [], st'), c))))"

fun streamSessionEvents ::
    "stream_options \<Rightarrow> client_state \<Rightarrow> attempt list \<Rightarrow> client_action list \<times> outcome \<times> int" where
  "streamSessionEvents opts st [] = ([], StillRunning, cs_cursor st)"
| "streamSessionEvents opts st (a # as) =
     (case attemptStep opts st a of
        (acts, Inl out, c) \<Rightarrow> (acts, out, c)
      | (acts, Inr (acts', st'), _) \<Rightarrow>
          (let (more, out, c) = streamSessionEvents opts st' as in (acts @ acts' @ more, out, c)))"

fun yields :: "client_action list \<Rightarrow> session_event list" where
  "yields [] = []"
| "yields (Yield e # as) = e # yields as"
| "yields (_ # as) = yields as"

subsection \<open>The server\<close>

fun forward :: "int \<Rightarrow> session_event list \<Rightarrow> session_event list \<times> int" where
  "forward lastSent [] = ([], lastSent)"
| "forward lastSent (e # es) =
     (if lastSent < ev_sequence e then (let (out, l) = forward (ev_sequence e) es in (e # out, l))
      else forward lastSent es)"

definition sendEvent ::
    "(int \<Rightarrow> int \<Rightarrow> session_event list) \<Rightarrow> int \<Rightarrow> session_event \<Rightarrow> session_event list \<times> int" where
  "sendEvent listEvents lastSent e =
     (if ev_sequence e \<le> lastSent then ([], lastSent)
      else
        (let (out, l) = (if lastSent + 1 < ev_sequence e
                         then forward lastSent (listEvents lastSent (ev_sequence e - lastSent - 1))
                         else ([], lastSent))
         in (out @ [e], ev_sequence e)))"

fun sendAll ::
    "(int \<Rightarrow> int \<Rightarrow> session_event list) \<Rightarrow> int \<Rightarrow> session_event list \<Rightarrow> session_event list \<times> int" where
  "sendAll listEvents lastSent [] = ([], lastSent)"
| "sendAll listEvents lastSent (e # es) =
     (let (out, l) = sendEvent listEvents lastSent e; (out', l') = sendAll listEvents l es in (out @ out', l'))"

definition by_sequence :: "session_event list \<Rightarrow> session_event list" where
  "by_sequence es = sort_key ev_sequence es"

partial_function (option) replaySessionEvents ::
    "(int \<Rightarrow> int \<Rightarrow> session_event list) \<Rightarrow> int \<Rightarrow> int \<Rightarrow> int \<Rightarrow> (session_event list \<times> int) option" where
  "replaySessionEvents loadPage pageSize cursor lastSent =
     (let page = loadPage cursor pageSize in
      if page = [] then Some ([], lastSent)
      else
        (let (out, l) = sendAll loadPage lastSent (by_sequence page);
             cursor' = fold (\<lambda>e c. max c (ev_sequence e)) page cursor in
         if int (length page) < pageSize then Some (out, l)
         else Option.bind (replaySessionEvents loadPage pageSize cursor' l) (\<lambda>(out', l'). Some (out @ out', l'))))"

text \<open>
  The body of the response stream: the replay, then what the bus buffered during the replay, then
  each later batch of the bus.
\<close>

definition sseSessionStream ::
    "(int \<Rightarrow> int \<Rightarrow> session_event list) \<Rightarrow> (int \<Rightarrow> int \<Rightarrow> session_event list) \<Rightarrow> int
      \<Rightarrow> session_event list \<Rightarrow> session_event list list \<Rightarrow> (session_event list \<times> int) option" where
  "sseSessionStream loadPage listEvents after buffered batches =
     Option.bind (replaySessionEvents loadPage 1000 after after) (\<lambda>(out, l).
       let (out', l') = sendAll listEvents l (by_sequence buffered);
           (out'', l'') = sendAll listEvents l' (concat (map by_sequence batches))
       in Some (out @ out' @ out'', l''))"

subsection \<open>Reading a durable log\<close>

text \<open>
  The contract of the log for the event type of the API, and the client proved against it. A
  transport answers a page request with the page of some later state of the log, or fails.
\<close>

lemma yields_append [simp]: "yields (xs @ ys) = yields xs @ yields ys"
  by (induction xs rule: yields.induct) auto

lemma yields_map [simp]: "yields (map Yield es) = es"
  by (induction es) auto

lemma yields_comp [simp]: "yields (map (Yield \<circ> f) xs) = map f xs"
  by (induction xs) auto

definition gap_fault :: "outcome \<Rightarrow> bool" where
  "gap_fault out \<longleftrightarrow> out = Threw (StreamError BackfillStalled) \<or> out = Threw (StreamError BackfillMissing)"

lemma catchError_cases:
  assumes "\<forall>f. e \<noteq> StreamError f"
  shows "case catchError opts st e of
      Inl out \<Rightarrow> \<not> gap_fault out
    | Inr (acts, st') \<Rightarrow> acts = [Sleep (cs_delay_ms st)] \<and> cs_cursor st' = cs_cursor st"
  using assms by (auto simp: catchError_def gap_fault_def Let_def)

definition can_fail :: "live_message list \<Rightarrow> stream_error \<Rightarrow> bool" where
  "can_fail ms x \<longleftrightarrow> (\<exists>m \<in> set ms. fst m \<noteq> None \<and> (\<exists>a n. snd m a n = Inl x))"

lemma can_fail_Cons [simp]:
  "can_fail (m # ms) x \<longleftrightarrow> fst m \<noteq> None \<and> (\<exists>a n. snd m a n = Inl x) \<or> can_fail ms x"
  by (simp add: can_fail_def)

fun smooth :: "attempt \<Rightarrow> bool" where
  "smooth (Opened ms CleanClose) = (\<forall>x. \<not> can_fail ms x)"
| "smooth _ = False"

fun messages :: "attempt \<Rightarrow> live_message list" where
  "messages (Opened ms _) = ms"
| "messages _ = []"

definition delivered :: "attempt list \<Rightarrow> session_event set" where
  "delivered as = {e. \<exists>a \<in> set as. \<exists>l. (Some e, l) \<in> set (messages a)}"

locale event_log = durable_log step ok inv last_seq entry ev_sequence page
  for step :: "'op \<Rightarrow> 's \<Rightarrow> 's" and ok :: "'op \<Rightarrow> 's \<Rightarrow> bool" and inv :: "'s \<Rightarrow> bool"
    and last_seq :: "'s \<Rightarrow> int" and entry :: "'s \<Rightarrow> int \<Rightarrow> session_event"
    and page :: "'s \<Rightarrow> int \<Rightarrow> int \<Rightarrow> session_event list"
begin

definition replays :: "'s \<Rightarrow> list_events \<Rightarrow> bool" where
  "replays s l \<longleftrightarrow> (\<forall>a n. (\<exists>x. l a n = Inl x \<and> (\<forall>f. x \<noteq> StreamError f)) \<or> (\<exists>s'. extends s s' \<and> l a n = Inr (page s' a n)))"

fun message_ok :: "'s \<Rightarrow> live_message \<Rightarrow> bool" where
  "message_ok sF (None, l) = True"
| "message_ok sF (Some e, l) =
     (\<exists>s. inv s \<and> extends s sF \<and> 1 \<le> ev_sequence e \<and> ev_sequence e \<le> last_seq s
        \<and> e = entry s (ev_sequence e) \<and> replays s l)"

lemma deliver_entries:
  "inv s \<Longrightarrow> 0 \<le> c \<Longrightarrow> c + int n \<le> last_seq s \<Longrightarrow>
   deliver c (map (entry s) [c + 1..c + int n]) = (map (entry s) [c + 1..c + int n], c + int n, None)"
proof (induction n arbitrary: c)
  case 0
  then show ?case by simp
next
  case (Suc n)
  have up: "[c + 1..c + int (Suc n)] = (c + 1) # [(c + 1) + 1..(c + 1) + int n]"
    by (subst upto_rec1) (simp_all add: algebra_simps)
  have e: "ev_sequence (entry s (c + 1)) = c + 1" using Suc.prems by (intro entry_seq) auto
  have "deliver (c + 1) (map (entry s) [(c + 1) + 1..(c + 1) + int n])
      = (map (entry s) [(c + 1) + 1..(c + 1) + int n], (c + 1) + int n, None)"
    using Suc.prems by (intro Suc.IH) auto
  then show ?case unfolding up by (simp add: e)
qed

lemma advancing_page:
  assumes "inv s" "0 \<le> c" "0 \<le> n" "c + n \<le> t" "t \<le> last_seq s"
  shows "sort_key ev_sequence (filter (\<lambda>e. c < ev_sequence e \<and> ev_sequence e \<le> t) (map (entry s) [c + 1..c + n]))
    = map (entry s) [c + 1..c + n]"
proof -
  have seqs: "map ev_sequence (map (entry s) [c + 1..c + n]) = [c + 1..c + n]"
    using assms by (auto simp: entry_seq intro!: map_idI)
  have "filter (\<lambda>e. c < ev_sequence e \<and> ev_sequence e \<le> t) (map (entry s) [c + 1..c + n]) = map (entry s) [c + 1..c + n]"
    using assms by (auto simp: filter_id_conv entry_seq)
  moreover have "sort_key ev_sequence (map (entry s) [c + 1..c + n]) = map (entry s) [c + 1..c + n]"
    by (rule sort_key_id_if_sorted) (simp add: seqs del: map_map)
  ultimately show ?thesis by simp
qed

lemma upto_join: "a \<le> b \<Longrightarrow> b \<le> c \<Longrightarrow> [a + 1..b] @ [b + 1..c] = [a + 1..c]" for a b c :: int
  by (cases "a = b") (simp_all add: upto_split2 [of "a + 1" b c])

lemma backfill_run:
  "inv s \<Longrightarrow> replays s l \<Longrightarrow> 0 \<le> c \<Longrightarrow> c \<le> t \<Longrightarrow> t \<le> last_seq s \<Longrightarrow>
   \<exists>c' err. backfillEvents l c t = (map (entry s) [c + 1..c'], c', err) \<and> c \<le> c' \<and> c' \<le> t
     \<and> (err = None \<longrightarrow> c' = t) \<and> (\<forall>x. err = Some x \<longrightarrow> (\<exists>a n. l a n = Inl x))"
proof (induction l c t rule: backfillEvents.induct)
  case (1 l c t)
  show ?case
  proof (cases "c < t")
    case False
    with "1.prems" show ?thesis by (subst backfillEvents.simps) auto
  next
    case True
    let ?n = "min 500 (t - c)"
    show ?thesis
    proof (cases "l c ?n")
      case (Inl x)
      then show ?thesis using True "1.prems" by (subst backfillEvents.simps) auto
    next
      case (Inr p)
      with "1.prems"(2) obtain s' where s': "extends s s'" "p = page s' c ?n"
        unfolding replays_def by (metis Inl_Inr_False sum.inject(2))
      have p: "p = map (entry s) [c + 1..c + ?n]"
        using page_of_extension [OF s'(1), of c ?n] "1.prems" True s'(2) by simp
      have adv: "sort_key ev_sequence (filter (\<lambda>e. c < ev_sequence e \<and> ev_sequence e \<le> t) p) = p"
        unfolding p using "1.prems" True by (intro advancing_page) auto
      have ne: "p \<noteq> []" using True by (simp add: p)
      have del: "deliver c p = (p, c + ?n, None)"
        using deliver_entries [of s c "nat ?n"] "1.prems" True by (simp add: p)
      have "\<exists>c' err. backfillEvents l (c + ?n) t = (map (entry s) [c + ?n + 1..c'], c', err) \<and> c + ?n \<le> c' \<and> c' \<le> t
          \<and> (err = None \<longrightarrow> c' = t) \<and> (\<forall>x. err = Some x \<longrightarrow> (\<exists>a n. l a n = Inl x))"
        using True Inr adv ne del "1.prems" by (intro "1.IH") auto
      then obtain c' err where rec: "backfillEvents l (c + ?n) t = (map (entry s) [c + ?n + 1..c'], c', err)"
          "c + ?n \<le> c'" "c' \<le> t" "err = None \<longrightarrow> c' = t" "\<forall>x. err = Some x \<longrightarrow> (\<exists>a n. l a n = Inl x)" by blast
      have "p @ map (entry s) [c + ?n + 1..c'] = map (entry s) [c + 1..c']"
        using upto_join [of c "c + ?n" c'] rec(2) True by (simp add: p flip: map_append)
      with True Inr adv ne del rec show ?thesis by (subst backfillEvents.simps) simp
    qed
  qed
qed

text \<open>
  One connection delivers exactly the entries from its cursor on, up to the newest message it
  handled; it stops early only on a failure of the transport.
\<close>

definition newest :: "int \<Rightarrow> live_message list \<Rightarrow> int" where
  "newest c ms = fold (\<lambda>m b. case fst m of None \<Rightarrow> b | Some e \<Rightarrow> max b (ev_sequence e)) ms c"

lemma entries_extended:
  "extends s sF \<Longrightarrow> 0 \<le> c \<Longrightarrow> c' \<le> last_seq s \<Longrightarrow> map (entry s) [c + 1..c'] = map (entry sF) [c + 1..c']"
  by (auto simp: extends_def)

lemma consume_run:
  "list_all (message_ok sF) ms \<Longrightarrow> 0 \<le> c \<Longrightarrow>
   \<exists>c' err. consume c ms = (map (entry sF) [c + 1..c'], c', err) \<and> c \<le> c' \<and> c' \<le> newest c ms
     \<and> (err = None \<longrightarrow> c' = newest c ms)
     \<and> (\<forall>x. err = Some x \<longrightarrow> can_fail ms x)"
proof (induction c ms rule: consume.induct)
  case (1 c)
  then show ?case by (simp add: newest_def)
next
  case (2 c l ms)
  then show ?case by (simp add: newest_def)
next
  case (3 c e l ms)
  let ?n = "ev_sequence e"
  have new: "newest c ((Some e, l) # ms) = newest (max c ?n) ms" by (simp add: newest_def)
  show ?case
  proof (cases "?n \<le> c")
    case True
    then have "\<exists>c' err. consume c ms = (map (entry sF) [c + 1..c'], c', err) \<and> c \<le> c' \<and> c' \<le> newest c ms
       \<and> (err = None \<longrightarrow> c' = newest c ms) \<and> (\<forall>x. err = Some x \<longrightarrow> can_fail ms x)"
      using "3.prems" by (intro "3.IH"(1)) auto
    with True new show ?thesis by (auto simp: max_def)
  next
    case False
    from "3.prems" obtain s where s: "inv s" "extends s sF" "1 \<le> ?n" "?n \<le> last_seq s" "e = entry s ?n" "replays s l"
      by auto
    have ent: "e = entry sF ?n" using s by (simp add: extends_def)
    have mono: "b \<le> newest b xs" for b xs
    proof (induction xs arbitrary: b)
      case (Cons x xs)
      let ?b = "case fst x of None \<Rightarrow> b | Some e \<Rightarrow> max b (ev_sequence e)"
      have "newest b (x # xs) = newest ?b xs" by (simp add: newest_def)
      moreover have "b \<le> ?b" by (simp split: option.splits)
      ultimately show ?case using Cons.IH [of ?b] by simp
    qed (simp add: newest_def)
    define q where "q = (if c + 1 < ?n then backfillEvents l c (?n - 1) else ([], c, None))"
    obtain c1 err1 where q: "q = (map (entry sF) [c + 1..c1], c1, err1)" "c \<le> c1" "c1 \<le> ?n - 1"
      "err1 = None \<longrightarrow> c1 = ?n - 1" "\<forall>x. err1 = Some x \<longrightarrow> (\<exists>a n. l a n = Inl x)"
    proof (cases "c + 1 < ?n")
      case True
      with backfill_run [OF s(1,6), of c "?n - 1"] "3.prems"(2) s(4) obtain c' err
        where "backfillEvents l c (?n - 1) = (map (entry s) [c + 1..c'], c', err)" "c \<le> c'" "c' \<le> ?n - 1"
          "err = None \<longrightarrow> c' = ?n - 1" "\<forall>x. err = Some x \<longrightarrow> (\<exists>a n. l a n = Inl x)" by auto
      with True entries_extended [OF s(2), of c c'] "3.prems"(2) s(4) show ?thesis by (intro that) (auto simp: q_def)
    next
      case False
      with \<open>\<not> ?n \<le> c\<close> show ?thesis by (intro that [of c None]) (auto simp: q_def)
    qed
    show ?thesis
    proof (cases err1)
      case (Some x)
      with False q mono [of "max c ?n" ms] show ?thesis
        by (simp add: new q_def [symmetric] Let_def split_beta)
    next
      case None
      have "\<exists>c' err. consume ?n ms = (map (entry sF) [?n + 1..c'], c', err) \<and> ?n \<le> c' \<and> c' \<le> newest ?n ms
          \<and> (err = None \<longrightarrow> c' = newest ?n ms)
          \<and> (\<forall>x. err = Some x \<longrightarrow> can_fail ms x)"
        using False "3.prems" s(3) None q by (intro "3.IH"(2)) (auto simp: q_def)
      then obtain c' err where rec: "consume ?n ms = (map (entry sF) [?n + 1..c'], c', err)" "?n \<le> c'" "c' \<le> newest ?n ms"
          "err = None \<longrightarrow> c' = newest ?n ms" "\<forall>x. err = Some x \<longrightarrow> can_fail ms x" by blast
      have "map (entry sF) [c + 1..?n - 1] @ e # map (entry sF) [?n + 1..c'] = map (entry sF) [c + 1..c']"
        using arg_cong [OF upto_join [of c "?n - 1" c'], of "map (entry sF)"] rec(2) False
        by (simp add: upto_rec1 [of ?n c'] ent [symmetric])
      with False q None rec show ?thesis
        by (simp add: new q_def [symmetric] max_def)
    qed
  qed
qed

lemma can_fail_error:
  "list_all (message_ok sF) ms \<Longrightarrow> can_fail ms x \<Longrightarrow> x \<noteq> StreamError f"
proof (induction ms)
  case (Cons m ms)
  obtain e l where m: "m = (e, l)" by (cases m)
  show ?case
  proof (cases "can_fail ms x")
    case False
    with Cons.prems(2) m obtain e' a n where "e = Some e'" "l a n = Inl x" by (auto simp: can_fail_def)
    with Cons.prems(1) m show ?thesis by (auto simp: replays_def) (metis Inl_Inr_False sum.inject(1))
  qed (use Cons in simp)
qed (simp add: can_fail_def)

lemma newest_bound:
  "list_all (message_ok sF) ms \<Longrightarrow> newest c ms \<le> max c (last_seq sF)"
proof (induction ms arbitrary: c)
  case Nil
  then show ?case by (simp add: newest_def)
next
  case (Cons m ms)
  obtain e l where m: "m = (e, l)" by (cases m)
  let ?c = "case e of None \<Rightarrow> c | Some e \<Rightarrow> max c (ev_sequence e)"
  have "newest c (m # ms) = newest ?c ms" by (simp add: newest_def m)
  moreover have "newest ?c ms \<le> max ?c (last_seq sF)" using Cons by simp
  moreover have "?c \<le> max c (last_seq sF)"
    using Cons.prems m by (auto simp: extends_def split: option.splits)
  ultimately show ?case by linarith
qed

fun attempt_ok :: "'s \<Rightarrow> attempt \<Rightarrow> bool" where
  "attempt_ok sF (OpenFailed e) = (\<forall>f. e \<noteq> StreamError f)"
| "attempt_ok sF (Opened ms ending) = (list_all (message_ok sF) ms \<and> (\<forall>f. ending \<noteq> Dropped (StreamError f)))"
| "attempt_ok sF AbortedBeforeOpen = True"

lemma attemptStep_run:
  assumes ok: "attempt_ok sF a" and c0: "0 \<le> cs_cursor st" and step: "attemptStep opts st a = (acts, r, c)"
  shows "yields acts = map (entry sF) [cs_cursor st + 1..c] \<and> cs_cursor st \<le> c \<and> c \<le> max (cs_cursor st) (last_seq sF) \<and>
    (case r of Inl out \<Rightarrow> \<not> gap_fault out | Inr (acts', st') \<Rightarrow> yields acts' = [] \<and> cs_cursor st' = c)"
proof (cases a)
  case (OpenFailed e)
  with ok step catchError_cases [where e = e and opts = opts and st = st] show ?thesis
    by (auto simp: attemptStep_def Let_def split: sum.splits)
next
  case AbortedBeforeOpen
  with step show ?thesis by (auto simp: attemptStep_def gap_fault_def)
next
  case (Opened ms ending)
  with ok c0 consume_run [of sF ms "cs_cursor st"] obtain c' err
    where con: "consume (cs_cursor st) ms = (map (entry sF) [cs_cursor st + 1..c'], c', err)"
      and le: "cs_cursor st \<le> c'" "c' \<le> newest (cs_cursor st) ms" and fail: "\<forall>x. err = Some x \<longrightarrow> can_fail ms x"
    by auto
  have bound: "c' \<le> max (cs_cursor st) (last_seq sF)"
    using newest_bound [of sF ms "cs_cursor st"] ok Opened le by simp
  have err: "\<forall>f. err \<noteq> Some (StreamError f)"
    using can_fail_error [of sF ms] ok Opened fail by auto
  let ?st' = "st\<lparr>cs_cursor := c', cs_failed_attempts := 0, cs_delay_ms := base_delay opts, cs_ever_connected := True\<rparr>"
  show ?thesis
  proof (cases err)
    case (Some x)
    with Opened con step le bound err catchError_cases [where e = x and opts = opts and st = ?st'] show ?thesis
      by (auto simp: attemptStep_def Let_def split: sum.splits)
  next
    case None
    show ?thesis
    proof (cases ending)
      case (Dropped x)
      with Opened None con step le bound ok catchError_cases [where e = x and opts = opts and st = ?st'] show ?thesis
        by (auto simp: attemptStep_def Let_def split: sum.splits)
    qed (use Opened None con step le bound in \<open>auto simp: attemptStep_def Let_def gap_fault_def split: if_splits\<close>)
  qed
qed

lemma stream_run:
  "list_all (attempt_ok sF) as \<Longrightarrow> 0 \<le> cs_cursor st \<Longrightarrow> streamSessionEvents opts st as = (acts, out, c) \<Longrightarrow>
   yields acts = map (entry sF) [cs_cursor st + 1..c] \<and> cs_cursor st \<le> c \<and> c \<le> max (cs_cursor st) (last_seq sF)
   \<and> \<not> gap_fault out"
proof (induction as arbitrary: st acts out c)
  case Nil
  then show ?case by (auto simp: gap_fault_def)
next
  case (Cons a as)
  obtain acts1 r c1 where step: "attemptStep opts st a = (acts1, r, c1)" by (cases "attemptStep opts st a")
  have run: "yields acts1 = map (entry sF) [cs_cursor st + 1..c1] \<and> cs_cursor st \<le> c1 \<and> c1 \<le> max (cs_cursor st) (last_seq sF) \<and>
      (case r of Inl out \<Rightarrow> \<not> gap_fault out | Inr (acts', st') \<Rightarrow> yields acts' = [] \<and> cs_cursor st' = c1)"
    using Cons.prems by (intro attemptStep_run [OF _ _ step]) auto
  show ?case
  proof (cases r)
    case (Inl o1)
    with step run Cons.prems(3) show ?thesis by auto
  next
    case (Inr p)
    obtain acts' st' where p: "p = (acts', st')" by (cases p)
    obtain more o2 c2 where rec: "streamSessionEvents opts st' as = (more, o2, c2)"
      by (cases "streamSessionEvents opts st' as")
    have "yields more = map (entry sF) [cs_cursor st' + 1..c2] \<and> cs_cursor st' \<le> c2
        \<and> c2 \<le> max (cs_cursor st') (last_seq sF) \<and> \<not> gap_fault o2"
      using Cons.prems run Inr p rec by (intro Cons.IH [of st' more o2 c2]) auto
    with step run Inr p rec Cons.prems(3) upto_join [of "cs_cursor st" c1 c2] show ?thesis
      by (auto simp flip: map_append)
  qed
qed

text \<open>When nothing fails, the client reaches every event the connections delivered.\<close>

lemma newest_covers: "c \<le> newest c ms \<and> (\<forall>e l. (Some e, l) \<in> set ms \<longrightarrow> ev_sequence e \<le> newest c ms)"
proof (induction ms arbitrary: c)
  case Nil
  then show ?case by (simp add: newest_def)
next
  case (Cons m ms)
  let ?c = "case fst m of None \<Rightarrow> c | Some e \<Rightarrow> max c (ev_sequence e)"
  have "newest c (m # ms) = newest ?c ms" by (simp add: newest_def)
  moreover have "c \<le> ?c" "\<forall>e l. m = (Some e, l) \<longrightarrow> ev_sequence e \<le> ?c" by (auto split: option.splits)
  ultimately show ?case using Cons.IH [of ?c] by fastforce
qed

lemma stream_progress:
  assumes "or_else (so_reconnect opts) True"
  shows "list_all (attempt_ok sF) as \<Longrightarrow> list_all smooth as \<Longrightarrow> 0 \<le> cs_cursor st \<Longrightarrow>
   \<exists>acts c. streamSessionEvents opts st as = (acts, StillRunning, c) \<and> cs_cursor st \<le> c
     \<and> (\<forall>e \<in> delivered as. ev_sequence e \<le> c)"
proof (induction as arbitrary: st)
  case Nil
  then show ?case by (simp add: delivered_def)
next
  case (Cons a as)
  then obtain ms where a: "a = Opened ms CleanClose" "\<forall>x. \<not> can_fail ms x" "list_all (message_ok sF) ms"
    by (cases a rule: smooth.cases) auto
  let ?c1 = "newest (cs_cursor st) ms"
  let ?st' = "st\<lparr>cs_cursor := ?c1, cs_failed_attempts := 0, cs_delay_ms := base_delay opts, cs_ever_connected := True\<rparr>"
  from consume_run [OF a(3) Cons.prems(3)] a(2)
  have "consume (cs_cursor st) ms = (map (entry sF) [cs_cursor st + 1..?c1], ?c1, None)" by auto
  then obtain acts1 acts' where step: "attemptStep opts st a = (acts1, Inr (acts', ?st'), ?c1)"
    using a(1) assms by (auto simp: attemptStep_def Let_def)
  have le: "cs_cursor st \<le> ?c1" using newest_covers by blast
  have "\<exists>acts c. streamSessionEvents opts ?st' as = (acts, StillRunning, c) \<and> cs_cursor ?st' \<le> c
      \<and> (\<forall>e \<in> delivered as. ev_sequence e \<le> c)"
    using Cons.prems le by (intro Cons.IH) auto
  then obtain acts c where rec: "streamSessionEvents opts ?st' as = (acts, StillRunning, c)" "?c1 \<le> c"
      "\<forall>e \<in> delivered as. ev_sequence e \<le> c" by auto
  have "ev_sequence e \<le> c" if "e \<in> delivered (a # as)" for e
    using that rec newest_covers [of "cs_cursor st" ms] a(1) by (fastforce simp: delivered_def)
  with step rec le show ?case by auto
qed

lemma forward_entries:
  "inv s \<Longrightarrow> 0 \<le> l \<Longrightarrow> l + int n \<le> last_seq s \<Longrightarrow>
   forward l (map (entry s) [l + 1..l + int n]) = (map (entry s) [l + 1..l + int n], l + int n)"
proof (induction n arbitrary: l)
  case 0
  then show ?case by simp
next
  case (Suc n)
  have up: "[l + 1..l + int (Suc n)] = (l + 1) # [(l + 1) + 1..(l + 1) + int n]"
    by (subst upto_rec1) (simp_all add: algebra_simps)
  have e: "ev_sequence (entry s (l + 1)) = l + 1" using Suc.prems by (intro entry_seq) auto
  have "forward (l + 1) (map (entry s) [(l + 1) + 1..(l + 1) + int n])
      = (map (entry s) [(l + 1) + 1..(l + 1) + int n], (l + 1) + int n)"
    using Suc.prems by (intro Suc.IH) auto
  then show ?case unfolding up by (simp add: e)
qed

definition entry_of :: "'s \<Rightarrow> session_event \<Rightarrow> bool" where
  "entry_of s e \<longleftrightarrow> 1 \<le> ev_sequence e \<and> ev_sequence e \<le> last_seq s \<and> e = entry s (ev_sequence e)"

lemma sendEvent_run:
  assumes "inv s" "0 \<le> l" "entry_of s e"
  shows "sendEvent (page s) l e = (map (entry s) [l + 1..max l (ev_sequence e)], max l (ev_sequence e))"
proof (cases "ev_sequence e \<le> l")
  case True
  then show ?thesis by (simp add: sendEvent_def max_def)
next
  case False
  let ?n = "ev_sequence e"
  have last: "?n \<le> last_seq s" "e = entry s ?n" using assms(3) by (auto simp: entry_of_def)
  have pg: "page s l (?n - l - 1) = map (entry s) [l + 1..?n - 1]"
    using page_run [of s l "?n - l - 1"] assms(1,2) last False by (simp add: min_def)
  have "forward l (map (entry s) [l + 1..?n - 1]) = (map (entry s) [l + 1..?n - 1], ?n - 1)"
    using forward_entries [of s l "nat (?n - 1 - l)"] assms(1,2) last False by simp
  moreover have "[l + 1..?n] = [l + 1..?n - 1] @ [?n]" using False by (intro upto_rec2) simp
  ultimately show ?thesis
    using False pg last(2) by (auto simp: sendEvent_def max_def Let_def)
qed

lemma sendAll_run:
  "inv s \<Longrightarrow> 0 \<le> l \<Longrightarrow> list_all (entry_of s) es \<Longrightarrow>
   sendAll (page s) l es = (map (entry s) [l + 1..fold (\<lambda>e c. max c (ev_sequence e)) es l],
     fold (\<lambda>e c. max c (ev_sequence e)) es l)"
proof (induction es arbitrary: l)
  case Nil
  then show ?case by simp
next
  case (Cons e es)
  let ?l = "max l (ev_sequence e)"
  have mono: "b \<le> fold (\<lambda>e c. max c (ev_sequence e)) es b" for b
    by (induction es arbitrary: b) (simp, metis fold_simps(2) max.bounded_iff)
  have "sendAll (page s) ?l es = (map (entry s) [?l + 1..fold (\<lambda>e c. max c (ev_sequence e)) es ?l],
      fold (\<lambda>e c. max c (ev_sequence e)) es ?l)"
    using Cons.prems by (intro Cons.IH) auto
  with Cons.prems sendEvent_run [of s l e] upto_join [of l ?l "fold (\<lambda>e c. max c (ev_sequence e)) es ?l"] mono [of ?l]
  show ?case by (simp add: max.commute flip: map_append)
qed

lemma entries_sorted:
  assumes "inv s" "0 \<le> c" "m \<le> last_seq s"
  shows "by_sequence (map (entry s) [c + 1..m]) = map (entry s) [c + 1..m]"
proof -
  have "map ev_sequence (map (entry s) [c + 1..m]) = [c + 1..m]"
    using assms by (auto simp: entry_seq intro!: map_idI)
  then show ?thesis unfolding by_sequence_def by (intro sort_key_id_if_sorted) (simp del: map_map)
qed

lemma entries_newest:
  "inv s \<Longrightarrow> 0 \<le> c \<Longrightarrow> c + int n \<le> last_seq s \<Longrightarrow>
   fold (\<lambda>e b. max b (ev_sequence e)) (map (entry s) [c + 1..c + int n]) c = c + int n"
proof (induction n arbitrary: c)
  case 0
  then show ?case by simp
next
  case (Suc n)
  have up: "[c + 1..c + int (Suc n)] = (c + 1) # [(c + 1) + 1..(c + 1) + int n]"
    by (subst upto_rec1) (simp_all add: algebra_simps)
  have e: "ev_sequence (entry s (c + 1)) = c + 1" using Suc.prems by (intro entry_seq) auto
  have "fold (\<lambda>e b. max b (ev_sequence e)) (map (entry s) [(c + 1) + 1..(c + 1) + int n]) (c + 1) = (c + 1) + int n"
    using Suc.prems by (intro Suc.IH) auto
  then show ?case unfolding up by (simp add: e max_def)
qed

lemma replay_run:
  assumes "inv s" "1 \<le> ps"
  shows "0 \<le> c \<Longrightarrow> replaySessionEvents (page s) ps c c
    = Some (map (entry s) [c + 1..max c (last_seq s)], max c (last_seq s))"
proof (induction "nat (last_seq s - c)" arbitrary: c rule: less_induct)
  case less
  let ?m = "min (c + ps) (last_seq s)"
  have p: "page s c ps = map (entry s) [c + 1..?m]" using page_run [of s c ps] assms less.prems by simp
  show ?case
  proof (cases "last_seq s \<le> c")
    case True
    then show ?thesis by (subst replaySessionEvents.simps) (simp add: p max_def)
  next
    case False
    then have m: "c < ?m" "?m \<le> last_seq s" using assms(2) by auto
    have ne: "page s c ps \<noteq> []" unfolding p using m(1) by (auto simp: min_def split: if_splits)
    have "list_all (entry_of s) (map (entry s) [c + 1..?m])"
      using assms(1) less.prems m(2) by (auto simp: list_all_iff entry_of_def entry_seq)
    then have send: "sendAll (page s) c (by_sequence (page s c ps)) = (map (entry s) [c + 1..?m], ?m)"
      and cur: "fold (\<lambda>e b. max b (ev_sequence e)) (page s c ps) c = ?m"
      using sendAll_run [of s c] entries_newest [of s c "nat (?m - c)"] entries_sorted [of s c ?m] assms(1) less.prems m
      by (simp_all add: p)
    show ?thesis
    proof (cases "int (length (page s c ps)) < ps")
      case True
      then have "?m = last_seq s" using m by (auto simp: p)
      with True ne send False show ?thesis by (subst replaySessionEvents.simps) (simp add: max_def)
    next
      case False
      have "replaySessionEvents (page s) ps ?m ?m
          = Some (map (entry s) [?m + 1..max ?m (last_seq s)], max ?m (last_seq s))"
        using m less.prems by (intro less.hyps) auto
      moreover have "[c + 1..?m] @ [?m + 1..last_seq s] = [c + 1..last_seq s]"
        using m by (intro upto_join) auto
      ultimately show ?thesis
        using False ne send cur m by (subst replaySessionEvents.simps) (simp add: max_absorb2 flip: map_append)
    qed
  qed
qed

lemma server_run:
  assumes "inv s0" "extends s0 s" "0 \<le> after" "after \<le> last_seq s0"
    and "list_all (entry_of s) buffered" "list_all (list_all (entry_of s)) batches"
  shows "\<exists>c. sseSessionStream (page s0) (page s) after buffered batches = Some (map (entry s) [after + 1..c], c)
    \<and> last_seq s0 \<le> c \<and> (\<forall>e \<in> set buffered \<union> \<Union> (set (map set batches)). ev_sequence e \<le> c)"
proof -
  let ?L = "last_seq s0" and ?f = "\<lambda>e b. max b (ev_sequence e)"
  let ?b = "by_sequence buffered" and ?bs = "concat (map by_sequence batches)"
  let ?c1 = "fold ?f ?b ?L"
  let ?c2 = "fold ?f ?bs ?c1"
  have inv: "inv s" and L: "?L \<le> last_seq s" "0 \<le> ?L" using assms(2-4) by (auto simp: extends_def)
  have mono: "b \<le> fold ?f es b \<and> (\<forall>e \<in> set es. ev_sequence e \<le> fold ?f es b)" for es b
  proof (induction es arbitrary: b)
    case (Cons e es)
    from Cons.IH [of "max b (ev_sequence e)"] show ?case by simp
  qed simp
  note m1 = mono [of ?L ?b] and m2 = mono [of ?c1 ?bs]
  have c: "?L \<le> ?c1" "?c1 \<le> ?c2" "0 \<le> ?c1" using m1 m2 L(2) by auto
  have ok: "list_all (entry_of s) ?b" "list_all (entry_of s) ?bs"
    using assms(5,6) by (auto simp: by_sequence_def list_all_iff)
  have "replaySessionEvents (page s0) 1000 after after = Some (map (entry s) [after + 1..?L], ?L)"
    using replay_run [OF assms(1), of 1000 after] assms(3,4) entries_extended [OF assms(2,3), of ?L] by (simp add: max_absorb2)
  moreover have "sendAll (page s) ?L ?b = (map (entry s) [?L + 1..?c1], ?c1)"
    using inv L(2) ok(1) by (rule sendAll_run)
  moreover have "sendAll (page s) ?c1 ?bs = (map (entry s) [?c1 + 1..?c2], ?c2)"
    using inv c(3) ok(2) by (rule sendAll_run)
  moreover have "[after + 1..?L] @ [?L + 1..?c1] @ [?c1 + 1..?c2] = [after + 1..?c2]"
    using upto_join [of ?L ?c1 ?c2] upto_join [of after ?L ?c2] assms(4) c by simp
  ultimately have run: "sseSessionStream (page s0) (page s) after buffered batches = Some (map (entry s) [after + 1..?c2], ?c2)"
    by (simp add: sseSessionStream_def flip: map_append)
  have "ev_sequence e \<le> ?c2" if "e \<in> set buffered \<union> \<Union> (set (map set batches))" for e
    using that m1 m2 c by (auto simp: by_sequence_def)
  with run c show ?thesis by (intro exI [of _ ?c2]) auto
qed

end

interpretation session_event_log: event_log log_step "\<lambda>_ _. True" "log_ready ws sid" "log_last ws sid" "log_entry ws sid"
  "log_page ws sid" for ws sid
  by unfold_locales

subsection \<open>The session log as the stream's source\<close>

text \<open>
  \<open>log_later a b\<close>: the tables \<open>b\<close> come from \<open>a\<close> by appends. A live message is an event of
  the log as it was when the message was handled, and the replay endpoint then answers with a page
  of that log or a later one, or fails with an error of the network or the API.
\<close>

definition log_later :: "session_db \<Rightarrow> session_db \<Rightarrow> bool" where
  "log_later a b \<longleftrightarrow> (\<exists>ops. b = run_ops log_step ops a)"

definition replay_endpoint :: "uuid \<Rightarrow> uuid \<Rightarrow> session_db \<Rightarrow> list_events \<Rightarrow> bool" where
  "replay_endpoint ws sid db l \<longleftrightarrow>
     (\<forall>a n. (\<exists>x. l a n = Inl x \<and> (\<forall>f. x \<noteq> StreamError f))
        \<or> (\<exists>db'. log_later db db' \<and> l a n = Inr (listSessionEvents ws sid (page_options a n) db')))"

fun live_message_of :: "uuid \<Rightarrow> uuid \<Rightarrow> session_db \<Rightarrow> live_message \<Rightarrow> bool" where
  "live_message_of ws sid dbF (None, l) = True"
| "live_message_of ws sid dbF (Some e, l) =
     (\<exists>db. log_ready ws sid db \<and> log_later db dbF \<and> e \<in> mapEvent ` set (events_of ws sid db)
        \<and> replay_endpoint ws sid db l)"

fun attempt_of :: "uuid \<Rightarrow> uuid \<Rightarrow> session_db \<Rightarrow> attempt \<Rightarrow> bool" where
  "attempt_of ws sid dbF (OpenFailed e) = (\<forall>f. e \<noteq> StreamError f)"
| "attempt_of ws sid dbF (Opened ms ending) =
     (list_all (live_message_of ws sid dbF) ms \<and> (\<forall>f. ending \<noteq> Dropped (StreamError f)))"
| "attempt_of ws sid dbF AbortedBeforeOpen = True"

lemma log_later_extends: "log_ready ws sid db \<Longrightarrow> log_later db db' \<Longrightarrow> session_log.extends ws sid db db'"
  by (auto simp: log_later_def intro: session_log.extends_run)

lemma log_event_entry:
  assumes ready: "log_ready ws sid db" and e: "e \<in> mapEvent ` set (events_of ws sid db)"
  shows "1 \<le> ev_sequence e \<and> ev_sequence e \<le> log_last ws sid db \<and> e = log_entry ws sid db (ev_sequence e)"
proof -
  from e obtain i where i: "i < length (events_of ws sid db)" "e = mapEvent (events_of ws sid db ! i)"
    by (auto simp: in_set_conv_nth)
  then have "ev_sequence e = int i + 1" using log_ready_nth [OF ready] by simp
  with i log_length [OF ready] show ?thesis by (simp add: log_entry_def)
qed

lemma replay_endpoint_replays:
  "log_ready ws sid db \<Longrightarrow> replay_endpoint ws sid db l \<Longrightarrow> session_event_log.replays ws sid db l"
  unfolding session_event_log.replays_def replay_endpoint_def log_page_def
  using log_later_extends by metis

lemma live_message_ok: "live_message_of ws sid dbF m \<Longrightarrow> session_event_log.message_ok ws sid dbF m"
proof (cases m)
  case (Pair x l)
  assume live: "live_message_of ws sid dbF m"
  show ?thesis
  proof (cases x)
    case None
    then show ?thesis by (simp add: Pair)
  next
    case (Some e)
    with live Pair obtain db where db: "log_ready ws sid db" "log_later db dbF"
        "e \<in> mapEvent ` set (events_of ws sid db)" "replay_endpoint ws sid db l" by auto
    note facts = log_event_entry [OF db(1,3)] log_later_extends [OF db(1,2)] replay_endpoint_replays [OF db(1,4)]
    show ?thesis
      unfolding Pair Some session_event_log.message_ok.simps
      using facts db(1) by blast
  qed
qed

lemma attempt_of_ok: "attempt_of ws sid dbF a \<Longrightarrow> session_event_log.attempt_ok ws sid dbF a"
  by (cases a) (auto simp: list_all_iff live_message_ok)

subsection \<open>Properties\<close>

text \<open>
  C9: exactly-once, in-order delivery. Whatever the connections do (refused, dropped, cut,
  reconnected, replaying old events, skipping events, with a replay endpoint that may fail), the
  client yields exactly the session's log after its start cursor, each event once and in sequence
  order, up to some point of the log; it never stops for a gap in the log. When no connection
  fails, that point covers every event the connections delivered.
\<close>

theorem client_exactly_once:
  assumes ready: "log_ready ws sid db" and script: "list_all (attempt_of ws sid db) script"
    and start: "or_else (so_after opts) 0 = after" "0 \<le> after" "after \<le> log_last ws sid db"
    and run: "streamSessionEvents opts (client_start opts) script = (acts, out, c)"
  shows "map ev_sequence (yields acts) = [after + 1..c] \<and> yields acts = map (log_entry ws sid db) [after + 1..c]
    \<and> after \<le> c \<and> c \<le> log_last ws sid db \<and> \<not> gap_fault out
    \<and> (list_all smooth script \<and> or_else (so_reconnect opts) True \<longrightarrow> (\<forall>e \<in> delivered script. ev_sequence e \<le> c))"
proof -
  have ok: "list_all (session_event_log.attempt_ok ws sid db) script"
    using script by (auto simp: list_all_iff attempt_of_ok)
  have c0: "cs_cursor (client_start opts) = after" using start(1) by (simp add: client_start_def)
  have run': "yields acts = map (log_entry ws sid db) [after + 1..c]" "after \<le> c" "c \<le> log_last ws sid db" "\<not> gap_fault out"
    using session_event_log.stream_run [OF ok _ run] c0 start(2,3) by auto
  then have "map ev_sequence (yields acts) = [after + 1..c]"
    using start(2) by (auto simp: session_log.entry_seq [OF ready] intro!: map_idI)
  moreover have "\<forall>e \<in> delivered script. ev_sequence e \<le> c" if "list_all smooth script \<and> or_else (so_reconnect opts) True"
    using session_event_log.stream_progress [of opts ws sid db script "client_start opts"] that ok c0 start(2) run by auto
  ultimately show ?thesis using run' by blast
qed

definition demo_log :: session_db where
  "demo_log = run_ops log_step demo_appends demo_db"

definition demo_endpoint :: list_events where
  "demo_endpoint a n = Inr (listSessionEvents ''w'' ''s'' (page_options a n) demo_log)"

definition demo_script :: "attempt list" where
  "demo_script = [Opened [(Some (log_entry ''w'' ''s'' demo_log 1), demo_endpoint)] (Dropped TypeErr),
     Opened [(None, demo_endpoint), (Some (log_entry ''w'' ''s'' demo_log 4), demo_endpoint)] CleanClose]"

definition demo_options :: stream_options where
  "demo_options = \<lparr>so_after = None, so_reconnect = None, so_reconnect_delay_ms = None,
     so_max_reconnect_delay_ms = None, so_max_reconnect_attempts = None\<rparr>"

lemma demo_log_ready: "log_ready ''w'' ''s'' demo_log"
proof -
  have "log_inv demo_log" unfolding demo_log_def using demo_db_inv by (rule log_run.run_inv) simp
  moreover have "find_session ''w'' ''s'' demo_log \<noteq> None" unfolding demo_log_def by code_simp
  ultimately show ?thesis by (simp add: log_ready_def)
qed

lemma demo_script_ok: "list_all (attempt_of ''w'' ''s'' demo_log) demo_script"
proof -
  have "replay_endpoint ''w'' ''s'' demo_log demo_endpoint"
    unfolding replay_endpoint_def demo_endpoint_def log_later_def by (metis run_ops.simps(1))
  moreover have "log_later demo_log demo_log" unfolding log_later_def by (metis run_ops.simps(1))
  moreover have "length (events_of ''w'' ''s'' demo_log) = 4" unfolding demo_log_def by code_simp
  then have "log_entry ''w'' ''s'' demo_log 1 \<in> mapEvent ` set (events_of ''w'' ''s'' demo_log)"
    "log_entry ''w'' ''s'' demo_log 4 \<in> mapEvent ` set (events_of ''w'' ''s'' demo_log)"
    by (auto simp: log_entry_def)
  ultimately show ?thesis using demo_log_ready by (auto simp: demo_script_def)
qed

lemma client_exactly_once_witness:
  "\<exists>acts out c. streamSessionEvents demo_options (client_start demo_options) demo_script = (acts, out, c)
     \<and> map ev_sequence (yields acts) = [1, 2, 3, 4]"
proof -
  obtain acts out c where run: "streamSessionEvents demo_options (client_start demo_options) demo_script = (acts, out, c)"
    by (cases "streamSessionEvents demo_options (client_start demo_options) demo_script")
  have "snd (snd (streamSessionEvents demo_options (client_start demo_options) demo_script)) = 4" by code_simp
  then have "c = 4" using run by simp
  moreover have "log_last ''w'' ''s'' demo_log = 4" unfolding demo_log_def by code_simp
  moreover have "[1..4] = [1, 2, 3, 4::int]" by code_simp
  moreover have start: "or_else (so_after demo_options) 0 = 0" "(0::int) \<le> 0"
    by (simp_all add: demo_options_def or_else_def)
  moreover have "0 \<le> log_last ''w'' ''s'' demo_log" using calculation by simp
  then have "map ev_sequence (yields acts) = [0 + 1..c]"
    by (rule client_exactly_once [OF demo_log_ready demo_script_ok start _ run, THEN conjunct1])
  ultimately have seqs: "map ev_sequence (yields acts) = [1, 2, 3, 4]" by simp
  show ?thesis
    by (rule exI [of _ acts], rule exI [of _ out], rule exI [of _ c], rule conjI [OF run seqs])
qed

text \<open>
  The server's stream. Over a log state in which everything buffered or published is already
  stored, replay and live phase together terminate and send exactly the log after the requested
  sequence, contiguous and in order, at least to the end of the log as it was replayed and to
  every event the bus brought.
\<close>

theorem server_stream_contiguous:
  assumes "log_ready ws sid db0" and "log_later db0 db" and "0 \<le> after" "after \<le> log_last ws sid db0"
    and "set buffered \<subseteq> mapEvent ` set (events_of ws sid db)"
    and "\<forall>b \<in> set batches. set b \<subseteq> mapEvent ` set (events_of ws sid db)"
  shows "\<exists>c. sseSessionStream (\<lambda>a n. listSessionEvents ws sid (page_options a n) db0)
        (\<lambda>a n. listSessionEvents ws sid (page_options a n) db) after buffered batches
      = Some (map (log_entry ws sid db) [after + 1..c], c)
    \<and> log_last ws sid db0 \<le> c \<and> (\<forall>e \<in> set buffered \<union> \<Union> (set (map set batches)). ev_sequence e \<le> c)"
proof -
  have ext: "session_log.extends ws sid db0 db" using assms(1,2) by (rule log_later_extends)
  then have ready: "log_ready ws sid db" by (simp add: session_log.extends_def)
  have "session_event_log.entry_of ws sid db e" if "e \<in> mapEvent ` set (events_of ws sid db)" for e
    using log_event_entry [OF ready that] unfolding session_event_log.entry_of_def by blast
  note ent = this
  have "list_all (session_event_log.entry_of ws sid db) buffered"
    using assms(5) ent unfolding list_all_iff by blast
  moreover have "list_all (list_all (session_event_log.entry_of ws sid db)) batches"
    using assms(6) ent unfolding list_all_iff by blast
  ultimately have "list_all (session_event_log.entry_of ws sid db) buffered"
    "list_all (list_all (session_event_log.entry_of ws sid db)) batches" by simp_all
  from session_event_log.server_run [OF assms(1) ext assms(3,4) this] show ?thesis
    unfolding log_page_def .
qed

lemma server_stream_contiguous_witness:
  "\<exists>c. sseSessionStream (\<lambda>a n. listSessionEvents ''w'' ''s'' (page_options a n) demo_log)
      (\<lambda>a n. listSessionEvents ''w'' ''s'' (page_options a n) demo_log) 2 [] []
      = Some (map (log_entry ''w'' ''s'' demo_log) [3..c], c) \<and> 4 \<le> c"
proof -
  have "log_later demo_log demo_log" unfolding log_later_def by (metis run_ops.simps(1))
  moreover have "log_last ''w'' ''s'' demo_log = 4" unfolding demo_log_def by code_simp
  ultimately show ?thesis
    using server_stream_contiguous [of "''w''" "''s''" demo_log demo_log 2 "[]" "[]"] demo_log_ready by simp
qed

text \<open>The sleeps of a trace, and the attempts that fail to open with an error worth a retry.\<close>

fun sleeps :: "client_action list \<Rightarrow> millis list" where
  "sleeps [] = []"
| "sleeps (Sleep d # as) = d # sleeps as"
| "sleeps (_ # as) = sleeps as"

lemma sleeps_append [simp]: "sleeps (xs @ ys) = sleeps xs @ sleeps ys"
  by (induction xs rule: sleeps.induct) auto

fun failed_open :: "attempt \<Rightarrow> bool" where
  "failed_open (OpenFailed e) = isRetryableStreamError e"
| "failed_open _ = False"

definition attempts_left :: "stream_options \<Rightarrow> client_state \<Rightarrow> nat \<Rightarrow> nat" where
  "attempts_left opts st n =
     (case so_max_reconnect_attempts opts of None \<Rightarrow> n | Some m \<Rightarrow> min (m - cs_failed_attempts st) n)"

definition backoff :: "stream_options \<Rightarrow> millis \<Rightarrow> nat \<Rightarrow> millis" where
  "backoff opts d i = min (d * 2 ^ i) (max_delay opts)"

lemma backoff_Suc:
  assumes "0 \<le> d" "d \<le> max_delay opts"
  shows "backoff opts (min (d * 2) (max_delay opts)) i = backoff opts d (Suc i)"
proof (cases "d * 2 \<le> max_delay opts")
  case False
  define M where "M = max_delay opts"
  have grow: "x * 1 \<le> x * 2 ^ i" if "0 \<le> x" for x :: int
    by (rule mult_left_mono) (use that in simp_all)
  have "M \<le> M * 2 ^ i" "d * 2 \<le> d * 2 * 2 ^ i" using grow [of M] grow [of "d * 2"] assms by (simp_all add: M_def)
  moreover have "M < d * 2" "d * 2 * 2 ^ i = d * 2 ^ Suc i" using False by (simp_all add: M_def)
  ultimately have "min (min (d * 2) M * 2 ^ i) M = M" "min (d * 2 ^ Suc i) M = M" by (simp_all add: min_absorb2)
  then show ?thesis unfolding backoff_def M_def by simp
qed (simp add: backoff_def mult_ac)

lemma failed_opens_run:
  assumes "list_all failed_open script" and "or_else (so_reconnect opts) True"
    and "0 \<le> base_delay opts" "base_delay opts \<le> cs_delay_ms st" "cs_delay_ms st \<le> max_delay opts"
    and "streamSessionEvents opts st script = (acts, out, c)"
  shows "sleeps acts = map (backoff opts (cs_delay_ms st)) [0..<attempts_left opts st (length script)]
    \<and> out = (if attempts_left opts st (length script) < length script then Threw (StreamError GaveUp) else StillRunning)"
  using assms
proof (induction script arbitrary: st acts out c)
  case Nil
  then show ?case by (auto simp: attempts_left_def split: option.splits)
next
  case (Cons a script)
  then obtain e where a: "a = OpenFailed e" "isRetryableStreamError e" by (cases a) auto
  then have na: "\<not> isAbortError e" by (auto simp: isAbortError_def)
  let ?d = "cs_delay_ms st"
  show ?case
  proof (cases "attempts_left opts st (Suc (length script)) = 0")
    case True
    then have "catchError opts st e = Inl (Threw (StreamError GaveUp))"
      using Cons.prems(2) a(2) na
      by (auto simp: catchError_def attempts_left_def Let_def min_def split: option.splits if_splits)
    with Cons.prems True show ?thesis by (auto simp: a(1) attemptStep_def Let_def)
  next
    case False
    define st' where "st' = st\<lparr>cs_failed_attempts := cs_failed_attempts st + 1, cs_delay_ms := min (?d * 2) (max_delay opts)\<rparr>"
    have "max (?d * 2) (base_delay opts) = ?d * 2" using Cons.prems(3,4) by simp
    then have step: "catchError opts st e = Inr ([Sleep ?d], st')"
      using False Cons.prems(2) a(2) na
      by (auto simp: catchError_def attempts_left_def st'_def Let_def min_def split: option.splits if_splits)
    obtain acts' out' c' where rest: "streamSessionEvents opts st' script = (acts', out', c')"
      by (cases "streamSessionEvents opts st' script")
    have acts: "sleeps acts = ?d # sleeps acts'" "out = out'"
      using Cons.prems(6) step rest by (auto simp: a(1) attemptStep_def Let_def)
    have left: "attempts_left opts st (Suc (length script)) = Suc (attempts_left opts st' (length script))"
      using False by (auto simp: attempts_left_def st'_def min_def split: option.splits if_splits)
    have "base_delay opts \<le> cs_delay_ms st'" "cs_delay_ms st' \<le> max_delay opts"
      using Cons.prems(3-5) by (auto simp: st'_def)
    then have ih: "sleeps acts' = map (backoff opts (cs_delay_ms st')) [0..<attempts_left opts st' (length script)]
        \<and> out' = (if attempts_left opts st' (length script) < length script then Threw (StreamError GaveUp) else StillRunning)"
      using Cons.prems(1-3) rest by (intro Cons.IH) auto
    have "backoff opts (cs_delay_ms st') i = backoff opts ?d (Suc i)" for i
      using backoff_Suc [of ?d opts i] Cons.prems(3-5) by (simp add: st'_def)
    moreover have "backoff opts ?d 0 = ?d" using Cons.prems(5) by (simp add: backoff_def)
    ultimately show ?thesis
      using ih by (simp add: acts left map_upt_Suc del: upt_Suc)
  qed
qed

text \<open>
  The reconnect loop. While every open fails with a retryable error, the client sleeps the base
  delay doubled after each failure and capped at the maximum, and throws after exactly the allowed
  number of failed attempts; without a limit it never gives up.
\<close>

theorem reconnect_backoff:
  assumes "list_all failed_open script" and "or_else (so_reconnect opts) True"
    and "0 \<le> base_delay opts" "base_delay opts \<le> max_delay opts"
    and "streamSessionEvents opts (client_start opts) script = (acts, out, c)"
  shows "sleeps acts = map (\<lambda>i. min (base_delay opts * 2 ^ i) (max_delay opts))
      [0..<case so_max_reconnect_attempts opts of None \<Rightarrow> length script | Some n \<Rightarrow> min n (length script)]
    \<and> (out = Threw (StreamError GaveUp) \<longleftrightarrow> (\<exists>n. so_max_reconnect_attempts opts = Some n \<and> n < length script))
    \<and> (out \<noteq> Threw (StreamError GaveUp) \<longrightarrow> out = StillRunning)"
  using failed_opens_run [OF assms(1-3) _ _ assms(5)] assms(4)
  by (auto simp: client_start_def attempts_left_def backoff_def min_def split: option.splits)

lemma reconnect_backoff_witness:
  "\<exists>acts c. streamSessionEvents (demo_options\<lparr>so_max_reconnect_attempts := Some 6\<rparr>)
      (client_start (demo_options\<lparr>so_max_reconnect_attempts := Some 6\<rparr>)) (replicate 7 (OpenFailed (ApiError 503)))
      = (acts, Threw (StreamError GaveUp), c) \<and> sleeps acts = [500, 1000, 2000, 4000, 8000, 10000]"
proof -
  let ?o = "demo_options\<lparr>so_max_reconnect_attempts := Some 6\<rparr>"
  let ?s = "replicate 7 (OpenFailed (ApiError 503))"
  obtain acts out c where run: "streamSessionEvents ?o (client_start ?o) ?s = (acts, out, c)"
    by (cases "streamSessionEvents ?o (client_start ?o) ?s")
  have pre: "list_all failed_open ?s" "or_else (so_reconnect ?o) True" "0 \<le> base_delay ?o" "base_delay ?o \<le> max_delay ?o"
    by (simp_all add: demo_options_def or_else_def base_delay_def max_delay_def list_all_iff)
  have seq: "[0..<6] = [0, 1, 2, 3, 4, 5::nat]" by (simp add: upt_rec)
  show ?thesis
    using reconnect_backoff [OF pre run] run seq
    by (simp add: demo_options_def base_delay_def max_delay_def or_else_def)
qed

end
