(* ===== verification/Queue.thy ===== *)
theory Queue
  imports Prelude
begin

text \<open>
  The contract of a queue over a stateful store: \<open>items\<close> reads the queue off the state, \<open>enq\<close>
  puts at the back, \<open>deq\<close> takes from the front. Proved once: what a run of enqueues followed by
  a run of claims returns, and that the claims end exactly when the queue is used up.
\<close>

locale fifo_queue =
  fixes inv :: "'s \<Rightarrow> bool" and items :: "'s \<Rightarrow> 'a list"
    and ok :: "'x \<Rightarrow> 's \<Rightarrow> bool" and enq :: "'x \<Rightarrow> 's \<Rightarrow> 's" and item :: "'x \<Rightarrow> 'a"
    and deq :: "'s \<Rightarrow> 's \<times> 'a option"
  assumes enq_back: "inv s \<Longrightarrow> ok x s \<Longrightarrow> inv (enq x s) \<and> items (enq x s) = items s @ [item x]"
    and deq_empty: "inv s \<Longrightarrow> items s = [] \<Longrightarrow> deq s = (s, None)"
    and deq_front: "inv s \<Longrightarrow> items s = a # as \<Longrightarrow> \<exists>s'. deq s = (s', Some a) \<and> inv s' \<and> items s' = as"
begin

fun drain_n :: "nat \<Rightarrow> 's \<Rightarrow> 's \<times> 'a list" where
  "drain_n 0 s = (s, [])"
| "drain_n (Suc n) s =
     (case deq s of (s1, None) \<Rightarrow> (s1, []) | (s1, Some a) \<Rightarrow> (let (s2, as) = drain_n n s1 in (s2, a # as)))"

lemma enq_all: "inv s \<Longrightarrow> admissible enq ok xs s \<Longrightarrow> inv (run_ops enq xs s) \<and> items (run_ops enq xs s) = items s @ map item xs"
  by (induction xs arbitrary: s) (auto simp: enq_back)

lemma drain_n_items:
  "inv s \<Longrightarrow> snd (drain_n n s) = take n (items s) \<and> inv (fst (drain_n n s)) \<and> items (fst (drain_n n s)) = drop n (items s)"
proof (induction n arbitrary: s)
  case (Suc n)
  show ?case
  proof (cases "items s")
    case Nil
    with Suc.prems show ?thesis by (simp add: deq_empty)
  next
    case (Cons a as)
    with deq_front [OF Suc.prems] obtain s' where "deq s = (s', Some a)" "inv s'" "items s' = as" by blast
    with Cons Suc.IH [of s'] show ?thesis by (simp add: split_beta)
  qed
qed simp

lemma enq_drain:
  assumes "inv s" "admissible enq ok xs s"
  shows "snd (drain_n n (run_ops enq xs s)) = take n (items s @ map item xs)"
  using enq_all [OF assms] drain_n_items by simp

end

end
