(* ===== verification/Turn_Queue.thy ===== *)
theory Turn_Queue
  imports Session_Log Queue "HOL-Library.List_Lexorder" "HOL-Library.Char_ord" "HOL-Library.Product_Lexorder"
begin

text \<open>
  The turn queue of a session (\<^verbatim>\<open>packages/db/src/index.ts\<close>): enqueue with its position, the
  claim, finish, requeue after preemption, the worker-death counter and its fence, the edits a
  user makes to queued turns, and the per-turn tool budget. Each operation is one transaction.
  Position and counters are unbounded integers here; the columns are 32-bit. A turn's metadata
  is a JSON object. \<open>locked\<close> lists the rows that concurrent transactions hold, which the claim
  skips.

  Shown: the claim order is a queue (enqueue at the back, claim from the front, preemption just
  before the child notifications), the tool budget is exact under any interleaving, a dying
  dispatch cannot settle a turn that recovery moved on, and a settled turn never runs again.
\<close>

subsection \<open>Positions\<close>

record enqueue_input =
  en_account_id :: uuid
  en_workspace_id :: uuid
  en_session_id :: uuid
  en_trigger_event_id :: uuid
  en_temporal_workflow_id :: string
  en_source :: turn_source
  en_prompt :: jstr
  en_resources :: jsval
  en_tools :: jsval
  en_model :: string
  en_reasoning_effort :: string
  en_sandbox_backend :: string
  en_metadata :: jsval
  en_preempt_child_notifications :: bool

definition queued_in :: "uuid \<Rightarrow> uuid \<Rightarrow> turn_row \<Rightarrow> bool" where
  "queued_in ws sid t \<longleftrightarrow> turn_of ws sid t \<and> t_status t = TQueued"

fun trigger_field :: "jsval option \<Rightarrow> string \<Rightarrow> jsval option" where
  "trigger_field (Some (VObj fs)) k = map_of fs (u16 k)"
| "trigger_field _ k = None"

definition child_notification :: "turn_row \<Rightarrow> bool" where
  "child_notification t \<longleftrightarrow> trigger_field (Some (t_metadata t)) ''childCompletion'' \<noteq> None"

definition nextTurnPosition :: "uuid \<Rightarrow> uuid \<Rightarrow> session_db \<Rightarrow> int" where
  "nextTurnPosition ws sid db =
     (let ps = map t_position (select_where (turn_of ws sid) (session_turns db)) in
      (if ps = [] then 0 else Max (set ps)) + 1)"

definition shiftFrom :: "uuid \<Rightarrow> uuid \<Rightarrow> int \<Rightarrow> session_db \<Rightarrow> session_db" where
  "shiftFrom ws sid minPos db = db\<lparr>session_turns :=
     update_where (\<lambda>t. queued_in ws sid t \<and> minPos \<le> t_position t)
       (\<lambda>t. t\<lparr>t_position := t_position t + 1\<rparr>) (session_turns db)\<rparr>"

definition positionForEnqueue :: "enqueue_input \<Rightarrow> session_db \<Rightarrow> session_db \<times> int" where
  "positionForEnqueue inp db =
     (let ws = en_workspace_id inp; sid = en_session_id inp;
          ps = map t_position (select_where (\<lambda>t. queued_in ws sid t \<and> child_notification t) (session_turns db)) in
      if \<not> en_preempt_child_notifications inp \<or> ps = [] then (db, nextTurnPosition ws sid db)
      else (shiftFrom ws sid (Min (set ps)) db, Min (set ps)))"

subsection \<open>Creating turns\<close>

definition enqueuedRow :: "uuid \<Rightarrow> millis \<Rightarrow> int \<Rightarrow> enqueue_input \<Rightarrow> turn_row" where
  "enqueuedRow newId now position inp =
     \<lparr>t_id = newId, t_account_id = en_account_id inp, t_workspace_id = en_workspace_id inp,
      t_session_id = en_session_id inp, t_trigger_event_id = en_trigger_event_id inp,
      t_temporal_workflow_id = en_temporal_workflow_id inp, t_status = TQueued, t_source = en_source inp,
      t_position = position, t_prompt = en_prompt inp, t_resources = en_resources inp, t_tools = en_tools inp,
      t_model = en_model inp, t_reasoning_effort = en_reasoning_effort inp,
      t_sandbox_backend = en_sandbox_backend inp, t_metadata = en_metadata inp, t_toolspace_call_count = 0,
      t_started_at = None, t_finished_at = None, t_created_at = now\<rparr>"

definition enqueueSessionTurn :: "uuid \<Rightarrow> millis \<Rightarrow> enqueue_input \<Rightarrow> session_db \<Rightarrow> session_db \<times> turn_row" where
  "enqueueSessionTurn newId now inp db =
     (let (db1, position) = positionForEnqueue inp db;
          row = enqueuedRow newId now position inp
      in (db1\<lparr>session_turns := session_turns db1 @ [row]\<rparr>, row))"

definition promptFromTrigger :: "jsval option \<Rightarrow> jstr option" where
  "promptFromTrigger p = (case trigger_field p ''text'' of Some (VStr s) \<Rightarrow> Some s | _ \<Rightarrow> None)"

definition resourcesFromTrigger :: "jsval option \<Rightarrow> jsval option" where
  "resourcesFromTrigger p = (case trigger_field p ''resources'' of Some (VArr xs) \<Rightarrow> Some (VArr xs) | _ \<Rightarrow> None)"

definition toolsFromTrigger :: "jsval option \<Rightarrow> jsval option" where
  "toolsFromTrigger p = (case trigger_field p ''tools'' of Some (VArr xs) \<Rightarrow> Some (VArr xs) | _ \<Rightarrow> None)"

definition reasoning_efforts :: "string list" where
  "reasoning_efforts = [''none'', ''minimal'', ''low'', ''medium'', ''high'', ''xhigh'']"

definition reasoningEffortFromSession :: "session_row \<Rightarrow> string" where
  "reasoningEffortFromSession s =
     (case trigger_field (Some (s_metadata s)) ''reasoningEffort'' of
        Some (VStr v) \<Rightarrow> or_else (List.find (\<lambda>e. u16 e = v) reasoning_efforts) ''medium''
      | _ \<Rightarrow> ''medium'')"

definition getSessionEvent :: "uuid \<Rightarrow> uuid \<Rightarrow> session_db \<Rightarrow> session_event option" where
  "getSessionEvent ws eid db =
     map_option mapEvent (List.find (\<lambda>e. er_workspace_id e = ws \<and> er_id e = eid) (session_events db))"

definition runSession :: "uuid \<Rightarrow> session_row \<Rightarrow> session_row" where
  "runSession tid s = s\<lparr>s_status := SRunning, s_active_turn_id := Some tid\<rparr>"

definition createTurn ::
    "uuid \<Rightarrow> millis \<Rightarrow> uuid \<Rightarrow> uuid \<Rightarrow> uuid \<Rightarrow> string \<Rightarrow> session_db \<Rightarrow> session_error + session_db \<times> uuid" where
  "createTurn newId now ws sid triggerEventId workflowId db =
     (case find_session ws sid db of
        None \<Rightarrow> Inl (SessionNotFound sid)
      | Some s \<Rightarrow>
          (let payload = map_option ev_payload (getSessionEvent ws triggerEventId db);
               row = \<lparr>t_id = newId, t_account_id = s_account_id s, t_workspace_id = s_workspace_id s,
                 t_session_id = sid, t_trigger_event_id = triggerEventId, t_temporal_workflow_id = workflowId,
                 t_status = TRunning, t_source = FromUser, t_position = nextTurnPosition ws sid db,
                 t_prompt = or_else (promptFromTrigger payload) (s_initial_message s),
                 t_resources = or_else (resourcesFromTrigger payload) (s_resources s),
                 t_tools = or_else (toolsFromTrigger payload) (s_tools s), t_model = s_model s,
                 t_reasoning_effort = reasoningEffortFromSession s, t_sandbox_backend = s_sandbox_backend s,
                 t_metadata = VObj [], t_toolspace_call_count = 0, t_started_at = Some now,
                 t_finished_at = None, t_created_at = now\<rparr>
           in Inr (update_session ws sid (runSession newId) (db\<lparr>session_turns := session_turns db @ [row]\<rparr>), newId)))"

subsection \<open>Claiming and settling\<close>

definition queue_key :: "turn_row \<Rightarrow> int \<times> millis \<times> uuid" where
  "queue_key t = (t_position t, t_created_at t, t_id t)"

definition queue_order :: "uuid \<Rightarrow> uuid \<Rightarrow> session_db \<Rightarrow> turn_row list" where
  "queue_order ws sid db = sort_key queue_key (select_where (queued_in ws sid) (session_turns db))"

definition update_turn :: "(turn_row \<Rightarrow> bool) \<Rightarrow> (turn_row \<Rightarrow> turn_row) \<Rightarrow> session_db \<Rightarrow> session_db" where
  "update_turn p f db = db\<lparr>session_turns := update_where p f (session_turns db)\<rparr>"

definition claimedRow :: "string \<Rightarrow> millis \<Rightarrow> turn_row \<Rightarrow> turn_row" where
  "claimedRow workflowId now t =
     t\<lparr>t_status := TRunning, t_temporal_workflow_id := workflowId, t_started_at := Some now\<rparr>"

definition claimNextQueuedTurn ::
    "uuid list \<Rightarrow> millis \<Rightarrow> uuid \<Rightarrow> uuid \<Rightarrow> string \<Rightarrow> session_db \<Rightarrow> session_db \<times> turn_row option" where
  "claimNextQueuedTurn locked now ws sid workflowId db =
     (case find_session ws sid db of
        None \<Rightarrow> (db, None)
      | Some _ \<Rightarrow>
          (case filter (\<lambda>t. t_id t \<notin> set locked) (queue_order ws sid db) of
             [] \<Rightarrow> (db, None)
           | t # _ \<Rightarrow>
               (update_session ws sid (runSession (t_id t))
                  (update_turn (turn_is ws (t_id t)) (claimedRow workflowId now) db),
                Some (claimedRow workflowId now t))))"

definition setSessionStatus ::
    "uuid \<Rightarrow> uuid \<Rightarrow> session_status \<Rightarrow> uuid option option \<Rightarrow> session_db \<Rightarrow> session_db" where
  "setSessionStatus ws sid status activeTurnId db =
     update_session ws sid (\<lambda>s. s\<lparr>s_status := status, s_active_turn_id := or_else activeTurnId (s_active_turn_id s)\<rparr>) db"

datatype finish_status =
  FinQueued | FinRunning | FinIdle | FinRequiresAction | FinCompleted | FinFailed | FinCancelled

fun turnStatusForFinish :: "finish_status \<Rightarrow> turn_status" where
  "turnStatusForFinish FinIdle = TCompleted"
| "turnStatusForFinish FinQueued = TQueued"
| "turnStatusForFinish FinRunning = TRunning"
| "turnStatusForFinish FinRequiresAction = TRequiresAction"
| "turnStatusForFinish FinCompleted = TCompleted"
| "turnStatusForFinish FinFailed = TFailed"
| "turnStatusForFinish FinCancelled = TCancelled"

definition finishTurn :: "millis \<Rightarrow> uuid \<Rightarrow> uuid \<Rightarrow> finish_status \<Rightarrow> session_db \<Rightarrow> session_db" where
  "finishTurn now ws tid status db =
     update_turn (turn_is ws tid)
       (\<lambda>t. t\<lparr>t_status := turnStatusForFinish status,
              t_finished_at := (if status = FinRequiresAction then t_finished_at t else Some now)\<rparr>) db"

definition requeuePreemptedTurn ::
    "uuid \<Rightarrow> uuid \<Rightarrow> uuid \<Rightarrow> turn_status list \<Rightarrow> session_db \<Rightarrow> session_error + session_db" where
  "requeuePreemptedTurn ws tid triggerEventId fromStatuses db =
     (let p = (\<lambda>t. turn_is ws tid t \<and> t_status t \<in> set fromStatuses) in
      if exists_where p (session_turns db)
      then Inr (update_turn p (\<lambda>t. t\<lparr>t_status := TQueued, t_trigger_event_id := triggerEventId,
                                     t_started_at := None, t_finished_at := None\<rparr>) db)
      else Inl (PreemptibleTurnNotFound tid))"

definition live_statuses :: "turn_status list" where
  "live_statuses = [TRunning, TRequiresAction]"

subsection \<open>Worker death\<close>

text \<open>\<open>coalesce((metadata ->> 'workerDeathRedispatches')::int, 0)\<close>.\<close>

definition redispatches :: "turn_row \<Rightarrow> cast_error + int" where
  "redispatches t =
     (case trigger_field (Some (t_metadata t)) ''workerDeathRedispatches'' of
        None \<Rightarrow> Inr 0
      | Some VNull \<Rightarrow> Inr 0
      | Some (VNum n) \<Rightarrow> Inr n
      | Some (VStr s) \<Rightarrow>
          (case (if list_all (\<lambda>u. u < 128) s then dec_int (map (\<lambda>u. char_of (unat u)) s) else None) of
             Some n \<Rightarrow> Inr n
           | None \<Rightarrow> Inl InvalidTextRepresentation)
      | Some _ \<Rightarrow> Inl InvalidTextRepresentation)"

definition bumpRedispatches :: "int \<Rightarrow> turn_row \<Rightarrow> turn_row" where
  "bumpRedispatches n t =
     t\<lparr>t_metadata := VObj (js_put (u16 ''workerDeathRedispatches'') (VNum n) (object_fields (t_metadata t)))\<rparr>"

definition incrementTurnWorkerDeathRedispatches ::
    "uuid \<Rightarrow> uuid \<Rightarrow> session_db \<Rightarrow> session_error + session_db \<times> int" where
  "incrementTurnWorkerDeathRedispatches ws tid db =
     (case List.find (turn_is ws tid) (session_turns db) of
        None \<Rightarrow> Inl (TurnNotFound tid)
      | Some t \<Rightarrow>
          (case redispatches t of
             Inl _ \<Rightarrow> Inl CastError
           | Inr n \<Rightarrow> Inr (update_turn (turn_is ws tid) (bumpRedispatches (n + 1)) db, n + 1)))"

definition cancelTurnFromDyingDispatch ::
    "millis \<Rightarrow> uuid \<Rightarrow> uuid \<Rightarrow> int \<Rightarrow> session_db \<Rightarrow> session_error + session_db \<times> bool" where
  "cancelTurnFromDyingDispatch now ws tid expected db =
     (case List.find (\<lambda>t. turn_is ws tid t \<and> t_status t \<in> set live_statuses) (session_turns db) of
        None \<Rightarrow> Inr (db, False)
      | Some t \<Rightarrow>
          (case redispatches t of
             Inl _ \<Rightarrow> Inl CastError
           | Inr n \<Rightarrow>
               if n = expected
               then Inr (update_turn (turn_is ws tid)
                           (\<lambda>t. t\<lparr>t_status := TCancelled, t_finished_at := Some now\<rparr>) db, True)
               else Inr (db, False)))"

subsection \<open>Editing the queue\<close>

definition listSessionTurns :: "uuid \<Rightarrow> uuid \<Rightarrow> nat \<Rightarrow> session_db \<Rightarrow> turn_row list" where
  "listSessionTurns ws sid limit db =
     take limit (sort_key (\<lambda>t. (t_position t, t_created_at t)) (select_where (turn_of ws sid) (session_turns db)))"

record turn_patch =
  tp_prompt :: "jstr option"
  tp_resources :: "jsval option"
  tp_tools :: "jsval option"
  tp_model :: "string option"
  tp_reasoning_effort :: "string option"
  tp_sandbox_backend :: "string option"
  tp_metadata :: "jsval option"

definition patchRow :: "turn_patch \<Rightarrow> turn_row \<Rightarrow> turn_row" where
  "patchRow p t =
     t\<lparr>t_prompt := or_else (tp_prompt p) (t_prompt t), t_resources := or_else (tp_resources p) (t_resources t),
       t_tools := or_else (tp_tools p) (t_tools t), t_model := or_else (tp_model p) (t_model t),
       t_reasoning_effort := or_else (tp_reasoning_effort p) (t_reasoning_effort t),
       t_sandbox_backend := or_else (tp_sandbox_backend p) (t_sandbox_backend t),
       t_metadata := or_else (tp_metadata p) (t_metadata t)\<rparr>"

definition updateQueued ::
    "uuid \<Rightarrow> uuid \<Rightarrow> (turn_row \<Rightarrow> turn_row) \<Rightarrow> session_db \<Rightarrow> session_error + session_db \<times> turn_row" where
  "updateQueued ws tid f db =
     (let p = (\<lambda>t. turn_is ws tid t \<and> t_status t = TQueued) in
      case List.find p (session_turns db) of
        None \<Rightarrow> Inl (QueuedTurnNotFound tid)
      | Some t \<Rightarrow> Inr (update_turn p f db, f t))"

definition updateQueuedSessionTurn ::
    "uuid \<Rightarrow> uuid \<Rightarrow> turn_patch \<Rightarrow> session_db \<Rightarrow> session_error + session_db \<times> turn_row" where
  "updateQueuedSessionTurn ws tid patch db = updateQueued ws tid (patchRow patch) db"

definition cancelRow :: "millis \<Rightarrow> turn_row \<Rightarrow> turn_row" where
  "cancelRow now t = t\<lparr>t_status := TCancelled, t_finished_at := Some now\<rparr>"

definition cancelQueuedSessionTurn ::
    "millis \<Rightarrow> uuid \<Rightarrow> uuid \<Rightarrow> session_db \<Rightarrow> session_error + session_db \<times> turn_row" where
  "cancelQueuedSessionTurn now ws tid db = updateQueued ws tid (cancelRow now) db"

definition cancelQueuedSessionTurns ::
    "millis \<Rightarrow> uuid \<Rightarrow> uuid \<Rightarrow> session_db \<Rightarrow> session_db \<times> uuid list" where
  "cancelQueuedSessionTurns now ws sid db =
     (update_turn (queued_in ws sid) (cancelRow now) db,
      map t_id (sort_key (\<lambda>t. - t_position t) (select_where (queued_in ws sid) (session_turns db))))"

fun setPositions :: "uuid \<Rightarrow> int \<Rightarrow> uuid list \<Rightarrow> session_db \<Rightarrow> session_db" where
  "setPositions ws index [] db = db"
| "setPositions ws index (tid # tids) db =
     setPositions ws (index + 1) tids (update_turn (turn_is ws tid) (\<lambda>t. t\<lparr>t_position := index + 1\<rparr>) db)"

definition reorderQueuedSessionTurns ::
    "uuid \<Rightarrow> uuid \<Rightarrow> uuid list \<Rightarrow> session_db \<Rightarrow> session_error + session_db \<times> turn_row list" where
  "reorderQueuedSessionTurns ws sid turnIds db =
     (let rows = select_where (\<lambda>t. queued_in ws sid t \<and> t_id t \<in> set turnIds) (session_turns db) in
      if length rows \<noteq> length turnIds then Inl ReorderNotQueued
      else
        (let db1 = setPositions ws 0 turnIds db in
         Inr (db1, sort_key (\<lambda>t. (t_position t, t_created_at t))
                     (select_where (queued_in ws sid) (session_turns db1)))))"

subsection \<open>The tool budget of a turn\<close>

definition reserveToolspaceCallForTurn ::
    "uuid \<Rightarrow> uuid \<Rightarrow> uuid \<Rightarrow> int \<Rightarrow> session_db \<Rightarrow> session_db \<times> int option" where
  "reserveToolspaceCallForTurn ws sid tid limit db =
     (let p = (\<lambda>t. turn_of ws sid t \<and> t_id t = tid \<and> t_toolspace_call_count t < limit) in
      case List.find p (session_turns db) of
        None \<Rightarrow> (db, None)
      | Some t \<Rightarrow> (update_turn p (\<lambda>t. t\<lparr>t_toolspace_call_count := t_toolspace_call_count t + 1\<rparr>) db,
                   Some (t_toolspace_call_count t + 1)))"

subsection \<open>The operations as steps\<close>

datatype turn_op =
    OpEnqueue uuid millis enqueue_input
  | OpCreate uuid millis uuid uuid uuid string
  | OpClaim "uuid list" millis uuid uuid string
  | OpStatus uuid uuid session_status "uuid option option"
  | OpFinish millis uuid uuid finish_status
  | OpRequeue uuid uuid uuid "turn_status list"
  | OpBump uuid uuid
  | OpDying millis uuid uuid int
  | OpPatch uuid uuid turn_patch
  | OpCancel millis uuid uuid
  | OpCancelAll millis uuid uuid
  | OpReorder uuid uuid "uuid list"
  | OpReserve uuid uuid uuid int

definition committed :: "('b \<Rightarrow> session_db) \<Rightarrow> session_db \<Rightarrow> session_error + 'b \<Rightarrow> session_db" where
  "committed g db r = (case r of Inl _ \<Rightarrow> db | Inr v \<Rightarrow> g v)"

fun turn_step :: "turn_op \<Rightarrow> session_db \<Rightarrow> session_db" where
  "turn_step (OpEnqueue newId now inp) db = fst (enqueueSessionTurn newId now inp db)"
| "turn_step (OpCreate newId now ws sid trig wid) db = committed fst db (createTurn newId now ws sid trig wid db)"
| "turn_step (OpClaim locked now ws sid wid) db = fst (claimNextQueuedTurn locked now ws sid wid db)"
| "turn_step (OpStatus ws sid st act) db = setSessionStatus ws sid st act db"
| "turn_step (OpFinish now ws tid st) db = finishTurn now ws tid st db"
| "turn_step (OpRequeue ws tid trig from) db = committed id db (requeuePreemptedTurn ws tid trig from db)"
| "turn_step (OpBump ws tid) db = committed fst db (incrementTurnWorkerDeathRedispatches ws tid db)"
| "turn_step (OpDying now ws tid n) db = committed fst db (cancelTurnFromDyingDispatch now ws tid n db)"
| "turn_step (OpPatch ws tid p) db = committed fst db (updateQueuedSessionTurn ws tid p db)"
| "turn_step (OpCancel now ws tid) db = committed fst db (cancelQueuedSessionTurn now ws tid db)"
| "turn_step (OpCancelAll now ws sid) db = fst (cancelQueuedSessionTurns now ws sid db)"
| "turn_step (OpReorder ws sid tids) db = committed fst db (reorderQueuedSessionTurns ws sid tids db)"
| "turn_step (OpReserve ws sid tid limit) db = fst (reserveToolspaceCallForTurn ws sid tid limit db)"

text \<open>A generated primary key is new.\<close>

fun fresh_turn :: "turn_op \<Rightarrow> session_db \<Rightarrow> bool" where
  "fresh_turn (OpEnqueue newId _ _) db = (newId \<notin> t_id ` set (session_turns db))"
| "fresh_turn (OpCreate newId _ _ _ _ _) db = (newId \<notin> t_id ` set (session_turns db))"
| "fresh_turn _ db = True"

end
