(* ===== verification/Goals.thy ===== *)
theory Goals
  imports Turn_Queue Sse
begin

text \<open>
  Session goals and their auto-continuation: the goal row operations and
  \<open>evaluateGoalContinuation\<close> of \<^verbatim>\<open>packages/db/src/index.ts\<close>, and the activities of
  \<^verbatim>\<open>apps/worker/src/activities/goals.ts\<close>, which run several transactions with other writers in
  between (\<open>env i\<close> is what they do before the \<open>i\<close>-th one).

  Outside the model, as arguments: the workspace's model policy, whether the model is billed to a
  Codex plan, balances and usage sums, the merge of the first-party tool reference, and the usage
  event a continuation records.
\<close>

subsection \<open>Goal rows\<close>

definition goal_of :: "uuid \<Rightarrow> uuid \<Rightarrow> goal_row \<Rightarrow> bool" where
  "goal_of ws sid g \<longleftrightarrow> g_workspace_id g = ws \<and> g_session_id g = sid"

definition getSessionGoal :: "uuid \<Rightarrow> uuid \<Rightarrow> session_db \<Rightarrow> goal_row option" where
  "getSessionGoal ws sid db = List.find (goal_of ws sid) (session_goals db)"

definition update_goal :: "uuid \<Rightarrow> (goal_row \<Rightarrow> goal_row) \<Rightarrow> session_db \<Rightarrow> session_db" where
  "update_goal gid f db = db\<lparr>session_goals := update_where (\<lambda>g. g_id g = gid) f (session_goals db)\<rparr>"

record goal_input =
  gi_account_id :: uuid
  gi_workspace_id :: uuid
  gi_session_id :: uuid
  gi_text :: jstr
  gi_success_criteria :: "jstr option"
  gi_max_auto_continuations :: "int option"
  gi_created_by :: goal_created_by

definition freshGoal :: "uuid \<Rightarrow> goal_input \<Rightarrow> goal_row" where
  "freshGoal newId inp =
     \<lparr>g_id = newId, g_account_id = gi_account_id inp, g_workspace_id = gi_workspace_id inp,
      g_session_id = gi_session_id inp, g_status = GActive, g_text = gi_text inp,
      g_success_criteria = gi_success_criteria inp, g_evidence = None, g_rationale = None,
      g_paused_reason = None, g_created_by = gi_created_by inp, g_version = 1, g_auto_continuations = 0,
      g_no_progress_streak = 0, g_max_auto_continuations = gi_max_auto_continuations inp,
      g_last_continuation_turn_id = None, g_version_at_last_continuation = None\<rparr>"

definition createSessionGoal :: "uuid \<Rightarrow> goal_input \<Rightarrow> session_db \<Rightarrow> session_error + session_db \<times> goal_row" where
  "createSessionGoal newId inp db =
     (if getSessionGoal (gi_workspace_id inp) (gi_session_id inp) db \<noteq> None then Inl UniqueViolation
      else Inr (db\<lparr>session_goals := session_goals db @ [freshGoal newId inp]\<rparr>, freshGoal newId inp))"

definition replaceGoal :: "goal_input \<Rightarrow> goal_row \<Rightarrow> goal_row" where
  "replaceGoal inp g =
     g\<lparr>g_status := GActive, g_text := gi_text inp, g_success_criteria := gi_success_criteria inp,
       g_max_auto_continuations := gi_max_auto_continuations inp, g_evidence := None, g_rationale := None,
       g_paused_reason := None, g_created_by := gi_created_by inp, g_version := g_version g + 1,
       g_auto_continuations := 0, g_no_progress_streak := 0, g_last_continuation_turn_id := None,
       g_version_at_last_continuation := None\<rparr>"

definition upsertSessionGoal :: "uuid \<Rightarrow> goal_input \<Rightarrow> session_db \<Rightarrow> session_db \<times> goal_row \<times> bool" where
  "upsertSessionGoal newId inp db =
     (case getSessionGoal (gi_workspace_id inp) (gi_session_id inp) db of
        None \<Rightarrow> (db\<lparr>session_goals := session_goals db @ [freshGoal newId inp]\<rparr>, freshGoal newId inp, False)
      | Some g \<Rightarrow> (update_goal (g_id g) (replaceGoal inp) db, replaceGoal inp g, True))"

definition goal_event :: "string \<Rightarrow> (string \<times> jsval) list \<Rightarrow> append_input" where
  "goal_event ty kvs = \<lparr>ap_type = ty, ap_payload = Some (VObj (map (\<lambda>(k, v). (u16 k, v)) kvs)),
     ap_client_event_id = None, ap_turn_id = None, ap_producer_id = None, ap_producer_seq = None,
     ap_occurred_at = None\<rparr>"

definition clearSessionGoal ::
    "(int \<Rightarrow> uuid) \<Rightarrow> millis \<Rightarrow> uuid \<Rightarrow> uuid \<Rightarrow> session_db
      \<Rightarrow> session_error + session_db \<times> (goal_row \<times> session_event list) option" where
  "clearSessionGoal newId now ws sid db =
     (case getSessionGoal ws sid db of
        None \<Rightarrow> Inr (db, None)
      | Some g \<Rightarrow>
          (let db1 = db\<lparr>session_goals := delete_where (\<lambda>x. g_id x = g_id g) (session_goals db)\<rparr> in
           case find_session ws sid db1 of
             None \<Rightarrow> Inl (SessionNotFound sid)
           | Some s \<Rightarrow>
               (case appendWith newId now s
                  [goal_event ''goal.cleared'' [(''goalId'', VStr (u16 (g_id g))), (''text'', VStr (g_text g)),
                     (''version'', VNum (g_version g))]] id db1 of
                  Inl e \<Rightarrow> Inl e
                | Inr (db2, evs) \<Rightarrow> Inr (db2, Some (g, evs)))))"

definition updateSessionGoal ::
    "uuid \<Rightarrow> uuid \<Rightarrow> jstr option \<Rightarrow> jstr option option \<Rightarrow> session_db \<Rightarrow> session_error + session_db \<times> goal_row" where
  "updateSessionGoal ws sid text criteria db =
     (let f = (\<lambda>g. g\<lparr>g_text := or_else text (g_text g),
                      g_success_criteria := or_else criteria (g_success_criteria g),
                      g_version := g_version g + 1, g_no_progress_streak := 0\<rparr>) in
      case getSessionGoal ws sid db of
        None \<Rightarrow> Inl (GoalNotFound sid)
      | Some g \<Rightarrow> Inr (db\<lparr>session_goals := update_where (goal_of ws sid) f (session_goals db)\<rparr>, f g))"

record goal_status_input =
  gs_status :: goal_status
  gs_evidence :: "jstr option"
  gs_rationale :: "jstr option"
  gs_paused_reason :: "paused_reason option"

definition setStatusRow :: "goal_status_input \<Rightarrow> goal_row \<Rightarrow> goal_row" where
  "setStatusRow inp g =
     (let g1 = g\<lparr>g_status := gs_status inp, g_version := g_version g + 1\<rparr> in
      case gs_status inp of
        GCompleted \<Rightarrow> g1\<lparr>g_evidence := gs_evidence inp, g_paused_reason := None\<rparr>
      | GPaused \<Rightarrow> g1\<lparr>g_rationale := gs_rationale inp, g_paused_reason := gs_paused_reason inp\<rparr>
      | GActive \<Rightarrow> g1\<lparr>g_rationale := None, g_paused_reason := None, g_auto_continuations := 0,
          g_no_progress_streak := 0, g_last_continuation_turn_id := None, g_version_at_last_continuation := None\<rparr>)"

definition setSessionGoalStatus ::
    "uuid \<Rightarrow> uuid \<Rightarrow> goal_status_input \<Rightarrow> session_db \<Rightarrow> session_error + session_db \<times> goal_row \<times> bool" where
  "setSessionGoalStatus ws sid inp db =
     (case getSessionGoal ws sid db of
        None \<Rightarrow> Inl (GoalNotFound sid)
      | Some g \<Rightarrow>
          if g_status g = gs_status inp then Inr (db, g, False)
          else if g_status g = GCompleted then Inl GoalIsCompleted
          else Inr (update_goal (g_id g) (setStatusRow inp) db, setStatusRow inp g, True))"

definition setSessionGoalLastContinuationTurn :: "uuid \<Rightarrow> uuid \<Rightarrow> uuid \<Rightarrow> session_db \<Rightarrow> session_db" where
  "setSessionGoalLastContinuationTurn ws sid tid db = db\<lparr>session_goals :=
     update_where (goal_of ws sid) (\<lambda>g. g\<lparr>g_last_continuation_turn_id := Some tid\<rparr>) (session_goals db)\<rparr>"

subsection \<open>The continuation decision\<close>

datatype continuation_decision =
    DecideNone
  | DecideQueue
  | DecidePaused paused_reason goal_row
  | DecideContinue goal_row int "int option"

definition blocking_turns :: "uuid \<Rightarrow> uuid \<Rightarrow> session_db \<Rightarrow> turn_row list" where
  "blocking_turns ws sid db = select_where
     (\<lambda>t. turn_of ws sid t \<and> t_status t \<in> {TQueued, TRunning, TRequiresAction}) (session_turns db)"

definition lastFinishedTurn :: "uuid \<Rightarrow> uuid \<Rightarrow> session_db \<Rightarrow> turn_row option" where
  "lastFinishedTurn ws sid db =
     (case rev (sort_key (\<lambda>t. (t_position t, t_created_at t))
             (select_where (\<lambda>t. turn_of ws sid t \<and> t_finished_at t \<noteq> None) (session_turns db))) of
        [] \<Rightarrow> None
      | t # _ \<Rightarrow> Some t)"

text \<open>
  \<open>payload ->> key = text\<close>. The texts compared are words, which no number, array or object
  renders to.
\<close>

definition payload_text_is :: "string \<Rightarrow> string \<Rightarrow> jsval \<Rightarrow> bool" where
  "payload_text_is key txt payload =
     (case trigger_field (Some payload) key of
        Some (VStr s) \<Rightarrow> s = u16 txt
      | Some (VBool b) \<Rightarrow> txt = (if b then ''true'' else ''false'')
      | _ \<Rightarrow> False)"

definition turn_events :: "uuid \<Rightarrow> uuid \<Rightarrow> string \<Rightarrow> (jsval \<Rightarrow> bool) \<Rightarrow> session_db \<Rightarrow> nat" where
  "turn_events ws tid ty p db = count_where
     (\<lambda>e. er_workspace_id e = ws \<and> er_turn_id e = Some tid \<and> er_type e = ty \<and> p (er_payload e)) (session_events db)"

definition rotated_failover :: "uuid \<Rightarrow> uuid \<Rightarrow> session_db \<Rightarrow> bool" where
  "rotated_failover ws tid db \<longleftrightarrow> 0 < turn_events ws tid ''turn.failed'' (payload_text_is ''rotated'' ''true'') db"

definition goal_revised :: "goal_row \<Rightarrow> bool" where
  "goal_revised g \<longleftrightarrow> (case g_version_at_last_continuation g of None \<Rightarrow> False | Some v \<Rightarrow> v < g_version g)"

definition continuation_streak :: "uuid \<Rightarrow> uuid \<Rightarrow> goal_row \<Rightarrow> session_db \<Rightarrow> int" where
  "continuation_streak ws tid g db =
     (if 0 < turn_events ws tid ''agent.toolCall.created'' (\<lambda>_. True) db \<or> goal_revised g then 0
      else if turn_events ws tid ''turn.failed'' (payload_text_is ''recovery'' ''goal_continuation'') db = 0
      then g_no_progress_streak g + 1
      else g_no_progress_streak g)"

definition continuationCounters :: "uuid \<Rightarrow> uuid \<Rightarrow> goal_row \<Rightarrow> session_db \<Rightarrow> int \<times> int \<times> bool" where
  "continuationCounters ws sid g db =
     (case g_last_continuation_turn_id g of
        None \<Rightarrow> (g_auto_continuations g, g_no_progress_streak g, False)
      | Some tid \<Rightarrow>
          (case lastFinishedTurn ws sid db of
             None \<Rightarrow> (g_auto_continuations g, g_no_progress_streak g, False)
           | Some t \<Rightarrow>
               if t_id t \<noteq> tid then (0, 0, False)
               else (g_auto_continuations g, continuation_streak ws tid g db, rotated_failover ws tid db)))"

definition capOf :: "int option \<Rightarrow> int option \<Rightarrow> int option" where
  "capOf own dflt =
     (case (own, dflt) of
        (None, d) \<Rightarrow> d
      | (Some a, None) \<Rightarrow> Some a
      | (Some a, Some b) \<Rightarrow> Some (min a b))"

definition pauseRow :: "paused_reason \<Rightarrow> jstr option \<Rightarrow> int \<Rightarrow> int \<Rightarrow> goal_row \<Rightarrow> goal_row" where
  "pauseRow reason rationale auto streak g =
     g\<lparr>g_status := GPaused, g_paused_reason := Some reason, g_rationale := or_else (map_option Some rationale) (g_rationale g),
       g_auto_continuations := auto, g_no_progress_streak := streak, g_version := g_version g + 1\<rparr>"

definition continueRow :: "int \<Rightarrow> int \<Rightarrow> goal_row \<Rightarrow> goal_row" where
  "continueRow auto streak g =
     g\<lparr>g_auto_continuations := auto, g_no_progress_streak := streak, g_version_at_last_continuation := Some (g_version g)\<rparr>"

record continuation_input =
  ci_workspace_id :: uuid
  ci_session_id :: uuid
  ci_default_max :: "int option"
  ci_no_progress_limit :: int
  ci_budget_blocked :: "jstr option"

text \<open>\<open>pick\<close> is the row Postgres returns for the unordered query of the pending turns.\<close>

definition evaluateGoalContinuation ::
    "(turn_row list \<Rightarrow> turn_row) \<Rightarrow> continuation_input \<Rightarrow> session_db \<Rightarrow> session_db \<times> continuation_decision" where
  "evaluateGoalContinuation pick inp db =
     (let ws = ci_workspace_id inp; sid = ci_session_id inp in
      case getSessionGoal ws sid db of
        None \<Rightarrow> (db, DecideNone)
      | Some g \<Rightarrow>
          if g_status g \<noteq> GActive then (db, DecideNone)
          else if blocking_turns ws sid db \<noteq> [] then
            (db, if t_status (pick (blocking_turns ws sid db)) = TQueued then DecideQueue else DecideNone)
          else
            (let (auto, streak, rotated) = continuationCounters ws sid g db;
                 cap = capOf (g_max_auto_continuations g) (ci_default_max inp);
                 pause = (\<lambda>reason rationale. (update_goal (g_id g) (pauseRow reason rationale auto streak) db,
                            DecidePaused reason (pauseRow reason rationale auto streak g)))
             in
             if ci_no_progress_limit inp \<le> streak then pause NoProgress None
             else if (case cap of None \<Rightarrow> False | Some c \<Rightarrow> c \<le> auto) then pause MaxAutoContinuations None
             else
               (case ci_budget_blocked inp of
                  Some (c # cs) \<Rightarrow> pause Limits (Some (c # cs))
                | _ \<Rightarrow>
                    (let next = auto + (if rotated then 0 else 1) in
                     (update_goal (g_id g) (continueRow next streak) db,
                      DecideContinue (continueRow next streak g) next cap)))))"

subsection \<open>Model, prompt and budget of a continuation\<close>

definition latestStartedSessionTurn :: "uuid \<Rightarrow> uuid \<Rightarrow> session_db \<Rightarrow> turn_row option" where
  "latestStartedSessionTurn ws sid db =
     (let started = rev (sort_key er_sequence (filter (\<lambda>e. er_type e = ''turn.started'') (events_of ws sid db)));
          turn = (\<lambda>e. List.find (\<lambda>t. turn_of ws sid t \<and> er_turn_id e = Some (t_id t)) (session_turns db))
      in (case List.map_filter turn started of [] \<Rightarrow> None | t # _ \<Rightarrow> Some t))"

definition reasoningEffortForMetadata :: "jsval \<Rightarrow> string \<Rightarrow> string" where
  "reasoningEffortForMetadata metadata fallback =
     (case trigger_field (Some metadata) ''reasoningEffort'' of
        Some (VStr v) \<Rightarrow> or_else (List.find (\<lambda>e. u16 e = v) reasoning_efforts) fallback
      | _ \<Rightarrow> fallback)"

text \<open>The model a continuation runs on, and why the workspace's policy blocks it.\<close>

definition continuationModel ::
    "(string \<Rightarrow> bool) option \<Rightarrow> turn_row option \<Rightarrow> session_row \<Rightarrow> string \<times> jstr option" where
  "continuationModel policyBlocks latest s =
     (let model = (case latest of None \<Rightarrow> s_model s | Some t \<Rightarrow> t_model t) in
      case policyBlocks of
        None \<Rightarrow> (model, None)
      | Some blocks \<Rightarrow>
          if \<not> blocks model then (model, None)
          else if model \<noteq> s_model s \<and> \<not> blocks (s_model s) then (s_model s, None)
          else (model, Some (u16 (''workspace model policy blocks model '' @ [CHR 0x22] @ model @ [CHR 0x22]
                 @ ''; pick an allowed model or change the workspace model policy''))))"

datatype billing_mode = BillingDisabled | BillingStripe

datatype usage_limits_mode = LimitsNone | LimitsStatic | LimitsManaged

record budget_state =
  bs_billing_mode :: billing_mode
  bs_usage_limits_mode :: usage_limits_mode
  bs_max_monthly_cost_micros :: "int option"
  bs_max_monthly_agent_runs :: "int option"
  bs_balance_micros :: int
  bs_monthly_cost :: int
  bs_monthly_runs :: int

definition positive_limit :: "int option \<Rightarrow> int option" where
  "positive_limit l = (case l of Some n \<Rightarrow> if n = 0 then None else Some n | None \<Rightarrow> None)"

definition goalRunBudgetBlocked :: "budget_state \<Rightarrow> bool \<Rightarrow> jstr option" where
  "goalRunBudgetBlocked b isCodexRun =
     (if \<not> isCodexRun \<and> (bs_billing_mode b = BillingStripe \<or> bs_usage_limits_mode b = LimitsManaged)
         \<and> bs_balance_micros b \<le> 0
      then Some (u16 ''insufficient OpenGeni credits'')
      else if bs_usage_limits_mode b = LimitsNone then None
      else
        (let cost = (if isCodexRun then None else positive_limit (bs_max_monthly_cost_micros b)) in
         case cost of
           Some c \<Rightarrow>
             if c \<le> bs_monthly_cost b
             then Some (u16 (''monthly model cost limit reached ('' @ int_dec c @ '' micros)''))
             else (case positive_limit (bs_max_monthly_agent_runs b) of
                     Some r \<Rightarrow> if r < bs_monthly_runs b + 1
                              then Some (u16 (''monthly agent run limit reached ('' @ int_dec r @ '')'')) else None
                   | None \<Rightarrow> None)
         | None \<Rightarrow>
             (case positive_limit (bs_max_monthly_agent_runs b) of
                Some r \<Rightarrow> if r < bs_monthly_runs b + 1
                         then Some (u16 (''monthly agent run limit reached ('' @ int_dec r @ '')'')) else None
              | None \<Rightarrow> None)))"

definition goalContinuationPrompt :: "goal_row \<Rightarrow> int \<Rightarrow> int option \<Rightarrow> jstr" where
  "goalContinuationPrompt g n cap =
     (let counter = (case cap of None \<Rightarrow> int_dec n | Some c \<Rightarrow> int_dec n @ ''/'' @ int_dec c) in
      join_lines
       [u16 (''[GOAL CONTINUATION '' @ counter @ ''] The session goal is not done. Goal: '') @ g_text g @ u16 ''.'',
        u16 ''Success criteria: '' @ or_else (g_success_criteria g) (u16 ''none specified'') @ u16 ''.'',
        u16 ''Continue working toward the goal now. If it is actually complete, call opengeni__goal_complete with concrete evidence.'',
        u16 ''If you are blocked or continuing is not productive, call opengeni__goal_pause with your rationale.'',
        u16 ''You may revise the goal with opengeni__goal_update. Do not stop without one of these explicit actions.''])"

subsection \<open>The activities\<close>

datatype goal_action = ActNone | ActQueue | ActPaused | ActContinue

record goal_services =
  sv_pick :: "turn_row list \<Rightarrow> turn_row"
  sv_event_id :: "int \<Rightarrow> uuid"
  sv_turn_id :: uuid
  sv_now :: millis
  sv_policy_blocks :: "(string \<Rightarrow> bool) option"
  sv_codex_billed :: "string \<Rightarrow> bool"
  sv_budget :: budget_state
  sv_default_max :: "int option"
  sv_no_progress_limit :: int
  sv_reasoning_effort :: string
  sv_first_party_tools :: "jsval \<Rightarrow> jsval"

definition goalPausedEvent :: "string \<Rightarrow> string \<Rightarrow> jstr option \<Rightarrow> goal_row \<Rightarrow> append_input" where
  "goalPausedEvent actor reason rationale g = goal_event ''goal.paused''
     ([(''goalId'', VStr (u16 (g_id g))), (''actor'', VStr (u16 actor)), (''reason'', VStr (u16 reason))]
      @ (case rationale of Some (c # cs) \<Rightarrow> [(''rationale'', VStr (c # cs))] | _ \<Rightarrow> [])
      @ [(''autoContinuations'', VNum (g_auto_continuations g)), (''noProgressStreak'', VNum (g_no_progress_streak g))])"

fun reason_text :: "paused_reason \<Rightarrow> string" where
  "reason_text ByAgent = ''agent''"
| "reason_text ByUserInterrupt = ''user_interrupt''"
| "reason_text ByApi = ''api''"
| "reason_text NoProgress = ''no_progress''"
| "reason_text MaxAutoContinuations = ''max_auto_continuations''"
| "reason_text Limits = ''limits''"

definition cap_value :: "int option \<Rightarrow> jsval" where
  "cap_value cap = (case cap of None \<Rightarrow> VNull | Some c \<Rightarrow> VNum c)"

definition continuationEvent :: "goal_row \<Rightarrow> int \<Rightarrow> int option \<Rightarrow> append_input" where
  "continuationEvent g n cap = goal_event ''goal.continuation''
     [(''goalId'', VStr (u16 (g_id g))), (''text'', VStr (goalContinuationPrompt g n cap)), (''autoContinuation'', VNum n),
      (''maxAutoContinuations'', cap_value cap), (''goalVersion'', VNum (g_version g))]"

definition continuationTurn ::
    "goal_services \<Rightarrow> uuid \<Rightarrow> uuid \<Rightarrow> uuid \<Rightarrow> string \<Rightarrow> session_row \<Rightarrow> string \<Rightarrow> string \<Rightarrow> uuid
      \<Rightarrow> goal_row \<Rightarrow> int \<Rightarrow> int option \<Rightarrow> enqueue_input" where
  "continuationTurn sv account ws sid wid s model effort trigger g n cap =
     \<lparr>en_account_id = account, en_workspace_id = ws, en_session_id = sid, en_trigger_event_id = trigger,
      en_temporal_workflow_id = wid, en_source = FromGoal, en_prompt = goalContinuationPrompt g n cap,
      en_resources = VArr [], en_tools = sv_first_party_tools sv (s_tools s), en_model = model,
      en_reasoning_effort = effort, en_sandbox_backend = s_sandbox_backend s,
      en_metadata = VObj [(u16 ''goalId'', VStr (u16 (g_id g))), (u16 ''autoContinuation'', VNum n)],
      en_preempt_child_notifications = False\<rparr>"

definition turnQueuedEvent :: "uuid \<Rightarrow> uuid \<Rightarrow> append_input" where
  "turnQueuedEvent tid trigger =
     (goal_event ''turn.queued'' [(''turnId'', VStr (u16 tid)), (''triggerEventId'', VStr (u16 trigger)),
        (''source'', VStr (u16 ''goal''))])\<lparr>ap_turn_id := Some tid\<rparr>"

text \<open>The last part of a continuation: its trigger event, its turn, the pointer and the card.\<close>

definition admitContinuation ::
    "(nat \<Rightarrow> session_db \<Rightarrow> session_db) \<Rightarrow> goal_services \<Rightarrow> uuid \<Rightarrow> uuid \<Rightarrow> uuid \<Rightarrow> string \<Rightarrow> session_row
      \<Rightarrow> string \<Rightarrow> string \<Rightarrow> goal_row \<Rightarrow> int \<Rightarrow> int option \<Rightarrow> session_db \<Rightarrow> session_db \<times> (session_error + goal_action)" where
  "admitContinuation env sv account ws sid wid s model effort g n cap db =
     (case appendSessionEvents (sv_event_id sv) (sv_now sv) ws sid [continuationEvent g n cap] db of
        Inl e \<Rightarrow> (db, Inl e)
      | Inr (db1, evs) \<Rightarrow>
          (let trigger = ev_id (hd evs);
               (db2, turn) = enqueueSessionTurn (sv_turn_id sv) (sv_now sv)
                 (continuationTurn sv account ws sid wid s model effort trigger g n cap) (env 4 db1);
               db3 = setSessionGoalLastContinuationTurn ws sid (t_id turn) (env 5 db2);
               db4 = env 6 db3
           in (case appendSessionEvents (sv_event_id sv) (sv_now sv) ws sid [turnQueuedEvent (t_id turn) trigger] db4 of
                 Inl e \<Rightarrow> (db4, Inl e)
               | Inr (db5, _) \<Rightarrow> (db5, Inr ActContinue))))"

text \<open>What a decision leads to, with the re-read of the goal before a turn is synthesized.\<close>

definition settleDecision ::
    "(nat \<Rightarrow> session_db \<Rightarrow> session_db) \<Rightarrow> goal_services \<Rightarrow> uuid \<Rightarrow> uuid \<Rightarrow> uuid \<Rightarrow> string \<Rightarrow> session_row
      \<Rightarrow> string \<Rightarrow> string \<Rightarrow> session_db \<Rightarrow> continuation_decision \<Rightarrow> session_db \<times> (session_error + goal_action)" where
  "settleDecision env sv account ws sid wid s model effort db1 decision =
     (case decision of
        DecideNone \<Rightarrow> (db1, Inr ActNone)
      | DecideQueue \<Rightarrow> (db1, Inr ActQueue)
      | DecidePaused reason g \<Rightarrow>
          (let db2 = env 2 db1 in
           case appendSessionEvents (sv_event_id sv) (sv_now sv) ws sid
                  [goalPausedEvent ''system'' (reason_text reason) (g_rationale g) g] db2 of
             Inl e \<Rightarrow> (db2, Inl e)
           | Inr (db3, _) \<Rightarrow> (db3, Inr ActPaused))
      | DecideContinue g n cap \<Rightarrow>
          (let db2 = env 2 db1 in
           case getSessionGoal ws sid db2 of
             None \<Rightarrow> (db2, Inr ActNone)
           | Some r \<Rightarrow>
               if g_status r \<noteq> GActive \<or> g_version r \<noteq> g_version g then (db2, Inr ActNone)
               else admitContinuation env sv account ws sid wid s model effort g n cap (env 3 db2)))"

definition continuationInput :: "goal_services \<Rightarrow> uuid \<Rightarrow> uuid \<Rightarrow> jstr option \<Rightarrow> string \<Rightarrow> continuation_input" where
  "continuationInput sv ws sid policyBlocked model =
     \<lparr>ci_workspace_id = ws, ci_session_id = sid, ci_default_max = sv_default_max sv,
      ci_no_progress_limit = sv_no_progress_limit sv,
      ci_budget_blocked = (case policyBlocked of
          Some r \<Rightarrow> Some r
        | None \<Rightarrow> goalRunBudgetBlocked (sv_budget sv) (sv_codex_billed sv model))\<rparr>"

definition maybeContinueGoal ::
    "(nat \<Rightarrow> session_db \<Rightarrow> session_db) \<Rightarrow> goal_services \<Rightarrow> uuid \<Rightarrow> uuid \<Rightarrow> uuid \<Rightarrow> string \<Rightarrow> session_db
      \<Rightarrow> session_db \<times> (session_error + goal_action)" where
  "maybeContinueGoal env sv account ws sid wid db =
     (case getSessionGoal ws sid db of
        None \<Rightarrow> (db, Inr ActNone)
      | Some g0 \<Rightarrow>
          if g_status g0 \<noteq> GActive then (db, Inr ActNone)
          else
            (case find_session ws sid db of
               None \<Rightarrow> (db, Inl (SessionNotFound sid))
             | Some s \<Rightarrow>
                 (let latest = latestStartedSessionTurn ws sid db;
                      (model, policyBlocked) = continuationModel (sv_policy_blocks sv) latest s;
                      effort = (case latest of None \<Rightarrow> reasoningEffortForMetadata (s_metadata s) (sv_reasoning_effort sv)
                                | Some t \<Rightarrow> t_reasoning_effort t);
                      (db1, decision) = evaluateGoalContinuation (sv_pick sv)
                        (continuationInput sv ws sid policyBlocked model) (env 1 db)
                  in settleDecision env sv account ws sid wid s model effort db1 decision)))"

definition isSteerInterrupt :: "session_event option \<Rightarrow> bool" where
  "isSteerInterrupt trigger \<longleftrightarrow>
     (case trigger of
        None \<Rightarrow> False
      | Some e \<Rightarrow> ev_type e = ''user.interrupt''
          \<and> trigger_field (Some (ev_payload e)) ''reason'' = Some (VStr (u16 ''steer'')))"

definition pauseActiveGoalOnInterrupt ::
    "(nat \<Rightarrow> session_db \<Rightarrow> session_db) \<Rightarrow> (int \<Rightarrow> uuid) \<Rightarrow> millis \<Rightarrow> uuid \<Rightarrow> uuid \<Rightarrow> session_db
      \<Rightarrow> session_db \<times> session_error option" where
  "pauseActiveGoalOnInterrupt env newId now ws sid db =
     (case getSessionGoal ws sid db of
        None \<Rightarrow> (db, None)
      | Some g \<Rightarrow>
          if g_status g \<noteq> GActive then (db, None)
          else
            (let db1 = env 1 db in
             case setSessionGoalStatus ws sid \<lparr>gs_status = GPaused, gs_evidence = None, gs_rationale = None,
                    gs_paused_reason = Some ByUserInterrupt\<rparr> db1 of
               Inl e \<Rightarrow> (db1, Some e)
             | Inr (db2, paused, changed) \<Rightarrow>
                 if \<not> changed then (db2, None)
                 else
                   (let db3 = env 2 db2 in
                    case appendSessionEvents newId now ws sid
                           [goalPausedEvent ''user'' ''user_interrupt'' None paused] db3 of
                      Inl e \<Rightarrow> (db3, Some e)
                    | Inr (db4, _) \<Rightarrow> (db4, None))))"

definition pauseGoalForInterrupt ::
    "(nat \<Rightarrow> session_db \<Rightarrow> session_db) \<Rightarrow> (int \<Rightarrow> uuid) \<Rightarrow> millis \<Rightarrow> uuid \<Rightarrow> uuid \<Rightarrow> uuid option \<Rightarrow> session_db
      \<Rightarrow> session_db \<times> session_error option" where
  "pauseGoalForInterrupt env newId now ws sid trigger db =
     (if trigger \<noteq> None \<and> isSteerInterrupt (getSessionEvent ws (the trigger) db) then (db, None)
      else pauseActiveGoalOnInterrupt env newId now ws sid (env 0 db))"

end
