(* ===== verification/Child_Wake.thy ===== *)
theory Child_Wake
  imports Goals
begin

text \<open>
  The wake of a parent session when a worker session it spawned reaches a terminal state
  (\<open>wakeParentSessionForChildCompletion\<close> in \<^verbatim>\<open>packages/db/src/index.ts\<close>), one transaction under the
  parent's row lock: idempotence on the client event id, the passive mode, the card event, and the
  coalescing of pending completions into one queued digest turn. The strings in a digest turn's
  \<^verbatim>\<open>childSummaries\<close> are those this function put there. A fold rewrites the payload of the stored
  trigger event, so the log keeps its sequence but not every payload.
\<close>

subsection \<open>The digest\<close>

fun join_with :: "jstr \<Rightarrow> jstr list \<Rightarrow> jstr" where
  "join_with sep [] = []"
| "join_with sep [x] = x"
| "join_with sep (x # y # zs) = x @ sep @ join_with sep (y # zs)"

fun numbered_from :: "nat \<Rightarrow> jstr list \<Rightarrow> jstr list" where
  "numbered_from n [] = []"
| "numbered_from n (s # ss) = (u16 (nat_dec n @ ''. '') @ s) # numbered_from (Suc n) ss"

definition buildChildCompletionDigest :: "jstr list \<Rightarrow> jstr \<Rightarrow> jstr" where
  "buildChildCompletionDigest summaries trailing =
     (if length summaries \<le> 1
      then join_lines [case summaries of [] \<Rightarrow> [] | s # _ \<Rightarrow> s, [], trailing]
      else join_lines
        [u16 (nat_dec (length summaries) @ '' worker sessions you spawned reached a terminal state:''), [],
         join_with [newline, newline] (numbered_from 1 summaries), [], trailing])"

subsection \<open>The wake\<close>

record wake_input =
  wi_workspace_id :: uuid
  wi_parent_session_id :: uuid
  wi_client_event_id :: string
  wi_child_summary :: jstr
  wi_trailing :: jstr
  wi_child_completion :: jsval
  wi_reasoning_effort_fallback :: string

datatype wake_refusal = AlreadyDelivered | ParentCancelled

datatype wake_result =
    NotDelivered wake_refusal
  | Passive "session_event list" string
  | Delivered bool turn_row session_event "session_event list" string

definition delivered_before :: "uuid \<Rightarrow> uuid \<Rightarrow> string \<Rightarrow> session_db \<Rightarrow> bool" where
  "delivered_before ws sid cid db =
     list_ex (\<lambda>e. er_client_event_id e = Some cid) (events_of ws sid db)"

definition passive_mode :: "session_row \<Rightarrow> bool" where
  "passive_mode s \<longleftrightarrow>
     trigger_field (Some (s_metadata s)) ''childNotificationsMode'' = Some (VStr (u16 ''passive''))"

definition workflow_of :: "session_row \<Rightarrow> string" where
  "workflow_of s = or_else (s_temporal_workflow_id s) (''session-'' @ s_id s)"

definition cardEvent :: "wake_input \<Rightarrow> append_input" where
  "cardEvent inp =
     (goal_event ''user.message''
        [(''text'', VStr (buildChildCompletionDigest [wi_child_summary inp] (wi_trailing inp))),
         (''childCompletion'', wi_child_completion inp)])\<lparr>ap_client_event_id := Some (wi_client_event_id inp)\<rparr>"

definition statusQueuedEvent :: append_input where
  "statusQueuedEvent = goal_event ''session.status.changed'' [(''status'', VStr (u16 ''queued''))]"

definition cardEvents :: "wake_input \<Rightarrow> session_row \<Rightarrow> append_input list" where
  "cardEvents inp s =
     cardEvent inp # (if s_status s \<in> {SIdle, SFailed} then [statusQueuedEvent] else [])"

definition digestTurn :: "uuid \<Rightarrow> uuid \<Rightarrow> session_db \<Rightarrow> turn_row option" where
  "digestTurn ws sid db =
     (case rev (sort_key t_position (select_where (\<lambda>t. queued_in ws sid t \<and> child_notification t) (session_turns db))) of
        [] \<Rightarrow> None
      | t # _ \<Rightarrow> Some t)"

fun string_value :: "jsval \<Rightarrow> jstr" where
  "string_value (VStr s) = s"
| "string_value _ = []"

definition childSummaries :: "turn_row \<Rightarrow> jstr list" where
  "childSummaries t =
     (case trigger_field (Some (t_metadata t)) ''childSummaries'' of Some (VArr xs) \<Rightarrow> map string_value xs | _ \<Rightarrow> [])"

definition foldRow :: "jstr \<Rightarrow> jstr list \<Rightarrow> turn_row \<Rightarrow> turn_row" where
  "foldRow digest summaries t =
     t\<lparr>t_prompt := digest,
       t_metadata := VObj (js_put (u16 ''childSummaries'') (VArr (map VStr summaries)) (object_fields (t_metadata t)))\<rparr>"

definition mergedPayload :: "jstr \<Rightarrow> event_row option \<Rightarrow> jsval" where
  "mergedPayload digest e =
     VObj (js_put (u16 ''text'') (VStr digest) (case e of None \<Rightarrow> [] | Some r \<Rightarrow> object_fields (er_payload r)))"

definition foldCompletion :: "wake_input \<Rightarrow> turn_row \<Rightarrow> session_event \<Rightarrow> session_db \<Rightarrow> session_db \<times> turn_row \<times> session_event" where
  "foldCompletion inp digest shown db =
     (let ws = wi_workspace_id inp;
          summaries = childSummaries digest @ [wi_child_summary inp];
          txt = buildChildCompletionDigest summaries (wi_trailing inp);
          p = (\<lambda>e. er_workspace_id e = ws \<and> er_id e = t_trigger_event_id digest);
          merged = sanitizeEventPayload (mergedPayload txt (List.find p (session_events db)));
          db1 = db\<lparr>session_events := update_where p (\<lambda>e. e\<lparr>er_payload := merged\<rparr>) (session_events db)\<rparr>;
          trigger = (case List.find p (session_events db1) of None \<Rightarrow> shown | Some e \<Rightarrow> mapEvent e)
      in (update_turn (turn_is ws (t_id digest)) (foldRow txt summaries) db1, foldRow txt summaries digest, trigger))"

definition wakeRow ::
    "uuid \<Rightarrow> millis \<Rightarrow> wake_input \<Rightarrow> session_row \<Rightarrow> turn_row option \<Rightarrow> int \<Rightarrow> uuid \<Rightarrow> turn_row" where
  "wakeRow newId now inp s latest position trigger =
     \<lparr>t_id = newId, t_account_id = s_account_id s, t_workspace_id = s_workspace_id s, t_session_id = s_id s,
      t_trigger_event_id = trigger, t_temporal_workflow_id = workflow_of s, t_status = TQueued, t_source = FromUser,
      t_position = position, t_prompt = buildChildCompletionDigest [wi_child_summary inp] (wi_trailing inp),
      t_resources = VArr [], t_tools = s_tools s,
      t_model = (case latest of None \<Rightarrow> s_model s | Some t \<Rightarrow> t_model t),
      t_reasoning_effort = (case latest of
          None \<Rightarrow> reasoningEffortForMetadata (s_metadata s) (wi_reasoning_effort_fallback inp)
        | Some t \<Rightarrow> t_reasoning_effort t),
      t_sandbox_backend = s_sandbox_backend s,
      t_metadata = VObj [(u16 ''childCompletion'', wi_child_completion inp),
                         (u16 ''childSummaries'', VArr [VStr (wi_child_summary inp)])],
      t_toolspace_call_count = 0, t_started_at = None, t_finished_at = None, t_created_at = now\<rparr>"

definition turnCard :: "turn_row \<Rightarrow> uuid \<Rightarrow> append_input" where
  "turnCard t trigger =
     (goal_event ''turn.queued'' [(''turnId'', VStr (u16 (t_id t))), (''triggerEventId'', VStr (u16 trigger)),
        (''source'', VStr (u16 ''user''))])\<lparr>ap_turn_id := Some (t_id t)\<rparr>"

text \<open>The session update that ends the transaction.\<close>

definition wakeSession :: "int \<Rightarrow> session_row \<Rightarrow> session_row" where
  "wakeSession sequence s =
     (if s_status s \<in> {SIdle, SFailed}
      then s\<lparr>s_last_sequence := sequence, s_status := SQueued, s_active_turn_id := None\<rparr>
      else s\<lparr>s_last_sequence := sequence\<rparr>)"

definition wakeActive ::
    "(int \<Rightarrow> uuid) \<Rightarrow> uuid \<Rightarrow> millis \<Rightarrow> wake_input \<Rightarrow> session_row \<Rightarrow> session_db
      \<Rightarrow> session_error + session_db \<times> wake_result" where
  "wakeActive newId turnId now inp s db =
     (let ws = wi_workspace_id inp; sid = s_id s;
          latest = latestStartedSessionTurn ws sid db;
          cards = eventValues newId now s (s_last_sequence s) (cardEvents inp s);
          sequence = s_last_sequence s + int (length cards);
          shown = mapEvent (hd cards)
      in case insertEvents cards db of
           Inl e \<Rightarrow> Inl e
         | Inr db1 \<Rightarrow>
             (case digestTurn ws sid db1 of
                Some digest \<Rightarrow>
                  (let (db2, turn, trigger) = foldCompletion inp digest shown db1 in
                   Inr (update_session ws sid (wakeSession sequence) db2,
                        Delivered True turn trigger (map mapEvent cards) (workflow_of s)))
              | None \<Rightarrow>
                  (let turn = wakeRow turnId now inp s latest (nextTurnPosition ws sid db1) (ev_id shown);
                       db2 = db1\<lparr>session_turns := session_turns db1 @ [turn]\<rparr>;
                       queued = eventRow newId now s (sequence + 1) (turnCard turn (ev_id shown))
                   in case insertEvents [queued] db2 of
                        Inl e \<Rightarrow> Inl e
                      | Inr db3 \<Rightarrow>
                          Inr (update_session ws sid (wakeSession (sequence + 1)) db3,
                               Delivered False turn shown (map mapEvent (cards @ [queued])) (workflow_of s)))))"

definition wakeParentSessionForChildCompletion ::
    "(int \<Rightarrow> uuid) \<Rightarrow> uuid \<Rightarrow> millis \<Rightarrow> wake_input \<Rightarrow> session_db \<Rightarrow> session_error + session_db \<times> wake_result" where
  "wakeParentSessionForChildCompletion newId turnId now inp db =
     (let ws = wi_workspace_id inp; sid = wi_parent_session_id inp in
      case find_session ws sid db of
        None \<Rightarrow> Inl (SessionNotFound sid)
      | Some s \<Rightarrow>
          if s_status s = SCancelled then Inr (db, NotDelivered ParentCancelled)
          else if delivered_before ws sid (wi_client_event_id inp) db then Inr (db, NotDelivered AlreadyDelivered)
          else if passive_mode s then
            (case appendWith newId now s [cardEvent inp] id db of
               Inl e \<Rightarrow> Inl e
             | Inr (db1, evs) \<Rightarrow> Inr (db1, Passive evs (workflow_of s)))
          else wakeActive newId turnId now inp s db)"

definition setSessionChildNotificationsMode :: "uuid \<Rightarrow> uuid \<Rightarrow> bool \<Rightarrow> session_db \<Rightarrow> session_db" where
  "setSessionChildNotificationsMode ws sid passive db =
     update_session ws sid
       (\<lambda>s. s\<lparr>s_metadata := VObj (js_put (u16 ''childNotificationsMode'')
                (VStr (u16 (if passive then ''passive'' else ''digest''))) (object_fields (s_metadata s)))\<rparr>) db"

end
