(* ===== verification/Turn_Queue_Props.thy ===== *)
theory Turn_Queue_Props
  imports Turn_Queue "HOL-Library.Multiset"
begin

text \<open>
  The properties of the turn queue: its claim order as a queue (interpretation \<open>turn_fifo\<close>),
  preemption, the tool budget, the worker-death fence and the settled turns.
\<close>

subsection \<open>The claim order\<close>

definition turns_unique :: "session_db \<Rightarrow> bool" where
  "turns_unique db \<longleftrightarrow> distinct (map t_id (session_turns db))"

lemma turn_rows [simp]:
  "t_id (claimedRow wid now t) = t_id t" "t_workspace_id (claimedRow wid now t) = t_workspace_id t"
  "t_session_id (claimedRow wid now t) = t_session_id t" "t_status (claimedRow wid now t) = TRunning"
  "t_id (cancelRow now t) = t_id t" "t_workspace_id (cancelRow now t) = t_workspace_id t"
  "t_session_id (cancelRow now t) = t_session_id t" "t_status (cancelRow now t) = TCancelled"
  by (simp_all add: claimedRow_def cancelRow_def)

lemma update_turn_fields [simp]:
  "sessions (update_turn p f db) = sessions db" "session_events (update_turn p f db) = session_events db"
  "session_goals (update_turn p f db) = session_goals db"
  "session_turns (update_turn p f db) = update_where p f (session_turns db)"
  by (simp_all add: update_turn_def)

lemma find_session_update_turn [simp]: "find_session ws sid (update_turn p f db) = find_session ws sid db"
  by (simp add: find_session_def)

lemma turns_unique_update: "(\<And>t. p t \<Longrightarrow> t_id (f t) = t_id t) \<Longrightarrow> turns_unique (update_turn p f db) \<longleftrightarrow> turns_unique db"
  by (simp add: turns_unique_def map_update_where)

lemma turns_of_update_session [simp]:
  "turns_unique (update_session ws sid f db) = turns_unique db"
  "queue_order ws' sid' (update_session ws sid f db) = queue_order ws' sid' db"
  by (simp_all add: turns_unique_def queue_order_def)

lemma set_queue_order: "set (queue_order ws sid db) = {t \<in> set (session_turns db). queued_in ws sid t}"
  by (auto simp: queue_order_def select_where_def)

lemma queue_order_distinct: "turns_unique db \<Longrightarrow> distinct (map t_id (queue_order ws sid db))"
proof -
  assume "turns_unique db"
  then have "distinct (map t_id (select_where (queued_in ws sid) (session_turns db)))"
    by (simp add: turns_unique_def select_where_def distinct_map_filter)
  moreover have "mset (map t_id (queue_order ws sid db)) = mset (map t_id (select_where (queued_in ws sid) (session_turns db)))"
    by (simp add: queue_order_def)
  ultimately show ?thesis by (metis mset_eq_imp_distinct_iff)
qed

lemma queue_order_sorted: "sorted (map queue_key (queue_order ws sid db))"
  by (simp add: queue_order_def)

lemma queue_orderI:
  assumes "mset ts = mset (select_where (queued_in ws sid) (session_turns db))"
    and "distinct (map t_id ts)" "sorted (map queue_key ts)"
  shows "queue_order ws sid db = ts"
proof -
  have "inj_on queue_key (set ts)"
    using assms(2) by (auto simp: inj_on_def queue_key_def distinct_map)
  moreover have "set ts = set (select_where (queued_in ws sid) (session_turns db))"
    using assms(1) by (rule mset_eq_setD)
  ultimately have "inj_on queue_key (set (select_where (queued_in ws sid) (session_turns db)))" by simp
  then show ?thesis
    unfolding queue_order_def using assms(1,3) by (intro sort_key_inj_key_eq) auto
qed

lemma queue_order_update:
  assumes "\<And>t. p t \<Longrightarrow> \<not> queued_in ws sid (f t)" and "\<And>t. p t \<Longrightarrow> queued_in ws sid t \<Longrightarrow> g t"
    and "\<And>t. queued_in ws sid t \<Longrightarrow> g t \<Longrightarrow> p t"
  shows "queue_order ws sid (update_turn p f db) = filter (\<lambda>t. \<not> g t) (queue_order ws sid db)"
proof -
  have step: "queued_in ws sid (if p t then f t else t) \<longleftrightarrow> queued_in ws sid t \<and> \<not> g t" for t
    using assms by (cases "p t") (simp only: if_True if_False, blast)+
  have keep: "queued_in ws sid t \<Longrightarrow> \<not> g t \<Longrightarrow> \<not> p t" for t
    using assms(2) by blast
  have "select_where (queued_in ws sid) (update_where p f ts) = filter (\<lambda>t. \<not> g t) (select_where (queued_in ws sid) ts)" for ts
    by (induction ts) (auto simp: select_where_def step dest: keep)
  then show ?thesis by (simp add: queue_order_def filter_sort)
qed

lemma queue_order_claimed:
  "queue_order ws sid (update_turn (turn_is ws i) (claimedRow wid now) db) = filter (\<lambda>t. t_id t \<noteq> i) (queue_order ws sid db)"
  by (rule queue_order_update) (auto simp: queued_in_def turn_is_def turn_of_def)

lemma queue_order_cancelled:
  "queue_order ws sid (update_turn (\<lambda>t. turn_is ws i t \<and> t_status t = TQueued) (cancelRow now) db)
   = filter (\<lambda>t. t_id t \<noteq> i) (queue_order ws sid db)"
  by (rule queue_order_update) (auto simp: queued_in_def turn_is_def turn_of_def)

lemma distinct_hd_filter: "distinct (map k (x # xs)) \<Longrightarrow> filter (\<lambda>y. k y \<noteq> k x) (x # xs) = xs"
  by (simp add: filter_id_conv) (metis image_eqI)

lemma claim_front:
  assumes "find_session ws sid db \<noteq> None" "turns_unique db" "queue_order ws sid db = t # ts"
  shows "claimNextQueuedTurn [] now ws sid wid db =
      (update_session ws sid (runSession (t_id t)) (update_turn (turn_is ws (t_id t)) (claimedRow wid now) db),
       Some (claimedRow wid now t))"
    and "queue_order ws sid (fst (claimNextQueuedTurn [] now ws sid wid db)) = ts"
proof -
  show claim: "claimNextQueuedTurn [] now ws sid wid db =
      (update_session ws sid (runSession (t_id t)) (update_turn (turn_is ws (t_id t)) (claimedRow wid now) db),
       Some (claimedRow wid now t))"
    using assms by (auto simp: claimNextQueuedTurn_def)
  show "queue_order ws sid (fst (claimNextQueuedTurn [] now ws sid wid db)) = ts"
    using queue_order_distinct [OF assms(2), of ws sid] distinct_hd_filter [of t_id t ts]
    unfolding claim by (simp add: queue_order_claimed assms(3) del: filter.simps)
qed

lemma find_session_runSession [simp]:
  "find_session ws sid (update_session ws sid (runSession i) db) = map_option (runSession i) (find_session ws sid db)"
proof -
  have "find_session ws sid (update_session ws sid (runSession i) db)
      = map_option (\<lambda>r. if session_is ws sid r then runSession i r else r) (find_session ws sid db)"
    unfolding find_session_def update_session_def
    by (simp add: find_update_where session_is_def runSession_def)
  also have "\<dots> = map_option (runSession i) (find_session ws sid db)"
    by (rule option.map_cong) (auto simp: find_session_def dest: find_SomeD)
  finally show ?thesis .
qed

subsection \<open>What a step does to a turn\<close>

definition settled :: "turn_status \<Rightarrow> bool" where
  "settled s \<longleftrightarrow> s \<in> {TCompleted, TFailed, TCancelled}"

fun reserves :: "turn_op \<Rightarrow> turn_row \<Rightarrow> bool" where
  "reserves (OpReserve ws sid tid limit) t \<longleftrightarrow> turn_of ws sid t \<and> t_id t = tid \<and> t_toolspace_call_count t < limit"
| "reserves _ t = False"

fun bumps :: "turn_op \<Rightarrow> turn_row \<Rightarrow> bool" where
  "bumps (OpBump ws tid) t \<longleftrightarrow> turn_is ws tid t"
| "bumps _ t = False"

fun patches_metadata :: "turn_op \<Rightarrow> turn_row \<Rightarrow> bool" where
  "patches_metadata (OpPatch ws tid p) t \<longleftrightarrow> turn_is ws tid t \<and> t_status t = TQueued \<and> tp_metadata p \<noteq> None"
| "patches_metadata _ t = False"

text \<open>The steps that may take a settled turn out of its settled status.\<close>

fun reopens :: "turn_op \<Rightarrow> turn_row \<Rightarrow> bool" where
  "reopens (OpFinish now ws tid st) t \<longleftrightarrow> turn_is ws tid t"
| "reopens (OpRequeue ws tid trig from) t \<longleftrightarrow> turn_is ws tid t \<and> t_status t \<in> set from"
| "reopens _ t = False"

definition turn_change :: "turn_op \<Rightarrow> turn_row \<Rightarrow> turn_row \<Rightarrow> bool" where
  "turn_change op t t' \<longleftrightarrow>
     t_id t' = t_id t \<and> t_workspace_id t' = t_workspace_id t \<and> t_session_id t' = t_session_id t
     \<and> t_toolspace_call_count t' = t_toolspace_call_count t + (if reserves op t then 1 else 0)
     \<and> (\<not> bumps op t \<and> \<not> patches_metadata op t \<longrightarrow> t_metadata t' = t_metadata t)
     \<and> (\<forall>n. bumps op t \<and> redispatches t = Inr n \<longrightarrow> redispatches t' = Inr (n + 1))
     \<and> (settled (t_status t) \<and> \<not> reopens op t \<longrightarrow> t_status t' = t_status t)"

lemma turn_change_refl: "\<not> reserves op t \<Longrightarrow> \<not> bumps op t \<Longrightarrow> turn_change op t t"
  by (simp add: turn_change_def)

definition turns_mapped :: "turn_op \<Rightarrow> session_db \<Rightarrow> turn_row list \<Rightarrow> bool" where
  "turns_mapped op db ts \<longleftrightarrow> list_all2 (turn_change op) (session_turns db) (take (length (session_turns db)) ts)
     \<and> length (session_turns db) \<le> length ts
     \<and> distinct (map t_id (drop (length (session_turns db)) ts))
     \<and> (\<forall>t \<in> set (drop (length (session_turns db)) ts). t_id t \<notin> t_id ` set (session_turns db))"

lemma turns_mapped_map:
  "(\<And>t. t \<in> set (session_turns db) \<Longrightarrow> turn_change op t (f t)) \<Longrightarrow> turns_mapped op db (map f (session_turns db))"
  by (simp add: turns_mapped_def list_all2_conv_all_nth)

lemma turns_mapped_update:
  "(\<And>t. t \<in> set (session_turns db) \<Longrightarrow> turn_change op t (if p t then f t else t)) \<Longrightarrow>
   turns_mapped op db (update_where p f (session_turns db))"
  unfolding update_where_def by (rule turns_mapped_map)

lemma turns_mapped_snoc:
  "(\<And>t. t \<in> set (session_turns db) \<Longrightarrow> turn_change op t (f t)) \<Longrightarrow> t_id new \<notin> t_id ` set (session_turns db) \<Longrightarrow>
   turns_mapped op db (map f (session_turns db) @ [new])"
  by (simp add: turns_mapped_def list_all2_conv_all_nth)

lemma turns_mapped_same: "(\<And>t. t \<in> set (session_turns db) \<Longrightarrow> \<not> reserves op t \<and> \<not> bumps op t) \<Longrightarrow> turns_mapped op db (session_turns db)"
  using turns_mapped_map [of db op "\<lambda>t. t"] by (simp add: turn_change_refl)

lemma unique_turn:
  "turns_unique db \<Longrightarrow> List.find p (session_turns db) = Some t \<Longrightarrow> u \<in> set (session_turns db) \<Longrightarrow> t_id u = t_id t \<Longrightarrow> u = t"
  unfolding turns_unique_def by (blast dest: find_SomeD distinct_map_inj)

lemma redispatches_bump: "redispatches (bumpRedispatches n t) = Inr n"
  by (simp add: redispatches_def bumpRedispatches_def js_put_def update_conv')

lemma bump_fields [simp]:
  "t_id (bumpRedispatches n t) = t_id t" "t_workspace_id (bumpRedispatches n t) = t_workspace_id t"
  "t_session_id (bumpRedispatches n t) = t_session_id t" "t_status (bumpRedispatches n t) = t_status t"
  "t_toolspace_call_count (bumpRedispatches n t) = t_toolspace_call_count t"
  by (simp_all add: bumpRedispatches_def)

lemma setPositions_turns:
  "\<exists>f. session_turns (setPositions ws i tids db) = map (\<lambda>t. t\<lparr>t_position := f t\<rparr>) (session_turns db)"
proof (induction ws i tids db rule: setPositions.induct)
  case (1 ws i db)
  show ?case by (rule exI [of _ t_position]) (simp add: map_idI)
next
  case (2 ws i tid tids db)
  then obtain f where "session_turns (setPositions ws (i + 1) tids (update_turn (turn_is ws tid) (\<lambda>t. t\<lparr>t_position := i + 1\<rparr>) db))
      = map (\<lambda>t. t\<lparr>t_position := f t\<rparr>) (update_where (turn_is ws tid) (\<lambda>t. t\<lparr>t_position := i + 1\<rparr>) (session_turns db))" by auto
  then show ?case
    by (intro exI [of _ "\<lambda>t. f (if turn_is ws tid t then t\<lparr>t_position := i + 1\<rparr> else t)"]) (simp add: update_where_def)
qed

lemma enqueue_mapped:
  "newId \<notin> t_id ` set (session_turns db) \<Longrightarrow> turns_mapped (OpEnqueue newId now inp) db (session_turns (fst (enqueueSessionTurn newId now inp db)))"
proof -
  assume new: "newId \<notin> t_id ` set (session_turns db)"
  obtain db1 pos where q: "positionForEnqueue inp db = (db1, pos)" by fastforce
  then have "session_turns db1 = session_turns db
      \<or> (\<exists>ws sid m. session_turns db1 = update_where (\<lambda>t. queued_in ws sid t \<and> m \<le> t_position t)
           (\<lambda>t. t\<lparr>t_position := t_position t + 1\<rparr>) (session_turns db))"
    unfolding positionForEnqueue_def shiftFrom_def Let_def by (cases "en_preempt_child_notifications inp") (force split: if_splits)+
  then obtain f where f: "session_turns db1 = map f (session_turns db)"
      "\<And>t. turn_change (OpEnqueue newId now inp) t (f t)"
  proof
    assume "session_turns db1 = session_turns db"
    then show thesis by (intro that [of "\<lambda>t. t"]) (simp_all add: turn_change_refl)
  next
    assume "\<exists>ws sid m. session_turns db1 = update_where (\<lambda>t. queued_in ws sid t \<and> m \<le> t_position t)
           (\<lambda>t. t\<lparr>t_position := t_position t + 1\<rparr>) (session_turns db)"
    then obtain ws sid m where "session_turns db1 = update_where (\<lambda>t. queued_in ws sid t \<and> m \<le> t_position t)
           (\<lambda>t. t\<lparr>t_position := t_position t + 1\<rparr>) (session_turns db)" by blast
    then show thesis
      by (intro that [of "\<lambda>t. if queued_in ws sid t \<and> m \<le> t_position t then t\<lparr>t_position := t_position t + 1\<rparr> else t"])
         (simp_all add: update_where_def turn_change_def)
  qed
  show ?thesis
    unfolding enqueueSessionTurn_def q using f new
    by (simp add: Let_def) (rule turns_mapped_snoc, simp_all add: enqueuedRow_def)
qed

lemma create_mapped:
  "newId \<notin> t_id ` set (session_turns db) \<Longrightarrow>
   turns_mapped (OpCreate newId now ws sid trig wid) db (session_turns (turn_step (OpCreate newId now ws sid trig wid) db))"
  using turns_mapped_snoc [of db "OpCreate newId now ws sid trig wid" "\<lambda>t. t"]
  by (auto simp: committed_def createTurn_def Let_def turn_change_refl turns_mapped_same split: option.splits)

lemma claim_mapped:
  assumes "turns_unique db"
  shows "turns_mapped (OpClaim locked now ws sid wid) db (session_turns (fst (claimNextQueuedTurn locked now ws sid wid db)))"
proof (cases "filter (\<lambda>t. t_id t \<notin> set locked) (queue_order ws sid db)")
  case Nil
  then show ?thesis by (auto simp: claimNextQueuedTurn_def turns_mapped_same split: option.splits)
next
  case (Cons t ts)
  then have "t \<in> set (queue_order ws sid db)" by (metis filter_is_subset list.set_intros(1) subsetD)
  then have t: "t \<in> set (session_turns db)" "t_status t = TQueued"
    by (auto simp: set_queue_order queued_in_def)
  have "turn_change (OpClaim locked now ws sid wid) u (if turn_is ws (t_id t) u then claimedRow wid now u else u)"
    if "u \<in> set (session_turns db)" for u
  proof -
    have "u = t" if "turn_is ws (t_id t) u"
      using assms t(1) \<open>u \<in> set (session_turns db)\<close> that
      by (auto simp: turns_unique_def turn_is_def dest: distinct_map_inj)
    then show ?thesis using t(2) by (auto simp: turn_change_def settled_def claimedRow_def)
  qed
  then show ?thesis
    using Cons by (auto simp: claimNextQueuedTurn_def turns_mapped_same turns_mapped_update split: option.splits)
qed

lemma settle_mapped:
  "turns_mapped (OpFinish now ws tid st) db (session_turns (finishTurn now ws tid st db))"
  "turns_mapped (OpRequeue ws tid trig from) db (session_turns (turn_step (OpRequeue ws tid trig from) db))"
  "turns_mapped (OpPatch ws tid p) db (session_turns (turn_step (OpPatch ws tid p) db))"
  "turns_mapped (OpCancel now ws tid) db (session_turns (turn_step (OpCancel now ws tid) db))"
  "turns_mapped (OpCancelAll now ws sid) db (session_turns (turn_step (OpCancelAll now ws sid) db))"
  by (auto simp: finishTurn_def requeuePreemptedTurn_def committed_def updateQueuedSessionTurn_def
        cancelQueuedSessionTurn_def cancelQueuedSessionTurns_def updateQueued_def patchRow_def or_else_def queued_in_def
        turn_change_def settled_def Let_def turns_mapped_same cancelRow_def split: option.splits intro!: turns_mapped_update)

lemma bump_mapped:
  assumes "turns_unique db"
  shows "turns_mapped (OpBump ws tid) db (session_turns (turn_step (OpBump ws tid) db))"
proof (cases "incrementTurnWorkerDeathRedispatches ws tid db")
  case (Inl e)
  have "\<not> turn_is ws tid t \<or> (\<exists>x. redispatches t = Inl x)" if t: "t \<in> set (session_turns db)" for t
  proof (cases "List.find (turn_is ws tid) (session_turns db)")
    case None
    then show ?thesis using t by (auto dest: find_NoneD)
  next
    case (Some u)
    moreover have "t = u" if "turn_is ws tid t"
      using unique_turn [OF assms Some t] find_SomeD [OF Some] that by (simp add: turn_is_def)
    ultimately show ?thesis using Inl by (auto simp: incrementTurnWorkerDeathRedispatches_def split: sum.splits)
  qed
  then have "turn_change (OpBump ws tid) t t" if "t \<in> set (session_turns db)" for t
    using that by (force simp: turn_change_def)
  then show ?thesis using Inl turns_mapped_map [of db _ "\<lambda>t. t"] by (simp add: committed_def)
next
  case (Inr r)
  then obtain t n where t: "List.find (turn_is ws tid) (session_turns db) = Some t" "redispatches t = Inr n"
      "r = (update_turn (turn_is ws tid) (bumpRedispatches (n + 1)) db, n + 1)"
    by (auto simp: incrementTurnWorkerDeathRedispatches_def split: option.splits sum.splits)
  have "turn_change (OpBump ws tid) u (if turn_is ws tid u then bumpRedispatches (n + 1) u else u)"
    if "u \<in> set (session_turns db)" for u
  proof -
    have "turn_is ws tid u \<Longrightarrow> u = t"
      using unique_turn [OF assms t(1) that] find_SomeD [OF t(1)] by (simp add: turn_is_def)
    then show ?thesis using t(2) by (auto simp: turn_change_def redispatches_bump)
  qed
  then show ?thesis using Inr t(3) by (simp add: committed_def turns_mapped_update)
qed

lemma dying_mapped:
  assumes "turns_unique db"
  shows "turns_mapped (OpDying now ws tid n) db (session_turns (turn_step (OpDying now ws tid n) db))"
proof (cases "\<exists>t. List.find (\<lambda>t. turn_is ws tid t \<and> t_status t \<in> set live_statuses) (session_turns db) = Some t \<and> redispatches t = Inr n")
  case True
  then obtain t where t: "List.find (\<lambda>t. turn_is ws tid t \<and> t_status t \<in> set live_statuses) (session_turns db) = Some t"
    "redispatches t = Inr n" by blast
  have "turn_change (OpDying now ws tid n) u
      (if turn_is ws tid u then u\<lparr>t_status := TCancelled, t_finished_at := Some now\<rparr> else u)"
    if "u \<in> set (session_turns db)" for u
  proof -
    have "turn_is ws tid u \<Longrightarrow> u = t"
      using unique_turn [OF assms t(1) that] find_SomeD [OF t(1)] by (simp add: turn_is_def)
    then show ?thesis using find_SomeD [OF t(1)] by (auto simp: turn_change_def settled_def live_statuses_def)
  qed
  then show ?thesis using t by (simp add: committed_def cancelTurnFromDyingDispatch_def turns_mapped_update)
next
  case False
  then have "session_turns (turn_step (OpDying now ws tid n) db) = session_turns db"
    by (auto simp: committed_def cancelTurnFromDyingDispatch_def split: option.splits sum.splits)
  then show ?thesis by (simp add: turns_mapped_same)
qed

lemma reserve_mapped:
  "turns_mapped (OpReserve ws sid tid limit) db (session_turns (turn_step (OpReserve ws sid tid limit) db))"
proof (cases "List.find (\<lambda>t. turn_of ws sid t \<and> t_id t = tid \<and> t_toolspace_call_count t < limit) (session_turns db)")
  case None
  then have "\<not> reserves (OpReserve ws sid tid limit) t" if "t \<in> set (session_turns db)" for t
    using that by (auto dest: find_NoneD)
  with None show ?thesis by (auto simp: reserveToolspaceCallForTurn_def Let_def intro!: turns_mapped_same)
next
  case (Some t)
  then show ?thesis
    by (auto simp: reserveToolspaceCallForTurn_def Let_def turn_change_def redispatches_def intro!: turns_mapped_update)
qed

lemma reorder_mapped: "turns_mapped (OpReorder ws sid tids) db (session_turns (turn_step (OpReorder ws sid tids) db))"
proof -
  obtain f where f: "session_turns (setPositions ws 0 tids db) = map (\<lambda>t. t\<lparr>t_position := f t\<rparr>) (session_turns db)"
    using setPositions_turns by blast
  have "turns_mapped (OpReorder ws sid tids) db (session_turns (setPositions ws 0 tids db))"
    unfolding f by (rule turns_mapped_map) (simp add: turn_change_def)
  then show ?thesis by (simp add: reorderQueuedSessionTurns_def committed_def Let_def turns_mapped_same)
qed

lemma turn_step_mapped:
  assumes "turns_unique db" "fresh_turn op db"
  shows "turns_mapped op db (session_turns (turn_step op db))"
proof (cases op)
  case (OpStatus ws sid st act)
  then show ?thesis by (simp add: setSessionStatus_def turns_mapped_same)
next
  case (OpFinish now ws tid st)
  then show ?thesis using settle_mapped(1) by simp
next
  case (OpEnqueue newId now inp)
  then show ?thesis using enqueue_mapped [of newId db] assms(2) by simp
next
  case (OpCreate newId now ws sid trig wid)
  then show ?thesis using create_mapped [of newId db] assms(2) by simp
qed (use assms in \<open>simp_all only: fresh_turn.simps turn_step.simps(3) claim_mapped
       settle_mapped bump_mapped dying_mapped reserve_mapped reorder_mapped\<close>)

lemma list_all2_ids:
  "list_all2 (turn_change op) ts us \<Longrightarrow> map t_id us = map t_id ts"
  by (induction rule: list_all2_induct) (simp_all add: turn_change_def)

lemma mapped_unique:
  assumes "turns_unique db" "turns_mapped op db (session_turns db')"
  shows "turns_unique db'"
proof -
  let ?n = "length (session_turns db)"
  have split: "map t_id (session_turns db') = map t_id (session_turns db) @ map t_id (drop ?n (session_turns db'))"
    using assms(2) list_all2_ids [of op "session_turns db" "take ?n (session_turns db')"]
    unfolding turns_mapped_def by (metis append_take_drop_id map_append)
  show ?thesis
    unfolding turns_unique_def split using assms by (auto simp: turns_unique_def turns_mapped_def) (metis imageI)
qed

definition find_turn :: "uuid \<Rightarrow> session_db \<Rightarrow> turn_row option" where
  "find_turn tid db = List.find (\<lambda>t. t_id t = tid) (session_turns db)"

lemma find_turnD: "find_turn tid db = Some t \<Longrightarrow> t \<in> set (session_turns db) \<and> t_id t = tid"
  unfolding find_turn_def by (auto dest: find_SomeD)

lemma find_turnI: "turns_unique db \<Longrightarrow> t \<in> set (session_turns db) \<Longrightarrow> t_id t = tid \<Longrightarrow> find_turn tid db = Some t"
  unfolding find_turn_def turns_unique_def by (rule find_unique)

lemma find_list_all2:
  "list_all2 (turn_change op) ts us \<Longrightarrow> List.find (\<lambda>t. t_id t = tid) ts = Some t \<Longrightarrow>
   \<exists>u. List.find (\<lambda>t. t_id t = tid) us = Some u \<and> turn_change op t u"
  by (induction rule: list_all2_induct) (auto simp: turn_change_def split: if_splits)

lemma turn_step_unique: "turns_unique db \<Longrightarrow> fresh_turn op db \<Longrightarrow> turns_unique (turn_step op db)"
  using turn_step_mapped mapped_unique by blast

text \<open>Every step changes a turn along \<open>turn_change\<close>; none removes it.\<close>

lemma turn_step_change:
  assumes "turns_unique db" "fresh_turn op db" "find_turn tid db = Some t"
  obtains u where "find_turn tid (turn_step op db) = Some u" "turn_change op t u"
proof -
  let ?us = "session_turns (turn_step op db)" and ?n = "length (session_turns db)"
  have "list_all2 (turn_change op) (session_turns db) (take ?n ?us)"
    using turn_step_mapped [OF assms(1,2)] by (simp add: turns_mapped_def)
  from find_list_all2 [OF this assms(3) [unfolded find_turn_def]]
  obtain u where u: "List.find (\<lambda>t. t_id t = tid) (take ?n ?us) = Some u" "turn_change op t u" by blast
  have "List.find (\<lambda>t. t_id t = tid) (take ?n ?us @ drop ?n ?us) = Some u"
    using u(1) unfolding find_append by simp
  then show ?thesis using u(2) that by (simp add: find_turn_def)
qed

interpretation turn_run: step_invariant turn_step fresh_turn turns_unique
  by unfold_locales (rule turn_step_unique)

subsection \<open>The queue as a queue\<close>

type_synonym enqueue_call = "uuid \<times> millis \<times> enqueue_input"

fun enqueue_call :: "enqueue_call \<Rightarrow> session_db \<Rightarrow> session_db" where
  "enqueue_call (newId, now, inp) db = fst (enqueueSessionTurn newId now inp db)"

fun appends :: "uuid \<Rightarrow> uuid \<Rightarrow> enqueue_call \<Rightarrow> session_db \<Rightarrow> bool" where
  "appends ws sid (newId, now, inp) db \<longleftrightarrow> newId \<notin> t_id ` set (session_turns db)
     \<and> en_workspace_id inp = ws \<and> en_session_id inp = sid \<and> \<not> en_preempt_child_notifications inp"

definition queue_ready :: "uuid \<Rightarrow> uuid \<Rightarrow> session_db \<Rightarrow> bool" where
  "queue_ready ws sid db \<longleftrightarrow> turns_unique db \<and> find_session ws sid db \<noteq> None"

definition queue_ids :: "uuid \<Rightarrow> uuid \<Rightarrow> session_db \<Rightarrow> uuid list" where
  "queue_ids ws sid db = map t_id (queue_order ws sid db)"

definition claim_id :: "millis \<Rightarrow> uuid \<Rightarrow> uuid \<Rightarrow> string \<Rightarrow> session_db \<Rightarrow> session_db \<times> uuid option" where
  "claim_id now ws sid wid db =
     (let (db', t) = claimNextQueuedTurn [] now ws sid wid db in (db', map_option t_id t))"

text \<open>The workflow's loop of claims, up to \<open>n\<close> of them.\<close>

fun claimTurns :: "nat \<Rightarrow> millis \<Rightarrow> uuid \<Rightarrow> uuid \<Rightarrow> string \<Rightarrow> session_db \<Rightarrow> session_db \<times> turn_row list" where
  "claimTurns 0 now ws sid wid db = (db, [])"
| "claimTurns (Suc n) now ws sid wid db =
     (case claimNextQueuedTurn [] now ws sid wid db of
        (db1, None) \<Rightarrow> (db1, [])
      | (db1, Some t) \<Rightarrow> (let (db2, ts) = claimTurns n now ws sid wid db1 in (db2, t # ts)))"

lemma next_position: "turn_of ws sid t \<Longrightarrow> t \<in> set (session_turns db) \<Longrightarrow> t_position t < nextTurnPosition ws sid db"
proof -
  assume t: "turn_of ws sid t" "t \<in> set (session_turns db)"
  let ?ps = "map t_position (select_where (turn_of ws sid) (session_turns db))"
  have "t_position t \<in> set ?ps" using t by (auto simp: set_select_where)
  then have "?ps \<noteq> []" "t_position t \<le> Max (set ?ps)" by auto
  then show ?thesis by (simp add: nextTurnPosition_def Let_def)
qed

lemma queue_order_snoc:
  assumes "turns_unique db" "t_id new \<notin> t_id ` set (session_turns db)" "queued_in ws sid new"
    and "\<And>t. t \<in> set (queue_order ws sid db) \<Longrightarrow> t_position t < t_position new"
  shows "queue_order ws sid (db\<lparr>session_turns := session_turns db @ [new]\<rparr>) = queue_order ws sid db @ [new]"
proof (rule queue_orderI)
  show "distinct (map t_id (queue_order ws sid db @ [new]))"
    using queue_order_distinct [OF assms(1)] assms(2) by (auto simp: set_queue_order)
  show "sorted (map queue_key (queue_order ws sid db @ [new]))"
    using queue_order_sorted assms(4) by (fastforce simp: sorted_append queue_key_def less_eq_prod_def)
qed (simp add: queue_order_def select_where_def assms(3))

lemma enqueue_back:
  assumes "queue_ready ws sid db" "appends ws sid x db"
  shows "queue_ready ws sid (enqueue_call x db) \<and> queue_ids ws sid (enqueue_call x db) = queue_ids ws sid db @ [fst x]"
proof -
  obtain newId now inp where x: "x = (newId, now, inp)" by (cases x) auto
  let ?row = "enqueuedRow newId now (nextTurnPosition ws sid db) inp"
  have call: "enqueue_call x db = db\<lparr>session_turns := session_turns db @ [?row]\<rparr>"
    using assms(2) by (simp add: x enqueueSessionTurn_def positionForEnqueue_def Let_def)
  have "queue_order ws sid (enqueue_call x db) = queue_order ws sid db @ [?row]"
    unfolding call
  proof (rule queue_order_snoc)
    show "t_position t < t_position ?row" if "t \<in> set (queue_order ws sid db)" for t
      using that by (simp add: enqueuedRow_def set_queue_order queued_in_def next_position)
  qed (use assms in \<open>auto simp: x queue_ready_def enqueuedRow_def queued_in_def turn_of_def\<close>)
  moreover have "turns_unique (enqueue_call x db)"
    using assms turn_step_unique [of db "OpEnqueue newId now inp"] by (simp add: x queue_ready_def)
  moreover have "find_session ws sid (enqueue_call x db) \<noteq> None"
    using assms(1) by (simp add: call queue_ready_def find_session_def)
  ultimately show ?thesis by (simp add: queue_ready_def queue_ids_def x enqueuedRow_def)
qed

lemma claim_ready:
  assumes "queue_ready ws sid db" "queue_order ws sid db = t # ts"
  shows "\<exists>db'. claimNextQueuedTurn [] now ws sid wid db = (db', Some (claimedRow wid now t))
    \<and> queue_ready ws sid db' \<and> queue_order ws sid db' = ts"
proof -
  note claim = claim_front [OF _ _ assms(2), of now wid]
  have "turns_unique (turn_step (OpClaim [] now ws sid wid) db)"
    using assms(1) by (intro turn_step_unique) (simp_all add: queue_ready_def)
  then show ?thesis using claim assms(1) by (simp add: queue_ready_def)
qed

lemma claim_id_front:
  assumes "queue_ready ws sid db" "queue_ids ws sid db = i # is"
  shows "\<exists>db'. claim_id now ws sid wid db = (db', Some i) \<and> queue_ready ws sid db' \<and> queue_ids ws sid db' = is"
proof -
  from assms(2) obtain t ts where "queue_order ws sid db = t # ts" "t_id t = i" "map t_id ts = is"
    by (auto simp: queue_ids_def)
  with claim_ready [OF assms(1) this(1), of now wid] show ?thesis by (auto simp: claim_id_def queue_ids_def)
qed

interpretation turn_fifo: fifo_queue "queue_ready ws sid" "queue_ids ws sid" "appends ws sid" enqueue_call fst
  "claim_id now ws sid wid" for ws sid now wid
proof
  show "queue_ready ws sid db \<Longrightarrow> appends ws sid x db \<Longrightarrow>
      queue_ready ws sid (enqueue_call x db) \<and> queue_ids ws sid (enqueue_call x db) = queue_ids ws sid db @ [fst x]"
    for ws sid x db by (rule enqueue_back)
  show "queue_ready ws sid db \<Longrightarrow> queue_ids ws sid db = [] \<Longrightarrow> claim_id now ws sid wid db = (db, None)"
    for ws sid now wid db
    by (auto simp: claim_id_def claimNextQueuedTurn_def queue_ids_def split: option.splits)
qed (rule claim_id_front)

lemma claimTurns_drain:
  "(fst (claimTurns n now ws sid wid db), map t_id (snd (claimTurns n now ws sid wid db)))
   = turn_fifo.drain_n now ws sid wid n db"
proof (induction n arbitrary: db)
  case (Suc n)
  obtain db1 r where claim: "claimNextQueuedTurn [] now ws sid wid db = (db1, r)" by fastforce
  then have "claim_id now ws sid wid db = (db1, map_option t_id r)" by (simp add: claim_id_def)
  with claim Suc.IH [of db1] show ?case
    by (cases r) (auto simp: split_beta simp flip: Suc.IH)
qed simp

lemma claimTurns_running: "\<forall>t \<in> set (snd (claimTurns n now ws sid wid db)). t_status t = TRunning"
proof (induction n arbitrary: db)
  case (Suc n)
  obtain db1 r where claim: "claimNextQueuedTurn [] now ws sid wid db = (db1, r)" by fastforce
  then have "t_status t = TRunning" if "r = Some t" for t
    using that by (auto simp: claimNextQueuedTurn_def split: option.splits list.splits)
  with claim Suc.IH [of db1] show ?case by (cases r) (auto simp: split_beta)
qed simp

text \<open>
  C10: the queue's order. Turns enqueued at the back of a session's queue are claimed after those
  already there and in the order they were enqueued, each once, and \<open>n\<close> claims return exactly the
  first \<open>n\<close> of them.
\<close>

theorem claims_in_enqueue_order:
  assumes "turns_unique db" and "find_session ws sid db \<noteq> None"
    and "admissible enqueue_call (appends ws sid) calls db"
  shows "map t_id (snd (claimTurns n now ws sid wid (run_ops enqueue_call calls db)))
      = take n (map t_id (queue_order ws sid db) @ map fst calls)
    \<and> (\<forall>t \<in> set (snd (claimTurns n now ws sid wid (run_ops enqueue_call calls db))). t_status t = TRunning)"
proof -
  have ready: "queue_ready ws sid db" using assms(1,2) by (simp add: queue_ready_def)
  have "map t_id (snd (claimTurns n now ws sid wid s)) = snd (turn_fifo.drain_n now ws sid wid n s)" for s
    using claimTurns_drain [of n now ws sid wid s] by (metis snd_conv)
  with turn_fifo.enq_drain [OF ready assms(3), of now wid n] claimTurns_running show ?thesis
    by (auto simp: queue_ids_def)
qed

definition demo_enqueue :: "jsval \<Rightarrow> bool \<Rightarrow> enqueue_input" where
  "demo_enqueue metadata preempt = \<lparr>en_account_id = ''a'', en_workspace_id = ''w'', en_session_id = ''s'',
     en_trigger_event_id = ''e'', en_temporal_workflow_id = ''session-s'', en_source = FromUser, en_prompt = u16 ''hi'',
     en_resources = VArr [], en_tools = VArr [], en_model = ''m'', en_reasoning_effort = ''low'',
     en_sandbox_backend = ''modal'', en_metadata = metadata, en_preempt_child_notifications = preempt\<rparr>"

definition demo_calls :: "enqueue_call list" where
  "demo_calls = [(''t1'', 1, demo_enqueue (VObj []) False), (''t0'', 1, demo_enqueue (VObj []) False)]"

lemma claims_in_enqueue_order_witness:
  "map t_id (snd (claimTurns 3 9 ''w'' ''s'' ''wf'' (run_ops enqueue_call demo_calls demo_db))) = [''t1'', ''t0'']"
proof -
  have "turns_unique demo_db" "find_session ''w'' ''s'' demo_db \<noteq> None" "queue_order ''w'' ''s'' demo_db = []"
    "admissible enqueue_call (appends ''w'' ''s'') demo_calls demo_db" by code_simp+
  then show ?thesis
    using claims_in_enqueue_order [of demo_db "''w''" "''s''" demo_calls 3 9 "''wf''"] by (simp add: demo_calls_def)
qed

subsection \<open>Preemption\<close>

definition shifted :: "int \<Rightarrow> turn_row \<Rightarrow> turn_row" where
  "shifted m t = (if m \<le> t_position t then t\<lparr>t_position := t_position t + 1\<rparr> else t)"

lemma shifted_fields [simp]: "t_id (shifted m t) = t_id t" "queued_in ws sid (shifted m t) = queued_in ws sid t"
  by (simp_all add: shifted_def queued_in_def turn_of_def)

lemma select_shifted:
  "select_where (queued_in ws sid) (update_where (\<lambda>t. queued_in ws sid t \<and> m \<le> t_position t)
     (\<lambda>t. t\<lparr>t_position := t_position t + 1\<rparr>) ts) = map (shifted m) (select_where (queued_in ws sid) ts)"
  by (induction ts) (auto simp: select_where_def shifted_def queued_in_def turn_of_def)

lemma sorted_shifted: "sorted (map queue_key ts) \<Longrightarrow> sorted (map queue_key (map (shifted m) ts))"
  unfolding sorted_map map_map comp_def sorted_wrt_map
  by (erule sorted_wrt_mono_rel [rotated]) (auto simp: queue_key_def shifted_def less_eq_prod_def)

lemma sorted_between:
  "sorted (map k (xs @ ys)) \<Longrightarrow> (\<forall>x \<in> set xs. k x \<le> k z) \<Longrightarrow> (\<forall>y \<in> set ys. k z \<le> k y) \<Longrightarrow>
   sorted (map k (xs @ z # ys))"
  by (auto simp: sorted_append)

lemma preempt_order:
  assumes "turns_unique db" "newId \<notin> t_id ` set (session_turns db)"
    and "en_workspace_id inp = ws" "en_session_id inp = sid" "en_preempt_child_notifications inp"
    and c: "c \<in> set (queue_order ws sid db)" "child_notification c"
  shows "\<exists>m. (\<forall>t \<in> set (queue_order ws sid db). child_notification t \<longrightarrow> m \<le> t_position t)
    \<and> (\<exists>t \<in> set (queue_order ws sid db). child_notification t \<and> t_position t = m)
    \<and> queue_ids ws sid (fst (enqueueSessionTurn newId now inp db))
      = map t_id (takeWhile (\<lambda>t. t_position t < m) (queue_order ws sid db)) @ newId
        # map t_id (dropWhile (\<lambda>t. t_position t < m) (queue_order ws sid db))"
proof -
  let ?Q = "queue_order ws sid db"
  let ?ps = "map t_position (select_where (\<lambda>t. queued_in ws sid t \<and> child_notification t) (session_turns db))"
  define m where "m = Min (set ?ps)"
  have ps: "set ?ps = t_position ` {t \<in> set ?Q. child_notification t}" by (auto simp: set_select_where set_queue_order)
  have ne: "?ps \<noteq> []" using c ps by (metis (mono_tags, lifting) empty_iff empty_set imageI mem_Collect_eq)
  then have mem: "m \<in> set ?ps" unfolding m_def by (metis List.finite_set Min_in set_empty)
  have low: "m \<le> p" if "p \<in> set ?ps" for p unfolding m_def using that by simp
  let ?row = "enqueuedRow newId now m inp"
  let ?db = "fst (enqueueSessionTurn newId now inp db)"
  let ?A = "takeWhile (\<lambda>t. t_position t < m) ?Q" and ?B = "dropWhile (\<lambda>t. t_position t < m) ?Q"
  have turns: "session_turns ?db = session_turns (shiftFrom ws sid m db) @ [?row]"
    using ne assms(3-5) by (simp add: enqueueSessionTurn_def positionForEnqueue_def Let_def m_def)
  have row: "queued_in ws sid ?row" "t_id ?row = newId" "t_position ?row = m"
    using assms(3,4) by (simp_all add: enqueuedRow_def queued_in_def turn_of_def)
  have above: "m \<le> t_position t" if "t \<in> set ?B" for t
  proof -
    have sorted: "sorted (map queue_key ?Q)" by (rule queue_order_sorted)
    from that obtain b bs where B: "?B = b # bs" by (cases ?B) auto
    then have "\<not> t_position b < m" by (metis hd_dropWhile list.distinct(1) list.sel(1))
    moreover have "sorted (map queue_key ?B)" using sorted by (metis sorted_append map_append takeWhile_dropWhile_id)
    then have "queue_key b \<le> queue_key t" using that by (auto simp: B)
    ultimately show ?thesis by (auto simp: queue_key_def less_eq_prod_def)
  qed
  have "queue_order ws sid ?db = map (shifted m) ?A @ ?row # map (shifted m) ?B"
  proof (rule queue_orderI)
    have "mset (select_where (queued_in ws sid) (session_turns ?db)) = mset (map (shifted m) ?Q) + {#?row#}"
      using row(1) by (simp add: turns shiftFrom_def select_where_def queue_order_def select_shifted [unfolded select_where_def])
    also have "mset (map (shifted m) ?Q) = mset (map (shifted m) ?A) + mset (map (shifted m) ?B)"
      by (metis map_append mset_append takeWhile_dropWhile_id)
    finally show "mset (map (shifted m) ?A @ ?row # map (shifted m) ?B)
        = mset (select_where (queued_in ws sid) (session_turns ?db))" by simp
    have ids: "map t_id ?A @ map t_id ?B = map t_id ?Q" by (metis map_append takeWhile_dropWhile_id)
    have "distinct (map t_id ?A @ map t_id ?B)" "newId \<notin> set (map t_id ?A @ map t_id ?B)"
      unfolding ids using queue_order_distinct [OF assms(1)] assms(2) by (auto simp: set_queue_order)
    moreover have eq: "map t_id (map (shifted m) ?A @ ?row # map (shifted m) ?B) = map t_id ?A @ newId # map t_id ?B"
      by (simp add: comp_def row(2))
    ultimately show "distinct (map t_id (map (shifted m) ?A @ ?row # map (shifted m) ?B))"
      unfolding eq by simp
    have "map (shifted m) ?A @ map (shifted m) ?B = map (shifted m) ?Q" by (metis map_append takeWhile_dropWhile_id)
    then have "sorted (map queue_key (map (shifted m) ?A @ map (shifted m) ?B))"
      using sorted_shifted [OF queue_order_sorted] by metis
    moreover have "queue_key (shifted m t) \<le> queue_key ?row" if "t \<in> set ?A" for t
      using that row(3) by (auto simp: queue_key_def shifted_def less_eq_prod_def dest: set_takeWhileD)
    moreover have "queue_key ?row \<le> queue_key (shifted m t)" if "t \<in> set ?B" for t
      using above [OF that] row(3) by (auto simp: queue_key_def shifted_def less_eq_prod_def)
    ultimately show "sorted (map queue_key (map (shifted m) ?A @ ?row # map (shifted m) ?B))"
      by (intro sorted_between) auto
  qed
  then have "queue_ids ws sid ?db = map t_id ?A @ newId # map t_id ?B"
    by (simp add: queue_ids_def comp_def row(2))
  moreover have "\<exists>t \<in> set ?Q. child_notification t \<and> t_position t = m" using mem ps by auto
  moreover have "\<forall>t \<in> set ?Q. child_notification t \<longrightarrow> m \<le> t_position t" using low ps by auto
  ultimately show ?thesis by blast
qed

text \<open>
  A preempting message and the child notifications. A human message enqueued with preemption
  is claimed before every queued child notification; the other turns keep their order, and those
  in front of it are no child notifications.
\<close>

theorem preemption_before_child_notifications:
  assumes "turns_unique db" and "newId \<notin> t_id ` set (session_turns db)"
    and "en_workspace_id inp = ws" "en_session_id inp = sid" "en_preempt_child_notifications inp"
  shows "\<exists>as bs. queue_order ws sid db = as @ bs \<and> (\<forall>t \<in> set as. \<not> child_notification t)
    \<and> map t_id (queue_order ws sid (fst (enqueueSessionTurn newId now inp db))) = map t_id as @ newId # map t_id bs"
proof (cases "\<exists>c \<in> set (queue_order ws sid db). child_notification c")
  case True
  then obtain m where "\<forall>t \<in> set (queue_order ws sid db). child_notification t \<longrightarrow> m \<le> t_position t"
    "queue_ids ws sid (fst (enqueueSessionTurn newId now inp db))
      = map t_id (takeWhile (\<lambda>t. t_position t < m) (queue_order ws sid db)) @ newId
        # map t_id (dropWhile (\<lambda>t. t_position t < m) (queue_order ws sid db))"
    using preempt_order [OF assms] by blast
  then show ?thesis
    by (intro exI [of _ "takeWhile (\<lambda>t. t_position t < m) (queue_order ws sid db)"]
        exI [of _ "dropWhile (\<lambda>t. t_position t < m) (queue_order ws sid db)"])
       (fastforce simp: queue_ids_def dest: set_takeWhileD)
next
  case False
  then have none: "select_where (\<lambda>t. queued_in ws sid t \<and> child_notification t) (session_turns db) = []"
    by (auto simp: select_where_def filter_empty_conv set_queue_order)
  let ?row = "enqueuedRow newId now (nextTurnPosition ws sid db) inp"
  have "queue_order ws sid (db\<lparr>session_turns := session_turns db @ [?row]\<rparr>) = queue_order ws sid db @ [?row]"
    by (rule queue_order_snoc)
       (use assms in \<open>auto simp: enqueuedRow_def queued_in_def turn_of_def set_queue_order next_position\<close>)
  then show ?thesis
    using False none assms(3,4)
    by (intro exI [of _ "queue_order ws sid db"] exI [of _ "[]"])
       (simp add: enqueueSessionTurn_def positionForEnqueue_def Let_def enqueuedRow_def)
qed

text \<open>A digest turn that ran and was put back keeps its low position; two humans wrote meanwhile.\<close>

definition demo_requeued :: session_db where
  "demo_requeued = run_ops turn_step
     [OpEnqueue ''digest'' 1 (demo_enqueue (VObj [(u16 ''childCompletion'', VObj [])]) False),
      OpClaim [] 2 ''w'' ''s'' ''wf'',
      OpEnqueue ''first'' 3 (demo_enqueue (VObj []) True),
      OpRequeue ''w'' ''digest'' ''e'' live_statuses] demo_db"

lemma demo_requeued_facts:
  "turns_unique demo_requeued" "queue_ids ''w'' ''s'' demo_requeued = [''digest'', ''first'']"
  "''second'' \<notin> t_id ` set (session_turns demo_requeued)"
  "map child_notification (queue_order ''w'' ''s'' demo_requeued) = [True, False]"
  "map t_position (queue_order ''w'' ''s'' demo_requeued) = [1, 2]"
  by code_simp+

lemma preemption_before_child_notifications_witness:
  "\<exists>as bs. queue_order ''w'' ''s'' demo_requeued = as @ bs \<and> (\<forall>t \<in> set as. \<not> child_notification t)
    \<and> queue_ids ''w'' ''s'' (fst (enqueueSessionTurn ''second'' 4 (demo_enqueue (VObj []) True) demo_requeued))
      = map t_id as @ ''second'' # map t_id bs"
  unfolding queue_ids_def
  by (rule preemption_before_child_notifications [OF demo_requeued_facts(1,3)]) (simp_all add: demo_enqueue_def)

text \<open>
  Preemption also overtakes human turns. A queued turn that is no child notification but sits
  behind one (a notification put back after it was preempted keeps its low position) is claimed
  after the newcomer, although it was enqueued first.
\<close>

theorem preemption_overtakes_earlier_human_turn:
  assumes "turns_unique db" and "newId \<notin> t_id ` set (session_turns db)"
    and "en_workspace_id inp = ws" "en_session_id inp = sid" "en_preempt_child_notifications inp"
    and "c \<in> set (queue_order ws sid db)" "child_notification c"
    and "h \<in> set (queue_order ws sid db)" "t_position c < t_position h"
  shows "\<exists>xs ys. map t_id (queue_order ws sid (fst (enqueueSessionTurn newId now inp db))) = xs @ newId # ys
    \<and> t_id h \<in> set ys \<and> t_id h \<notin> set xs"
proof -
  let ?Q = "queue_order ws sid db"
  obtain m where m: "\<forall>t \<in> set ?Q. child_notification t \<longrightarrow> m \<le> t_position t"
    "queue_ids ws sid (fst (enqueueSessionTurn newId now inp db))
      = map t_id (takeWhile (\<lambda>t. t_position t < m) ?Q) @ newId # map t_id (dropWhile (\<lambda>t. t_position t < m) ?Q)"
    using preempt_order [OF assms(1-7)] by blast
  have h: "\<not> t_position h < m" using m(1) assms(6,7,9) by force
  have split: "?Q = takeWhile (\<lambda>t. t_position t < m) ?Q @ dropWhile (\<lambda>t. t_position t < m) ?Q" by simp
  have "h \<notin> set (takeWhile (\<lambda>t. t_position t < m) ?Q)" using h by (auto dest: set_takeWhileD)
  then have behind: "h \<in> set (dropWhile (\<lambda>t. t_position t < m) ?Q)" using assms(8) split by (metis Un_iff set_append)
  have "distinct (map t_id (takeWhile (\<lambda>t. t_position t < m) ?Q) @ map t_id (dropWhile (\<lambda>t. t_position t < m) ?Q))"
    using queue_order_distinct [OF assms(1)] by (metis map_append takeWhile_dropWhile_id)
  then have "t_id h \<notin> set (map t_id (takeWhile (\<lambda>t. t_position t < m) ?Q))" using behind by auto
  then show ?thesis
    using m(2) behind unfolding queue_ids_def by (metis (no_types, lifting) image_eqI list.set_map)
qed

lemma preemption_overtakes_earlier_human_turn_witness:
  "\<exists>xs ys. queue_ids ''w'' ''s'' (fst (enqueueSessionTurn ''second'' 4 (demo_enqueue (VObj []) True) demo_requeued))
      = xs @ ''second'' # ys \<and> ''first'' \<in> set ys"
proof -
  obtain d h where q: "queue_order ''w'' ''s'' demo_requeued = [d, h]" "t_id h = ''first''" "child_notification d"
    "t_position d < t_position h"
    using demo_requeued_facts(2,4,5) unfolding queue_ids_def by auto
  show ?thesis
    unfolding queue_ids_def
    using preemption_overtakes_earlier_human_turn [OF demo_requeued_facts(1,3), of "demo_enqueue (VObj []) True" "''w''" "''s''" d h 4] q
    by (auto simp: demo_enqueue_def)
qed

subsection \<open>The tool budget\<close>

fun reserves_for :: "uuid \<Rightarrow> turn_op \<Rightarrow> bool" where
  "reserves_for tid (OpReserve ws sid i limit) = (i = tid)"
| "reserves_for tid _ = False"

fun granted :: "turn_op \<Rightarrow> session_db \<Rightarrow> bool" where
  "granted (OpReserve ws sid i limit) db = (snd (reserveToolspaceCallForTurn ws sid i limit db) \<noteq> None)"
| "granted _ db = False"

fun grants :: "uuid \<Rightarrow> turn_op list \<Rightarrow> session_db \<Rightarrow> nat" where
  "grants tid [] db = 0"
| "grants tid (op # ops) db =
     (if reserves_for tid op \<and> granted op db then 1 else 0) + grants tid ops (turn_step op db)"

lemma granted_iff:
  assumes "turns_unique db" "find_turn tid db = Some t" "reserves_for tid op"
  shows "granted op db \<longleftrightarrow> reserves op t"
proof -
  obtain ws sid limit where op: "op = OpReserve ws sid tid limit" using assms(3) by (cases op) auto
  let ?p = "\<lambda>t. turn_of ws sid t \<and> t_id t = tid \<and> t_toolspace_call_count t < limit"
  have "granted op db \<longleftrightarrow> (\<exists>u \<in> set (session_turns db). ?p u)"
    by (cases "List.find ?p (session_turns db)")
       (simp_all add: op reserveToolspaceCallForTurn_def Let_def, auto dest: find_NoneD find_SomeD)
  also have "\<dots> \<longleftrightarrow> ?p t"
  proof
    assume "\<exists>u \<in> set (session_turns db). ?p u"
    then obtain u where u: "u \<in> set (session_turns db)" "?p u" by blast
    then have "find_turn tid db = Some u" by (intro find_turnI [OF assms(1)]) simp_all
    with assms(2) u(2) show "?p t" by simp
  qed (use find_turnD [OF assms(2)] in blast)
  finally show ?thesis by (simp add: op)
qed

lemma reserves_only_for: "reserves op t \<Longrightarrow> t_id t = tid \<Longrightarrow> reserves_for tid op"
  by (cases op) auto

text \<open>
  The tool budget of a turn is exact. However reservations interleave with each other and with
  every other operation of the queue, of \<open>k\<close> reservations with the limit \<open>L\<close> exactly
  \<open>min k (L - used)\<close> are granted, and the turn's count grows by that number.
\<close>

theorem toolspace_budget_exact:
  assumes "turns_unique db" and "admissible turn_step fresh_turn ops db"
    and "find_turn tid db = Some t" and "t_toolspace_call_count t \<le> limit"
    and "\<forall>op \<in> set ops. reserves_for tid op \<longrightarrow> op = OpReserve (t_workspace_id t) (t_session_id t) tid limit"
  shows "int (grants tid ops db) = min (int (length (filter (reserves_for tid) ops))) (limit - t_toolspace_call_count t)
    \<and> (\<exists>u. find_turn tid (run_ops turn_step ops db) = Some u
          \<and> t_toolspace_call_count u = t_toolspace_call_count t + int (grants tid ops db))"
  using assms
proof (induction ops arbitrary: db t)
  case Nil
  then show ?case by auto
next
  case (Cons op ops)
  obtain u where u: "find_turn tid (turn_step op db) = Some u" "turn_change op t u"
    using Cons.prems by (auto intro: turn_step_change)
  have tid: "t_id t = tid" using find_turnD [OF Cons.prems(3)] by simp
  have grant: "reserves op t \<longleftrightarrow> reserves_for tid op \<and> granted op db"
    using granted_iff [OF Cons.prems(1,3)] reserves_only_for [OF _ tid] by blast
  have room: "reserves op t \<longleftrightarrow> reserves_for tid op \<and> t_toolspace_call_count t < limit"
  proof (cases "reserves_for tid op")
    case True
    then have "op = OpReserve (t_workspace_id t) (t_session_id t) tid limit" using Cons.prems(5) by simp
    then show ?thesis by (simp add: turn_of_def tid)
  next
    case False
    then show ?thesis using reserves_only_for [OF _ tid] by blast
  qed
  have count: "t_toolspace_call_count u = t_toolspace_call_count t + (if reserves op t then 1 else 0)"
    "t_workspace_id u = t_workspace_id t" "t_session_id u = t_session_id t"
    using u(2) by (simp_all add: turn_change_def)
  have "int (grants tid ops (turn_step op db)) = min (int (length (filter (reserves_for tid) ops))) (limit - t_toolspace_call_count u)
    \<and> (\<exists>v. find_turn tid (run_ops turn_step ops (turn_step op db)) = Some v
          \<and> t_toolspace_call_count v = t_toolspace_call_count u + int (grants tid ops (turn_step op db)))"
    using Cons.prems count u(1) room by (intro Cons.IH) (auto simp: turn_step_unique)
  then show ?case using count(1) grant room Cons.prems(4) by auto
qed

definition demo_running :: session_db where
  "demo_running = run_ops turn_step [OpEnqueue ''t1'' 1 (demo_enqueue (VObj []) False), OpClaim [] 2 ''w'' ''s'' ''wf''] demo_db"

lemma demo_running_facts:
  "turns_unique demo_running" "map t_id (session_turns demo_running) = [''t1'']"
  "map t_status (session_turns demo_running) = [TRunning]" "map redispatches (session_turns demo_running) = [Inr 0]"
  "map t_toolspace_call_count (session_turns demo_running) = [0]"
  "map t_workspace_id (session_turns demo_running) = [''w'']" "map t_session_id (session_turns demo_running) = [''s'']"
  by code_simp+

lemma demo_running_turn:
  obtains t where "find_turn ''t1'' demo_running = Some t" "t_toolspace_call_count t = 0" "redispatches t = Inr 0"
    "t_status t = TRunning" "t_workspace_id t = ''w''" "t_session_id t = ''s''"
proof -
  obtain t where t: "session_turns demo_running = [t]" using demo_running_facts(2) by auto
  then have "find_turn ''t1'' demo_running = Some t" using demo_running_facts(1,2) by (intro find_turnI) auto
  then show ?thesis using that demo_running_facts(3-7) t by simp
qed

lemma toolspace_budget_exact_witness:
  "grants ''t1'' (replicate 5 (OpReserve ''w'' ''s'' ''t1'' 3)) demo_running = 3"
proof -
  obtain t where t: "find_turn ''t1'' demo_running = Some t" "t_toolspace_call_count t = 0"
    "t_workspace_id t = ''w''" "t_session_id t = ''s''" by (rule demo_running_turn)
  have "admissible turn_step fresh_turn (replicate n (OpReserve ''w'' ''s'' ''t1'' 3)) db" for n db
    by (induction n arbitrary: db) auto
  from toolspace_budget_exact [OF demo_running_facts(1) this t(1), of 3 5] t(2-4) show ?thesis by simp
qed

subsection \<open>Runs and one turn\<close>

lemma run_turn:
  assumes "turns_unique db" "admissible turn_step fresh_turn ops db" "find_turn tid db = Some t" "P t"
    and "\<And>op t u. op \<in> set ops \<Longrightarrow> turn_change op t u \<Longrightarrow> t_id t = tid \<Longrightarrow> P t \<Longrightarrow> P u"
  shows "\<exists>u. find_turn tid (run_ops turn_step ops db) = Some u \<and> P u"
  using assms
proof (induction ops arbitrary: db t)
  case (Cons op ops)
  obtain u where u: "find_turn tid (turn_step op db) = Some u" "turn_change op t u"
    using Cons.prems by (auto intro: turn_step_change)
  have "t_id t = tid" using find_turnD [OF Cons.prems(3)] by simp
  with u(2) Cons.prems(4) have "P u" by (intro Cons.prems(5) [of op t u]) simp_all
  then have "\<exists>v. find_turn tid (run_ops turn_step ops (turn_step op db)) = Some v \<and> P v"
    using Cons.prems u(1) by (intro Cons.IH) (auto simp: turn_step_unique)
  then show ?case by simp
qed auto

lemma dying_refused:
  assumes "turns_unique db" "find_turn tid db = Some t" "t_workspace_id t = ws" "redispatches t = Inr k" "k \<noteq> expected"
  shows "cancelTurnFromDyingDispatch now ws tid expected db = Inr (db, False)"
proof (cases "List.find (\<lambda>t. turn_is ws tid t \<and> t_status t \<in> set live_statuses) (session_turns db)")
  case (Some u)
  then have "find_turn tid db = Some u"
    using find_SomeD [OF Some] by (intro find_turnI [OF assms(1)]) (auto simp: turn_is_def)
  then have "u = t" using assms(2) by simp
  with Some assms(4,5) show ?thesis by (simp add: cancelTurnFromDyingDispatch_def)
qed (simp add: cancelTurnFromDyingDispatch_def)

text \<open>
  C11: the worker-death fence. Once recovery has counted a redispatch of a turn, a dying dispatch
  that started earlier cannot settle that turn, in whatever run of queue operations follows, as long as
  none of them edits the turn's metadata. Such an edit of a requeued turn replaces the counter and opens
  the fence again (\<open>metadata_patch_opens_fence\<close>, \<^verbatim>\<open>index.ts:18298\<close>).
\<close>

theorem dying_dispatch_fenced:
  assumes "turns_unique db" and "find_turn tid db = Some t" and "redispatches t = Inr n" and "expected \<le> n"
    and "admissible turn_step fresh_turn ops (turn_step (OpBump (t_workspace_id t) tid) db)"
    and "\<forall>ws p. OpPatch ws tid p \<in> set ops \<longrightarrow> tp_metadata p = None"
  shows "cancelTurnFromDyingDispatch now (t_workspace_id t) tid expected
      (run_ops turn_step (OpBump (t_workspace_id t) tid # ops) db)
    = Inr (run_ops turn_step (OpBump (t_workspace_id t) tid # ops) db, False)"
proof -
  let ?bump = "OpBump (t_workspace_id t) tid" and ?ws = "t_workspace_id t"
  let ?P = "\<lambda>u. t_workspace_id u = ?ws \<and> (\<exists>k > n. redispatches u = Inr k)"
  obtain u where u: "find_turn tid (turn_step ?bump db) = Some u" "turn_change ?bump t u"
    by (rule turn_step_change [OF assms(1) _ assms(2), of ?bump]) auto
  have bumped: "bumps ?bump t" using find_turnD [OF assms(2)] by (simp add: turn_is_def)
  then have "?P u" using u(2) assms(3) by (auto simp: turn_change_def)
  have kept: "?P v" if "op \<in> set ops" "turn_change op t' v" "t_id t' = tid" "?P t'" for op t' v
  proof (cases "bumps op t'")
    case True
    with that(2,4) show ?thesis by (auto simp: turn_change_def)
  next
    case False
    have "\<not> patches_metadata op t'" using assms(6) that(1,3) by (cases op) (auto simp: turn_is_def)
    with False that(2,4) show ?thesis by (auto simp: turn_change_def redispatches_def)
  qed
  have un: "turns_unique (turn_step ?bump db)" using assms(1) by (intro turn_step_unique) auto
  obtain v where v: "find_turn tid (run_ops turn_step ops (turn_step ?bump db)) = Some v" "?P v"
    using run_turn [OF un assms(5) u(1), of ?P] kept \<open>?P u\<close> by blast
  have "turns_unique (run_ops turn_step ops (turn_step ?bump db))" using un assms(5) by (rule turn_run.run_inv)
  with v assms(4) show ?thesis by (auto intro!: dying_refused)
qed

lemma dying_dispatch_fenced_witness:
  "cancelTurnFromDyingDispatch 9 ''w'' ''t1'' 0
      (run_ops turn_step [OpBump ''w'' ''t1'', OpRequeue ''w'' ''t1'' ''e'' live_statuses, OpClaim [] 3 ''w'' ''s'' ''wf''] demo_running)
   = Inr (run_ops turn_step [OpBump ''w'' ''t1'', OpRequeue ''w'' ''t1'' ''e'' live_statuses, OpClaim [] 3 ''w'' ''s'' ''wf''] demo_running, False)"
proof -
  obtain t where t: "find_turn ''t1'' demo_running = Some t" "redispatches t = Inr 0" "t_workspace_id t = ''w''"
    by (rule demo_running_turn)
  show ?thesis
    using dying_dispatch_fenced [OF demo_running_facts(1) t(1,2), of 0
        "[OpRequeue ''w'' ''t1'' ''e'' live_statuses, OpClaim [] 3 ''w'' ''s'' ''wf'']" 9] t(3) by simp
qed

text \<open>An edit of a requeued turn that carries metadata replaces the counter and opens the fence.\<close>

definition empty_metadata_patch :: turn_patch where
  "empty_metadata_patch = \<lparr>tp_prompt = None, tp_resources = None, tp_tools = None, tp_model = None,
     tp_reasoning_effort = None, tp_sandbox_backend = None, tp_metadata = Some (VObj [])\<rparr>"

lemma metadata_patch_opens_fence:
  "snd (projr (cancelTurnFromDyingDispatch 9 ''w'' ''t1'' 0
      (run_ops turn_step [OpBump ''w'' ''t1'', OpRequeue ''w'' ''t1'' ''e'' live_statuses,
         OpPatch ''w'' ''t1'' empty_metadata_patch, OpClaim [] 3 ''w'' ''s'' ''wf''] demo_running)))"
  by code_simp

text \<open>
  Stop means stop. Cancelling the queue empties it and returns exactly the turns that were in
  it; every other turn is as before, nothing is left to claim, and a second stop finds nothing.
\<close>

theorem stop_drains_the_queue:
  "let (db', ids) = cancelQueuedSessionTurns now ws sid db in
     mset ids = mset (map t_id (queue_order ws sid db))
     \<and> session_turns db' = map (\<lambda>t. if queued_in ws sid t then cancelRow now t else t) (session_turns db)
     \<and> queue_order ws sid db' = []
     \<and> claimNextQueuedTurn locked later ws sid wid db' = (db', None)
     \<and> snd (cancelQueuedSessionTurns later ws sid db') = []"
proof -
  let ?db = "update_turn (queued_in ws sid) (cancelRow now) db"
  have none: "select_where (queued_in ws sid) (session_turns ?db) = []"
    by (auto simp: select_where_def filter_empty_conv update_where_def queued_in_def)
  then have "queue_order ws sid ?db = []" by (simp add: queue_order_def)
  with none show ?thesis
    by (simp add: cancelQueuedSessionTurns_def update_where_def claimNextQueuedTurn_def queue_order_def split: option.splits)
qed

text \<open>
  A settled turn stays settled. In every run in which nobody finishes the turn again and it is
  requeued from the live statuses only, a completed, failed or cancelled turn keeps its status and
  is not in the queue.
\<close>

theorem settled_turn_never_runs_again:
  assumes "turns_unique db" and "find_turn tid db = Some t" and "settled (t_status t)"
    and "admissible turn_step fresh_turn ops db"
    and "\<forall>now ws st. OpFinish now ws tid st \<notin> set ops"
    and "\<forall>ws trig from. OpRequeue ws tid trig from \<in> set ops \<longrightarrow> set from \<subseteq> set live_statuses"
  shows "(\<exists>u. find_turn tid (run_ops turn_step ops db) = Some u \<and> t_status u = t_status t)
    \<and> tid \<notin> t_id ` set (queue_order ws sid (run_ops turn_step ops db))"
proof -
  let ?db = "run_ops turn_step ops db"
  have "t_status v = t_status t" if "op \<in> set ops" "turn_change op u v" "t_id u = tid" "t_status u = t_status t" for op u v
  proof -
    note given = that
    have "\<not> reopens op u"
    proof
      assume "reopens op u"
      then consider (finish) now ws st where "op = OpFinish now ws tid st"
        | (requeue) ws trig sts where "op = OpRequeue ws tid trig sts" "t_status t \<in> set sts"
        using given(3,4) by (cases op) (auto simp: turn_is_def)
      then show False
      proof cases
        case finish
        with assms(5) given(1) show ?thesis by simp
      next
        case requeue
        with assms(6) given(1) have "t_status t \<in> set live_statuses" by blast
        with assms(3) show ?thesis by (auto simp: settled_def live_statuses_def)
      qed
    qed
    then show ?thesis using that(2,4) assms(3) by (simp add: turn_change_def)
  qed
  then obtain u where u: "find_turn tid ?db = Some u" "t_status u = t_status t"
    using run_turn [OF assms(1,4,2), of "\<lambda>u. t_status u = t_status t"] by blast
  have un: "turns_unique ?db" using assms(1,4) by (rule turn_run.run_inv)
  have "tid \<notin> t_id ` set (queue_order ws sid ?db)"
  proof
    assume "tid \<in> t_id ` set (queue_order ws sid ?db)"
    then obtain v where v: "v \<in> set (session_turns ?db)" "t_id v = tid" "t_status v = TQueued"
      by (auto simp: set_queue_order queued_in_def)
    then have "find_turn tid ?db = Some v" using un by (intro find_turnI) auto
    with u v(3) assms(3) show False by (simp add: settled_def)
  qed
  with u show ?thesis by blast
qed

lemma settled_turn_never_runs_again_witness:
  "''t1'' \<notin> t_id ` set (queue_order ''w'' ''s''
     (run_ops turn_step [OpRequeue ''w'' ''t1'' ''e'' live_statuses, OpCancelAll 5 ''w'' ''s'', OpClaim [] 6 ''w'' ''s'' ''wf'']
       (finishTurn 3 ''w'' ''t1'' FinCompleted demo_running)))"
proof -
  let ?db = "finishTurn 3 ''w'' ''t1'' FinCompleted demo_running"
  have un: "turns_unique ?db" and rows: "map t_id (session_turns ?db) = [''t1'']" "map t_status (session_turns ?db) = [TCompleted]"
    by code_simp+
  then obtain t where t: "session_turns ?db = [t]" "t_id t = ''t1''" "t_status t = TCompleted" by auto
  then have f: "find_turn ''t1'' ?db = Some t" using un by (intro find_turnI) auto
  show ?thesis
    using settled_turn_never_runs_again [OF un f, of "[OpRequeue ''w'' ''t1'' ''e'' live_statuses, OpCancelAll 5 ''w'' ''s'', OpClaim [] 6 ''w'' ''s'' ''wf'']"]
      t(3) by (simp add: settled_def)
qed

end
