(* ===== verification/Goals_Props.thy ===== *)
theory Goals_Props
  imports Goals Turn_Queue_Props
begin

text \<open>
  The properties of goals: what blocks a continuation, the continuation budget, the stall detector
  and the race between a continuation and a stop.
\<close>

subsection \<open>Goal rows\<close>

lemma get_update_goal:
  assumes "\<And>g. goal_of ws sid (f g) = goal_of ws sid g"
  shows "getSessionGoal ws sid (update_goal gid f db)
    = map_option (\<lambda>g. if g_id g = gid then f g else g) (getSessionGoal ws sid db)"
  unfolding getSessionGoal_def update_goal_def using assms by (simp add: find_update_where)

lemma goal_rows_kept [simp]:
  "goal_of ws sid (pauseRow r x a s g) = goal_of ws sid g" "goal_of ws sid (continueRow a s g) = goal_of ws sid g"
  "goal_of ws sid (setStatusRow i g) = goal_of ws sid g" "goal_of ws sid (replaceGoal j g) = goal_of ws sid g"
  by (simp_all add: goal_of_def pauseRow_def continueRow_def setStatusRow_def replaceGoal_def Let_def split: goal_status.splits)

lemma pauseRow_fields [simp]:
  "g_id (pauseRow r x a s g) = g_id g" "g_status (pauseRow r x a s g) = GPaused"
  "g_auto_continuations (pauseRow r x a s g) = a" "g_no_progress_streak (pauseRow r x a s g) = s"
  "g_max_auto_continuations (pauseRow r x a s g) = g_max_auto_continuations g"
  by (simp_all add: pauseRow_def)

lemma continueRow_fields [simp]:
  "g_id (continueRow a s g) = g_id g" "g_status (continueRow a s g) = g_status g"
  "g_auto_continuations (continueRow a s g) = a" "g_no_progress_streak (continueRow a s g) = s"
  "g_max_auto_continuations (continueRow a s g) = g_max_auto_continuations g"
  "g_version (continueRow a s g) = g_version g"
  by (simp_all add: continueRow_def)

lemma update_goal_other [simp]:
  "session_turns (update_goal gid f db) = session_turns db" "sessions (update_goal gid f db) = sessions db"
  "session_events (update_goal gid f db) = session_events db"
  by (simp_all add: update_goal_def)

text \<open>The decision, case by case, on an active goal with no pending turn.\<close>

lemma evaluate_cases:
  assumes "getSessionGoal ws sid db = Some g" "g_status g = GActive" "blocking_turns ws sid db = []"
    and "ci_workspace_id inp = ws" "ci_session_id inp = sid"
    and "continuationCounters ws sid g db = (auto, streak, rotated)"
  obtains (paused) reason rationale where
      "evaluateGoalContinuation pick inp db =
        (update_goal (g_id g) (pauseRow reason rationale auto streak) db, DecidePaused reason (pauseRow reason rationale auto streak g))"
  | (continue) nxt cap where
      "evaluateGoalContinuation pick inp db =
        (update_goal (g_id g) (continueRow nxt streak) db, DecideContinue (continueRow nxt streak g) nxt cap)"
      "streak < ci_no_progress_limit inp" "cap = capOf (g_max_auto_continuations g) (ci_default_max inp)"
      "\<forall>c. cap = Some c \<longrightarrow> auto < c" "nxt = auto + (if rotated then 0 else 1)"
proof -
  note eval = evaluateGoalContinuation_def [of pick inp db] assms
  show thesis
  proof (cases "ci_no_progress_limit inp \<le> streak")
    case True
    then show ?thesis by (intro paused) (simp add: eval Let_def)
  next
    case False
    show ?thesis
    proof (cases "case capOf (g_max_auto_continuations g) (ci_default_max inp) of None \<Rightarrow> False | Some c \<Rightarrow> c \<le> auto")
      case True
      with False show ?thesis by (intro paused) (simp add: eval Let_def)
    next
      case under: False
      show ?thesis
      proof (cases "ci_budget_blocked inp = None \<or> ci_budget_blocked inp = Some []")
        case True
        then show ?thesis using False under
          by (intro continue) (auto simp: eval Let_def split: option.splits)
      next
        case blocked: False
        then obtain c cs where "ci_budget_blocked inp = Some (c # cs)" by (metis neq_Nil_conv option.exhaust)
        with False under show ?thesis by (intro paused) (simp add: eval Let_def)
      qed
    qed
  qed
qed

lemma evaluate_blocked:
  assumes "blocking_turns (ci_workspace_id inp) (ci_session_id inp) db \<noteq> []"
  shows "fst (evaluateGoalContinuation pick inp db) = db"
    and "snd (evaluateGoalContinuation pick inp db) \<in> {DecideNone, DecideQueue}"
  using assms by (auto simp: evaluateGoalContinuation_def Let_def split: option.splits)

lemma evaluate_inactive:
  assumes "\<forall>g. getSessionGoal (ci_workspace_id inp) (ci_session_id inp) db = Some g \<longrightarrow> g_status g \<noteq> GActive"
  shows "evaluateGoalContinuation pick inp db = (db, DecideNone)"
  using assms by (auto simp: evaluateGoalContinuation_def Let_def split: option.splits)

fun is_continue :: "continuation_decision \<Rightarrow> bool" where
  "is_continue (DecideContinue _ _ _) = True"
| "is_continue _ = False"

text \<open>
  Pending work wins. While the session has a turn that is queued, running or waiting for an
  approval, the decision is \<open>queue\<close> or \<open>none\<close> and changes nothing; \<open>queue\<close> only when there is a
  turn to claim.
\<close>

theorem pending_work_blocks_continuation:
  assumes "blocking_turns (ci_workspace_id inp) (ci_session_id inp) db \<noteq> []"
    and "\<forall>ts. ts \<noteq> [] \<longrightarrow> pick ts \<in> set ts"
  shows "fst (evaluateGoalContinuation pick inp db) = db
    \<and> (snd (evaluateGoalContinuation pick inp db) = DecideNone
       \<or> snd (evaluateGoalContinuation pick inp db) = DecideQueue
         \<and> queue_order (ci_workspace_id inp) (ci_session_id inp) db \<noteq> [])"
proof -
  let ?ts = "blocking_turns (ci_workspace_id inp) (ci_session_id inp) db"
  have "queue_order (ci_workspace_id inp) (ci_session_id inp) db \<noteq> []" if "t_status (pick ?ts) = TQueued"
  proof -
    have "pick ?ts \<in> set ?ts" using assms by blast
    with that have "pick ?ts \<in> set (queue_order (ci_workspace_id inp) (ci_session_id inp) db)"
      by (auto simp: set_queue_order queued_in_def blocking_turns_def set_select_where)
    then show ?thesis by auto
  qed
  then show ?thesis
    using assms(1) evaluate_blocked [OF assms(1), of pick]
    by (auto simp: evaluateGoalContinuation_def Let_def split: option.splits)
qed

definition demo_goal :: goal_row where
  "demo_goal = \<lparr>g_id = ''g'', g_account_id = ''a'', g_workspace_id = ''w'', g_session_id = ''s'', g_status = GActive,
     g_text = u16 ''ship'', g_success_criteria = None, g_evidence = None, g_rationale = None, g_paused_reason = None,
     g_created_by = CreatedByApi, g_version = 1, g_auto_continuations = 0, g_no_progress_streak = 0,
     g_max_auto_continuations = Some 2, g_last_continuation_turn_id = None, g_version_at_last_continuation = None\<rparr>"

definition demo_continuation :: continuation_input where
  "demo_continuation = \<lparr>ci_workspace_id = ''w'', ci_session_id = ''s'', ci_default_max = None,
     ci_no_progress_limit = 2, ci_budget_blocked = None\<rparr>"

definition demo_goal_db :: session_db where
  "demo_goal_db = demo_db\<lparr>session_goals := [demo_goal]\<rparr>"

lemma pending_work_blocks_continuation_witness:
  "fst (evaluateGoalContinuation hd demo_continuation (enqueue_call (''t1'', 1, demo_enqueue (VObj []) False) demo_goal_db))
   = enqueue_call (''t1'', 1, demo_enqueue (VObj []) False) demo_goal_db"
proof -
  have "blocking_turns (ci_workspace_id demo_continuation) (ci_session_id demo_continuation)
      (enqueue_call (''t1'', 1, demo_enqueue (VObj []) False) demo_goal_db) \<noteq> []" by code_simp
  moreover have "\<forall>ts. ts \<noteq> [] \<longrightarrow> (hd ts :: turn_row) \<in> set ts" by simp
  ultimately show ?thesis using pending_work_blocks_continuation by blast
qed

subsection \<open>Runs of decisions\<close>

text \<open>
  A run of continuation decisions: before each one the rest of the program does whatever it does
  (the continuation turn runs, users edit the goal).
\<close>

fun decide_run ::
    "(turn_row list \<Rightarrow> turn_row) \<Rightarrow> continuation_input \<Rightarrow> (session_db \<Rightarrow> session_db) list \<Rightarrow> session_db
      \<Rightarrow> session_db \<times> continuation_decision list" where
  "decide_run pick inp [] db = (db, [])"
| "decide_run pick inp (env # envs) db =
     (let (db1, d) = evaluateGoalContinuation pick inp (env db);
          (db2, ds) = decide_run pick inp envs db1
      in (db2, d # ds))"

fun decide_run_ok ::
    "(session_db \<Rightarrow> session_db \<Rightarrow> bool) \<Rightarrow> (turn_row list \<Rightarrow> turn_row) \<Rightarrow> continuation_input
      \<Rightarrow> (session_db \<Rightarrow> session_db) list \<Rightarrow> session_db \<Rightarrow> bool" where
  "decide_run_ok ok pick inp [] db = True"
| "decide_run_ok ok pick inp (env # envs) db =
     (ok db (env db) \<and> decide_run_ok ok pick inp envs (fst (evaluateGoalContinuation pick inp (env db))))"

text \<open>Nobody but the goal worked on the session: the turn that finished last is its last continuation.\<close>

definition unattended :: "uuid \<Rightarrow> uuid \<Rightarrow> session_db \<Rightarrow> bool" where
  "unattended ws sid db =
     (case getSessionGoal ws sid db of
        None \<Rightarrow> True
      | Some g \<Rightarrow>
          (case g_last_continuation_turn_id g of
             None \<Rightarrow> True
           | Some tid \<Rightarrow> (case lastFinishedTurn ws sid db of None \<Rightarrow> True | Some t \<Rightarrow> t_id t = tid)))"

text \<open>The continuation that finished last failed over to another account, so the next one is free.\<close>

definition failed_over :: "uuid \<Rightarrow> uuid \<Rightarrow> session_db \<Rightarrow> bool" where
  "failed_over ws sid db =
     (case getSessionGoal ws sid db of None \<Rightarrow> False | Some g \<Rightarrow> snd (snd (continuationCounters ws sid g db)))"

text \<open>The continuations of a run that are synthesized after such a failover.\<close>

fun free_continuations ::
    "(turn_row list \<Rightarrow> turn_row) \<Rightarrow> continuation_input \<Rightarrow> (session_db \<Rightarrow> session_db) list \<Rightarrow> session_db \<Rightarrow> nat" where
  "free_continuations pick inp [] db = 0"
| "free_continuations pick inp (env # envs) db =
     (let (db1, d) = evaluateGoalContinuation pick inp (env db) in
      (if is_continue d \<and> failed_over (ci_workspace_id inp) (ci_session_id inp) (env db) then 1 else 0)
      + free_continuations pick inp envs db1)"

definition budget_of :: "goal_row \<Rightarrow> int \<times> int option" where
  "budget_of g = (g_auto_continuations g, g_max_auto_continuations g)"

definition quiet :: "uuid \<Rightarrow> uuid \<Rightarrow> session_db \<Rightarrow> session_db \<Rightarrow> bool" where
  "quiet ws sid db db' \<longleftrightarrow> unattended ws sid db'
     \<and> map_option budget_of (getSessionGoal ws sid db') = map_option budget_of (getSessionGoal ws sid db)"

lemma unattended_counters:
  assumes "unattended ws sid db" "getSessionGoal ws sid db = Some g"
  shows "\<exists>streak. continuationCounters ws sid g db = (g_auto_continuations g, streak, failed_over ws sid db)"
  using assms by (auto simp: unattended_def failed_over_def continuationCounters_def split: option.splits)

lemma unattended_step:
  assumes "unattended ws sid db" "getSessionGoal ws sid db = Some g"
    and "ci_workspace_id inp = ws" "ci_session_id inp = sid"
  obtains g' where "getSessionGoal ws sid (fst (evaluateGoalContinuation pick inp db)) = Some g'"
    "g_max_auto_continuations g' = g_max_auto_continuations g"
    "g_auto_continuations g' = g_auto_continuations g
       + (if is_continue (snd (evaluateGoalContinuation pick inp db)) \<and> \<not> failed_over ws sid db then 1 else 0)"
    "\<forall>c. is_continue (snd (evaluateGoalContinuation pick inp db))
       \<and> capOf (g_max_auto_continuations g) (ci_default_max inp) = Some c \<longrightarrow> g_auto_continuations g < c"
proof (cases "g_status g = GActive \<and> blocking_turns ws sid db = []")
  case False
  then have "fst (evaluateGoalContinuation pick inp db) = db" "\<not> is_continue (snd (evaluateGoalContinuation pick inp db))"
    using assms by (auto simp: evaluateGoalContinuation_def Let_def)
  with assms(2) show ?thesis by (intro that [of g]) auto
next
  case True
  from unattended_counters [OF assms(1,2)] obtain streak where
    cnt: "continuationCounters ws sid g db = (g_auto_continuations g, streak, failed_over ws sid db)" ..
  from assms(2) True [THEN conjunct1] True [THEN conjunct2] assms(3,4) cnt show ?thesis
  proof (cases rule: evaluate_cases [where pick = pick])
    case (paused reason rationale)
    then show ?thesis
      using assms(2) by (intro that [of "pauseRow reason rationale (g_auto_continuations g) streak g"]) (simp_all add: get_update_goal)
  next
    case (continue nxt cap)
    then show ?thesis
      using assms(2) by (intro that [of "continueRow nxt streak g"]) (simp_all add: get_update_goal)
  qed
qed

text \<open>
  C12: the continuation budget. However long the session runs unattended (the turn that finished last
  is always the goal's own, and nobody edits the goal's counter or cap), with a cap \<open>c\<close> (the smaller of
  the goal's own and the configured one) at most \<open>c\<close> minus those already used turns are synthesized,
  beside one for each continuation that failed over to another account: those are not counted. Once the
  cap is used up none is synthesized, failovers or not.
\<close>

theorem continuations_bounded:
  assumes "getSessionGoal ws sid db = Some g" and "ci_workspace_id inp = ws" "ci_session_id inp = sid"
    and "capOf (g_max_auto_continuations g) (ci_default_max inp) = Some c"
    and "decide_run_ok (quiet ws sid) pick inp envs db"
  shows "int (length (filter is_continue (snd (decide_run pick inp envs db))))
      \<le> max 0 (c - g_auto_continuations g) + int (free_continuations pick inp envs db)
    \<and> (c \<le> g_auto_continuations g \<longrightarrow> filter is_continue (snd (decide_run pick inp envs db)) = [])"
  using assms
proof (induction envs arbitrary: db g)
  case (Cons env envs)
  let ?r = "evaluateGoalContinuation pick inp (env db)"
  from Cons.prems(1,5) obtain h where h: "getSessionGoal ws sid (env db) = Some h" "budget_of h = budget_of g"
    "unattended ws sid (env db)" by (auto simp: quiet_def)
  then have same: "g_auto_continuations h = g_auto_continuations g" "g_max_auto_continuations h = g_max_auto_continuations g"
    by (simp_all add: budget_of_def)
  obtain g' where g': "getSessionGoal ws sid (fst ?r) = Some g'" "g_max_auto_continuations g' = g_max_auto_continuations h"
    "g_auto_continuations g' = g_auto_continuations h + (if is_continue (snd ?r) \<and> \<not> failed_over ws sid (env db) then 1 else 0)"
    "\<forall>c. is_continue (snd ?r) \<and> capOf (g_max_auto_continuations h) (ci_default_max inp) = Some c \<longrightarrow> g_auto_continuations h < c"
    by (rule unattended_step [OF h(3,1) Cons.prems(2,3)])
  have "int (length (filter is_continue (snd (decide_run pick inp envs (fst ?r)))))
        \<le> max 0 (c - g_auto_continuations g') + int (free_continuations pick inp envs (fst ?r))
      \<and> (c \<le> g_auto_continuations g' \<longrightarrow> filter is_continue (snd (decide_run pick inp envs (fst ?r))) = [])"
    using Cons.prems g' same by (intro Cons.IH) auto
  then show ?case using g'(3,4) same Cons.prems(2-4) by (auto simp: split_beta Let_def)
qed simp

text \<open>What happens between two decisions: the continuation turn is admitted, runs and is finished.\<close>

definition demo_round :: "uuid \<Rightarrow> session_db \<Rightarrow> session_db" where
  "demo_round tid db = finishTurn 9 ''w'' tid FinIdle (fst (claimNextQueuedTurn [] 8 ''w'' ''s'' ''wf''
     (setSessionGoalLastContinuationTurn ''w'' ''s'' tid (enqueue_call (tid, 7, demo_enqueue (VObj []) False) db))))"

definition demo_failover :: "uuid \<Rightarrow> session_db \<Rightarrow> session_db" where
  "demo_failover tid db = (case appendSessionEvents (\<lambda>n. ''e'' @ tid) 9 ''w'' ''s''
       [(goal_event ''turn.failed'' [(''rotated'', VBool True)])\<lparr>ap_turn_id := Some tid\<rparr>] (demo_round tid db) of
     Inl _ \<Rightarrow> db | Inr (db', _) \<Rightarrow> db')"

definition demo_budget :: continuation_input where
  "demo_budget = demo_continuation\<lparr>ci_no_progress_limit := 9\<rparr>"

lemma continuations_bounded_witness:
  "let rounds = [\<lambda>db. db, demo_failover ''t1'', demo_round ''t2'', demo_round ''t3'', demo_round ''t4''] in
     length (filter is_continue (snd (decide_run hd demo_budget rounds demo_goal_db))) = 3
     \<and> free_continuations hd demo_budget rounds demo_goal_db = 1
     \<and> int (length (filter is_continue (snd (decide_run hd demo_budget rounds demo_goal_db))))
         \<le> max 0 (2 - 0) + int (free_continuations hd demo_budget rounds demo_goal_db)"
proof -
  let ?rounds = "[\<lambda>db. db, demo_failover ''t1'', demo_round ''t2'', demo_round ''t3'', demo_round ''t4'']"
  have ok: "decide_run_ok (quiet ''w'' ''s'') hd demo_budget ?rounds demo_goal_db" by code_simp
  have g: "getSessionGoal ''w'' ''s'' demo_goal_db = Some demo_goal" by code_simp
  have n: "length (filter is_continue (snd (decide_run hd demo_budget ?rounds demo_goal_db))) = 3" by code_simp
  have f: "free_continuations hd demo_budget ?rounds demo_goal_db = 1" by code_simp
  have w: "ci_workspace_id demo_budget = ''w''" "ci_session_id demo_budget = ''s''"
      "capOf (g_max_auto_continuations demo_goal) (ci_default_max demo_budget) = Some 2" "g_auto_continuations demo_goal = 0"
    by (simp_all add: demo_budget_def demo_continuation_def demo_goal_def capOf_def)
  show ?thesis
    unfolding Let_def
    using continuations_bounded [OF g w(1-3) ok, THEN conjunct1] n f by (simp only: w(4))
qed

text \<open>The goal's last continuation turn finished, called no tool, revised nothing and met no backpressure.\<close>

definition stalled :: "uuid \<Rightarrow> uuid \<Rightarrow> session_db \<Rightarrow> bool" where
  "stalled ws sid db =
     (case getSessionGoal ws sid db of
        None \<Rightarrow> False
      | Some g \<Rightarrow>
          g_status g = GActive \<longrightarrow> blocking_turns ws sid db = []
            \<and> (case (g_last_continuation_turn_id g, lastFinishedTurn ws sid db) of
                 (Some tid, Some t) \<Rightarrow> t_id t = tid \<and> \<not> goal_revised g
                   \<and> turn_events ws tid ''agent.toolCall.created'' (\<lambda>_. True) db = 0
                   \<and> turn_events ws tid ''turn.failed'' (payload_text_is ''recovery'' ''goal_continuation'') db = 0
               | _ \<Rightarrow> False))"

definition progress_of :: "goal_row \<Rightarrow> goal_status \<times> int" where
  "progress_of g = (g_status g, g_no_progress_streak g)"

definition stalls :: "uuid \<Rightarrow> uuid \<Rightarrow> session_db \<Rightarrow> session_db \<Rightarrow> bool" where
  "stalls ws sid db db' \<longleftrightarrow> stalled ws sid db'
     \<and> map_option progress_of (getSessionGoal ws sid db') = map_option progress_of (getSessionGoal ws sid db)"

lemma stalled_counters:
  assumes "stalled ws sid db" "getSessionGoal ws sid db = Some g" "g_status g = GActive"
  shows "blocking_turns ws sid db = []
    \<and> (\<exists>auto rotated. continuationCounters ws sid g db = (auto, g_no_progress_streak g + 1, rotated))"
  using assms by (auto simp: stalled_def continuationCounters_def continuation_streak_def split: option.splits)

lemma stalled_step:
  assumes "stalled ws sid db" "getSessionGoal ws sid db = Some g" "g_status g = GActive"
    and "ci_workspace_id inp = ws" "ci_session_id inp = sid"
  obtains g' where "getSessionGoal ws sid (fst (evaluateGoalContinuation pick inp db)) = Some g'"
    "g_status g' = GPaused
     \<or> g_status g' = GActive \<and> g_no_progress_streak g' = g_no_progress_streak g + 1
       \<and> g_no_progress_streak g + 1 < ci_no_progress_limit inp"
proof -
  from stalled_counters [OF assms(1-3)] obtain auto rotated where
    none: "blocking_turns ws sid db = []" and
    cnt: "continuationCounters ws sid g db = (auto, g_no_progress_streak g + 1, rotated)" by blast
  from assms(2,3) none assms(4,5) cnt show ?thesis
  proof (cases rule: evaluate_cases [where pick = pick])
    case (paused reason rationale)
    then show ?thesis
      using assms(2) by (intro that [of "pauseRow reason rationale auto (g_no_progress_streak g + 1) g"]) (simp_all add: get_update_goal)
  next
    case (continue nxt cap)
    then show ?thesis
      using assms(2,3) by (intro that [of "continueRow nxt (g_no_progress_streak g + 1) g"]) (simp_all add: get_update_goal)
  qed
qed

lemma paused_stays_paused:
  assumes "getSessionGoal ws sid db = Some g" "g_status g = GPaused"
    and "ci_workspace_id inp = ws" "ci_session_id inp = sid" "decide_run_ok (stalls ws sid) pick inp envs db"
  shows "\<exists>g'. getSessionGoal ws sid (fst (decide_run pick inp envs db)) = Some g' \<and> g_status g' = GPaused"
  using assms
proof (induction envs arbitrary: db g)
  case (Cons env envs)
  from Cons.prems(1,2,5) obtain h where h: "getSessionGoal ws sid (env db) = Some h" "g_status h = GPaused"
    by (auto simp: stalls_def progress_of_def)
  then have "evaluateGoalContinuation pick inp (env db) = (env db, DecideNone)"
    using Cons.prems(3,4) by (intro evaluate_inactive) simp
  with Cons.IH [OF h Cons.prems(3,4)] Cons.prems(5) show ?case by (simp add: split_beta)
qed auto

text \<open>
  C13: a stalled goal stops. If every continuation turn finishes without a tool call, a revision of
  the goal or provider backpressure, the goal is paused after at most as many decisions as its
  no-progress streak is short of the limit, and stays paused.
\<close>

theorem stalled_goal_is_paused:
  assumes "getSessionGoal ws sid db = Some g" and "g_status g = GActive"
    and "ci_workspace_id inp = ws" "ci_session_id inp = sid"
    and "decide_run_ok (stalls ws sid) pick inp envs db"
    and "envs \<noteq> []" and "ci_no_progress_limit inp \<le> g_no_progress_streak g + int (length envs)"
  shows "\<exists>g'. getSessionGoal ws sid (fst (decide_run pick inp envs db)) = Some g' \<and> g_status g' = GPaused"
  using assms
proof (induction envs arbitrary: db g)
  case (Cons env envs)
  let ?db = "fst (evaluateGoalContinuation pick inp (env db))"
  have ok: "decide_run_ok (stalls ws sid) pick inp envs ?db" using Cons.prems(5) by simp
  have run: "fst (decide_run pick inp (env # envs) db) = fst (decide_run pick inp envs ?db)" by (simp add: split_beta)
  from Cons.prems(1,2,5) obtain h where h: "getSessionGoal ws sid (env db) = Some h" "g_status h = GActive"
    "g_no_progress_streak h = g_no_progress_streak g" "stalled ws sid (env db)" by (auto simp: stalls_def progress_of_def)
  obtain g' where g': "getSessionGoal ws sid ?db = Some g'"
    "g_status g' = GPaused \<or> g_status g' = GActive \<and> g_no_progress_streak g' = g_no_progress_streak g + 1
       \<and> g_no_progress_streak g + 1 < ci_no_progress_limit inp"
    using stalled_step [OF h(4,1,2) Cons.prems(3,4), of pick] h(3) by metis
  show ?case
  proof (cases "g_status g' = GPaused")
    case True
    then show ?thesis unfolding run using paused_stays_paused [OF g'(1) True Cons.prems(3,4) ok] by blast
  next
    case False
    then have "envs \<noteq> []" "ci_no_progress_limit inp \<le> g_no_progress_streak g' + int (length envs)"
      using g'(2) Cons.prems(7) by auto
    then show ?thesis unfolding run using Cons.IH [OF g'(1) _ Cons.prems(3,4) ok] False g'(2) by blast
  qed
qed simp

lemma stalled_goal_is_paused_witness:
  "\<exists>g'. getSessionGoal ''w'' ''s'' (fst (decide_run hd demo_continuation [demo_round ''t1'', demo_round ''t2''] demo_goal_db)) = Some g'
     \<and> g_status g' = GPaused"
proof (rule stalled_goal_is_paused)
  show "getSessionGoal ''w'' ''s'' demo_goal_db = Some demo_goal" by code_simp
  show "decide_run_ok (stalls ''w'' ''s'') hd demo_continuation [demo_round ''t1'', demo_round ''t2''] demo_goal_db"
    by code_simp
qed (simp_all add: demo_goal_def demo_continuation_def)

subsection \<open>A stop against a continuation in flight\<close>

text \<open>What an operator, the agent's goal tools or an interrupt do to a goal, and the version they leave.\<close>

datatype goal_op =
    GoalStatus uuid uuid goal_status_input
  | GoalUpdate uuid uuid "jstr option" "jstr option option"
  | GoalUpsert uuid goal_input

fun goal_step :: "goal_op \<Rightarrow> session_db \<Rightarrow> session_db" where
  "goal_step (GoalStatus ws sid inp) db = committed fst db (setSessionGoalStatus ws sid inp db)"
| "goal_step (GoalUpdate ws sid t c) db = committed fst db (updateSessionGoal ws sid t c db)"
| "goal_step (GoalUpsert newId inp) db = fst (upsertSessionGoal newId inp db)"

text \<open>The operations on the session's goal that a continuation must lose to.\<close>

fun overrides :: "uuid \<Rightarrow> uuid \<Rightarrow> goal_op \<Rightarrow> bool" where
  "overrides ws sid (GoalStatus w s inp) \<longleftrightarrow> w = ws \<and> s = sid \<and> gs_status inp \<noteq> GActive"
| "overrides ws sid (GoalUpdate w s t c) \<longleftrightarrow> w = ws \<and> s = sid"
| "overrides ws sid (GoalUpsert newId inp) \<longleftrightarrow> gi_workspace_id inp = ws \<and> gi_session_id inp = sid"

lemma setStatusRow_status: "g_status (setStatusRow inp g) = gs_status inp"
  by (simp add: setStatusRow_def Let_def split: goal_status.splits)

lemma replaceGoal_version: "g_version (replaceGoal inp g) = g_version g + 1"
  by (simp add: replaceGoal_def)

lemma override_outdates:
  assumes "getSessionGoal ws sid db = Some g" "overrides ws sid op"
  shows "case getSessionGoal ws sid (goal_step op db) of
      None \<Rightarrow> True | Some r \<Rightarrow> g_status r \<noteq> GActive \<or> g_version r = g_version g + 1"
proof -
  have "\<exists>r. getSessionGoal ws sid (goal_step op db) = Some r \<and> (g_status r \<noteq> GActive \<or> g_version r = g_version g + 1)"
  proof (cases op)
    case (GoalStatus w s inp)
    with assms show ?thesis
      by (auto simp: setSessionGoalStatus_def committed_def get_update_goal setStatusRow_status)
  next
    case (GoalUpdate w s t c)
    let ?f = "\<lambda>g. g\<lparr>g_text := or_else t (g_text g), g_success_criteria := or_else c (g_success_criteria g),
         g_version := g_version g + 1, g_no_progress_streak := 0\<rparr>"
    have "List.find (goal_of ws sid) (update_where (goal_of ws sid) ?f (session_goals db))
        = map_option (\<lambda>g. if goal_of ws sid g then ?f g else g) (List.find (goal_of ws sid) (session_goals db))"
      by (rule find_update_where) (simp add: goal_of_def)
    with assms GoalUpdate find_SomeD [OF assms(1) [unfolded getSessionGoal_def]] show ?thesis
      by (auto simp: updateSessionGoal_def committed_def Let_def getSessionGoal_def)
  next
    case (GoalUpsert newId inp)
    with assms show ?thesis
      by (auto simp: upsertSessionGoal_def get_update_goal replaceGoal_version)
  qed
  then show "case getSessionGoal ws sid (goal_step op db) of
      None \<Rightarrow> True | Some r \<Rightarrow> g_status r \<noteq> GActive \<or> g_version r = g_version g + 1" by auto
qed

lemma goal_step_turns: "session_turns (goal_step op db) = session_turns db"
  by (cases op) (auto simp: setSessionGoalStatus_def updateSessionGoal_def upsertSessionGoal_def committed_def
      Let_def split: option.splits)

lemma evaluate_continue_goal:
  assumes "snd (evaluateGoalContinuation pick inp db) = DecideContinue g n cap"
    and "ci_workspace_id inp = ws" "ci_session_id inp = sid"
  shows "getSessionGoal ws sid (fst (evaluateGoalContinuation pick inp db)) = Some g"
proof -
  obtain h where h: "getSessionGoal ws sid db = Some h" "g_status h = GActive" "blocking_turns ws sid db = []"
    using assms by (auto simp: evaluateGoalContinuation_def Let_def split: option.splits if_splits)
  obtain auto streak rotated where cnt: "continuationCounters ws sid h db = (auto, streak, rotated)"
    by (cases "continuationCounters ws sid h db")
  from h assms(2,3) cnt show ?thesis
  proof (cases rule: evaluate_cases [where pick = pick])
    case (paused reason rationale)
    with assms(1) show ?thesis by simp
  next
    case (continue nxt c)
    with assms(1) h(1) show ?thesis by (auto simp: get_update_goal)
  qed
qed

lemma evaluate_turns: "session_turns (fst (evaluateGoalContinuation pick inp db)) = session_turns db"
  by (simp add: evaluateGoalContinuation_def Let_def split_beta split: option.splits list.splits)

lemma append_turns:
  "appendSessionEvents newId now ws sid inputs db = Inr (db', evs) \<Longrightarrow> session_turns db' = session_turns db"
  by (auto simp: appendSessionEvents_def appendWith_def insertEvents_def Let_def split: if_splits option.splits sum.splits)

text \<open>
  C14: a stop wins. If the goal is paused, completed, revised or replaced between the continuation's
  decision and the synthesis of its turn, no turn is enqueued.
\<close>

theorem stop_wins_over_continuation:
  assumes "overrides ws sid op" and "maybeContinueGoal (\<lambda>i. if i = 2 then goal_step op else id) sv account ws sid wid db = (db', r)"
  shows "session_turns db' = session_turns db \<and> r \<noteq> Inr ActContinue"
proof -
  let ?env = "\<lambda>i::nat. if i = 2 then goal_step op else id"
  have settled: "session_turns (fst q) = session_turns db \<and> snd q \<noteq> Inr ActContinue"
    if e: "evaluateGoalContinuation pick inp db = (db1, d)" "ci_workspace_id inp = ws" "ci_session_id inp = sid"
      and q: "q = settleDecision ?env sv account ws sid wid s model effort db1 d" for pick inp db1 d s model effort q
  proof (cases d)
    case (DecideContinue g n cap)
    with e evaluate_continue_goal [of pick inp db g n cap ws sid] have "getSessionGoal ws sid db1 = Some g" by simp
    from override_outdates [OF this assms(1)] e(1) evaluate_turns [of pick inp db] show ?thesis
      by (auto simp: q settleDecision_def DecideContinue Let_def goal_step_turns split: option.splits)
  next
    case (DecidePaused reason g)
    with e(1) evaluate_turns [of pick inp db] show ?thesis
      by (auto simp: q settleDecision_def Let_def goal_step_turns dest: append_turns split: sum.splits)
  qed (use e(1) evaluate_turns [of pick inp db] in \<open>auto simp: q settleDecision_def\<close>)
  show ?thesis
  proof (cases "\<exists>g0 s. getSessionGoal ws sid db = Some g0 \<and> g_status g0 = GActive \<and> find_session ws sid db = Some s")
    case True
    then obtain g0 s where gs: "getSessionGoal ws sid db = Some g0" "g_status g0 = GActive" "find_session ws sid db = Some s" by blast
    obtain model pb where pol: "continuationModel (sv_policy_blocks sv) (latestStartedSessionTurn ws sid db) s = (model, pb)"
      by fastforce
    obtain db1 d where ev: "evaluateGoalContinuation (sv_pick sv) (continuationInput sv ws sid pb model) db = (db1, d)"
      by fastforce
    from assms(2) have "(db', r) = settleDecision ?env sv account ws sid wid s model
        (case latestStartedSessionTurn ws sid db of None \<Rightarrow> reasoningEffortForMetadata (s_metadata s) (sv_reasoning_effort sv)
          | Some t \<Rightarrow> t_reasoning_effort t) db1 d"
      by (simp add: maybeContinueGoal_def gs pol ev Let_def)
    from settled [OF ev _ _ this] show ?thesis by (simp add: continuationInput_def)
  next
    case False
    with assms(2) show ?thesis by (auto simp: maybeContinueGoal_def split: option.splits if_splits)
  qed
qed

definition demo_services :: goal_services where
  "demo_services = \<lparr>sv_pick = hd, sv_event_id = (\<lambda>_. ''e''), sv_turn_id = ''t1'', sv_now = 5, sv_policy_blocks = None,
     sv_codex_billed = (\<lambda>_. False), sv_budget = \<lparr>bs_billing_mode = BillingDisabled, bs_usage_limits_mode = LimitsNone,
       bs_max_monthly_cost_micros = None, bs_max_monthly_agent_runs = None, bs_balance_micros = 0, bs_monthly_cost = 0,
       bs_monthly_runs = 0\<rparr>, sv_default_max = None, sv_no_progress_limit = 3, sv_reasoning_effort = ''low'',
     sv_first_party_tools = id\<rparr>"

definition demo_stop :: goal_op where
  "demo_stop = GoalStatus ''w'' ''s'' \<lparr>gs_status = GPaused, gs_evidence = None, gs_rationale = None,
     gs_paused_reason = Some ByUserInterrupt\<rparr>"

lemma stop_wins_over_continuation_witness:
  "session_turns (fst (maybeContinueGoal (\<lambda>i. if i = 2 then goal_step demo_stop else id) demo_services ''a'' ''w'' ''s'' ''wf'' demo_goal_db))
   = session_turns demo_goal_db"
proof -
  have "overrides ''w'' ''s'' demo_stop" by (simp add: demo_stop_def)
  from stop_wins_over_continuation [OF this surjective_pairing, THEN conjunct1] show ?thesis .
qed

end
