(* ===== verification/Child_Wake_Props.thy ===== *)
theory Child_Wake_Props
  imports Child_Wake Goals_Props
begin

text \<open>
  The properties of the child-completion wake: what it appends to the parent's log, and how
  completions fold into one queued digest turn.
\<close>

subsection \<open>The log a transaction leaves\<close>

text \<open>
  What the log's invariant and the idempotence check read of an event and of a session. A fold
  rewrites payloads only, so it keeps both views.
\<close>

type_synonym log_key = "(uuid \<times> uuid) \<times> int \<times> string option"

definition log_key :: "event_row \<Rightarrow> log_key" where
  "log_key e = ((er_workspace_id e, er_session_id e), er_sequence e, er_client_event_id e)"

definition log_keys :: "session_db \<Rightarrow> log_key list" where
  "log_keys db = map log_key (session_events db)"

definition log_row :: "session_row \<Rightarrow> (uuid \<times> uuid) \<times> int" where
  "log_row s = ((s_workspace_id s, s_id s), s_last_sequence s)"

lemma log_keys_simps [simp]:
  "log_keys (db\<lparr>session_turns := ts\<rparr>) = log_keys db" "log_keys (db\<lparr>session_goals := gs\<rparr>) = log_keys db"
  "log_keys (db\<lparr>sessions := ss\<rparr>) = log_keys db" "log_keys (db\<lparr>session_events := es\<rparr>) = map log_key es"
  "log_keys (update_session ws sid f db) = log_keys db" "log_keys (update_turn p g db) = log_keys db"
  by (simp_all add: log_keys_def)

lemma sequences_of_keys:
  "map er_sequence (events_of ws sid db) = map (fst \<circ> snd) (filter (\<lambda>k. fst k = (ws, sid)) (log_keys db))"
  by (simp add: events_of_def log_keys_def filter_map o_def log_key_def)

lemma delivered_before_keys:
  "delivered_before ws sid cid db \<longleftrightarrow> (\<exists>q. ((ws, sid), q, Some cid) \<in> set (log_keys db))"
  by (auto simp: delivered_before_def list_ex_iff events_of_def log_keys_def log_key_def image_iff) metis

lemma log_inv_rows:
  "log_inv db \<longleftrightarrow> distinct (map (snd \<circ> fst) (map log_row (sessions db))) \<and>
     (\<forall>(i, q) \<in> set (map log_row (sessions db)). 0 \<le> q \<and>
        map (fst \<circ> snd) (filter (\<lambda>k. fst k = i) (log_keys db)) = [1..q])"
  by (auto simp: log_inv_def log_row_def sequences_of_keys o_def)

lemma log_inv_cong:
  "log_keys db = log_keys db' \<Longrightarrow> map log_row (sessions db) = map log_row (sessions db') \<Longrightarrow> log_inv db = log_inv db'"
  by (simp only: log_inv_rows)

text \<open>A transaction that appends a run of events to one session and moves its last sequence along.\<close>

definition extends_log :: "session_row \<Rightarrow> event_row list \<Rightarrow> session_db \<Rightarrow> session_db \<Rightarrow> bool" where
  "extends_log s vs db db' \<longleftrightarrow>
     log_keys db' = log_keys db @ map log_key vs
     \<and> (\<forall>v \<in> set vs. er_workspace_id v = s_workspace_id s \<and> er_session_id v = s_id s)
     \<and> map er_sequence vs = [s_last_sequence s + 1..s_last_sequence s + int (length vs)]
     \<and> map log_row (sessions db') = map (\<lambda>r. if session_is (s_workspace_id s) (s_id s) r
          then ((s_workspace_id s, s_id s), s_last_sequence s + int (length vs)) else log_row r) (sessions db)"

lemma extends_log_inv:
  assumes inv: "log_inv db" and s: "s \<in> set (sessions db)" and ext: "extends_log s vs db db'"
  shows "log_inv db'"
proof -
  let ?i = "(s_workspace_id s, s_id s)" and ?q = "s_last_sequence s + int (length vs)"
  have rows: "map log_row (sessions db') = map (\<lambda>r. if session_is (s_workspace_id s) (s_id s) r then (?i, ?q) else log_row r) (sessions db)"
    and keys: "log_keys db' = log_keys db @ map log_key vs"
    using ext by (simp_all add: extends_log_def)
  have own: "filter (\<lambda>k. fst k = i) (map log_key vs) = (if i = ?i then map log_key vs else [])" for i
    using ext by (auto simp: extends_log_def log_key_def filter_id_conv filter_empty_conv)
  have seqs: "map (fst \<circ> snd) (map log_key vs) = [s_last_sequence s + 1..?q]"
    using ext by (simp add: extends_log_def log_key_def o_def)
  have old: "0 \<le> s_last_sequence s" "map (fst \<circ> snd) (filter (\<lambda>k. fst k = ?i) (log_keys db)) = [1..s_last_sequence s]"
    using inv s by (auto simp: log_inv_rows log_row_def)
  have "map (snd \<circ> fst) (map log_row (sessions db')) = map (snd \<circ> fst) (map log_row (sessions db))"
    unfolding rows by (auto simp: session_is_def log_row_def)
  then have ids: "distinct (map (snd \<circ> fst) (map log_row (sessions db')))" using inv by (simp add: log_inv_rows)
  have "0 \<le> q \<and> map (fst \<circ> snd) (filter (\<lambda>k. fst k = i) (log_keys db')) = [1..q]"
    if iq: "(i, q) \<in> set (map log_row (sessions db'))" for i q
  proof (cases "i = ?i")
    case True
    from iq rows obtain r where r: "r \<in> set (sessions db)"
      "(i, q) = (if session_is (s_workspace_id s) (s_id s) r then (?i, ?q) else log_row r)" by auto
    with True have "q = ?q" by (auto simp: session_is_def log_row_def split: if_splits)
    with True old seqs upto_append [of "s_last_sequence s" "int (length vs)"] show ?thesis by (simp add: keys own)
  next
    case False
    with iq rows have "(i, q) \<in> set (map log_row (sessions db))" by (auto split: if_splits)
    with inv False show ?thesis by (auto simp: log_inv_rows keys own)
  qed
  then show ?thesis unfolding log_inv_rows [of db'] using ids by blast
qed

lemma eventValues_length [simp]: "length (eventValues newId now s q inps) = length inps"
  by (induction inps arbitrary: q) simp_all

lemma appendWith_extends:
  assumes "appendWith newId now s inputs f db = Inr (db', evs)" "keeps_identity f"
  shows "extends_log s (eventValues newId now s (s_last_sequence s) inputs) db db'"
proof -
  have db': "db' = update_session (s_workspace_id s) (s_id s) (\<lambda>r. f (r\<lparr>s_last_sequence := s_last_sequence s + int (length inputs)\<rparr>))
      (db\<lparr>session_events := session_events db @ eventValues newId now s (s_last_sequence s) inputs\<rparr>)"
    using assms(1) by (auto simp: appendWith_def Let_def dest: insertEvents_Inr(1) split: sum.splits)
  have "map log_row (update_where (session_is (s_workspace_id s) (s_id s)) (\<lambda>r. f (r\<lparr>s_last_sequence := q\<rparr>)) rs)
      = map (\<lambda>r. if session_is (s_workspace_id s) (s_id s) r then ((s_workspace_id s, s_id s), q) else log_row r) rs" for q rs
    using assms(2) by (auto simp: update_where_def log_row_def keeps_identity_def session_is_def)
  then show ?thesis
    by (auto simp: extends_log_def db' update_session_def eventValues_sequences log_keys_def dest: eventValues_owner)
qed

subsection \<open>What a delivery does\<close>

lemma log_row_wakeSession [simp]: "log_row (wakeSession q r) = ((s_workspace_id r, s_id r), q)"
  by (simp add: wakeSession_def log_row_def)

lemma update_where_rows:
  "map log_row (update_where (session_is ws sid) (wakeSession q) rs)
   = map (\<lambda>r. if session_is ws sid r then ((ws, sid), q) else log_row r) rs"
  by (auto simp: update_where_def session_is_def)

lemma foldCompletion_simps [simp]:
  "log_keys (fst (foldCompletion inp digest shown db)) = log_keys db"
  "sessions (fst (foldCompletion inp digest shown db)) = sessions db"
  "session_goals (fst (foldCompletion inp digest shown db)) = session_goals db"
  by (simp_all add: foldCompletion_def Let_def log_keys_def map_update_where log_key_def)

lemma wakeActive_cases:
  assumes "wakeActive newId turnId now inp s db = Inr (db', res)" and ws: "wi_workspace_id inp = s_workspace_id s"
  obtains (fold) digest turn trigger where
      "digestTurn (s_workspace_id s) (s_id s) db = Some digest"
      "extends_log s (eventValues newId now s (s_last_sequence s) (cardEvents inp s)) db db'"
      "session_turns db' = update_where (turn_is (s_workspace_id s) (t_id digest))
         (foldRow (buildChildCompletionDigest (childSummaries digest @ [wi_child_summary inp]) (wi_trailing inp))
            (childSummaries digest @ [wi_child_summary inp])) (session_turns db)"
      "res = Delivered True turn trigger (map mapEvent (eventValues newId now s (s_last_sequence s) (cardEvents inp s))) (workflow_of s)"
  | (create) trigger latest where
      "digestTurn (s_workspace_id s) (s_id s) db = None"
      "extends_log s (eventValues newId now s (s_last_sequence s)
         (cardEvents inp s @ [turnCard (wakeRow turnId now inp s latest (nextTurnPosition (s_workspace_id s) (s_id s) db) trigger) trigger])) db db'"
      "session_turns db' = session_turns db @ [wakeRow turnId now inp s latest (nextTurnPosition (s_workspace_id s) (s_id s) db) trigger]"
      "\<exists>shown evs. res = Delivered False (wakeRow turnId now inp s latest (nextTurnPosition (s_workspace_id s) (s_id s) db) trigger) shown evs (workflow_of s)"
proof -
  let ?ws = "s_workspace_id s" and ?sid = "s_id s"
  let ?cards = "eventValues newId now s (s_last_sequence s) (cardEvents inp s)"
  let ?latest = "latestStartedSessionTurn ?ws ?sid db"
  have split: "eventValues newId now s q (as @ bs) = eventValues newId now s q as @ eventValues newId now s (q + int (length as)) bs" for q as bs
    by (induction as arbitrary: q) (simp_all add: algebra_simps)
  obtain db1 where ins: "insertEvents ?cards db = Inr db1"
    using assms(1) by (auto simp: wakeActive_def Let_def split: sum.splits)
  have db1: "db1 = db\<lparr>session_events := session_events db @ ?cards\<rparr>" by (rule insertEvents_Inr(1) [OF ins])
  then have same: "digestTurn ?ws ?sid db1 = digestTurn ?ws ?sid db" "nextTurnPosition ?ws ?sid db1 = nextTurnPosition ?ws ?sid db"
    by (simp_all add: digestTurn_def nextTurnPosition_def)
  show thesis
  proof (cases "digestTurn ?ws ?sid db")
    case (Some digest)
    obtain db2 turn trigger where f: "foldCompletion inp digest (mapEvent (hd ?cards)) db1 = (db2, turn, trigger)"
      by (cases "foldCompletion inp digest (mapEvent (hd ?cards)) db1")
    have q: "db' = update_session ?ws ?sid (wakeSession (s_last_sequence s + int (length ?cards))) db2"
      "res = Delivered True turn trigger (map mapEvent ?cards) (workflow_of s)"
      using assms ins same(1) Some f by (auto simp: wakeActive_def Let_def)
    have db2: "db2 = fst (foldCompletion inp digest (mapEvent (hd ?cards)) db1)" using f by simp
    show thesis
    proof (rule fold [OF Some _ _ q(2)])
      show "extends_log s ?cards db db'"
        unfolding extends_log_def
        by (auto simp: q(1) db2 db1 update_session_def update_where_rows eventValues_sequences log_keys_def [of db]
            dest: eventValues_owner)
      show "session_turns db' = update_where (turn_is ?ws (t_id digest))
          (foldRow (buildChildCompletionDigest (childSummaries digest @ [wi_child_summary inp]) (wi_trailing inp))
             (childSummaries digest @ [wi_child_summary inp])) (session_turns db)"
        by (simp add: q(1) db2 db1 foldCompletion_def Let_def ws)
    qed
  next
    case None
    let ?trigger = "ev_id (mapEvent (hd ?cards))"
    let ?turn = "wakeRow turnId now inp s ?latest (nextTurnPosition ?ws ?sid db) ?trigger"
    let ?q = "eventRow newId now s (s_last_sequence s + int (length ?cards) + 1) (turnCard ?turn ?trigger)"
    obtain db3 where ins3: "insertEvents [?q] (db1\<lparr>session_turns := session_turns db1 @ [?turn]\<rparr>) = Inr db3"
      and q: "db' = update_session ?ws ?sid (wakeSession (s_last_sequence s + int (length ?cards) + 1)) db3"
      "\<exists>shown evs. res = Delivered False ?turn shown evs (workflow_of s)"
      using assms ins same None by (auto simp: wakeActive_def Let_def split: sum.splits)
    have db3: "db3 = db1\<lparr>session_turns := session_turns db1 @ [?turn], session_events := session_events db1 @ [?q]\<rparr>"
      using insertEvents_Inr(1) [OF ins3] by simp
    have vs: "eventValues newId now s (s_last_sequence s) (cardEvents inp s @ [turnCard ?turn ?trigger]) = ?cards @ [?q]"
      by (simp add: split)
    show thesis
    proof (rule create [OF None _ _ q(2)])
      have "map er_sequence (?cards @ [?q]) = [s_last_sequence s + 1..s_last_sequence s + int (length (?cards @ [?q]))]"
        unfolding vs [symmetric] by (simp add: eventValues_sequences)
      then show "extends_log s (eventValues newId now s (s_last_sequence s) (cardEvents inp s @ [turnCard ?turn ?trigger])) db db'"
        unfolding vs extends_log_def
        by (auto simp: q(1) db3 db1 update_session_def update_where_rows log_keys_def [of db] eventRow_def
            dest: eventValues_owner)
      show "session_turns db' = session_turns db @ [?turn]" by (simp add: q(1) db3 db1)
    qed
  qed
qed

subsection \<open>Completions share one queued turn\<close>

type_synonym wake_call = "(int \<Rightarrow> uuid) \<times> uuid \<times> millis \<times> wake_input"

text \<open>A sequence of wakes, up to the first one that fails.\<close>

fun wakes :: "wake_call list \<Rightarrow> session_db \<Rightarrow> session_error + session_db \<times> wake_result list" where
  "wakes [] db = Inr (db, [])"
| "wakes ((newId, turnId, now, inp) # cs) db =
     (case wakeParentSessionForChildCompletion newId turnId now inp db of
        Inl e \<Rightarrow> Inl e
      | Inr (db1, r) \<Rightarrow> (case wakes cs db1 of Inl e \<Rightarrow> Inl e | Inr (db2, rs) \<Rightarrow> Inr (db2, r # rs)))"

fun call_input :: "wake_call \<Rightarrow> wake_input" where
  "call_input (newId, turnId, now, inp) = inp"

fun call_turn :: "wake_call \<Rightarrow> uuid" where
  "call_turn (newId, turnId, now, inp) = turnId"

fun queues_turn :: "wake_result \<Rightarrow> bool" where
  "queues_turn (Delivered _ _ _ _ _) = True"
| "queues_turn _ = False"

definition wake_for :: "uuid \<Rightarrow> uuid \<Rightarrow> wake_input \<Rightarrow> bool" where
  "wake_for ws sid inp \<longleftrightarrow> wi_workspace_id inp = ws \<and> wi_parent_session_id inp = sid"

lemma wake_queues:
  assumes "wakeParentSessionForChildCompletion newId turnId now inp db = Inr (db', r)" "queues_turn r" "wake_for ws sid inp"
  obtains s where "find_session ws sid db = Some s" "wakeActive newId turnId now inp s db = Inr (db', r)"
    "s_workspace_id s = ws" "s_id s = sid"
  using assms that
  by (auto simp: wakeParentSessionForChildCompletion_def Let_def wake_for_def dest: find_sessionD
      split: option.splits if_splits sum.splits)

text \<open>The one queued digest turn: it is the last row, and holds the summaries \<open>ss\<close>.\<close>

definition digest_state :: "uuid \<Rightarrow> uuid \<Rightarrow> turn_row list \<Rightarrow> jstr list \<Rightarrow> jstr \<Rightarrow> session_db \<Rightarrow> bool" where
  "digest_state ws sid ts ss trailing db \<longleftrightarrow>
     (\<exists>t. session_turns db = ts @ [t] \<and> queued_in ws sid t \<and> child_notification t \<and> childSummaries t = ss
        \<and> t_prompt t = buildChildCompletionDigest ss trailing \<and> t_id t \<notin> t_id ` set ts)
     \<and> (\<forall>t \<in> set ts. \<not> (queued_in ws sid t \<and> child_notification t))"

lemma foldRow_fields [simp]:
  "t_id (foldRow d ss t) = t_id t" "t_prompt (foldRow d ss t) = d" "queued_in ws sid (foldRow d ss t) = queued_in ws sid t"
  "childSummaries (foldRow d ss t) = ss"
  by (simp_all add: foldRow_def queued_in_def turn_of_def childSummaries_def js_put_def update_conv' o_def)

lemma child_notification_foldRow: "child_notification t \<Longrightarrow> child_notification (foldRow d ss t)"
  by (cases "t_metadata t") (auto simp: child_notification_def foldRow_def js_put_def update_conv')

lemma wakeRow_fields:
  "t_id (wakeRow turnId now inp s latest p trigger) = turnId"
  "queued_in (s_workspace_id s) (s_id s) (wakeRow turnId now inp s latest p trigger)"
  "childSummaries (wakeRow turnId now inp s latest p trigger) = [wi_child_summary inp]"
  "child_notification (wakeRow turnId now inp s latest p trigger)"
  "t_prompt (wakeRow turnId now inp s latest p trigger) = buildChildCompletionDigest [wi_child_summary inp] (wi_trailing inp)"
  by (simp_all add: wakeRow_def queued_in_def turn_of_def child_notification_def childSummaries_def u16_def)

lemma digest_only: "digest_state ws sid ts ss tr db \<Longrightarrow> session_turns db = ts @ [t] \<Longrightarrow> digestTurn ws sid db = Some t"
  by (auto simp: digest_state_def digestTurn_def select_where_def)

lemma wake_folds:
  assumes "digest_state ws sid ts ss tr db" "wake_for ws sid inp"
    and "wakeParentSessionForChildCompletion newId turnId now inp db = Inr (db', r)" "queues_turn r"
  shows "digest_state ws sid ts (ss @ [wi_child_summary inp]) (wi_trailing inp) db'"
proof -
  obtain s where s: "wakeActive newId turnId now inp s db = Inr (db', r)" "s_workspace_id s = ws" "s_id s = sid"
    using wake_queues [OF assms(3,4,2)] .
  obtain t where t: "session_turns db = ts @ [t]" "queued_in ws sid t" "child_notification t" "childSummaries t = ss"
    "t_id t \<notin> t_id ` set ts" "\<forall>t \<in> set ts. \<not> (queued_in ws sid t \<and> child_notification t)"
    using assms(1) by (auto simp: digest_state_def)
  have digest: "digestTurn ws sid db = Some t" using digest_only [OF assms(1) t(1)] .
  have ws: "wi_workspace_id inp = s_workspace_id s" using assms(2) s(2) by (simp add: wake_for_def)
  have others: "update_where (turn_is ws (t_id t)) f ts = ts" for f
    using t(5) by (intro update_where_none) (auto simp: turn_is_def rev_image_eqI)
  have me: "turn_is ws (t_id t) t" using t(2) by (simp add: turn_is_def queued_in_def turn_of_def)
  from s(1) ws show ?thesis
  proof (cases rule: wakeActive_cases)
    case (fold digest' turn trigger)
    then have "digest' = t" using digest s(2,3) by simp
    with fold(3) t others me s(2) show ?thesis
      by (auto simp: digest_state_def update_where_append child_notification_foldRow)
  next
    case (create trigger latest)
    then show ?thesis using digest s(2,3) by simp
  qed
qed

lemma wake_opens:
  assumes "digestTurn ws sid db = None" "wake_for ws sid inp" "turnId \<notin> t_id ` set (session_turns db)"
    and "wakeParentSessionForChildCompletion newId turnId now inp db = Inr (db', r)" "queues_turn r"
  shows "digest_state ws sid (session_turns db) [wi_child_summary inp] (wi_trailing inp) db'"
proof -
  obtain s where s: "wakeActive newId turnId now inp s db = Inr (db', r)" "s_workspace_id s = ws" "s_id s = sid"
    using wake_queues [OF assms(4,5,2)] .
  have ws: "wi_workspace_id inp = s_workspace_id s" using assms(2) s(2) by (simp add: wake_for_def)
  have "sort_key t_position (select_where (\<lambda>t. queued_in ws sid t \<and> child_notification t) (session_turns db)) = []"
    using assms(1) by (auto simp: digestTurn_def split: list.splits)
  then have "select_where (\<lambda>t. queued_in ws sid t \<and> child_notification t) (session_turns db) = []"
    by (metis length_0_conv length_sort)
  then have none: "\<forall>t \<in> set (session_turns db). \<not> (queued_in ws sid t \<and> child_notification t)"
    by (simp add: select_where_def filter_empty_conv)
  from s(1) ws show ?thesis
  proof (cases rule: wakeActive_cases)
    case (create trigger latest)
    then show ?thesis using none assms(3) s(2,3) wakeRow_fields(2) [of s turnId now inp latest] unfolding digest_state_def by (auto simp: wakeRow_fields(1,3-5))
  qed (use assms(1) s(2,3) in simp)
qed

lemma wakes_fold:
  assumes "digest_state ws sid ts ss tr db" "\<forall>c \<in> set calls. wake_for ws sid (call_input c)"
    and "wakes calls db = Inr (db', rs)" "list_all queues_turn rs" "calls \<noteq> []"
  shows "digest_state ws sid ts (ss @ map (wi_child_summary \<circ> call_input) calls) (wi_trailing (call_input (last calls))) db'"
  using assms
proof (induction calls arbitrary: ss tr db rs)
  case (Cons c cs)
  obtain newId turnId now inp where c: "c = (newId, turnId, now, inp)" by (cases c) auto
  obtain db1 r rs' where w: "wakeParentSessionForChildCompletion newId turnId now inp db = Inr (db1, r)"
    "wakes cs db1 = Inr (db', rs')" "rs = r # rs'"
    using Cons.prems(3) by (auto simp: c split: sum.splits)
  have q: "queues_turn r" "list_all queues_turn rs'" using Cons.prems(4) by (simp_all add: w(3))
  have step: "digest_state ws sid ts (ss @ [wi_child_summary inp]) (wi_trailing inp) db1"
    using wake_folds [OF Cons.prems(1) _ w(1) q(1)] Cons.prems(2) by (simp add: c)
  show ?case
  proof (cases "cs = []")
    case True
    with step w(2) show ?thesis by (simp add: c)
  next
    case False
    with Cons.IH [OF step _ w(2) q(2)] Cons.prems(2) show ?thesis by (simp add: c)
  qed
qed simp

text \<open>
  Any number of workers finishing share one queued turn. When no child-notification turn of the
  parent is queued and a sequence of completions is delivered to it, exactly one turn is added, and
  its prompt is the digest of all their summaries in order, with the last completion's trailing
  instruction.
\<close>

theorem completions_share_one_turn:
  assumes "digestTurn ws sid db = None" and "calls \<noteq> []" and "call_turn (hd calls) \<notin> t_id ` set (session_turns db)"
    and "\<forall>c \<in> set calls. wake_for ws sid (call_input c)"
    and "wakes calls db = Inr (db', rs)" "list_all queues_turn rs"
  shows "\<exists>t. session_turns db' = session_turns db @ [t] \<and> digestTurn ws sid db' = Some t
    \<and> t_prompt t = buildChildCompletionDigest (map (wi_child_summary \<circ> call_input) calls) (wi_trailing (call_input (last calls)))"
proof -
  obtain newId turnId now inp cs where calls: "calls = (newId, turnId, now, inp) # cs"
    using assms(2) by (metis list.exhaust prod_cases4)
  obtain db1 r rs' where w: "wakeParentSessionForChildCompletion newId turnId now inp db = Inr (db1, r)"
    "wakes cs db1 = Inr (db', rs')" "rs = r # rs'"
    using assms(5) by (auto simp: calls split: sum.splits)
  have "digest_state ws sid (session_turns db) [wi_child_summary inp] (wi_trailing inp) db1"
    using assms(1,3,4,6) w(1,3) by (intro wake_opens [of ws sid db inp turnId newId now db1 r]) (auto simp: calls)
  then have st: "digest_state ws sid (session_turns db) (map (wi_child_summary \<circ> call_input) calls) (wi_trailing (call_input (last calls))) db'"
    using wakes_fold [of ws sid "session_turns db" "[wi_child_summary inp]" "wi_trailing inp" db1 cs db' rs'] assms(4,6) w(2,3)
    by (cases "cs = []") (auto simp: calls)
  then show ?thesis using digest_only [OF st] by (auto simp: digest_state_def)
qed

definition demo_wake :: "string \<Rightarrow> wake_input" where
  "demo_wake i = \<lparr>wi_workspace_id = ''w'', wi_parent_session_id = ''s'', wi_client_event_id = i, wi_child_summary = u16 i,
     wi_trailing = u16 ''go'', wi_child_completion = VObj [], wi_reasoning_effort_fallback = ''low''\<rparr>"

definition demo_wakes :: "wake_call list" where
  "demo_wakes = [(\<lambda>q. ''e'' @ nat_dec (nat q), ''t1'', 1, demo_wake ''c''), (\<lambda>q. ''e'' @ nat_dec (nat q), ''t2'', 2, demo_wake ''d'')]"

lemma demo_wakes_ends: "demo_wakes \<noteq> []" "call_turn (hd demo_wakes) = ''t1''"
  by (simp_all add: demo_wakes_def)

lemma demo_wake_inputs:
  "\<forall>c \<in> set demo_wakes. wake_for ''w'' ''s'' (call_input c)"
  "map (wi_child_summary \<circ> call_input) demo_wakes = [u16 ''c'', u16 ''d'']"
  "wi_trailing (call_input (last demo_wakes)) = u16 ''go''"
  by (simp_all add: demo_wakes_def demo_wake_def wake_for_def)

fun all_queue :: "session_error + session_db \<times> wake_result list \<Rightarrow> bool" where
  "all_queue (Inl e) = False"
| "all_queue (Inr (db, rs)) = list_all queues_turn rs"

lemma demo_wakes_queue: "all_queue (wakes demo_wakes demo_db)"
  by code_simp

lemma completions_share_one_turn_witness:
  "map t_prompt (session_turns (fst (projr (wakes demo_wakes demo_db))))
     = [buildChildCompletionDigest [u16 ''c'', u16 ''d''] (u16 ''go'')]"
proof -
  obtain db rs where r: "wakes demo_wakes demo_db = Inr (db, rs)" "list_all queues_turn rs"
    using demo_wakes_queue by (cases "wakes demo_wakes demo_db") auto
  moreover have "digestTurn ''w'' ''s'' demo_db = None" "session_turns demo_db = []" by code_simp+
  ultimately show ?thesis
    using completions_share_one_turn [of "''w''" "''s''" demo_db demo_wakes db rs]
    by (auto simp: demo_wake_inputs demo_wakes_ends)
qed

end
