(* ===== verification/World.thy ===== *)
theory World
  imports Child_Wake_Props
begin

text \<open>
  The operations of the session tables together: appends, the turn queue, goals and child-completion
  wakes as transactions that interleave in any order. The worker activities of \<open>Goals\<close> are sequences of
  these transactions, so their interleavings are runs too.
\<close>

datatype world_op =
    WLog log_op
  | WTurn turn_op
  | WGoal goal_op
  | WClearGoal "int \<Rightarrow> uuid" millis uuid uuid
  | WEvaluate "turn_row list \<Rightarrow> turn_row" continuation_input
  | WPointer uuid uuid uuid
  | WWake wake_call
  | WMode uuid uuid bool

fun world_step :: "world_op \<Rightarrow> session_db \<Rightarrow> session_db" where
  "world_step (WLog op) db = log_step op db"
| "world_step (WTurn op) db = turn_step op db"
| "world_step (WGoal op) db = goal_step op db"
| "world_step (WClearGoal newId now ws sid) db = committed fst db (clearSessionGoal newId now ws sid db)"
| "world_step (WEvaluate pick inp) db = fst (evaluateGoalContinuation pick inp db)"
| "world_step (WPointer ws sid tid) db = setSessionGoalLastContinuationTurn ws sid tid db"
| "world_step (WWake (newId, turnId, now, inp)) db =
     committed fst db (wakeParentSessionForChildCompletion newId turnId now inp db)"
| "world_step (WMode ws sid passive) db = setSessionChildNotificationsMode ws sid passive db"

fun world_ok :: "world_op \<Rightarrow> session_db \<Rightarrow> bool" where
  "world_ok (WTurn op) db = fresh_turn op db"
| "world_ok (WWake c) db = (call_turn c \<notin> t_id ` set (session_turns db))"
| "world_ok _ db = True"

subsection \<open>Logs grow, sessions stay\<close>

definition session_ids :: "session_db \<Rightarrow> (uuid \<times> uuid) list" where
  "session_ids db = map (\<lambda>s. (s_workspace_id s, s_id s)) (sessions db)"

definition grows :: "session_db \<Rightarrow> session_db \<Rightarrow> bool" where
  "grows db db' \<longleftrightarrow> prefix (log_keys db) (log_keys db') \<and> session_ids db' = session_ids db"

lemma session_ids_rows: "session_ids db = map fst (map log_row (sessions db))"
  by (simp add: session_ids_def log_row_def)

lemma grows_refl: "grows db db"
  by (simp add: grows_def)

lemma find_session_ids: "find_session ws sid db \<noteq> None \<longleftrightarrow> (ws, sid) \<in> set (session_ids db)"
  unfolding find_session_def find_None_iff by (auto simp: session_is_def session_ids_def)

text \<open>The transactions that leave the log alone.\<close>

definition log_untouched :: "session_db \<Rightarrow> session_db \<Rightarrow> bool" where
  "log_untouched db db' \<longleftrightarrow> log_keys db' = log_keys db \<and> map log_row (sessions db') = map log_row (sessions db)"

lemma log_untouchedD: "log_untouched db db' \<Longrightarrow> grows db db' \<and> log_inv db' = log_inv db"
  using log_inv_cong [of db' db] by (auto simp: log_untouched_def grows_def session_ids_rows)

lemma log_untouched_session:
  "(\<And>s. log_row (f s) = log_row s) \<Longrightarrow> log_untouched db (update_session ws sid f db)"
  by (simp add: log_untouched_def update_session_def map_update_where)

lemma setPositions_log: "log_keys (setPositions ws i tids db) = log_keys db" "sessions (setPositions ws i tids db) = sessions db"
  by (induction ws i tids db rule: setPositions.induct) auto

lemma turn_step_log: "log_untouched db (turn_step op db)"
proof (cases op)
  case (OpStatus ws sid st act)
  show ?thesis by (simp add: OpStatus setSessionStatus_def log_untouched_session log_row_def)
next
  case (OpEnqueue newId now inp)
  then show ?thesis
    by (simp add: log_untouched_def enqueueSessionTurn_def positionForEnqueue_def shiftFrom_def Let_def)
next
  case (OpCreate newId now ws sid trig wid)
  then show ?thesis
    by (auto simp: log_untouched_def createTurn_def committed_def Let_def update_session_def map_update_where
        runSession_def log_row_def split: option.splits)
next
  case (OpClaim locked now ws sid wid)
  then show ?thesis
    by (auto simp: log_untouched_def claimNextQueuedTurn_def update_session_def map_update_where
        runSession_def log_row_def split: option.splits list.splits)
next
  case (OpReorder ws sid tids)
  then show ?thesis by (simp add: log_untouched_def reorderQueuedSessionTurns_def committed_def Let_def setPositions_log)
next
  case (OpReserve ws sid tid limit)
  then show ?thesis by (auto simp: log_untouched_def reserveToolspaceCallForTurn_def Let_def split: option.splits)
next
  case (OpDying now ws tid n)
  then show ?thesis by (auto simp: log_untouched_def cancelTurnFromDyingDispatch_def committed_def split: option.splits sum.splits)
next
  case (OpBump ws tid)
  then show ?thesis by (auto simp: log_untouched_def incrementTurnWorkerDeathRedispatches_def committed_def split: option.splits sum.splits)
qed (auto simp: log_untouched_def finishTurn_def requeuePreemptedTurn_def updateQueuedSessionTurn_def updateQueued_def
      cancelQueuedSessionTurn_def cancelQueuedSessionTurns_def committed_def Let_def split: option.splits)

lemma goal_step_log: "log_untouched db (goal_step op db)"
  by (cases op) (auto simp: log_untouched_def setSessionGoalStatus_def updateSessionGoal_def upsertSessionGoal_def
      update_goal_def committed_def Let_def split: option.splits)

lemma evaluate_log: "log_untouched db (fst (evaluateGoalContinuation pick inp db))"
  by (simp add: log_untouched_def evaluateGoalContinuation_def update_goal_def Let_def split_beta split: option.splits list.splits)

lemma extends_log_grows:
  assumes "extends_log s vs db db'"
  shows "grows db db'"
proof -
  have rows: "map log_row (sessions db') = map (\<lambda>r. if session_is (s_workspace_id s) (s_id s) r
      then ((s_workspace_id s, s_id s), s_last_sequence s + int (length vs)) else log_row r) (sessions db)"
    using assms by (simp add: extends_log_def)
  have "session_ids db' = session_ids db"
    unfolding session_ids_rows rows by (auto simp: session_is_def log_row_def)
  with assms show ?thesis by (simp add: grows_def extends_log_def)
qed

lemma log_step_grows: "grows db (log_step op db)"
proof (cases "log_result op db")
  case (Inr res)
  then obtain db' evs where r: "log_result op db = Inr (db', evs)" by (cases res) auto
  then have step: "log_step op db = db'" by (simp add: log_step_def)
  from r have "grows db db'"
  proof (cases rule: log_result_cases)
    case (append newId now row inputs f)
    show ?thesis using appendWith_extends [OF append(3,2)] by (rule extends_log_grows)
  next
    case (group newId now ws grp inp)
    then show ?thesis
      by (auto simp: appendSessionEventToSandboxGroup_def Let_def grows_def log_keys_def session_ids_def map_update_where
          insertEvents_def split: if_splits sum.splits)
  qed (simp add: grows_refl)
  with step show ?thesis by simp
qed (simp add: log_step_def grows_refl)

subsection \<open>What a wake keeps\<close>

lemma wake_cases:
  assumes "wakeParentSessionForChildCompletion newId turnId now inp db = Inr (db', r)"
  obtains (refused) why where "db' = db" "r = NotDelivered why"
  | (silent) s evs where "find_session (wi_workspace_id inp) (wi_parent_session_id inp) db = Some s"
      "appendWith newId now s [cardEvent inp] id db = Inr (db', evs)" "r = Passive evs (workflow_of s)"
  | (active) s where "find_session (wi_workspace_id inp) (wi_parent_session_id inp) db = Some s"
      "wakeActive newId turnId now inp s db = Inr (db', r)"
  using assms by (auto simp: wakeParentSessionForChildCompletion_def Let_def split: option.splits if_splits sum.splits)

text \<open>A delivered completion appends its card with the completion's client event id.\<close>

lemma wake_log:
  assumes "wakeParentSessionForChildCompletion newId turnId now inp db = Inr (db', r)"
  shows "(\<exists>why. r = NotDelivered why \<and> db' = db)
    \<or> (\<exists>s vs. find_session (wi_workspace_id inp) (wi_parent_session_id inp) db = Some s \<and> extends_log s vs db db'
        \<and> (\<exists>v \<in> set vs. er_client_event_id v = Some (wi_client_event_id inp)))"
  using assms
proof (cases rule: wake_cases)
  case (silent s evs)
  with appendWith_extends [OF silent(2)] show ?thesis
    by (intro disjI2) (force simp: eventRow_def cardEvent_def)
next
  case (active s)
  have ws: "wi_workspace_id inp = s_workspace_id s" using find_sessionD [OF active(1)] by simp
  from active(2) ws show ?thesis
  proof (cases rule: wakeActive_cases)
    case fold
    with active(1) show ?thesis by (intro disjI2) (force simp: cardEvents_def eventRow_def cardEvent_def)
  next
    case create
    with active(1) show ?thesis by (intro disjI2) (force simp: cardEvents_def eventRow_def cardEvent_def)
  qed
qed auto

lemma wake_grows:
  assumes "wakeParentSessionForChildCompletion newId turnId now inp db = Inr (db', r)"
  shows "grows db db' \<and> (log_inv db \<longrightarrow> log_inv db')"
  using wake_log [OF assms] by (auto simp: grows_refl extends_log_grows dest: find_sessionD extends_log_inv)

lemma wake_turns:
  assumes "wakeParentSessionForChildCompletion newId turnId now inp db = Inr (db', r)" "turns_unique db"
    and "turnId \<notin> t_id ` set (session_turns db)"
  shows "turns_unique db'"
  using assms(1)
proof (cases rule: wake_cases)
  case (silent s evs)
  then have "session_turns db' = session_turns db"
    by (auto simp: appendWith_def insertEvents_def Let_def split: if_splits sum.splits)
  with assms(2) show ?thesis by (simp add: turns_unique_def)
next
  case (active s)
  have ws: "wi_workspace_id inp = s_workspace_id s" using find_sessionD [OF active(1)] by simp
  from active(2) ws show ?thesis
  proof (cases rule: wakeActive_cases)
    case fold
    with assms(2) show ?thesis by (simp add: turns_unique_def map_update_where)
  next
    case create
    with assms(2,3) show ?thesis by (simp add: turns_unique_def wakeRow_fields)
  qed
qed (use assms(2) in simp)


subsection \<open>Every run\<close>

lemma clear_goal:
  assumes "clearSessionGoal newId now ws sid db = Inr (db', r)"
  shows "grows db db' \<and> (log_inv db \<longrightarrow> log_inv db') \<and> session_turns db' = session_turns db"
proof (cases "r = None")
  case True
  with assms show ?thesis
    by (auto simp: clearSessionGoal_def Let_def grows_refl split: option.splits sum.splits)
next
  case False
  then obtain gs s inputs evs where s: "find_session ws sid db = Some s"
    and app: "appendWith newId now s inputs id (db\<lparr>session_goals := gs\<rparr>) = Inr (db', evs)"
    using assms by (auto simp: clearSessionGoal_def Let_def find_session_def split: option.splits sum.splits)
  let ?db = "db\<lparr>session_goals := gs\<rparr>"
  have ext: "extends_log s (eventValues newId now s (s_last_sequence s) inputs) ?db db'"
    using app by (rule appendWith_extends) simp
  have same: "grows ?db db' = grows db db'" "log_inv ?db = log_inv db"
    using log_inv_cong [of ?db db] by (simp_all add: grows_def session_ids_def)
  have "session_turns db' = session_turns db"
    using app by (auto simp: appendWith_def insertEvents_def Let_def split: if_splits sum.splits)
  with extends_log_grows [OF ext] extends_log_inv [OF _ _ ext] find_sessionD [OF s] same show ?thesis by simp
qed

lemma world_step_grows: "grows db (world_step op db)"
proof (cases op)
  case (WWake c)
  then show ?thesis
    using wake_grows by (cases c) (auto simp: committed_def grows_refl split: sum.splits)
next
  case (WClearGoal newId now ws sid)
  then show ?thesis using clear_goal by (auto simp: committed_def grows_refl split: sum.splits)
next
  case (WPointer ws sid tid)
  then show ?thesis by (simp add: setSessionGoalLastContinuationTurn_def grows_def session_ids_def)
next
  case (WMode ws sid m)
  then show ?thesis
    using log_untouched_session [of _ db ws sid, THEN log_untouchedD]
    by (simp add: setSessionChildNotificationsMode_def log_row_def)
qed (simp_all add: log_step_grows turn_step_log goal_step_log evaluate_log log_untouchedD)

lemma log_step_turns: "session_turns (log_step op db) = session_turns db"
proof (cases "log_result op db")
  case (Inr res)
  then obtain db' evs where r: "log_result op db = Inr (db', evs)" by (cases res) auto
  then have "session_turns db' = session_turns db"
    by (cases rule: log_result_cases)
       (auto simp: appendWith_def appendSessionEventToSandboxGroup_def insertEvents_def Let_def split: if_splits sum.splits)
  with r show ?thesis by (simp add: log_step_def)
qed (simp add: log_step_def)

definition world_inv :: "session_db \<Rightarrow> bool" where
  "world_inv db \<longleftrightarrow> log_inv db \<and> turns_unique db"

lemma world_step_inv:
  assumes "world_inv db" "world_ok op db"
  shows "world_inv (world_step op db)"
proof (cases op)
  case (WLog op)
  with assms show ?thesis by (simp add: world_inv_def log_step_inv turns_unique_def log_step_turns)
next
  case (WTurn op)
  with assms show ?thesis by (simp add: world_inv_def turn_step_unique turn_step_log [THEN log_untouchedD])
next
  case (WGoal op)
  with assms show ?thesis by (simp add: world_inv_def turns_unique_def goal_step_turns goal_step_log [THEN log_untouchedD])
next
  case (WClearGoal newId now ws sid)
  with assms clear_goal show ?thesis
    by (auto simp: world_inv_def turns_unique_def committed_def split: sum.splits)
next
  case (WEvaluate pick inp)
  with assms show ?thesis by (simp add: world_inv_def turns_unique_def evaluate_turns evaluate_log [THEN log_untouchedD])
next
  case (WPointer ws sid tid)
  then have "log_untouched db (world_step op db)" "session_turns (world_step op db) = session_turns db"
    by (simp_all add: setSessionGoalLastContinuationTurn_def log_untouched_def)
  with assms(1) show ?thesis by (simp add: world_inv_def turns_unique_def log_untouchedD)
next
  case (WWake c)
  then show ?thesis
    using assms wake_grows wake_turns by (cases c) (auto simp: world_inv_def committed_def split: sum.splits)
next
  case (WMode ws sid m)
  have "log_untouched db (world_step op db)"
    by (simp add: WMode setSessionChildNotificationsMode_def log_untouched_session log_row_def)
  moreover have "session_turns (world_step op db) = session_turns db"
    by (simp add: WMode setSessionChildNotificationsMode_def)
  ultimately show ?thesis using assms(1) by (simp add: world_inv_def turns_unique_def log_untouchedD)
qed

interpretation world_run: step_invariant world_step world_ok world_inv
  by unfold_locales (rule world_step_inv)

interpretation world_grows: step_monotone world_step grows
  by unfold_locales (auto simp: grows_refl world_step_grows, auto simp: grows_def intro: prefix_order.trans)

text \<open>
  C15: a completion is delivered once. After a worker's completion was delivered to its parent, in
  whatever run of transactions follows (other wakes, appends, turns, goals, mode changes), a second
  wake with the same client event id is refused and changes nothing.
\<close>

theorem child_completion_delivered_once:
  assumes "wakeParentSessionForChildCompletion newId turnId now inp db = Inr (db1, r)" and "\<forall>why. r \<noteq> NotDelivered why"
    and "wi_workspace_id again = wi_workspace_id inp" "wi_parent_session_id again = wi_parent_session_id inp"
    and "wi_client_event_id again = wi_client_event_id inp"
  shows "\<exists>why. wakeParentSessionForChildCompletion newId' turnId' now' again (run_ops world_step ops db1)
    = Inr (run_ops world_step ops db1, NotDelivered why)"
proof -
  let ?db = "run_ops world_step ops db1" and ?ws = "wi_workspace_id inp" and ?sid = "wi_parent_session_id inp"
  obtain s vs v where s: "find_session ?ws ?sid db = Some s" "extends_log s vs db db1"
      and v: "v \<in> set vs" "er_client_event_id v = Some (wi_client_event_id inp)"
    using wake_log [OF assms(1)] assms(2) by blast
  have "log_key v \<in> set (log_keys db1)" "log_key v = ((?ws, ?sid), er_sequence v, Some (wi_client_event_id inp))"
    using s v find_sessionD [OF s(1)] by (auto simp: extends_log_def log_key_def)
  moreover have g: "grows db1 ?db" by (rule world_grows.run_rel)
  ultimately have before: "delivered_before ?ws ?sid (wi_client_event_id inp) ?db"
    unfolding delivered_before_keys grows_def by (metis set_mono_prefix subsetD)
  have "find_session ?ws ?sid ?db \<noteq> None"
    using g extends_log_grows [OF s(2)] s(1) unfolding find_session_ids grows_def
    by (metis find_session_ids option.distinct(1))
  with before assms(3-5) show ?thesis
    by (auto simp: wakeParentSessionForChildCompletion_def Let_def)
qed

fun delivers :: "session_error + session_db \<times> wake_result \<Rightarrow> bool" where
  "delivers (Inl e) = False"
| "delivers (Inr (db, NotDelivered why)) = False"
| "delivers (Inr (db, r)) = True"

definition demo_delivery :: "session_error + session_db \<times> wake_result" where
  "demo_delivery = wakeParentSessionForChildCompletion (\<lambda>q. ''e'') ''t1'' 1 (demo_wake ''c'') demo_db"

definition demo_run :: "world_op list" where
  "demo_run = [WTurn (OpClaim [] 2 ''w'' ''s'' ''wf''), WWake (\<lambda>q. ''f'', ''t2'', 3, demo_wake ''d''),
     WLog (OpAppend (\<lambda>_. ''g'') 4 ''w'' ''s'' [demo_event None]), WTurn (OpFinish 5 ''w'' ''t1'' FinIdle),
     WMode ''w'' ''s'' True]"

lemma demo_delivery_delivers: "delivers demo_delivery"
  by code_simp

lemma child_completion_delivered_once_witness:
  "\<exists>why. wakeParentSessionForChildCompletion (\<lambda>q. ''e'') ''t3'' 9 (demo_wake ''c'') (run_ops world_step demo_run (fst (projr demo_delivery)))
     = Inr (run_ops world_step demo_run (fst (projr demo_delivery)), NotDelivered why)"
proof -
  obtain db1 r where "demo_delivery = Inr (db1, r)" "\<forall>why. r \<noteq> NotDelivered why"
    using demo_delivery_delivers by (cases demo_delivery rule: delivers.cases) (metis delivers.simps wake_result.distinct)+
  then show ?thesis
    using child_completion_delivered_once [of _ "''t1''" 1 "demo_wake ''c''" demo_db db1 r "demo_wake ''c''"]
    by (simp add: demo_delivery_def)
qed

subsection \<open>Stored events\<close>

text \<open>A stored event with its payload left out: the fold of a completion rewrites one payload.\<close>

definition frozen :: "event_row \<Rightarrow> event_row" where
  "frozen e = e\<lparr>er_payload := VNull\<rparr>"

definition keeps_events :: "session_db \<Rightarrow> session_db \<Rightarrow> bool" where
  "keeps_events db db' \<longleftrightarrow> prefix (map frozen (session_events db)) (map frozen (session_events db'))"

definition appends_events :: "session_db \<Rightarrow> session_db \<Rightarrow> bool" where
  "appends_events db db' \<longleftrightarrow> prefix (session_events db) (session_events db')"

fun is_wake :: "world_op \<Rightarrow> bool" where
  "is_wake (WWake c) = True"
| "is_wake _ = False"

lemma appends_eventsI [intro]: "session_events db' = session_events db @ vs \<Longrightarrow> appends_events db db'"
  by (simp add: appends_events_def)

lemma appends_events_same: "session_events db' = session_events db \<Longrightarrow> appends_events db db'"
  by (simp add: appends_events_def)

lemma appends_keeps: "appends_events db db' \<Longrightarrow> keeps_events db db'"
  by (auto simp: appends_events_def keeps_events_def prefix_def)

lemma insertEvents_events: "insertEvents vs db = Inr db1 \<Longrightarrow> session_events db1 = session_events db @ vs"
  using insertEvents_Inr(1) [of vs db db1] by simp

lemma appendWith_events: "appendWith newId now s inputs f db = Inr (db', evs) \<Longrightarrow> appends_events db db'"
  by (auto simp: appendWith_def Let_def appends_events_def insertEvents_events split: sum.splits)

lemma log_step_appends_events: "appends_events db (log_step op db)"
proof (cases "log_result op db")
  case (Inr res)
  then obtain db' evs where r: "log_result op db = Inr (db', evs)" by (cases res) auto
  then have "appends_events db db'"
  proof (cases rule: log_result_cases)
    case (append newId now row inputs f)
    then show ?thesis by (intro appendWith_events)
  next
    case (group newId now ws grp inp)
    then show ?thesis
      by (auto simp: appendSessionEventToSandboxGroup_def Let_def appends_events_def insertEvents_events
          split: if_splits sum.splits)
  qed (simp add: appends_events_same)
  with r show ?thesis by (simp add: log_step_def)
qed (simp add: log_step_def appends_events_same)

lemma clear_goal_events:
  "clearSessionGoal newId now ws sid db = Inr (db', r) \<Longrightarrow> appends_events db db'"
  by (auto simp: clearSessionGoal_def Let_def appends_events_def dest!: appendWith_events split: option.splits sum.splits)

lemma setPositions_events [simp]: "session_events (setPositions ws i tids db) = session_events db"
  by (induction ws i tids db rule: setPositions.induct) auto

lemma turn_step_events: "session_events (turn_step op db) = session_events db"
  by (cases op)
    (auto simp: setSessionStatus_def enqueueSessionTurn_def positionForEnqueue_def shiftFrom_def createTurn_def
      claimNextQueuedTurn_def reorderQueuedSessionTurns_def reserveToolspaceCallForTurn_def cancelTurnFromDyingDispatch_def
      incrementTurnWorkerDeathRedispatches_def finishTurn_def requeuePreemptedTurn_def updateQueuedSessionTurn_def
      updateQueued_def cancelQueuedSessionTurn_def cancelQueuedSessionTurns_def committed_def update_session_def Let_def
      split: option.splits sum.splits list.splits)

lemma goal_step_events: "session_events (goal_step op db) = session_events db"
  by (cases op) (auto simp: setSessionGoalStatus_def updateSessionGoal_def upsertSessionGoal_def
      update_goal_def committed_def Let_def split: option.splits)

lemma evaluate_events: "session_events (fst (evaluateGoalContinuation pick inp db)) = session_events db"
  by (simp add: evaluateGoalContinuation_def update_goal_def Let_def split_beta split: option.splits list.splits)

lemma world_step_appends:
  assumes "\<not> is_wake op"
  shows "appends_events db (world_step op db)"
proof (cases op)
  case (WClearGoal newId now ws sid)
  then show ?thesis using clear_goal_events by (auto simp: committed_def appends_events_same split: sum.splits)
qed (use assms in \<open>simp_all add: log_step_appends_events appends_events_same turn_step_events goal_step_events evaluate_events
      setSessionGoalLastContinuationTurn_def setSessionChildNotificationsMode_def update_session_def\<close>)

lemma foldCompletion_frozen:
  "map frozen (session_events (fst (foldCompletion inp digest shown db))) = map frozen (session_events db)"
  by (simp add: foldCompletion_def Let_def map_update_where frozen_def)

lemma wakeActive_events:
  assumes "wakeActive newId turnId now inp s db = Inr (db', r)"
  shows "keeps_events db db'"
proof -
  let ?cards = "eventValues newId now s (s_last_sequence s) (cardEvents inp s)"
  obtain db1 where ins: "insertEvents ?cards db = Inr db1"
    using assms by (auto simp: wakeActive_def Let_def split: sum.splits)
  have one: "keeps_events db db1" by (simp add: insertEvents_Inr(1) [OF ins] keeps_events_def)
  show ?thesis
  proof (cases "digestTurn (wi_workspace_id inp) (s_id s) db1")
    case (Some digest)
    obtain db2 turn trigger where f: "foldCompletion inp digest (mapEvent (hd ?cards)) db1 = (db2, turn, trigger)"
      by (cases "foldCompletion inp digest (mapEvent (hd ?cards)) db1")
    then have "session_events db' = session_events db2"
      using assms ins Some by (auto simp: wakeActive_def Let_def update_session_def)
    with one foldCompletion_frozen [of inp digest "mapEvent (hd ?cards)" db1] f show ?thesis
      by (simp add: keeps_events_def)
  next
    case None
    with assms ins one show ?thesis
      by (auto simp: wakeActive_def Let_def update_session_def keeps_events_def insertEvents_events split: sum.splits)
  qed
qed

lemma wake_events:
  assumes "wakeParentSessionForChildCompletion newId turnId now inp db = Inr (db', r)"
  shows "keeps_events db db'"
  using assms
proof (cases rule: wake_cases)
  case (silent s evs)
  then show ?thesis by (intro appends_keeps appendWith_events)
qed (simp_all add: wakeActive_events appends_keeps appends_events_same)

lemma world_step_keeps: "keeps_events db (world_step op db)"
proof (cases "is_wake op")
  case True
  then obtain newId turnId now inp where "op = WWake (newId, turnId, now, inp)" by (cases op) auto
  then show ?thesis
    using wake_events by (auto simp: committed_def appends_keeps appends_events_same split: sum.splits)
qed (simp add: world_step_appends appends_keeps)

interpretation world_events: step_monotone world_step keeps_events
  by unfold_locales (auto simp: world_step_keeps, auto simp: keeps_events_def intro: prefix_order.trans)

interpretation world_quiet: step_invariant world_step "\<lambda>op db. \<not> is_wake op" "appends_events db0" for db0
  by unfold_locales (use world_step_appends in \<open>auto simp: appends_events_def intro: prefix_order.trans\<close>)

lemma admissible_quiet: "\<forall>op \<in> set ops. \<not> is_wake op \<Longrightarrow> admissible world_step (\<lambda>op db. \<not> is_wake op) ops db"
  by (induction ops arbitrary: db) simp_all


definition demo_world :: "world_op list" where
  "demo_world = [WTurn (OpEnqueue ''t1'' 1 (demo_enqueue (VObj []) False)), WLog (OpAppend (\<lambda>_. ''g'') 1 ''w'' ''s'' [demo_event None]),
     WTurn (OpClaim [] 2 ''w'' ''s'' ''wf''), WGoal (GoalUpsert ''goal'' \<lparr>gi_account_id = ''a'', gi_workspace_id = ''w'', gi_session_id = ''s'',
       gi_text = [], gi_success_criteria = None, gi_max_auto_continuations = None, gi_created_by = CreatedByApi\<rparr>),
     WClearGoal (\<lambda>_. ''h'') 3 ''w'' ''s'', WWake (\<lambda>q. ''f'', ''t2'', 4, demo_wake ''d''), WMode ''w'' ''s'' True]"


end
