(* ===== verification/Machines.thy ===== *)
theory Machines
  imports Payload
begin

text \<open>
  The user's own machines (\<^verbatim>\<open>packages/db/src/index.ts\<close>, \<^verbatim>\<open>packages/db/src/schema.ts\<close>): enrollments,
  the device-flow requests that lead to one, and the named sandboxes a session can be pointed at.
  Rows stand for the records \<^verbatim>\<open>mapEnrollment\<close>, \<^verbatim>\<open>mapDeviceEnrollmentRequest\<close> and \<^verbatim>\<open>mapSandbox\<close> copy them
  to; \<^verbatim>\<open>updated_at\<close> is left out. Each operation is one statement or one transaction.
\<close>

subsection \<open>\<^verbatim>\<open>String.prototype.trim\<close>\<close>

definition js_space :: "16 word \<Rightarrow> bool" where
  "js_space c \<longleftrightarrow> 9 \<le> c \<and> c \<le> 13 \<or> c = 32 \<or> c = 0xA0 \<or> c = 0x1680 \<or> 0x2000 \<le> c \<and> c \<le> 0x200A
     \<or> c = 0x2028 \<or> c = 0x2029 \<or> c = 0x202F \<or> c = 0x205F \<or> c = 0x3000 \<or> c = 0xFEFF"

definition js_trim :: "jstr \<Rightarrow> jstr" where
  "js_trim s = rev (dropWhile js_space (rev (dropWhile js_space s)))"

subsection \<open>Rows\<close>

datatype enrollment_status = EnrActive | EnrRevoked

datatype machine_os = Linux | MacOs | Windows

datatype sandbox_kind = Modal | Selfhosted

datatype request_status = DevPending | DevApproved | DevDenied | DevConsumed

record enrollment_row =
  n_id :: uuid
  n_account_id :: uuid
  n_workspace_id :: uuid
  n_pubkey :: string
  n_exposure :: string
  n_has_display :: bool
  n_op_stream :: bool
  n_desktop_reason :: "string option"
  n_allow_screen_control :: bool
  n_status :: enrollment_status
  n_os :: machine_os
  n_arch :: string
  n_last_seen :: "millis option"
  n_offline_at :: "millis option"
  n_offline_reason :: "string option"
  n_created_at :: millis
  n_revoked_at :: "millis option"

record device_request =
  d_id :: uuid
  d_device_code :: string
  d_user_code :: string
  d_account_id :: uuid
  d_workspace_id :: uuid
  d_pubkey :: string
  d_os :: machine_os
  d_arch :: string
  d_machine_name :: "jstr option"
  d_exposure :: string
  d_can_offer_display :: bool
  d_requests_screen_control :: bool
  d_status :: request_status
  d_approved_by :: "string option"
  d_approved_label :: "string option"
  d_allow_screen_control :: bool
  d_approved_at :: "millis option"
  d_enrollment_id :: "uuid option"
  d_sandbox_id :: "uuid option"
  d_expires_at :: millis
  d_created_at :: millis

record sandbox_row =
  b_id :: uuid
  b_account_id :: uuid
  b_workspace_id :: uuid
  b_kind :: sandbox_kind
  b_name :: jstr
  b_enrollment_id :: "uuid option"
  b_created_at :: millis

record machine_db =
  enrollments :: "enrollment_row list"
  device_requests :: "device_request list"
  sandboxes :: "sandbox_row list"

datatype machine_error = DuplicateCode | SelfhostedNeedsEnrollment | ModalWithEnrollment

subsection \<open>Enrollments\<close>

definition enrollment_is :: "uuid \<Rightarrow> uuid \<Rightarrow> enrollment_row \<Rightarrow> bool" where
  "enrollment_is ws i n \<longleftrightarrow> n_workspace_id n = ws \<and> n_id n = i"

definition update_enrollments ::
    "(enrollment_row \<Rightarrow> bool) \<Rightarrow> (enrollment_row \<Rightarrow> enrollment_row) \<Rightarrow> machine_db \<Rightarrow> machine_db" where
  "update_enrollments p f db = db\<lparr>enrollments := update_where p f (enrollments db)\<rparr>"

record enroll_input =
  ni_account_id :: uuid
  ni_workspace_id :: uuid
  ni_pubkey :: string
  ni_exposure :: string
  ni_has_display :: bool
  ni_allow_screen_control :: bool
  ni_os :: machine_os
  ni_arch :: string

definition machine_key :: "uuid \<Rightarrow> string \<Rightarrow> enrollment_row \<Rightarrow> bool" where
  "machine_key ws k n \<longleftrightarrow> n_workspace_id n = ws \<and> n_pubkey n = k"

definition freshEnrollment :: "uuid \<Rightarrow> millis \<Rightarrow> enroll_input \<Rightarrow> enrollment_row" where
  "freshEnrollment newId now inp =
     \<lparr>n_id = newId, n_account_id = ni_account_id inp, n_workspace_id = ni_workspace_id inp,
      n_pubkey = ni_pubkey inp, n_exposure = ni_exposure inp, n_has_display = ni_has_display inp,
      n_op_stream = False, n_desktop_reason = None, n_allow_screen_control = ni_allow_screen_control inp,
      n_status = EnrActive, n_os = ni_os inp, n_arch = ni_arch inp, n_last_seen = None, n_offline_at = None,
      n_offline_reason = None, n_created_at = now, n_revoked_at = None\<rparr>"

definition reactivate :: "enroll_input \<Rightarrow> enrollment_row \<Rightarrow> enrollment_row" where
  "reactivate inp n =
     n\<lparr>n_exposure := ni_exposure inp, n_has_display := ni_has_display inp,
       n_allow_screen_control := ni_allow_screen_control inp, n_os := ni_os inp, n_arch := ni_arch inp,
       n_status := EnrActive, n_revoked_at := None\<rparr>"

text \<open>The insert with \<^verbatim>\<open>on conflict (workspace_id, pubkey) do update\<close>.\<close>

definition upsertEnrollment :: "uuid \<Rightarrow> millis \<Rightarrow> enroll_input \<Rightarrow> machine_db \<Rightarrow> machine_db \<times> enrollment_row" where
  "upsertEnrollment newId now inp db =
     (let p = machine_key (ni_workspace_id inp) (ni_pubkey inp) in
      case List.find p (enrollments db) of
        Some n \<Rightarrow> (update_enrollments p (reactivate inp) db, reactivate inp n)
      | None \<Rightarrow>
          (db\<lparr>enrollments := enrollments db @ [freshEnrollment newId now inp]\<rparr>, freshEnrollment newId now inp))"

definition createEnrollment ::
    "uuid \<Rightarrow> millis \<Rightarrow> uuid \<Rightarrow> uuid \<Rightarrow> string \<Rightarrow> string option \<Rightarrow> bool option \<Rightarrow> bool option
      \<Rightarrow> machine_os option \<Rightarrow> string option \<Rightarrow> machine_db \<Rightarrow> machine_db \<times> enrollment_row" where
  "createEnrollment newId now account ws pubkey exposure hasDisplay allow mos arch db =
     upsertEnrollment newId now
       \<lparr>ni_account_id = account, ni_workspace_id = ws, ni_pubkey = pubkey,
        ni_exposure = case_option ''whole-machine'' id exposure, ni_has_display = case_option False id hasDisplay,
        ni_allow_screen_control = case_option False id allow, ni_os = case_option Linux id mos,
        ni_arch = case_option ''x86_64'' id arch\<rparr> db"

definition getEnrollment :: "uuid \<Rightarrow> uuid \<Rightarrow> machine_db \<Rightarrow> enrollment_row option" where
  "getEnrollment ws i db = List.find (enrollment_is ws i) (enrollments db)"

definition listEnrollments :: "uuid \<Rightarrow> enrollment_status option \<Rightarrow> machine_db \<Rightarrow> enrollment_row list" where
  "listEnrollments ws st db =
     rev (sort_key n_created_at (select_where
       (\<lambda>n. n_workspace_id n = ws \<and> (st = None \<or> st = Some (n_status n))) (enrollments db)))"

definition revokeEnrollment :: "millis \<Rightarrow> uuid \<Rightarrow> uuid \<Rightarrow> machine_db \<Rightarrow> machine_db \<times> bool" where
  "revokeEnrollment now ws i db =
     (let p = (\<lambda>n. enrollment_is ws i n \<and> n_status n = EnrActive) in
      (update_enrollments p (\<lambda>n. n\<lparr>n_status := EnrRevoked, n_revoked_at := Some now\<rparr>) db,
       exists_where p (enrollments db)))"

definition touchEnrollmentLastSeen :: "millis \<Rightarrow> uuid \<Rightarrow> uuid \<Rightarrow> machine_db \<Rightarrow> machine_db" where
  "touchEnrollmentLastSeen now ws i db = update_enrollments (enrollment_is ws i)
     (\<lambda>n. n\<lparr>n_last_seen := Some now, n_offline_at := None, n_offline_reason := None\<rparr>) db"

definition setEnrollmentWentOffline :: "millis \<Rightarrow> uuid \<Rightarrow> uuid \<Rightarrow> string \<Rightarrow> machine_db \<Rightarrow> machine_db" where
  "setEnrollmentWentOffline now ws i reason db = update_enrollments (enrollment_is ws i)
     (\<lambda>n. n\<lparr>n_offline_at := Some now, n_offline_reason := Some reason\<rparr>) db"

definition clearEnrollmentWentOffline :: "uuid \<Rightarrow> uuid \<Rightarrow> machine_db \<Rightarrow> machine_db \<times> bool" where
  "clearEnrollmentWentOffline ws i db =
     (let p = (\<lambda>n. enrollment_is ws i n \<and> n_offline_at n \<noteq> None) in
      (update_enrollments p (\<lambda>n. n\<lparr>n_offline_at := None, n_offline_reason := None\<rparr>) db,
       exists_where p (enrollments db)))"

definition setEnrollmentDisplayState ::
    "uuid \<Rightarrow> uuid \<Rightarrow> bool \<Rightarrow> string option \<Rightarrow> machine_db \<Rightarrow> machine_db \<times> bool" where
  "setEnrollmentDisplayState ws i hasDisplay reason db =
     (let p = (\<lambda>n. enrollment_is ws i n \<and> (n_has_display n \<noteq> hasDisplay \<or> n_desktop_reason n \<noteq> reason)) in
      (update_enrollments p (\<lambda>n. n\<lparr>n_has_display := hasDisplay, n_desktop_reason := reason\<rparr>) db,
       exists_where p (enrollments db)))"

definition setEnrollmentOpStreamState :: "uuid \<Rightarrow> uuid \<Rightarrow> bool \<Rightarrow> machine_db \<Rightarrow> machine_db \<times> bool" where
  "setEnrollmentOpStreamState ws i opStream db =
     (let p = (\<lambda>n. enrollment_is ws i n \<and> n_op_stream n \<noteq> opStream) in
      (update_enrollments p (\<lambda>n. n\<lparr>n_op_stream := opStream\<rparr>) db, exists_where p (enrollments db)))"

subsection \<open>Liveness of a machine\<close>

datatype machine_state = Online | Reconnecting | Offline

definition SELFHOSTED_RECONNECT_WINDOW_MS :: millis where
  "SELFHOSTED_RECONNECT_WINDOW_MS = 30000"

text \<open>State, consent to screen control, and display.\<close>

definition selfhostedLiveness :: "millis \<Rightarrow> enrollment_row option \<Rightarrow> bool \<Rightarrow> machine_state \<times> bool \<times> bool" where
  "selfhostedLiveness now enrollment probeResponded =
     (case enrollment of
        None \<Rightarrow> (Offline, False, False)
      | Some n \<Rightarrow>
          if n_status n \<noteq> EnrActive then (Offline, False, False)
          else
            (let consented = (n_exposure n = ''whole-machine'' \<and> n_allow_screen_control n);
                 state = (if n_offline_at n \<noteq> None then Offline
                          else if probeResponded then Online
                          else (case n_last_seen n of
                                  Some t \<Rightarrow> if now - t \<le> SELFHOSTED_RECONNECT_WINDOW_MS then Reconnecting else Offline
                                | None \<Rightarrow> Offline))
             in (state, consented, n_has_display n)))"

subsection \<open>Sandboxes\<close>

definition createSandbox ::
    "uuid \<Rightarrow> millis \<Rightarrow> uuid \<Rightarrow> uuid \<Rightarrow> sandbox_kind \<Rightarrow> jstr \<Rightarrow> uuid option \<Rightarrow> machine_db
      \<Rightarrow> machine_error + machine_db \<times> sandbox_row" where
  "createSandbox newId now account ws kind name enrollment db =
     (if kind = Selfhosted \<and> enrollment = None then Inl SelfhostedNeedsEnrollment
      else if kind \<noteq> Selfhosted \<and> enrollment \<noteq> None then Inl ModalWithEnrollment
      else
        (let b = \<lparr>b_id = newId, b_account_id = account, b_workspace_id = ws, b_kind = kind, b_name = name,
                  b_enrollment_id = enrollment, b_created_at = now\<rparr>
         in Inr (db\<lparr>sandboxes := sandboxes db @ [b]\<rparr>, b)))"

definition getSandbox :: "uuid \<Rightarrow> uuid \<Rightarrow> machine_db \<Rightarrow> sandbox_row option" where
  "getSandbox ws i db = List.find (\<lambda>b. b_workspace_id b = ws \<and> b_id b = i) (sandboxes db)"

definition listSandboxes :: "uuid \<Rightarrow> machine_db \<Rightarrow> sandbox_row list" where
  "listSandboxes ws db = rev (sort_key b_created_at (select_where (\<lambda>b. b_workspace_id b = ws) (sandboxes db)))"

end
