(* ===== verification/Enrollment.thy ===== *)
theory Enrollment
  imports Machines Complex_Main
begin

text \<open>
  Enrolling a machine: the OAuth device flow and the headless token exchange, its transactions
  (\<^verbatim>\<open>packages/db/src/index.ts\<close>), its service (\<^verbatim>\<open>apps/api/src/sandbox/enrollment.ts\<close>) and the rate limiter
  of its routes (\<^verbatim>\<open>apps/api/src/routes/enrollments.ts\<close>). Random codes, generated keys and the clock are
  arguments; so are the signing functions, whose token contents are what the model keeps.
\<close>

subsection \<open>Device requests\<close>

definition request_is :: "uuid \<Rightarrow> uuid \<Rightarrow> device_request \<Rightarrow> bool" where
  "request_is ws i d \<longleftrightarrow> d_workspace_id d = ws \<and> d_id d = i"

definition update_requests ::
    "(device_request \<Rightarrow> bool) \<Rightarrow> (device_request \<Rightarrow> device_request) \<Rightarrow> machine_db \<Rightarrow> machine_db" where
  "update_requests p f db = db\<lparr>device_requests := update_where p f (device_requests db)\<rparr>"

record device_input =
  di_account_id :: uuid
  di_workspace_id :: uuid
  di_pubkey :: string
  di_os :: machine_os
  di_arch :: string
  di_machine_name :: "jstr option"
  di_can_offer_display :: bool
  di_requests_screen_control :: bool

definition deviceRow :: "uuid \<Rightarrow> string \<Rightarrow> string \<Rightarrow> millis \<Rightarrow> millis \<Rightarrow> device_input \<Rightarrow> device_request" where
  "deviceRow newId deviceCode userCode expiresAt now inp =
     \<lparr>d_id = newId, d_device_code = deviceCode, d_user_code = userCode, d_account_id = di_account_id inp,
      d_workspace_id = di_workspace_id inp, d_pubkey = di_pubkey inp, d_os = di_os inp, d_arch = di_arch inp,
      d_machine_name = di_machine_name inp, d_exposure = ''whole-machine'',
      d_can_offer_display = di_can_offer_display inp, d_requests_screen_control = di_requests_screen_control inp,
      d_status = DevPending, d_approved_by = None, d_approved_label = None, d_allow_screen_control = False,
      d_approved_at = None, d_enrollment_id = None, d_sandbox_id = None, d_expires_at = expiresAt,
      d_created_at = now\<rparr>"

text \<open>The insert, with the unique index on the device code and the partial one on pending user codes.\<close>

definition createDeviceEnrollmentRequest ::
    "uuid \<Rightarrow> string \<Rightarrow> string \<Rightarrow> millis \<Rightarrow> millis \<Rightarrow> device_input \<Rightarrow> machine_db
      \<Rightarrow> machine_error + machine_db \<times> device_request" where
  "createDeviceEnrollmentRequest newId deviceCode userCode expiresAt now inp db =
     (if exists_where (\<lambda>d. d_device_code d = deviceCode \<or> d_user_code d = userCode \<and> d_status d = DevPending) (device_requests db)
      then Inl DuplicateCode
      else
        (let d = deviceRow newId deviceCode userCode expiresAt now inp in
         Inr (db\<lparr>device_requests := device_requests db @ [d]\<rparr>, d)))"

definition getDeviceEnrollmentRequestByDeviceCode :: "string \<Rightarrow> machine_db \<Rightarrow> device_request option" where
  "getDeviceEnrollmentRequestByDeviceCode code db = List.find (\<lambda>d. d_device_code d = code) (device_requests db)"

definition getPendingDeviceEnrollmentRequestByUserCode :: "uuid \<Rightarrow> string \<Rightarrow> machine_db \<Rightarrow> device_request option" where
  "getPendingDeviceEnrollmentRequestByUserCode ws code db =
     List.find (\<lambda>d. d_workspace_id d = ws \<and> d_user_code d = code \<and> d_status d = DevPending) (device_requests db)"

definition getPendingDeviceEnrollmentRequestByUserCodeGlobal :: "string \<Rightarrow> machine_db \<Rightarrow> device_request option" where
  "getPendingDeviceEnrollmentRequestByUserCodeGlobal code db =
     List.find (\<lambda>d. d_user_code d = code \<and> d_status d = DevPending) (device_requests db)"

subsection \<open>Finalizing an enrollment\<close>

record finalize_input =
  fi_account_id :: uuid
  fi_workspace_id :: uuid
  fi_pubkey :: string
  fi_has_display :: bool
  fi_allow_screen_control :: bool
  fi_os :: machine_os
  fi_arch :: string
  fi_sandbox_name :: jstr

definition finalizeUpsert :: "finalize_input \<Rightarrow> enroll_input" where
  "finalizeUpsert inp =
     \<lparr>ni_account_id = fi_account_id inp, ni_workspace_id = fi_workspace_id inp, ni_pubkey = fi_pubkey inp,
      ni_exposure = ''whole-machine'', ni_has_display = fi_has_display inp,
      ni_allow_screen_control = fi_allow_screen_control inp, ni_os = fi_os inp, ni_arch = fi_arch inp\<rparr>"

definition finalizeEnrollmentInScope ::
    "uuid \<Rightarrow> uuid \<Rightarrow> millis \<Rightarrow> finalize_input \<Rightarrow> machine_db \<Rightarrow> machine_db \<times> enrollment_row \<times> sandbox_row" where
  "finalizeEnrollmentInScope enrollmentId sandboxId now inp db =
     (let (db1, n) = upsertEnrollment enrollmentId now (finalizeUpsert inp) db in
      case List.find (\<lambda>b. b_workspace_id b = fi_workspace_id inp \<and> b_enrollment_id b = Some (n_id n)) (sandboxes db1) of
        Some b \<Rightarrow> (db1, n, b)
      | None \<Rightarrow>
          (let b = \<lparr>b_id = sandboxId, b_account_id = fi_account_id inp, b_workspace_id = fi_workspace_id inp,
                    b_kind = Selfhosted, b_name = fi_sandbox_name inp, b_enrollment_id = Some (n_id n),
                    b_created_at = now\<rparr>
           in (db1\<lparr>sandboxes := sandboxes db1 @ [b]\<rparr>, n, b)))"

definition finalizeEnrollmentByToken ::
    "uuid \<Rightarrow> uuid \<Rightarrow> millis \<Rightarrow> finalize_input \<Rightarrow> machine_db \<Rightarrow> machine_db \<times> enrollment_row \<times> sandbox_row" where
  "finalizeEnrollmentByToken enrollmentId sandboxId now inp db = finalizeEnrollmentInScope enrollmentId sandboxId now inp db"

record approve_input =
  av_account_id :: uuid
  av_workspace_id :: uuid
  av_request_id :: uuid
  av_allow_screen_control :: bool
  av_subject_id :: string
  av_subject_label :: "string option"
  av_sandbox_name :: jstr

definition stampApproval :: "millis \<Rightarrow> approve_input \<Rightarrow> uuid \<Rightarrow> uuid \<Rightarrow> device_request \<Rightarrow> device_request" where
  "stampApproval now inp enrollmentId sandboxId d =
     d\<lparr>d_status := DevApproved, d_allow_screen_control := av_allow_screen_control inp,
       d_approved_by := Some (av_subject_id inp), d_approved_label := av_subject_label inp,
       d_approved_at := Some now, d_enrollment_id := Some enrollmentId, d_sandbox_id := Some sandboxId\<rparr>"

definition approveFinalize :: "approve_input \<Rightarrow> device_request \<Rightarrow> finalize_input" where
  "approveFinalize inp d =
     \<lparr>fi_account_id = av_account_id inp, fi_workspace_id = av_workspace_id inp, fi_pubkey = d_pubkey d,
      fi_has_display = d_can_offer_display d, fi_allow_screen_control = av_allow_screen_control inp,
      fi_os = d_os d, fi_arch = d_arch d, fi_sandbox_name = av_sandbox_name inp\<rparr>"

definition approveDeviceEnrollmentRequest ::
    "uuid \<Rightarrow> uuid \<Rightarrow> millis \<Rightarrow> approve_input \<Rightarrow> machine_db \<Rightarrow> machine_db \<times> (enrollment_row \<times> sandbox_row) option" where
  "approveDeviceEnrollmentRequest enrollmentId sandboxId now inp db =
     (case List.find (request_is (av_workspace_id inp) (av_request_id inp)) (device_requests db) of
        None \<Rightarrow> (db, None)
      | Some d \<Rightarrow>
          if d_status d = DevDenied \<or> d_status d = DevConsumed then (db, None)
          else if d_status d = DevPending \<and> d_expires_at d \<le> now then (db, None)
          else
            (let (db1, n, b) = finalizeEnrollmentInScope enrollmentId sandboxId now (approveFinalize inp d) db in
             (update_requests (\<lambda>r. d_id r = d_id d) (stampApproval now inp (n_id n) (b_id b)) db1, Some (n, b))))"

definition denyDeviceEnrollmentRequest :: "uuid \<Rightarrow> uuid \<Rightarrow> machine_db \<Rightarrow> machine_db \<times> bool" where
  "denyDeviceEnrollmentRequest ws i db =
     (let p = (\<lambda>d. request_is ws i d \<and> d_status d = DevPending) in
      (update_requests p (\<lambda>d. d\<lparr>d_status := DevDenied\<rparr>) db, exists_where p (device_requests db)))"

definition consumeDeviceEnrollmentRequest :: "uuid \<Rightarrow> uuid \<Rightarrow> machine_db \<Rightarrow> machine_db \<times> bool" where
  "consumeDeviceEnrollmentRequest ws i db =
     (let p = (\<lambda>d. request_is ws i d \<and> d_status d = DevApproved) in
      (update_requests p (\<lambda>d. d\<lparr>d_status := DevConsumed\<rparr>) db, exists_where p (device_requests db)))"

subsection \<open>Codes and names\<close>

definition DEVICE_CODE_TTL_SECONDS :: int where
  "DEVICE_CODE_TTL_SECONDS = 600"

definition DEVICE_POLL_INTERVAL_SECONDS :: int where
  "DEVICE_POLL_INTERVAL_SECONDS = 5"

definition USER_CODE_ALPHABET :: string where
  "USER_CODE_ALPHABET = ''ABCDEFGHJKLMNPQRSTUVWXYZ23456789''"

text \<open>From the eight random bytes.\<close>

definition mintUserCode :: "nat list \<Rightarrow> string" where
  "mintUserCode bytes =
     (let out = map (\<lambda>b. USER_CODE_ALPHABET ! (b mod length USER_CODE_ALPHABET)) bytes in
      take 4 out @ ''-'' @ take 4 (drop 4 out))"

fun os_name :: "machine_os \<Rightarrow> string" where
  "os_name Linux = ''linux''"
| "os_name MacOs = ''macos''"
| "os_name Windows = ''windows''"

definition sandboxName :: "jstr option \<Rightarrow> machine_os \<Rightarrow> jstr" where
  "sandboxName machineName mos =
     (let given = (case machineName of None \<Rightarrow> [] | Some m \<Rightarrow> js_trim m) in
      take 256 (if given = [] then u16 (os_name mos @ '' machine'') else given))"

subsection \<open>Starting, approving, denying\<close>

record device_start =
  dv_device_code :: string
  dv_user_code :: string
  dv_interval :: int
  dv_expires_in :: int

text \<open>
  \<open>mint i\<close> is the key and the two codes of attempt \<open>i\<close>; up to five attempts, then the last error.
\<close>

fun startAttempts ::
    "nat \<Rightarrow> nat \<Rightarrow> (nat \<Rightarrow> uuid \<times> string \<times> string) \<Rightarrow> millis \<Rightarrow> millis \<Rightarrow> device_input \<Rightarrow> machine_db
      \<Rightarrow> machine_error option \<Rightarrow> machine_error option + machine_db \<times> device_request" where
  "startAttempts 0 i mint expiresAt now inp db err = Inl err"
| "startAttempts (Suc n) i mint expiresAt now inp db err =
     (case mint i of (newId, deviceCode, userCode) \<Rightarrow>
        (case createDeviceEnrollmentRequest newId deviceCode userCode expiresAt now inp db of
           Inr r \<Rightarrow> Inr r
         | Inl e \<Rightarrow> startAttempts n (Suc i) mint expiresAt now inp db (Some e)))"

definition startDeviceEnrollment ::
    "(nat \<Rightarrow> uuid \<times> string \<times> string) \<Rightarrow> millis \<Rightarrow> device_input \<Rightarrow> machine_db
      \<Rightarrow> machine_error option + machine_db \<times> device_start" where
  "startDeviceEnrollment mint now inp db =
     (case startAttempts 5 0 mint (now + DEVICE_CODE_TTL_SECONDS * 1000) now inp db None of
        Inl e \<Rightarrow> Inl e
      | Inr (db1, d) \<Rightarrow>
          Inr (db1, \<lparr>dv_device_code = d_device_code d, dv_user_code = d_user_code d,
                     dv_interval = DEVICE_POLL_INTERVAL_SECONDS, dv_expires_in = DEVICE_CODE_TTL_SECONDS\<rparr>))"

record consent =
  cs_account_id :: uuid
  cs_workspace_id :: uuid
  cs_user_code :: string
  cs_allow_screen_control :: bool
  cs_subject_id :: string
  cs_subject_label :: "string option"

definition approveDeviceEnrollment ::
    "(machine_db \<Rightarrow> machine_db) \<Rightarrow> uuid \<Rightarrow> uuid \<Rightarrow> millis \<Rightarrow> consent \<Rightarrow> machine_db
      \<Rightarrow> machine_db \<times> (uuid \<times> uuid \<times> bool) option" where
  "approveDeviceEnrollment env enrollmentId sandboxId now c db =
     (case getPendingDeviceEnrollmentRequestByUserCode (cs_workspace_id c) (cs_user_code c) db of
        None \<Rightarrow> (db, None)
      | Some d \<Rightarrow>
          (let (db1, r) = approveDeviceEnrollmentRequest enrollmentId sandboxId now
                 \<lparr>av_account_id = cs_account_id c, av_workspace_id = cs_workspace_id c, av_request_id = d_id d,
                  av_allow_screen_control = cs_allow_screen_control c, av_subject_id = cs_subject_id c,
                  av_subject_label = cs_subject_label c, av_sandbox_name = sandboxName (d_machine_name d) (d_os d)\<rparr>
                 (env db)
           in (db1, map_option (\<lambda>(n, b). (n_id n, b_id b, n_allow_screen_control n)) r)))"

definition lookupDeviceEnrollment :: "string \<Rightarrow> machine_db \<Rightarrow> device_request option" where
  "lookupDeviceEnrollment userCode db = getPendingDeviceEnrollmentRequestByUserCodeGlobal userCode db"

definition denyDeviceEnrollment ::
    "(machine_db \<Rightarrow> machine_db) \<Rightarrow> uuid \<Rightarrow> string \<Rightarrow> machine_db \<Rightarrow> machine_db \<times> bool" where
  "denyDeviceEnrollment env ws userCode db =
     (case getPendingDeviceEnrollmentRequestByUserCode ws userCode db of
        None \<Rightarrow> (db, False)
      | Some d \<Rightarrow> denyDeviceEnrollmentRequest ws (d_id d) (env db))"

subsection \<open>Credentials\<close>

record bearer_claims =
  bc_workspace_id :: uuid
  bc_agent_id :: uuid
  bc_enrollment_id :: uuid
  bc_subject_prefix :: string
  bc_exp :: int

record relay_claims =
  rc_workspace_id :: uuid
  rc_agent_id :: uuid
  rc_exp :: int

record enroll_claims =
  ec_workspace_id :: uuid
  ec_account_id :: uuid
  ec_allow_screen_control :: bool
  ec_iat :: int
  ec_exp :: int

text \<open>The settings, and the token functions of \<^verbatim>\<open>packages/contracts\<close> the service calls.\<close>

record enrollment_services =
  es_signing_secret :: "string option"
  es_relay_secret :: "string option"
  es_nats_url :: "string option"
  es_relay_url :: string
  es_update_public_key :: string
  es_sign_bearer :: "string \<Rightarrow> bearer_claims \<Rightarrow> string"
  es_sign_relay :: "string \<Rightarrow> relay_claims \<Rightarrow> string"
  es_sign_enroll :: "string \<Rightarrow> enroll_claims \<Rightarrow> string"
  es_verify_enroll :: "string \<Rightarrow> string \<Rightarrow> int \<Rightarrow> enroll_claims option"

record credentials =
  cr_agent_id :: uuid
  cr_workspace_id :: uuid
  cr_bearer :: string
  cr_subject_prefix :: string
  cr_nats_urls :: "string list"
  cr_relay_url :: string
  cr_relay_token :: string
  cr_nats_account_creds :: string
  cr_update_public_key :: string
  cr_consented_whole_machine :: bool
  cr_consented_screen_control :: bool

definition ENROLLMENT_BEARER_TTL_SECONDS :: int where
  "ENROLLMENT_BEARER_TTL_SECONDS = 30 * 24 * 3600"

definition RELAY_TOKEN_TTL_SECONDS :: int where
  "RELAY_TOKEN_TTL_SECONDS = 30 * 24 * 3600"

definition ENROLL_TOKEN_TTL_SECONDS :: int where
  "ENROLL_TOKEN_TTL_SECONDS = 3600"

definition buildEnrollmentCredentials ::
    "enrollment_services \<Rightarrow> millis \<Rightarrow> string \<Rightarrow> uuid \<Rightarrow> uuid \<Rightarrow> bool \<Rightarrow> credentials" where
  "buildEnrollmentCredentials sv now secret ws agent screen =
     (let prefix = ''agent.'' @ ws @ ''.'' @ agent;
          bearer = es_sign_bearer sv secret
            \<lparr>bc_workspace_id = ws, bc_agent_id = agent, bc_enrollment_id = agent, bc_subject_prefix = prefix,
             bc_exp = now div 1000 + ENROLLMENT_BEARER_TTL_SECONDS\<rparr>
      in \<lparr>cr_agent_id = agent, cr_workspace_id = ws, cr_bearer = bearer, cr_subject_prefix = prefix,
          cr_nats_urls = (case es_nats_url sv of Some u \<Rightarrow> (if u = [] then [] else [u]) | None \<Rightarrow> []),
          cr_relay_url = es_relay_url sv,
          cr_relay_token = (case es_relay_secret sv of
              None \<Rightarrow> []
            | Some k \<Rightarrow> es_sign_relay sv k
                \<lparr>rc_workspace_id = ws, rc_agent_id = agent, rc_exp = now div 1000 + RELAY_TOKEN_TTL_SECONDS\<rparr>),
          cr_nats_account_creds = bearer, cr_update_public_key = es_update_public_key sv,
          cr_consented_whole_machine = True, cr_consented_screen_control = screen\<rparr>)"

datatype poll_result = PollExpired | PollPending | PollDenied | PollDisabled | PollAuthorized credentials

definition pollDeviceEnrollment ::
    "(nat \<Rightarrow> machine_db \<Rightarrow> machine_db) \<Rightarrow> enrollment_services \<Rightarrow> millis \<Rightarrow> string \<Rightarrow> machine_db \<Rightarrow> machine_db \<times> poll_result" where
  "pollDeviceEnrollment env sv now code db =
     (case getDeviceEnrollmentRequestByDeviceCode code db of
        None \<Rightarrow> (db, PollExpired)
      | Some d \<Rightarrow>
          if d_status d = DevDenied then (db, PollDenied)
          else if d_status d = DevPending then (db, if d_expires_at d \<le> now then PollExpired else PollPending)
          else
            (case d_enrollment_id d of
               None \<Rightarrow> (db, PollExpired)
             | Some i \<Rightarrow>
                 (case es_signing_secret sv of
                    None \<Rightarrow> (db, PollDisabled)
                  | Some secret \<Rightarrow>
                      (let db1 = env 1 db in
                       case getEnrollment (d_workspace_id d) i db1 of
                         None \<Rightarrow> (db1, PollDenied)
                       | Some n \<Rightarrow>
                           if n_status n \<noteq> EnrActive then (db1, PollDenied)
                           else
                             (let cr = buildEnrollmentCredentials sv now secret (d_workspace_id d) (n_id n) (n_allow_screen_control n);
                                  db2 = env 2 db1
                              in (if d_status d = DevApproved
                                  then fst (consumeDeviceEnrollmentRequest (d_workspace_id d) (d_id d) db2) else db2,
                                  PollAuthorized cr))))))"

subsection \<open>The headless token\<close>

definition mintEnrollToken :: "enrollment_services \<Rightarrow> millis \<Rightarrow> uuid \<Rightarrow> uuid \<Rightarrow> bool \<Rightarrow> (string \<times> int) option" where
  "mintEnrollToken sv now account ws allow =
     (case es_signing_secret sv of
        None \<Rightarrow> None
      | Some secret \<Rightarrow>
          (let nowSeconds = now div 1000; e = nowSeconds + ENROLL_TOKEN_TTL_SECONDS in
           Some (es_sign_enroll sv secret
             \<lparr>ec_workspace_id = ws, ec_account_id = account, ec_allow_screen_control = allow, ec_iat = nowSeconds,
              ec_exp = e\<rparr>, e)))"

datatype exchange_refusal = ExchangeDisabled | ExchangeInvalid

record exchange_input =
  xi_token :: string
  xi_pubkey :: string
  xi_os :: machine_os
  xi_arch :: string
  xi_machine_name :: "jstr option"
  xi_can_offer_display :: bool

definition exchangeEnrollToken ::
    "enrollment_services \<Rightarrow> uuid \<Rightarrow> uuid \<Rightarrow> millis \<Rightarrow> exchange_input \<Rightarrow> machine_db
      \<Rightarrow> machine_db \<times> (exchange_refusal + credentials)" where
  "exchangeEnrollToken sv enrollmentId sandboxId now inp db =
     (case es_signing_secret sv of
        None \<Rightarrow> (db, Inl ExchangeDisabled)
      | Some secret \<Rightarrow>
          (case es_verify_enroll sv secret (xi_token inp) (now div 1000) of
             None \<Rightarrow> (db, Inl ExchangeInvalid)
           | Some c \<Rightarrow>
               (let (db1, n, b) = finalizeEnrollmentByToken enrollmentId sandboxId now
                      \<lparr>fi_account_id = ec_account_id c, fi_workspace_id = ec_workspace_id c, fi_pubkey = xi_pubkey inp,
                       fi_has_display = xi_can_offer_display inp, fi_allow_screen_control = ec_allow_screen_control c,
                       fi_os = xi_os inp, fi_arch = xi_arch inp,
                       fi_sandbox_name = sandboxName (xi_machine_name inp) (xi_os inp)\<rparr> db
                in (db1, Inr (buildEnrollmentCredentials sv now secret (ec_workspace_id c) (n_id n) (n_allow_screen_control n))))))"

subsection \<open>The rate limiter\<close>

text \<open>Tokens are exact rationals here; the code has them as floating-point numbers.\<close>

record bucket =
  bk_tokens :: rat
  bk_updated_at :: millis

record token_bucket =
  tb_capacity :: rat
  tb_refill_per_second :: rat
  tb_buckets :: "(string \<times> bucket) list"

definition refilled :: "token_bucket \<Rightarrow> millis \<Rightarrow> bucket \<Rightarrow> bucket" where
  "refilled tb now b =
     \<lparr>bk_tokens = min (tb_capacity tb) (bk_tokens b + max 0 (of_int (now - bk_updated_at b) / 1000) * tb_refill_per_second tb),
      bk_updated_at = now\<rparr>"

definition take_token :: "string \<Rightarrow> millis \<Rightarrow> token_bucket \<Rightarrow> token_bucket \<times> bool" where
  "take_token key now tb =
     (let b = refilled tb now (case map_of (tb_buckets tb) key of Some b \<Rightarrow> b | None \<Rightarrow> \<lparr>bk_tokens = tb_capacity tb, bk_updated_at = now\<rparr>);
          pruned = (if tb_capacity tb \<le> bk_tokens b \<and> 10000 < length (tb_buckets tb)
                    then AList.delete key (tb_buckets tb) else tb_buckets tb)
      in if bk_tokens b < 1 then (tb\<lparr>tb_buckets := AList.update key b pruned\<rparr>, False)
         else (tb\<lparr>tb_buckets := AList.update key (b\<lparr>bk_tokens := bk_tokens b - 1\<rparr>) pruned\<rparr>, True))"

end
