(* ===== verification/Enrollment_Props.thy ===== *)
theory Enrollment_Props
  imports Enrollment
begin

text \<open>
  The properties of machine enrollment: the tables' invariant, the life of a device request, who gets
  credentials, and the rate limiter.
\<close>

subsection \<open>The operations as steps\<close>

datatype machine_op =
    OpRequest uuid string string millis millis device_input
  | OpApprove uuid uuid millis approve_input
  | OpDeny uuid uuid
  | OpConsume uuid uuid
  | OpToken uuid uuid millis finalize_input
  | OpEnroll uuid millis enroll_input
  | OpRevoke millis uuid uuid
  | OpSeen millis uuid uuid
  | OpOffline millis uuid uuid string
  | OpClearOffline uuid uuid
  | OpDisplay uuid uuid bool "string option"
  | OpOpStream uuid uuid bool
  | OpSandbox uuid millis uuid uuid sandbox_kind jstr "uuid option"

fun machine_step :: "machine_op \<Rightarrow> machine_db \<Rightarrow> machine_db" where
  "machine_step (OpRequest newId dc uc e now inp) db =
     (case createDeviceEnrollmentRequest newId dc uc e now inp db of Inl _ \<Rightarrow> db | Inr (db', _) \<Rightarrow> db')"
| "machine_step (OpApprove n b now inp) db = fst (approveDeviceEnrollmentRequest n b now inp db)"
| "machine_step (OpDeny ws i) db = fst (denyDeviceEnrollmentRequest ws i db)"
| "machine_step (OpConsume ws i) db = fst (consumeDeviceEnrollmentRequest ws i db)"
| "machine_step (OpToken n b now inp) db = fst (finalizeEnrollmentByToken n b now inp db)"
| "machine_step (OpEnroll newId now inp) db = fst (upsertEnrollment newId now inp db)"
| "machine_step (OpRevoke now ws i) db = fst (revokeEnrollment now ws i db)"
| "machine_step (OpSeen now ws i) db = touchEnrollmentLastSeen now ws i db"
| "machine_step (OpOffline now ws i r) db = setEnrollmentWentOffline now ws i r db"
| "machine_step (OpClearOffline ws i) db = fst (clearEnrollmentWentOffline ws i db)"
| "machine_step (OpDisplay ws i h r) db = fst (setEnrollmentDisplayState ws i h r db)"
| "machine_step (OpOpStream ws i v) db = fst (setEnrollmentOpStreamState ws i v db)"
| "machine_step (OpSandbox newId now account ws k name e) db =
     (case createSandbox newId now account ws k name e db of Inl _ \<Rightarrow> db | Inr (db', _) \<Rightarrow> db')"

text \<open>Generated keys are new.\<close>

definition fresh_enrollment :: "uuid \<Rightarrow> machine_db \<Rightarrow> bool" where
  "fresh_enrollment i db \<longleftrightarrow> i \<notin> n_id ` set (enrollments db)"

fun machine_ok :: "machine_op \<Rightarrow> machine_db \<Rightarrow> bool" where
  "machine_ok (OpRequest newId _ _ _ _ _) db = (newId \<notin> d_id ` set (device_requests db))"
| "machine_ok (OpApprove n _ _ _) db = fresh_enrollment n db"
| "machine_ok (OpToken n _ _ _) db = fresh_enrollment n db"
| "machine_ok (OpEnroll n _ _) db = fresh_enrollment n db"
| "machine_ok _ db = True"

subsection \<open>The invariant\<close>

definition enrollment_key :: "enrollment_row \<Rightarrow> uuid \<times> string" where
  "enrollment_key n = (n_workspace_id n, n_pubkey n)"

text \<open>A request that was approved names its approver and the enrollment of its workspace and public key.\<close>

definition request_ok :: "machine_db \<Rightarrow> device_request \<Rightarrow> bool" where
  "request_ok db d \<longleftrightarrow> (d_status d \<in> {DevApproved, DevConsumed} \<longrightarrow>
     d_approved_by d \<noteq> None
     \<and> (\<exists>n \<in> set (enrollments db). d_enrollment_id d = Some (n_id n)
          \<and> n_workspace_id n = d_workspace_id d \<and> n_pubkey n = d_pubkey d))"

definition machine_inv :: "machine_db \<Rightarrow> bool" where
  "machine_inv db \<longleftrightarrow> distinct (map n_id (enrollments db)) \<and> distinct (map enrollment_key (enrollments db))
     \<and> distinct (map d_id (device_requests db)) \<and> distinct (map d_device_code (device_requests db))
     \<and> (\<forall>d \<in> set (device_requests db). request_ok db d)"

text \<open>Enrollments are kept, with their keys: what a step may do to the enrollment table.\<close>

definition keeps_machines :: "machine_db \<Rightarrow> machine_db \<Rightarrow> bool" where
  "keeps_machines db db' \<longleftrightarrow> (\<exists>vs. map (\<lambda>n. (n_id n, enrollment_key n)) (enrollments db')
     = map (\<lambda>n. (n_id n, enrollment_key n)) (enrollments db) @ vs)"

definition machines_unique :: "machine_db \<Rightarrow> bool" where
  "machines_unique db \<longleftrightarrow> distinct (map n_id (enrollments db)) \<and> distinct (map enrollment_key (enrollments db))"

lemma update_enrollments_fields [simp]:
  "device_requests (update_enrollments p f db) = device_requests db" "sandboxes (update_enrollments p f db) = sandboxes db"
  "enrollments (update_enrollments p f db) = update_where p f (enrollments db)"
  by (simp_all add: update_enrollments_def)

lemma update_requests_fields [simp]:
  "device_requests (update_requests p g db) = update_where p g (device_requests db)"
  "sandboxes (update_requests p g db) = sandboxes db" "enrollments (update_requests p g db) = enrollments db"
  by (simp_all add: update_requests_def)

lemma keeps_machines_refl: "enrollments db' = enrollments db \<Longrightarrow> keeps_machines db db'"
  by (simp add: keeps_machines_def)

lemma keeps_machines_update:
  assumes "\<And>n. n_id (f n) = n_id n \<and> n_workspace_id (f n) = n_workspace_id n \<and> n_pubkey (f n) = n_pubkey n"
  shows "keeps_machines db (update_enrollments p f db)" "machines_unique (update_enrollments p f db) = machines_unique db"
  using assms by (simp_all add: keeps_machines_def machines_unique_def map_update_where enrollment_key_def)

lemma keeps_machinesD:
  assumes "keeps_machines db db'" "n \<in> set (enrollments db)"
  shows "\<exists>m \<in> set (enrollments db'). n_id m = n_id n \<and> n_workspace_id m = n_workspace_id n \<and> n_pubkey m = n_pubkey n"
proof -
  obtain vs where vs: "map (\<lambda>n. (n_id n, enrollment_key n)) (enrollments db')
      = map (\<lambda>n. (n_id n, enrollment_key n)) (enrollments db) @ vs"
    using assms(1) by (auto simp: keeps_machines_def)
  have "(n_id n, enrollment_key n) \<in> set (map (\<lambda>n. (n_id n, enrollment_key n)) (enrollments db'))"
    unfolding vs using assms(2) by simp
  then show ?thesis by (auto simp: enrollment_key_def)
qed

lemma request_ok_mono: "keeps_machines db db' \<Longrightarrow> request_ok db d \<Longrightarrow> request_ok db' d"
  unfolding request_ok_def by (metis keeps_machinesD)

lemma upsert_machines:
  assumes "machines_unique db" "fresh_enrollment newId db"
  shows "keeps_machines db (fst (upsertEnrollment newId now inp db))"
    and "machines_unique (fst (upsertEnrollment newId now inp db))"
    and "\<exists>n \<in> set (enrollments (fst (upsertEnrollment newId now inp db))). n = snd (upsertEnrollment newId now inp db)
      \<and> n_workspace_id n = ni_workspace_id inp \<and> n_pubkey n = ni_pubkey inp"
    and "device_requests (fst (upsertEnrollment newId now inp db)) = device_requests db"
proof -
  let ?p = "machine_key (ni_workspace_id inp) (ni_pubkey inp)"
  have "keeps_machines db (fst (upsertEnrollment newId now inp db)) \<and> machines_unique (fst (upsertEnrollment newId now inp db))
    \<and> (\<exists>n \<in> set (enrollments (fst (upsertEnrollment newId now inp db))). n = snd (upsertEnrollment newId now inp db)
      \<and> n_workspace_id n = ni_workspace_id inp \<and> n_pubkey n = ni_pubkey inp)
    \<and> device_requests (fst (upsertEnrollment newId now inp db)) = device_requests db"
  proof (cases "List.find ?p (enrollments db)")
    case None
    then have "(ni_workspace_id inp, ni_pubkey inp) \<notin> enrollment_key ` set (enrollments db)"
      by (auto simp: enrollment_key_def machine_key_def dest: find_NoneD)
    with None assms show ?thesis
      by (simp add: upsertEnrollment_def Let_def keeps_machines_def machines_unique_def fresh_enrollment_def freshEnrollment_def
          enrollment_key_def)
  next
    case (Some n)
    have keep: "n_id (reactivate inp n) = n_id n \<and> n_workspace_id (reactivate inp n) = n_workspace_id n
        \<and> n_pubkey (reactivate inp n) = n_pubkey n" for n
      by (simp add: reactivate_def)
    from find_SomeD [OF Some] keep [of n] show ?thesis
      using keeps_machines_update [where f = "reactivate inp" and p = ?p] keep assms(1)
      by (auto simp: upsertEnrollment_def Let_def Some set_update_where machine_key_def)
  qed
  then show "keeps_machines db (fst (upsertEnrollment newId now inp db))"
    and "machines_unique (fst (upsertEnrollment newId now inp db))"
    and "\<exists>n \<in> set (enrollments (fst (upsertEnrollment newId now inp db))). n = snd (upsertEnrollment newId now inp db)
      \<and> n_workspace_id n = ni_workspace_id inp \<and> n_pubkey n = ni_pubkey inp"
    and "device_requests (fst (upsertEnrollment newId now inp db)) = device_requests db" by blast+
qed

lemma finalize_rows:
  assumes "finalizeEnrollmentInScope n b' now inp db = (db1, e, b)"
  shows "enrollments db1 = enrollments (fst (upsertEnrollment n now (finalizeUpsert inp) db))
    \<and> device_requests db1 = device_requests (fst (upsertEnrollment n now (finalizeUpsert inp) db))
    \<and> e = snd (upsertEnrollment n now (finalizeUpsert inp) db)"
  using assms by (cases "upsertEnrollment n now (finalizeUpsert inp) db")
    (auto simp: finalizeEnrollmentInScope_def Let_def split: option.splits)

lemma finalize_machines:
  assumes "machines_unique db" "fresh_enrollment n db"
    and "finalizeEnrollmentInScope n b' now inp db = (db1, e, b)"
  shows "keeps_machines db db1 \<and> machines_unique db1 \<and> device_requests db1 = device_requests db
    \<and> e \<in> set (enrollments db1) \<and> n_workspace_id e = fi_workspace_id inp \<and> n_pubkey e = fi_pubkey inp"
proof -
  note up = upsert_machines [OF assms(1,2), of now "finalizeUpsert inp"]
  note finalize_rows [OF assms(3)]
  moreover have "ni_workspace_id (finalizeUpsert inp) = fi_workspace_id inp" "ni_pubkey (finalizeUpsert inp) = fi_pubkey inp"
    by (simp_all add: finalizeUpsert_def)
  ultimately show ?thesis using up by (auto simp: keeps_machines_def machines_unique_def)
qed

subsection \<open>The life of a device request\<close>

definition request_key :: "device_request \<Rightarrow> uuid \<times> uuid \<times> string \<times> string \<times> millis" where
  "request_key d = (d_id d, d_workspace_id d, d_device_code d, d_pubkey d, d_expires_at d)"

text \<open>An approval that takes effect: of this request, still open, and within its time to live.\<close>

fun approves :: "machine_op \<Rightarrow> device_request \<Rightarrow> bool" where
  "approves (OpApprove n b now inp) d \<longleftrightarrow>
     av_workspace_id inp = d_workspace_id d \<and> av_request_id inp = d_id d
     \<and> (d_status d = DevPending \<and> now < d_expires_at d \<or> d_status d = DevApproved)"
| "approves _ d = False"

definition request_change :: "machine_op \<Rightarrow> device_request \<Rightarrow> device_request \<Rightarrow> bool" where
  "request_change op d d' \<longleftrightarrow> request_key d' = request_key d \<and>
     (d' = d
      \<or> approves op d \<and> d_status d' = DevApproved
      \<or> d_status d = DevPending \<and> d_status d' = DevDenied
      \<or> d_status d = DevApproved \<and> d_status d' = DevConsumed \<and> d_enrollment_id d' = d_enrollment_id d
          \<and> d_approved_by d' = d_approved_by d)"

lemma request_change_refl: "request_change op d d"
  by (simp add: request_change_def)

lemma request_changes:
  assumes "machine_inv db" "d \<in> set (device_requests db)"
    and "\<And>d. d \<in> set (device_requests db) \<Longrightarrow> p d \<Longrightarrow> request_change op d (f d)"
  shows "\<exists>d' \<in> set (update_where p f (device_requests db)). request_change op d d'"
  using assms(2,3) request_change_refl by (cases "p d") (force simp: set_update_where)+

lemma request_keys_update:
  "(\<And>d. request_key (f d) = request_key d) \<Longrightarrow> map request_key (update_where p f ds) = map request_key ds"
  by (rule map_update_where)

lemma approve_cases:
  assumes "machine_inv db" "fresh_enrollment n db"
  obtains "approveDeviceEnrollmentRequest n b now inp db = (db, None)"
  | d db1 e x where "d \<in> set (device_requests db)" "approves (OpApprove n b now inp) d"
      "approveDeviceEnrollmentRequest n b now inp db
        = (update_requests (\<lambda>r. d_id r = d_id d) (stampApproval now inp (n_id e) (b_id x)) db1, Some (e, x))"
      "keeps_machines db db1" "machines_unique db1" "device_requests db1 = device_requests db"
      "e \<in> set (enrollments db1)" "n_workspace_id e = d_workspace_id d" "n_pubkey e = d_pubkey d"
proof (cases "List.find (request_is (av_workspace_id inp) (av_request_id inp)) (device_requests db)")
  case None
  then show ?thesis by (intro that(1)) (simp add: approveDeviceEnrollmentRequest_def)
next
  case (Some d)
  show ?thesis
  proof (cases "approves (OpApprove n b now inp) d")
    case True
    obtain db1 e x where f: "finalizeEnrollmentInScope n b now (approveFinalize inp d) db = (db1, e, x)"
      by (cases "finalizeEnrollmentInScope n b now (approveFinalize inp d) db")
    have "machines_unique db" using assms(1) by (simp add: machine_inv_def machines_unique_def)
    note fin = finalize_machines [OF this assms(2) f]
    have d: "d \<in> set (device_requests db)" "d_workspace_id d = av_workspace_id inp"
      using find_SomeD [OF Some] by (simp_all add: request_is_def)
    show ?thesis
    proof (rule that(2) [of d e x db1, OF d(1) True])
      show "approveDeviceEnrollmentRequest n b now inp db
        = (update_requests (\<lambda>r. d_id r = d_id d) (stampApproval now inp (n_id e) (b_id x)) db1, Some (e, x))"
        unfolding approveDeviceEnrollmentRequest_def Some using True by (auto simp: f)
    qed (use fin d in \<open>simp_all add: approveFinalize_def\<close>)
  next
    case False
    then show ?thesis
      using find_SomeD [OF Some] by (cases "d_status d") (auto simp: approveDeviceEnrollmentRequest_def Some request_is_def intro: that(1))
  qed
qed

lemma request_key_id: "request_key d = request_key e \<Longrightarrow> d_id d = d_id e \<and> d_device_code d = d_device_code e
    \<and> d_workspace_id d = d_workspace_id e \<and> d_pubkey d = d_pubkey e \<and> d_expires_at d = d_expires_at e"
  by (simp add: request_key_def)

lemma inv_request_unique:
  "machine_inv db \<Longrightarrow> d \<in> set (device_requests db) \<Longrightarrow> e \<in> set (device_requests db) \<Longrightarrow> d_id d = d_id e \<Longrightarrow> d = e"
  unfolding machine_inv_def by (blast dest: distinct_map_inj)

text \<open>What a step does to the requests and to the machines.\<close>

definition step_effect :: "machine_op \<Rightarrow> machine_db \<Rightarrow> machine_db \<Rightarrow> bool" where
  "step_effect op db db' \<longleftrightarrow> keeps_machines db db' \<and> machines_unique db'
     \<and> (\<forall>d \<in> set (device_requests db). \<exists>d' \<in> set (device_requests db'). request_change op d d')
     \<and> (\<exists>vs. map request_key (device_requests db') = map request_key (device_requests db) @ vs
          \<and> distinct (map fst (map request_key (device_requests db) @ vs))
          \<and> distinct (map (\<lambda>k. fst (snd (snd k))) (map request_key (device_requests db) @ vs)))
     \<and> (\<forall>d \<in> set (device_requests db'). request_ok db' d)"

lemma step_effect_inv: "step_effect op db db' \<Longrightarrow> machine_inv db'"
proof -
  assume e: "step_effect op db db'"
  then obtain vs where vs: "map request_key (device_requests db') = map request_key (device_requests db) @ vs"
      "distinct (map fst (map request_key (device_requests db) @ vs))"
      "distinct (map (\<lambda>k. fst (snd (snd k))) (map request_key (device_requests db) @ vs))"
    unfolding step_effect_def by blast
  have "map d_id (device_requests db') = map fst (map request_key (device_requests db'))"
    "map d_device_code (device_requests db') = map (\<lambda>k. fst (snd (snd k))) (map request_key (device_requests db'))"
    by (simp_all add: request_key_def)
  with vs e show ?thesis by (simp add: machine_inv_def step_effect_def machines_unique_def)
qed

lemma inv_keys:
  assumes "machine_inv db"
  shows "distinct (map fst (map request_key (device_requests db)))"
    and "distinct (map (\<lambda>k. fst (snd (snd k))) (map request_key (device_requests db)))"
  using assms by (simp_all add: machine_inv_def o_def request_key_def)

text \<open>Steps that keep the requests.\<close>

lemma step_effect_machines:
  assumes "machine_inv db" "keeps_machines db db'" "machines_unique db'" "device_requests db' = device_requests db"
  shows "step_effect op db db'"
  using assms inv_keys [OF assms(1)] request_ok_mono [OF assms(2)] request_change_refl
  by (auto simp: step_effect_def machine_inv_def)

text \<open>Steps that keep the machines and update requests.\<close>

lemma step_effect_requests:
  assumes "machine_inv db" "\<And>d. d \<in> set (device_requests db) \<Longrightarrow> p d \<Longrightarrow> request_change op d (f d) \<and> request_ok db (f d)"
    and "\<And>d. request_key (f d) = request_key d"
  shows "step_effect op db (update_requests p f db)"
proof -
  have "request_ok (update_requests p f db) d" if "d \<in> set (update_where p f (device_requests db))" for d
    using that assms(1,2) by (auto simp: set_update_where machine_inv_def request_ok_def split: if_splits)
  then show ?thesis
    using assms(1) request_changes [OF assms(1), of _ p op f] assms(2) inv_keys [OF assms(1)]
    by (auto simp: step_effect_def keeps_machines_refl request_keys_update [OF assms(3)] machine_inv_def machines_unique_def)
qed

lemma keeps_machines_trans_requests:
  "keeps_machines db db1 \<Longrightarrow> keeps_machines db (update_requests p f db1)"
  by (simp add: keeps_machines_def)

lemma approve_effect:
  assumes inv: "machine_inv db" and "fresh_enrollment n db"
  shows "step_effect (OpApprove n b now inp) db (fst (approveDeviceEnrollmentRequest n b now inp db))"
  using assms
proof (cases rule: approve_cases [where b = b and now = now and inp = inp])
  case 1
  with inv show ?thesis
    by (simp add: step_effect_machines keeps_machines_refl machines_unique_def machine_inv_def)
next
  case (2 d db1 e x)
  have inv1: "machine_inv db1"
    using step_effect_inv [OF step_effect_machines [OF inv 2(4,5,6)]] .
  let ?f = "stampApproval now inp (n_id e) (b_id x)"
  have "step_effect (OpApprove n b now inp) db1 (update_requests (\<lambda>r. d_id r = d_id d) ?f db1)"
  proof (rule step_effect_requests [OF inv1])
    fix r assume r: "r \<in> set (device_requests db1)" "d_id r = d_id d"
    then have "r = d" using inv_request_unique [OF inv, of r d] 2(1,6) by simp
    then show "request_change (OpApprove n b now inp) r (?f r) \<and> request_ok db1 (?f r)"
      using 2(2,7-9) by (auto simp: request_change_def request_key_def stampApproval_def request_ok_def)
  qed (simp add: request_key_def stampApproval_def)
  then show ?thesis using 2(3,4,6) by (simp add: step_effect_def keeps_machines_def)
qed

lemma request_effect:
  assumes "machine_inv db" "newId \<notin> d_id ` set (device_requests db)"
    and "createDeviceEnrollmentRequest newId dc uc e now inp db = Inr (db', d)"
  shows "step_effect (OpRequest newId dc uc e now inp) db db'"
proof -
  have db': "db' = db\<lparr>device_requests := device_requests db @ [deviceRow newId dc uc e now inp]\<rparr>"
    and fresh: "dc \<notin> d_device_code ` set (device_requests db)"
    using assms(3) by (auto simp: createDeviceEnrollmentRequest_def Let_def exists_where_iff split: if_splits)
  let ?row = "deviceRow newId dc uc e now inp"
  have km: "keeps_machines db db'" by (rule keeps_machines_refl) (simp add: db')
  have mu: "machines_unique db'" using assms(1) by (simp add: db' machine_inv_def machines_unique_def)
  have "\<exists>d' \<in> set (device_requests db'). request_change (OpRequest newId dc uc e now inp) d d'"
    if "d \<in> set (device_requests db)" for d
    using that request_change_refl by (auto simp: db')
  moreover have "distinct (map fst (map request_key (device_requests db) @ [request_key ?row]))"
    "distinct (map (\<lambda>k. fst (snd (snd k))) (map request_key (device_requests db) @ [request_key ?row]))"
    using inv_keys [OF assms(1)] assms(2) fresh by (auto simp: request_key_def deviceRow_def)
  moreover have "request_ok db' d" if "d \<in> set (device_requests db')" for d
    using that request_ok_mono [OF km] assms(1)
    by (auto simp: db' machine_inv_def) (simp add: request_ok_def deviceRow_def)
  ultimately show ?thesis
    using km mu unfolding step_effect_def by (intro conjI exI [of _ "[request_key ?row]"]) (auto simp: db')
qed

lemma machine_step_effect:
  assumes "machine_inv db" "machine_ok op db"
  shows "step_effect op db (machine_step op db)"
proof -
  have mu: "machines_unique db" using assms(1) by (simp add: machine_inv_def machines_unique_def)
  note same = step_effect_machines [OF assms(1) keeps_machines_refl]
  have upd: "step_effect q db (update_enrollments p f db)"
    if "\<And>n. n_id (f n) = n_id n \<and> n_workspace_id (f n) = n_workspace_id n \<and> n_pubkey (f n) = n_pubkey n" for p f q
    using keeps_machines_update [where f = f and p = p, OF that] mu by (intro step_effect_machines [OF assms(1)]) auto
  show ?thesis
  proof (cases op)
    case (OpRequest newId dc uc e now inp)
    with assms request_effect same [of db] mu show ?thesis by (auto split: sum.splits)
  next
    case (OpApprove n b now inp)
    with assms approve_effect show ?thesis by simp
  next
    case (OpDeny ws i)
    have "step_effect op db (update_requests (\<lambda>d. request_is ws i d \<and> d_status d = DevPending) (\<lambda>d. d\<lparr>d_status := DevDenied\<rparr>) db)"
      by (rule step_effect_requests [OF assms(1)]) (auto simp: request_change_def request_key_def request_ok_def)
    then show ?thesis by (simp add: OpDeny denyDeviceEnrollmentRequest_def Let_def)
  next
    case (OpConsume ws i)
    have "step_effect op db (update_requests (\<lambda>d. request_is ws i d \<and> d_status d = DevApproved) (\<lambda>d. d\<lparr>d_status := DevConsumed\<rparr>) db)"
      using assms(1) by (intro step_effect_requests) (auto simp: request_change_def request_key_def request_ok_def machine_inv_def)
    then show ?thesis by (simp add: OpConsume consumeDeviceEnrollmentRequest_def Let_def)
  next
    case (OpToken n b now inp)
    then show ?thesis
      using assms finalize_machines [OF mu, of n b now inp]
      by (cases "finalizeEnrollmentInScope n b now inp db") (auto simp: finalizeEnrollmentByToken_def intro!: step_effect_machines)
  next
    case (OpEnroll n now inp)
    with assms upsert_machines [OF mu, of n now inp] show ?thesis by (auto intro!: step_effect_machines)
  next
    case (OpSandbox newId now account ws k name e)
    then show ?thesis
      using mu by (auto simp: createSandbox_def Let_def machines_unique_def intro!: same split: sum.splits if_splits)
  qed (auto simp: revokeEnrollment_def touchEnrollmentLastSeen_def setEnrollmentWentOffline_def clearEnrollmentWentOffline_def
        setEnrollmentDisplayState_def setEnrollmentOpStreamState_def Let_def intro!: upd)
qed

lemma machine_step_inv: "machine_inv db \<Longrightarrow> machine_ok op db \<Longrightarrow> machine_inv (machine_step op db)"
  using machine_step_effect step_effect_inv by blast

interpretation machine_run: step_invariant machine_step machine_ok machine_inv
  by unfold_locales (rule machine_step_inv)

lemma run_machines:
  "machine_inv db \<Longrightarrow> admissible machine_step machine_ok ops db \<Longrightarrow> keeps_machines db (run_ops machine_step ops db)"
proof (induction ops arbitrary: db)
  case (Cons op ops)
  have eff: "step_effect op db (machine_step op db)" using Cons.prems by (simp add: machine_step_effect)
  have "keeps_machines (machine_step op db) (run_ops machine_step ops (machine_step op db))"
    using Cons.prems(2) by (intro Cons.IH step_effect_inv [OF eff]) simp
  with eff show ?case by (auto simp: step_effect_def keeps_machines_def)
qed (simp add: keeps_machines_refl)

text \<open>Following one request through a run.\<close>

lemma run_request:
  assumes "machine_inv db" "admissible machine_step machine_ok ops db" "d \<in> set (device_requests db)" "P d"
    and "\<And>op d d'. op \<in> set ops \<Longrightarrow> request_change op d d' \<Longrightarrow> P d \<Longrightarrow> P d'"
  shows "\<exists>d' \<in> set (device_requests (run_ops machine_step ops db)). request_key d' = request_key d \<and> P d'"
  using assms
proof (induction ops arbitrary: db d)
  case (Cons op ops)
  have eff: "step_effect op db (machine_step op db)" using Cons.prems by (simp add: machine_step_effect)
  then obtain d1 where d1: "d1 \<in> set (device_requests (machine_step op db))" "request_change op d d1"
    using Cons.prems(3) unfolding step_effect_def by blast
  have "P d1" using Cons.prems(5) [OF _ d1(2) Cons.prems(4)] by simp
  then obtain d2 where "d2 \<in> set (device_requests (run_ops machine_step ops (machine_step op db)))"
      "request_key d2 = request_key d1" "P d2"
    using Cons.IH [OF step_effect_inv [OF eff] _ d1(1)] Cons.prems(2,5) by auto
  moreover have "request_key d1 = request_key d" using d1(2) by (simp add: request_change_def)
  ultimately show ?case by auto
qed auto

lemma device_code_found:
  assumes "machine_inv db" "d \<in> set (device_requests db)"
  shows "getDeviceEnrollmentRequestByDeviceCode (d_device_code d) db = Some d"
  using assms unfolding getDeviceEnrollmentRequestByDeviceCode_def machine_inv_def by (intro find_unique) auto

subsection \<open>Who gets credentials\<close>

lemma poll_closed:
  assumes "getDeviceEnrollmentRequestByDeviceCode code db = Some d" "d_status d \<in> {DevPending, DevDenied}"
  shows "fst (pollDeviceEnrollment env sv now code db) = db
    \<and> snd (pollDeviceEnrollment env sv now code db) \<in> {PollExpired, PollPending, PollDenied}
    \<and> (d_status d = DevDenied \<longrightarrow> snd (pollDeviceEnrollment env sv now code db) = PollDenied)"
  using assms by (auto simp: pollDeviceEnrollment_def)

lemma poll_open:
  assumes "getDeviceEnrollmentRequestByDeviceCode code db = Some d"
    and "snd (pollDeviceEnrollment env sv now code db) = PollAuthorized cr"
  shows "d_status d \<in> {DevApproved, DevConsumed} \<and> (\<exists>n. d_enrollment_id d = Some (n_id n) \<and> cr_agent_id cr = n_id n
    \<and> n \<in> set (enrollments (env 1 db)) \<and> n_workspace_id n = d_workspace_id d \<and> n_status n = EnrActive)"
proof -
  obtain i n where "d_status d \<in> {DevApproved, DevConsumed}" "d_enrollment_id d = Some i"
    "getEnrollment (d_workspace_id d) i (env 1 db) = Some n" "n_status n = EnrActive" "cr_agent_id cr = n_id n"
    using assms by (cases "d_status d")
      (auto simp: pollDeviceEnrollment_def Let_def buildEnrollmentCredentials_def split: option.splits if_splits)
  then show ?thesis
    by (intro conjI exI [of _ n]) (auto simp: getEnrollment_def enrollment_is_def dest!: find_SomeD)
qed

text \<open>
  C17: no credentials without consent. If polling a device code yields credentials, then between the
  start of its request and the poll an approval was given for exactly that request, in its workspace
  and before its time to live ran out, and the credentials name the active enrollment of the public
  key the machine presented at the start.
\<close>

theorem device_credentials_need_consent:
  assumes "machine_inv db" and "d \<in> set (device_requests db)" and "d_status d = DevPending"
    and "admissible machine_step machine_ok ops db"
    and "admissible machine_step machine_ok between (run_ops machine_step ops db)"
    and "snd (pollDeviceEnrollment (\<lambda>i. if i = 1 then run_ops machine_step between else env i) sv now (d_device_code d)
           (run_ops machine_step ops db)) = PollAuthorized cr"
  shows "(\<exists>n b t inp. OpApprove n b t inp \<in> set ops \<and> av_request_id inp = d_id d
      \<and> av_workspace_id inp = d_workspace_id d \<and> t < d_expires_at d)
    \<and> (\<exists>n \<in> set (enrollments (run_ops machine_step between (run_ops machine_step ops db))).
         n_id n = cr_agent_id cr \<and> n_status n = EnrActive \<and> n_workspace_id n = d_workspace_id d \<and> n_pubkey n = d_pubkey d)"
proof
  let ?db = "run_ops machine_step ops db" and ?env = "\<lambda>i::nat. if i = 1 then run_ops machine_step between else env i"
  have inv: "machine_inv ?db" using assms(1,4) by (rule machine_run.run_inv)
  have found: "getDeviceEnrollmentRequestByDeviceCode (d_device_code d) ?db = Some d'"
    if "d' \<in> set (device_requests ?db)" "request_key d' = request_key d" for d'
    using device_code_found [OF inv that(1)] that(2) by (simp add: request_key_def)
  show "\<exists>n b t inp. OpApprove n b t inp \<in> set ops \<and> av_request_id inp = d_id d
      \<and> av_workspace_id inp = d_workspace_id d \<and> t < d_expires_at d"
  proof (rule ccontr)
    assume none: "\<not> ?thesis"
    let ?P = "\<lambda>e. request_key e = request_key d \<and> d_status e \<in> {DevPending, DevDenied}"
    have kept: "?P e'" if "op \<in> set ops" "request_change op e e'" "?P e" for op e e'
    proof -
      have "\<not> approves op e"
      proof
        assume "approves op e"
        with that(3) obtain n b t inp where "op = OpApprove n b t inp" "av_request_id inp = d_id e"
          "av_workspace_id inp = d_workspace_id e" "t < d_expires_at e" by (cases op) auto
        with that(1,3) none show False by (auto dest: request_key_id)
      qed
      with that(2,3) show ?thesis by (auto simp: request_change_def)
    qed
    obtain d' where "d' \<in> set (device_requests ?db)" "?P d'"
      using run_request [OF assms(1,4,2), of ?P] kept assms(3) by auto
    with poll_closed [OF found, of d' ?env sv now] assms(6) show False by auto
  qed
  obtain d' where d': "d' \<in> set (device_requests ?db)" "request_key d' = request_key d"
    using run_request [OF assms(1,4,2), of "\<lambda>_. True"] by auto
  from poll_open [OF found [OF d'] assms(6)] obtain m where m: "d_status d' \<in> {DevApproved, DevConsumed}"
    "d_enrollment_id d' = Some (n_id m)" "cr_agent_id cr = n_id m" "m \<in> set (enrollments (run_ops machine_step between ?db))"
    "n_workspace_id m = d_workspace_id d'" "n_status m = EnrActive" by auto
  have inv2: "machine_inv (run_ops machine_step between ?db)" using inv assms(5) by (rule machine_run.run_inv)
  obtain n where n: "n \<in> set (enrollments ?db)" "d_enrollment_id d' = Some (n_id n)"
      "n_workspace_id n = d_workspace_id d'" "n_pubkey n = d_pubkey d'"
    using inv d'(1) m(1) by (auto simp: machine_inv_def request_ok_def)
  obtain n' where n': "n' \<in> set (enrollments (run_ops machine_step between ?db))" "n_id n' = n_id n" "n_pubkey n' = n_pubkey n"
    using keeps_machinesD [OF run_machines [OF inv assms(5)] n(1)] by blast
  have "n' = m" using inv2 n' m(2,4) n(2) by (auto simp: machine_inv_def dest: distinct_map_inj)
  then show "\<exists>n \<in> set (enrollments (run_ops machine_step between ?db)).
      n_id n = cr_agent_id cr \<and> n_status n = EnrActive \<and> n_workspace_id n = d_workspace_id d \<and> n_pubkey n = d_pubkey d"
    using m n(4) n'(3) request_key_id [OF d'(2)] by (intro bexI [of _ m]) auto
qed

definition demo_device :: device_input where
  "demo_device = \<lparr>di_account_id = ''a'', di_workspace_id = ''w'', di_pubkey = ''key'', di_os = Linux, di_arch = ''x86_64'',
     di_machine_name = None, di_can_offer_display = True, di_requests_screen_control = False\<rparr>"

definition demo_request :: device_request where
  "demo_request = deviceRow ''r'' ''device'' ''USER'' 600000 0 demo_device"

definition demo_machines :: machine_db where
  "demo_machines = \<lparr>enrollments = [], device_requests = [demo_request], sandboxes = []\<rparr>"

definition demo_enrollment_services :: enrollment_services where
  "demo_enrollment_services = \<lparr>es_signing_secret = Some ''secret'', es_relay_secret = None, es_nats_url = None, es_relay_url = [],
     es_update_public_key = [], es_sign_bearer = (\<lambda>k c. bc_agent_id c), es_sign_relay = (\<lambda>k c. []), es_sign_enroll = (\<lambda>k c. []),
     es_verify_enroll = (\<lambda>k t n. None)\<rparr>"

definition demo_approval :: approve_input where
  "demo_approval = \<lparr>av_account_id = ''a'', av_workspace_id = ''w'', av_request_id = ''r'', av_allow_screen_control = False,
     av_subject_id = ''admin'', av_subject_label = None, av_sandbox_name = []\<rparr>"

lemma demo_machines_inv: "machine_inv demo_machines"
  by (simp add: machine_inv_def demo_machines_def request_ok_def demo_request_def deviceRow_def)

lemma demo_request_in: "demo_request \<in> set (device_requests demo_machines)" "d_status demo_request = DevPending"
    "d_device_code demo_request = ''device''"
  by (simp_all add: demo_machines_def demo_request_def deviceRow_def)

fun authorized :: "poll_result \<Rightarrow> bool" where
  "authorized (PollAuthorized cr) = True"
| "authorized _ = False"

lemma device_credentials_need_consent_witness:
  "\<exists>n \<in> set (enrollments (run_ops machine_step [OpSeen 2 ''w'' ''n'']
      (run_ops machine_step [OpApprove ''n'' ''b'' 1 demo_approval] demo_machines))). n_pubkey n = ''key'' \<and> n_status n = EnrActive"
proof -
  let ?ops = "[OpApprove ''n'' ''b'' 1 demo_approval]" and ?between = "[OpSeen 2 ''w'' ''n'']"
  let ?poll = "snd (pollDeviceEnrollment (\<lambda>i. if i = 1 then run_ops machine_step ?between else id) demo_enrollment_services 3 ''device''
      (run_ops machine_step ?ops demo_machines))"
  have "authorized ?poll" by code_simp
  then obtain cr where cr: "?poll = PollAuthorized cr" by (cases ?poll) auto
  have "admissible machine_step machine_ok ?ops demo_machines"
    by (simp add: fresh_enrollment_def demo_machines_def)
  moreover have "admissible machine_step machine_ok ?between (run_ops machine_step ?ops demo_machines)" by simp
  ultimately show ?thesis
    using device_credentials_need_consent [OF demo_machines_inv demo_request_in(1,2), of ?ops ?between "\<lambda>_. id" demo_enrollment_services 3 cr] cr
    by (auto simp: demo_request_in(3) demo_request_def deviceRow_def demo_device_def)
qed

text \<open>
  A refusal is final. Once a request is denied, every later poll of its device code is refused
  and changes nothing, whatever runs in between, approvals of the same request included.
\<close>

theorem denied_request_stays_denied:
  assumes "machine_inv db" and "d \<in> set (device_requests db)" and "d_status d = DevDenied"
    and "admissible machine_step machine_ok ops db"
  shows "pollDeviceEnrollment env sv now (d_device_code d) (run_ops machine_step ops db)
    = (run_ops machine_step ops db, PollDenied)"
proof -
  let ?db = "run_ops machine_step ops db"
  have kept: "d_status e' = DevDenied" if "request_change op e e'" "d_status e = DevDenied" for op e e'
    using that by (cases op) (auto simp: request_change_def)
  obtain d' where d': "d' \<in> set (device_requests ?db)" "request_key d' = request_key d" "d_status d' = DevDenied"
    using run_request [OF assms(1,4,2), of "\<lambda>e. d_status e = DevDenied"] kept assms(3) by blast
  have "machine_inv ?db" using assms(1,4) by (rule machine_run.run_inv)
  from device_code_found [OF this d'(1)] d'(2,3) show ?thesis
    by (simp add: pollDeviceEnrollment_def request_key_def)
qed

lemma denied_request_stays_denied_witness:
  "snd (pollDeviceEnrollment (\<lambda>_. id) demo_enrollment_services 3 ''device''
     (run_ops machine_step [OpApprove ''n'' ''b'' 2 demo_approval] (machine_step (OpDeny ''w'' ''r'') demo_machines))) = PollDenied"
proof -
  let ?db = "machine_step (OpDeny ''w'' ''r'') demo_machines"
  have rows: "device_requests ?db = [demo_request\<lparr>d_status := DevDenied\<rparr>]"
    by (simp add: denyDeviceEnrollmentRequest_def demo_machines_def demo_request_def deviceRow_def request_is_def demo_device_def Let_def)
  have "machine_inv ?db" by (intro machine_step_inv demo_machines_inv) simp
  moreover have "admissible machine_step machine_ok [OpApprove ''n'' ''b'' 2 demo_approval] ?db"
    by (simp add: fresh_enrollment_def demo_machines_def denyDeviceEnrollmentRequest_def Let_def)
  ultimately show ?thesis
    using denied_request_stays_denied [of ?db "demo_request\<lparr>d_status := DevDenied\<rparr>"
        "[OpApprove ''n'' ''b'' 2 demo_approval]" "\<lambda>_. id" demo_enrollment_services 3] rows demo_request_in(3)
    by simp
qed

subsection \<open>The rate limiter\<close>

text \<open>A caller's requests, each with its time.\<close>

fun takes :: "string \<Rightarrow> millis list \<Rightarrow> token_bucket \<Rightarrow> token_bucket \<times> nat" where
  "takes key [] tb = (tb, 0)"
| "takes key (t # ts) tb =
     (let (tb1, granted) = take_token key t tb; (tb2, n) = takes key ts tb1 in (tb2, (if granted then 1 else 0) + n))"

definition bucket_of :: "token_bucket \<Rightarrow> string \<Rightarrow> millis \<Rightarrow> bucket" where
  "bucket_of tb key now = (case map_of (tb_buckets tb) key of Some b \<Rightarrow> b | None \<Rightarrow> \<lparr>bk_tokens = tb_capacity tb, bk_updated_at = now\<rparr>)"

lemma take_token_bucket:
  "map_of (tb_buckets (fst (take_token key now tb))) key
    = Some ((refilled tb now (bucket_of tb key now))\<lparr>bk_tokens := bk_tokens (refilled tb now (bucket_of tb key now))
        - (if snd (take_token key now tb) then 1 else 0)\<rparr>)"
  "snd (take_token key now tb) \<longleftrightarrow> 1 \<le> bk_tokens (refilled tb now (bucket_of tb key now))"
  "tb_capacity (fst (take_token key now tb)) = tb_capacity tb"
  "tb_refill_per_second (fst (take_token key now tb)) = tb_refill_per_second tb"
  by (auto simp: take_token_def bucket_of_def [symmetric] Let_def update_conv' not_less)

text \<open>Delete-then-update leaves the key in: the limiter never forgets a caller.\<close>

lemma limiter_never_prunes:
  "fst ` set (tb_buckets (fst (take_token key now tb))) = insert key (fst ` set (tb_buckets tb))"
proof -
  have "fst ` set (AList.delete key al) = fst ` set al - {key}" for al :: "(string \<times> bucket) list"
    using delete_keys [of key al] by (metis set_map set_removeAll)
  then show ?thesis by (auto simp: take_token_def Let_def dom_update)
qed

lemma takes_bound:
  assumes "map_of (tb_buckets tb) key = Some b" "0 \<le> bk_tokens b" "0 \<le> tb_refill_per_second tb" "0 \<le> tb_capacity tb"
    and "sorted (bk_updated_at b # ts)" "\<forall>t \<in> set ts. t \<le> hi" "bk_updated_at b \<le> hi"
  shows "of_nat (snd (takes key ts tb)) \<le> bk_tokens b + of_int (hi - bk_updated_at b) / 1000 * tb_refill_per_second tb"
  using assms
proof (induction ts arbitrary: tb b)
  case Nil
  then show ?case by simp
next
  case (Cons t ts)
  let ?r = "tb_refill_per_second tb" and ?tb = "fst (take_token key t tb)" and ?g = "snd (take_token key t tb)"
  have "bucket_of tb key t = b" using Cons.prems(1) by (simp add: bucket_of_def)
  note take = take_token_bucket [of key t tb, unfolded this]
  let ?b = "(refilled tb t b)\<lparr>bk_tokens := bk_tokens (refilled tb t b) - (if ?g then 1 else 0)\<rparr>"
  have up: "bk_updated_at b \<le> t" "t \<le> hi" using Cons.prems(5,6) by simp_all
  have mine: "0 \<le> of_int (t - bk_updated_at b) / 1000 * ?r"
    using up(1) Cons.prems(3) by (intro mult_nonneg_nonneg) auto
  have tok: "0 \<le> bk_tokens (refilled tb t b)"
      "bk_tokens (refilled tb t b) \<le> bk_tokens b + of_int (t - bk_updated_at b) / 1000 * ?r"
    using Cons.prems(2,4) mine up(1) by (auto simp: refilled_def max_def min_def)
  have "of_nat (snd (takes key ts ?tb)) \<le> bk_tokens ?b + of_int (hi - bk_updated_at ?b) / 1000 * tb_refill_per_second ?tb"
  proof (rule Cons.IH [OF take(1)])
    show "0 \<le> bk_tokens ?b" using tok(1) take(2) by auto
  qed (use Cons.prems take up in \<open>auto simp: refilled_def\<close>)
  then have "of_nat (snd (takes key ts ?tb)) \<le> bk_tokens (refilled tb t b) - (if ?g then 1 else 0) + of_int (hi - t) / 1000 * ?r"
    by (cases ?g) (simp_all add: take(4), simp_all add: refilled_def)
  moreover have "of_int (t - bk_updated_at b) / 1000 * ?r + of_int (hi - t) / 1000 * ?r = of_int (hi - bk_updated_at b) / 1000 * ?r"
    by (simp add: field_simps)
  ultimately show ?case using tok(2) by (auto simp: split_beta Let_def)
qed

text \<open>
  The rate limiter's bound. In any stretch of time one caller is granted at most the bucket's
  capacity plus the refill of that stretch, however its requests are spaced.
\<close>

theorem rate_limit_bounded:
  assumes "0 \<le> tb_refill_per_second tb" and "0 \<le> tb_capacity tb" and "sorted (t # ts)"
    and "\<forall>b. map_of (tb_buckets tb) key = Some b \<longrightarrow> 0 \<le> bk_tokens b"
  shows "of_nat (snd (takes key (t # ts) tb)) \<le> tb_capacity tb + of_int (last (t # ts) - t) / 1000 * tb_refill_per_second tb"
proof -
  let ?b = "refilled tb t (bucket_of tb key t)" and ?tb = "fst (take_token key t tb)" and ?g = "snd (take_token key t tb)"
  note take = take_token_bucket [of key t tb]
  have range: "0 \<le> bk_tokens ?b" "bk_tokens ?b \<le> tb_capacity tb" "bk_updated_at ?b = t"
    using assms(1,2,4) by (auto simp: refilled_def bucket_of_def split: option.splits)
  have le: "t \<le> last (t # ts)" "\<forall>u \<in> set ts. u \<le> last (t # ts)"
    using assms(3) by (cases ts rule: rev_cases; auto simp: sorted_append)+
  let ?c = "?b\<lparr>bk_tokens := bk_tokens ?b - (if ?g then 1 else 0)\<rparr>"
  have "of_nat (snd (takes key ts ?tb)) \<le> bk_tokens ?c + of_int (last (t # ts) - bk_updated_at ?c) / 1000 * tb_refill_per_second ?tb"
  proof (rule takes_bound [OF take(1)])
    show "0 \<le> bk_tokens ?c" using range(1) take(2) by auto
  qed (use assms take range le in auto)
  then show ?thesis using range by (auto simp: split_beta Let_def take(4))
qed

lemma rate_limit_bounded_witness:
  "of_nat (snd (takes ''ip'' [0, 0, 0, 500, 1000] \<lparr>tb_capacity = 2, tb_refill_per_second = 1, tb_buckets = []\<rparr>)) \<le> (3 :: rat)"
  using rate_limit_bounded [of "\<lparr>tb_capacity = 2, tb_refill_per_second = 1, tb_buckets = []\<rparr>" 0 "[0, 0, 500, 1000]" "''ip''"] by simp

end
