(* ===== verification/Fleet.thy ===== *)
theory Fleet
  imports Machines Turn_Queue
begin

text \<open>
  The session's active sandbox and the fleet: the epoch-fenced pointer (\<^verbatim>\<open>packages/db/src/index.ts\<close>) and
  the fleet service that lists, resolves and swaps to a sandbox (\<^verbatim>\<open>packages/core/src/sandbox/fleet.ts\<close>,
  with the admission predicate of \<^verbatim>\<open>packages/runtime/src/sandbox/routing/backend-resolver.ts\<close>). The
  answer of a machine to a ping is an argument. \<open>env\<close> is what other callers do between two of the
  service's transactions.
\<close>

subsection \<open>The pointer\<close>

record active_pointer =
  pt_sandbox_id :: "uuid option"
  pt_epoch :: int
  pt_working_dir :: "string option"

definition pointerOf :: "session_row \<Rightarrow> active_pointer" where
  "pointerOf s = \<lparr>pt_sandbox_id = s_active_sandbox_id s, pt_epoch = s_active_epoch s, pt_working_dir = s_working_dir s\<rparr>"

definition readActiveSandbox :: "uuid \<Rightarrow> uuid \<Rightarrow> session_db \<Rightarrow> active_pointer option" where
  "readActiveSandbox ws sid db = map_option pointerOf (find_session ws sid db)"

definition repoint :: "uuid option \<Rightarrow> string option option \<Rightarrow> session_row \<Rightarrow> session_row" where
  "repoint target workingDir s =
     s\<lparr>s_active_sandbox_id := target, s_active_epoch := s_active_epoch s + 1,
       s_working_dir := or_else workingDir (s_working_dir s)\<rparr>"

definition setActiveSandbox ::
    "uuid \<Rightarrow> uuid \<Rightarrow> uuid option \<Rightarrow> int \<Rightarrow> string option option \<Rightarrow> session_db
      \<Rightarrow> session_db \<times> active_pointer option" where
  "setActiveSandbox ws sid target expected workingDir db =
     (let p = (\<lambda>s. session_is ws sid s \<and> s_active_epoch s = expected) in
      (db\<lparr>sessions := update_where p (repoint target workingDir) (sessions db)\<rparr>,
       map_option (\<lambda>s. pointerOf (repoint target workingDir s)) (List.find p (sessions db))))"

record fleet_db =
  fl_sessions :: session_db
  fl_machines :: machine_db

text \<open>
  A sandbox row goes when a cascade deletes it. The foreign key of the pointer is \<^verbatim>\<open>ON DELETE SET NULL\<close>:
  the sessions that point at the row fall back to their own box, at the epoch they had.
\<close>

definition deleteSandbox :: "uuid \<Rightarrow> fleet_db \<Rightarrow> fleet_db" where
  "deleteSandbox i db =
     \<lparr>fl_sessions = (fl_sessions db)\<lparr>sessions := update_where (\<lambda>s. s_active_sandbox_id s = Some i)
        (\<lambda>s. s\<lparr>s_active_sandbox_id := None\<rparr>) (sessions (fl_sessions db))\<rparr>,
      fl_machines = (fl_machines db)\<lparr>sandboxes := delete_where (\<lambda>b. b_id b = i) (sandboxes (fl_machines db))\<rparr>\<rparr>"

text \<open>The join of a machine's sandboxes with the sessions whose pointer is at one and that run a turn.\<close>

definition sessionsWithActiveOpOnEnrollment :: "uuid \<Rightarrow> uuid \<Rightarrow> fleet_db \<Rightarrow> (uuid \<times> uuid) list" where
  "sessionsWithActiveOpOnEnrollment ws enrollment db =
     List.map_filter (\<lambda>(s, b). map_option (Pair (s_id s)) (s_active_turn_id s))
       (sort_key (\<lambda>(s, b). (s_created_at s, s_id s))
         [(s, b). b \<leftarrow> sandboxes (fl_machines db), s \<leftarrow> sessions (fl_sessions db),
            s_active_sandbox_id s = Some (b_id b) \<and> b_workspace_id b = ws \<and> b_kind b = Selfhosted
            \<and> b_enrollment_id b = Some enrollment \<and> s_active_turn_id s \<noteq> None])"

subsection \<open>The fleet\<close>

record fleet_context =
  fc_account_id :: uuid
  fc_workspace_id :: uuid
  fc_session_id :: uuid
  fc_session_backend :: string
  fc_session_group_id :: uuid

datatype fleet_error = FleetSessionNotFound | FleetNoSandbox

definition buildFleetContextForSession :: "uuid \<Rightarrow> uuid \<Rightarrow> uuid \<Rightarrow> session_db \<Rightarrow> fleet_error + fleet_context" where
  "buildFleetContextForSession account ws sid db =
     (case find_session ws sid db of
        None \<Rightarrow> Inl FleetSessionNotFound
      | Some s \<Rightarrow>
          if s_sandbox_backend s = ''none'' then Inl FleetNoSandbox
          else Inr \<lparr>fc_account_id = account, fc_workspace_id = ws, fc_session_id = sid,
                    fc_session_backend = s_sandbox_backend s, fc_session_group_id = s_sandbox_group_id s\<rparr>)"

text \<open>\<open>ping i\<close>: the agent of enrollment \<open>i\<close> answers. A failed ping counts as no answer.\<close>

definition probeEnrollment :: "(uuid \<Rightarrow> bool) \<Rightarrow> millis \<Rightarrow> enrollment_row \<Rightarrow> machine_state \<times> bool \<times> bool" where
  "probeEnrollment ping now n = selfhostedLiveness now (Some n) (n_status n = EnrActive \<and> ping (n_id n))"

record fleet_entry =
  fe_id :: uuid
  fe_kind :: sandbox_kind
  fe_liveness :: machine_state
  fe_active :: bool
  fe_session_group :: bool
  fe_enrollment_id :: "uuid option"
  fe_attachable :: bool
  fe_consented :: "bool option"
  fe_has_display :: "bool option"

definition default_pointer :: active_pointer where
  "default_pointer = \<lparr>pt_sandbox_id = None, pt_epoch = 0, pt_working_dir = None\<rparr>"

definition pointer_or_default :: "uuid \<Rightarrow> uuid \<Rightarrow> session_db \<Rightarrow> active_pointer" where
  "pointer_or_default ws sid db = or_else (readActiveSandbox ws sid db) default_pointer"

definition groupEntry :: "fleet_context \<Rightarrow> active_pointer \<Rightarrow> fleet_entry" where
  "groupEntry ctx p =
     \<lparr>fe_id = fc_session_group_id ctx, fe_kind = (if fc_session_backend ctx = ''selfhosted'' then Selfhosted else Modal),
      fe_liveness = Online, fe_active = (pt_sandbox_id p = None), fe_session_group = True, fe_enrollment_id = None,
      fe_attachable = True, fe_consented = None, fe_has_display = None\<rparr>"

definition machineEntry ::
    "(uuid \<Rightarrow> bool) \<Rightarrow> millis \<Rightarrow> active_pointer \<Rightarrow> uuid \<Rightarrow> machine_db \<Rightarrow> sandbox_row \<Rightarrow> fleet_entry option" where
  "machineEntry ping now p ws db b =
     (case b_enrollment_id b of
        None \<Rightarrow> None
      | Some e \<Rightarrow>
          if b_kind b \<noteq> Selfhosted then None
          else
            (let (state, consented, display) =
                   (case getEnrollment ws e db of None \<Rightarrow> (Offline, False, False) | Some n \<Rightarrow> probeEnrollment ping now n)
             in Some \<lparr>fe_id = b_id b, fe_kind = Selfhosted, fe_liveness = state,
                      fe_active = (pt_sandbox_id p = Some (b_id b)), fe_session_group = False, fe_enrollment_id = Some e,
                      fe_attachable = (state = Online), fe_consented = Some consented, fe_has_display = Some display\<rparr>))"

text \<open>One consistent reading of the tables; the code reads them one statement after the other.\<close>

definition listFleet ::
    "(uuid \<Rightarrow> bool) \<Rightarrow> millis \<Rightarrow> fleet_context \<Rightarrow> fleet_db \<Rightarrow> uuid option \<times> int \<times> fleet_entry list" where
  "listFleet ping now ctx db =
     (let p = pointer_or_default (fc_workspace_id ctx) (fc_session_id ctx) (fl_sessions db) in
      (pt_sandbox_id p, pt_epoch p,
       groupEntry ctx p # List.map_filter (machineEntry ping now p (fc_workspace_id ctx) (fl_machines db))
         (listSandboxes (fc_workspace_id ctx) (fl_machines db))))"

subsection \<open>Admission and swap\<close>

datatype unresolvable_code =
    StalePointer
  | OfflineEnrollment
  | UnsupportedBackendContext
  | TransientEstablishment
  | HomeUnavailableThisTurn

fun kind_name :: "sandbox_kind \<Rightarrow> string" where
  "kind_name Modal = ''modal''"
| "kind_name Selfhosted = ''selfhosted''"

text \<open>\<open>None\<close> is \<^verbatim>\<open>{ ok: true }\<close>. The kind is any text: the predicate is also asked about backends that are no rows.\<close>

definition swapTargetEstablishability :: "string \<Rightarrow> bool \<Rightarrow> unresolvable_code option" where
  "swapTargetEstablishability kind isSessionGroup =
     (if isSessionGroup then None
      else if kind = ''selfhosted'' then None
      else if kind = ''modal'' then Some UnsupportedBackendContext
      else Some UnsupportedBackendContext)"

definition resolveTarget ::
    "(nat \<Rightarrow> fleet_db \<Rightarrow> fleet_db) \<Rightarrow> (uuid \<Rightarrow> bool) \<Rightarrow> millis \<Rightarrow> fleet_context \<Rightarrow> string \<Rightarrow> fleet_db
      \<Rightarrow> fleet_db \<times> (unresolvable_code + uuid option)" where
  "resolveTarget env ping now ctx target db =
     (if target = fc_session_group_id ctx \<or> target = ''session'' \<or> target = ''default'' then (db, Inr None)
      else
        (case getSandbox (fc_workspace_id ctx) target (fl_machines db) of
           None \<Rightarrow> (db, Inl StalePointer)
         | Some b \<Rightarrow>
             (case swapTargetEstablishability (kind_name (b_kind b)) False of
                Some code \<Rightarrow> (db, Inl code)
              | None \<Rightarrow>
                  if b_kind b = Selfhosted then
                    (case b_enrollment_id b of
                       None \<Rightarrow> (db, Inl OfflineEnrollment)
                     | Some e \<Rightarrow>
                         (let db1 = env 0 db in
                          case getEnrollment (fc_workspace_id ctx) e (fl_machines db1) of
                            None \<Rightarrow> (db1, Inl OfflineEnrollment)
                          | Some n \<Rightarrow>
                              if fst (probeEnrollment ping now n) \<noteq> Online then (db1, Inl OfflineEnrollment)
                              else (db1, Inr (Some (b_id b)))))
                  else (db, Inr (Some (b_id b))))))"

datatype swap_refusal = Unestablishable unresolvable_code | ConcurrentSwap

record swap_result =
  sr_swapped :: bool
  sr_active_sandbox_id :: "uuid option"
  sr_active_epoch :: int
  sr_code :: "swap_refusal option"

definition swapped_to :: "active_pointer \<Rightarrow> swap_result" where
  "swapped_to p = \<lparr>sr_swapped = True, sr_active_sandbox_id = pt_sandbox_id p, sr_active_epoch = pt_epoch p, sr_code = None\<rparr>"

definition not_swapped :: "active_pointer \<Rightarrow> swap_refusal \<Rightarrow> swap_result" where
  "not_swapped p c = \<lparr>sr_swapped = False, sr_active_sandbox_id = pt_sandbox_id p, sr_active_epoch = pt_epoch p, sr_code = Some c\<rparr>"

definition session_pointer :: "fleet_context \<Rightarrow> fleet_db \<Rightarrow> active_pointer" where
  "session_pointer ctx db = pointer_or_default (fc_workspace_id ctx) (fc_session_id ctx) (fl_sessions db)"

text \<open>At most \<open>n\<close> rounds of reading the epoch and comparing and setting on it, from round \<open>i\<close> on.\<close>

fun swapAttempts ::
    "nat \<Rightarrow> nat \<Rightarrow> (nat \<Rightarrow> fleet_db \<Rightarrow> fleet_db) \<Rightarrow> fleet_context \<Rightarrow> uuid option \<Rightarrow> string option option \<Rightarrow> fleet_db
      \<Rightarrow> fleet_db \<times> swap_result" where
  "swapAttempts 0 i env ctx target workingDir db = (db, not_swapped (session_pointer ctx db) ConcurrentSwap)"
| "swapAttempts (Suc n) i env ctx target workingDir db =
     (let p = session_pointer ctx db in
      if pt_sandbox_id p = target then (db, swapped_to p)
      else
        (let db1 = env (2 * i) db;
             (ss, r) = setActiveSandbox (fc_workspace_id ctx) (fc_session_id ctx) target (pt_epoch p) workingDir (fl_sessions db1)
         in case r of
              Some q \<Rightarrow> (db1\<lparr>fl_sessions := ss\<rparr>, swapped_to q)
            | None \<Rightarrow> swapAttempts n (Suc i) env ctx target workingDir (env (2 * i + 1) (db1\<lparr>fl_sessions := ss\<rparr>))))"

definition swapActiveSandbox ::
    "(nat \<Rightarrow> fleet_db \<Rightarrow> fleet_db) \<Rightarrow> (uuid \<Rightarrow> bool) \<Rightarrow> millis \<Rightarrow> fleet_context \<Rightarrow> string \<Rightarrow> string option option
      \<Rightarrow> fleet_db \<Rightarrow> fleet_db \<times> swap_result" where
  "swapActiveSandbox env ping now ctx target workingDir db =
     (case resolveTarget env ping now ctx target db of
        (db1, Inl code) \<Rightarrow> (let db2 = env 1 db1 in (db2, not_swapped (session_pointer ctx db2) (Unestablishable code)))
      | (db1, Inr t) \<Rightarrow> swapAttempts 2 1 env ctx t workingDir (env 1 db1))"

subsection \<open>One operation on a machine, without a swap\<close>

datatype run_on_op = RunExec string "string option" | RunRead string | RunWrite string string

datatype run_on_refusal = TargetNotFound | NotSelfhosted sandbox_kind | NotEnrolled

text \<open>\<open>run e op\<close>: the operation on the machine of enrollment \<open>e\<close>, its error message on the left.\<close>

definition runOnSandbox ::
    "(fleet_db \<Rightarrow> fleet_db) \<Rightarrow> (uuid \<Rightarrow> run_on_op \<Rightarrow> jstr + 'r) \<Rightarrow> fleet_context \<Rightarrow> uuid \<Rightarrow> run_on_op \<Rightarrow> fleet_db
      \<Rightarrow> run_on_refusal + (jstr + 'r)" where
  "runOnSandbox env run ctx target op db =
     (case getSandbox (fc_workspace_id ctx) target (fl_machines db) of
        None \<Rightarrow> Inl TargetNotFound
      | Some b \<Rightarrow>
          (case b_enrollment_id b of
             None \<Rightarrow> Inl (NotSelfhosted (b_kind b))
           | Some e \<Rightarrow>
               if b_kind b \<noteq> Selfhosted then Inl (NotSelfhosted (b_kind b))
               else
                 (case getEnrollment (fc_workspace_id ctx) e (fl_machines (env db)) of
                    None \<Rightarrow> Inl NotEnrolled
                  | Some n \<Rightarrow> if n_status n \<noteq> EnrActive then Inl NotEnrolled else Inr (run e op))))"

subsection \<open>Provisioning\<close>

datatype provision_result = EnrollInstructions | ModalRecord sandbox_row

definition provisionSandbox ::
    "uuid \<Rightarrow> millis \<Rightarrow> fleet_context \<Rightarrow> sandbox_kind \<Rightarrow> jstr option \<Rightarrow> machine_db
      \<Rightarrow> machine_db \<times> (machine_error + provision_result)" where
  "provisionSandbox newId now ctx kind name db =
     (case kind of
        Selfhosted \<Rightarrow> (db, Inr EnrollInstructions)
      | Modal \<Rightarrow>
          (let given = (case name of None \<Rightarrow> [] | Some m \<Rightarrow> js_trim m) in
           case createSandbox newId now (fc_account_id ctx) (fc_workspace_id ctx) Modal
                  (if given = [] then u16 ''modal-box'' else given) None db of
             Inl e \<Rightarrow> (db, Inl e)
           | Inr (db1, b) \<Rightarrow> (db1, Inr (ModalRecord b))))"

end
