(* ===== verification/Fleet_Props.thy ===== *)
theory Fleet_Props
  imports World Enrollment_Props Fleet
begin

text \<open>
  The pointer and the fleet service in the running system: session transactions, machine transactions
  and pointer swaps in any order. A swap that committed is fenced against every other swap from the
  same epoch, and a target that was admitted can be resolved by the turn's router.
\<close>

subsection \<open>Pointers under the session transactions\<close>

definition pointer_row :: "session_row \<Rightarrow> (uuid \<times> uuid) \<times> active_pointer" where
  "pointer_row s = ((s_workspace_id s, s_id s), pointerOf s)"

definition pointer_rows :: "session_db \<Rightarrow> ((uuid \<times> uuid) \<times> active_pointer) list" where
  "pointer_rows db = map pointer_row (sessions db)"

lemma readActiveSandbox_rows: "readActiveSandbox ws sid db = map_of (pointer_rows db) (ws, sid)"
proof -
  have "map_option pointerOf (List.find (session_is ws sid) ss) = map_of (map pointer_row ss) (ws, sid)" for ss
    by (induction ss) (auto simp: session_is_def pointer_row_def)
  then show ?thesis by (simp add: readActiveSandbox_def find_session_def pointer_rows_def)
qed

lemma pointer_rows_update:
  "(\<And>s. pointerOf (f s) = pointerOf s \<and> s_workspace_id (f s) = s_workspace_id s \<and> s_id (f s) = s_id s)
    \<Longrightarrow> pointer_rows (update_session ws sid f db) = pointer_rows db"
  by (simp add: pointer_rows_def update_session_def map_update_where pointer_row_def)

lemma pointer_rows_cong: "sessions db' = sessions db \<Longrightarrow> pointer_rows db' = pointer_rows db"
  by (simp add: pointer_rows_def)

lemma pointerOf_applyUpdate:
  "pointerOf (applyUpdate u s) = pointerOf s \<and> s_workspace_id (applyUpdate u s) = s_workspace_id s \<and> s_id (applyUpdate u s) = s_id s"
  by (simp add: applyUpdate_def pointerOf_def)

lemma appendWith_pointers:
  assumes "appendWith newId now row inputs f db = Inr (db', evs)"
    and "\<And>s. pointerOf (f s) = pointerOf s \<and> s_workspace_id (f s) = s_workspace_id s \<and> s_id (f s) = s_id s"
  shows "pointer_rows db' = pointer_rows db"
proof -
  from assms(1) obtain db1 where ins: "insertEvents (eventValues newId now row (s_last_sequence row) inputs) db = Inr db1"
    and db': "db' = update_session (s_workspace_id row) (s_id row)
        (\<lambda>s. f (s\<lparr>s_last_sequence := s_last_sequence row + int (length inputs)\<rparr>)) db1"
    by (auto simp: appendWith_def Let_def split: sum.splits)
  have "pointer_rows db' = pointer_rows db1"
    unfolding db' using assms(2) by (intro pointer_rows_update) (simp add: pointerOf_def)
  also have "\<dots> = pointer_rows db" using insertEvents_Inr(1) [OF ins] by (intro pointer_rows_cong) simp
  finally show ?thesis .
qed

lemma log_step_pointers: "pointer_rows (log_step op db) = pointer_rows db"
proof (cases "log_result op db")
  case (Inr res)
  then obtain db' evs where r: "log_result op db = Inr (db', evs)" by (cases res) auto
  have "pointer_rows db' = pointer_rows db"
  proof (cases op)
    case (OpAppend newId now ws sid inputs)
    with r show ?thesis
      by (auto simp: appendSessionEvents_def split: if_splits option.splits elim!: appendWith_pointers)
  next
    case (OpAppendUpdate newId now ws sid inputs upd)
    with r show ?thesis
      by (auto simp: appendSessionEventsAndUpdateSession_def pointerOf_applyUpdate
          split: if_splits option.splits elim!: appendWith_pointers)
  next
    case (OpAppendLocked newId now ws sid build)
    with r show ?thesis
      by (auto simp: appendSessionEventsWithLockedSessionUpdate_def pointerOf_applyUpdate
          split: if_splits option.splits prod.splits elim!: appendWith_pointers)
  next
    case (OpAppendGroup newId now ws grp inp)
    with r show ?thesis
      by (auto simp: appendSessionEventToSandboxGroup_def Let_def pointer_rows_def map_update_where pointer_row_def pointerOf_def
          insertEvents_def split: if_splits sum.splits)
  qed
  with r show ?thesis by (simp add: log_step_def)
qed (simp add: log_step_def)


lemma turn_step_pointers: "pointer_rows (turn_step op db) = pointer_rows db"
proof (cases op)
  case (OpStatus ws sid st act)
  show ?thesis by (simp add: OpStatus setSessionStatus_def pointer_rows_update pointerOf_def)
next
  case (OpEnqueue newId now inp)
  then show ?thesis
    by (simp add: pointer_rows_def enqueueSessionTurn_def positionForEnqueue_def shiftFrom_def Let_def)
next
  case (OpCreate newId now ws sid trig wid)
  then show ?thesis
    by (auto simp: pointer_rows_def createTurn_def committed_def Let_def update_session_def map_update_where
        runSession_def pointer_row_def pointerOf_def split: option.splits)
next
  case (OpClaim locked now ws sid wid)
  then show ?thesis
    by (auto simp: pointer_rows_def claimNextQueuedTurn_def update_session_def map_update_where
        runSession_def pointer_row_def pointerOf_def split: option.splits list.splits)
next
  case (OpReorder ws sid tids)
  then show ?thesis by (simp add: pointer_rows_def reorderQueuedSessionTurns_def committed_def Let_def setPositions_log)
next
  case (OpReserve ws sid tid limit)
  then show ?thesis by (auto simp: pointer_rows_def reserveToolspaceCallForTurn_def Let_def split: option.splits)
next
  case (OpDying now ws tid n)
  then show ?thesis by (auto simp: pointer_rows_def cancelTurnFromDyingDispatch_def committed_def split: option.splits sum.splits)
next
  case (OpBump ws tid)
  then show ?thesis by (auto simp: pointer_rows_def incrementTurnWorkerDeathRedispatches_def committed_def split: option.splits sum.splits)
qed (auto simp: pointer_rows_def finishTurn_def requeuePreemptedTurn_def updateQueuedSessionTurn_def updateQueued_def
      cancelQueuedSessionTurn_def cancelQueuedSessionTurns_def committed_def Let_def split: option.splits)

lemma goal_step_sessions: "sessions (goal_step op db) = sessions db"
  by (cases op) (auto simp: setSessionGoalStatus_def updateSessionGoal_def upsertSessionGoal_def
      update_goal_def committed_def Let_def split: option.splits)

lemma evaluate_sessions: "sessions (fst (evaluateGoalContinuation pick inp db)) = sessions db"
  by (simp add: evaluateGoalContinuation_def update_goal_def Let_def split_beta split: option.splits list.splits)

lemma clear_goal_pointers:
  assumes "clearSessionGoal newId now ws sid db = Inr (db', r)"
  shows "pointer_rows db' = pointer_rows db"
  using assms
  by (auto simp: clearSessionGoal_def Let_def pointer_rows_def split: option.splits sum.splits
      dest!: appendWith_pointers)

lemma wakeSession_pointer:
  "pointerOf (wakeSession q s) = pointerOf s \<and> s_workspace_id (wakeSession q s) = s_workspace_id s \<and> s_id (wakeSession q s) = s_id s"
  by (simp add: wakeSession_def pointerOf_def)

lemma insertEvents_sessions: "insertEvents vs db = Inr db' \<Longrightarrow> sessions db' = sessions db"
  by (drule insertEvents_Inr(1)) simp

lemma wakeActive_pointers:
  assumes "wakeActive newId turnId now inp s db = Inr (db', r)"
  shows "pointer_rows db' = pointer_rows db"
proof -
  have "sessions (fst (foldCompletion inp digest shown db1)) = sessions db1" for digest shown db1
    by (simp add: foldCompletion_def Let_def update_turn_def)
  with assms show ?thesis
    by (auto simp: wakeActive_def Let_def split_beta pointer_rows_update wakeSession_pointer
        dest!: insertEvents_sessions split: sum.splits option.splits) (simp_all add: pointer_rows_def)
qed

lemma wake_pointers:
  assumes "wakeParentSessionForChildCompletion newId turnId now inp db = Inr (db', r)"
  shows "pointer_rows db' = pointer_rows db"
  using assms
proof (cases rule: wake_cases)
  case (silent s evs)
  then show ?thesis using appendWith_pointers [OF silent(2)] by simp
next
  case (active s)
  show ?thesis by (rule wakeActive_pointers [OF active(2)])
qed simp

lemma world_step_pointers: "pointer_rows (world_step op db) = pointer_rows db"
proof (cases op)
  case (WWake c)
  then show ?thesis using wake_pointers by (cases c) (auto simp: committed_def split: sum.splits)
next
  case (WClearGoal newId now ws sid)
  then show ?thesis using clear_goal_pointers by (auto simp: committed_def split: sum.splits)
next
  case (WMode ws sid m)
  then show ?thesis by (simp add: setSessionChildNotificationsMode_def pointer_rows_update pointerOf_def)
next
  case (WGoal op)
  then show ?thesis by (intro pointer_rows_cong) (simp add: goal_step_sessions)
next
  case (WEvaluate pick inp)
  then show ?thesis by (intro pointer_rows_cong) (simp add: evaluate_sessions)
next
  case (WPointer ws sid tid)
  then show ?thesis by (intro pointer_rows_cong) (simp add: setSessionGoalLastContinuationTurn_def)
qed (simp_all add: log_step_pointers turn_step_pointers)


subsection \<open>Compare and set\<close>

lemma find_session_unique:
  "distinct (map s_id (sessions db)) \<Longrightarrow> r \<in> set (sessions db) \<Longrightarrow> session_is ws sid r \<Longrightarrow> find_session ws sid db = Some r"
  using find_SomeD [of "session_is ws sid" "sessions db"] find_NoneD [of "session_is ws sid" "sessions db" r]
  by (cases "find_session ws sid db") (auto simp: find_session_def session_is_def dest: distinct_map_inj)

lemma find_session_is: "find_session ws sid db = Some s \<Longrightarrow> s \<in> set (sessions db) \<and> session_is ws sid s"
  unfolding find_session_def by (rule find_SomeD)

lemma setActiveSandbox_reads:
  "readActiveSandbox ws' sid' (fst (setActiveSandbox ws sid target x wd db)) =
     map_option (\<lambda>p. if ws' = ws \<and> sid' = sid \<and> pt_epoch p = x
        then \<lparr>pt_sandbox_id = target, pt_epoch = x + 1, pt_working_dir = or_else wd (pt_working_dir p)\<rparr> else p)
       (readActiveSandbox ws' sid' db)"
proof -
  have "session_is ws' sid' (repoint target wd r) = session_is ws' sid' r" for r
    by (simp add: repoint_def session_is_def)
  then show ?thesis
    unfolding readActiveSandbox_def find_session_def setActiveSandbox_def Let_def
    by (simp add: find_update_where option.map_comp)
       (auto simp: repoint_def pointerOf_def session_is_def intro!: option.map_cong dest!: find_SomeD)
qed

lemma setActiveSandbox_hit:
  assumes "distinct (map s_id (sessions db))"
  shows "snd (setActiveSandbox ws sid target x wd db) =
     (case readActiveSandbox ws sid db of
        None \<Rightarrow> None
      | Some p \<Rightarrow> if pt_epoch p = x then readActiveSandbox ws sid (fst (setActiveSandbox ws sid target x wd db)) else None)"
proof (cases "List.find (\<lambda>s. session_is ws sid s \<and> s_active_epoch s = x) (sessions db)")
  case None
  then have "snd (setActiveSandbox ws sid target x wd db) = None" by (simp add: setActiveSandbox_def)
  moreover have "pt_epoch p \<noteq> x" if "readActiveSandbox ws sid db = Some p" for p
    using that find_NoneD [OF None] find_session_is by (fastforce simp: readActiveSandbox_def pointerOf_def)
  ultimately show ?thesis by (auto split: option.splits)
next
  case (Some s)
  then have s: "find_session ws sid db = Some s" "s_active_epoch s = x"
    using find_SomeD [OF Some] find_session_unique [OF assms] by auto
  then have "readActiveSandbox ws sid db = Some (pointerOf s)" by (simp add: readActiveSandbox_def)
  with s(2) show ?thesis
    unfolding setActiveSandbox_reads by (simp add: setActiveSandbox_def Some pointerOf_def repoint_def)
qed

lemma setActiveSandbox_committed:
  assumes "distinct (map s_id (sessions db))" "setActiveSandbox ws sid target x wd db = (ss, Some q)"
  shows "readActiveSandbox ws sid ss = Some q" "pt_sandbox_id q = target" "pt_epoch q = x + 1"
proof -
  obtain p where p: "readActiveSandbox ws sid db = Some p" "pt_epoch p = x" "readActiveSandbox ws sid ss = Some q"
    using setActiveSandbox_hit [OF assms(1), of ws sid target x wd] unfolding assms(2) fst_conv snd_conv
    by (auto split: option.splits if_splits)
  with setActiveSandbox_reads [of ws sid ws sid target x wd db] assms(2)
  show "readActiveSandbox ws sid ss = Some q" "pt_sandbox_id q = target" "pt_epoch q = x + 1" by simp_all
qed

lemma setActiveSandbox_refused:
  assumes "snd (setActiveSandbox ws sid target x wd db) = None"
  shows "fst (setActiveSandbox ws sid target x wd db) = db"
proof -
  let ?p = "\<lambda>s. session_is ws sid s \<and> s_active_epoch s = x"
  have "List.find ?p (sessions db) = None" using assms by (simp add: setActiveSandbox_def Let_def)
  then have "update_where ?p (repoint target wd) (sessions db) = sessions db"
    by (intro update_where_none) (auto dest: find_NoneD)
  then show ?thesis by (simp add: setActiveSandbox_def Let_def)
qed

lemma setActiveSandbox_log: "log_untouched db (fst (setActiveSandbox ws sid target x wd db))"
  by (simp add: log_untouched_def setActiveSandbox_def Let_def map_update_where log_row_def repoint_def log_keys_def)

subsection \<open>The running fleet\<close>

datatype fleet_op =
    FSession world_op
  | FMachine machine_op
  | FSwap uuid uuid "uuid option" int "string option option"

fun fleet_step :: "fleet_op \<Rightarrow> fleet_db \<Rightarrow> fleet_db" where
  "fleet_step (FSession op) db = db\<lparr>fl_sessions := world_step op (fl_sessions db)\<rparr>"
| "fleet_step (FMachine op) db = db\<lparr>fl_machines := machine_step op (fl_machines db)\<rparr>"
| "fleet_step (FSwap ws sid target x wd) db = db\<lparr>fl_sessions := fst (setActiveSandbox ws sid target x wd (fl_sessions db))\<rparr>"

fun fleet_ok :: "fleet_op \<Rightarrow> fleet_db \<Rightarrow> bool" where
  "fleet_ok (FSession op) db = world_ok op (fl_sessions db)"
| "fleet_ok (FMachine op) db = machine_ok op (fl_machines db)"
| "fleet_ok (FSwap ws sid target x wd) db = True"

definition fleet_inv :: "fleet_db \<Rightarrow> bool" where
  "fleet_inv db \<longleftrightarrow> world_inv (fl_sessions db) \<and> machine_inv (fl_machines db)"

lemma setActiveSandbox_inv: "world_inv db \<Longrightarrow> world_inv (fst (setActiveSandbox ws sid target x wd db))"
  using log_untouchedD [OF setActiveSandbox_log [of db ws sid target x wd]]
  by (simp add: world_inv_def turns_unique_def) (simp add: setActiveSandbox_def Let_def)

lemma fleet_step_inv: "fleet_inv db \<Longrightarrow> fleet_ok op db \<Longrightarrow> fleet_inv (fleet_step op db)"
  by (cases op) (simp_all add: fleet_inv_def world_step_inv machine_step_inv setActiveSandbox_inv)

interpretation fleet_run: step_invariant fleet_step fleet_ok fleet_inv
  by unfold_locales (rule fleet_step_inv)


subsection \<open>What every step keeps\<close>

text \<open>A pointer is unchanged or superseded by one of a later epoch; sessions stay, and sandboxes are only added.\<close>

definition pointer_later :: "active_pointer \<Rightarrow> active_pointer \<Rightarrow> bool" where
  "pointer_later p q \<longleftrightarrow> q = p \<or> pt_epoch p < pt_epoch q"

definition keeps_fleet :: "fleet_db \<Rightarrow> fleet_db \<Rightarrow> bool" where
  "keeps_fleet db db' \<longleftrightarrow>
     map fst (pointer_rows (fl_sessions db')) = map fst (pointer_rows (fl_sessions db))
     \<and> prefix (sandboxes (fl_machines db)) (sandboxes (fl_machines db'))
     \<and> (\<forall>ws sid p. readActiveSandbox ws sid (fl_sessions db) = Some p
          \<longrightarrow> (\<exists>q. readActiveSandbox ws sid (fl_sessions db') = Some q \<and> pointer_later p q))"

lemma keeps_fleet_trans:
  assumes "keeps_fleet a b" "keeps_fleet b c"
  shows "keeps_fleet a c"
proof -
  have "pointer_later p r" if "pointer_later p q" "pointer_later q r" for p q r
    using that by (auto simp: pointer_later_def)
  with assms show ?thesis unfolding keeps_fleet_def by (metis prefix_order.trans)
qed

lemma upsert_sandboxes [simp]: "sandboxes (fst (upsertEnrollment n now inp db)) = sandboxes db"
  by (simp add: upsertEnrollment_def Let_def split: option.splits)

lemma finalize_sandboxes: "prefix (sandboxes db) (sandboxes (fst (finalizeEnrollmentInScope n b now inp db)))"
  using upsert_sandboxes [of n now "finalizeUpsert inp" db]
  by (auto simp: finalizeEnrollmentInScope_def Let_def split_beta simp del: upsert_sandboxes split: option.splits)

lemma machine_step_sandboxes: "prefix (sandboxes db) (sandboxes (machine_step op db))"
proof (cases op)
  case (OpApprove n b now inp)
  then show ?thesis
    using finalize_sandboxes [of db n b now]
    by (simp add: approveDeviceEnrollmentRequest_def Let_def split_beta split: option.splits request_status.splits)
next
  case (OpToken n b now inp)
  then show ?thesis by (simp add: finalizeEnrollmentByToken_def finalize_sandboxes)
qed (auto simp: createDeviceEnrollmentRequest_def denyDeviceEnrollmentRequest_def consumeDeviceEnrollmentRequest_def
      revokeEnrollment_def touchEnrollmentLastSeen_def setEnrollmentWentOffline_def clearEnrollmentWentOffline_def
      setEnrollmentDisplayState_def setEnrollmentOpStreamState_def createSandbox_def Let_def split: sum.splits if_splits)

lemma setActiveSandbox_keys: "map fst (pointer_rows (fst (setActiveSandbox ws sid target x wd db))) = map fst (pointer_rows db)"
  by (simp add: pointer_rows_def setActiveSandbox_def Let_def map_update_where pointer_row_def repoint_def o_def)

lemma fleet_step_keeps: "keeps_fleet db (fleet_step op db)"
proof (cases op)
  case (FSession op')
  then show ?thesis
    by (simp add: keeps_fleet_def world_step_pointers readActiveSandbox_rows pointer_later_def)
next
  case (FMachine op')
  then show ?thesis by (simp add: keeps_fleet_def machine_step_sandboxes pointer_later_def)
next
  case (FSwap ws sid target x wd)
  then show ?thesis by (auto simp: keeps_fleet_def setActiveSandbox_keys setActiveSandbox_reads pointer_later_def)
qed

interpretation fleet_keeps: step_monotone fleet_step keeps_fleet
  by unfold_locales (simp add: keeps_fleet_def pointer_later_def, rule keeps_fleet_trans, assumption+, rule fleet_step_keeps)

subsection \<open>The swap as an epoch-fenced compare-and-set\<close>

definition pointer_epoch :: "uuid \<Rightarrow> uuid \<Rightarrow> fleet_db \<Rightarrow> int option" where
  "pointer_epoch ws sid db = map_option pt_epoch (readActiveSandbox ws sid (fl_sessions db))"

definition swap_commit ::
    "uuid \<Rightarrow> uuid \<Rightarrow> int \<Rightarrow> uuid option \<times> string option option \<Rightarrow> fleet_db \<Rightarrow> fleet_db \<times> bool" where
  "swap_commit ws sid x v db =
     (fleet_step (FSwap ws sid (fst v) x (snd v)) db, snd (setActiveSandbox ws sid (fst v) x (snd v) (fl_sessions db)) \<noteq> None)"

lemma fleet_inv_ids: "fleet_inv db \<Longrightarrow> distinct (map s_id (sessions (fl_sessions db)))"
  by (simp add: fleet_inv_def world_inv_def log_inv_def)

interpretation pointer_cas: epoch_cas fleet_step fleet_ok fleet_inv "pointer_epoch ws sid" "swap_commit ws sid" for ws sid
proof
  fix db x v
  assume inv: "fleet_inv db" and "snd (swap_commit ws sid x v db)"
  with setActiveSandbox_hit [OF fleet_inv_ids [OF inv]] show
    "pointer_epoch ws sid db = Some x \<and> pointer_epoch ws sid (fst (swap_commit ws sid x v db)) = Some (x + 1)
      \<and> fleet_inv (fst (swap_commit ws sid x v db))"
    using fleet_step_inv [OF inv, of "FSwap ws sid (fst v) x (snd v)"]
    by (auto simp: swap_commit_def pointer_epoch_def setActiveSandbox_reads split: option.splits if_splits)
next
  fix db op n
  assume "pointer_epoch ws sid db = Some n"
  then show "\<exists>m. pointer_epoch ws sid (fleet_step op db) = Some m \<and> n \<le> m"
    using fleet_step_keeps [of db op] by (auto simp: pointer_epoch_def keeps_fleet_def pointer_later_def) fastforce+
qed


text \<open>
  A swap commits once per epoch. After a swap of a session committed against an epoch, every later
  swap of that session against the same epoch is refused and changes nothing, whatever session
  transactions, machine transactions and other swaps ran in between.
\<close>

theorem stale_swap_refused:
  assumes "fleet_inv db" and "setActiveSandbox ws sid target x wd (fl_sessions db) = (ss, Some p)"
    and "admissible fleet_step fleet_ok ops (db\<lparr>fl_sessions := ss\<rparr>)"
  shows "setActiveSandbox ws sid target' x wd' (fl_sessions (run_ops fleet_step ops (db\<lparr>fl_sessions := ss\<rparr>)))
    = (fl_sessions (run_ops fleet_step ops (db\<lparr>fl_sessions := ss\<rparr>)), None)"
proof -
  have commit: "swap_commit ws sid x (target, wd) db = (db\<lparr>fl_sessions := ss\<rparr>, True)"
    using assms(2) by (simp add: swap_commit_def)
  let ?db = "run_ops fleet_step ops (db\<lparr>fl_sessions := ss\<rparr>)"
  have "snd (setActiveSandbox ws sid target' x wd' (fl_sessions ?db)) = None"
    using pointer_cas.cas_once [OF assms(1), of ws sid x "(target, wd)" ops "(target', wd')"] commit assms(3)
    by (simp add: swap_commit_def)
  with setActiveSandbox_refused [OF this] show ?thesis by (simp add: prod_eq_iff)
qed

definition demo_fleet :: fleet_db where
  "demo_fleet = \<lparr>fl_sessions = demo_db, fl_machines = demo_machines\<rparr>"

lemma demo_fleet_inv: "fleet_inv demo_fleet"
proof -
  have "turns_unique demo_db" by code_simp
  then show ?thesis by (simp add: fleet_inv_def demo_fleet_def world_inv_def demo_db_inv demo_machines_inv)
qed

definition demo_swapped :: "session_db \<times> active_pointer option" where
  "demo_swapped = setActiveSandbox ''w'' ''s'' (Some ''box'') 0 None demo_db"

definition demo_fleet_run :: "fleet_op list" where
  "demo_fleet_run = [FMachine (OpSandbox ''box'' 1 ''a'' ''w'' Selfhosted [] (Some ''n'')), FSession (WMode ''w'' ''s'' True),
     FSwap ''w'' ''s'' None 1 None]"

lemma stale_swap_refused_witness:
  "snd (setActiveSandbox ''w'' ''s'' (Some ''other'') 0 None
     (fl_sessions (run_ops fleet_step demo_fleet_run (demo_fleet\<lparr>fl_sessions := fst demo_swapped\<rparr>)))) = None"
proof -
  have "snd demo_swapped \<noteq> None" by code_simp
  then obtain p where "setActiveSandbox ''w'' ''s'' (Some ''box'') 0 None (fl_sessions demo_fleet) = (fst demo_swapped, Some p)"
    by (auto simp: demo_swapped_def demo_fleet_def prod_eq_iff)
  from stale_swap_refused [OF demo_fleet_inv this, of demo_fleet_run] show ?thesis
    by (simp add: demo_fleet_run_def)
qed

subsection \<open>The swap service\<close>

text \<open>Other callers run between the service's transactions: \<open>others i\<close> at its \<open>i\<close>-th gap.\<close>

definition interleaved :: "(nat \<Rightarrow> fleet_op list) \<Rightarrow> nat \<Rightarrow> fleet_db \<Rightarrow> fleet_db" where
  "interleaved others i = run_ops fleet_step (others i)"

lemma interleaved_keeps: "keeps_fleet db (interleaved others i db)"
  unfolding interleaved_def by (rule fleet_keeps.run_rel)

lemma kind_name_selfhosted: "kind_name k = ''selfhosted'' \<longleftrightarrow> k = Selfhosted"
  by (cases k) simp_all

lemma resolveTarget_cases:
  assumes "resolveTarget env ping now ctx target db = (db', r)"
  shows "db' = db \<or> db' = env 0 db"
    and "r = Inr t \<Longrightarrow> t = None \<or> (\<exists>b. getSandbox (fc_workspace_id ctx) target (fl_machines db) = Some b
      \<and> b_kind b = Selfhosted \<and> b_enrollment_id b \<noteq> None \<and> t = Some (b_id b))"
  using assms
  by (auto simp: resolveTarget_def Let_def swapTargetEstablishability_def kind_name_selfhosted split: if_splits option.splits)

lemma read_kept:
  assumes "keeps_fleet db db'" "readActiveSandbox ws sid (fl_sessions db) = Some p"
  obtains q where "readActiveSandbox ws sid (fl_sessions db') = Some q" "pointer_later p q"
  using assms unfolding keeps_fleet_def by meson

lemma session_pointer_read:
  "readActiveSandbox (fc_workspace_id ctx) (fc_session_id ctx) (fl_sessions db) = Some p \<Longrightarrow> session_pointer ctx db = p"
  by (simp add: session_pointer_def pointer_or_default_def or_else_def)

lemma cas_missed:
  assumes "snd (setActiveSandbox ws sid target x wd db) = None" "readActiveSandbox ws sid db = Some p"
  shows "pt_epoch p \<noteq> x"
proof -
  have none: "List.find (\<lambda>s. session_is ws sid s \<and> s_active_epoch s = x) (sessions db) = None"
    using assms(1) by (simp add: setActiveSandbox_def Let_def)
  show ?thesis
    using assms(2) find_NoneD [OF none] find_session_is by (fastforce simp: readActiveSandbox_def pointerOf_def)
qed

text \<open>Every failed round saw the epoch move.\<close>

lemma swapAttempts_refused:
  assumes "swapAttempts n i (interleaved others) ctx t wd db = (db', r)" "sr_code r = Some ConcurrentSwap"
    and "readActiveSandbox (fc_workspace_id ctx) (fc_session_id ctx) (fl_sessions db) = Some p"
  shows "\<exists>q. readActiveSandbox (fc_workspace_id ctx) (fc_session_id ctx) (fl_sessions db') = Some q
    \<and> pt_epoch p + int n \<le> pt_epoch q"
  using assms
proof (induction n arbitrary: i db p)
  case 0
  then show ?case by simp
next
  case (Suc n)
  let ?ws = "fc_workspace_id ctx" and ?sid = "fc_session_id ctx" and ?env = "interleaved others"
  let ?db1 = "?env (2 * i) db"
  obtain ss c where c: "setActiveSandbox ?ws ?sid t (pt_epoch p) wd (fl_sessions ?db1) = (ss, c)" by fastforce
  have miss: "c = None" "pt_sandbox_id p \<noteq> t"
    using Suc.prems(1,2) by (auto simp: session_pointer_read [OF Suc.prems(3)] c Let_def swapped_to_def split: if_splits option.splits)
  then have ss: "ss = fl_sessions ?db1" using setActiveSandbox_refused [of ?ws ?sid t "pt_epoch p" wd "fl_sessions ?db1"] c by simp
  obtain q where q: "readActiveSandbox ?ws ?sid (fl_sessions ?db1) = Some q" "pointer_later p q"
    using read_kept [OF interleaved_keeps Suc.prems(3)] by blast
  then have moved: "pt_epoch p + 1 \<le> pt_epoch q" using cas_missed [OF _ q(1), of t "pt_epoch p" wd] c miss by (auto simp: pointer_later_def)
  let ?db2 = "?env (2 * i + 1) ?db1"
  obtain q' where q': "readActiveSandbox ?ws ?sid (fl_sessions ?db2) = Some q'" "pointer_later q q'"
    using read_kept [OF interleaved_keeps q(1)] by blast
  have "swapAttempts n (Suc i) ?env ctx t wd ?db2 = (db', r)"
    using Suc.prems(1) miss by (simp add: session_pointer_read [OF Suc.prems(3)] c ss Let_def)
  from Suc.IH [OF this Suc.prems(2) q'(1)] moved q'(2) show ?case by (force simp: pointer_later_def)
qed

lemma keeps_fleet_ids:
  assumes "keeps_fleet a b"
  shows "map s_id (sessions (fl_sessions b)) = map s_id (sessions (fl_sessions a))"
proof -
  have "map s_id (sessions c) = map snd (map fst (pointer_rows c))" for c by (simp add: pointer_rows_def pointer_row_def)
  with assms show ?thesis by (simp only: keeps_fleet_def)
qed

text \<open>A committed swap is the pointer the service leaves, and it is at the target.\<close>

lemma swapAttempts_swapped:
  assumes "swapAttempts n i (interleaved others) ctx t wd db = (db', r)" "sr_swapped r"
    and "distinct (map s_id (sessions (fl_sessions db)))"
    and "readActiveSandbox (fc_workspace_id ctx) (fc_session_id ctx) (fl_sessions db) = Some p"
  shows "\<exists>q. readActiveSandbox (fc_workspace_id ctx) (fc_session_id ctx) (fl_sessions db') = Some q
    \<and> r = swapped_to q \<and> pt_sandbox_id q = t \<and> keeps_fleet db db'"
  using assms
proof (induction n arbitrary: i db p)
  case 0
  then show ?case by (auto simp: not_swapped_def)
next
  case (Suc n)
  let ?ws = "fc_workspace_id ctx" and ?sid = "fc_session_id ctx" and ?env = "interleaved others"
  let ?db1 = "?env (2 * i) db"
  note start = session_pointer_read [OF Suc.prems(4)]
  have k1: "keeps_fleet db ?db1" by (rule interleaved_keeps)
  obtain ss c where c: "setActiveSandbox ?ws ?sid t (pt_epoch p) wd (fl_sessions ?db1) = (ss, c)" by fastforce
  show ?case
  proof (cases "pt_sandbox_id p = t")
    case True
    with Suc.prems show ?thesis by (auto simp: start Let_def intro: fleet_keeps.rel_refl)
  next
    case False
    show ?thesis
    proof (cases c)
      case (Some q)
      have d1: "distinct (map s_id (sessions (fl_sessions ?db1)))" using Suc.prems(3) keeps_fleet_ids [OF k1] by simp
      have "readActiveSandbox ?ws ?sid ss = Some q" "pt_sandbox_id q = t"
        using setActiveSandbox_committed [OF d1] c Some by auto
      moreover have "db' = ?db1\<lparr>fl_sessions := ss\<rparr>" "r = swapped_to q"
        using Suc.prems(1) False by (simp_all add: start c Some Let_def)
      moreover have "keeps_fleet db (?db1\<lparr>fl_sessions := ss\<rparr>)"
        using keeps_fleet_trans [OF k1 fleet_step_keeps [of ?db1 "FSwap ?ws ?sid t (pt_epoch p) wd"]] by (simp add: c)
      ultimately show ?thesis by simp
    next
      case None
      let ?db2 = "?env (2 * i + 1) ?db1"
      have "ss = fl_sessions ?db1"
        using setActiveSandbox_refused [of ?ws ?sid t "pt_epoch p" wd "fl_sessions ?db1"] c None by simp
      then have again: "swapAttempts n (Suc i) ?env ctx t wd ?db2 = (db', r)"
        using Suc.prems(1) False by (simp add: start c None Let_def)
      have k2: "keeps_fleet db ?db2" using keeps_fleet_trans [OF k1 interleaved_keeps] .
      have d2: "distinct (map s_id (sessions (fl_sessions ?db2)))" using Suc.prems(3) keeps_fleet_ids [OF k2] by simp
      obtain q where "readActiveSandbox ?ws ?sid (fl_sessions ?db2) = Some q" using read_kept [OF k2 Suc.prems(4)] by blast
      from Suc.IH [OF again Suc.prems(2) d2 this] keeps_fleet_trans [OF k2] show ?thesis by blast
    qed
  qed
qed


lemma resolveTarget_keeps: "resolveTarget (interleaved others) ping now ctx target db = (db', r) \<Longrightarrow> keeps_fleet db db'"
  using resolveTarget_cases(1) interleaved_keeps fleet_keeps.rel_refl by metis

text \<open>A swap past its admission: the rounds of compare and set, on a database where only other callers ran.\<close>

lemma swap_admitted:
  assumes "swapActiveSandbox (interleaved others) ping now ctx target wd db = (db', r)"
    and "sr_swapped r \<or> sr_code r = Some ConcurrentSwap"
  obtains db1 t where "resolveTarget (interleaved others) ping now ctx target db = (db1, Inr t)"
    and "swapAttempts 2 1 (interleaved others) ctx t wd (interleaved others 1 db1) = (db', r)"
    and "keeps_fleet db (interleaved others 1 db1)"
  using assms
  by (auto simp: swapActiveSandbox_def not_swapped_def Let_def split: prod.splits sum.splits
      intro!: that keeps_fleet_trans [OF resolveTarget_keeps interleaved_keeps])

text \<open>
  A swap only gives way to other swaps. When the fleet service gives up a swap as concurrent, the
  session's pointer really was moved by others at least twice while it ran, once per round it tried.
\<close>

theorem swap_gives_way_to_swaps:
  assumes "swapActiveSandbox (interleaved others) ping now ctx target wd db = (db', r)"
    and "sr_code r = Some ConcurrentSwap"
    and "readActiveSandbox (fc_workspace_id ctx) (fc_session_id ctx) (fl_sessions db) = Some p"
  shows "\<exists>q. readActiveSandbox (fc_workspace_id ctx) (fc_session_id ctx) (fl_sessions db') = Some q
    \<and> pt_epoch p + 2 \<le> pt_epoch q"
proof -
  obtain db1 t where go: "swapAttempts 2 1 (interleaved others) ctx t wd (interleaved others 1 db1) = (db', r)"
      and k: "keeps_fleet db (interleaved others 1 db1)"
    using swap_admitted [OF assms(1)] assms(2) by blast
  obtain p1 where p1: "readActiveSandbox (fc_workspace_id ctx) (fc_session_id ctx) (fl_sessions (interleaved others 1 db1)) = Some p1"
      "pointer_later p p1" using read_kept [OF k assms(3)] by blast
  from swapAttempts_refused [OF go assms(2) p1(1)] p1(2) show ?thesis by (auto simp: pointer_later_def)
qed

definition demo_context :: fleet_context where
  "demo_context = \<lparr>fc_account_id = ''a'', fc_workspace_id = ''w'', fc_session_id = ''s'', fc_session_backend = ''modal'',
     fc_session_group_id = ''g''\<rparr>"

definition demo_contention :: "nat \<Rightarrow> fleet_op list" where
  "demo_contention i = (if i = 2 then [FSwap ''w'' ''s'' (Some ''other'') 1 None]
     else if i = 4 then [FSwap ''w'' ''s'' (Some ''third'') 2 None] else [])"

definition demo_contended :: "fleet_db \<times> swap_result" where
  "demo_contended = swapActiveSandbox (interleaved demo_contention) (\<lambda>_. True) 5 demo_context ''session'' None
     (demo_fleet\<lparr>fl_sessions := fst demo_swapped\<rparr>)"

lemma swap_gives_way_to_swaps_witness:
  "\<exists>q. readActiveSandbox ''w'' ''s'' (fl_sessions (fst demo_contended)) = Some q \<and> 3 \<le> pt_epoch q"
proof -
  have "sr_code (snd demo_contended) = Some ConcurrentSwap" by code_simp
  moreover have "map_option pt_epoch (readActiveSandbox ''w'' ''s'' (fst demo_swapped)) = Some 1" by code_simp
  then obtain p where "readActiveSandbox ''w'' ''s'' (fst demo_swapped) = Some p" "pt_epoch p = 1" by auto
  ultimately show ?thesis
    using swap_gives_way_to_swaps [of demo_contention "\<lambda>_. True" 5 demo_context "''session''" None
        "demo_fleet\<lparr>fl_sessions := fst demo_swapped\<rparr>" "fst demo_contended" "snd demo_contended" p]
    by (simp add: demo_contended_def demo_context_def)
qed

end
