(* ===== verification/Routing.thy ===== *)
theory Routing
  imports Fleet
begin

text \<open>
  The routing proxy a turn's tools hold (\<^verbatim>\<open>packages/runtime/src/sandbox/routing\<close>): it re-reads the
  pointer before every operation, resolves the active backend (cached by the whole pointer), and
  retries an operation that a backend fenced off. A backend session is an abstract handle; what its
  methods do, how one is built or established, and the reads of the pointer are arguments, the last two
  indexed by the attempt because other callers run in between.
\<close>

subsection \<open>Resolving a pointer\<close>

record 's backend =
  be_session :: 's
  be_sandbox_id :: "uuid option"
  be_kind :: string

record routable_sandbox =
  rb_id :: uuid
  rb_kind :: string
  rb_name :: jstr
  rb_enrollment_id :: "uuid option"

datatype resolve_error =
    Unresolvable unresolvable_code
  | EstablishFailed string
  | ReadFailed string
  | Reentrant

record 's resolver_deps =
  rd_default_session :: 's
  rd_default_kind :: string
  rd_get_sandbox :: "uuid \<Rightarrow> routable_sandbox option"
  rd_build_selfhosted :: "uuid \<Rightarrow> int \<Rightarrow> string option \<Rightarrow> 's"
  rd_establish_modal :: "(routable_sandbox \<Rightarrow> string + 's) option"
  rd_pinned :: "(uuid \<times> int \<times> 's) option"
  rd_default_is_home :: "bool option"

definition truthy :: "string option \<Rightarrow> string option" where
  "truthy x = (case x of Some s \<Rightarrow> if s = [] then None else Some s | None \<Rightarrow> None)"

definition pinned_session :: "'s resolver_deps \<Rightarrow> uuid \<Rightarrow> int \<Rightarrow> 's option" where
  "pinned_session deps i epoch =
     (case rd_pinned deps of
        None \<Rightarrow> None
      | Some (pi, pe, s) \<Rightarrow> if i = pi \<and> epoch = pe then Some s else None)"

definition makeActiveBackendResolver :: "'s resolver_deps \<Rightarrow> active_pointer \<Rightarrow> resolve_error + 's backend" where
  "makeActiveBackendResolver deps p =
     (case pt_sandbox_id p of
        None \<Rightarrow>
          if rd_default_is_home deps = Some False then Inl (Unresolvable HomeUnavailableThisTurn)
          else Inr \<lparr>be_session = rd_default_session deps, be_sandbox_id = None, be_kind = rd_default_kind deps\<rparr>
      | Some i \<Rightarrow>
          (case pinned_session deps i (pt_epoch p) of
             Some s \<Rightarrow> Inr \<lparr>be_session = s, be_sandbox_id = Some i, be_kind = ''selfhosted''\<rparr>
           | None \<Rightarrow>
               (case rd_get_sandbox deps i of
                  None \<Rightarrow> Inl (Unresolvable StalePointer)
                | Some b \<Rightarrow>
                    if rb_kind b = ''selfhosted'' then
                      (case rb_enrollment_id b of
                         None \<Rightarrow> Inl (Unresolvable OfflineEnrollment)
                       | Some e \<Rightarrow>
                           Inr \<lparr>be_session = rd_build_selfhosted deps e (pt_epoch p) (truthy (pt_working_dir p)),
                                be_sandbox_id = Some (rb_id b), be_kind = ''selfhosted''\<rparr>)
                    else if rb_kind b = ''modal'' then
                      (case rd_establish_modal deps of
                         None \<Rightarrow> Inl (Unresolvable UnsupportedBackendContext)
                       | Some establish \<Rightarrow>
                           (case establish b of
                              Inl x \<Rightarrow> Inl (EstablishFailed x)
                            | Inr s \<Rightarrow> Inr \<lparr>be_session = s, be_sandbox_id = Some (rb_id b), be_kind = ''modal''\<rparr>))
                    else Inl (Unresolvable UnsupportedBackendContext))))"

text \<open>The wiring to the tables (\<^verbatim>\<open>wrapTurnBoxWithRouting\<close>, \<^verbatim>\<open>wrapChannelABoxWithRouting\<close>).\<close>

definition routable :: "sandbox_row \<Rightarrow> routable_sandbox" where
  "routable b = \<lparr>rb_id = b_id b, rb_kind = kind_name (b_kind b), rb_name = b_name b, rb_enrollment_id = b_enrollment_id b\<rparr>"

definition wiredDeps ::
    "'s \<Rightarrow> string \<Rightarrow> (uuid \<Rightarrow> int \<Rightarrow> string option \<Rightarrow> 's) \<Rightarrow> (uuid \<times> int) option \<Rightarrow> bool option \<Rightarrow> uuid \<Rightarrow> machine_db
      \<Rightarrow> 's resolver_deps" where
  "wiredDeps established backendId build pinned home ws db =
     \<lparr>rd_default_session = established, rd_default_kind = backendId,
      rd_get_sandbox = (\<lambda>i. map_option routable (getSandbox ws i db)), rd_build_selfhosted = build,
      rd_establish_modal = None, rd_pinned = map_option (\<lambda>(i, e). (i, e, established)) pinned,
      rd_default_is_home = home\<rparr>"

subsection \<open>Errors of an operation\<close>

text \<open>
  \<open>OpRaised control fenced name message\<close>: an error object, \<open>control\<close> when it is a
  \<^verbatim>\<open>SelfhostedControlError\<close>; \<open>OpPlain\<close> is a thrown value that is no object.
\<close>

datatype op_error =
    OpRaised bool bool jstr jstr
  | OpPlain
  | OpUnsupported string string

definition contains_text :: "string \<Rightarrow> jstr \<Rightarrow> bool" where
  "contains_text t s = sublist (u16 t) s"

definition fence_text :: "jstr \<Rightarrow> jstr \<Rightarrow> bool" where
  "fence_text name message =
     (let haystack = map lower_unit (name @ u16 '' '' @ message) in
      contains_text ''fenced'' haystack \<or> contains_text ''epoch'' haystack \<and> contains_text ''super'' haystack)"

fun isFenceError :: "op_error \<Rightarrow> bool" where
  "isFenceError OpPlain = False"
| "isFenceError (OpRaised control fenced name message) = (fenced \<or> fence_text name message)"
| "isFenceError (OpUnsupported op kind) = fence_text (u16 ''RoutingUnsupportedError'')
     (u16 (''the active sandbox ('' @ kind @ '') does not support '' @ [CHR 0x22] @ op @ [CHR 0x22]))"

subsection \<open>The proxy\<close>

record 's proxy =
  px_epoch :: "int option"
  px_sandbox :: "uuid option option"
  px_cached :: "'s backend option"
  px_last :: "'s backend option"

definition new_proxy :: "'s proxy" where
  "new_proxy = \<lparr>px_epoch = None, px_sandbox = None, px_cached = None, px_last = None\<rparr>"

datatype transition_type = TrResolved | TrFencedRetry | TrEpochChanged

record transition =
  tr_type :: transition_type
  tr_from_epoch :: int
  tr_to_epoch :: int
  tr_sandbox_id :: "uuid option"
  tr_kind :: string

definition resolve ::
    "'s \<Rightarrow> string + active_pointer \<Rightarrow> (active_pointer \<Rightarrow> resolve_error + 's backend) \<Rightarrow> 's proxy
      \<Rightarrow> 's proxy \<times> transition list \<times> (resolve_error + 's backend)" where
  "resolve self pointerRead resolver px =
     (case pointerRead of
        Inl x \<Rightarrow> (px, [], Inl (ReadFailed x))
      | Inr p \<Rightarrow>
          (case (if px_epoch px = Some (pt_epoch p) \<and> px_sandbox px = Some (pt_sandbox_id p) then px_cached px else None) of
             Some b \<Rightarrow> (px, [], Inr b)
           | None \<Rightarrow>
               (let fromEpoch = or_else (px_epoch px) (pt_epoch p) in
                case resolver p of
                  Inl e \<Rightarrow> (px, [], Inl e)
                | Inr b \<Rightarrow>
                    if be_session b = self then (px, [], Inl Reentrant)
                    else (px\<lparr>px_epoch := Some (pt_epoch p), px_sandbox := Some (pt_sandbox_id p), px_cached := Some b, px_last := Some b\<rparr>,
                          [\<lparr>tr_type = (if fromEpoch \<noteq> pt_epoch p then TrEpochChanged else TrResolved), tr_from_epoch = fromEpoch,
                            tr_to_epoch = pt_epoch p, tr_sandbox_id = be_sandbox_id b, tr_kind = be_kind b\<rparr>],
                          Inr b))))"

datatype dispatch_error = ResolveError resolve_error | OpError op_error | ExhaustedRetries

text \<open>What one attempt meets: the pointer it reads, the resolver, and the operation on a backend session.\<close>

record ('s, 'r) attempt_io =
  io_read :: "string + active_pointer"
  io_resolver :: "active_pointer \<Rightarrow> resolve_error + 's backend"
  io_op :: "string \<Rightarrow> 's \<Rightarrow> op_error + 'r"

text \<open>A wired proxy: what its construction fixes, and an attempt on the tables as they are when it runs.\<close>

record 's wiring =
  wr_self :: 's
  wr_established :: 's
  wr_backend_id :: string
  wr_build :: "uuid \<Rightarrow> int \<Rightarrow> string option \<Rightarrow> 's"
  wr_pinned :: "(uuid \<times> int) option"
  wr_home :: "bool option"
  wr_workspace_id :: uuid
  wr_session_id :: uuid

definition wiredResolver :: "'s wiring \<Rightarrow> fleet_db \<Rightarrow> active_pointer \<Rightarrow> resolve_error + 's backend" where
  "wiredResolver w db = makeActiveBackendResolver
     (wiredDeps (wr_established w) (wr_backend_id w) (wr_build w) (wr_pinned w) (wr_home w) (wr_workspace_id w) (fl_machines db))"

definition wiredAttempt :: "'s wiring \<Rightarrow> (string \<Rightarrow> 's \<Rightarrow> op_error + 'r) \<Rightarrow> fleet_db \<Rightarrow> ('s, 'r) attempt_io" where
  "wiredAttempt w op db =
     \<lparr>io_read = Inr (pointer_or_default (wr_workspace_id w) (wr_session_id w) (fl_sessions db)),
      io_resolver = wiredResolver w db, io_op = op\<rparr>"

definition forget :: "'s proxy \<Rightarrow> 's proxy" where
  "forget px = px\<lparr>px_epoch := None, px_sandbox := None, px_cached := None\<rparr>"

definition fencedRetry :: "'s backend \<Rightarrow> transition" where
  "fencedRetry b = \<lparr>tr_type = TrFencedRetry, tr_from_epoch = 0, tr_to_epoch = 0, tr_sandbox_id = be_sandbox_id b, tr_kind = be_kind b\<rparr>"

text \<open>The label an unsupported operation reports: the kind of the cached backend.\<close>

definition cached_kind :: "'s proxy \<Rightarrow> string" where
  "cached_kind px = (case px_cached px of None \<Rightarrow> ''unknown'' | Some b \<Rightarrow> be_kind b)"

fun dispatchLoop ::
    "'s \<Rightarrow> (nat \<Rightarrow> ('s, 'r) attempt_io) \<Rightarrow> nat \<Rightarrow> nat \<Rightarrow> 's proxy \<Rightarrow> op_error option
      \<Rightarrow> 's proxy \<times> transition list \<times> (dispatch_error + 'r)" where
  "dispatchLoop self io k 0 px err = (px, [], Inl (case err of Some e \<Rightarrow> OpError e | None \<Rightarrow> ExhaustedRetries))"
| "dispatchLoop self io k (Suc n) px err =
     (let (px1, tr, r) = resolve self (io_read (io k)) (io_resolver (io k)) px in
      case r of
        Inl e \<Rightarrow> (px1, tr, Inl (ResolveError e))
      | Inr b \<Rightarrow>
          (case io_op (io k) (cached_kind px1) (be_session b) of
             Inr v \<Rightarrow> (px1, tr, Inr v)
           | Inl e \<Rightarrow>
               if \<not> isFenceError e then (px1, tr, Inl (OpError e))
               else (let (px2, tr2, r2) = dispatchLoop self io (Suc k) n (forget px1) (Some e) in
                     (px2, tr @ fencedRetry b # tr2, r2))))"

definition dispatch_op ::
    "'s \<Rightarrow> int option \<Rightarrow> (nat \<Rightarrow> ('s, 'r) attempt_io) \<Rightarrow> 's proxy \<Rightarrow> 's proxy \<times> transition list \<times> (dispatch_error + 'r)" where
  "dispatch_op self maxFenceRetries io px = dispatchLoop self io 0 (nat (or_else maxFenceRetries 3 + 1)) px None"

subsection \<open>The forwarded surface\<close>

text \<open>\<open>methods s name\<close> is the method of a backend session, if it has one.\<close>

fun firstMethod :: "('s \<Rightarrow> string \<Rightarrow> (op_error + 'r) option) \<Rightarrow> 's \<Rightarrow> (string \<times> ('r \<Rightarrow> 'r)) list \<Rightarrow> (op_error + 'r) option" where
  "firstMethod methods s [] = None"
| "firstMethod methods s ((name, f) # ns) =
     (case methods s name of
        Some r \<Rightarrow> Some (map_sum id f r)
      | None \<Rightarrow> firstMethod methods s ns)"

definition forward ::
    "string \<Rightarrow> (string \<times> ('r \<Rightarrow> 'r)) list \<Rightarrow> ('s \<Rightarrow> string \<Rightarrow> (op_error + 'r) option) \<Rightarrow> string \<Rightarrow> 's \<Rightarrow> op_error + 'r" where
  "forward op names methods kind s =
     (case firstMethod methods s names of Some r \<Rightarrow> r | None \<Rightarrow> Inl (OpUnsupported op kind))"

definition execMethods :: "(string \<times> ('r \<Rightarrow> 'r)) list" where
  "execMethods = [(''exec'', id), (''execCommand'', id)]"

definition execCommandMethods :: "('r \<Rightarrow> 'r) \<Rightarrow> (string \<times> ('r \<Rightarrow> 'r)) list" where
  "execCommandMethods outputText = [(''execCommand'', id), (''exec'', outputText)]"

definition execOp :: "('s \<Rightarrow> string \<Rightarrow> (op_error + 'r) option) \<Rightarrow> string \<Rightarrow> 's \<Rightarrow> op_error + 'r" where
  "execOp methods = forward ''exec'' execMethods methods"

definition plainOp :: "string \<Rightarrow> ('s \<Rightarrow> string \<Rightarrow> (op_error + 'r) option) \<Rightarrow> string \<Rightarrow> 's \<Rightarrow> op_error + 'r" where
  "plainOp op methods = forward op [(op, id)] methods"

text \<open>A terminal fault of a machine is rendered as the tool's result; a fence or any other error is thrown on.\<close>

fun renderSelfhostedFaultOrThrow :: "(jstr \<Rightarrow> 'r) \<Rightarrow> dispatch_error \<Rightarrow> dispatch_error + 'r" where
  "renderSelfhostedFaultOrThrow render (OpError (OpRaised True False name message)) = Inr (render message)"
| "renderSelfhostedFaultOrThrow render e = Inl e"

definition execCommand ::
    "'s \<Rightarrow> int option \<Rightarrow> (jstr \<Rightarrow> 'r) \<Rightarrow> (nat \<Rightarrow> ('s, 'r) attempt_io) \<Rightarrow> 's proxy \<Rightarrow> 's proxy \<times> transition list \<times> (dispatch_error + 'r)" where
  "execCommand self maxFenceRetries render io px =
     (let (px1, tr, r) = dispatch_op self maxFenceRetries io px in
      (px1, tr, case r of Inl e \<Rightarrow> renderSelfhostedFaultOrThrow render e | Inr v \<Rightarrow> Inr v))"

text \<open>The synchronous reads: the last resolved backend, or the default one.\<close>

definition proxy_backend :: "'s proxy \<Rightarrow> 's backend option \<Rightarrow> 's backend option" where
  "proxy_backend px defaultResolved = (case px_last px of Some b \<Rightarrow> Some b | None \<Rightarrow> defaultResolved)"

definition supportsPty :: "('s \<Rightarrow> bool) \<Rightarrow> 's proxy \<Rightarrow> 's backend option \<Rightarrow> bool" where
  "supportsPty pty px defaultResolved = (case proxy_backend px defaultResolved of None \<Rightarrow> False | Some b \<Rightarrow> pty (be_session b))"


text \<open>A backend without state to serialize answers \<open>undefined\<close>; \<open>editors s\<close> is the editor of a backend session.\<close>

definition serializeOp :: "'r \<Rightarrow> ('s \<Rightarrow> string \<Rightarrow> (op_error + 'r) option) \<Rightarrow> string \<Rightarrow> 's \<Rightarrow> op_error + 'r" where
  "serializeOp undefinedValue methods kind s =
     (case methods s ''serializeSessionState'' of Some r \<Rightarrow> r | None \<Rightarrow> Inr undefinedValue)"

definition editorOp :: "string \<Rightarrow> ('s \<Rightarrow> (string \<Rightarrow> (op_error + 'r) option) option) \<Rightarrow> string \<Rightarrow> 's \<Rightarrow> op_error + 'r" where
  "editorOp name editors kind s =
     (case Option.bind (editors s) (\<lambda>e. e name) of
        Some r \<Rightarrow> r
      | None \<Rightarrow> Inl (OpUnsupported (''editor.'' @ name) kind))"

datatype 'e editor = EagerEditor 'e | LazyEditor

definition createEditor :: "('s \<Rightarrow> 'e option) \<Rightarrow> 's proxy \<Rightarrow> 's backend option \<Rightarrow> 'e editor" where
  "createEditor editors px defaultResolved =
     (case Option.bind (proxy_backend px defaultResolved) (\<lambda>b. editors (be_session b)) of
        Some e \<Rightarrow> EagerEditor e
      | None \<Rightarrow> LazyEditor)"

subsection \<open>A turn without its box\<close>

text \<open>Under lazy provisioning the default pointer resolves through the provisioner (\<^verbatim>\<open>wrapLazyTurnBoxWithRouting\<close>).\<close>

definition lazyResolver ::
    "bool \<Rightarrow> (string + 's \<times> string) \<Rightarrow> 's resolver_deps \<Rightarrow> active_pointer \<Rightarrow> resolve_error + 's backend" where
  "lazyResolver enabled provisioned deps p =
     (if pt_sandbox_id p = None \<or> \<not> enabled then
        (case provisioned of
           Inl x \<Rightarrow> Inl (EstablishFailed x)
         | Inr (s, kind) \<Rightarrow> Inr \<lparr>be_session = s, be_sandbox_id = None, be_kind = kind\<rparr>)
      else makeActiveBackendResolver deps p)"

end
