(* ===== verification/Routing_Props.thy ===== *)
theory Routing_Props
  imports Fleet_Props Routing
begin

text \<open>
  The routing proxy against its reference: an operation that resolves the pointer afresh at every
  attempt. The proxy's cache is never seen, whatever swaps run between and during its operations, so an
  operation that starts after a swap runs on the swap's target.
\<close>

subsection \<open>The reference\<close>

fun fenced :: "dispatch_error + 'r \<Rightarrow> bool" where
  "fenced (Inl (OpError e)) = isFenceError e"
| "fenced _ = False"

definition uncached :: "'s wiring \<Rightarrow> (string \<Rightarrow> 's \<Rightarrow> op_error + 'r) \<Rightarrow> fleet_db \<Rightarrow> dispatch_error + 'r" where
  "uncached w op db =
     (case wiredResolver w db (pointer_or_default (wr_workspace_id w) (wr_session_id w) (fl_sessions db)) of
        Inl e \<Rightarrow> Inl (ResolveError e)
      | Inr b \<Rightarrow> if be_session b = wr_self w then Inl (ResolveError Reentrant)
                 else map_sum OpError id (op (be_kind b) (be_session b)))"

text \<open>What the rest of the program does to the tables: transactions, swaps, and cascades that delete a sandbox.\<close>

datatype ambient_op =
    AFleet fleet_op
  | ADelete uuid

fun ambient_step :: "ambient_op \<Rightarrow> fleet_db \<Rightarrow> fleet_db" where
  "ambient_step (AFleet op) db = fleet_step op db"
| "ambient_step (ADelete i) db = deleteSandbox i db"

text \<open>The tables at the \<open>k\<close>-th attempt, other callers running before each.\<close>

fun between :: "(nat \<Rightarrow> ambient_op list) \<Rightarrow> nat \<Rightarrow> fleet_db \<Rightarrow> fleet_db" where
  "between others 0 db = run_ops ambient_step (others 0) db"
| "between others (Suc k) db = run_ops ambient_step (others (Suc k)) (between others k db)"

definition routed_dispatch ::
    "'s wiring \<Rightarrow> (nat \<Rightarrow> ambient_op list) \<Rightarrow> (string \<Rightarrow> 's \<Rightarrow> op_error + 'r) \<Rightarrow> fleet_db \<Rightarrow> 's proxy
      \<Rightarrow> 's proxy \<times> transition list \<times> (dispatch_error + 'r)" where
  "routed_dispatch w others op db px = dispatch_op (wr_self w) None (\<lambda>k. wiredAttempt w op (between others k db)) px"

datatype ('s, 'r) routed_op =
    RAmbient ambient_op
  | ROp "nat \<Rightarrow> ambient_op list" "string \<Rightarrow> 's \<Rightarrow> op_error + 'r"

fun routed_step :: "'s wiring \<Rightarrow> ('s, 'r) routed_op \<Rightarrow> fleet_db \<times> 's proxy \<Rightarrow> fleet_db \<times> 's proxy" where
  "routed_step w (RAmbient op) (db, px) = (ambient_step op db, px)"
| "routed_step w (ROp others op) (db, px) = (between others 3 db, fst (routed_dispatch w others op db px))"

subsection \<open>The cache\<close>

definition current_pointer :: "'s wiring \<Rightarrow> fleet_db \<Rightarrow> active_pointer" where
  "current_pointer w db = pointer_or_default (wr_workspace_id w) (wr_session_id w) (fl_sessions db)"

text \<open>
  How a pointer moves: a swap raises its epoch, a cascade drops its sandbox at the same epoch. It never
  comes back to what it was.
\<close>

definition pointer_moved :: "active_pointer \<Rightarrow> active_pointer \<Rightarrow> bool" where
  "pointer_moved p q \<longleftrightarrow> pointer_later p q
     \<or> pt_epoch p = pt_epoch q \<and> pt_sandbox_id p \<noteq> None \<and> pt_sandbox_id q = None"

lemma pointer_moved_refl [simp]: "pointer_moved p p"
  by (simp add: pointer_moved_def pointer_later_def)

lemma pointer_moved_trans: "pointer_moved p q \<Longrightarrow> pointer_moved q r \<Longrightarrow> pointer_moved p r"
  by (auto simp: pointer_moved_def pointer_later_def)

lemma pointer_moved_antisym: "pointer_moved p q \<Longrightarrow> pointer_moved q p \<Longrightarrow> p = q"
  by (auto simp: pointer_moved_def pointer_later_def)

text \<open>The pointer moves on, and as long as it stays it resolves as before.\<close>

definition keeps_route :: "'s wiring \<Rightarrow> fleet_db \<Rightarrow> fleet_db \<Rightarrow> bool" where
  "keeps_route w db db' \<longleftrightarrow> pointer_moved (current_pointer w db) (current_pointer w db')
     \<and> (current_pointer w db' = current_pointer w db
        \<longrightarrow> wiredResolver w db' (current_pointer w db) = wiredResolver w db (current_pointer w db)
          \<or> (\<forall>b. wiredResolver w db (current_pointer w db) \<noteq> Inr b))"

lemma keeps_route_refl: "keeps_route w db db"
  by (simp add: keeps_route_def)

lemma keeps_route_resolves:
  "keeps_route w db db' \<Longrightarrow> current_pointer w db' = current_pointer w db
    \<Longrightarrow> wiredResolver w db (current_pointer w db) = Inr b \<Longrightarrow> wiredResolver w db' (current_pointer w db) = Inr b"
  by (auto simp: keeps_route_def)

lemma keeps_route_trans:
  assumes "keeps_route w a b" "keeps_route w b c"
  shows "keeps_route w a c"
proof -
  have m: "pointer_moved (current_pointer w a) (current_pointer w c)"
    using assms pointer_moved_trans unfolding keeps_route_def by blast
  have "wiredResolver w c (current_pointer w a) = Inr x"
    if c: "current_pointer w c = current_pointer w a" and x: "wiredResolver w a (current_pointer w a) = Inr x" for x
  proof -
    have "current_pointer w b = current_pointer w a"
      using assms c pointer_moved_antisym unfolding keeps_route_def by metis
    then show ?thesis
      using keeps_route_resolves [OF assms(1) _ x] keeps_route_resolves [OF assms(2), of x] c by simp
  qed
  with m show ?thesis unfolding keeps_route_def by (metis sum.exhaust)
qed

lemma keeps_fleet_pointer:
  assumes "keeps_fleet db db'"
  shows "pointer_later (current_pointer w db) (current_pointer w db')"
proof (cases "readActiveSandbox (wr_workspace_id w) (wr_session_id w) (fl_sessions db)")
  case (Some p)
  then obtain q where "readActiveSandbox (wr_workspace_id w) (wr_session_id w) (fl_sessions db') = Some q" "pointer_later p q"
    using read_kept [OF assms] by blast
  with Some show ?thesis by (simp add: current_pointer_def pointer_or_default_def or_else_def)
next
  case None
  then have "readActiveSandbox (wr_workspace_id w) (wr_session_id w) (fl_sessions db') = None"
    using assms unfolding keeps_fleet_def readActiveSandbox_rows map_of_eq_None_iff by (metis set_map)
  with None show ?thesis by (simp add: current_pointer_def pointer_or_default_def pointer_later_def)
qed

lemma getSandbox_kept:
  "keeps_fleet db db' \<Longrightarrow> getSandbox ws i (fl_machines db) = Some b \<Longrightarrow> getSandbox ws i (fl_machines db') = Some b"
  by (auto simp: keeps_fleet_def getSandbox_def find_append elim!: prefixE)

lemma wiredResolver_cong:
  assumes "wiredResolver w db p = Inr b"
    and "\<And>i x. pt_sandbox_id p = Some i \<Longrightarrow> getSandbox (wr_workspace_id w) i (fl_machines db) = Some x
      \<Longrightarrow> getSandbox (wr_workspace_id w) i (fl_machines db') = Some x"
  shows "wiredResolver w db' p = Inr b"
proof (cases "pt_sandbox_id p")
  case None
  with assms(1) show ?thesis
    by (auto simp: wiredResolver_def makeActiveBackendResolver_def wiredDeps_def split: if_splits)
next
  case (Some i)
  with assms(1) assms(2) [OF Some] show ?thesis
    by (auto simp: wiredResolver_def makeActiveBackendResolver_def wiredDeps_def pinned_session_def split: option.splits if_splits)
qed

lemma keeps_fleet_route: "keeps_fleet db db' \<Longrightarrow> keeps_route w db db'"
  using keeps_fleet_pointer [of db db' w] wiredResolver_cong [of w db "current_pointer w db" _ db'] getSandbox_kept [of db db']
  by (cases "wiredResolver w db (current_pointer w db)") (auto simp: keeps_route_def pointer_moved_def)

text \<open>A cascade moves the pointer off the row it deletes, and leaves every other row.\<close>

lemma find_delete_where: "(\<And>x. p x \<Longrightarrow> \<not> q x) \<Longrightarrow> List.find p (delete_where q xs) = List.find p xs"
  by (induction xs) (auto simp: delete_where_def)

lemma delete_pointer:
  "readActiveSandbox ws sid (fl_sessions (deleteSandbox i db))
   = map_option (\<lambda>p. if pt_sandbox_id p = Some i then p\<lparr>pt_sandbox_id := None\<rparr> else p) (readActiveSandbox ws sid (fl_sessions db))"
proof -
  have "find_session ws sid (d\<lparr>sessions := update_where (\<lambda>s. s_active_sandbox_id s = Some i)
        (\<lambda>s. s\<lparr>s_active_sandbox_id := None\<rparr>) (sessions d)\<rparr>)
    = map_option (\<lambda>s. if s_active_sandbox_id s = Some i then s\<lparr>s_active_sandbox_id := None\<rparr> else s) (find_session ws sid d)" for d
    unfolding find_session_def by (simp add: find_update_where session_is_def)
  then show ?thesis
    by (simp add: readActiveSandbox_def deleteSandbox_def pointerOf_def option.map_comp o_def if_distrib cong: if_cong)
qed

lemma delete_route: "keeps_route w db (deleteSandbox i db)"
proof -
  let ?p = "current_pointer w db" and ?q = "current_pointer w (deleteSandbox i db)"
  have q: "?q = (if pt_sandbox_id ?p = Some i then ?p\<lparr>pt_sandbox_id := None\<rparr> else ?p)"
    by (simp add: current_pointer_def pointer_or_default_def or_else_def delete_pointer default_pointer_def split: option.split)
  have "wiredResolver w (deleteSandbox i db) ?p = Inr b" if "?q = ?p" "wiredResolver w db ?p = Inr b" for b
  proof (rule wiredResolver_cong [OF that(2)])
    fix j x
    assume j: "pt_sandbox_id ?p = Some j" and x: "getSandbox (wr_workspace_id w) j (fl_machines db) = Some x"
    with q that(1) have "j \<noteq> i" by (auto simp: active_pointer.ext_inject dest: arg_cong [of _ _ pt_sandbox_id])
    then have "List.find (\<lambda>b. b_workspace_id b = wr_workspace_id w \<and> b_id b = j) (delete_where (\<lambda>b. b_id b = i) bs)
        = List.find (\<lambda>b. b_workspace_id b = wr_workspace_id w \<and> b_id b = j) bs" for bs :: "sandbox_row list"
      by (intro find_delete_where) simp
    with x show "getSandbox (wr_workspace_id w) j (fl_machines (deleteSandbox i db)) = Some x"
      by (simp add: getSandbox_def deleteSandbox_def)
  qed
  moreover have "pointer_moved ?p ?q" using q by (auto simp: pointer_moved_def pointer_later_def)
  ultimately show ?thesis unfolding keeps_route_def by (metis sum.exhaust)
qed

lemma ambient_step_route: "keeps_route w db (ambient_step op db)"
  by (cases op) (simp_all add: keeps_fleet_route fleet_step_keeps delete_route)

interpretation routes: step_monotone ambient_step "keeps_route w" for w
  by unfold_locales (rule keeps_route_refl, rule keeps_route_trans, assumption+, rule ambient_step_route)

text \<open>A cached backend is what an earlier or the current pointer resolves to.\<close>

definition proxy_ok :: "'s wiring \<Rightarrow> fleet_db \<times> 's proxy \<Rightarrow> bool" where
  "proxy_ok w s \<longleftrightarrow> (\<forall>b. px_cached (snd s) = Some b \<longrightarrow> be_session b \<noteq> wr_self w \<and>
     (\<exists>p. px_epoch (snd s) = Some (pt_epoch p) \<and> px_sandbox (snd s) = Some (pt_sandbox_id p)
        \<and> pointer_moved p (current_pointer w (fst s))
        \<and> (current_pointer w (fst s) = p \<longrightarrow> wiredResolver w (fst s) p = Inr b)))"

lemma proxy_ok_kept:
  assumes ok: "proxy_ok w (db, px)" and k: "keeps_route w db db'"
  shows "proxy_ok w (db', px)"
  unfolding proxy_ok_def fst_conv snd_conv
proof (intro allI impI)
  fix b assume "px_cached px = Some b"
  with ok obtain p where p: "be_session b \<noteq> wr_self w" "px_epoch px = Some (pt_epoch p)" "px_sandbox px = Some (pt_sandbox_id p)"
      "pointer_moved p (current_pointer w db)" "current_pointer w db = p \<longrightarrow> wiredResolver w db p = Inr b"
    by (auto simp: proxy_ok_def)
  have m: "pointer_moved (current_pointer w db) (current_pointer w db')" using k by (simp add: keeps_route_def)
  have "wiredResolver w db' p = Inr b" if "current_pointer w db' = p"
  proof -
    have "current_pointer w db = p" using m p(4) that pointer_moved_antisym by metis
    with p(5) that show ?thesis using keeps_route_resolves [OF k, of b] by simp
  qed
  with p m show "be_session b \<noteq> wr_self w \<and>
     (\<exists>p. px_epoch px = Some (pt_epoch p) \<and> px_sandbox px = Some (pt_sandbox_id p)
        \<and> pointer_moved p (current_pointer w db')
        \<and> (current_pointer w db' = p \<longrightarrow> wiredResolver w db' p = Inr b))"
    using pointer_moved_trans by blast
qed

text \<open>Resolving through the cache is resolving afresh.\<close>

lemma resolve_current:
  assumes "proxy_ok w (db, px)"
    and "resolve (wr_self w) (Inr (current_pointer w db)) (wiredResolver w db) px = (px1, tr, r)"
  shows "r = (case wiredResolver w db (current_pointer w db) of
      Inl e \<Rightarrow> Inl e | Inr b \<Rightarrow> if be_session b = wr_self w then Inl Reentrant else Inr b)"
    and "proxy_ok w (db, px1)" and "r = Inr b \<Longrightarrow> cached_kind px1 = be_kind b"
proof -
  let ?p = "current_pointer w db"
  have "r = (case wiredResolver w db ?p of
      Inl e \<Rightarrow> Inl e | Inr b \<Rightarrow> if be_session b = wr_self w then Inl Reentrant else Inr b)
    \<and> proxy_ok w (db, px1) \<and> (r = Inr b \<longrightarrow> cached_kind px1 = be_kind b)"
  proof (cases "if px_epoch px = Some (pt_epoch ?p) \<and> px_sandbox px = Some (pt_sandbox_id ?p) then px_cached px else None")
    case (Some c)
    then have c: "px_epoch px = Some (pt_epoch ?p)" "px_sandbox px = Some (pt_sandbox_id ?p)" "px_cached px = Some c"
      by (simp_all split: if_splits)
    from assms(1) c(3) obtain p where p: "be_session c \<noteq> wr_self w" "px_epoch px = Some (pt_epoch p)"
        "px_sandbox px = Some (pt_sandbox_id p)" "pointer_moved p ?p" "?p = p \<longrightarrow> wiredResolver w db p = Inr c"
      unfolding proxy_ok_def fst_conv snd_conv by blast
    have "?p = p" using p(4) c(1,2) p(2,3) by (auto simp: pointer_moved_def pointer_later_def)
    with p have "be_session c \<noteq> wr_self w" "wiredResolver w db ?p = Inr c" by simp_all
    moreover have "px1 = px" "r = Inr c" using assms(2) by (simp_all add: resolve_def Some)
    ultimately show ?thesis using assms(1) c by (simp add: cached_kind_def)
  next
    case None
    note res = assms(2) [unfolded resolve_def sum.case None option.case]
    show ?thesis
    proof (cases "wiredResolver w db ?p")
      case (Inl e)
      show ?thesis using res assms(1) unfolding Inl by auto
    next
      case (Inr c)
      note found = res [unfolded Inr sum.case Let_def]
      show ?thesis
      proof (cases "be_session c = wr_self w")
        case True
        with found assms(1) show ?thesis unfolding Inr by auto
      next
        case False
        then have "r = Inr c" "px1 = px\<lparr>px_epoch := Some (pt_epoch ?p), px_sandbox := Some (pt_sandbox_id ?p),
            px_cached := Some c, px_last := Some c\<rparr>" using found by auto
        with False Inr show ?thesis by (auto simp: proxy_ok_def cached_kind_def)
      qed
    qed
  qed
  then show "r = (case wiredResolver w db ?p of
      Inl e \<Rightarrow> Inl e | Inr b \<Rightarrow> if be_session b = wr_self w then Inl Reentrant else Inr b)"
    and "proxy_ok w (db, px1)" and "r = Inr b \<Longrightarrow> cached_kind px1 = be_kind b" by blast+
qed

lemma proxy_ok_forget: "proxy_ok w (db, forget px)"
  by (simp add: proxy_ok_def forget_def)

text \<open>The loop against the reference, from the \<open>k\<close>-th attempt on.\<close>

lemma between_keeps: "keeps_route w (between others k db) (between others (k + n) db)"
proof (induction n)
  case (Suc n)
  then show ?case using keeps_route_trans [OF Suc.IH routes.run_rel] by simp
qed (simp add: keeps_route_refl)

lemma attempt_cases:
  assumes "proxy_ok w (db, px)" and "io k = wiredAttempt w op db"
  obtains (settled) px1 tr where "dispatchLoop (wr_self w) io k (Suc n) px err = (px1, tr, uncached w op db)"
      "\<not> fenced (uncached w op db)" "proxy_ok w (db, px1)"
  | (again) px1 e where "uncached w op db = Inl (OpError e)" "isFenceError e"
      "\<exists>tr2. dispatchLoop (wr_self w) io k (Suc n) px err
        = (fst (dispatchLoop (wr_self w) io (Suc k) n (forget px1) (Some e)), tr2,
           snd (snd (dispatchLoop (wr_self w) io (Suc k) n (forget px1) (Some e))))"
proof -
  obtain px1 tr r where res: "resolve (wr_self w) (Inr (current_pointer w db)) (wiredResolver w db) px = (px1, tr, r)"
    by (metis prod_cases3)
  note cur = resolve_current [OF assms(1) res]
  have io: "io_read (io k) = Inr (current_pointer w db)" "io_resolver (io k) = wiredResolver w db" "io_op (io k) = op"
    by (simp_all add: assms(2) wiredAttempt_def current_pointer_def)
  show ?thesis
  proof (cases r)
    case (Inl e)
    then have u: "uncached w op db = Inl (ResolveError e)"
      using cur(1) by (auto simp: uncached_def current_pointer_def split: sum.splits if_splits)
    then show ?thesis
      using cur(2) by (intro settled [of px1 tr]) (simp_all add: io res Inl)
  next
    case (Inr b)
    then have u: "uncached w op db = map_sum OpError id (op (be_kind b) (be_session b))"
      using cur(1) by (auto simp: uncached_def current_pointer_def split: sum.splits if_splits)
    show ?thesis
    proof (cases "op (be_kind b) (be_session b)")
      case (Inr v)
      with u cur(2,3) \<open>r = Inr b\<close> show ?thesis by (intro settled [of px1 tr]) (simp_all add: io res)
    next
      case (Inl e)
      show ?thesis
      proof (cases "isFenceError e")
        case True
        with u cur(3) \<open>r = Inr b\<close> Inl show ?thesis
          by (intro again [of e px1]) (simp_all add: io res split_beta)
      next
        case False
        with u cur(2,3) \<open>r = Inr b\<close> Inl show ?thesis by (intro settled [of px1 tr]) (simp_all add: io res)
      qed
    qed
  qed
qed

lemma dispatchLoop_uncached:
  assumes "proxy_ok w (between others k db, px)" and "\<And>k. io k = wiredAttempt w op (between others k db)"
  shows "(\<exists>j \<le> n. (\<forall>i < j. fenced (uncached w op (between others (k + i) db)))
        \<and> (j < n \<longrightarrow> \<not> fenced (uncached w op (between others (k + j) db)))
        \<and> snd (snd (dispatchLoop (wr_self w) io k (Suc n) px err)) = uncached w op (between others (k + j) db))
    \<and> proxy_ok w (between others (k + n) db, fst (dispatchLoop (wr_self w) io k (Suc n) px err))"
  using assms(1)
proof (induction n arbitrary: k px err)
  case (0 k px err)
  show ?case using 0 assms(2) [of k]
  proof (cases rule: attempt_cases [where io = io and k = k and n = 0 and err = err])
    case (again px1 e)
    then show ?thesis by (auto simp: proxy_ok_forget)
  qed auto
next
  case (Suc n k px err)
  show ?case using Suc.prems assms(2) [of k]
  proof (cases rule: attempt_cases [where io = io and k = k and n = "Suc n" and err = err])
    case (settled px1 tr)
    have "proxy_ok w (between others (k + Suc n) db, px1)" by (rule proxy_ok_kept [OF settled(3) between_keeps])
    with settled(1,2) show ?thesis by (auto simp del: dispatchLoop.simps between.simps intro!: exI [of _ 0])
  next
    case (again px1 e)
    let ?loop = "dispatchLoop (wr_self w) io (Suc k) (Suc n) (forget px1) (Some e)"
    from Suc.IH [of "Suc k" "forget px1" "Some e"] obtain j where j: "j \<le> n"
        "\<forall>i < j. fenced (uncached w op (between others (Suc k + i) db))"
        "j < n \<longrightarrow> \<not> fenced (uncached w op (between others (Suc k + j) db))"
        "snd (snd ?loop) = uncached w op (between others (Suc k + j) db)"
        and ok: "proxy_ok w (between others (Suc k + n) db, fst ?loop)"
      using proxy_ok_forget by blast
    have "fenced (uncached w op (between others (k + i) db))" if "i < Suc j" for i
      using that again(1,2) j(2) by (cases i) auto
    with j ok again(3) show ?thesis by (intro conjI exI [of _ "Suc j"]) auto
  qed
qed

lemma routed_dispatch_uncached:
  assumes "proxy_ok w (db, px)"
  shows "(\<exists>j \<le> 3. (\<forall>i < j. fenced (uncached w op (between others i db)))
        \<and> (j < 3 \<longrightarrow> \<not> fenced (uncached w op (between others j db)))
        \<and> snd (snd (routed_dispatch w others op db px)) = uncached w op (between others j db))
    \<and> proxy_ok w (between others 3 db, fst (routed_dispatch w others op db px))"
proof -
  have ok: "proxy_ok w (between others 0 db, px)"
    using proxy_ok_kept [OF assms routes.run_rel] by simp
  have "dispatch_op (wr_self w) None io px = dispatchLoop (wr_self w) io 0 (Suc 3) px None" for io :: "nat \<Rightarrow> ('a, 'b) attempt_io"
    by (simp add: dispatch_op_def or_else_def eval_nat_numeral)
  with dispatchLoop_uncached [OF ok, of "\<lambda>k. wiredAttempt w op (between others k db)" op 3 None]
  show ?thesis by (simp add: routed_dispatch_def)
qed

lemma routed_step_ok: "proxy_ok w s \<Longrightarrow> proxy_ok w (routed_step w op s)"
proof (cases s; cases op)
  fix db px fop
  assume "proxy_ok w s" "s = (db, px)" "op = RAmbient fop"
  then show ?thesis by (simp add: proxy_ok_kept [OF _ ambient_step_route])
next
  fix db px others f
  assume "proxy_ok w s" "s = (db, px)" "op = ROp others f"
  then show ?thesis using routed_dispatch_uncached [where op = f and others = others] by simp
qed

interpretation routed_run: step_invariant "routed_step w" "\<lambda>_ _. True" "proxy_ok w" for w
  by unfold_locales (rule routed_step_ok)

lemma routed_runs:
  assumes "run_ops (routed_step w) ops (db0, new_proxy) = s"
  shows "proxy_ok w s"
proof -
  have "admissible (routed_step w) (\<lambda>_ _. True) es t" for es t by (induction es arbitrary: t) auto
  moreover have "proxy_ok w (db0, new_proxy)" by (simp add: proxy_ok_def new_proxy_def)
  ultimately show ?thesis using routed_run.run_inv assms by metis
qed


subsection \<open>The claims\<close>

text \<open>
  C18: the cache is never seen. Take any history of a proxy: operations through it, with swaps, session
  and machine transactions, and cascades that delete a sandbox and so move pointers at their epoch,
  between and during the operations. The next operation returns what its reference returns: of at most
  four attempts, each resolving the pointer of that moment afresh, the first that the backend does not
  fence off, or else the fourth. A cache keyed by the epoch alone would break this. An attempt reads the
  pointer and the sandbox row in one state of the tables, and building a machine's handle does not fail.
\<close>

theorem operations_follow_the_pointer:
  assumes "run_ops (routed_step w) ops (db0, new_proxy) = (db, px)"
  shows "\<exists>j \<le> 3. (\<forall>i < j. fenced (uncached w op (between others i db)))
    \<and> (j = 3 \<or> \<not> fenced (uncached w op (between others j db)))
    \<and> snd (snd (routed_dispatch w others op db px)) = uncached w op (between others j db)"
proof -
  obtain j where "j \<le> 3" "\<forall>i < j. fenced (uncached w op (between others i db))"
      "j < 3 \<longrightarrow> \<not> fenced (uncached w op (between others j db))"
      "snd (snd (routed_dispatch w others op db px)) = uncached w op (between others j db)"
    using routed_dispatch_uncached [OF routed_runs [OF assms]] by blast
  then show ?thesis by (intro exI [of _ j]) auto
qed

text \<open>A wiring whose handles are strings, a pinned machine, and an operation it fences once.\<close>

definition demo_wiring :: "string wiring" where
  "demo_wiring = \<lparr>wr_self = ''proxy'', wr_established = ''group'', wr_backend_id = ''modal'',
     wr_build = (\<lambda>e epoch dir. CHR ''m'' # e), wr_pinned = None, wr_home = None, wr_workspace_id = ''w'', wr_session_id = ''s''\<rparr>"

definition demo_op :: "string \<Rightarrow> string \<Rightarrow> op_error + string" where
  "demo_op kind s = (if s = ''group'' then Inl (OpRaised True True [] []) else Inr s)"

definition demo_history :: "(string, string) routed_op list" where
  "demo_history = [ROp (\<lambda>_. []) (\<lambda>kind s. Inr s),
     RAmbient (AFleet (FMachine (OpSandbox ''box'' 1 ''a'' ''w'' Selfhosted [] (Some ''n''))))]"

definition demo_swap_between :: "nat \<Rightarrow> ambient_op list" where
  "demo_swap_between i = (if i = 1 then [AFleet (FSwap ''w'' ''s'' (Some ''box'') 0 None)] else [])"

text \<open>The cached machine is deleted: the pointer falls back to the session's own box, at its epoch.\<close>

definition demo_cascade :: "(string, string) routed_op list" where
  "demo_cascade = demo_history @ [RAmbient (AFleet (FSwap ''w'' ''s'' (Some ''box'') 0 None)),
     ROp (\<lambda>_. []) (\<lambda>kind s. Inr s), RAmbient (ADelete ''box'')]"

lemma operations_follow_the_pointer_witness:
  "snd (snd (routed_dispatch demo_wiring demo_swap_between demo_op
       (fst (run_ops (routed_step demo_wiring) demo_history (demo_fleet, new_proxy)))
       (snd (run_ops (routed_step demo_wiring) demo_history (demo_fleet, new_proxy))))) = Inr ''mn''
   \<and> (let s = run_ops (routed_step demo_wiring) demo_cascade (demo_fleet, new_proxy) in
       px_epoch (snd s) = Some (pt_epoch (current_pointer demo_wiring (fst s)))
       \<and> map_option be_session (px_cached (snd s)) = Some ''mn''
       \<and> snd (snd (routed_dispatch demo_wiring (\<lambda>_. []) (\<lambda>kind s. Inr s) (fst s) (snd s))) = (Inr ''group'' :: dispatch_error + string))"
proof
  let ?s = "run_ops (routed_step demo_wiring) demo_history (demo_fleet, new_proxy)"
  let ?u = "\<lambda>i. uncached demo_wiring demo_op (between demo_swap_between i (fst ?s))"
  have u: "fenced (?u 0)" "?u 1 = Inr ''mn''" by code_simp+
  obtain j where j: "\<forall>i < j. fenced (?u i)" "j = 3 \<or> \<not> fenced (?u j)"
      "snd (snd (routed_dispatch demo_wiring demo_swap_between demo_op (fst ?s) (snd ?s))) = ?u j"
    using operations_follow_the_pointer [of demo_wiring demo_history demo_fleet "fst ?s" "snd ?s" demo_op demo_swap_between] by auto
  have "\<not> 1 < j" using j(1) u(2) by auto
  moreover have "j \<noteq> 0" using j(2) u(1) by (intro notI) (simp del: between.simps)
  ultimately have "j = 1" by simp
  with j(3) u(2) show "snd (snd (routed_dispatch demo_wiring demo_swap_between demo_op (fst ?s) (snd ?s))) = Inr ''mn''" by simp
next
  let ?s = "run_ops (routed_step demo_wiring) demo_cascade (demo_fleet, new_proxy)"
  let ?op = "\<lambda>kind s. Inr s :: op_error + string"
  have u: "uncached demo_wiring ?op (fst ?s) = Inr ''group''" by code_simp
  have stale: "px_epoch (snd ?s) = Some (pt_epoch (current_pointer demo_wiring (fst ?s)))"
      "map_option be_session (px_cached (snd ?s)) = Some ''mn''" by code_simp+
  have quiet: "between (\<lambda>_. []) k db = db" for k db by (induction k) simp_all
  obtain j where "snd (snd (routed_dispatch demo_wiring (\<lambda>_. []) ?op (fst ?s) (snd ?s)))
      = uncached demo_wiring ?op (between (\<lambda>_. []) j (fst ?s))"
    using operations_follow_the_pointer [of demo_wiring demo_cascade demo_fleet "fst ?s" "snd ?s" ?op "\<lambda>_. []"] by auto
  then have "snd (snd (routed_dispatch demo_wiring (\<lambda>_. []) ?op (fst ?s) (snd ?s))) = Inr ''group''"
    by (simp only: quiet u)
  with stale show "let s = ?s in
       px_epoch (snd s) = Some (pt_epoch (current_pointer demo_wiring (fst s)))
       \<and> map_option be_session (px_cached (snd s)) = Some ''mn''
       \<and> snd (snd (routed_dispatch demo_wiring (\<lambda>_. []) (\<lambda>kind s. Inr s) (fst s) (snd s))) = (Inr ''group'' :: dispatch_error + string)"
    by (simp only: Let_def)
qed

lemma between_quiet [simp]: "between (\<lambda>_. []) k db = db"
  by (induction k) simp_all

lemma getSandbox_id: "getSandbox ws i db = Some b \<Longrightarrow> b_id b = i"
  by (auto simp: getSandbox_def dest: find_SomeD)

text \<open>What admission promises the router.\<close>

lemma admitted_target_resolves:
  assumes "pt_sandbox_id q = None \<or> (\<exists>b. getSandbox (wr_workspace_id w) target (fl_machines db) = Some b
      \<and> b_kind b = Selfhosted \<and> b_enrollment_id b \<noteq> None \<and> pt_sandbox_id q = Some (b_id b))"
    and "wr_home w \<noteq> Some False" and "wr_established w \<noteq> wr_self w" and "\<And>e x d. wr_build w e x d \<noteq> wr_self w"
  shows "\<exists>b. wiredResolver w db q = Inr b \<and> be_sandbox_id b = pt_sandbox_id q \<and> be_session b \<noteq> wr_self w"
  using assms(1)
proof
  assume "pt_sandbox_id q = None"
  with assms(2,3) show ?thesis by (auto simp: wiredResolver_def makeActiveBackendResolver_def wiredDeps_def)
next
  assume "\<exists>b. getSandbox (wr_workspace_id w) target (fl_machines db) = Some b
      \<and> b_kind b = Selfhosted \<and> b_enrollment_id b \<noteq> None \<and> pt_sandbox_id q = Some (b_id b)"
  then obtain b e where b: "getSandbox (wr_workspace_id w) target (fl_machines db) = Some b" "b_kind b = Selfhosted"
      "b_enrollment_id b = Some e" "pt_sandbox_id q = Some (b_id b)" by auto
  with getSandbox_id [OF b(1)] have "getSandbox (wr_workspace_id w) (b_id b) (fl_machines db) = Some b" by simp
  with b assms(3,4) show ?thesis
    by (cases "wr_pinned w")
       (auto simp: wiredResolver_def makeActiveBackendResolver_def wiredDeps_def pinned_session_def routable_def)
qed

text \<open>
  A swap lands, on a target the router can resolve. When the fleet service reports a session
  swapped, the pointer it leaves resolves to a backend of the reported sandbox, whatever other callers
  did meanwhile; and the next operation of a turn that was already running is answered by that backend,
  warm cache or not, unless the backend fences it. The one exception is the swap home of a turn that
  runs without its home box.
\<close>

theorem swap_lands_on_next_operation:
  assumes "run_ops (routed_step w) ops (db0, new_proxy) = (db, px)"
    and "swapActiveSandbox (interleaved others) ping now ctx target wd db = (db', r)" and "sr_swapped r"
    and "fc_workspace_id ctx = wr_workspace_id w" and "fc_session_id ctx = wr_session_id w"
    and "find_session (wr_workspace_id w) (wr_session_id w) (fl_sessions db) \<noteq> None"
    and "distinct (map s_id (sessions (fl_sessions db)))"
    and "wr_home w \<noteq> Some False" and "wr_established w \<noteq> wr_self w" and "\<And>e x d. wr_build w e x d \<noteq> wr_self w"
  shows "\<exists>b. wiredResolver w db' (current_pointer w db') = Inr b \<and> be_sandbox_id b = sr_active_sandbox_id r
    \<and> (\<not> fenced (map_sum OpError id (op (be_kind b) (be_session b)))
        \<longrightarrow> snd (snd (routed_dispatch w (\<lambda>_. []) op db' px)) = map_sum OpError id (op (be_kind b) (be_session b)))"
proof -
  obtain db1 t where res: "resolveTarget (interleaved others) ping now ctx target db = (db1, Inr t)"
      and go: "swapAttempts 2 1 (interleaved others) ctx t wd (interleaved others 1 db1) = (db', r)"
      and k: "keeps_fleet db (interleaved others 1 db1)"
    using swap_admitted [OF assms(2)] assms(3) by blast
  obtain p0 where "readActiveSandbox (fc_workspace_id ctx) (fc_session_id ctx) (fl_sessions db) = Some p0"
    using assms(4-6) by (auto simp: readActiveSandbox_def)
  then obtain p where p: "readActiveSandbox (fc_workspace_id ctx) (fc_session_id ctx) (fl_sessions (interleaved others 1 db1)) = Some p"
    by (rule read_kept [OF k])
  have ids: "distinct (map s_id (sessions (fl_sessions (interleaved others 1 db1))))"
    using assms(7) keeps_fleet_ids [OF k] by simp
  obtain q where q: "readActiveSandbox (fc_workspace_id ctx) (fc_session_id ctx) (fl_sessions db') = Some q"
      "r = swapped_to q" "pt_sandbox_id q = t" and k': "keeps_fleet (interleaved others 1 db1) db'"
    using swapAttempts_swapped [OF go assms(3) ids p] by blast
  have keeps: "keeps_fleet db db'" using keeps_fleet_trans [OF k k'] .
  have cur: "current_pointer w db' = q"
    using q(1) assms(4,5) by (simp add: current_pointer_def pointer_or_default_def or_else_def)
  have "pt_sandbox_id q = None \<or> (\<exists>b. getSandbox (wr_workspace_id w) target (fl_machines db') = Some b
      \<and> b_kind b = Selfhosted \<and> b_enrollment_id b \<noteq> None \<and> pt_sandbox_id q = Some (b_id b))"
    using resolveTarget_cases(2) [OF res, of t] q(3) assms(4) getSandbox_kept [OF keeps] by auto
  from admitted_target_resolves [OF this assms(8-10)] obtain b where
    b: "wiredResolver w db' q = Inr b" "be_sandbox_id b = pt_sandbox_id q" "be_session b \<noteq> wr_self w" by blast
  have u: "uncached w op db' = map_sum OpError id (op (be_kind b) (be_session b))"
    using b(1,3) cur by (simp add: uncached_def current_pointer_def)
  have "proxy_ok w (db', px)" using proxy_ok_kept [OF routed_runs [OF assms(1)] keeps_fleet_route [OF keeps]] .
  from routed_dispatch_uncached [OF this, of op "\<lambda>_. []"] obtain j where
    "snd (snd (routed_dispatch w (\<lambda>_. []) op db' px)) = uncached w op db'" by auto
  with b u cur q(2) show ?thesis by (auto simp: swapped_to_def)
qed

text \<open>A turn that ran on its group box, a machine that enrolls, and a swap to it.\<close>

definition demo_enrolling :: "(string, string) routed_op list" where
  "demo_enrolling = [ROp (\<lambda>_. []) (\<lambda>kind s. Inr s), RAmbient (AFleet (FMachine (OpApprove ''n'' ''b'' 1 demo_approval)))]"

definition demo_enrolled :: "fleet_db \<times> string proxy" where
  "demo_enrolled = run_ops (routed_step demo_wiring) demo_enrolling (demo_fleet, new_proxy)"

definition demo_landing :: "fleet_db \<times> swap_result" where
  "demo_landing = swapActiveSandbox (interleaved (\<lambda>_. [])) (\<lambda>_. True) 5 demo_context ''b'' None (fst demo_enrolled)"

lemma swap_lands_on_next_operation_witness:
  "snd (snd (routed_dispatch demo_wiring (\<lambda>_. []) (\<lambda>kind s. Inr s) (fst demo_landing) (snd demo_enrolled)))
     = (Inr ''mn'' :: dispatch_error + string)"
proof -
  have run: "run_ops (routed_step demo_wiring) demo_enrolling (demo_fleet, new_proxy) = (fst demo_enrolled, snd demo_enrolled)"
    and swap: "swapActiveSandbox (interleaved (\<lambda>_. [])) (\<lambda>_. True) 5 demo_context ''b'' None (fst demo_enrolled)
      = (fst demo_landing, snd demo_landing)"
    by (simp_all add: demo_enrolled_def demo_landing_def)
  have ok: "sr_swapped (snd demo_landing)" "\<not> Option.is_none (find_session ''w'' ''s'' (fl_sessions (fst demo_enrolled)))"
      "distinct (map s_id (sessions (fl_sessions (fst demo_enrolled))))" by code_simp+
  have b: "map_sum id be_session (wiredResolver demo_wiring (fst demo_landing) (current_pointer demo_wiring (fst demo_landing)))
      = Inr ''mn''" by code_simp
  from swap_lands_on_next_operation [OF run swap ok(1), of "\<lambda>kind s. Inr s"] ok(2,3) b show ?thesis
    by (auto simp: demo_context_def demo_wiring_def Option.is_none_def)
qed

end
