(* ===== verification/Metering.thy ===== *)
theory Metering
  imports Lease Complex_Main
begin

text \<open>
  Usage events, the credit ledger and warm-time metering (\<^verbatim>\<open>packages/db/src/index.ts\<close>), with the
  reaper's metering and force-drain passes (\<^verbatim>\<open>apps/worker/src/activities/sandbox-lease.ts\<close>). Times
  are in milliseconds, quantities and amounts unbounded integers (the columns are \<^verbatim>\<open>bigint\<close>), the warm
  rate an exact rational. \<open>env\<close> is what other callers do between two transactions.
\<close>

subsection \<open>Usage events\<close>

record usage_event =
  ue_account_id :: uuid
  ue_workspace_id :: uuid
  ue_subject_id :: "string option"
  ue_type :: string
  ue_quantity :: int
  ue_unit :: string
  ue_source_type :: "string option"
  ue_source_id :: "string option"
  ue_key :: string
  ue_occurred_at :: millis
  ue_recorded_at :: millis

record ledger_entry =
  le_account_id :: uuid
  le_workspace_id :: "uuid option"
  le_type :: string
  le_amount :: int
  le_source_type :: "string option"
  le_source_id :: "string option"
  le_key :: string
  le_metadata :: "(string \<times> json) list"
  le_occurred_at :: millis

record meter_db =
  mt_leases :: lease_db
  mt_usage :: "usage_event list"
  mt_ledger :: "ledger_entry list"

text \<open>\<^verbatim>\<open>on conflict (idempotency_key) do nothing\<close>.\<close>

definition insertUsage :: "usage_event \<Rightarrow> meter_db \<Rightarrow> meter_db" where
  "insertUsage e db =
     (if exists_where (\<lambda>x. ue_key x = ue_key e) (mt_usage db) then db
      else db\<lparr>mt_usage := mt_usage db @ [e]\<rparr>)"

definition insertLedger :: "ledger_entry \<Rightarrow> meter_db \<Rightarrow> meter_db" where
  "insertLedger e db =
     (if exists_where (\<lambda>x. le_key x = le_key e) (mt_ledger db) then db
      else db\<lparr>mt_ledger := mt_ledger db @ [e]\<rparr>)"

definition recordUsageEvent :: "usage_event \<Rightarrow> meter_db \<Rightarrow> meter_db \<times> usage_event option" where
  "recordUsageEvent e db =
     (let db1 = insertUsage e db in (db1, List.find (\<lambda>x. ue_key x = ue_key e) (mt_usage db1)))"

definition listUsageEvents :: "uuid \<Rightarrow> uuid option \<Rightarrow> nat option \<Rightarrow> meter_db \<Rightarrow> usage_event list" where
  "listUsageEvents account ws limit db =
     take (case limit of None \<Rightarrow> 100 | Some n \<Rightarrow> n)
       (rev (sort_key (\<lambda>e. ue_occurred_at e) (sort_key (\<lambda>e. ue_recorded_at e)
          (select_where (\<lambda>e. ue_account_id e = account \<and> (ws = None \<or> ws = Some (ue_workspace_id e))) (mt_usage db)))))"

definition sumUsageQuantity ::
    "uuid option \<Rightarrow> uuid option \<Rightarrow> string \<Rightarrow> millis option \<Rightarrow> meter_db \<Rightarrow> int option" where
  "sumUsageQuantity account ws eventType since db =
     (if account = None \<and> ws = None then None
      else Some (sum_list (map ue_quantity (select_where
        (\<lambda>e. ue_type e = eventType \<and> (account = None \<or> account = Some (ue_account_id e))
             \<and> (ws = None \<or> ws = Some (ue_workspace_id e))
             \<and> (case since of None \<Rightarrow> True | Some t \<Rightarrow> t < ue_occurred_at e)) (mt_usage db)))))"

subsection \<open>The credit ledger\<close>

definition getBillingBalance :: "uuid \<Rightarrow> meter_db \<Rightarrow> int" where
  "getBillingBalance account db =
     sum_list (map le_amount (select_where (\<lambda>e. le_account_id e = account) (mt_ledger db)))"

definition applyCreditLedgerEntry :: "ledger_entry \<Rightarrow> meter_db \<Rightarrow> meter_db \<times> int" where
  "applyCreditLedgerEntry e db =
     (let db1 = insertLedger e db in (db1, getBillingBalance (le_account_id e) db1))"

text \<open>\<open>le_amount\<close> of the input is the requested amount; the advisory lock makes read and insert one step.\<close>

definition applyCreditDebitUpToBalance :: "ledger_entry \<Rightarrow> meter_db \<Rightarrow> meter_db \<times> int \<times> int" where
  "applyCreditDebitUpToBalance e db =
     (let account = le_account_id e in
      if le_amount e \<le> 0 then (db, getBillingBalance account db, 0)
      else
        (let debited = min (le_amount e) (max 0 (getBillingBalance account db));
             db1 = (if 0 < debited then
                      insertLedger (e\<lparr>le_amount := - debited,
                        le_metadata := jput ''debitedMicros'' (JNum debited)
                          (jput ''requestedAmountMicros'' (JNum (le_amount e)) (le_metadata e))\<rparr>) db
                    else db)
         in (db1, getBillingBalance account db1, debited)))"

definition hasCreditLedgerEntry :: "uuid \<Rightarrow> string \<Rightarrow> meter_db \<Rightarrow> bool" where
  "hasCreditLedgerEntry account key db =
     exists_where (\<lambda>e. le_account_id e = account \<and> le_key e = key) (mt_ledger db)"

subsection \<open>The warm-time meter\<close>

record accrue_input =
  au_account_id :: uuid
  au_workspace_id :: uuid
  au_group_id :: uuid
  au_expected_epoch :: int
  au_rate :: rat
  au_subject_id :: "string option"
  au_debit_credits :: "bool option"

record accrue_result =
  ar_accrued :: bool
  ar_seconds :: int
  ar_tick :: int
  ar_cost_micros :: int

definition nothing_accrued :: accrue_result where
  "nothing_accrued = \<lparr>ar_accrued = False, ar_seconds = 0, ar_tick = 0, ar_cost_micros = 0\<rparr>"

definition meter_source :: "accrue_input \<Rightarrow> string" where
  "meter_source inp = au_group_id inp @ '':'' @ int_dec (au_expected_epoch inp)"

definition meter_key :: "string \<Rightarrow> accrue_input \<Rightarrow> int \<Rightarrow> string" where
  "meter_key kind inp tick = kind @ meter_source inp @ '':'' @ int_dec tick"

definition warmSecondsEvent :: "millis \<Rightarrow> accrue_input \<Rightarrow> int \<Rightarrow> int \<Rightarrow> usage_event" where
  "warmSecondsEvent now inp tick seconds =
     \<lparr>ue_account_id = au_account_id inp, ue_workspace_id = au_workspace_id inp, ue_subject_id = au_subject_id inp,
      ue_type = ''sandbox.warm_seconds'', ue_quantity = seconds, ue_unit = ''seconds'',
      ue_source_type = Some ''sandbox_lease'', ue_source_id = Some (meter_source inp),
      ue_key = meter_key ''usage:sandbox.warm_seconds:'' inp tick, ue_occurred_at = now, ue_recorded_at = now\<rparr>"

definition warmCostEvent :: "millis \<Rightarrow> accrue_input \<Rightarrow> int \<Rightarrow> int \<Rightarrow> usage_event" where
  "warmCostEvent now inp tick cost =
     (warmSecondsEvent now inp tick cost)
       \<lparr>ue_type := ''sandbox.warm_cost'', ue_unit := ''usd_micros'',
        ue_key := meter_key ''usage:sandbox.warm_cost:'' inp tick\<rparr>"

text \<open>\<^verbatim>\<open>floor(extract(epoch from now() - last_meter_at))\<close>, and \<^verbatim>\<open>Math.round\<close>, which rounds halves up.\<close>

definition elapsed_seconds :: "millis \<Rightarrow> millis \<Rightarrow> int" where
  "elapsed_seconds now t = (now - t) div 1000"

definition math_round :: "rat \<Rightarrow> int" where
  "math_round x = \<lfloor>x + 1 / 2\<rfloor>"

definition set_cursor :: "uuid \<Rightarrow> (lease_row \<Rightarrow> lease_row) \<Rightarrow> meter_db \<Rightarrow> meter_db" where
  "set_cursor lid f db =
     db\<lparr>mt_leases := (mt_leases db)\<lparr>leases := update_where (\<lambda>r. lr_id r = lid) f (leases (mt_leases db))\<rparr>\<rparr>"

definition accrueTick :: "millis \<Rightarrow> accrue_input \<Rightarrow> meter_db \<Rightarrow> meter_db \<times> accrue_result" where
  "accrueTick now inp db =
     (case find_lease (au_workspace_id inp) (au_group_id inp) (mt_leases db) of
        None \<Rightarrow> (db, nothing_accrued)
      | Some r \<Rightarrow>
          if lr_epoch r \<noteq> au_expected_epoch inp \<or> lr_liveness r \<noteq> Warm then (db, nothing_accrued)
          else
            (case lr_last_meter_at r of
               None \<Rightarrow> (set_cursor (lr_id r) (\<lambda>r. r\<lparr>lr_last_meter_at := Some now\<rparr>) db, nothing_accrued)
             | Some t \<Rightarrow>
                 (let seconds = elapsed_seconds now t in
                  if seconds \<le> 0 then (db, nothing_accrued)
                  else
                    (let tick = lr_last_meter_tick r + 1;
                         cost = math_round (of_int seconds * max 0 (au_rate inp));
                         db1 = insertUsage (warmSecondsEvent now inp tick seconds) db;
                         db2 = (if 0 < cost then insertUsage (warmCostEvent now inp tick cost) db1 else db1);
                         db3 = set_cursor (lr_id r) (\<lambda>r. r\<lparr>lr_last_meter_at := Some now, lr_last_meter_tick := tick\<rparr>) db2
                     in (db3, \<lparr>ar_accrued = True, ar_seconds = seconds, ar_tick = tick, ar_cost_micros = cost\<rparr>)))))"

definition warmDebit :: "millis \<Rightarrow> accrue_input \<Rightarrow> accrue_result \<Rightarrow> ledger_entry" where
  "warmDebit now inp r =
     \<lparr>le_account_id = au_account_id inp, le_workspace_id = Some (au_workspace_id inp), le_type = ''sandbox.warm_cost'',
      le_amount = ar_cost_micros r, le_source_type = Some ''sandbox_lease'', le_source_id = Some (meter_source inp),
      le_key = meter_key ''debit:sandbox.warm_cost:'' inp (ar_tick r), le_metadata = [], le_occurred_at = now\<rparr>"

text \<open>The tick, and the debit in a transaction of its own, with other callers in between.\<close>

definition accrueWarmSeconds ::
    "(meter_db \<Rightarrow> meter_db) \<Rightarrow> millis \<Rightarrow> accrue_input \<Rightarrow> meter_db \<Rightarrow> meter_db \<times> accrue_result" where
  "accrueWarmSeconds env now inp db =
     (let (db1, r) = accrueTick now inp db in
      if ar_accrued r \<and> 0 < ar_cost_micros r \<and> au_debit_credits inp \<noteq> Some False
      then (fst (applyCreditDebitUpToBalance (warmDebit now inp r) (env db1)), r)
      else (db1, r))"

subsection \<open>Force-drain\<close>

datatype drain_reason = NoBalance | WarmCap

record drain_limits =
  dl_balance_micros :: int
  dl_enforce_balance :: bool
  dl_max_warm_seconds :: int
  dl_cap_window_start :: millis
  dl_idle_grace_ms :: millis

definition overLimit :: "uuid \<Rightarrow> drain_limits \<Rightarrow> meter_db \<Rightarrow> drain_reason option" where
  "overLimit ws limits db =
     (if dl_enforce_balance limits \<and> dl_balance_micros limits \<le> 0 then Some NoBalance
      else if 0 < dl_max_warm_seconds limits
              \<and> dl_max_warm_seconds limits \<le> sum_list (map ue_quantity (select_where
                   (\<lambda>e. ue_workspace_id e = ws \<and> ue_type e = ''sandbox.warm_seconds''
                        \<and> dl_cap_window_start limits < ue_occurred_at e) (mt_usage db)))
           then Some WarmCap
      else None)"

definition forceDrainOverLimitViewerOnlyBoxes ::
    "millis \<Rightarrow> uuid \<Rightarrow> drain_limits \<Rightarrow> meter_db \<Rightarrow> meter_db \<times> drain_reason option \<times> uuid list" where
  "forceDrainOverLimitViewerOnlyBoxes now ws limits db =
     (case overLimit ws limits db of
        None \<Rightarrow> (db, None, [])
      | Some reason \<Rightarrow>
          (let (ls, drained) = forceDrain now ws (dl_idle_grace_ms limits) (mt_leases db) in
           (db\<lparr>mt_leases := ls\<rparr>, Some reason, drained)))"

subsection \<open>The reaper's passes\<close>

record meterable =
  ml_account_id :: uuid
  ml_workspace_id :: uuid
  ml_group_id :: uuid
  ml_epoch :: int
  ml_backend :: string

definition listMeterableWarmLeases :: "meter_db \<Rightarrow> meterable list" where
  "listMeterableWarmLeases db =
     map (\<lambda>r. \<lparr>ml_account_id = lr_account_id r, ml_workspace_id = lr_workspace_id r, ml_group_id = lr_group_id r,
               ml_epoch = lr_epoch r, ml_backend = lr_backend r\<rparr>)
       (select_where (\<lambda>r. lr_liveness r = Warm \<and> lr_turn_holders r = 0) (leases (mt_leases db)))"

definition accrueOf :: "(string \<Rightarrow> rat) \<Rightarrow> meterable \<Rightarrow> accrue_input" where
  "accrueOf rateOf m =
     \<lparr>au_account_id = ml_account_id m, au_workspace_id = ml_workspace_id m, au_group_id = ml_group_id m,
      au_expected_epoch = ml_epoch m, au_rate = rateOf (ml_backend m), au_subject_id = Some (ml_group_id m),
      au_debit_credits = None\<rparr>"

text \<open>\<open>env i\<close> runs before and inside the \<open>i\<close>-th accrual of the list, \<open>nows i\<close> is its time.\<close>

fun accrueEach ::
    "(nat \<Rightarrow> meter_db \<Rightarrow> meter_db) \<Rightarrow> (nat \<Rightarrow> millis) \<Rightarrow> (string \<Rightarrow> rat) \<Rightarrow> nat \<Rightarrow> meterable list \<Rightarrow> meter_db
      \<Rightarrow> meter_db \<times> nat" where
  "accrueEach env nows rateOf i [] db = (db, 0)"
| "accrueEach env nows rateOf i (m # ms) db =
     (let (db1, r) = accrueWarmSeconds (env (2 * i + 1)) (nows i) (accrueOf rateOf m) (env (2 * i) db);
          (db2, n) = accrueEach env nows rateOf (Suc i) ms db1
      in (db2, (if ar_accrued r then 1 else 0) + n))"

definition accrueWarmTick ::
    "(nat \<Rightarrow> meter_db \<Rightarrow> meter_db) \<Rightarrow> (nat \<Rightarrow> millis) \<Rightarrow> (string \<Rightarrow> rat) \<Rightarrow> meter_db \<Rightarrow> meter_db \<times> nat \<times> uuid list" where
  "accrueWarmTick env nows rateOf db =
     (let ms = listMeterableWarmLeases db; (db1, n) = accrueEach env nows rateOf 0 ms db in
      (db1, n, rev (remdups (rev (map ml_workspace_id ms)))))"

record drain_settings =
  ds_enforce_balance :: bool
  ds_max_warm_seconds :: int
  ds_cap_window_start :: millis
  ds_idle_grace_ms :: millis

definition limitsOf :: "drain_settings \<Rightarrow> int \<Rightarrow> drain_limits" where
  "limitsOf st balance =
     \<lparr>dl_balance_micros = balance, dl_enforce_balance = ds_enforce_balance st, dl_max_warm_seconds = ds_max_warm_seconds st,
      dl_cap_window_start = ds_cap_window_start st, dl_idle_grace_ms = ds_idle_grace_ms st\<rparr>"

fun drainEach ::
    "(nat \<Rightarrow> meter_db \<Rightarrow> meter_db) \<Rightarrow> (nat \<Rightarrow> millis) \<Rightarrow> drain_settings \<Rightarrow> (uuid \<Rightarrow> uuid) \<Rightarrow> nat \<Rightarrow> uuid list \<Rightarrow> meter_db
      \<Rightarrow> meter_db \<times> nat" where
  "drainEach env nows st accountOf i [] db = (db, 0)"
| "drainEach env nows st accountOf i (ws # wss) db =
     (let balance = (if ds_enforce_balance st then getBillingBalance (accountOf ws) db else 1);
          (db1, reason, drained) = forceDrainOverLimitViewerOnlyBoxes (nows i) ws (limitsOf st balance) (env i db);
          (db2, n) = drainEach env nows st accountOf (Suc i) wss db1
      in (db2, length drained + n))"

definition forceDrainOverLimitWorkspaces ::
    "(nat \<Rightarrow> meter_db \<Rightarrow> meter_db) \<Rightarrow> (nat \<Rightarrow> millis) \<Rightarrow> drain_settings \<Rightarrow> (uuid \<Rightarrow> uuid) \<Rightarrow> uuid list \<Rightarrow> meter_db
      \<Rightarrow> meter_db \<times> nat" where
  "forceDrainOverLimitWorkspaces env nows st accountOf wss db =
     (if \<not> ds_enforce_balance st \<and> ds_max_warm_seconds st \<le> 0 then (db, 0)
      else drainEach env nows st accountOf 0 wss db)"

end
