(* ===== verification/Reaper.thy ===== *)
theory Reaper
  imports Metering Routing
begin

text \<open>
  The reaper (\<^verbatim>\<open>apps/worker/src/activities/sandbox-lease.ts\<close>): one sweep meters, force-drains, reaps
  stale holders, and for every drainable box captures its workspace, stops it and confirms the lease
  cold; then it sweeps the provider's orphans (\<^verbatim>\<open>runtime/src/sandbox/providers/modal.ts\<close>). The provider's
  clients are third-party code: their answers are the fields of \<open>provider\<close> and \<open>modal_api\<close>. Every call
  made on a box is logged in order, and \<open>env\<close> is what other callers do to the tables meanwhile.
\<close>

subsection \<open>Errors of a provider\<close>

text \<open>\<open>PeText\<close>: a thrown string; \<open>PeObject status name code message\<close>: an error object.\<close>

datatype provider_error =
    PeFalsy
  | PeText jstr
  | PeObject "int option" jstr jstr jstr

datatype 'a call = Returned 'a | Threw provider_error

definition goneMarkers :: "string list" where
  "goneMarkers = [''not found'', ''no longer running'', ''no longer exists'', ''does not exist'',
     ''doesn't exist'', ''has been terminated'', ''was terminated'', ''is terminated'',
     ''sandbox terminated'', ''notfound'', ''sandbox_not_found'', ''box no longer running'']"

definition gone_text :: "jstr \<Rightarrow> jstr \<Rightarrow> jstr \<Rightarrow> bool" where
  "gone_text name code message =
     (let haystack = map lower_unit (name @ u16 '' '' @ code @ u16 '' '' @ message) in
      if contains_text ''already running'' haystack \<or> contains_text ''still running'' haystack
         \<or> contains_text ''already exists'' haystack then False
      else list_ex (\<lambda>marker. contains_text marker haystack) goneMarkers)"

fun isProviderSandboxNotFoundError :: "string \<Rightarrow> provider_error \<Rightarrow> bool" where
  "isProviderSandboxNotFoundError backendId PeFalsy = False"
| "isProviderSandboxNotFoundError backendId (PeText message) =
     (backendId \<noteq> ''selfhosted'' \<and> gone_text [] [] message)"
| "isProviderSandboxNotFoundError backendId (PeObject status name code message) =
     (backendId \<noteq> ''selfhosted'' \<and> (status = Some 404 \<or> gone_text name code message))"

subsection \<open>Snapshot references\<close>

text \<open>Base64, \<^verbatim>\<open>TextDecoder\<close> and \<^verbatim>\<open>JSON.parse\<close> of the runtime are arguments; a byte is a character.\<close>

record codec =
  cd_to_base64 :: "string \<Rightarrow> string"
  cd_from_base64 :: "string \<Rightarrow> string"
  cd_parse :: "string \<Rightarrow> json option"

definition snapshot_prefixes :: "string list" where
  "snapshot_prefixes = [''MODAL_SANDBOX_FS_SNAPSHOT_V1'' @ [CHR 0x0A], ''MODAL_SANDBOX_DIR_SNAPSHOT_V1'' @ [CHR 0x0A]]"

definition decodeModalSnapshotId :: "codec \<Rightarrow> string \<Rightarrow> string option" where
  "decodeModalSnapshotId cd archive =
     (case List.find (\<lambda>p. prefix p archive) snapshot_prefixes of
        None \<Rightarrow> None
      | Some p \<Rightarrow>
          (case cd_parse cd (drop (length p) archive) of
             None \<Rightarrow> None
           | Some payload \<Rightarrow> (case jget payload ''snapshot_id'' of Some (JStr s) \<Rightarrow> truthy (Some s) | _ \<Rightarrow> None)))"

subsection \<open>A box and its provider\<close>

record box_session =
  bs_persist :: "string option call option"
  bs_delete_image :: "(string \<Rightarrow> unit call) option"
  bs_kill :: bool
  bs_terminate :: bool
  bs_close :: bool
  bs_closed :: bool

record provider =
  pv_has_client :: bool
  pv_backend_id :: string
  pv_resumable :: bool
  pv_deserialize :: "(string \<times> json) list \<Rightarrow> json option call"
  pv_resume :: "json \<Rightarrow> box_session call"
  pv_delete :: bool
  pv_terminate_by_id :: "string \<Rightarrow> unit call"

datatype box_event =
    BoxAttached
  | WorkspaceCaptured string
  | ArchiveFenced "string option" bool
  | ImageDeleted string
  | BoxStopped
  | TerminatedEvent uuid uuid bool "string option"
  | OrphanStopped string
  | TagsHealed string

record reaper_state =
  rw_db :: meter_db
  rw_log :: "box_event list"

definition logged :: "box_event \<Rightarrow> reaper_state \<Rightarrow> reaper_state" where
  "logged ev w = w\<lparr>rw_log := rw_log w @ [ev]\<rparr>"

definition meanwhile :: "(meter_db \<Rightarrow> meter_db) \<Rightarrow> reaper_state \<Rightarrow> reaper_state" where
  "meanwhile env w = w\<lparr>rw_db := env (rw_db w)\<rparr>"

definition with_leases :: "lease_db \<Rightarrow> reaper_state \<Rightarrow> reaper_state" where
  "with_leases ls w = w\<lparr>rw_db := (rw_db w)\<lparr>mt_leases := ls\<rparr>\<rparr>"

definition readLease :: "uuid \<Rightarrow> uuid \<Rightarrow> lease_db \<Rightarrow> lease_snapshot option" where
  "readLease ws grp db = map_option mapLeaseRow (find_lease ws grp db)"

text \<open>\<open>deletePriorPersistedSnapshot\<close> never throws; \<open>ImageDeleted\<close> is a call that succeeded.\<close>

definition deletePriorPersistedSnapshot ::
    "codec \<Rightarrow> box_session \<Rightarrow> string option \<Rightarrow> reaper_state \<Rightarrow> reaper_state" where
  "deletePriorPersistedSnapshot cd s prior w =
     (case truthy prior of
        None \<Rightarrow> w
      | Some p \<Rightarrow>
          (case decodeModalSnapshotId cd (cd_from_base64 cd p) of
             None \<Rightarrow> w
           | Some i \<Rightarrow>
               (case bs_delete_image s of
                  None \<Rightarrow> w
                | Some del \<Rightarrow> (case del i of Returned _ \<Rightarrow> logged (ImageDeleted i) w | Threw _ \<Rightarrow> w))))"

text \<open>
  A key whose value is \<^verbatim>\<open>undefined\<close> is absent: \<open>manifest\<close> and \<open>workspaceReady\<close> override the provider
  state even then, the other keys only when they are set.
\<close>

definition set_or_drop :: "string \<Rightarrow> json option \<Rightarrow> (string \<times> json) list \<Rightarrow> (string \<times> json) list" where
  "set_or_drop k v fs = (case v of None \<Rightarrow> AList.delete k fs | Some x \<Rightarrow> jput k x fs)"

definition set_if :: "string \<Rightarrow> json option \<Rightarrow> (string \<times> json) list \<Rightarrow> (string \<times> json) list" where
  "set_if k v fs = (case v of None \<Rightarrow> fs | Some x \<Rightarrow> jput k x fs)"

fun json_truthy :: "json \<Rightarrow> bool" where
  "json_truthy JNull = False"
| "json_truthy (JBool b) = b"
| "json_truthy (JNum n) = (n \<noteq> 0)"
| "json_truthy (JStr s) = (s \<noteq> [])"
| "json_truthy _ = True"

definition deserializeSandboxSessionStateEnvelope :: "provider \<Rightarrow> json \<Rightarrow> json option call" where
  "deserializeSandboxSessionStateEnvelope pv envelope =
     (if (case envelope of JObj _ \<Rightarrow> False | JArr _ \<Rightarrow> False | _ \<Rightarrow> True) then Returned None
      else
        (let member = jget envelope in
         pv_deserialize pv
           (set_if ''exposedPorts'' (case member ''exposedPorts'' of Some v \<Rightarrow> if json_truthy v then Some v else None | None \<Rightarrow> None)
           (set_or_drop ''workspaceReady'' (member ''workspaceReady'')
           (set_if ''snapshotFingerprintVersion'' (member ''snapshotFingerprintVersion'')
           (set_if ''snapshotFingerprint'' (member ''snapshotFingerprint'')
           (set_if ''snapshot'' (member ''snapshot'')
           (set_or_drop ''manifest'' (member ''manifest'') (obj_fields (member ''providerState''))))))))))"

subsection \<open>Stopping one box\<close>

datatype attach_result =
    NothingToStop
  | BoxGone
  | AttachFailed provider_error
  | Attached json box_session

definition attach_error :: "provider \<Rightarrow> provider_error \<Rightarrow> attach_result" where
  "attach_error pv e = (if isProviderSandboxNotFoundError (pv_backend_id pv) e then BoxGone else AttachFailed e)"

definition attachBox :: "provider \<Rightarrow> json \<Rightarrow> attach_result" where
  "attachBox pv rs =
     (if \<not> pv_resumable pv then NothingToStop
      else
        (let inner = (case jget rs ''sessionState'' of None \<Rightarrow> rs | Some JNull \<Rightarrow> rs | Some v \<Rightarrow> v) in
         case deserializeSandboxSessionStateEnvelope pv inner of
           Threw e \<Rightarrow> attach_error pv e
         | Returned None \<Rightarrow> NothingToStop
         | Returned (Some st) \<Rightarrow> (case pv_resume pv st of Threw e \<Rightarrow> attach_error pv e | Returned s \<Rightarrow> Attached st s)))"

definition persistArchive ::
    "string \<Rightarrow> uuid \<Rightarrow> uuid \<Rightarrow> int \<Rightarrow> string option \<Rightarrow> reaper_state \<Rightarrow> reaper_state \<times> drain_persist_result" where
  "persistArchive nowText ws grp e archive w =
     (let (ls, r) = persistDrainSnapshot nowText ws grp e archive (mt_leases (rw_db w)) in
      (logged (ArchiveFenced archive (dp_wrote r)) (with_leases ls w), r))"

text \<open>The teardown call's error is caught and logged, so only whether a call is made matters.\<close>

definition stopBox :: "provider \<Rightarrow> box_session \<Rightarrow> reaper_state \<Rightarrow> reaper_state" where
  "stopBox pv s w =
     (if pv_delete pv then logged BoxStopped w
      else if bs_kill s then logged BoxStopped w
      else if bs_terminate s then logged BoxStopped w
      else if bs_close s \<and> \<not> bs_closed s then logged BoxStopped w
      else w)"

text \<open>
  \<open>persist\<close> is the epoch-fenced write of the archive. \<open>env 0\<close> runs while the box is resumed and its
  workspace captured, \<open>env 1\<close> between the fence and the stop.
\<close>

definition stopCaptured ::
    "codec \<Rightarrow> provider \<Rightarrow> (nat \<Rightarrow> meter_db \<Rightarrow> meter_db)
      \<Rightarrow> (string option \<Rightarrow> reaper_state \<Rightarrow> reaper_state \<times> drain_persist_result) \<Rightarrow> box_session \<Rightarrow> string option
      \<Rightarrow> reaper_state \<Rightarrow> reaper_state \<times> bool" where
  "stopCaptured cd pv env persist s bytes w =
     (let archive = map_option (cd_to_base64 cd) (truthy bytes);
          (w1, r) = persist archive w in
      if \<not> dp_wrote r then (w1, False)
      else
        (let w2 = (if archive = None then w1
                   else deletePriorPersistedSnapshot cd s (dp_prior_archive_prev r)
                          (deletePriorPersistedSnapshot cd s (dp_prior_archive r) w1))
         in (stopBox pv s (meanwhile (env 1) w2), True)))"

definition stopAttached ::
    "codec \<Rightarrow> provider \<Rightarrow> (nat \<Rightarrow> meter_db \<Rightarrow> meter_db)
      \<Rightarrow> (string option \<Rightarrow> reaper_state \<Rightarrow> reaper_state \<times> drain_persist_result) \<Rightarrow> box_session
      \<Rightarrow> reaper_state \<Rightarrow> reaper_state \<times> (provider_error + bool)" where
  "stopAttached cd pv env persist s w =
     (let w0 = meanwhile (env 0) (logged BoxAttached w) in
      case (case bs_persist s of None \<Rightarrow> Returned None | Some c \<Rightarrow> c) of
        Threw e \<Rightarrow> if isProviderSandboxNotFoundError (pv_backend_id pv) e then (w0, Inr True) else (w0, Inl e)
      | Returned bytes \<Rightarrow>
          (let (w1, stopped) = stopCaptured cd pv env persist s bytes
                 (case truthy bytes of None \<Rightarrow> w0 | Some b \<Rightarrow> logged (WorkspaceCaptured b) w0)
           in (w1, Inr stopped)))"

definition terminateByInstance ::
    "provider \<Rightarrow> (nat \<Rightarrow> meter_db \<Rightarrow> meter_db) \<Rightarrow> (string option \<Rightarrow> reaper_state \<Rightarrow> reaper_state \<times> drain_persist_result)
      \<Rightarrow> string \<Rightarrow> reaper_state \<Rightarrow> reaper_state \<times> (provider_error + bool)" where
  "terminateByInstance pv env persist inst w =
     (let (w1, r) = persist None (meanwhile (env 0) w) in
      if \<not> dp_wrote r then (w1, Inr False)
      else
        (let w2 = logged BoxStopped (meanwhile (env 1) w1) in
         case pv_terminate_by_id pv inst of
           Returned _ \<Rightarrow> (w2, Inr True)
         | Threw e \<Rightarrow> if isProviderSandboxNotFoundError ''modal'' e then (w2, Inr True) else (w2, Inl e)))"

definition no_envelope :: "json option \<Rightarrow> bool" where
  "no_envelope rs = (case rs of None \<Rightarrow> True | Some j \<Rightarrow> \<not> json_truthy j)"

definition terminateProviderBox ::
    "codec \<Rightarrow> provider \<Rightarrow> (nat \<Rightarrow> meter_db \<Rightarrow> meter_db)
      \<Rightarrow> (string option \<Rightarrow> reaper_state \<Rightarrow> reaper_state \<times> drain_persist_result) \<Rightarrow> lease_snapshot
      \<Rightarrow> reaper_state \<Rightarrow> reaper_state \<times> (provider_error + bool)" where
  "terminateProviderBox cd pv env persist lease w =
     (let backend = (case ls_resume_backend_id lease of Some b \<Rightarrow> b | None \<Rightarrow> ls_backend lease) in
      if backend = [] \<or> backend = ''none'' then (w, Inr True)
      else if backend = ''selfhosted'' \<or> ls_backend lease = ''selfhosted'' \<or> ls_resume_backend_id lease = Some ''selfhosted''
      then (w, Inr True)
      else if backend = ''modal'' \<and> no_envelope (ls_resume_state lease) \<and> truthy (ls_instance_id lease) \<noteq> None
      then terminateByInstance pv env persist (the (ls_instance_id lease)) w
      else if no_envelope (ls_resume_state lease) then (w, Inr True)
      else if \<not> pv_has_client pv then (w, Inr True)
      else
        (case attachBox pv (the (ls_resume_state lease)) of
           NothingToStop \<Rightarrow> (w, Inr True)
         | BoxGone \<Rightarrow> (w, Inr True)
         | AttachFailed e \<Rightarrow> (w, Inl e)
         | Attached st s \<Rightarrow> stopAttached cd pv env persist s w))"

text \<open>\<open>env 2\<close> runs between the stop and the confirmation.\<close>

definition archived :: "box_event \<Rightarrow> bool" where
  "archived ev = (case ev of ArchiveFenced (Some _) True \<Rightarrow> True | _ \<Rightarrow> False)"

definition terminateDrainableBox ::
    "codec \<Rightarrow> provider \<Rightarrow> (nat \<Rightarrow> meter_db \<Rightarrow> meter_db) \<Rightarrow> string \<Rightarrow> uuid \<times> uuid \<times> int \<Rightarrow> reaper_state
      \<Rightarrow> reaper_state \<times> (provider_error + bool)" where
  "terminateDrainableBox cd pv env nowText row w =
     (case row of (ws, grp, e) \<Rightarrow>
        (case readLease ws grp (mt_leases (rw_db w)) of
           None \<Rightarrow> (w, Inr False)
         | Some lease \<Rightarrow>
             if ls_liveness lease \<noteq> Draining \<or> ls_refcount lease \<noteq> 0 \<or> ls_epoch lease \<noteq> e then (w, Inr False)
             else
               (case terminateProviderBox cd pv env (persistArchive nowText ws grp e) lease w of
                  (w1, Inl err) \<Rightarrow> (w1, Inl err)
                | (w1, Inr False) \<Rightarrow> (w1, Inr False)
                | (w1, Inr True) \<Rightarrow>
                    (let w2 = meanwhile (env 2) w1;
                         (ls, wentCold) = confirmDrainCold ws grp e (mt_leases (rw_db w2));
                         w3 = with_leases ls w2;
                         persisted = list_ex archived (drop (length (rw_log w)) (rw_log w1))
                     in (if wentCold then logged (TerminatedEvent ws grp persisted (ls_instance_id lease)) w3 else w3,
                         Inr wentCold)))))"

subsection \<open>Modal orphans\<close>

record live_lease =
  ll_lease_id :: uuid
  ll_workspace_id :: uuid
  ll_group_id :: uuid
  ll_instance_id :: "string option"
  ll_liveness :: liveness

text \<open>\<^verbatim>\<open>opengeni_private.list_live_modal_sandbox_leases()\<close>.\<close>

definition live_modal :: "lease_row \<Rightarrow> bool" where
  "live_modal r \<longleftrightarrow> lr_liveness r \<noteq> Cold \<and> (lr_backend r = ''modal'' \<or> lr_resume_backend_id r = Some ''modal'')"

definition listLiveModalSandboxLeaseAttributions :: "lease_db \<Rightarrow> live_lease list" where
  "listLiveModalSandboxLeaseAttributions db =
     map (\<lambda>r. \<lparr>ll_lease_id = lr_id r, ll_workspace_id = lr_workspace_id r, ll_group_id = lr_group_id r,
               ll_instance_id = lr_instance_id r, ll_liveness = lr_liveness r\<rparr>)
       (select_where live_modal (leases db))"

record sandbox_info =
  si_id :: string
  si_created_at :: "rat option"
  si_tags :: "(string option \<times> string option) list"

text \<open>
  The Modal API: \<open>ma_list n t\<close> is the \<open>n\<close>-th page asked for, of boxes older than \<open>t\<close>; \<open>ma_terminate\<close>
  tells whether finding and terminating a box succeeds.
\<close>

record modal_api =
  ma_app_id :: "string option"
  ma_list :: "nat \<Rightarrow> rat option \<Rightarrow> sandbox_info list"
  ma_terminate :: "string \<Rightarrow> bool"

datatype orphan_reason = StaleAttribution | Unattributed

record orphan_result =
  or_examined :: nat
  or_terminated :: "(string \<times> orphan_reason) list"
  or_skipped :: nat
  or_log :: "box_event list"

definition ORPHAN_SWEEP_LIMIT :: nat where
  "ORPHAN_SWEEP_LIMIT = 50"

definition UNATTRIBUTED_ORPHAN_GRACE_MS :: int where
  "UNATTRIBUTED_ORPHAN_GRACE_MS = 30 * 60000"

definition tagsFromInfo :: "sandbox_info \<Rightarrow> string \<Rightarrow> string option" where
  "tagsFromInfo info = map_of (rev (List.map_filter
     (\<lambda>(k, v). case (k, v) of (Some a, Some b) \<Rightarrow> Some (a, b) | _ \<Rightarrow> None) (si_tags info)))"

definition sandboxCreatedAtMs :: "sandbox_info \<Rightarrow> int option" where
  "sandboxCreatedAtMs info =
     (case si_created_at info of
        None \<Rightarrow> None
      | Some t \<Rightarrow> if t \<le> 0 then None
                  else if t < 10000000000 then Some \<lfloor>t * 1000\<rfloor> else Some \<lfloor>t\<rfloor>)"

definition attributionKey :: "uuid \<Rightarrow> uuid \<Rightarrow> uuid \<Rightarrow> string" where
  "attributionKey leaseId ws grp = ws @ '':'' @ grp @ '':'' @ leaseId"

definition liveByAttribution :: "live_lease list \<Rightarrow> string \<Rightarrow> live_lease option" where
  "liveByAttribution live =
     map_of (rev (map (\<lambda>l. (attributionKey (ll_lease_id l) (ll_workspace_id l) (ll_group_id l), l)) live))"

definition liveByInstanceId :: "live_lease list \<Rightarrow> string \<Rightarrow> live_lease option" where
  "liveByInstanceId live =
     map_of (rev (List.map_filter (\<lambda>l. map_option (\<lambda>i. (i, l)) (truthy (ll_instance_id l))) live))"

definition attribution :: "sandbox_info \<Rightarrow> (uuid \<times> uuid \<times> uuid) option" where
  "attribution info =
     (let tag = tagsFromInfo info in
      case (truthy (tag ''opengeni_lease_id''), truthy (tag ''opengeni_workspace_id''), truthy (tag ''opengeni_sandbox_group_id'')) of
        (Some l, Some w, Some g) \<Rightarrow> Some (l, w, g)
      | _ \<Rightarrow> None)"

definition orphanReason :: "int \<Rightarrow> int \<Rightarrow> live_lease list \<Rightarrow> sandbox_info \<Rightarrow> orphan_reason option" where
  "orphanReason nowMs grace live info =
     (case attribution info of
        Some (l, w, g) \<Rightarrow>
          (case liveByAttribution live (attributionKey l w g) of
             None \<Rightarrow> Some StaleAttribution
           | Some x \<Rightarrow> if truthy (ll_instance_id x) \<noteq> None \<and> ll_instance_id x \<noteq> Some (si_id info)
                       then Some StaleAttribution else None)
      | None \<Rightarrow>
          (case sandboxCreatedAtMs info of
             None \<Rightarrow> None
           | Some t \<Rightarrow> if grace \<le> nowMs - t then Some Unattributed else None))"

definition stale_tags :: "live_lease \<Rightarrow> sandbox_info \<Rightarrow> bool" where
  "stale_tags x info \<longleftrightarrow>
     (tagsFromInfo info ''opengeni_lease_id'', tagsFromInfo info ''opengeni_workspace_id'',
      tagsFromInfo info ''opengeni_sandbox_group_id'') \<noteq> (Some (ll_lease_id x), Some (ll_workspace_id x), Some (ll_group_id x))"

definition sweepBox :: "modal_api \<Rightarrow> int \<Rightarrow> int \<Rightarrow> live_lease list \<Rightarrow> sandbox_info \<Rightarrow> orphan_result \<Rightarrow> orphan_result" where
  "sweepBox api nowMs grace live info res0 =
     (let res = res0\<lparr>or_examined := or_examined res0 + 1\<rparr> in
      case (if si_id info = [] then None else liveByInstanceId live (si_id info)) of
        Some x \<Rightarrow> res\<lparr>or_skipped := or_skipped res + 1,
                     or_log := or_log res @ (if stale_tags x info then [TagsHealed (si_id info)] else [])\<rparr>
      | None \<Rightarrow>
          (case orphanReason nowMs grace live info of
             None \<Rightarrow> res\<lparr>or_skipped := or_skipped res + 1\<rparr>
           | Some reason \<Rightarrow>
               if ma_terminate api (si_id info)
               then res\<lparr>or_terminated := or_terminated res @ [(si_id info, reason)], or_log := or_log res @ [OrphanStopped (si_id info)]\<rparr>
               else res\<lparr>or_skipped := or_skipped res + 1\<rparr>))"

fun sweepPage ::
    "modal_api \<Rightarrow> nat \<Rightarrow> int \<Rightarrow> int \<Rightarrow> live_lease list \<Rightarrow> sandbox_info list \<Rightarrow> orphan_result \<Rightarrow> orphan_result" where
  "sweepPage api limit nowMs grace live [] res = res"
| "sweepPage api limit nowMs grace live (info # infos) res =
     (let res' = sweepBox api nowMs grace live info res in
      if limit \<le> length (or_terminated res') then res' else sweepPage api limit nowMs grace live infos res')"

text \<open>The loop over pages ends when the provider has no older box; \<open>fuel\<close> bounds the pages read.\<close>

fun sweepPages ::
    "nat \<Rightarrow> modal_api \<Rightarrow> nat \<Rightarrow> int \<Rightarrow> int \<Rightarrow> live_lease list \<Rightarrow> nat \<Rightarrow> rat option \<Rightarrow> orphan_result \<Rightarrow> orphan_result option" where
  "sweepPages 0 api limit nowMs grace live n before res = None"
| "sweepPages (Suc fuel) api limit nowMs grace live n before res =
     (if limit \<le> length (or_terminated res) then Some res
      else if ma_list api n before = [] then Some res
      else
        (let res' = sweepPage api limit nowMs grace live (ma_list api n before) res in
         case si_created_at (last (ma_list api n before)) of
           None \<Rightarrow> Some res'
         | Some t \<Rightarrow> sweepPages fuel api limit nowMs grace live (Suc n) (Some t) res'))"

definition nothing_swept :: orphan_result where
  "nothing_swept = \<lparr>or_examined = 0, or_terminated = [], or_skipped = 0, or_log = []\<rparr>"

definition sweepModalOrphanSandboxes :: "nat \<Rightarrow> modal_api \<Rightarrow> int \<Rightarrow> live_lease list \<Rightarrow> orphan_result option" where
  "sweepModalOrphanSandboxes fuel api nowMs live =
     (if truthy (ma_app_id api) = None then Some nothing_swept
      else sweepPages fuel api ORPHAN_SWEEP_LIMIT nowMs UNATTRIBUTED_ORPHAN_GRACE_MS live 0 None nothing_swept)"

subsection \<open>One sweep\<close>

text \<open>
  \<^verbatim>\<open>opengeni_private.reap_sandbox_leases\<close> reaps every workspace at once; its statements touch the rows of
  each workspace separately.
\<close>

fun reapWorkspaces ::
    "millis \<Rightarrow> millis \<Rightarrow> millis option \<Rightarrow> millis \<Rightarrow> uuid list \<Rightarrow> lease_db \<Rightarrow> lease_db \<times> (uuid \<times> uuid \<times> int) list" where
  "reapWorkspaces now viewerTtl turnTtl grace [] db = (db, [])"
| "reapWorkspaces now viewerTtl turnTtl grace (ws # wss) db =
     (let (db1, r) = reapStaleLeaseHolders now ws viewerTtl turnTtl grace db;
          (db2, rows) = reapWorkspaces now viewerTtl turnTtl grace wss db1
      in (db2, map (\<lambda>(w, g, i, e). (w, g, e)) (rr_drained r) @ rows))"

definition reapStaleLeaseHoldersGlobal ::
    "millis \<Rightarrow> millis \<Rightarrow> millis \<Rightarrow> millis \<Rightarrow> lease_db \<Rightarrow> lease_db \<times> (uuid \<times> uuid \<times> int) list" where
  "reapStaleLeaseHoldersGlobal now viewerTtl turnTtl grace db =
     reapWorkspaces now viewerTtl (if 0 < turnTtl then Some turnTtl else None) grace
       (remdups (map lr_workspace_id (leases db))) db"

fun reapDrainables ::
    "codec \<Rightarrow> (uuid \<times> uuid \<times> int \<Rightarrow> provider) \<Rightarrow> (nat \<Rightarrow> nat \<Rightarrow> meter_db \<Rightarrow> meter_db) \<Rightarrow> string \<Rightarrow> nat
      \<Rightarrow> (uuid \<times> uuid \<times> int) list \<Rightarrow> reaper_state \<Rightarrow> reaper_state \<times> nat \<times> nat" where
  "reapDrainables cd pv env nowText i [] w = (w, 0, 0)"
| "reapDrainables cd pv env nowText i (row # rows) w =
     (let (w1, res) = terminateDrainableBox cd (pv row) (env i) nowText row (meanwhile (env i 3) w);
          (w2, terminated, skipped) = reapDrainables cd pv env nowText (Suc i) rows w1
      in (if res = Inr True then (w2, terminated + 1, skipped) else (w2, terminated, skipped + 1)))"

record reaper_settings =
  rs_ownership_enabled :: bool
  rs_viewer_ttl :: millis
  rs_warming_timeout :: millis
  rs_lease_ttl :: millis
  rs_drain :: drain_settings
  rs_modal :: bool

record reap_report =
  rp_examined :: nat
  rp_terminated :: nat
  rp_skipped :: nat
  rp_metered :: nat
  rp_force_drained :: nat
  rp_orphans :: nat

record reaper_world =
  wd_now :: millis
  wd_now_text :: string
  wd_rate :: "string \<Rightarrow> rat"
  wd_account :: "uuid \<Rightarrow> uuid"
  wd_codec :: codec
  wd_provider :: "uuid \<times> uuid \<times> int \<Rightarrow> provider"
  wd_modal :: modal_api
  wd_env :: "nat \<Rightarrow> nat \<Rightarrow> meter_db \<Rightarrow> meter_db"

text \<open>
  The live leases are read first; listing and stopping boxes takes a while, in which other writers run
  (\<open>wd_env wd 3 1\<close>) and the leases read are not read again.
\<close>

definition sweepOrphans :: "nat \<Rightarrow> reaper_settings \<Rightarrow> reaper_world \<Rightarrow> reaper_state \<Rightarrow> (reaper_state \<times> nat) option" where
  "sweepOrphans fuel st wd w =
     (if \<not> rs_modal st then Some (w, 0)
      else
        (case sweepModalOrphanSandboxes fuel (wd_modal wd) (wd_now wd)
                (listLiveModalSandboxLeaseAttributions (mt_leases (rw_db w))) of
           None \<Rightarrow> None
         | Some res \<Rightarrow> Some (meanwhile (wd_env wd 3 1) (w\<lparr>rw_log := rw_log w @ or_log res\<rparr>), length (or_terminated res))))"

definition reapSandboxLeases :: "nat \<Rightarrow> reaper_settings \<Rightarrow> reaper_world \<Rightarrow> reaper_state \<Rightarrow> (reaper_state \<times> reap_report) option" where
  "reapSandboxLeases fuel st wd w =
     (if \<not> rs_ownership_enabled st
      then Some (w, \<lparr>rp_examined = 0, rp_terminated = 0, rp_skipped = 0, rp_metered = 0, rp_force_drained = 0, rp_orphans = 0\<rparr>)
      else
        (let env = wd_env wd;
             (db1, metered, wss) = accrueWarmTick (env 0) (\<lambda>_. wd_now wd) (wd_rate wd) (rw_db w);
             (db2, forced) = forceDrainOverLimitWorkspaces (env 1) (\<lambda>_. wd_now wd) (rs_drain st) (wd_account wd) wss db1;
             db3 = env 2 0 db2;
             (ls, rows) = reapStaleLeaseHoldersGlobal (wd_now wd) (rs_viewer_ttl st) (rs_warming_timeout st + rs_lease_ttl st)
                            (ds_idle_grace_ms (rs_drain st)) (mt_leases db3);
             (w4, terminated, skipped) = reapDrainables (wd_codec wd) (wd_provider wd) (\<lambda>i. env (4 + i)) (wd_now_text wd) 0 rows
                            (with_leases ls (w\<lparr>rw_db := db3\<rparr>))
         in case sweepOrphans fuel st wd (meanwhile (env 3 0) w4) of
              None \<Rightarrow> None
            | Some (w5, orphans) \<Rightarrow>
                Some (w5, \<lparr>rp_examined = length rows, rp_terminated = terminated, rp_skipped = skipped, rp_metered = metered,
                           rp_force_drained = forced, rp_orphans = orphans\<rparr>)))"

end
