(* ===== verification/Metering_Props.thy ===== *)
theory Metering_Props
  imports Metering Lease_Props
begin

text \<open>
  The properties of warm-time metering and the credit ledger: what a group is billed against the clock,
  what a force-drain may touch, and that debits never overdraw.
\<close>

subsection \<open>Meter cursors\<close>

definition meter_row :: "lease_row \<Rightarrow> (uuid \<times> uuid) \<times> uuid \<times> millis option \<times> int" where
  "meter_row r = (lease_key r, lr_id r, lr_last_meter_at r, lr_last_meter_tick r)"

definition cursor :: "uuid \<Rightarrow> uuid \<Rightarrow> lease_db \<Rightarrow> (uuid \<times> millis option \<times> int) option" where
  "cursor ws grp db = map_of (map meter_row (leases db)) (ws, grp)"

lemma cursor_find:
  "cursor ws grp db = map_option (\<lambda>r. (lr_id r, lr_last_meter_at r, lr_last_meter_tick r)) (find_lease ws grp db)"
proof -
  have "map_of (map meter_row ls) (ws, grp)
      = map_option (\<lambda>r. (lr_id r, lr_last_meter_at r, lr_last_meter_tick r)) (List.find (key_is ws grp) ls)" for ls
    by (induction ls) (auto simp: meter_row_def key_is_def lease_key_def)
  then show ?thesis by (simp add: cursor_def find_lease_def)
qed

text \<open>No lease transaction touches a cursor; a new row has none.\<close>

definition keeps_cursors :: "lease_db \<Rightarrow> lease_db \<Rightarrow> bool" where
  "keeps_cursors db db' \<longleftrightarrow> (\<exists>vs. map meter_row (leases db') = map meter_row (leases db) @ vs
     \<and> (\<forall>v \<in> set vs. fst (snd (snd v)) = None))"

lemma keeps_cursors_same: "map meter_row (leases db') = map meter_row (leases db) \<Longrightarrow> keeps_cursors db db'"
  by (simp add: keeps_cursors_def)

lemma keeps_cursors_trans: "keeps_cursors a b \<Longrightarrow> keeps_cursors b c \<Longrightarrow> keeps_cursors a c"
  unfolding keeps_cursors_def by fastforce

lemma keeps_cursorsD:
  assumes "keeps_cursors db db'"
  shows "cursor ws grp db' = (case cursor ws grp db of Some c \<Rightarrow> Some c | None \<Rightarrow> cursor ws grp db')"
    and "cursor ws grp db = None \<Longrightarrow> cursor ws grp db' = Some (i, t, n) \<Longrightarrow> t = None"
proof -
  obtain vs where vs: "map meter_row (leases db') = map meter_row (leases db) @ vs" "\<forall>v \<in> set vs. fst (snd (snd v)) = None"
    using assms by (auto simp: keeps_cursors_def)
  then show "cursor ws grp db' = (case cursor ws grp db of Some c \<Rightarrow> Some c | None \<Rightarrow> cursor ws grp db')"
    by (simp add: cursor_def map_add_def split: option.splits)
  assume "cursor ws grp db = None" "cursor ws grp db' = Some (i, t, n)"
  with vs have "((ws, grp), i, t, n) \<in> set vs"
    unfolding cursor_def vs(1) by (auto simp: map_add_def dest: map_of_SomeD)
  with vs(2) show "t = None" by auto
qed

lemma meter_row_update:
  "(\<And>r. meter_row (f r) = meter_row r) \<Longrightarrow> map meter_row (update_where p f ls) = map meter_row ls"
  by (rule map_update_where)

lemma meter_row_stamp [simp]: "meter_row (stampRow db now ttl l r) = meter_row r"
  by (simp add: stampRow_def set_counts_def meter_row_def lease_key_def)

lemma finishAcquire_cursors:
  "finishAcquire now inp lid ttl l role db = Inr (db', res) \<Longrightarrow> map meter_row (leases db') = map meter_row (leases db)"
  by (auto simp: finishAcquire_def recomputeAndStampLease_def Let_def meter_row_update split: option.splits)

lemma resolveConflict_cursors:
  "resolveConflict inp row db = Inr (db', l) \<Longrightarrow> map meter_row (leases db') = map meter_row (leases db)"
  by (auto simp: resolveConflict_def Let_def meter_row_update meter_row_def lease_key_def soloRecreate_def split: if_splits)

lemma casWarming_cursors: "map meter_row (leases (fst (casWarming inp lid db))) = map meter_row (leases db)"
  by (simp add: casWarming_def Let_def meter_row_update meter_row_def lease_key_def)

lemma acquire_cursors:
  assumes "acquireLease now newId inp db = Inr (db', role, snap)"
  shows "keeps_cursors db db'"
proof -
  have m: "keeps_cursors db (materializeLease now newId inp db)"
    by (auto simp: keeps_cursors_def materializeLease_def freshLeaseRow_def meter_row_def)
  have "map meter_row (leases db') = map meter_row (leases (materializeLease now newId inp db))"
    using assms casWarming_cursors
    by (auto simp: acquireLease_def Let_def split_beta dest!: finishAcquire_cursors resolveConflict_cursors
        split: option.splits sum.splits if_splits)
  with m show ?thesis by (simp add: keeps_cursors_def)
qed

lemma updateFenced_cursors:
  "(\<And>r. meter_row (f r) = meter_row r) \<Longrightarrow> map meter_row (leases (fst (updateFenced p f db))) = map meter_row (leases db)"
  by (simp add: updateFenced_def meter_row_update)

lemma meter_row_drained [simp]: "meter_row (drained now grace r) = meter_row r"
  by (simp add: drained_def meter_row_def lease_key_def)

lemma forceDrain_cursors: "map meter_row (leases (fst (forceDrain now ws grace db))) = map meter_row (leases db)"
  by (simp add: forceDrain_eq meter_row_update)

lemma lease_step_cursors: "keeps_cursors db (lease_step op db)"
proof (cases "acquires op")
  case True
  then show ?thesis
    using acquire_cursors by (cases op) (auto simp: acquires_def keeps_cursors_same split: sum.splits)
next
  case False
  have "map meter_row (leases (lease_step op db)) = map meter_row (leases db)"
    using False
    by (cases op)
      (auto simp: acquires_def commitWarmingToWarm_def recordWarmingSandboxCreated_def failWarmingToCold_def
        releaseLeaseHolder_def heartbeatLeaseHolder_def touchLeaseHolder_def confirmDrainCold_def
        persistDrainSnapshot_def persistWarmSnapshot_def foldWorkspaceArchiveOntoLease_def reap_db_eq
        recordLeaseDataPlaneUrl_def recordLeaseTerminalDataPlaneUrl_def markSandboxFileResourcesMaterialized_def markMaterialized_def
        reapRecount_def reapWarmingReset_def reapWarmingDrain_def set_counts_def goCold_def
        meter_row_def lease_key_def updateFenced_cursors meter_row_update forceDrain_cursors split_beta Let_def
        split: option.splits)
  then show ?thesis by (rule keeps_cursors_same)
qed

interpretation cursors: step_monotone lease_step keeps_cursors
  by unfold_locales (simp add: keeps_cursors_same, rule keeps_cursors_trans, assumption+, rule lease_step_cursors)

subsection \<open>The machine\<close>

datatype meter_op =
    MLease lease_op
  | MTick millis accrue_input
  | MForceDrain millis uuid drain_limits
  | MUsage usage_event
  | MCredit ledger_entry
  | MDebit ledger_entry

fun meter_step :: "meter_op \<Rightarrow> meter_db \<Rightarrow> meter_db" where
  "meter_step (MLease op) db = db\<lparr>mt_leases := lease_step op (mt_leases db)\<rparr>"
| "meter_step (MTick now inp) db = fst (accrueTick now inp db)"
| "meter_step (MForceDrain now ws limits) db = fst (forceDrainOverLimitViewerOnlyBoxes now ws limits db)"
| "meter_step (MUsage e) db = fst (recordUsageEvent e db)"
| "meter_step (MCredit e) db = fst (applyCreditLedgerEntry e db)"
| "meter_step (MDebit e) db = fst (applyCreditDebitUpToBalance e db)"

text \<open>
  The clock stays in \<open>[lo, hi]\<close>, new lease rows get fresh ids, nobody else writes the warm-seconds
  type, and credits are not negative.
\<close>

fun meter_ok :: "millis \<Rightarrow> millis \<Rightarrow> meter_op \<Rightarrow> meter_db \<Rightarrow> bool" where
  "meter_ok lo hi (MLease op) db = fresh_ids op (mt_leases db)"
| "meter_ok lo hi (MTick now inp) db = (lo \<le> now \<and> now \<le> hi)"
| "meter_ok lo hi (MForceDrain now ws limits) db = True"
| "meter_ok lo hi (MUsage e) db = (ue_type e \<noteq> ''sandbox.warm_seconds'')"
| "meter_ok lo hi (MCredit e) db = (0 \<le> le_amount e)"
| "meter_ok lo hi (MDebit e) db = True"

lemma insertLedger_frame [simp]:
  "mt_leases (insertLedger e db) = mt_leases db" "mt_usage (insertLedger e db) = mt_usage db"
  by (simp_all add: insertLedger_def)

lemma debit_frame [simp]:
  "mt_leases (fst (applyCreditDebitUpToBalance e db)) = mt_leases db"
  "mt_usage (fst (applyCreditDebitUpToBalance e db)) = mt_usage db"
  by (simp_all add: applyCreditDebitUpToBalance_def Let_def)

lemma credit_frame [simp]:
  "mt_leases (fst (applyCreditLedgerEntry e db)) = mt_leases db"
  "mt_usage (fst (applyCreditLedgerEntry e db)) = mt_usage db"
  by (simp_all add: applyCreditLedgerEntry_def Let_def)

lemma insertUsage_frame [simp]:
  "mt_leases (insertUsage e db) = mt_leases db" "mt_ledger (insertUsage e db) = mt_ledger db"
  by (simp_all add: insertUsage_def)

lemma usage_frame [simp]:
  "mt_leases (fst (recordUsageEvent e db)) = mt_leases db" "mt_ledger (fst (recordUsageEvent e db)) = mt_ledger db"
  by (simp_all add: recordUsageEvent_def Let_def)

lemma set_cursor_frame [simp]:
  "mt_usage (set_cursor lid f db) = mt_usage db" "mt_ledger (set_cursor lid f db) = mt_ledger db"
  by (simp_all add: set_cursor_def)

lemma forceDrain_frame [simp]:
  "mt_usage (fst (forceDrainOverLimitViewerOnlyBoxes now ws limits db)) = mt_usage db"
  "mt_ledger (fst (forceDrainOverLimitViewerOnlyBoxes now ws limits db)) = mt_ledger db"
  by (simp_all add: forceDrainOverLimitViewerOnlyBoxes_def split: option.splits prod.splits)

subsection \<open>A tick\<close>

lemma accrueTick_cases:
  obtains (idle) "fst (accrueTick now inp db) = db" "\<not> ar_accrued (snd (accrueTick now inp db))"
  | (seed) r where "find_lease (au_workspace_id inp) (au_group_id inp) (mt_leases db) = Some r"
      "lr_last_meter_at r = None" "\<not> ar_accrued (snd (accrueTick now inp db))"
      "fst (accrueTick now inp db) = set_cursor (lr_id r) (\<lambda>r. r\<lparr>lr_last_meter_at := Some now\<rparr>) db"
  | (bill) r t cost where "find_lease (au_workspace_id inp) (au_group_id inp) (mt_leases db) = Some r"
      "lr_last_meter_at r = Some t" "0 < elapsed_seconds now t"
      "ar_accrued (snd (accrueTick now inp db))" "ar_seconds (snd (accrueTick now inp db)) = elapsed_seconds now t"
      "fst (accrueTick now inp db) = set_cursor (lr_id r)
         (\<lambda>x. x\<lparr>lr_last_meter_at := Some now, lr_last_meter_tick := lr_last_meter_tick r + 1\<rparr>)
         ((if 0 < cost then insertUsage (warmCostEvent now inp (lr_last_meter_tick r + 1) cost) else id)
           (insertUsage (warmSecondsEvent now inp (lr_last_meter_tick r + 1) (elapsed_seconds now t)) db))"
proof (cases "find_lease (au_workspace_id inp) (au_group_id inp) (mt_leases db)")
  case None
  then show ?thesis by (intro idle) (simp_all add: accrueTick_def nothing_accrued_def)
next
  case (Some r)
  note row = this
  show ?thesis
  proof (cases "lr_epoch r \<noteq> au_expected_epoch inp \<or> lr_liveness r \<noteq> Warm")
    case True
    with row show ?thesis by (intro idle) (auto simp: accrueTick_def nothing_accrued_def)
  next
    case live: False
    show ?thesis
    proof (cases "lr_last_meter_at r")
      case None
      with row live show ?thesis by (intro seed) (simp_all add: accrueTick_def nothing_accrued_def)
    next
      case (Some t)
      show ?thesis
      proof (cases "elapsed_seconds now t \<le> 0")
        case True
        with row live Some show ?thesis by (intro idle) (simp_all add: accrueTick_def nothing_accrued_def)
      next
        case False
        let ?cost = "math_round (of_int (elapsed_seconds now t) * max 0 (au_rate inp))"
        show ?thesis by (rule bill [of r t ?cost]) (use row live Some False in \<open>simp_all add: accrueTick_def Let_def\<close>)
      qed
    qed
  qed
qed

lemma find_set_cursor:
  assumes "\<And>r. lease_key (f r) = lease_key r"
  shows "find_lease ws grp (mt_leases (set_cursor lid f db))
    = map_option (\<lambda>r. if lr_id r = lid then f r else r) (find_lease ws grp (mt_leases db))"
  using assms by (simp add: set_cursor_def find_lease_update)

lemma cursor_set_cursor:
  assumes inv: "lease_inv (mt_leases db)" and row: "find_lease w g (mt_leases db) = Some r"
    and f: "\<And>r. lease_key (f r) = lease_key r \<and> lr_id (f r) = lr_id r \<and> lr_last_meter_at (f r) = Some now"
  shows "map_option (fst \<circ> snd) (cursor ws grp (mt_leases (set_cursor (lr_id r) f db)))
    = (if (ws, grp) = (w, g) then Some (Some now) else map_option (fst \<circ> snd) (cursor ws grp (mt_leases db)))"
proof (cases "find_lease ws grp (mt_leases db)")
  case None
  with row f show ?thesis by (auto simp: cursor_find find_set_cursor)
next
  case (Some x)
  have "lr_id x = lr_id r \<longleftrightarrow> (ws, grp) = (w, g)"
    using find_lease_same_id [OF inv Some row] row Some by auto
  with Some row f show ?thesis by (auto simp: cursor_find find_set_cursor)
qed

lemma set_cursor_inv:
  assumes "lease_inv (mt_leases db)" and "\<And>r. keeps_counters f r"
  shows "lease_inv (mt_leases (set_cursor lid f db))"
  using lease_inv_keeps_counters [OF assms(1), of "\<lambda>r. lr_id r = lid" f] assms(2)
  by (simp add: set_cursor_def updateFenced_def)

lemma accrueTick_inv:
  assumes "lease_inv (mt_leases db)" shows "lease_inv (mt_leases (fst (accrueTick now inp db)))"
proof (cases rule: accrueTick_cases [of now inp db])
  case idle
  with assms show ?thesis by simp
next
  case (seed r)
  from assms have "lease_inv (mt_leases (set_cursor (lr_id r) (\<lambda>r. r\<lparr>lr_last_meter_at := Some now\<rparr>) db))"
    by (rule set_cursor_inv) (simp add: keeps_counters_def lease_key_def)
  with seed show ?thesis by simp
next
  case (bill r t cost)
  show ?thesis unfolding bill(6)
    by (rule set_cursor_inv) (use assms in \<open>simp_all add: keeps_counters_def lease_key_def\<close>)
qed

lemma meter_step_inv:
  assumes "lease_inv (mt_leases db)" "meter_ok lo hi op db" shows "lease_inv (mt_leases (meter_step op db))"
proof (cases op)
  case (MLease l)
  with assms lease_run.step_inv show ?thesis by simp
next
  case (MForceDrain now ws limits)
  with assms show ?thesis
    using forceDrain_inv [OF assms(1), of now ws "dl_idle_grace_ms limits"]
    by (auto simp: forceDrainOverLimitViewerOnlyBoxes_def split: option.splits prod.splits)
qed (use assms in \<open>auto simp: accrueTick_inv\<close>)

subsection \<open>What a group is billed\<close>

definition source_group :: "string \<Rightarrow> string" where
  "source_group s = rev (tl (dropWhile (\<lambda>c. c \<noteq> CHR '':'') (rev s)))"

definition billed_to :: "uuid \<Rightarrow> uuid \<Rightarrow> usage_event \<Rightarrow> bool" where
  "billed_to ws grp e \<longleftrightarrow> ue_workspace_id e = ws \<and> ue_type e = ''sandbox.warm_seconds''
     \<and> map_option source_group (ue_source_id e) = Some grp"

definition metered :: "uuid \<Rightarrow> uuid \<Rightarrow> usage_event list \<Rightarrow> int" where
  "metered ws grp us = sum_list (map ue_quantity (select_where (billed_to ws grp) us))"

lemma digits_no_colon: "list_all is_digit cs \<Longrightarrow> CHR '':'' \<notin> set cs"
  by (auto simp: list_all_iff is_digit_def)

lemma int_dec_no_colon: "CHR '':'' \<notin> set (int_dec i)"
  using digits_no_colon nat_dec_digits by (simp add: int_dec_def)

lemma source_group_meter_source [simp]: "source_group (meter_source inp) = au_group_id inp"
proof -
  have "\<forall>c \<in> set (rev (int_dec (au_expected_epoch inp))). c \<noteq> CHR '':''" using int_dec_no_colon by auto
  then have "dropWhile (\<lambda>c. c \<noteq> CHR '':'') (rev (int_dec (au_expected_epoch inp)) @ CHR '':'' # rev (au_group_id inp))
      = CHR '':'' # rev (au_group_id inp)"
    by (subst dropWhile_append2) auto
  then show ?thesis by (simp add: source_group_def meter_source_def)
qed

lemma metered_insert_other: "ue_type e \<noteq> ''sandbox.warm_seconds'' \<Longrightarrow> metered ws grp (mt_usage (insertUsage e db)) = metered ws grp (mt_usage db)"
  by (auto simp: insertUsage_def metered_def select_where_def billed_to_def)

lemma metered_insert_warm:
  "0 < secs \<Longrightarrow> metered ws grp (mt_usage (insertUsage (warmSecondsEvent now inp tick secs) db))
     \<le> metered ws grp (mt_usage db) + (if (ws, grp) = (au_workspace_id inp, au_group_id inp) then secs else 0)"
  by (auto simp: insertUsage_def metered_def select_where_def billed_to_def warmSecondsEvent_def)

definition clock :: "uuid \<Rightarrow> uuid \<Rightarrow> lease_db \<Rightarrow> millis option" where
  "clock ws grp db = Option.bind (cursor ws grp db) (fst \<circ> snd)"

lemma clock_find: "clock ws grp db = Option.bind (find_lease ws grp db) lr_last_meter_at"
  by (cases "find_lease ws grp db") (simp_all add: clock_def cursor_find)

lemma clock_cursors:
  assumes "keeps_cursors db db'" shows "clock ws grp db' = clock ws grp db"
proof (cases "cursor ws grp db")
  case (Some c)
  with keeps_cursorsD(1) [OF assms, of ws grp] show ?thesis by (simp add: clock_def)
next
  case None
  then show ?thesis
  proof (cases "cursor ws grp db'")
    case (Some c)
    then obtain i t n where "cursor ws grp db' = Some (i, t, n)" by (cases c) auto
    with keeps_cursorsD(2) [OF assms None this] None show ?thesis by (simp add: clock_def)
  qed (simp add: clock_def)
qed

lemma clock_set_cursor:
  assumes inv: "lease_inv (mt_leases db)" and row: "find_lease w g (mt_leases db) = Some r"
    and f: "\<And>r. lease_key (f r) = lease_key r \<and> lr_id (f r) = lr_id r \<and> lr_last_meter_at (f r) = Some now"
  shows "clock ws grp (mt_leases (set_cursor (lr_id r) f db))
    = (if (ws, grp) = (w, g) then Some now else clock ws grp (mt_leases db))"
proof -
  have "clock ws grp d = Option.bind (map_option (fst \<circ> snd) (cursor ws grp d)) id" for d
    by (cases "cursor ws grp d") (simp_all add: clock_def)
  with cursor_set_cursor [OF inv row f, of ws grp] show ?thesis by simp
qed

text \<open>
  The budget: \<open>m\<close> is what the group had been billed when the window opened at \<open>lo\<close>; what it was
  billed since fits between \<open>lo\<close> and its cursor.
\<close>

definition within_clock :: "millis \<Rightarrow> millis \<Rightarrow> int \<Rightarrow> uuid \<Rightarrow> uuid \<Rightarrow> meter_db \<Rightarrow> bool" where
  "within_clock lo hi m ws grp db \<longleftrightarrow> lease_inv (mt_leases db) \<and>
     (case clock ws grp (mt_leases db) of
        None \<Rightarrow> metered ws grp (mt_usage db) \<le> m
      | Some t \<Rightarrow> lo \<le> t \<and> t \<le> hi \<and> 1000 * (metered ws grp (mt_usage db) - m) \<le> t - lo)"

lemma elapsed_seconds_le: "1000 * elapsed_seconds now t \<le> now - t"
  by (simp add: elapsed_seconds_def)

lemma within_clock_cong:
  assumes "within_clock lo hi m ws grp db" "lease_inv (mt_leases db')"
    "clock ws grp (mt_leases db') = clock ws grp (mt_leases db)"
    "metered ws grp (mt_usage db') = metered ws grp (mt_usage db)"
  shows "within_clock lo hi m ws grp db'"
  using assms by (simp add: within_clock_def split: option.splits)

lemma within_clock_tick:
  assumes w: "within_clock lo hi m ws grp db" and now: "lo \<le> now" "now \<le> hi"
  shows "within_clock lo hi m ws grp (fst (accrueTick now inp db))"
proof -
  have inv: "lease_inv (mt_leases db)" using w by (simp add: within_clock_def)
  have inv': "lease_inv (mt_leases (fst (accrueTick now inp db)))" using inv by (rule accrueTick_inv)
  show ?thesis
  proof (cases rule: accrueTick_cases [of now inp db])
    case idle
    with w show ?thesis by simp
  next
    case (seed r)
    have c: "clock ws grp (mt_leases (fst (accrueTick now inp db)))
        = (if (ws, grp) = (au_workspace_id inp, au_group_id inp) then Some now else clock ws grp (mt_leases db))"
      unfolding seed(4) by (rule clock_set_cursor [OF inv seed(1)]) (simp add: lease_key_def)
    have u: "mt_usage (fst (accrueTick now inp db)) = mt_usage db" by (simp add: seed(4))
    have "clock (au_workspace_id inp) (au_group_id inp) (mt_leases db) = None" using seed by (simp add: clock_find)
    with w now c u inv' show ?thesis by (auto simp: within_clock_def split: if_splits option.splits)
  next
    case (bill r t cost)
    let ?secs = "elapsed_seconds now t" and ?tick = "lr_last_meter_tick r + 1"
    let ?db1 = "insertUsage (warmSecondsEvent now inp ?tick ?secs) db"
    let ?db2 = "(if 0 < cost then insertUsage (warmCostEvent now inp ?tick cost) else id) ?db1"
    have "clock ws grp (mt_leases (fst (accrueTick now inp db)))
        = (if (ws, grp) = (au_workspace_id inp, au_group_id inp) then Some now else clock ws grp (mt_leases ?db2))"
      unfolding bill(6) by (rule clock_set_cursor) (use inv bill(1) in \<open>simp_all add: lease_key_def\<close>)
    then have c: "clock ws grp (mt_leases (fst (accrueTick now inp db)))
        = (if (ws, grp) = (au_workspace_id inp, au_group_id inp) then Some now else clock ws grp (mt_leases db))"
      by simp
    have "metered ws grp (mt_usage (fst (accrueTick now inp db))) = metered ws grp (mt_usage ?db1)"
      by (simp add: bill(6) metered_insert_other warmCostEvent_def)
    then have u: "metered ws grp (mt_usage (fst (accrueTick now inp db)))
        \<le> metered ws grp (mt_usage db) + (if (ws, grp) = (au_workspace_id inp, au_group_id inp) then ?secs else 0)"
      using metered_insert_warm [OF bill(3), of ws grp now inp ?tick db] by simp
    have "clock (au_workspace_id inp) (au_group_id inp) (mt_leases db) = Some t" using bill by (simp add: clock_find)
    with w now c u inv' elapsed_seconds_le [of now t] show ?thesis
      by (auto simp: within_clock_def split: if_splits option.splits)
  qed
qed

lemma within_clock_step:
  assumes w: "within_clock lo hi m ws grp db" and ok: "meter_ok lo hi op db"
  shows "within_clock lo hi m ws grp (meter_step op db)"
proof -
  have inv: "lease_inv (mt_leases db)" using w by (simp add: within_clock_def)
  note inv' = meter_step_inv [OF inv ok]
  show ?thesis
  proof (cases op)
    case (MTick now inp)
    with w ok show ?thesis by (simp add: within_clock_tick)
  next
    case (MLease l)
    then show ?thesis
      by (intro within_clock_cong [OF w inv']) (simp_all add: clock_cursors lease_step_cursors)
  next
    case (MForceDrain now ws' limits)
    have "keeps_cursors (mt_leases db) (mt_leases (meter_step op db))"
      unfolding MForceDrain
      using forceDrain_cursors [of now ws' "dl_idle_grace_ms limits" "mt_leases db"]
      by (auto simp: forceDrainOverLimitViewerOnlyBoxes_def keeps_cursors_same split: option.splits prod.splits)
    with MForceDrain show ?thesis by (intro within_clock_cong [OF w inv']) (simp_all add: clock_cursors)
  next
    case (MUsage e)
    with ok show ?thesis
      by (intro within_clock_cong [OF w inv']) (simp_all add: recordUsageEvent_def Let_def metered_insert_other)
  qed (intro within_clock_cong [OF w inv'], simp, simp)+
qed

interpretation metering: step_invariant meter_step "meter_ok lo hi" "within_clock lo hi m ws grp"
  by unfold_locales (rule within_clock_step)

subsection \<open>Balances\<close>

definition solvent :: "uuid \<Rightarrow> meter_db \<Rightarrow> bool" where
  "solvent account db \<longleftrightarrow> 0 \<le> getBillingBalance account db"

lemma balance_insert:
  "getBillingBalance account (insertLedger e db) = getBillingBalance account db
     + (if le_account_id e = account \<and> \<not> exists_where (\<lambda>x. le_key x = le_key e) (mt_ledger db) then le_amount e else 0)"
  by (simp add: getBillingBalance_def insertLedger_def select_where_def)

lemma insertLedger_seen: "exists_where (\<lambda>x. le_key x = le_key e) (mt_ledger db) \<Longrightarrow> insertLedger e db = db"
  by (simp add: insertLedger_def)

lemma balance_frame: "mt_ledger db' = mt_ledger db \<Longrightarrow> getBillingBalance account db' = getBillingBalance account db"
  by (simp add: getBillingBalance_def)

lemma solvent_debit: "solvent account db \<Longrightarrow> solvent account (fst (applyCreditDebitUpToBalance e db))"
  by (auto simp: solvent_def applyCreditDebitUpToBalance_def Let_def balance_insert)

lemma solvent_tick: "mt_ledger (fst (accrueTick now inp db)) = mt_ledger db"
  by (cases rule: accrueTick_cases [of now inp db]) simp_all

lemma solvent_step:
  assumes "solvent account db" "meter_ok lo hi op db" shows "solvent account (meter_step op db)"
proof (cases op)
  case (MCredit e)
  with assms show ?thesis by (auto simp: solvent_def applyCreditLedgerEntry_def Let_def balance_insert)
next
  case (MDebit e)
  with assms show ?thesis by (simp add: solvent_debit)
next
  case (MTick now inp)
  with assms show ?thesis by (simp add: solvent_def balance_frame [OF solvent_tick])
qed (use assms in \<open>simp_all add: solvent_def getBillingBalance_def\<close>)

interpretation solvency: step_invariant meter_step "meter_ok lo hi" "solvent account"
  by unfold_locales (rule solvent_step)

subsection \<open>The reaper's passes\<close>

lemma accrue_within_clock:
  assumes env: "\<And>d. within_clock lo hi m ws grp d \<Longrightarrow> within_clock lo hi m ws grp (env d)"
    and now: "lo \<le> now" "now \<le> hi" and w: "within_clock lo hi m ws grp db"
  shows "within_clock lo hi m ws grp (fst (accrueWarmSeconds env now inp db))"
proof -
  from within_clock_tick [OF w now] have t: "within_clock lo hi m ws grp (fst (accrueTick now inp db))" .
  have "within_clock lo hi m ws grp (fst (applyCreditDebitUpToBalance e d))" if "within_clock lo hi m ws grp d" for e d
    using within_clock_step [OF that, of "MDebit e"] by simp
  with t env show ?thesis by (simp add: accrueWarmSeconds_def split_beta)
qed

lemma accrueEach_within_clock:
  assumes env: "\<And>j d. within_clock lo hi m ws grp d \<Longrightarrow> within_clock lo hi m ws grp (env j d)"
    and now: "\<And>j. lo \<le> nows j" "\<And>j. nows j \<le> hi"
  shows "within_clock lo hi m ws grp db \<Longrightarrow> within_clock lo hi m ws grp (fst (accrueEach env nows rateOf i ms db))"
proof (induction ms arbitrary: i db)
  case (Cons x ms)
  have "within_clock lo hi m ws grp (fst (accrueWarmSeconds (env (2 * i + 1)) (nows i) (accrueOf rateOf x) (env (2 * i) db)))"
    by (intro accrue_within_clock env now Cons.prems)
  from Cons.IH [OF this] show ?case by (simp add: split_beta)
qed simp

lemma drainEach_within_clock:
  assumes env: "\<And>j d. within_clock lo hi m ws grp d \<Longrightarrow> within_clock lo hi m ws grp (env j d)"
  shows "within_clock lo hi m ws grp db \<Longrightarrow> within_clock lo hi m ws grp (fst (drainEach env nows st accountOf i wss db))"
proof (induction wss arbitrary: i db)
  case (Cons w wss)
  have "within_clock lo hi m ws grp (fst (forceDrainOverLimitViewerOnlyBoxes (nows i) w limits (env i db)))" for limits
    using within_clock_step [OF env [OF Cons.prems], of "MForceDrain (nows i) w limits" i] by simp
  from Cons.IH [OF this] show ?case by (simp add: split_beta Let_def)
qed simp

lemma sweep_within_clock:
  assumes "\<And>j d. within_clock lo hi m ws grp d \<Longrightarrow> within_clock lo hi m ws grp (env j d)"
    and "\<And>j. lo \<le> nows j" "\<And>j. nows j \<le> hi" and "within_clock lo hi m ws grp db"
  shows "within_clock lo hi m ws grp (fst (forceDrainOverLimitWorkspaces env nows st accountOf wss
           (fst (accrueWarmTick env nows rateOf db))))"
proof -
  have "within_clock lo hi m ws grp (fst (accrueWarmTick env nows rateOf db))"
    using accrueEach_within_clock [where env = env and nows = nows, OF assms] by (simp add: accrueWarmTick_def Let_def split_beta)
  then show ?thesis
    by (simp add: forceDrainOverLimitWorkspaces_def drainEach_within_clock [where env = env, OF assms(1)])
qed

subsection \<open>Properties\<close>

text \<open>
  C19: no time is billed twice. Over any stretch from \<open>lo\<close> to \<open>hi\<close> that starts at or before the group's
  meter cursor, a sandbox group is billed at most the seconds of the stretch up to where the cursor stands
  at its end, whatever number of callers tick it, in whatever order and with whatever lease operations,
  drains and debits between them. The bound is on elapsed time, not on warm time: a tick bills all the time
  since the cursor, also what the box was cold in between (\<open>cold_time_is_billed\<close>, \<^verbatim>\<open>index.ts:16153\<close>).
\<close>

theorem no_time_metered_twice:
  assumes "lease_inv (mt_leases db)" "lo \<le> hi"
    and "\<And>t. clock ws grp (mt_leases db) = Some t \<Longrightarrow> lo \<le> t \<and> t \<le> hi"
    and "admissible meter_step (meter_ok lo hi) ops db"
  defines "db' \<equiv> run_ops meter_step ops db"
  shows "1000 * (metered ws grp (mt_usage db') - metered ws grp (mt_usage db)) \<le> hi - lo
    \<and> (case clock ws grp (mt_leases db') of
         None \<Rightarrow> metered ws grp (mt_usage db') \<le> metered ws grp (mt_usage db)
       | Some t \<Rightarrow> t \<le> hi \<and> 1000 * (metered ws grp (mt_usage db') - metered ws grp (mt_usage db)) \<le> t - lo)"
proof -
  have "within_clock lo hi (metered ws grp (mt_usage db)) ws grp db"
    using assms(1,3) by (simp add: within_clock_def split: option.split)
  from metering.run_inv [OF this assms(4)] assms(2) show ?thesis
    by (auto simp: within_clock_def db'_def split: option.splits)
qed

definition demo_tick :: "int \<Rightarrow> accrue_input" where
  "demo_tick e = \<lparr>au_account_id = ''a'', au_workspace_id = ''w'', au_group_id = ''g'', au_expected_epoch = e,
     au_rate = 3 / 2, au_subject_id = None, au_debit_credits = None\<rparr>"

definition demo_metered :: meter_db where
  "demo_metered = \<lparr>mt_leases = run_ops lease_step demo_warm lease_empty, mt_usage = [], mt_ledger = []\<rparr>"

lemma demo_metered_inv: "lease_inv (mt_leases demo_metered)"
  using lease_run.run_inv [OF lease_inv_empty demo_warm_ok] by (simp add: demo_metered_def)

lemma no_time_metered_twice_witness:
  "let db' = run_ops meter_step [MTick 10 (demo_tick 1), MTick 2500 (demo_tick 1), MTick 2600 (demo_tick 1)] demo_metered in
     metered ''w'' ''g'' (mt_usage db') = 2 \<and> clock ''w'' ''g'' (mt_leases db') = Some 2500
     \<and> 1000 * (metered ''w'' ''g'' (mt_usage db') - metered ''w'' ''g'' (mt_usage demo_metered)) \<le> 2500 - 10"
proof -
  let ?ops = "[MTick 10 (demo_tick 1), MTick 2500 (demo_tick 1), MTick 2600 (demo_tick 1)]"
  have v: "metered ''w'' ''g'' (mt_usage (run_ops meter_step ?ops demo_metered)) = 2"
      "clock ''w'' ''g'' (mt_leases (run_ops meter_step ?ops demo_metered)) = Some 2500"
    by code_simp+
  have c: "clock ''w'' ''g'' (mt_leases demo_metered) = None" by code_simp
  have a: "admissible meter_step (meter_ok 10 2600) ?ops demo_metered" by simp
  from no_time_metered_twice [where ws = "''w''" and grp = "''g''", OF demo_metered_inv _ _ a] c v
  show ?thesis by (simp add: Let_def del: run_ops.simps)
qed

text \<open>
  No lease operation moves the meter cursor, so the first tick after a box went cold and was
  started again bills all the time since the last tick, the time without a box included.
\<close>

theorem cold_time_is_billed:
  assumes "clock (au_workspace_id inp) (au_group_id inp) ls = Some t"
    and "find_lease (au_workspace_id inp) (au_group_id inp) (run_ops lease_step ops ls) = Some r"
    and "lr_liveness r = Warm" "lr_epoch r = au_expected_epoch inp" "t + 1000 \<le> now"
  shows "ar_seconds (snd (accrueTick now inp
           \<lparr>mt_leases = run_ops lease_step ops ls, mt_usage = us, mt_ledger = ledger\<rparr>)) = (now - t) div 1000"
proof -
  have "clock (au_workspace_id inp) (au_group_id inp) (run_ops lease_step ops ls) = Some t"
    using clock_cursors [OF cursors.run_rel] assms(1) by metis
  with assms(2) have "lr_last_meter_at r = Some t" by (simp add: clock_find)
  moreover have "0 < elapsed_seconds now t" using assms(5) by (simp add: elapsed_seconds_def)
  ultimately show ?thesis
    using assms by (simp add: accrueTick_def Let_def elapsed_seconds_def)
qed

definition demo_went_cold :: "lease_op list" where
  "demo_went_cold = [OpRelease 3 ''w'' ''g'' TurnHolder ''t'' 5, OpRelease 3 ''w'' ''g'' ViewerHolder ''v'' 5,
     OpConfirmCold ''w'' ''g'' 1]"

definition demo_rewarmed :: "lease_op list" where
  "demo_rewarmed = demo_went_cold @ [OpAcquire 3600000 ''n'' (demo_acquire TurnHolder ''t''), OpCommit 3600001 (demo_commit 1)]"

lemma cold_time_is_billed_witness:
  "let ls = mt_leases (meter_step (MTick 10 (demo_tick 1)) demo_metered) in
     map_option lr_liveness (find_lease ''w'' ''g'' (run_ops lease_step demo_went_cold ls)) = Some Cold
     \<and> ar_seconds (snd (accrueTick 3601010 (demo_tick 2)
          \<lparr>mt_leases = run_ops lease_step demo_rewarmed ls, mt_usage = [], mt_ledger = []\<rparr>)) = 3601"
proof -
  let ?ls = "mt_leases (meter_step (MTick 10 (demo_tick 1)) demo_metered)"
  have "map_option lr_liveness (find_lease ''w'' ''g'' (run_ops lease_step demo_went_cold ?ls)) = Some Cold"
    and c: "clock ''w'' ''g'' ?ls = Some 10"
    and w: "map_option (\<lambda>r. (lr_liveness r, lr_epoch r)) (find_lease ''w'' ''g'' (run_ops lease_step demo_rewarmed ?ls)) = Some (Warm, 2)"
    by code_simp+
  moreover obtain r where "find_lease ''w'' ''g'' (run_ops lease_step demo_rewarmed ?ls) = Some r" "lr_liveness r = Warm" "lr_epoch r = 2"
    using w by auto
  then have "ar_seconds (snd (accrueTick 3601010 (demo_tick 2)
      \<lparr>mt_leases = run_ops lease_step demo_rewarmed ?ls, mt_usage = [], mt_ledger = []\<rparr>)) = (3601010 - 10) div 1000"
    using c by (intro cold_time_is_billed) (simp_all add: demo_tick_def)
  ultimately show ?thesis by (simp add: Let_def)
qed

text \<open>
  A force-drain never touches a box with a turn: its row and all its holders stay. Every other
  warm box of the workspace is left draining with no holder, so the next reap terminates it.
\<close>

theorem force_drain_spares_turns:
  fixes now :: millis
  assumes inv: "lease_inv (mt_leases db)" and over: "overLimit ws limits db \<noteq> None"
    and r: "r \<in> set (leases (mt_leases db))"
  defines "ls' \<equiv> mt_leases (fst (forceDrainOverLimitViewerOnlyBoxes now ws limits db))"
  shows "lease_inv ls' \<and> (if lr_workspace_id r = ws \<and> lr_liveness r = Warm \<and> kind_holders TurnHolder (lr_id r) (mt_leases db) = 0
         then drained now (dl_idle_grace_ms limits) r \<in> set (leases ls') \<and> total_holders (lr_id r) ls' = 0
         else r \<in> set (leases ls')
           \<and> (\<forall>h \<in> set (holders (mt_leases db)). h_lease_id h = lr_id r \<longrightarrow> h \<in> set (holders ls')))"
proof -
  let ?ls = "mt_leases db"
  have ls': "ls' = fst (forceDrain now ws (dl_idle_grace_ms limits) ?ls)"
    using over by (auto simp: ls'_def forceDrainOverLimitViewerOnlyBoxes_def split: option.splits prod.splits)
  then have "lease_inv ls'" by (simp add: forceDrain_inv inv)
  have who: "viewer_only ws r \<longleftrightarrow> lr_workspace_id r = ws \<and> lr_liveness r = Warm \<and> kind_holders TurnHolder (lr_id r) ?ls = 0"
    using turn_holders_counted [OF inv r] by (auto simp: viewer_only_def)
  have victim: "lr_id r \<in> set (victims ws ?ls) \<longleftrightarrow> viewer_only ws r"
    using inv r by (auto simp: victims_def set_select_where lease_inv_def dest: distinct_map_inj)
  have "total_holders (lr_id r) ls' = 0" if "viewer_only ws r"
    using drained_holderless [OF inv r that] by (simp add: ls')
  with \<open>lease_inv ls'\<close> r victim who show "lease_inv ls' \<and> (if lr_workspace_id r = ws \<and> lr_liveness r = Warm \<and> kind_holders TurnHolder (lr_id r) ?ls = 0
         then drained now (dl_idle_grace_ms limits) r \<in> set (leases ls') \<and> total_holders (lr_id r) ls' = 0
         else r \<in> set (leases ls')
           \<and> (\<forall>h \<in> set (holders ?ls). h_lease_id h = lr_id r \<longrightarrow> h \<in> set (holders ls')))"
    by (auto simp: ls' forceDrain_eq set_update_where set_delete_where drained_holder_def)
qed

definition no_balance :: drain_limits where
  "no_balance = \<lparr>dl_balance_micros = 0, dl_enforce_balance = True, dl_max_warm_seconds = 0, dl_cap_window_start = 0,
     dl_idle_grace_ms = 5\<rparr>"

lemma force_drain_spares_turns_witness:
  "let turn_db = demo_metered; viewer_db = meter_step (MLease (OpRelease 3 ''w'' ''g'' TurnHolder ''t'' 5)) demo_metered;
       r = hd (leases (mt_leases viewer_db)) in
     drained 9 5 r \<in> set (leases (mt_leases (fst (forceDrainOverLimitViewerOnlyBoxes 9 ''w'' no_balance viewer_db))))
     \<and> hd (leases (mt_leases turn_db)) \<in> set (leases (mt_leases (fst (forceDrainOverLimitViewerOnlyBoxes 9 ''w'' no_balance turn_db))))"
proof -
  let ?v = "meter_step (MLease (OpRelease 3 ''w'' ''g'' TurnHolder ''t'' 5)) demo_metered"
  let ?t = "demo_metered"
  have inv: "lease_inv (mt_leases ?v)"
    by (rule meter_step_inv [OF demo_metered_inv, of 0 0]) (simp add: fresh_ids_def)
  have over: "overLimit ''w'' no_balance d \<noteq> None" for d by (simp add: overLimit_def no_balance_def)
  have v: "leases (mt_leases ?v) \<noteq> []" "lr_workspace_id (hd (leases (mt_leases ?v))) = ''w''
      \<and> lr_liveness (hd (leases (mt_leases ?v))) = Warm
      \<and> kind_holders TurnHolder (lr_id (hd (leases (mt_leases ?v)))) (mt_leases ?v) = 0"
    by code_simp+
  have t: "leases (mt_leases ?t) \<noteq> []"
      "kind_holders TurnHolder (lr_id (hd (leases (mt_leases ?t)))) (mt_leases ?t) \<noteq> 0"
    by code_simp+
  from force_drain_spares_turns [OF inv over hd_in_set [OF v(1)], of 9] v(2)
    force_drain_spares_turns [OF demo_metered_inv over hd_in_set [OF t(1)], of 9] t(2)
  show ?thesis by (simp add: Let_def no_balance_def)
qed

text \<open>
  C20: in every run with non-negative credits an account's balance never goes below zero: a debit takes
  what is there, at most what it asks, and the books show exactly what it took; a repeated key takes
  nothing.
\<close>

theorem debits_never_overdraw:
  assumes "0 \<le> getBillingBalance account db" "admissible meter_step (meter_ok lo hi) ops db" "le_account_id e = account"
  defines "db' \<equiv> run_ops meter_step ops db"
  shows "case applyCreditDebitUpToBalance e db' of (db'', balance, debited) \<Rightarrow>
    0 \<le> balance \<and> balance = getBillingBalance account db'' \<and> 0 \<le> debited \<and> debited \<le> max 0 (le_amount e)
    \<and> (if exists_where (\<lambda>x. le_key x = le_key e) (mt_ledger db') then db'' = db'
       else getBillingBalance account db' = balance + debited)"
proof -
  have "solvent account db'"
    unfolding db'_def by (rule solvency.run_inv [OF _ assms(2)]) (simp add: solvent_def assms(1))
  then show ?thesis
    by (auto simp: applyCreditDebitUpToBalance_def Let_def balance_insert solvent_def insertLedger_seen assms(3))
qed

definition demo_credit :: "string \<Rightarrow> int \<Rightarrow> ledger_entry" where
  "demo_credit key amount = \<lparr>le_account_id = ''a'', le_workspace_id = None, le_type = ''manual'', le_amount = amount,
     le_source_type = None, le_source_id = None, le_key = key, le_metadata = [], le_occurred_at = 0\<rparr>"

lemma debits_never_overdraw_witness:
  "let ops = [MCredit (demo_credit ''c1'' 10), MDebit (demo_credit ''d1'' 7)];
       db' = run_ops meter_step ops demo_metered; (db'', balance, debited) = applyCreditDebitUpToBalance (demo_credit ''d2'' 5) db'
   in debited = 3 \<and> balance = 0 \<and> getBillingBalance ''a'' db' = balance + debited"
proof -
  let ?ops = "[MCredit (demo_credit ''c1'' 10), MDebit (demo_credit ''d1'' 7)]"
  have "0 \<le> getBillingBalance ''a'' demo_metered" by code_simp
  moreover have "admissible meter_step (meter_ok 0 0) ?ops demo_metered" by (simp add: demo_credit_def)
  moreover have "le_account_id (demo_credit ''d2'' 5) = ''a''" by (simp add: demo_credit_def)
  moreover have "\<not> exists_where (\<lambda>x. le_key x = le_key (demo_credit ''d2'' 5)) (mt_ledger (run_ops meter_step ?ops demo_metered))"
    by code_simp
  moreover have "snd (applyCreditDebitUpToBalance (demo_credit ''d2'' 5) (run_ops meter_step ?ops demo_metered)) = (0, 3)"
    by code_simp
  ultimately show ?thesis
    using debits_never_overdraw [of "''a''" demo_metered 0 0 ?ops "demo_credit ''d2'' 5"]
    by (auto simp: Let_def split: prod.splits)
qed

text \<open>A repeated key books nothing, but the call still reports the amount as debited.\<close>

lemma repeated_debit_reports_again:
  assumes "exists_where (\<lambda>x. le_key x = le_key e) (mt_ledger db)" "0 < le_amount e"
    and "le_amount e \<le> getBillingBalance (le_account_id e) db"
  shows "applyCreditDebitUpToBalance e db = (db, getBillingBalance (le_account_id e) db, le_amount e)"
  using assms by (simp add: applyCreditDebitUpToBalance_def Let_def insertLedger_def)

end
