(* ===== verification/Reaper_Props.thy ===== *)
theory Reaper_Props
  imports Reaper Metering_Props
begin

text \<open>
  The properties of the reaper: a box is stopped only behind the drain fence and after its workspace was
  saved, what that fence does not cover, and which provider boxes the orphan sweep may stop.
\<close>

subsection \<open>The log of a termination\<close>

lemma log_simps [simp]:
  "rw_log (logged ev w) = rw_log w @ [ev]" "rw_db (logged ev w) = rw_db w"
  "rw_log (meanwhile env w) = rw_log w" "rw_db (meanwhile f w) = f (rw_db w)"
  "rw_log (with_leases ls w) = rw_log w" "rw_db (with_leases ls w) = (rw_db w)\<lparr>mt_leases := ls\<rparr>"
  by (simp_all add: logged_def meanwhile_def with_leases_def)

definition stop_calls :: "provider \<Rightarrow> box_session \<Rightarrow> box_event list" where
  "stop_calls pv s =
     (if pv_delete pv \<or> bs_kill s \<or> bs_terminate s \<or> bs_close s \<and> \<not> bs_closed s then [BoxStopped] else [])"

lemma stopBox_simps [simp]:
  "rw_log (stopBox pv s w) = rw_log w @ stop_calls pv s" "rw_db (stopBox pv s w) = rw_db w"
  by (simp_all add: stopBox_def stop_calls_def)

definition image_events :: "box_event list \<Rightarrow> bool" where
  "image_events evs \<longleftrightarrow> (\<forall>ev \<in> set evs. \<exists>i. ev = ImageDeleted i)"

lemma deletePrior_db [simp]: "rw_db (deletePriorPersistedSnapshot cd s prior w) = rw_db w"
  by (simp add: deletePriorPersistedSnapshot_def split: option.splits call.splits)

lemma deletePrior_log:
  "\<exists>evs. rw_log (deletePriorPersistedSnapshot cd s prior w) = rw_log w @ evs \<and> image_events evs"
  by (auto simp: deletePriorPersistedSnapshot_def image_events_def split: option.splits call.splits)

lemma deletePrior_both_log:
  "\<exists>evs. rw_log (deletePriorPersistedSnapshot cd s p (deletePriorPersistedSnapshot cd s q w)) = rw_log w @ evs \<and> image_events evs"
proof -
  obtain evs where "rw_log (deletePriorPersistedSnapshot cd s q w) = rw_log w @ evs" "image_events evs"
    using deletePrior_log by blast
  moreover obtain evs' where "rw_log (deletePriorPersistedSnapshot cd s p (deletePriorPersistedSnapshot cd s q w))
      = rw_log (deletePriorPersistedSnapshot cd s q w) @ evs'" "image_events evs'"
    using deletePrior_log by blast
  ultimately show ?thesis by (auto simp: image_events_def)
qed

definition fence_result :: "string \<Rightarrow> uuid \<Rightarrow> uuid \<Rightarrow> int \<Rightarrow> string option \<Rightarrow> reaper_state \<Rightarrow> drain_persist_result" where
  "fence_result nowText ws grp e archive w = snd (persistDrainSnapshot nowText ws grp e archive (mt_leases (rw_db w)))"

lemma persistArchive_eq:
  "persistArchive nowText ws grp e archive w =
     (logged (ArchiveFenced archive (dp_wrote (fence_result nowText ws grp e archive w)))
        (with_leases (fst (persistDrainSnapshot nowText ws grp e archive (mt_leases (rw_db w)))) w),
      fence_result nowText ws grp e archive w)"
  by (simp add: persistArchive_def fence_result_def split_beta)

text \<open>\<open>fenced_stop\<close>: the events from the fence on; a stop comes only behind a fence that was passed.\<close>

definition fenced_stop :: "string option \<Rightarrow> bool \<Rightarrow> box_event list \<Rightarrow> bool" where
  "fenced_stop archive ok evs \<longleftrightarrow> (\<exists>images stops. evs = ArchiveFenced archive ok # images @ stops
     \<and> image_events images \<and> set stops \<subseteq> {BoxStopped} \<and> (\<not> ok \<longrightarrow> stops = []))"

lemma stopCaptured_log:
  assumes "stopCaptured cd pv env (persistArchive nowText ws grp e) s bytes w = (w', ok)"
  shows "ok = dp_wrote (fence_result nowText ws grp e (map_option (cd_to_base64 cd) (truthy bytes)) w)"
    and "\<exists>evs. rw_log w' = rw_log w @ evs \<and> fenced_stop (map_option (cd_to_base64 cd) (truthy bytes)) ok evs"
proof -
  let ?a = "map_option (cd_to_base64 cd) (truthy bytes)"
  let ?r = "fence_result nowText ws grp e ?a w"
  let ?w1 = "fst (persistArchive nowText ws grp e ?a w)"
  show ok: "ok = dp_wrote ?r"
    using assms by (auto simp: stopCaptured_def Let_def persistArchive_eq split: if_splits)
  obtain evs where imgs: "rw_log (deletePriorPersistedSnapshot cd s (dp_prior_archive_prev ?r)
      (deletePriorPersistedSnapshot cd s (dp_prior_archive ?r) ?w1)) = rw_log ?w1 @ evs" "image_events evs"
    using deletePrior_both_log by blast
  show "\<exists>evs. rw_log w' = rw_log w @ evs \<and> fenced_stop ?a ok evs"
  proof (cases "dp_wrote ?r")
    case False
    with assms have "rw_log w' = rw_log w @ [ArchiveFenced ?a False]" "\<not> ok"
      by (auto simp: stopCaptured_def Let_def persistArchive_eq)
    then show ?thesis by (auto simp: fenced_stop_def image_events_def)
  next
    case True
    have "rw_log w' = rw_log w @ ArchiveFenced ?a True # (if ?a = None then [] else evs) @ stop_calls pv s"
      using assms True imgs(1) by (auto simp: stopCaptured_def Let_def persistArchive_eq)
    moreover have "image_events (if ?a = None then [] else evs)" using imgs(2) by (simp add: image_events_def)
    moreover have "set (stop_calls pv s) \<subseteq> {BoxStopped}" by (auto simp: stop_calls_def)
    ultimately have "fenced_stop ?a ok (ArchiveFenced ?a True # (if ?a = None then [] else evs) @ stop_calls pv s)"
      using ok True unfolding fenced_stop_def by blast
    with \<open>rw_log w' = _\<close> show ?thesis by blast
  qed
qed

lemma fenced_stopD:
  assumes "fenced_stop archive ok evs" "BoxStopped \<in> set evs"
  shows "ok \<and> (\<exists>images post. evs = ArchiveFenced archive True # images @ BoxStopped # post \<and> image_events images)"
proof -
  obtain images stops where s: "evs = ArchiveFenced archive ok # images @ stops" "image_events images"
      "set stops \<subseteq> {BoxStopped}" "\<not> ok \<longrightarrow> stops = []"
    using assms(1) by (auto simp: fenced_stop_def)
  moreover have "BoxStopped \<notin> set images" using s(2) by (auto simp: image_events_def)
  ultimately have "BoxStopped \<in> set stops" using assms(2) by auto
  with s(3,4) obtain post where "ok" "stops = BoxStopped # post" by (cases stops) auto
  with s show ?thesis by auto
qed

lemma fence_passed:
  assumes "dp_wrote (fence_result nowText ws grp e archive w)" "lease_inv (mt_leases (rw_db w))"
  shows "\<exists>r. find_lease ws grp (mt_leases (rw_db w)) = Some r \<and> drain_fence ws grp e r"
proof -
  obtain r where r: "List.find (drain_fence ws grp e) (leases (mt_leases (rw_db w))) = Some r"
    using assms(1) by (auto simp: fence_result_def persistDrainSnapshot_def split: option.splits)
  have mem: "r \<in> set (leases (mt_leases (rw_db w)))" "drain_fence ws grp e r" using find_SomeD [OF r] by auto
  then have "lr_workspace_id r = ws" "lr_group_id r = grp"
    by (auto simp: drain_fence_def epoch_fence_def key_is_def)
  with mem find_lease_mem [OF assms(2) mem(1)] show ?thesis by auto
qed

text \<open>What a stop had before it: the workspace was captured and written, or there was none to capture.\<close>

definition nothing_to_save :: "provider \<Rightarrow> json option \<Rightarrow> bool" where
  "nothing_to_save pv rs \<longleftrightarrow> no_envelope rs \<or>
     (\<exists>st s. attachBox pv (the rs) = Attached st s
        \<and> (bs_persist s = None \<or> (\<exists>b. bs_persist s = Some (Returned b) \<and> truthy b = None)))"

definition saved :: "codec \<Rightarrow> provider \<Rightarrow> json option \<Rightarrow> box_event list \<Rightarrow> string option \<Rightarrow> bool" where
  "saved cd pv rs pre archive \<longleftrightarrow> BoxStopped \<notin> set pre \<and>
     (case archive of
        None \<Rightarrow> nothing_to_save pv rs
      | Some a \<Rightarrow> \<exists>b. b \<noteq> [] \<and> a = cd_to_base64 cd b \<and> WorkspaceCaptured b \<in> set pre)"

definition stopped_saved :: "codec \<Rightarrow> provider \<Rightarrow> json option \<Rightarrow> (string option \<Rightarrow> bool) \<Rightarrow> box_event list \<Rightarrow> bool" where
  "stopped_saved cd pv rs passed evs \<longleftrightarrow>
     (\<exists>pre archive images post. evs = pre @ ArchiveFenced archive True # images @ BoxStopped # post
        \<and> saved cd pv rs pre archive \<and> image_events images \<and> passed archive)"

lemma stopAttached_saved:
  assumes "stopAttached cd pv env (persistArchive nowText ws grp e) s w = (w', res)"
    and "attachBox pv (the rs) = Attached st s" and "rw_log w' = rw_log w @ evs" "BoxStopped \<in> set evs"
  shows "stopped_saved cd pv rs (\<lambda>a. dp_wrote (fence_result nowText ws grp e a (meanwhile (env 0) w))) evs"
proof -
  let ?w0 = "meanwhile (env 0) (logged BoxAttached w)"
  let ?c = "case bs_persist s of None \<Rightarrow> Returned None | Some c \<Rightarrow> c"
  obtain bytes where bytes: "?c = Returned bytes"
  proof (cases ?c)
    case (Threw err)
    with assms have "rw_log w' = rw_log w @ [BoxAttached]"
      by (auto simp: stopAttached_def Let_def split: if_splits)
    with assms(3,4) show ?thesis by auto
  qed
  let ?w1 = "case truthy bytes of None \<Rightarrow> ?w0 | Some b \<Rightarrow> logged (WorkspaceCaptured b) ?w0"
  let ?pre = "BoxAttached # (case truthy bytes of None \<Rightarrow> [] | Some b \<Rightarrow> [WorkspaceCaptured b])"
  let ?a = "map_option (cd_to_base64 cd) (truthy bytes)"
  obtain ok where cap: "stopCaptured cd pv env (persistArchive nowText ws grp e) s bytes ?w1 = (w', ok)"
    using assms(1) bytes by (auto simp: stopAttached_def Let_def split: prod.splits)
  from stopCaptured_log(2) [OF cap] obtain tail
    where tail: "rw_log w' = rw_log ?w1 @ tail" "fenced_stop ?a ok tail" by blast
  have "rw_log ?w1 = rw_log w @ ?pre" by (simp split: option.split)
  with tail(1) assms(3) have evs: "evs = ?pre @ tail" by simp
  then have "BoxStopped \<in> set tail" using assms(4) by (auto split: option.splits)
  from fenced_stopD [OF tail(2) this] obtain images post
    where ok: "ok" and t: "tail = ArchiveFenced ?a True # images @ BoxStopped # post" "image_events images" by blast
  have "fence_result nowText ws grp e ?a ?w1 = fence_result nowText ws grp e ?a (meanwhile (env 0) w)"
    by (simp add: fence_result_def split: option.split)
  with stopCaptured_log(1) [OF cap] ok have "dp_wrote (fence_result nowText ws grp e ?a (meanwhile (env 0) w))" by simp
  moreover have "saved cd pv rs ?pre ?a"
    using bytes assms(2)
    by (auto simp: saved_def nothing_to_save_def truthy_def split: option.splits if_splits)
  ultimately show ?thesis using evs t unfolding stopped_saved_def by metis
qed

lemma terminateByInstance_saved:
  assumes "terminateByInstance pv env (persistArchive nowText ws grp e) i w = (w', res)"
    and "no_envelope rs" and "rw_log w' = rw_log w @ evs" "BoxStopped \<in> set evs"
  shows "stopped_saved cd pv rs (\<lambda>a. dp_wrote (fence_result nowText ws grp e a (meanwhile (env 0) w))) evs"
proof -
  have "dp_wrote (fence_result nowText ws grp e None (meanwhile (env 0) w)) \<and> evs = [ArchiveFenced None True, BoxStopped]"
    using assms
    by (auto simp: terminateByInstance_def Let_def persistArchive_eq split: if_splits call.splits)
  then show ?thesis
    using assms(2) unfolding stopped_saved_def
    by (intro exI [of _ "[]"] exI [of _ None]) (simp add: saved_def nothing_to_save_def image_events_def)
qed

lemma terminateProviderBox_saved:
  assumes run: "terminateProviderBox cd pv env (persistArchive nowText ws grp e) lease w = (w', res)"
    and evs: "rw_log w' = rw_log w @ evs" "BoxStopped \<in> set evs"
  shows "ls_backend lease \<noteq> ''selfhosted'' \<and> ls_resume_backend_id lease \<noteq> Some ''selfhosted''
    \<and> stopped_saved cd pv (ls_resume_state lease)
        (\<lambda>a. dp_wrote (fence_result nowText ws grp e a (meanwhile (env 0) w))) evs"
proof -
  have moved: "w' \<noteq> w" using evs by auto
  with run have self: "ls_backend lease \<noteq> ''selfhosted'' \<and> ls_resume_backend_id lease \<noteq> Some ''selfhosted''"
    by (auto simp: terminateProviderBox_def Let_def split: if_splits)
  consider (direct) i where "no_envelope (ls_resume_state lease)"
      "terminateByInstance pv env (persistArchive nowText ws grp e) i w = (w', res)"
    | (attached) st s where "attachBox pv (the (ls_resume_state lease)) = Attached st s"
      "stopAttached cd pv env (persistArchive nowText ws grp e) s w = (w', res)"
    using run moved by (auto simp: terminateProviderBox_def Let_def split: if_splits attach_result.splits)
  then have "stopped_saved cd pv (ls_resume_state lease)
      (\<lambda>a. dp_wrote (fence_result nowText ws grp e a (meanwhile (env 0) w))) evs"
  proof cases
    case direct
    show ?thesis by (rule terminateByInstance_saved [OF direct(2) direct(1) evs])
  next
    case attached
    show ?thesis by (rule stopAttached_saved [OF attached(2) attached(1) evs])
  qed
  with self show ?thesis by simp
qed

lemma stopped_saved_snoc: "stopped_saved cd pv rs P evs \<Longrightarrow> stopped_saved cd pv rs P (evs @ [ev])"
  unfolding stopped_saved_def by (metis append.assoc append_Cons)

lemma terminateDrainableBox_saved:
  assumes run: "terminateDrainableBox cd pv env nowText (ws, grp, e) w = (w', res)"
    and evs: "rw_log w' = rw_log w @ evs" "BoxStopped \<in> set evs"
  shows "\<exists>r0. find_lease ws grp (mt_leases (rw_db w)) = Some r0
    \<and> lr_backend r0 \<noteq> ''selfhosted'' \<and> lr_resume_backend_id r0 \<noteq> Some ''selfhosted''
    \<and> stopped_saved cd pv (lr_resume_state r0)
        (\<lambda>a. dp_wrote (fence_result nowText ws grp e a (meanwhile (env 0) w))) evs"
proof -
  have moved: "w' \<noteq> w" using evs by auto
  with run obtain r0 where r0: "find_lease ws grp (mt_leases (rw_db w)) = Some r0"
    by (auto simp: terminateDrainableBox_def readLease_def split: option.splits)
  let ?lease = "mapLeaseRow r0"
  obtain w1 res1 where t: "terminateProviderBox cd pv env (persistArchive nowText ws grp e) ?lease w = (w1, res1)"
    by (cases "terminateProviderBox cd pv env (persistArchive nowText ws grp e) ?lease w") auto
  have "rw_log w' = rw_log w1 \<or> (\<exists>b i. rw_log w' = rw_log w1 @ [TerminatedEvent ws grp b i])"
    using run moved r0 t
    by (auto simp: terminateDrainableBox_def readLease_def Let_def split_beta split: option.splits if_splits sum.splits bool.splits)
  then show ?thesis
  proof (elim disjE exE)
    assume "rw_log w' = rw_log w1"
    with evs have "rw_log w1 = rw_log w @ evs" by simp
    from terminateProviderBox_saved [OF t this evs(2)] r0 show ?thesis by (simp add: mapLeaseRow_def)
  next
    fix b i assume l: "rw_log w' = rw_log w1 @ [TerminatedEvent ws grp b i]"
    obtain evs1 ev where e1: "evs = evs1 @ [ev]" using evs(2) by (cases evs rule: rev_cases) auto
    with l evs(1) have "rw_log w1 = rw_log w @ evs1" "ev = TerminatedEvent ws grp b i" by auto
    moreover from this e1 evs(2) have "BoxStopped \<in> set evs1" by auto
    ultimately show ?thesis
      using terminateProviderBox_saved [OF t] r0 e1 by (auto simp: mapLeaseRow_def intro: stopped_saved_snoc)
  qed
qed

subsection \<open>A box that is captured\<close>

text \<open>A lease with an envelope whose box is resumed, captured as \<open>b\<close> and can be deleted.\<close>

definition capturable :: "provider \<Rightarrow> lease_row \<Rightarrow> box_session \<Rightarrow> string \<Rightarrow> bool" where
  "capturable pv r s b \<longleftrightarrow>
     (let backend = (case lr_resume_backend_id r of Some x \<Rightarrow> x | None \<Rightarrow> lr_backend r) in
      backend \<noteq> [] \<and> backend \<noteq> ''none'' \<and> backend \<noteq> ''selfhosted'') \<and> lr_backend r \<noteq> ''selfhosted''
      \<and> \<not> no_envelope (lr_resume_state r) \<and> pv_has_client pv \<and> pv_delete pv
      \<and> (\<exists>st. attachBox pv (the (lr_resume_state r)) = Attached st s)
      \<and> bs_persist s = Some (Returned (Some b)) \<and> b \<noteq> []"

lemma terminate_capturable:
  assumes "capturable pv r s b"
  shows "terminateProviderBox cd pv env persist (mapLeaseRow r) w = stopAttached cd pv env persist s w"
  using assms
  by (auto simp: terminateProviderBox_def capturable_def mapLeaseRow_def Let_def split: option.splits)

lemma stop_capturable:
  assumes c: "capturable pv r s b"
    and passed: "dp_wrote (fence_result nowText ws grp e (Some (cd_to_base64 cd b)) (meanwhile (env 0) w))"
  shows "\<exists>w1. stopAttached cd pv env (persistArchive nowText ws grp e) s w = (w1, Inr True)
    \<and> rw_db w1 = env 1 ((env 0 (rw_db w))\<lparr>mt_leases := fst (persistDrainSnapshot nowText ws grp e (Some (cd_to_base64 cd b))
          (mt_leases (env 0 (rw_db w))))\<rparr>)
    \<and> (\<exists>images. rw_log w1 = rw_log w @ [BoxAttached, WorkspaceCaptured b, ArchiveFenced (Some (cd_to_base64 cd b)) True]
          @ images @ [BoxStopped] \<and> image_events images)"
proof -
  let ?a = "Some (cd_to_base64 cd b)"
  let ?w0 = "logged (WorkspaceCaptured b) (meanwhile (env 0) (logged BoxAttached w))"
  let ?r = "fence_result nowText ws grp e ?a ?w0"
  let ?w1 = "fst (persistArchive nowText ws grp e ?a ?w0)"
  have r: "?r = fence_result nowText ws grp e ?a (meanwhile (env 0) w)" by (simp add: fence_result_def)
  obtain images where i: "rw_log (deletePriorPersistedSnapshot cd s (dp_prior_archive_prev ?r)
      (deletePriorPersistedSnapshot cd s (dp_prior_archive ?r) ?w1)) = rw_log ?w1 @ images" "image_events images"
    using deletePrior_both_log by blast
  have b: "truthy (Some b) = Some b" and p: "bs_persist s = Some (Returned (Some b))" and d: "pv_delete pv"
    using c by (auto simp: capturable_def truthy_def)
  let ?w2 = "stopBox pv s (meanwhile (env 1) (deletePriorPersistedSnapshot cd s (dp_prior_archive_prev ?r)
      (deletePriorPersistedSnapshot cd s (dp_prior_archive ?r) ?w1)))"
  have "stopCaptured cd pv env (persistArchive nowText ws grp e) s (Some b) ?w0 = (?w2, True)"
    using passed by (simp add: stopCaptured_def b persistArchive_eq Let_def r)
  then have "stopAttached cd pv env (persistArchive nowText ws grp e) s w = (?w2, Inr True)"
    by (simp add: stopAttached_def p b Let_def)
  moreover have "stop_calls pv s = [BoxStopped]" using d by (simp add: stop_calls_def)
  moreover have "rw_db ?w2 = env 1 ((env 0 (rw_db w))\<lparr>mt_leases := fst (persistDrainSnapshot nowText ws grp e ?a
      (mt_leases (env 0 (rw_db w))))\<rparr>)" by (simp add: persistArchive_eq)
  moreover have "rw_log ?w1 = rw_log w @ [BoxAttached, WorkspaceCaptured b, ArchiveFenced ?a True]"
    using passed by (simp add: persistArchive_eq r)
  ultimately show ?thesis using i by auto
qed

lemma drain_fence_row:
  assumes "find_lease ws grp ls = Some r" "drain_fence ws grp e r"
  shows "lr_liveness r = Draining \<and> lr_refcount r = 0 \<and> lr_epoch r = e"
  using assms by (simp add: drain_fence_def epoch_fence_def)

lemma fence_passes:
  assumes "lease_inv (mt_leases (rw_db w))" "find_lease ws grp (mt_leases (rw_db w)) = Some r" "drain_fence ws grp e r"
  shows "dp_wrote (fence_result nowText ws grp e (Some a) w)"
  using persistDrain_archive [OF assms] by (simp add: fence_result_def)

subsection \<open>The orphan sweep\<close>

definition orphan_inv :: "modal_api \<Rightarrow> int \<Rightarrow> int \<Rightarrow> live_lease list \<Rightarrow> orphan_result \<Rightarrow> bool" where
  "orphan_inv api nowMs grace live res \<longleftrightarrow>
     (\<forall>i. OrphanStopped i \<in> set (or_log res) \<longleftrightarrow> i \<in> fst ` set (or_terminated res)) \<and>
     (\<forall>(i, reason) \<in> set (or_terminated res). \<exists>info n t. info \<in> set (ma_list api n t) \<and> si_id info = i
        \<and> (i = [] \<or> liveByInstanceId live i = None) \<and> orphanReason nowMs grace live info = Some reason)"

lemma sweepBox_inv:
  assumes "orphan_inv api nowMs grace live res" "info \<in> set (ma_list api n t)"
  shows "orphan_inv api nowMs grace live (sweepBox api nowMs grace live info res)
    \<and> length (or_terminated (sweepBox api nowMs grace live info res)) \<le> Suc (length (or_terminated res))"
  using assms by (auto simp: orphan_inv_def sweepBox_def Let_def split: option.splits if_splits)

lemma sweepPage_inv:
  "orphan_inv api nowMs grace live res \<Longrightarrow> set infos \<subseteq> set (ma_list api n t) \<Longrightarrow> length (or_terminated res) < limit \<Longrightarrow>
   orphan_inv api nowMs grace live (sweepPage api limit nowMs grace live infos res)
   \<and> length (or_terminated (sweepPage api limit nowMs grace live infos res)) \<le> limit"
proof (induction infos arbitrary: res)
  case (Cons info infos)
  have "info \<in> set (ma_list api n t)" using Cons.prems(2) by simp
  from sweepBox_inv [OF Cons.prems(1) this] Cons show ?case by (simp add: Let_def)
qed simp

lemma sweepPages_inv:
  "sweepPages fuel api limit nowMs grace live n before res = Some res' \<Longrightarrow> orphan_inv api nowMs grace live res \<Longrightarrow>
   length (or_terminated res) \<le> limit \<Longrightarrow> orphan_inv api nowMs grace live res' \<and> length (or_terminated res') \<le> limit"
proof (induction fuel arbitrary: n before res)
  case (Suc fuel)
  have "orphan_inv api nowMs grace live (sweepPage api limit nowMs grace live (ma_list api n before) res)
      \<and> length (or_terminated (sweepPage api limit nowMs grace live (ma_list api n before) res)) \<le> limit"
    if "length (or_terminated res) < limit"
    using sweepPage_inv [OF Suc.prems(2) order_refl that] .
  with Suc.prems Suc.IH show ?case by (auto simp: Let_def split: if_splits option.splits)
qed simp

lemma sweep_orphan_inv:
  assumes "sweepModalOrphanSandboxes fuel api nowMs live = Some res"
  shows "orphan_inv api nowMs UNATTRIBUTED_ORPHAN_GRACE_MS live res \<and> length (or_terminated res) \<le> ORPHAN_SWEEP_LIMIT"
proof -
  have none: "orphan_inv api nowMs UNATTRIBUTED_ORPHAN_GRACE_MS live nothing_swept" "or_terminated nothing_swept = []"
    by (simp_all add: orphan_inv_def nothing_swept_def)
  then show ?thesis
    using assms sweepPages_inv [OF _ none(1)] by (auto simp: sweepModalOrphanSandboxes_def split: if_splits)
qed

lemma live_instance_guarded:
  assumes "r \<in> set (leases ls)" "live_modal r" "lr_instance_id r = Some i" "i \<noteq> []"
  shows "liveByInstanceId (listLiveModalSandboxLeaseAttributions ls) i \<noteq> None"
proof -
  let ?live = "listLiveModalSandboxLeaseAttributions ls"
  have "\<exists>l \<in> set ?live. ll_instance_id l = Some i"
    using assms by (force simp: listLiveModalSandboxLeaseAttributions_def set_select_where)
  then have "i \<in> fst ` set (List.map_filter (\<lambda>l. map_option (\<lambda>i. (i, l)) (truthy (ll_instance_id l))) ?live)"
    using assms(4) by (force simp: List.map_filter_def truthy_def image_iff)
  then show ?thesis by (simp add: liveByInstanceId_def map_of_eq_None_iff)
qed

subsection \<open>Properties\<close>

text \<open>
  C21: the reaper stops a provider box only when it is not a user's machine, the lease was draining at the
  observed epoch with no holder both when it was read and when the archive was written, and the box's
  workspace had been captured and written to the lease, or there was nothing to capture. A failed capture
  stops nothing.
\<close>

theorem reaper_stops_only_saved_boxes:
  assumes "terminateDrainableBox cd pv env nowText (ws, grp, e) w = (w', res)"
    and "rw_log w' = rw_log w @ evs" "BoxStopped \<in> set evs" and "lease_inv (mt_leases (env 0 (rw_db w)))"
  shows "\<exists>r0 r1 pre archive images post.
    find_lease ws grp (mt_leases (rw_db w)) = Some r0 \<and> lr_backend r0 \<noteq> ''selfhosted''
    \<and> lr_resume_backend_id r0 \<noteq> Some ''selfhosted''
    \<and> find_lease ws grp (mt_leases (env 0 (rw_db w))) = Some r1 \<and> drain_fence ws grp e r1
    \<and> evs = pre @ ArchiveFenced archive True # images @ BoxStopped # post \<and> BoxStopped \<notin> set (pre @ images)
    \<and> (case archive of
         None \<Rightarrow> nothing_to_save pv (lr_resume_state r0)
       | Some a \<Rightarrow> (\<exists>b. b \<noteq> [] \<and> a = cd_to_base64 cd b \<and> WorkspaceCaptured b \<in> set pre)
           \<and> map_option lease_archive (find_lease ws grp (fst (persistDrainSnapshot nowText ws grp e archive
                 (mt_leases (env 0 (rw_db w)))))) = Some (Some a))"
proof -
  from terminateDrainableBox_saved [OF assms(1-3)] obtain r0 pre archive images post
    where r0: "find_lease ws grp (mt_leases (rw_db w)) = Some r0" "lr_backend r0 \<noteq> ''selfhosted''"
        "lr_resume_backend_id r0 \<noteq> Some ''selfhosted''"
      and evs: "evs = pre @ ArchiveFenced archive True # images @ BoxStopped # post"
      and sv: "saved cd pv (lr_resume_state r0) pre archive" and im: "image_events images"
      and wrote: "dp_wrote (fence_result nowText ws grp e archive (meanwhile (env 0) w))"
    unfolding stopped_saved_def by blast
  from fence_passed [OF wrote] assms(4) obtain r1
    where r1: "find_lease ws grp (mt_leases (env 0 (rw_db w))) = Some r1" "drain_fence ws grp e r1" by auto
  have "map_option lease_archive (find_lease ws grp (fst (persistDrainSnapshot nowText ws grp e (Some a)
      (mt_leases (env 0 (rw_db w)))))) = Some (Some a)" for a
    using persistDrain_archive [OF assms(4) r1, of nowText a] by (auto simp: lease_archive_def jtext_def)
  moreover have "BoxStopped \<notin> set (pre @ images)" using sv im by (auto simp: saved_def image_events_def)
  ultimately show ?thesis
    using r0 r1 evs sv by (intro exI [of _ r0] exI [of _ r1] exI [of _ pre] exI [of _ archive] exI [of _ images] exI [of _ post])
      (auto simp: saved_def split: option.splits)
qed

definition demo_envelope :: json where
  "demo_envelope = JObj [(''sessionState'', JObj [(''providerState'', JObj [(''sandboxId'', JStr ''i'')])])]"

definition demo_parked :: "lease_op list" where
  "demo_parked = [OpAcquire 0 ''l'' (demo_acquire TurnHolder ''t''),
     OpCommit 2 ((demo_commit 0)\<lparr>ci_resume_state := Some demo_envelope, ci_resume_backend_id := Some ''modal''\<rparr>),
     OpRelease 3 ''w'' ''g'' TurnHolder ''t'' 5]"

definition demo_session :: box_session where
  "demo_session = \<lparr>bs_persist = Some (Returned (Some ''tar'')), bs_delete_image = None, bs_kill = False,
     bs_terminate = False, bs_close = False, bs_closed = False\<rparr>"

definition demo_provider :: provider where
  "demo_provider = \<lparr>pv_has_client = True, pv_backend_id = ''modal'', pv_resumable = True,
     pv_deserialize = (\<lambda>fs. Returned (Some (JObj fs))), pv_resume = (\<lambda>st. Returned demo_session), pv_delete = True,
     pv_terminate_by_id = (\<lambda>i. Returned ())\<rparr>"

definition demo_codec :: codec where
  "demo_codec = \<lparr>cd_to_base64 = (\<lambda>s. ''b64:'' @ s), cd_from_base64 = drop 4, cd_parse = (\<lambda>s. None)\<rparr>"

definition demo_reaper :: reaper_state where
  "demo_reaper = \<lparr>rw_db = \<lparr>mt_leases = run_ops lease_step demo_parked lease_empty, mt_usage = [], mt_ledger = []\<rparr>, rw_log = []\<rparr>"

definition demo_lease :: lease_row where
  "demo_lease = hd (leases (mt_leases (rw_db demo_reaper)))"

lemma demo_reaper_facts:
  "lease_inv (mt_leases (rw_db demo_reaper))"
  "find_lease ''w'' ''g'' (mt_leases (rw_db demo_reaper)) = Some demo_lease"
  "drain_fence ''w'' ''g'' 1 demo_lease" "capturable demo_provider demo_lease demo_session ''tar''"
  "''z'' \<notin> lr_id ` set (leases (mt_leases (rw_db demo_reaper)))"
proof -
  have "admissible lease_step fresh_ids demo_parked lease_empty" by code_simp
  from lease_run.run_inv [OF lease_inv_empty this] show "lease_inv (mt_leases (rw_db demo_reaper))"
    by (simp add: demo_reaper_def)
  show "find_lease ''w'' ''g'' (mt_leases (rw_db demo_reaper)) = Some demo_lease" by code_simp
  show "drain_fence ''w'' ''g'' 1 demo_lease" by code_simp
  have env: "lr_resume_state demo_lease = Some demo_envelope" by code_simp
  have "attachBox demo_provider (the (lr_resume_state demo_lease)) = Attached (JObj [(''sandboxId'', JStr ''i'')]) demo_session"
    unfolding env
    by (simp add: attachBox_def demo_provider_def demo_envelope_def deserializeSandboxSessionStateEnvelope_def
        set_or_drop_def set_if_def Let_def)
  moreover have "lr_resume_backend_id demo_lease = Some ''modal''" "lr_backend demo_lease = ''modal''"
      "\<not> no_envelope (lr_resume_state demo_lease)"
    by code_simp+
  ultimately show "capturable demo_provider demo_lease demo_session ''tar''"
    by (auto simp: capturable_def demo_provider_def demo_session_def)
  show "''z'' \<notin> lr_id ` set (leases (mt_leases (rw_db demo_reaper)))" by code_simp
qed

lemma reaper_stops_only_saved_boxes_witness:
  "\<exists>pre a images post b. rw_log (fst (terminateDrainableBox demo_codec demo_provider (\<lambda>i db. db) ''now'' (''w'', ''g'', 1) demo_reaper))
      = pre @ ArchiveFenced (Some a) True # images @ BoxStopped # post \<and> a = ''b64:'' @ b \<and> WorkspaceCaptured b \<in> set pre"
proof -
  let ?run = "terminateDrainableBox demo_codec demo_provider (\<lambda>i db. db) ''now'' (''w'', ''g'', 1) demo_reaper"
  obtain w' res where run: "?run = (w', res)" by (cases ?run) auto
  have "BoxStopped \<in> set (rw_log (fst ?run))" by code_simp
  moreover have "rw_log demo_reaper = []" by (simp add: demo_reaper_def)
  ultimately have l: "rw_log w' = rw_log demo_reaper @ rw_log w'" "BoxStopped \<in> set (rw_log w')"
    using run by simp_all
  have none: "\<not> nothing_to_save demo_provider (lr_resume_state demo_lease)"
    using demo_reaper_facts(4) by (auto simp: nothing_to_save_def capturable_def truthy_def)
  from reaper_stops_only_saved_boxes [OF run l demo_reaper_facts(1)] obtain r0 pre archive images post
    where "find_lease ''w'' ''g'' (mt_leases (rw_db demo_reaper)) = Some r0"
      and shape: "rw_log w' = pre @ ArchiveFenced archive True # images @ BoxStopped # post"
      and cases: "case archive of None \<Rightarrow> nothing_to_save demo_provider (lr_resume_state r0)
        | Some a \<Rightarrow> (\<exists>b. b \<noteq> [] \<and> a = cd_to_base64 demo_codec b \<and> WorkspaceCaptured b \<in> set pre)
            \<and> map_option lease_archive (find_lease ''w'' ''g'' (fst (persistDrainSnapshot ''now'' ''w'' ''g'' 1 archive
                 (mt_leases (rw_db demo_reaper))))) = Some (Some a)" by blast
  then have "r0 = demo_lease" using demo_reaper_facts(2) by simp
  with none cases obtain a b where "archive = Some a" "a = ''b64:'' @ b" "WorkspaceCaptured b \<in> set pre"
    by (cases archive) (auto simp: demo_codec_def)
  with shape run show ?thesis by (metis fst_conv)
qed

text \<open>
  When nobody else touches the lease, a drained box's workspace is handed on: the row goes cold
  carrying the captured archive, the event says it was persisted, and the next caller to acquire the
  group spawns from that archive.
\<close>

theorem drained_workspace_reaches_next_spawner:
  assumes inv: "lease_inv (mt_leases (rw_db w))" and r: "find_lease ws grp (mt_leases (rw_db w)) = Some r"
    and fence: "drain_fence ws grp e r" and c: "capturable pv r s b"
    and key: "(ai_workspace_id inp, ai_group_id inp) = (ws, grp)"
    and new: "newId \<notin> lr_id ` set (leases (mt_leases (rw_db w)))"
  shows "case terminateDrainableBox cd pv (\<lambda>_ db. db) nowText (ws, grp, e) w of (w', res) \<Rightarrow>
    res = Inr True \<and> BoxStopped \<in> set (rw_log w') \<and> last (rw_log w') = TerminatedEvent ws grp True (lr_instance_id r)
    \<and> map_option lr_liveness (find_lease ws grp (mt_leases (rw_db w'))) = Some Cold
    \<and> (\<exists>db3 snap r3. acquireLease now newId inp (mt_leases (rw_db w')) = Inr (db3, Spawner, snap)
        \<and> find_lease ws grp db3 = Some r3 \<and> lease_archive r3 = Some (cd_to_base64 cd b))"
proof -
  let ?env = "\<lambda>(_::nat) (db::meter_db). db"
  let ?a = "cd_to_base64 cd b"
  let ?ls = "mt_leases (rw_db w)"
  let ?ls1 = "fst (persistDrainSnapshot nowText ws grp e (Some ?a) ?ls)"
  let ?ls2 = "fst (confirmDrainCold ws grp e ?ls1)"
  have inv1: "lease_inv ?ls1" and inv2: "lease_inv ?ls2"
    using lease_step_inv [OF inv, of "OpPersistDrain nowText ws grp e (Some ?a)"]
      lease_step_inv [of ?ls1 "OpConfirmCold ws grp e"] by (simp_all add: fresh_ids_def)
  from persistDrain_archive [OF inv r fence, of nowText ?a] obtain r1
    where r1: "find_lease ws grp ?ls1 = Some r1" "drain_fence ws grp e r1"
      "archive_path ''workspaceArchive'' (lr_resume_state r1) = Some (JStr ?a)" by auto
  from confirm_archive [OF inv1 r1] obtain r2
    where r2: "snd (confirmDrainCold ws grp e ?ls1)" "find_lease ws grp ?ls2 = Some r2" "lr_liveness r2 = Cold"
      "archive_path ''workspaceArchive'' (lr_resume_state r2) = Some (JStr ?a)" by auto
  have "dp_wrote (fence_result nowText ws grp e (Some ?a) (meanwhile (?env 0) w))"
    by (rule fence_passes) (use inv r fence in simp_all)
  from stop_capturable [OF c this] obtain w1 images
    where t: "terminateProviderBox cd pv ?env (persistArchive nowText ws grp e) (mapLeaseRow r) w = (w1, Inr True)"
      and w1: "rw_db w1 = (rw_db w)\<lparr>mt_leases := ?ls1\<rparr>"
        "rw_log w1 = rw_log w @ [BoxAttached, WorkspaceCaptured b, ArchiveFenced (Some ?a) True] @ images @ [BoxStopped]"
    unfolding terminate_capturable [OF c] by auto
  have d: "ls_liveness (mapLeaseRow r) = Draining" "ls_refcount (mapLeaseRow r) = 0" "ls_epoch (mapLeaseRow r) = e"
      "ls_instance_id (mapLeaseRow r) = lr_instance_id r"
    using drain_fence_row [OF r fence] by (simp_all add: mapLeaseRow_def)
  have "terminateDrainableBox cd pv ?env nowText (ws, grp, e) w
      = (logged (TerminatedEvent ws grp True (lr_instance_id r)) (with_leases ?ls2 (meanwhile (?env 2) w1)), Inr True)"
    using r d t w1 r2(1) by (simp add: terminateDrainableBox_def readLease_def Let_def split_beta archived_def)
  moreover have "find_lease (ai_workspace_id inp) (ai_group_id inp) (materializeLease now newId inp ?ls2) = Some r2"
    using r2(2) key by (simp add: find_lease_materialize)
  moreover have "map lr_id (leases ?ls2) = map lr_id (leases ?ls)"
    by (simp add: confirmDrainCold_def persistDrainSnapshot_def foldWorkspaceArchiveOntoLease_def
        updateFenced_def split_beta map_update_where split: option.splits)
  then have "newId \<notin> lr_id ` set (leases ?ls2)" using new by (metis list.set_map)
  ultimately show ?thesis
    using acquire_cold [OF inv2, of newId inp now r2] r2 key w1 by (auto simp: lease_archive_def jtext_def)
qed

lemma drained_workspace_reaches_next_spawner_witness:
  "\<exists>db3 snap r3. acquireLease 50 ''z'' (demo_acquire TurnHolder ''t2'') (mt_leases (rw_db (fst
       (terminateDrainableBox demo_codec demo_provider (\<lambda>i db. db) ''now'' (''w'', ''g'', 1) demo_reaper)))) = Inr (db3, Spawner, snap)
     \<and> find_lease ''w'' ''g'' db3 = Some r3 \<and> lease_archive r3 = Some ''b64:tar''"
  using drained_workspace_reaches_next_spawner [OF demo_reaper_facts(1-4), where inp = "demo_acquire TurnHolder ''t2''"
      and newId = "''z''" and now = 50 and nowText = "''now''" and cd = demo_codec] demo_reaper_facts(5)
  by (auto simp: demo_acquire_def demo_codec_def split: prod.splits)

text \<open>
  Nothing guards the time between the fence and the provider call. An acquire that re-arms the lease
  there is told it holds a warm box at the same epoch and instance, and the reaper stops that box.
\<close>

theorem late_rearm_loses_box:
  assumes inv: "lease_inv (mt_leases (rw_db w))" and r: "find_lease ws grp (mt_leases (rw_db w)) = Some r"
    and fence: "drain_fence ws grp e r" and c: "capturable pv r s b"
    and key: "(ai_workspace_id inp, ai_group_id inp) = (ws, grp)"
    and new: "newId \<notin> lr_id ` set (leases (mt_leases (rw_db w)))"
    and rearm: "acquireLease now newId inp (fst (persistDrainSnapshot nowText ws grp e (Some (cd_to_base64 cd b))
           (mt_leases (rw_db w)))) = Inr (ls2, Rearmed, snap)"
  shows "case terminateDrainableBox cd pv (\<lambda>i db. if i = 1 then db\<lparr>mt_leases := ls2\<rparr> else db) nowText (ws, grp, e) w of
      (w', res) \<Rightarrow> res = Inr False \<and> last (rw_log w') = BoxStopped
        \<and> (\<exists>r'. find_lease ws grp (mt_leases (rw_db w')) = Some r' \<and> lr_liveness r' = Warm
             \<and> lr_epoch r' = e \<and> lr_instance_id r' = lr_instance_id r)"
proof -
  let ?env = "\<lambda>(i::nat) db. if i = 1 then db\<lparr>mt_leases := ls2\<rparr> else db"
  let ?a = "cd_to_base64 cd b"
  let ?ls = "mt_leases (rw_db w)"
  let ?ls1 = "fst (persistDrainSnapshot nowText ws grp e (Some ?a) ?ls)"
  have inv1: "lease_inv ?ls1"
    using lease_step_inv [OF inv, of "OpPersistDrain nowText ws grp e (Some ?a)"] by (simp add: fresh_ids_def)
  have "map lr_id (leases ?ls1) = map lr_id (leases ?ls)"
    by (simp add: persistDrainSnapshot_def foldWorkspaceArchiveOntoLease_def updateFenced_def map_update_where split: option.splits)
  then have new1: "newId \<notin> lr_id ` set (leases ?ls1)" using new by (metis list.set_map)
  have w0: "dp_wrote (fence_result nowText ws grp e (Some ?a) (meanwhile (?env 0) w))"
    by (rule fence_passes) (use inv r fence in simp_all)
  from stop_capturable [OF c, where env = ?env, OF w0] obtain w1 images
    where t: "terminateProviderBox cd pv ?env (persistArchive nowText ws grp e) (mapLeaseRow r) w = (w1, Inr True)"
      and w1: "mt_leases (rw_db w1) = ls2"
        "rw_log w1 = rw_log w @ [BoxAttached, WorkspaceCaptured b, ArchiveFenced (Some ?a) True] @ images @ [BoxStopped]"
    unfolding terminate_capturable [OF c] by auto
  have "fst (persistDrainSnapshot nowText ws grp e (Some ?a) ?ls)
      = foldWorkspaceArchiveOntoLease (drain_fence ws grp e) ?a nowText None ?ls"
    using drain_fence_find [OF inv r fence] by (simp add: persistDrainSnapshot_def)
  then have r1: "\<exists>r1. find_lease ws grp ?ls1 = Some r1 \<and> lr_epoch r1 = e \<and> lr_instance_id r1 = lr_instance_id r"
    using r fence drain_fence_row [OF r fence] by simp
  from acquireLease_effect [OF inv1 new1 rearm] r1 key
  have r2: "\<exists>r'. find_lease ws grp ls2 = Some r' \<and> lr_liveness r' = Warm \<and> lr_epoch r' = e \<and> lr_instance_id r' = lr_instance_id r"
    by (auto simp: acquire_effect_def find_lease_materialize)
  have miss: "confirmDrainCold ws grp e ls2 = (ls2, False)"
    using rearm_defeats_drain [OF inv1 new1 rearm] key by simp
  have d: "ls_liveness (mapLeaseRow r) = Draining" "ls_refcount (mapLeaseRow r) = 0" "ls_epoch (mapLeaseRow r) = e"
    using drain_fence_row [OF r fence] by (simp_all add: mapLeaseRow_def)
  have m: "meanwhile (?env 2) w1 = w1" by (simp add: meanwhile_def)
  have "terminateDrainableBox cd pv ?env nowText (ws, grp, e) w = (with_leases ls2 w1, Inr False)"
    using r d t miss w1(1) by (simp add: terminateDrainableBox_def readLease_def Let_def m)
  with w1 r2 show ?thesis by simp
qed

definition demo_rearm :: "lease_error + lease_db \<times> acquire_role \<times> lease_snapshot" where
  "demo_rearm = acquireLease 5 ''z'' (demo_acquire TurnHolder ''t2'')
     (fst (persistDrainSnapshot ''now'' ''w'' ''g'' 1 (Some (cd_to_base64 demo_codec ''tar'')) (mt_leases (rw_db demo_reaper))))"

lemma late_rearm_loses_box_witness:
  "case terminateDrainableBox demo_codec demo_provider (\<lambda>i db. if i = 1 then db\<lparr>mt_leases := fst (projr demo_rearm)\<rparr> else db)
       ''now'' (''w'', ''g'', 1) demo_reaper of (w', res) \<Rightarrow>
     res = Inr False \<and> last (rw_log w') = BoxStopped
     \<and> (\<exists>r'. find_lease ''w'' ''g'' (mt_leases (rw_db w')) = Some r' \<and> lr_liveness r' = Warm)"
proof -
  have "case demo_rearm of Inl x \<Rightarrow> False | Inr (ls, role, snap) \<Rightarrow> role = Rearmed" by code_simp
  then obtain ls snap where r: "demo_rearm = Inr (ls, Rearmed, snap)" by (auto split: sum.splits prod.splits)
  have k: "(ai_workspace_id (demo_acquire TurnHolder ''t2''), ai_group_id (demo_acquire TurnHolder ''t2'')) = (''w'', ''g'')"
    by (simp add: demo_acquire_def)
  have p: "fst (projr demo_rearm) = ls" by (simp add: r)
  from late_rearm_loses_box [OF demo_reaper_facts(1-4) k demo_reaper_facts(5) r [unfolded demo_rearm_def]]
  show ?thesis unfolding p by (auto split: prod.splits)
qed

text \<open>
  C22: the orphan sweep reads the live leases, then lists and stops boxes while other writers change the
  tables (it changes none itself). It stops at most fifty boxes, and never one (with an id) that a live
  lease ran on when the leases were read, so none that a lease keeps throughout; a box started for a cold
  lease after the read is not spared (\<open>orphan_sweep_stops_new_box\<close>, \<^verbatim>\<open>sandbox-lease.ts:438\<close>). It stops a box
  without complete tags only after half an hour, and a tagged one only when its lease was not live or ran
  on another box at the read.
\<close>

theorem orphan_sweep_spares_live_boxes:
  assumes "sweepOrphans fuel st wd w = Some (w', n)" "rw_log w' = rw_log w @ evs"
  shows "rw_db w' = (if rs_modal st then wd_env wd 3 1 (rw_db w) else rw_db w) \<and> n \<le> 50 \<and>
    (\<forall>i. OrphanStopped i \<in> set evs \<longrightarrow>
       (i \<noteq> [] \<longrightarrow> (\<forall>r \<in> set (leases (mt_leases (rw_db w))). live_modal r \<longrightarrow> lr_instance_id r \<noteq> Some i)) \<and>
       (\<exists>info k t. info \<in> set (ma_list (wd_modal wd) k t) \<and> si_id info = i \<and>
          (case attribution info of
             None \<Rightarrow> \<exists>born. sandboxCreatedAtMs info = Some born \<and> born + 30 * 60000 \<le> wd_now wd
           | Some (l, ws, grp) \<Rightarrow>
               (case liveByAttribution (listLiveModalSandboxLeaseAttributions (mt_leases (rw_db w))) (attributionKey l ws grp) of
                  None \<Rightarrow> True | Some x \<Rightarrow> \<exists>j. j \<noteq> i \<and> ll_instance_id x = Some j))))"
proof (cases "rs_modal st")
  case False
  with assms show ?thesis by (auto simp: sweepOrphans_def)
next
  case True
  let ?live = "listLiveModalSandboxLeaseAttributions (mt_leases (rw_db w))"
  obtain res where res: "sweepModalOrphanSandboxes fuel (wd_modal wd) (wd_now wd) ?live = Some res"
      and w': "w' = meanwhile (wd_env wd 3 1) (w\<lparr>rw_log := rw_log w @ or_log res\<rparr>)" "n = length (or_terminated res)"
    using assms(1) True by (auto simp: sweepOrphans_def split: option.splits)
  from sweep_orphan_inv [OF res] have inv: "orphan_inv (wd_modal wd) (wd_now wd) UNATTRIBUTED_ORPHAN_GRACE_MS ?live res"
    and le: "n \<le> 50" using w'(2) by (simp_all add: ORPHAN_SWEEP_LIMIT_def)
  have evs: "evs = or_log res" using assms(2) w'(1) by (simp add: meanwhile_def)
  show ?thesis
  proof (intro conjI allI impI)
    show "rw_db w' = (if rs_modal st then wd_env wd 3 1 (rw_db w) else rw_db w)" "n \<le> 50"
      using w'(1) le True by (simp_all add: meanwhile_def)
  next
    fix i assume "OrphanStopped i \<in> set evs"
    with inv evs obtain reason info k t where t: "info \<in> set (ma_list (wd_modal wd) k t)" "si_id info = i"
        "i = [] \<or> liveByInstanceId ?live i = None" "orphanReason (wd_now wd) UNATTRIBUTED_ORPHAN_GRACE_MS ?live info = Some reason"
      unfolding orphan_inv_def by fastforce
    show "\<forall>r \<in> set (leases (mt_leases (rw_db w))). live_modal r \<longrightarrow> lr_instance_id r \<noteq> Some i" if "i \<noteq> []"
      using t(3) that live_instance_guarded by metis
    have "case attribution info of
             None \<Rightarrow> \<exists>born. sandboxCreatedAtMs info = Some born \<and> born + 30 * 60000 \<le> wd_now wd
           | Some (l, ws, grp) \<Rightarrow> (case liveByAttribution ?live (attributionKey l ws grp) of
                  None \<Rightarrow> True | Some x \<Rightarrow> \<exists>j. j \<noteq> i \<and> ll_instance_id x = Some j)"
      using t(2,4)
      by (auto simp: orphanReason_def UNATTRIBUTED_ORPHAN_GRACE_MS_def truthy_def split: option.splits if_splits)
    with t(1,2) show "\<exists>info k t. info \<in> set (ma_list (wd_modal wd) k t) \<and> si_id info = i \<and>
          (case attribution info of
             None \<Rightarrow> \<exists>born. sandboxCreatedAtMs info = Some born \<and> born + 30 * 60000 \<le> wd_now wd
           | Some (l, ws, grp) \<Rightarrow> (case liveByAttribution ?live (attributionKey l ws grp) of
                  None \<Rightarrow> True | Some x \<Rightarrow> \<exists>j. j \<noteq> i \<and> ll_instance_id x = Some j))" by blast
  qed
qed

definition demo_box :: "string \<Rightarrow> rat \<Rightarrow> (string option \<times> string option) list \<Rightarrow> sandbox_info" where
  "demo_box i t tags = \<lparr>si_id = i, si_created_at = Some t, si_tags = tags\<rparr>"

definition demo_modal :: "sandbox_info list \<Rightarrow> modal_api" where
  "demo_modal boxes = \<lparr>ma_app_id = Some ''app'',
     ma_list = (\<lambda>n t. filter (\<lambda>b. case t of None \<Rightarrow> True | Some v \<Rightarrow> (case si_created_at b of Some u \<Rightarrow> u < v | None \<Rightarrow> False)) boxes),
     ma_terminate = (\<lambda>i. True)\<rparr>"

definition demo_settings :: reaper_settings where
  "demo_settings = \<lparr>rs_ownership_enabled = True, rs_viewer_ttl = 10, rs_warming_timeout = 100, rs_lease_ttl = 90,
     rs_drain = \<lparr>ds_enforce_balance = False, ds_max_warm_seconds = 0, ds_cap_window_start = 0, ds_idle_grace_ms = 5\<rparr>, rs_modal = True\<rparr>"

definition demo_world :: "sandbox_info list \<Rightarrow> reaper_world" where
  "demo_world boxes = \<lparr>wd_now = 9000000, wd_now_text = ''now'', wd_rate = (\<lambda>b. 1), wd_account = (\<lambda>ws. ''a''), wd_codec = demo_codec,
     wd_provider = (\<lambda>row. demo_provider), wd_modal = demo_modal boxes, wd_env = (\<lambda>p i db. db)\<rparr>"

text \<open>Removing every lease while the boxes are listed changes nothing for this sweep.\<close>

definition demo_racing :: "sandbox_info list \<Rightarrow> reaper_world" where
  "demo_racing boxes = (demo_world boxes)\<lparr>wd_env := (\<lambda>p i db. db\<lparr>mt_leases := lease_empty\<rparr>)\<rparr>"

lemma orphan_sweep_spares_live_boxes_witness:
  "let boxes = [demo_box ''i'' 2 [], demo_box ''old'' 1 []] in
   \<exists>w' n. sweepOrphans 3 demo_settings (demo_racing boxes) demo_reaper = Some (w', n)
     \<and> n = 1 \<and> OrphanStopped ''i'' \<notin> set (rw_log w') \<and> mt_leases (rw_db w') = lease_empty"
proof -
  let ?boxes = "[demo_box ''i'' 2 [], demo_box ''old'' 1 []]"
  let ?run = "sweepOrphans 3 demo_settings (demo_racing ?boxes) demo_reaper"
  have "map_option snd ?run = Some 1" by code_simp
  then obtain w' where run: "?run = Some (w', 1)" by auto
  have l: "rw_log w' = rw_log demo_reaper @ rw_log w'" by (simp add: demo_reaper_def)
  have "\<exists>r \<in> set (leases (mt_leases (rw_db demo_reaper))). live_modal r \<and> lr_instance_id r = Some ''i''" by code_simp
  with orphan_sweep_spares_live_boxes [OF run l]
  have "OrphanStopped ''i'' \<notin> set (rw_log w')" "mt_leases (rw_db w') = lease_empty"
    by (fastforce, simp add: demo_racing_def demo_settings_def)
  with run show ?thesis by (simp add: Let_def)
qed

text \<open>
  The live leases are read before the provider's boxes are listed, so a box that was created and tagged
  in between for a lease that was cold at the read is taken for an orphan and stopped.
\<close>

theorem orphan_sweep_stops_new_box:
  assumes cold: "find_lease ws grp ls = Some r0" "lr_liveness r0 = Cold" and inv: "lease_inv ls"
    and started: "find_lease ws grp (run_ops lease_step ops ls) = Some r1" "live_modal r1" "lr_instance_id r1 = Some i" "i \<noteq> []"
    and fresh: "\<forall>r \<in> set (leases ls). lr_instance_id r \<noteq> Some i"
    and keys: "\<forall>r \<in> set (leases ls). attributionKey (lr_id r) (lr_workspace_id r) (lr_group_id r) = attributionKey lid ws grp \<longrightarrow> r = r0"
    and listed: "ma_app_id api = Some app" "app \<noteq> []" "ma_list api 0 None = info # infos" "si_id info = i"
      "attribution info = Some (lid, ws, grp)" "ma_terminate api i"
    and swept: "sweepModalOrphanSandboxes fuel api nowMs (listLiveModalSandboxLeaseAttributions ls) = Some res"
  shows "(i, StaleAttribution) \<in> set (or_terminated res) \<and> lease_abs ws grp (run_ops lease_step ops ls) \<noteq> None
    \<and> (\<exists>r. find_lease ws grp (run_ops lease_step ops ls) = Some r \<and> lr_liveness r \<noteq> Cold \<and> lr_instance_id r = Some i)"
proof -
  let ?live = "listLiveModalSandboxLeaseAttributions ls"
  let ?grace = UNATTRIBUTED_ORPHAN_GRACE_MS
  have "liveByInstanceId ?live i = None"
    using fresh
    by (auto simp: liveByInstanceId_def map_of_eq_None_iff List.map_filter_def listLiveModalSandboxLeaseAttributions_def
        set_select_where truthy_def split: option.splits if_splits)
  moreover have "liveByAttribution ?live (attributionKey lid ws grp) = None"
    using keys cold(2)
    by (auto simp: liveByAttribution_def map_of_eq_None_iff listLiveModalSandboxLeaseAttributions_def
        set_select_where live_modal_def)
  ultimately have box: "or_terminated (sweepBox api nowMs ?grace ?live info nothing_swept) = [(i, StaleAttribution)]"
    using listed started(4) by (simp add: sweepBox_def orphanReason_def nothing_swept_def)
  have page_keeps: "x \<in> set (or_terminated acc) \<Longrightarrow> x \<in> set (or_terminated (sweepPage api l nowMs ?grace ?live xs acc))" for x l xs acc
  proof (induction xs arbitrary: acc)
    case (Cons y ys)
    have "x \<in> set (or_terminated (sweepBox api nowMs ?grace ?live y acc))"
      using Cons.prems by (auto simp: sweepBox_def Let_def split: option.splits)
    with Cons.IH show ?case by (simp add: Let_def)
  qed simp
  have pages_keep: "sweepPages k api l nowMs ?grace ?live n t acc = Some acc' \<Longrightarrow> x \<in> set (or_terminated acc) \<Longrightarrow>
      x \<in> set (or_terminated acc')" for x k l n t acc acc'
    by (induction k arbitrary: n t acc) (auto simp: Let_def page_keeps split: if_splits option.splits)
  have "(i, StaleAttribution) \<in> set (or_terminated (sweepPage api ORPHAN_SWEEP_LIMIT nowMs ?grace ?live (info # infos) nothing_swept))"
    using box page_keeps by (simp add: Let_def)
  moreover have "fuel \<noteq> 0" using swept listed(1,2) by (cases fuel) (auto simp: sweepModalOrphanSandboxes_def truthy_def)
  then obtain k where "fuel = Suc k" using not0_implies_Suc by blast
  ultimately have "(i, StaleAttribution) \<in> set (or_terminated res)"
    using swept listed(1-3) pages_keep
    by (auto simp: sweepModalOrphanSandboxes_def truthy_def nothing_swept_def ORPHAN_SWEEP_LIMIT_def Let_def
        simp del: sweepPage.simps split: option.splits)
  with started show ?thesis by (auto simp: lease_abs_def live_modal_def)
qed

definition demo_cold_reaper :: lease_db where
  "demo_cold_reaper = lease_step (OpConfirmCold ''w'' ''g'' 1) (run_ops lease_step demo_parked lease_empty)"

definition demo_restart :: "lease_op list" where
  "demo_restart = [OpAcquire 50 ''z'' (demo_acquire TurnHolder ''t2''),
     OpRecordCreated 51 ((demo_commit 1)\<lparr>ci_instance_id := ''j''\<rparr>)]"

definition demo_tagged :: sandbox_info where
  "demo_tagged = demo_box ''j'' 5 [(Some ''opengeni_lease_id'', Some ''l''), (Some ''opengeni_workspace_id'', Some ''w''),
     (Some ''opengeni_sandbox_group_id'', Some ''g'')]"

lemma orphan_sweep_stops_new_box_witness:
  "\<exists>res. sweepModalOrphanSandboxes 3 (demo_modal [demo_tagged]) 60 (listLiveModalSandboxLeaseAttributions demo_cold_reaper) = Some res
     \<and> (''j'', StaleAttribution) \<in> set (or_terminated res)
     \<and> (\<exists>r. find_lease ''w'' ''g'' (run_ops lease_step demo_restart demo_cold_reaper) = Some r \<and> lr_liveness r \<noteq> Cold
          \<and> lr_instance_id r = Some ''j'')"
proof -
  let ?live = "listLiveModalSandboxLeaseAttributions demo_cold_reaper"
  let ?after = "run_ops lease_step demo_restart demo_cold_reaper"
  have "admissible lease_step fresh_ids (demo_parked @ [OpConfirmCold ''w'' ''g'' 1]) lease_empty" by code_simp
  from lease_run.run_inv [OF lease_inv_empty this] have inv: "lease_inv demo_cold_reaper"
    by (simp add: demo_cold_reaper_def run_ops_append del: lease_step.simps)
  have "sweepModalOrphanSandboxes 3 (demo_modal [demo_tagged]) 60 ?live \<noteq> None" by code_simp
  then obtain res where res: "sweepModalOrphanSandboxes 3 (demo_modal [demo_tagged]) 60 ?live = Some res" by auto
  have r0: "find_lease ''w'' ''g'' demo_cold_reaper = Some (hd (leases demo_cold_reaper))" "lr_liveness (hd (leases demo_cold_reaper)) = Cold"
    by code_simp+
  have r1: "find_lease ''w'' ''g'' ?after = Some (hd (leases ?after))" "live_modal (hd (leases ?after))"
      "lr_instance_id (hd (leases ?after)) = Some ''j''"
    by code_simp+
  have one: "\<forall>r \<in> set (leases demo_cold_reaper). lr_instance_id r \<noteq> Some ''j''"
      "\<forall>r \<in> set (leases demo_cold_reaper). attributionKey (lr_id r) (lr_workspace_id r) (lr_group_id r) = attributionKey ''l'' ''w'' ''g''
         \<longrightarrow> r = hd (leases demo_cold_reaper)"
    by code_simp+
  have listed: "ma_app_id (demo_modal [demo_tagged]) = Some ''app''" "''app'' \<noteq> []"
      "ma_list (demo_modal [demo_tagged]) 0 None = demo_tagged # []" "si_id demo_tagged = ''j''"
      "attribution demo_tagged = Some (''l'', ''w'', ''g'')" "ma_terminate (demo_modal [demo_tagged]) ''j''"
    by (simp_all add: demo_modal_def demo_tagged_def demo_box_def attribution_def tagsFromInfo_def List.map_filter_def truthy_def)
  from orphan_sweep_stops_new_box [OF r0 inv r1 _ one listed res] res show ?thesis by auto
qed

definition older :: "sandbox_info list \<Rightarrow> rat option \<Rightarrow> sandbox_info set" where
  "older boxes t = {info \<in> set boxes. case t of None \<Rightarrow> True | Some v \<Rightarrow> \<exists>u. si_created_at info = Some u \<and> u < v}"

lemma sweepPages_end:
  assumes "\<And>n t. set (ma_list api n t) \<subseteq> older boxes t"
  shows "card (older boxes before) < fuel \<Longrightarrow> sweepPages fuel api limit nowMs grace live n before res \<noteq> None"
proof (induction fuel arbitrary: n before res)
  case (Suc fuel)
  let ?page = "ma_list api n before"
  show ?case
  proof (cases "limit \<le> length (or_terminated res) \<or> ?page = [] \<or> si_created_at (last ?page) = None")
    case True
    then show ?thesis by (auto simp: Let_def)
  next
    case False
    then obtain t where t: "si_created_at (last ?page) = Some t" "?page \<noteq> []" by auto
    then have mem: "last ?page \<in> older boxes before" using assms [of n before] by auto
    have "older boxes (Some t) \<subset> older boxes before"
    proof
      show "older boxes (Some t) \<subseteq> older boxes before"
        using mem t(1) by (auto simp: older_def split: option.splits)
      have "last ?page \<notin> older boxes (Some t)" using t(1) by (simp add: older_def)
      with mem show "older boxes (Some t) \<noteq> older boxes before" by blast
    qed
    moreover have "finite (older boxes before)" by (simp add: older_def)
    ultimately have "card (older boxes (Some t)) < card (older boxes before)" by (intro psubset_card_mono)
    with Suc.prems have "card (older boxes (Some t)) < fuel" by simp
    from Suc.IH [OF this] False t show ?thesis by (simp add: Let_def)
  qed
qed simp

text \<open>
  The loop over the provider's pages ends whenever the provider keeps its word that a page asked for
  holds only boxes older than the time given, drawn from finitely many.
\<close>

theorem orphan_sweep_ends:
  assumes "\<And>n t. set (ma_list api n t) \<subseteq> older boxes t"
  shows "sweepModalOrphanSandboxes (length boxes + 1) api nowMs live \<noteq> None"
proof -
  have "card (older boxes None) < length boxes + 1" using card_length [of boxes] by (simp add: older_def less_Suc_eq_le)
  then show ?thesis
    using sweepPages_end [OF assms] by (simp add: sweepModalOrphanSandboxes_def del: sweepPages.simps)
qed

lemma orphan_sweep_ends_witness:
  "sweepModalOrphanSandboxes (length [demo_tagged] + 1) (demo_modal [demo_tagged]) 60 [] \<noteq> None"
  by (rule orphan_sweep_ends) (auto simp: older_def demo_modal_def split: option.splits)

end
