(* ===== verification/Js_Values.thy ===== *)
theory Js_Values
  imports Payload Json
begin

text \<open>
  More of JavaScript on the values of \<open>Payload\<close>: reading, deleting and testing properties of an object,
  \<^verbatim>\<open>Array.prototype.join\<close> and \<^verbatim>\<open>JSON.stringify\<close>. An absent property reads as \<^verbatim>\<open>undefined\<close>, \<open>None\<close> here.
  \<open>JSON.stringify\<close> is the well-formed one of the language: control characters, quotes and
  backslashes are escaped, and so is a surrogate that has no partner.
\<close>

type_synonym js_object = "(jstr \<times> jsval) list"

subsection \<open>Properties\<close>

definition field :: "js_object \<Rightarrow> string \<Rightarrow> jsval option" where
  "field it k = map_of it (u16 k)"

definition has_prop :: "js_object \<Rightarrow> string \<Rightarrow> bool" where
  "has_prop it k \<longleftrightarrow> list_ex (\<lambda>kv. fst kv = u16 k) it"

definition del_prop :: "string \<Rightarrow> js_object \<Rightarrow> js_object" where
  "del_prop k it = filter (\<lambda>kv. fst kv \<noteq> u16 k) it"

definition set_prop :: "string \<Rightarrow> jsval \<Rightarrow> js_object \<Rightarrow> js_object" where
  "set_prop k v it = js_put (u16 k) v it"

fun string_of :: "jsval option \<Rightarrow> jstr option" where
  "string_of (Some (VStr s)) = Some s"
| "string_of _ = None"

fun nonempty_string :: "jsval option \<Rightarrow> jstr option" where
  "nonempty_string (Some (VStr s)) = (if s \<noteq> [] then Some s else None)"
| "nonempty_string _ = None"

fun elements_of :: "jsval option \<Rightarrow> jsval list" where
  "elements_of (Some (VArr xs)) = xs"
| "elements_of _ = []"

fun fields_of :: "jsval option \<Rightarrow> js_object option" where
  "fields_of (Some (VObj fs)) = Some fs"
| "fields_of _ = None"

subsection \<open>\<^verbatim>\<open>JSON.stringify\<close>\<close>

fun js_join :: "jstr \<Rightarrow> jstr list \<Rightarrow> jstr" where
  "js_join sep [] = []"
| "js_join sep [x] = x"
| "js_join sep (x # y # zs) = x @ sep @ js_join sep (y # zs)"

definition hex_unit :: "16 word \<Rightarrow> 16 word" where
  "hex_unit d = (if d < 10 then 48 + d else 87 + d)"

definition unicode_escape :: "16 word \<Rightarrow> jstr" where
  "unicode_escape c =
     [92, 117, hex_unit (c div 4096), hex_unit (c div 256 mod 16), hex_unit (c div 16 mod 16), hex_unit (c mod 16)]"

definition escape_unit :: "16 word \<Rightarrow> jstr" where
  "escape_unit c =
     (if c = 34 \<or> c = 92 then [92, c]
      else if c = 8 then [92, 98]
      else if c = 9 then [92, 116]
      else if c = 10 then [92, 110]
      else if c = 12 then [92, 102]
      else if c = 13 then [92, 114]
      else if c < 32 then unicode_escape c
      else [c])"

fun escape_string :: "jstr \<Rightarrow> jstr" where
  "escape_string [] = []"
| "escape_string [c] = (if high_surrogate c \<or> low_surrogate c then unicode_escape c else escape_unit c)"
| "escape_string (c # d # cs) =
     (if high_surrogate c then
        if low_surrogate d then c # d # escape_string cs else unicode_escape c @ escape_string (d # cs)
      else if low_surrogate c then unicode_escape c @ escape_string (d # cs)
      else escape_unit c @ escape_string (d # cs))"

definition quote_string :: "jstr \<Rightarrow> jstr" where
  "quote_string s = 34 # escape_string s @ [34]"

fun stringify :: "jsval \<Rightarrow> jstr" where
  "stringify VNull = u16 ''null''"
| "stringify (VBool b) = (if b then u16 ''true'' else u16 ''false'')"
| "stringify (VNum n) = u16 (int_dec n)"
| "stringify (VStr s) = quote_string s"
| "stringify (VArr xs) = 91 # js_join [44] (map stringify xs) @ [93]"
| "stringify (VObj fs) =
     123 # js_join [44] (map (\<lambda>kv. quote_string (fst kv) @ 58 # stringify (snd kv)) fs) @ [125]"

subsection \<open>Lemmas\<close>

lemma u16_inject [simp]: "u16 s = u16 t \<longleftrightarrow> s = t"
proof
  assume "u16 s = u16 t"
  moreover have "inj (\<lambda>c::char. (of_nat (of_char c) :: 16 word))"
  proof (rule injI)
    fix c d :: char
    assume eq: "(of_nat (of_char c) :: 16 word) = of_nat (of_char d)"
    have "(of_char x :: nat) < 65536" for x :: char by (rule less_trans [OF nat_of_char_less_256]) simp
    then have "unat (of_nat (of_char x) :: 16 word) = of_char x" for x :: char by (simp add: unat_of_nat)
    with eq have "(of_char c :: nat) = of_char d" by metis
    then show "c = d" by simp
  qed
  ultimately show "s = t" unfolding u16_def by (simp add: inj_map_eq_map)
qed simp

lemma field_del_prop [simp]: "field (del_prop k it) j = (if j = k then None else field it j)"
  unfolding field_def del_prop_def by (induction it) auto

lemma field_set_prop [simp]: "field (set_prop k v it) j = (if j = k then Some v else field it j)"
  by (simp add: field_def set_prop_def js_put_def update_conv')

lemma has_prop_iff: "has_prop it k \<longleftrightarrow> field it k \<noteq> None"
  unfolding field_def has_prop_def by (induction it) auto

end
