(* ===== verification/History.thy ===== *)
theory History
  imports Js_Values
begin

text \<open>
  Conversation history as it is replayed to a model (\<^verbatim>\<open>packages/runtime/src/history-sanitizer.ts\<close>): an item is a
  JavaScript object of which only a few fields are read. \<open>sanitizeHistoryItemsForModel\<close> keeps the code's
  three passes over indices and its sets of dropped indices and open call ids; a set is a list here. The
  functions that rewrite a serialized run state or a request body take the parser as an argument (\<open>parse\<close>,
  \<open>None\<close> where \<^verbatim>\<open>JSON.parse\<close> throws). Those that mutate a parsed value return the new value; their flag
  \<^verbatim>\<open>changed\<close> is set exactly when the value changes, so it is read off by comparing the two;
  a property set on an array, which \<^verbatim>\<open>JSON.stringify\<close> ignores, is no change here.
\<close>

type_synonym item = js_object
type_synonym tool_key = "jstr \<times> jstr"

subsection \<open>Tool calls and their results\<close>

definition TOOL_CALL_RESULT_TYPE_BY_CALL_TYPE :: "(jstr \<times> jstr) list" where
  "TOOL_CALL_RESULT_TYPE_BY_CALL_TYPE =
     [(u16 ''function_call'', u16 ''function_call_result''),
      (u16 ''computer_call'', u16 ''computer_call_result''),
      (u16 ''shell_call'', u16 ''shell_call_output''),
      (u16 ''apply_patch_call'', u16 ''apply_patch_call_output''),
      (u16 ''tool_search_call'', u16 ''tool_search_output'')]"

definition RESULT_TYPES :: "jstr list" where
  "RESULT_TYPES = map snd TOOL_CALL_RESULT_TYPE_BY_CALL_TYPE"

definition itemType :: "item \<Rightarrow> jstr option" where
  "itemType it = string_of (field it ''type'')"

definition providerCallId :: "item \<Rightarrow> jstr option" where
  "providerCallId it =
     (case fields_of (field it ''providerData'') of
        None \<Rightarrow> None
      | Some provider \<Rightarrow>
          (case nonempty_string (field provider ''call_id'') of
             Some c \<Rightarrow> Some c
           | None \<Rightarrow> nonempty_string (field provider ''callId'')))"

definition callIdOf :: "item \<Rightarrow> jstr option" where
  "callIdOf it =
     (case nonempty_string (field it ''callId'') of
        Some c \<Rightarrow> Some c
      | None \<Rightarrow>
          (case nonempty_string (field it ''call_id'') of
             Some c \<Rightarrow> Some c
           | None \<Rightarrow> providerCallId it))"

text \<open>
  The tests both scans make of an item: a call is known by the type of its result and its id, a result by its own type and id.
\<close>

datatype tool_role = Call tool_key | Result tool_key | NoTool

definition roleOf :: "item \<Rightarrow> tool_role" where
  "roleOf it =
     (case (itemType it, callIdOf it) of
        (Some t, Some c) \<Rightarrow>
          (case map_of TOOL_CALL_RESULT_TYPE_BY_CALL_TYPE t of
             Some resultType \<Rightarrow> Call (resultType, c)
           | None \<Rightarrow> if t \<in> set RESULT_TYPES then Result (t, c) else NoTool)
      | _ \<Rightarrow> NoTool)"

definition is_reasoning :: "item \<Rightarrow> bool" where
  "is_reasoning it \<longleftrightarrow> itemType it = Some (u16 ''reasoning'')"

subsection \<open>The sanitizer\<close>

text \<open>Rule 1, forwards: the indices of orphaned results, and the calls left open at the end.\<close>

fun scanPairs :: "nat \<Rightarrow> item list \<Rightarrow> tool_key list \<Rightarrow> nat list \<Rightarrow> nat list \<times> tool_key list" where
  "scanPairs index [] open dropped = (dropped, open)"
| "scanPairs index (it # its) open dropped =
     (case roleOf it of
        Call k \<Rightarrow> scanPairs (Suc index) its (List.insert k open) dropped
      | Result k \<Rightarrow>
          if k \<in> set open then scanPairs (Suc index) its (removeAll k open) dropped
          else scanPairs (Suc index) its open (index # dropped)
      | NoTool \<Rightarrow> scanPairs (Suc index) its open dropped)"

text \<open>Rule 2, backwards over the items with their indices: the last call of every key still open.\<close>

fun dropOpenCalls :: "(nat \<times> item) list \<Rightarrow> tool_key list \<Rightarrow> nat list \<Rightarrow> nat list" where
  "dropOpenCalls [] stillOpen dropped = dropped"
| "dropOpenCalls ((index, it) # its) stillOpen dropped =
     (case roleOf it of
        Call k \<Rightarrow>
          if k \<in> set stillOpen then dropOpenCalls its (removeAll k stillOpen) (index # dropped)
          else dropOpenCalls its stillOpen dropped
      | _ \<Rightarrow> dropOpenCalls its stillOpen dropped)"

text \<open>Rule 3, forwards: a reasoning item whose next item that is no reasoning item is dropped.\<close>

fun nextIsDropped :: "nat list \<Rightarrow> nat \<Rightarrow> item list \<Rightarrow> bool" where
  "nextIsDropped dropped index [] = False"
| "nextIsDropped dropped index (it # its) =
     (if is_reasoning it then nextIsDropped dropped (Suc index) its else index \<in> set dropped)"

fun dropStranded :: "nat \<Rightarrow> item list \<Rightarrow> nat list \<Rightarrow> nat list" where
  "dropStranded index [] dropped = dropped"
| "dropStranded index (it # its) dropped =
     (if index \<in> set dropped \<or> \<not> is_reasoning it then dropStranded (Suc index) its dropped
      else if nextIsDropped dropped (Suc index) its then dropStranded (Suc index) its (index # dropped)
      else dropStranded (Suc index) its dropped)"

definition droppedIndices :: "item list \<Rightarrow> nat list" where
  "droppedIndices items =
     (let (orphans, stillOpen) = scanPairs 0 items [] [];
          dropped = (if stillOpen \<noteq> [] then dropOpenCalls (rev (enumerate 0 items)) stillOpen orphans else orphans)
      in if dropped \<noteq> [] then dropStranded 0 items dropped else dropped)"

definition sanitizeHistoryItemsForModel :: "item list \<Rightarrow> item list" where
  "sanitizeHistoryItemsForModel items =
     (if items = [] then []
      else let dropped = droppedIndices items in
        if dropped = [] then items
        else map snd (filter (\<lambda>(index, it). index \<notin> set dropped) (enumerate 0 items)))"

subsection \<open>Account-bound content\<close>

definition stripReasoningEncryptedContent :: "item \<Rightarrow> item" where
  "stripReasoningEncryptedContent it =
     (if itemType it \<noteq> Some (u16 ''reasoning'') \<and> itemType it \<noteq> Some (u16 ''compaction'') then it
      else
        let providerData = fields_of (field it ''providerData'');
            providerHasBlob = (case providerData of
                None \<Rightarrow> False
              | Some p \<Rightarrow> has_prop p ''encryptedContent'' \<or> has_prop p ''encrypted_content'');
            topLevelHasBlob = has_prop it ''encrypted_content'' in
        if \<not> providerHasBlob \<and> \<not> topLevelHasBlob then it
        else
          let clone = (if providerHasBlob
                then set_prop ''providerData''
                       (VObj (del_prop ''encrypted_content'' (del_prop ''encryptedContent'' (the providerData)))) it
                else it)
          in if topLevelHasBlob then del_prop ''encrypted_content'' clone else clone)"

text \<open>The places of a serialized run state that hold protocol items.\<close>

fun on_object :: "(js_object \<Rightarrow> js_object) \<Rightarrow> jsval \<Rightarrow> jsval" where
  "on_object f (VObj fs) = VObj (f fs)"
| "on_object f v = v"

fun on_array :: "(jsval \<Rightarrow> jsval) \<Rightarrow> jsval \<Rightarrow> jsval" where
  "on_array f (VArr xs) = VArr (map f xs)"
| "on_array f v = v"

definition on_field :: "string \<Rightarrow> (jsval \<Rightarrow> jsval) \<Rightarrow> js_object \<Rightarrow> js_object" where
  "on_field k f it = map (\<lambda>kv. if fst kv = u16 k then (fst kv, f (snd kv)) else kv) it"

definition onRunStateItems :: "(jsval \<Rightarrow> jsval) \<Rightarrow> jsval \<Rightarrow> jsval" where
  "onRunStateItems f root =
     (let output = on_object (on_field ''output'' (on_array f)) in
      on_object
        (on_field ''lastModelResponse'' output
         \<circ> on_field ''modelResponses'' (on_array output)
         \<circ> on_field ''generatedItems'' (on_array (on_object (on_field ''rawItem'' f)))
         \<circ> on_field ''originalInput'' (on_array f)) root)"

definition scrubReasoning :: "jsval \<Rightarrow> jsval" where
  "scrubReasoning =
     on_object (\<lambda>it.
       if field it ''type'' = Some (VStr (u16 ''reasoning''))
       then del_prop ''encrypted_content''
              (on_field ''providerData'' (on_object (del_prop ''encrypted_content'' \<circ> del_prop ''encryptedContent''))
                (del_prop ''id'' it))
       else it)"

definition neutralizeToolSearch :: "jsval \<Rightarrow> jsval" where
  "neutralizeToolSearch =
     on_object (\<lambda>it.
       if field it ''type'' \<noteq> Some (VStr (u16 ''tool_search_call''))
          \<and> field it ''type'' \<noteq> Some (VStr (u16 ''tool_search_output'')) then it
       else if field it ''execution'' \<noteq> Some (VStr (u16 ''server''))
       then set_prop ''execution'' (VStr (u16 ''server'')) it
       else it)"

definition rewriteSerialized :: "(jstr \<Rightarrow> jsval option) \<Rightarrow> (jsval \<Rightarrow> jsval) \<Rightarrow> jstr \<Rightarrow> jstr" where
  "rewriteSerialized parse f serialized =
     (case parse serialized of
        None \<Rightarrow> serialized
      | Some parsed \<Rightarrow> if onRunStateItems f parsed = parsed then serialized else stringify (onRunStateItems f parsed))"

definition stripReasoningIdentityFromSerializedRunState :: "(jstr \<Rightarrow> jsval option) \<Rightarrow> jstr \<Rightarrow> jstr" where
  "stripReasoningIdentityFromSerializedRunState parse serialized = rewriteSerialized parse scrubReasoning serialized"

definition neutralizeToolSearchItemsInSerializedRunState :: "(jstr \<Rightarrow> jsval option) \<Rightarrow> jstr \<Rightarrow> jstr" where
  "neutralizeToolSearchItemsInSerializedRunState parse serialized = rewriteSerialized parse neutralizeToolSearch serialized"

subsection \<open>Computer calls\<close>

definition present :: "jsval option \<Rightarrow> bool" where
  "present v \<longleftrightarrow> v \<noteq> None \<and> v \<noteq> Some VNull"

definition normalizeComputerCallActions :: "item list \<Rightarrow> item list" where
  "normalizeComputerCallActions items =
     map (\<lambda>it.
       if itemType it \<noteq> Some (u16 ''computer_call'') then it
       else if present (field it ''action'') \<and> elements_of (field it ''actions'') \<noteq> [] then del_prop ''action'' it
       else it) items"

definition actionsOnly :: "js_object \<Rightarrow> js_object" where
  "actionsOnly it =
     (if field it ''type'' \<noteq> Some (VStr (u16 ''computer_call'')) then it
      else
        let existing = elements_of (field it ''actions'');
            actions = (if existing \<noteq> [] then Some existing
                       else if present (field it ''action'') then Some [the (field it ''action'')] else None) in
        case actions of
          None \<Rightarrow> it
        | Some acts \<Rightarrow>
            if existing \<noteq> [] \<and> \<not> has_prop it ''action'' then it
            else set_prop ''actions'' (VArr acts) (del_prop ''action'' it))"

definition rewriteComputerCallsToActionsOnly :: "jsval \<Rightarrow> jsval" where
  "rewriteComputerCallsToActionsOnly = on_object (on_field ''input'' (on_array (on_object actionsOnly)))"

definition failureCard :: "jstr \<Rightarrow> js_object \<Rightarrow> js_object" where
  "failureCard cardUrl it =
     (if field it ''type'' \<noteq> Some (VStr (u16 ''computer_call_output'')) then it
      else on_field ''output''
             (on_object (\<lambda>out.
                if nonempty_string (field out ''image_url'') = None then set_prop ''image_url'' (VStr cardUrl) out
                else out)) it)"

definition rewriteEmptyComputerCallOutputImageUrls :: "jstr \<Rightarrow> jsval \<Rightarrow> jsval" where
  "rewriteEmptyComputerCallOutputImageUrls cardUrl =
     on_object (on_field ''input'' (on_array (on_object (failureCard cardUrl))))"

definition str_includes :: "jstr \<Rightarrow> jstr \<Rightarrow> bool" where
  "str_includes s t \<longleftrightarrow> list_ex (\<lambda>i. take (length t) (drop i s) = t) [0..<Suc (length s)]"

text \<open>What \<^verbatim>\<open>computerCallNormalizingFetch\<close> hands to the wrapped fetch as the body (\<open>None\<close>: no string body).\<close>

definition computerCallNormalizingFetch ::
    "(jstr \<Rightarrow> jsval option) \<Rightarrow> jstr \<Rightarrow> jstr option \<Rightarrow> jstr option" where
  "computerCallNormalizingFetch parse cardUrl body =
     (case body of
        None \<Rightarrow> None
      | Some text \<Rightarrow>
          if \<not> str_includes text (34 # u16 ''computer_call'') then Some text
          else (case parse text of
                  None \<Rightarrow> Some text
                | Some parsed \<Rightarrow>
                    let after = rewriteEmptyComputerCallOutputImageUrls cardUrl (rewriteComputerCallsToActionsOnly parsed)
                    in if after \<noteq> parsed then Some (stringify after) else Some text))"

end
