(* ===== verification/Compaction.thy ===== *)
theory Compaction
  imports Complex_Main History Machines
begin

text \<open>
  Client-side context compaction (\<^verbatim>\<open>packages/runtime/src/context-compaction.ts\<close>, the budget arithmetic of
  \<^verbatim>\<open>packages/config/src/index.ts\<close>, and the per-call guard of \<^verbatim>\<open>packages/runtime/src/index.ts\<close>). Token counts are
  integers, a quarter of the length of the text in UTF-16 units, rounded up. A threshold ratio is a rational and
  its product with the window is exact; the code's is a double's. A JSON value always serialises, so
  the \<^verbatim>\<open>catch\<close> around \<^verbatim>\<open>JSON.stringify\<close> never runs.
\<close>

subsection \<open>Settings\<close>

datatype compaction_mode = ModeAuto | ModeServer | ModeClient | ModeOff

record context_settings =
  contextCompactionMode :: compaction_mode
  openaiProvider :: string
  contextWindowTokens :: int
  contextReservedOutputTokens :: int
  contextCompactionThresholdRatio :: "rat option"

definition resolveContextCompactionMode :: "context_settings \<Rightarrow> compaction_mode" where
  "resolveContextCompactionMode settings =
     (case contextCompactionMode settings of
        ModeServer \<Rightarrow> ModeServer
      | ModeClient \<Rightarrow> ModeClient
      | ModeOff \<Rightarrow> ModeOff
      | ModeAuto \<Rightarrow> if openaiProvider settings = ''openai'' then ModeServer else ModeClient)"

definition contextInputBudgetTokens :: "context_settings \<Rightarrow> int" where
  "contextInputBudgetTokens settings = max 0 (contextWindowTokens settings - contextReservedOutputTokens settings)"

definition clampCompactionThresholdRatio :: "rat option \<Rightarrow> rat" where
  "clampCompactionThresholdRatio v = min (9/10) (max (3/10) (case v of Some r \<Rightarrow> r | None \<Rightarrow> 9/10))"

definition clientCompactionThresholdTokens :: "context_settings \<Rightarrow> int" where
  "clientCompactionThresholdTokens settings =
     \<lfloor>of_int (max 0 (contextWindowTokens settings))
        * clampCompactionThresholdRatio (contextCompactionThresholdRatio settings)\<rfloor>"

subsection \<open>Items and their size\<close>

definition itemRole :: "item \<Rightarrow> jstr option" where
  "itemRole it = string_of (field it ''role'')"

definition isUserMessage :: "item \<Rightarrow> bool" where
  "isUserMessage it \<longleftrightarrow> itemType it = Some (u16 ''message'') \<and> itemRole it = Some (u16 ''user'')"

definition COMPACTION_SUMMARY_MARKER :: string where
  "COMPACTION_SUMMARY_MARKER = ''opengeni_context_summary''"

definition isCompactionSummary :: "item \<Rightarrow> bool" where
  "isCompactionSummary it \<longleftrightarrow> isUserMessage it \<and> field it COMPACTION_SUMMARY_MARKER = Some (VBool True)"

definition isInitialInstructionMessage :: "item \<Rightarrow> bool" where
  "isInitialInstructionMessage it \<longleftrightarrow>
     itemType it = Some (u16 ''message'')
     \<and> (itemRole it = Some (u16 ''system'') \<or> itemRole it = Some (u16 ''developer''))"

definition estimatedTextTokens :: "jstr \<Rightarrow> int" where
  "estimatedTextTokens s = (int (length s) + 3) div 4"

definition estimateItemTokens :: "item \<Rightarrow> int" where
  "estimateItemTokens it = estimatedTextTokens (stringify (VObj it))"

definition estimateTokens :: "item list \<Rightarrow> int" where
  "estimateTokens items = (\<Sum>it\<leftarrow>items. estimateItemTokens it)"

subsection \<open>When to compact\<close>

datatype compaction_reason = Forced | AboveThreshold | BelowThreshold | NoHistory

record compaction_decision =
  shouldCompact :: bool
  decisionReason :: compaction_reason
  signalTokens :: int
  thresholdTokens :: int

definition decideClientCompaction ::
    "context_settings \<Rightarrow> item list \<Rightarrow> int option \<Rightarrow> bool \<Rightarrow> compaction_decision" where
  "decideClientCompaction settings items lastInputTokens force =
     (let threshold = clientCompactionThresholdTokens settings;
          recorded = (case lastInputTokens of Some n \<Rightarrow> if n > 0 then n else 0 | None \<Rightarrow> 0);
          signal = (if recorded > 0 then recorded else estimateTokens items) in
      if items = [] then \<lparr>shouldCompact = False, decisionReason = NoHistory, signalTokens = signal, thresholdTokens = threshold\<rparr>
      else if force then \<lparr>shouldCompact = True, decisionReason = Forced, signalTokens = signal, thresholdTokens = threshold\<rparr>
      else if signal > threshold
      then \<lparr>shouldCompact = True, decisionReason = AboveThreshold, signalTokens = signal, thresholdTokens = threshold\<rparr>
      else \<lparr>shouldCompact = False, decisionReason = BelowThreshold, signalTokens = signal, thresholdTokens = threshold\<rparr>)"

subsection \<open>The budget guard\<close>

definition boundaries :: "item list \<Rightarrow> nat list" where
  "boundaries items = filter (\<lambda>i. isUserMessage (items ! i)) [0..<length items]"

definition findKeepBoundary :: "item list \<Rightarrow> int \<Rightarrow> nat" where
  "findKeepBoundary items keepRecentTokens =
     (if boundaries items = [] then 0
      else case List.find (\<lambda>b. estimateTokens (drop b items) \<le> keepRecentTokens) (boundaries items) of
             Some b \<Rightarrow> b
           | None \<Rightarrow> List.last (boundaries items))"

record guarded =
  guardedItems :: "item list"
  trimmed :: bool
  droppedCount :: nat
  estimated :: int

definition enforceInputBudget :: "item list \<Rightarrow> int \<Rightarrow> int \<Rightarrow> guarded" where
  "enforceInputBudget items maxTokens trailingTokens =
     (let total = estimateTokens items + max 0 trailingTokens;
          whole = \<lparr>guardedItems = items, trimmed = False, droppedCount = 0, estimated = total\<rparr> in
      if items = [] \<or> total \<le> maxTokens then whole
      else
        let historyBudget = max 0 (maxTokens - max 0 trailingTokens);
            boundary = findKeepBoundary items historyBudget in
        if boundary \<le> 0 then whole
        else
          let kept = drop boundary items in
          \<lparr>guardedItems = kept, trimmed = True, droppedCount = boundary,
           estimated = estimateTokens kept + max 0 trailingTokens\<rparr>)"

definition modelCallBudgetTokens :: "context_settings \<Rightarrow> int option" where
  "modelCallBudgetTokens settings =
     (if resolveContextCompactionMode settings \<noteq> ModeClient then None
      else let budget = contextInputBudgetTokens settings in if budget > 0 then Some budget else None)"

datatype signal_source = FromProvider | FromEstimate

record compaction_needed =
  neededSignal :: int
  neededThreshold :: int
  neededSource :: signal_source

text \<open>\<open>reported\<close> is what \<^verbatim>\<open>contextCompactionSignalTokens\<close> returns when the run asks to be told (\<open>throwOn\<close>).\<close>

definition contextRobustnessFilter ::
    "context_settings \<Rightarrow> bool \<Rightarrow> int option \<Rightarrow> item list \<Rightarrow> compaction_needed + item list" where
  "contextRobustnessFilter settings throwOn reported modelInput =
     (let trimmedInput = (case modelCallBudgetTokens settings of
            None \<Rightarrow> modelInput
          | Some budget \<Rightarrow>
              let guarded = enforceInputBudget modelInput budget 0
              in if trimmed guarded then guardedItems guarded else modelInput) in
      if resolveContextCompactionMode settings = ModeClient \<and> throwOn then
        let hasReported = (case reported of Some n \<Rightarrow> n > 0 | None \<Rightarrow> False);
            signal = (if hasReported then the reported else estimateTokens trimmedInput);
            threshold = clientCompactionThresholdTokens settings in
        if signal > threshold
        then Inl \<lparr>neededSignal = signal, neededThreshold = threshold,
                  neededSource = (if hasReported then FromProvider else FromEstimate)\<rparr>
        else Inr trimmedInput
      else Inr trimmedInput)"

subsection \<open>Texts\<close>

definition lines_of :: "string list \<Rightarrow> jstr" where
  "lines_of ls = js_join [10] (map u16 ls)"

definition COMPACTION_PROMPT :: jstr where
  "COMPACTION_PROMPT = lines_of
     [''You are performing a CONTEXT CHECKPOINT COMPACTION. Create a handoff summary for another LLM that will resume the task.'',
      '''',
      ''Include:'',
      ''- Current progress and key decisions made'',
      ''- Important context, constraints, or user preferences'',
      ''- What remains to be done (clear next steps)'',
      ''- Any critical data, examples, or references needed to continue'',
      '''',
      ''Be concise, structured, and focused on helping the next LLM seamlessly continue the work.'']"

definition SUMMARY_PREFIX :: jstr where
  "SUMMARY_PREFIX = u16 (''Another language model started to solve this problem and produced a summary of its thinking process. ''
     @ ''You also have access to the state of the tools that were used by that language model. ''
     @ ''Use this to build on the work that has already been done and avoid duplicating work. ''
     @ ''Here is the summary produced by the other language model, use the information in this summary to assist with your own analysis:'')"

definition USER_MESSAGE_TRUNCATION_MARKER :: jstr where
  "USER_MESSAGE_TRUNCATION_MARKER = 10 # u16 ''[... middle truncated for context compaction ...]'' @ [10]"

fun part_text :: "jsval \<Rightarrow> jstr" where
  "part_text (VObj part) =
     (case string_of (field part ''text'') of
        Some s \<Rightarrow> s
      | None \<Rightarrow> (case string_of (field part ''content'') of Some s \<Rightarrow> s | None \<Rightarrow> []))"
| "part_text _ = []"

definition messageText :: "item \<Rightarrow> jstr" where
  "messageText it =
     (case field it ''content'' of
        Some (VStr s) \<Rightarrow> s
      | Some (VArr parts) \<Rightarrow> concat (map part_text parts)
      | _ \<Rightarrow> [])"

fun is_image_part :: "jsval \<Rightarrow> bool" where
  "is_image_part (VObj part) \<longleftrightarrow>
     field part ''type'' = Some (VStr (u16 ''input_image'')) \<or> field part ''type'' = Some (VStr (u16 ''image_url''))"
| "is_image_part _ \<longleftrightarrow> False"

text \<open>\<open>None\<close>: the content is \<^verbatim>\<open>undefined\<close>, and a property set to it does not serialise.\<close>

definition contentWithoutImages :: "item \<Rightarrow> jsval option" where
  "contentWithoutImages it =
     (case field it ''content'' of
        Some (VArr parts) \<Rightarrow> Some (VArr (filter (\<lambda>p. \<not> is_image_part p) parts))
      | other \<Rightarrow> other)"

definition truncateMiddleByChars :: "jstr \<Rightarrow> int \<Rightarrow> jstr" where
  "truncateMiddleByChars s maxChars =
     (let marker = USER_MESSAGE_TRUNCATION_MARKER in
      if int (length s) \<le> maxChars then s
      else if maxChars \<le> int (length marker) then take (nat maxChars) marker
      else
        let keepChars = maxChars - int (length marker);
            headChars = (keepChars + 1) div 2;
            tailChars = keepChars div 2 in
        take (nat headChars) s @ marker @ drop (length s - nat tailChars) s)"

definition truncateMiddleByEstimatedTokens :: "jstr \<Rightarrow> int \<Rightarrow> jstr" where
  "truncateMiddleByEstimatedTokens s maxTokens = truncateMiddleByChars s (max 0 (maxTokens * 4))"

subsection \<open>The replacement history\<close>

definition buildSummaryItem :: "jstr \<Rightarrow> item" where
  "buildSummaryItem summaryBody =
     [(u16 ''type'', VStr (u16 ''message'')), (u16 ''role'', VStr (u16 ''user'')),
      (u16 ''content'', VStr (SUMMARY_PREFIX @ [10] @ js_trim summaryBody)),
      (u16 COMPACTION_SUMMARY_MARKER, VBool True)]"

definition buildCompactionPromptInput :: "item list \<Rightarrow> item list" where
  "buildCompactionPromptInput items =
     items @ [[(u16 ''type'', VStr (u16 ''message'')), (u16 ''role'', VStr (u16 ''user'')),
               (u16 ''content'', VStr COMPACTION_PROMPT)]]"

definition COMPACT_USER_MESSAGE_MAX_TOKENS :: int where
  "COMPACT_USER_MESSAGE_MAX_TOKENS = 20000"

definition compactMessageToTokenBudget :: "item \<Rightarrow> int \<Rightarrow> item" where
  "compactMessageToTokenBudget it maxTokens =
     (let s = messageText it in
      if estimatedTextTokens s > maxTokens
      then set_prop ''content'' (VStr (truncateMiddleByEstimatedTokens s maxTokens)) it
      else (case contentWithoutImages it of
              Some v \<Rightarrow> set_prop ''content'' v it
            | None \<Rightarrow> it))"

definition compactUserMessage :: "item \<Rightarrow> item" where
  "compactUserMessage it = compactMessageToTokenBudget it COMPACT_USER_MESSAGE_MAX_TOKENS"

definition buildCompactionReplacementHistory :: "item list \<Rightarrow> jstr \<Rightarrow> item list" where
  "buildCompactionReplacementHistory items summaryBody =
     map compactUserMessage (filter (\<lambda>it. isUserMessage it \<and> \<not> isCompactionSummary it) items)
     @ [buildSummaryItem summaryBody]"

text \<open>The six attempts to meet a budget for the whole item by shrinking the budget of its content.\<close>

fun shrinkContent :: "nat \<Rightarrow> item \<Rightarrow> int \<Rightarrow> int \<Rightarrow> item option" where
  "shrinkContent 0 it maxItemTokens contentBudget = None"
| "shrinkContent (Suc attempts) it maxItemTokens contentBudget =
     (let capped = compactMessageToTokenBudget it contentBudget;
          est = estimateItemTokens capped in
      if est \<le> maxItemTokens then Some capped
      else if contentBudget \<le> 0 then None
      else shrinkContent attempts it maxItemTokens (max 0 (contentBudget - max 1 (est - maxItemTokens))))"

definition compactMessageToEstimatedItemBudget :: "item \<Rightarrow> int \<Rightarrow> item option" where
  "compactMessageToEstimatedItemBudget it maxItemTokens =
     (if maxItemTokens \<le> 0 then None
      else
        let overheadTokens = estimateItemTokens (set_prop ''content'' (VStr []) it) in
        shrinkContent 6 it maxItemTokens (max 0 (maxItemTokens - overheadTokens)))"

text \<open>
  The two loops of the fallback return what they retain with the budget that remains: the instructions before the first user message,
  then user messages from the newest backwards (given reversed; consing restores their order).
\<close>

fun retainInstructions :: "item list \<Rightarrow> int \<Rightarrow> item list \<times> int" where
  "retainInstructions [] remaining = ([], remaining)"
| "retainInstructions (it # its) remaining =
     (if \<not> isInitialInstructionMessage it then
        if isUserMessage it then ([], remaining) else retainInstructions its remaining
      else if remaining \<le> 0 then ([], remaining)
      else (case compactMessageToEstimatedItemBudget it (min 2000 remaining) of
          None \<Rightarrow> retainInstructions its remaining
        | Some capped \<Rightarrow>
            let tokens = estimateItemTokens capped in
            if tokens \<le> remaining then
              let (kept, rest) = retainInstructions its (remaining - tokens) in (capped # kept, rest)
            else retainInstructions its remaining))"

fun retainUsers :: "item list \<Rightarrow> int \<Rightarrow> item list \<Rightarrow> item list" where
  "retainUsers [] remaining acc = acc"
| "retainUsers (it # its) remaining acc =
     (if remaining \<le> 0 then acc
      else if \<not> isUserMessage it \<or> isCompactionSummary it then retainUsers its remaining acc
      else (case compactMessageToEstimatedItemBudget it (min COMPACT_USER_MESSAGE_MAX_TOKENS remaining) of
          None \<Rightarrow> retainUsers its remaining acc
        | Some capped \<Rightarrow>
            let tokens = estimateItemTokens capped in
            if tokens \<le> remaining then retainUsers its (remaining - tokens) (capped # acc)
            else retainUsers its remaining acc))"

definition fallbackSummary :: "jstr option \<Rightarrow> item" where
  "fallbackSummary cause = buildSummaryItem (js_join [10]
     [u16 ''Non-LLM context compaction fallback.'',
      (case cause of
         Some c \<Rightarrow> if c \<noteq> [] then u16 ''Summarizer failure: '' @ c else u16 ''Summarizer failure: unavailable.''
       | None \<Rightarrow> u16 ''Summarizer failure: unavailable.''),
      u16 ''Older assistant, tool, reasoning, and image history was dropped deterministically.'',
      u16 (''Retained context above is limited to initial instructions and the most recent user messages that fit the fallback budget; ''
           @ ''oversized retained messages may be middle-truncated.'')])"

definition fallbackTarget :: "item list \<Rightarrow> int option \<Rightarrow> int" where
  "fallbackTarget items targetTokens =
     (let sourceTokens = max 1 (estimateTokens items);
          requestedTarget = (case targetTokens of Some t \<Rightarrow> if t > 0 then t else sourceTokens div 2 | None \<Rightarrow> sourceTokens div 2)
      in max 1 (min requestedTarget (max 1 (sourceTokens - 1))))"

definition buildDeterministicFallbackCompactionHistory ::
    "item list \<Rightarrow> jstr option \<Rightarrow> int option \<Rightarrow> item list" where
  "buildDeterministicFallbackCompactionHistory items cause targetTokens =
     (let summaryItem = fallbackSummary cause;
          remaining = max 0 (fallbackTarget items targetTokens - estimateItemTokens summaryItem);
          (retainedInstructions, rest) = retainInstructions items remaining;
          retainedUsers = retainUsers (rev items) rest [] in
      retainedInstructions @ retainedUsers @ [summaryItem])"

subsection \<open>The transcript given to the summarizer\<close>

definition truncateForTranscript :: "jstr \<Rightarrow> nat \<Rightarrow> jstr" where
  "truncateForTranscript s n =
     (if length s \<le> n then s
      else take n s @ u16 ''... ('' @ u16 (nat_dec (length s - n)) @ u16 '' more chars)'')"

definition resultText :: "item \<Rightarrow> jstr" where
  "resultText it =
     (case field it ''output'' of
        Some (VStr s) \<Rightarrow> s
      | Some VNull \<Rightarrow> stringify (VObj it)
      | Some v \<Rightarrow> stringify v
      | None \<Rightarrow> stringify (VObj it))"

definition callText :: "item \<Rightarrow> jstr" where
  "callText it =
     (let namePart = (case string_of (field it ''name'') of Some s \<Rightarrow> s | None \<Rightarrow> []);
          argPart = (case field it ''arguments'' of
             Some (VStr s) \<Rightarrow> s
           | Some VNull \<Rightarrow> stringify (VObj [])
           | Some v \<Rightarrow> stringify v
           | None \<Rightarrow> stringify (VObj []))
      in js_trim (namePart @ [32] @ argPart))"

definition renderItem :: "item \<Rightarrow> jstr" where
  "renderItem it =
     (let ty = (case itemType it of Some t \<Rightarrow> t | None \<Rightarrow> u16 ''unknown'') in
      if ty = u16 ''message'' then
        u16 ''['' @ (case itemRole it of Some r \<Rightarrow> r | None \<Rightarrow> u16 ''assistant'') @ u16 ''] ''
          @ truncateForTranscript (messageText it) 4000
      else if ty = u16 ''reasoning'' then u16 ''[reasoning] (omitted)''
      else if ty \<in> set RESULT_TYPES then u16 ''[tool_result] '' @ truncateForTranscript (resultText it) 2000
      else if map_of TOOL_CALL_RESULT_TYPE_BY_CALL_TYPE ty \<noteq> None
      then u16 ''[tool_call '' @ ty @ u16 ''] '' @ truncateForTranscript (callText it) 1000
      else u16 ''['' @ ty @ u16 ''] '' @ truncateForTranscript (stringify (VObj it)) 1000)"

definition transcriptLength :: "jstr list \<Rightarrow> nat" where
  "transcriptLength ls = (if ls = [] then 0 else (\<Sum>l\<leftarrow>ls. length l) + (length ls - 1))"

fun shiftUntilFits :: "jstr list \<Rightarrow> jstr list \<Rightarrow> int \<Rightarrow> jstr list" where
  "shiftUntilFits [] final maxChars = []"
| "shiftUntilFits (l # ls) final maxChars =
     (if int (transcriptLength ((l # ls) @ final)) > maxChars then shiftUntilFits ls final maxChars else l # ls)"

definition renderCompactionPromptInputForChat :: "item list \<Rightarrow> int option \<Rightarrow> jstr" where
  "renderCompactionPromptInputForChat modelInput maxEstimatedTokens =
     (let rendered = map renderItem modelInput in
      case maxEstimatedTokens of
        None \<Rightarrow> js_join [10] rendered
      | Some m \<Rightarrow>
          if m \<le> 0 then js_join [10] rendered
          else
            let maxChars = max 1 (m * 4);
                final = (if rendered = [] then [] else [List.last rendered]);
                kept = shiftUntilFits (butlast rendered) final maxChars;
                joined = js_join [10] (kept @ final) in
            if int (length joined) \<le> maxChars then joined else truncateMiddleByChars joined maxChars)"

end
