(* ===== verification/Transcript.thy ===== *)
theory Transcript
  imports Compaction
begin

text \<open>
  The conversation of a session as it is stored, replayed, grown and compacted: the tables
  \<^verbatim>\<open>session_history_items\<close> and \<^verbatim>\<open>agent_run_states\<close> with their transactions (\<^verbatim>\<open>packages/db/src/index.ts\<close>), the
  input of a turn (\<^verbatim>\<open>apps/worker/src/activities/run-input.ts\<close>, \<^verbatim>\<open>packages/runtime/src/index.ts\<close>), the reconciliation of
  a turn's history with the table (\<^verbatim>\<open>apps/worker/src/activities/agent-turn.ts\<close>) and
  \<^verbatim>\<open>apps/worker/src/activities/context-compaction.ts\<close>. Positions are rationals (a \<^verbatim>\<open>numeric\<close> column). A session's running
  turn is the only writer of its history, so these functions see one state throughout. Arguments stand for
  the SDK (\<open>historyOf\<close>: the items of a serialized run state, \<open>None\<close> if it does not
  parse as one), for \<^verbatim>\<open>JSON.parse\<close> and for the model call of the summarizer. A failing write is modelled
  where the code handles it, in \<open>reconcileConversationTruth\<close>.
\<close>

record history_row =
  h_account_id :: uuid
  h_workspace_id :: uuid
  h_session_id :: uuid
  h_turn_id :: "uuid option"
  h_position :: rat
  h_item :: item
  h_active :: bool
  h_producer :: "uuid option"

record run_state_row =
  r_workspace_id :: uuid
  r_session_id :: uuid
  r_turn_id :: "uuid option"
  r_version :: int
  r_serialized :: jstr
  r_frozen_account :: "uuid option"
  r_created_at :: millis

text \<open>The columns of a session that compaction reads and writes.\<close>

record context_row =
  c_workspace_id :: uuid
  c_session_id :: uuid
  c_last_input_tokens :: "int option"
  c_compact_requested :: bool

record history_db =
  history_items :: "history_row list"
  run_states :: "run_state_row list"
  contexts :: "context_row list"

record history_scope =
  hs_account :: uuid
  hs_workspace :: uuid
  hs_session :: uuid

definition in_session :: "history_scope \<Rightarrow> history_row \<Rightarrow> bool" where
  "in_session s r \<longleftrightarrow> h_workspace_id r = hs_workspace s \<and> h_session_id r = hs_session s"

subsection \<open>The history table\<close>

text \<open>What the \<^verbatim>\<open>jsonb\<close> column receives.\<close>

definition storedItem :: "item \<Rightarrow> item" where
  "storedItem it = object_fields (sanitizeEventPayload (VObj it))"

definition historyRow :: "history_scope \<Rightarrow> uuid option \<Rightarrow> uuid option \<Rightarrow> rat \<times> item \<Rightarrow> history_row" where
  "historyRow s turnId producer entry =
     \<lparr>h_account_id = hs_account s, h_workspace_id = hs_workspace s, h_session_id = hs_session s, h_turn_id = turnId,
      h_position = fst entry, h_item = storedItem (snd entry), h_active = True, h_producer = producer\<rparr>"

definition at_position :: "history_row \<Rightarrow> history_row \<Rightarrow> bool" where
  "at_position row r \<longleftrightarrow>
     h_workspace_id r = h_workspace_id row \<and> h_session_id r = h_session_id row \<and> h_position r = h_position row"

definition insertDoNothing :: "history_row \<Rightarrow> history_row list \<Rightarrow> history_row list" where
  "insertDoNothing row rows = (if exists_where (at_position row) rows then rows else rows @ [row])"

definition insertOrActivate :: "history_row \<Rightarrow> history_row list \<Rightarrow> history_row list" where
  "insertOrActivate row rows =
     (if exists_where (at_position row) rows then update_where (at_position row) (h_active_update (\<lambda>_. True)) rows
      else rows @ [row])"

definition appendSessionHistoryItems ::
    "history_scope \<Rightarrow> uuid option \<Rightarrow> uuid option \<Rightarrow> (rat \<times> item) list \<Rightarrow> history_db \<Rightarrow> history_db" where
  "appendSessionHistoryItems s turnId producer entries db =
     (if entries = [] then db
      else db\<lparr>history_items := fold (\<lambda>e. insertDoNothing (historyRow s turnId producer e)) entries (history_items db)\<rparr>)"

definition getSessionHistoryItems :: "history_scope \<Rightarrow> history_db \<Rightarrow> history_row list" where
  "getSessionHistoryItems s db = sort_key h_position (select_where (in_session s) (history_items db))"

definition getActiveSessionHistoryItems :: "history_scope \<Rightarrow> history_db \<Rightarrow> history_row list" where
  "getActiveSessionHistoryItems s db =
     sort_key h_position (select_where (\<lambda>r. in_session s r \<and> h_active r) (history_items db))"

definition nextSessionHistoryPosition :: "history_scope \<Rightarrow> history_db \<Rightarrow> int" where
  "nextSessionHistoryPosition s db =
     (case map h_position (select_where (in_session s) (history_items db)) of
        [] \<Rightarrow> 0
      | p # ps \<Rightarrow> \<lfloor>foldl max p ps\<rfloor> + 1)"

definition applyContextCompaction ::
    "history_scope \<Rightarrow> uuid option \<Rightarrow> rat \<Rightarrow> (rat \<times> item) list \<Rightarrow> rat \<Rightarrow> item \<Rightarrow> history_db \<Rightarrow> history_db" where
  "applyContextCompaction s turnId boundaryPosition replacementItems summaryPosition summaryItem db =
     (let superseded = update_where (\<lambda>r. in_session s r \<and> h_active r \<and> h_position r < boundaryPosition)
                         (h_active_update (\<lambda>_. False)) (history_items db);
          replaced = fold (\<lambda>e. insertOrActivate (historyRow s None None e)) replacementItems superseded in
      db\<lparr>history_items := insertOrActivate (historyRow s turnId None (summaryPosition, summaryItem)) replaced\<rparr>)"

definition requestSessionCompaction :: "history_scope \<Rightarrow> history_db \<Rightarrow> history_db" where
  "requestSessionCompaction s db =
     db\<lparr>contexts := update_where (\<lambda>c. c_workspace_id c = hs_workspace s \<and> c_session_id c = hs_session s)
                      (c_compact_requested_update (\<lambda>_. True)) (contexts db)\<rparr>"

definition consumeSessionCompactionRequest :: "history_scope \<Rightarrow> history_db \<Rightarrow> history_db \<times> bool" where
  "consumeSessionCompactionRequest s db =
     (let p = (\<lambda>c. c_workspace_id c = hs_workspace s \<and> c_session_id c = hs_session s \<and> c_compact_requested c) in
      (db\<lparr>contexts := update_where p (c_compact_requested_update (\<lambda>_. False)) (contexts db)\<rparr>,
       exists_where p (contexts db)))"

definition setSessionLastInputTokens :: "history_scope \<Rightarrow> int \<Rightarrow> history_db \<Rightarrow> history_db" where
  "setSessionLastInputTokens s n db =
     db\<lparr>contexts := update_where (\<lambda>c. c_workspace_id c = hs_workspace s \<and> c_session_id c = hs_session s)
                      (c_last_input_tokens_update (\<lambda>_. Some n)) (contexts db)\<rparr>"

subsection \<open>Run states\<close>

definition of_session :: "history_scope \<Rightarrow> run_state_row \<Rightarrow> bool" where
  "of_session s r \<longleftrightarrow> r_workspace_id r = hs_workspace s \<and> r_session_id r = hs_session s"

definition nextStateVersion :: "history_scope \<Rightarrow> history_db \<Rightarrow> int" where
  "nextStateVersion s db =
     (case map r_version (select_where (of_session s) (run_states db)) of [] \<Rightarrow> 0 | v # vs \<Rightarrow> foldl max v vs) + 1"

definition saveRunState ::
    "history_scope \<Rightarrow> uuid option \<Rightarrow> jstr \<Rightarrow> uuid option \<Rightarrow> millis \<Rightarrow> history_db \<Rightarrow> history_db" where
  "saveRunState s turnId serialized frozen now db =
     db\<lparr>run_states := run_states db @
          [\<lparr>r_workspace_id = hs_workspace s, r_session_id = hs_session s, r_turn_id = turnId,
            r_version = nextStateVersion s db, r_serialized = serialized, r_frozen_account = frozen,
            r_created_at = now\<rparr>]\<rparr>"

text \<open>\<^verbatim>\<open>order by created_at desc limit 1\<close>; among rows of one instant the later insert is taken.\<close>

definition getLatestRunState :: "history_scope \<Rightarrow> history_db \<Rightarrow> run_state_row option" where
  "getLatestRunState s db =
     (case select_where (of_session s) (run_states db) of
        [] \<Rightarrow> None
      | r # rs \<Rightarrow> Some (foldl (\<lambda>best x. if r_created_at best \<le> r_created_at x then x else best) r rs))"

definition CLEARED_RUN_STATE_MARKER :: string where
  "CLEARED_RUN_STATE_MARKER = ''$opengeniCleared''"

definition CLEARED_RUN_STATE_BLOB :: jstr where
  "CLEARED_RUN_STATE_BLOB = stringify (VObj [(u16 CLEARED_RUN_STATE_MARKER, VBool True)])"

definition isClearedRunStateBlob :: "(jstr \<Rightarrow> jsval option) \<Rightarrow> jstr \<Rightarrow> bool" where
  "isClearedRunStateBlob parse serialized \<longleftrightarrow>
     serialized \<noteq> [] \<and>
     (case parse serialized of
        Some (VObj fs) \<Rightarrow> field fs CLEARED_RUN_STATE_MARKER = Some (VBool True)
      | _ \<Rightarrow> False)"

definition clearedContextMarkerItem :: item where
  "clearedContextMarkerItem =
     [(u16 ''type'', VStr (u16 ''message'')), (u16 ''role'', VStr (u16 ''user'')),
      (u16 ''content'', VStr (u16 ''[context cleared]''))]"

record clear_result =
  supersededItems :: nat
  markerPosition :: rat
  runStateVersion :: int

definition clearSessionContext :: "history_scope \<Rightarrow> millis \<Rightarrow> history_db \<Rightarrow> history_db \<times> clear_result" where
  "clearSessionContext s now db =
     (let act = (\<lambda>r. in_session s r \<and> h_active r);
          superseded = update_where act (h_active_update (\<lambda>_. False)) (history_items db);
          marker = (case map h_position (select_where (in_session s) superseded) of
                      [] \<Rightarrow> - 1 | p # ps \<Rightarrow> foldl max p ps) + 1;
          db1 = db\<lparr>history_items :=
                    insertDoNothing (historyRow s None None (marker, clearedContextMarkerItem)) superseded\<rparr>;
          db2 = saveRunState s None CLEARED_RUN_STATE_BLOB None now db1;
          db3 = setSessionLastInputTokens s 0 db2 in
      (db3, \<lparr>supersededItems = count_where act (history_items db), markerPosition = marker,
             runStateVersion = nextStateVersion s db\<rparr>))"

subsection \<open>The input of a turn\<close>

definition applyCodexHistoryStrip :: "(item \<times> uuid option) list \<Rightarrow> uuid option \<Rightarrow> item list" where
  "applyCodexHistoryStrip rows current =
     concat (map (\<lambda>(it, producer).
       if producer = current then [it]
       else
         let ty = itemType it in
         if ty = Some (u16 ''reasoning'') then []
         else if ty = Some (u16 ''tool_search_call'') \<or> ty = Some (u16 ''tool_search_output'') then []
         else if ty = Some (u16 ''compaction'') then [stripReasoningEncryptedContent it]
         else [it]) rows)"

definition resumeRunStateForCodexAccount ::
    "(jstr \<Rightarrow> jsval option) \<Rightarrow> run_state_row \<Rightarrow> uuid option \<Rightarrow> jstr" where
  "resumeRunStateForCodexAccount parse state current =
     (if r_frozen_account state = current then r_serialized state
      else neutralizeToolSearchItemsInSerializedRunState parse
             (stripReasoningIdentityFromSerializedRunState parse (r_serialized state)))"

definition userMessage :: "jstr \<Rightarrow> item" where
  "userMessage s =
     [(u16 ''type'', VStr (u16 ''message'')), (u16 ''role'', VStr (u16 ''user'')), (u16 ''content'', VStr s)]"

definition guardAssembledInput :: "item list \<Rightarrow> item \<Rightarrow> int option \<Rightarrow> item list" where
  "guardAssembledInput history trailing inputBudgetTokens =
     (case inputBudgetTokens of
        None \<Rightarrow> history @ [trailing]
      | Some budget \<Rightarrow>
          if budget \<le> 0 then history @ [trailing]
          else guardedItems (enforceInputBudget history budget (estimateItemTokens trailing)) @ [trailing])"

datatype model_input = InputText jstr | InputItems "item list"

datatype input_error = UnreadableRunState

text \<open>The message branch of \<^verbatim>\<open>prepareRunInput\<close>; the sandbox state that travels beside the input is left out.\<close>

definition prepareRunInput ::
    "(jstr \<Rightarrow> jsval option) \<Rightarrow> (jstr \<Rightarrow> item list option) \<Rightarrow> jstr \<Rightarrow> item list option \<Rightarrow> jstr option \<Rightarrow> int option
     \<Rightarrow> input_error + model_input" where
  "prepareRunInput parse historyOf txt historyItems serializedRunState inputBudgetTokens =
     (if (case historyItems of Some its \<Rightarrow> its \<noteq> [] | None \<Rightarrow> False)
      then Inr (InputItems (guardAssembledInput (sanitizeHistoryItemsForModel (the historyItems)) (userMessage txt) inputBudgetTokens))
      else (case serializedRunState of
          None \<Rightarrow> Inr (InputText txt)
        | Some blob \<Rightarrow>
            if blob = [] \<or> isClearedRunStateBlob parse blob then Inr (InputText txt)
            else (case historyOf blob of
                None \<Rightarrow> Inl UnreadableRunState
              | Some history \<Rightarrow>
                  Inr (InputItems (guardAssembledInput (sanitizeHistoryItemsForModel history) (userMessage txt) inputBudgetTokens)))))"

definition readPathBudgetTokens :: "context_settings \<Rightarrow> int option" where
  "readPathBudgetTokens settings =
     (if resolveContextCompactionMode settings \<noteq> ModeClient then None
      else let budget = contextInputBudgetTokens settings in if budget > 0 then Some budget else None)"

definition withProducer :: "history_row \<Rightarrow> item \<times> uuid option" where
  "withProducer r = (h_item r, h_producer r)"

text \<open>Returns the prepared input and \<^verbatim>\<open>modelHistoryFromItems\<close>; \<open>itemsSource\<close>: \<^verbatim>\<open>sessionHistorySource\<close> is \<^verbatim>\<open>items\<close>.\<close>

definition messageInput ::
    "(jstr \<Rightarrow> jsval option) \<Rightarrow> (jstr \<Rightarrow> item list option) \<Rightarrow> context_settings \<Rightarrow> bool \<Rightarrow> history_scope \<Rightarrow> uuid option \<Rightarrow> jstr
     \<Rightarrow> history_db \<Rightarrow> input_error + model_input \<times> bool" where
  "messageInput parse historyOf settings itemsSource s current txt db =
     (let budget = readPathBudgetTokens settings;
          stored = (if itemsSource then getActiveSessionHistoryItems s db else []) in
      if stored \<noteq> [] then
        (case prepareRunInput parse historyOf txt (Some (applyCodexHistoryStrip (map withProducer stored) current)) None budget of
           Inl e \<Rightarrow> Inl e | Inr i \<Rightarrow> Inr (i, True))
      else
        (case prepareRunInput parse historyOf txt None
                (map_option (\<lambda>st. resumeRunStateForCodexAccount parse st current) (getLatestRunState s db)) budget of
           Inl e \<Rightarrow> Inl e | Inr i \<Rightarrow> Inr (i, False)))"

subsection \<open>Persisting what a turn adds\<close>

definition isModelOrToolProgressHistoryItem :: "item \<Rightarrow> bool" where
  "isModelOrToolProgressHistoryItem it =
     (if itemType it = Some (u16 ''message'') then field it ''role'' = Some (VStr (u16 ''assistant''))
      else itemType it \<noteq> None)"

record rows_to_append =
  appendRows :: "(rat \<times> item) list"
  nextWatermark :: nat
  nextFreePosition :: int

definition historyRowsToAppend :: "item list \<Rightarrow> nat \<Rightarrow> int \<Rightarrow> rows_to_append" where
  "historyRowsToAppend rawHistory persistedHistoryCount nextPosition =
     (let sanitized = sanitizeHistoryItemsForModel rawHistory in
      if length sanitized \<le> persistedHistoryCount
      then \<lparr>appendRows = [], nextWatermark = persistedHistoryCount, nextFreePosition = nextPosition\<rparr>
      else
        let rows = map (\<lambda>(offset, it). (of_int (nextPosition + int offset), it))
                     (enumerate 0 (drop persistedHistoryCount sanitized)) in
        \<lparr>appendRows = rows, nextWatermark = length sanitized, nextFreePosition = nextPosition + int (length rows)\<rparr>)"

definition reconcileSeedCount :: "(item \<times> uuid option) list \<Rightarrow> bool \<Rightarrow> uuid option \<Rightarrow> nat" where
  "reconcileSeedCount activeSeedRows modelHistoryFromItems current =
     length (sanitizeHistoryItemsForModel
       (if modelHistoryFromItems then applyCodexHistoryStrip activeSeedRows current else map fst activeSeedRows))"

text \<open>The variables of a turn that its reconciliations share, and how they are set before the run.\<close>

record reconcile_state =
  persistedHistoryCount :: nat
  nextHistoryPosition :: int
  modelOrToolProgressPersisted :: bool

definition seedReconcile :: "history_scope \<Rightarrow> uuid option \<Rightarrow> bool \<Rightarrow> history_db \<Rightarrow> reconcile_state" where
  "seedReconcile s current modelHistoryFromItems db =
     \<lparr>persistedHistoryCount =
        reconcileSeedCount (map withProducer (getActiveSessionHistoryItems s db)) modelHistoryFromItems current,
      nextHistoryPosition = nextSessionHistoryPosition s db,
      modelOrToolProgressPersisted = False\<rparr>"

text \<open>
  \<open>writeFails\<close>: the insert throws; the error is logged, or thrown on when the caller needs the rows to be durable
  (the third component).
\<close>

definition reconcileConversationTruth ::
    "history_scope \<Rightarrow> uuid \<Rightarrow> uuid option \<Rightarrow> bool \<Rightarrow> bool \<Rightarrow> bool \<Rightarrow> item list \<Rightarrow> reconcile_state \<Rightarrow> history_db
     \<Rightarrow> history_db \<times> reconcile_state \<times> bool" where
  "reconcileConversationTruth s turnId producer skipInputOnlyRows requireDurable writeFails rawHistory rs db =
     (let out = historyRowsToAppend rawHistory (persistedHistoryCount rs) (nextHistoryPosition rs);
          rows = appendRows out;
          hasProgress = list_ex (\<lambda>e. isModelOrToolProgressHistoryItem (snd e)) rows;
          shouldAppendRows = (rows \<noteq> [] \<and> (\<not> skipInputOnlyRows \<or> hasProgress)) in
      if shouldAppendRows \<and> writeFails then (db, rs, requireDurable)
      else
        let db' = (if shouldAppendRows then appendSessionHistoryItems s (Some turnId) producer rows db else db);
            rs' = (if shouldAppendRows \<or> \<not> skipInputOnlyRows
                   then rs\<lparr>persistedHistoryCount := nextWatermark out, nextHistoryPosition := nextFreePosition out\<rparr> else rs);
            rs'' = (if hasProgress then rs'\<lparr>modelOrToolProgressPersisted := True\<rparr> else rs') in
        (db', rs'', False))"

subsection \<open>Compaction by the worker\<close>

datatype compact_method = BySummary | ByFallback

record compacted =
  supersededFrom :: int
  summaryAt :: int
  compactSignal :: int
  compactThreshold :: int
  compactMethod :: compact_method
  estimatedBefore :: int
  estimatedAfter :: int

datatype compact_result = NotCompacted jstr | Compacted compacted

definition reason_text :: "compaction_reason \<Rightarrow> jstr" where
  "reason_text r =
     (case r of Forced \<Rightarrow> u16 ''force'' | AboveThreshold \<Rightarrow> u16 ''above_threshold''
      | BelowThreshold \<Rightarrow> u16 ''below_threshold'' | NoHistory \<Rightarrow> u16 ''no_history'')"

text \<open>\<open>summarize\<close> is given the prompt and the transcript bound; it throws a message or answers, perhaps with nothing.\<close>

type_synonym summarizer = "item list \<Rightarrow> int option \<Rightarrow> jstr + jstr option"

definition runSummarizerAttempt :: "summarizer \<Rightarrow> item list \<Rightarrow> int option \<Rightarrow> jstr option \<times> jstr" where
  "runSummarizerAttempt summarize promptInput maxTranscriptTokens =
     (case summarize promptInput maxTranscriptTokens of
        Inl message \<Rightarrow> (None, message)
      | Inr None \<Rightarrow> (None, u16 ''summarizer returned no summary'')
      | Inr (Some summary) \<Rightarrow>
          if js_trim summary \<noteq> [] then (Some summary, []) else (None, u16 ''summarizer returned no summary''))"

definition summarizeTwice :: "summarizer \<Rightarrow> item list \<Rightarrow> int \<Rightarrow> jstr option \<times> jstr" where
  "summarizeTwice summarize promptInput threshold =
     (case runSummarizerAttempt summarize promptInput None of
        (Some summary, _) \<Rightarrow> (Some summary, u16 ''summarizer returned no summary'')
      | (None, failure) \<Rightarrow>
          let hardTrimBudget = max 1 (max 1 threshold div 2) in
          (case runSummarizerAttempt summarize promptInput (Some hardTrimBudget) of
             (Some summary, _) \<Rightarrow> (Some summary, failure)
           | (None, failure2) \<Rightarrow> (None, if failure2 \<noteq> [] then failure2 else failure)))"

definition not_less_text :: "int \<Rightarrow> int \<Rightarrow> jstr" where
  "not_less_text a b = u16 ''('' @ u16 (int_dec a) @ u16 '' >= '' @ u16 (int_dec b) @ u16 '')''"

definition chooseReplacement ::
    "item list \<Rightarrow> bool \<Rightarrow> int \<Rightarrow> int \<Rightarrow> jstr option \<times> jstr \<Rightarrow> item list \<times> compact_method" where
  "chooseReplacement items requireShrink shrinkCeiling threshold attempt =
     (let fallback = (\<lambda>cause.
            (buildDeterministicFallbackCompactionHistory items (Some cause)
               (Some (max 1 (min (max 1 (shrinkCeiling div 2)) (max 1 (max 1 threshold div 2))))), ByFallback)) in
      case fst attempt of
        None \<Rightarrow> fallback (snd attempt)
      | Some summaryBody \<Rightarrow>
          let replacement = buildCompactionReplacementHistory items summaryBody;
              est = estimateTokens replacement in
          if \<not> requireShrink \<or> est < shrinkCeiling then (replacement, BySummary)
          else fallback (u16 ''summary replacement did not reduce active context '' @ not_less_text est shrinkCeiling))"

definition maybeCompactContext ::
    "summarizer \<Rightarrow> context_settings \<Rightarrow> history_scope \<Rightarrow> uuid option \<Rightarrow> int option \<Rightarrow> bool \<Rightarrow> bool \<Rightarrow> history_db
     \<Rightarrow> history_db \<times> compact_result" where
  "maybeCompactContext summarize settings s turnId lastInputTokens force mustShrink db =
     (if resolveContextCompactionMode settings \<noteq> ModeClient then (db, NotCompacted (u16 ''mode_not_client''))
      else
        let active = getActiveSessionHistoryItems s db in
        if active = [] then (db, NotCompacted (u16 ''no_history''))
        else
          let items = sanitizeHistoryItemsForModel (map h_item active);
              decision = decideClientCompaction settings items lastInputTokens force in
          if \<not> shouldCompact decision then (db, NotCompacted (reason_text (decisionReason decision)))
          else
            let before = estimateTokens items;
                shrinkCeiling = min before (if signalTokens decision > 0 then signalTokens decision else before);
                requireShrink = (mustShrink \<or> decisionReason decision = AboveThreshold);
                attempt = summarizeTwice summarize (buildCompactionPromptInput items) (thresholdTokens decision);
                (replacementHistory, method) =
                  chooseReplacement items requireShrink shrinkCeiling (thresholdTokens decision) attempt;
                after = estimateTokens replacementHistory in
            if requireShrink \<and> after \<ge> shrinkCeiling
            then (db, NotCompacted (u16 ''compaction summarization failed: fallback did not reduce active context ''
                                    @ not_less_text after shrinkCeiling))
            else
              let nextPosition = nextSessionHistoryPosition s db;
                  replacementItems = map (\<lambda>(i, it). (of_int (nextPosition + int i), it))
                                       (enumerate 0 (butlast replacementHistory));
                  summaryPosition = nextPosition + int (length replacementItems) in
              (applyContextCompaction s turnId (of_int nextPosition) replacementItems (of_int summaryPosition)
                 (List.last replacementHistory) db,
               Compacted \<lparr>supersededFrom = nextPosition, summaryAt = summaryPosition,
                          compactSignal = signalTokens decision, compactThreshold = thresholdTokens decision,
                          compactMethod = method, estimatedBefore = before, estimatedAfter = after\<rparr>))"

end
