(* ===== verification/History_Props.thy ===== *)
theory History_Props
  imports History
begin

text \<open>
  What the history sanitizer keeps. \<open>rejected\<close> says, without the three passes, which items go: a result whose
  nearest earlier use of its key is no call, a call whose key is never used again, and a reasoning item
  whose next other item goes. Everything else about the sanitizer is derived from that.
\<close>

subsection \<open>A specification without passes\<close>

definition keyOf :: "item \<Rightarrow> tool_key option" where
  "keyOf it = (case roleOf it of Call k \<Rightarrow> Some k | Result k \<Rightarrow> Some k | NoTool \<Rightarrow> None)"

definition openAfter :: "tool_key \<Rightarrow> item list \<Rightarrow> bool" where
  "openAfter k items \<longleftrightarrow>
     (case List.find (\<lambda>it. keyOf it = Some k) (rev items) of Some it \<Rightarrow> roleOf it = Call k | None \<Rightarrow> False)"

definition unpaired :: "item list \<Rightarrow> nat \<Rightarrow> bool" where
  "unpaired items i \<longleftrightarrow>
     (case roleOf (items ! i) of
        Result k \<Rightarrow> \<not> openAfter k (take i items)
      | Call k \<Rightarrow> list_all (\<lambda>it. keyOf it \<noteq> Some k) (drop (Suc i) items)
      | NoTool \<Rightarrow> False)"

definition stranded :: "item list \<Rightarrow> nat \<Rightarrow> bool" where
  "stranded items i \<longleftrightarrow>
     is_reasoning (items ! i) \<and>
     (case List.find (\<lambda>j. \<not> is_reasoning (items ! j)) [Suc i..<length items] of
        Some j \<Rightarrow> unpaired items j | None \<Rightarrow> False)"

definition rejected :: "item list \<Rightarrow> nat \<Rightarrow> bool" where
  "rejected items i \<longleftrightarrow> unpaired items i \<or> stranded items i"

subsection \<open>Open calls\<close>

lemma openAfter_Nil [simp]: "\<not> openAfter k []"
  by (simp add: openAfter_def)

lemma openAfter_snoc [simp]:
  "openAfter k (xs @ [it]) = (if keyOf it = Some k then roleOf it = Call k else openAfter k xs)"
  by (simp add: openAfter_def)

lemma openAfter_append:
  "openAfter k (xs @ ys) = (if list_all (\<lambda>it. keyOf it \<noteq> Some k) ys then openAfter k xs else openAfter k ys)"
  by (induction ys rule: rev_induct) (simp_all add: append_assoc [symmetric] del: append_assoc)

lemma keyOf_simps [simp]:
  "roleOf it = Call k \<Longrightarrow> keyOf it = Some k" "roleOf it = Result k \<Longrightarrow> keyOf it = Some k"
  "roleOf it = NoTool \<Longrightarrow> keyOf it = None"
  by (simp_all add: keyOf_def)

lemma reasoning_no_tool: "is_reasoning it \<Longrightarrow> roleOf it = NoTool"
  by (auto simp: is_reasoning_def roleOf_def TOOL_CALL_RESULT_TYPE_BY_CALL_TYPE_def RESULT_TYPES_def
      split: option.splits)

lemma openAfter_call_index:
  "openAfter k xs \<longleftrightarrow> (\<exists>i < length xs. roleOf (xs ! i) = Call k \<and> list_all (\<lambda>it. keyOf it \<noteq> Some k) (drop (Suc i) xs))"
proof (induction xs rule: rev_induct)
  case Nil
  show ?case by simp
next
  case (snoc it xs)
  show ?case
  proof (cases "keyOf it = Some k")
    case True
    then show ?thesis by (auto simp: nth_append less_Suc_eq)
  next
    case False
    then have "roleOf it \<noteq> Call k" by auto
    with False snoc.IH show ?thesis by (auto simp: nth_append less_Suc_eq)
  qed
qed

subsection \<open>The passes\<close>

definition orphan :: "item list \<Rightarrow> nat \<Rightarrow> bool" where
  "orphan items i \<longleftrightarrow> (case roleOf (items ! i) of Result k \<Rightarrow> \<not> openAfter k (take i items) | _ \<Rightarrow> False)"

lemma scanPairs_spec:
  assumes "items = pre @ its" "set open = {k. openAfter k pre}"
  shows "set (fst (scanPairs (length pre) its open dropped))
           = set dropped \<union> {i. length pre \<le> i \<and> i < length items \<and> orphan items i}
         \<and> set (snd (scanPairs (length pre) its open dropped)) = {k. openAfter k items}"
  using assms
proof (induction its arbitrary: pre "open" dropped)
  case Nil
  then show ?case by auto
next
  case (Cons it its)
  let ?n = "length pre"
  have items: "items = (pre @ [it]) @ its" using Cons.prems(1) by simp
  have at_n: "items ! ?n = it" "take ?n items = pre" using Cons.prems(1) by simp_all
  have split: "{i. ?n \<le> i \<and> i < length items \<and> orphan items i}
      = (if orphan items ?n then {?n} else {}) \<union> {i. Suc ?n \<le> i \<and> i < length items \<and> orphan items i}"
    using items by (auto simp: le_less)
  show ?case
  proof (cases "roleOf it")
    case (Call k)
    have "set (List.insert k open) = {k'. openAfter k' (pre @ [it])}" using Cons.prems(2) Call by auto
    moreover have "\<not> orphan items ?n" using Call at_n by (simp add: orphan_def)
    ultimately show ?thesis using Cons.IH [OF items, of "List.insert k open" dropped] Call split by simp
  next
    case (Result k)
    show ?thesis
    proof (cases "k \<in> set open")
      case True
      have "set (removeAll k open) = {k'. openAfter k' (pre @ [it])}" using Cons.prems(2) Result by auto
      moreover have "\<not> orphan items ?n" using Result at_n True Cons.prems(2) by (simp add: orphan_def)
      ultimately show ?thesis using Cons.IH [OF items, of "removeAll k open" dropped] Result True split by simp
    next
      case False
      have "set open = {k'. openAfter k' (pre @ [it])}" using Cons.prems(2) Result False by auto
      moreover have "orphan items ?n" using Result at_n False Cons.prems(2) by (simp add: orphan_def)
      ultimately show ?thesis using Cons.IH [OF items, of "open" "?n # dropped"] Result False split by auto
    qed
  next
    case NoTool
    have "set open = {k'. openAfter k' (pre @ [it])}" using Cons.prems(2) NoTool by simp
    moreover have "\<not> orphan items ?n" using NoTool at_n by (simp add: orphan_def)
    ultimately show ?thesis using Cons.IH [OF items, of "open" dropped] NoTool split by simp
  qed
qed

definition dangling :: "item list \<Rightarrow> nat \<Rightarrow> bool" where
  "dangling items i \<longleftrightarrow>
     (case roleOf (items ! i) of
        Call k \<Rightarrow> list_all (\<lambda>it. keyOf it \<noteq> Some k) (drop (Suc i) items) | _ \<Rightarrow> False)"

lemma dropOpenCalls_spec:
  assumes "items = pre @ suf"
    and "set open = {k. openAfter k items \<and> list_all (\<lambda>it. roleOf it \<noteq> Call k) suf}"
  shows "set (dropOpenCalls (rev (enumerate 0 pre)) open dropped)
           = set dropped \<union> {i. i < length pre \<and> dangling items i}"
  using assms
proof (induction pre arbitrary: suf "open" dropped rule: rev_induct)
  case Nil
  then show ?case by (simp add: enumerate_simps)
next
  case (snoc it pre)
  let ?n = "length pre"
  have items: "items = pre @ (it # suf)" using snoc.prems(1) by simp
  have step: "rev (enumerate 0 (pre @ [it])) = (?n, it) # rev (enumerate 0 pre)"
    by (simp add: enumerate_append_eq)
  have at_n: "items ! ?n = it" "drop (Suc ?n) items = suf" using items by simp_all
  have split: "{i. i < length (pre @ [it]) \<and> dangling items i}
      = (if dangling items ?n then {?n} else {}) \<union> {i. i < ?n \<and> dangling items i}"
    by (auto simp: less_Suc_eq)
  show ?case
  proof (cases "roleOf it")
    case (Call k)
    have here: "k \<in> set open \<longleftrightarrow> dangling items ?n"
    proof
      assume "k \<in> set open"
      then have open_k: "openAfter k items" and no_call: "list_all (\<lambda>it. roleOf it \<noteq> Call k) suf"
        using snoc.prems(2) by auto
      have "openAfter k suf \<Longrightarrow> False" using no_call by (auto simp: openAfter_call_index list_all_length)
      with open_k items have "list_all (\<lambda>it. keyOf it \<noteq> Some k) suf"
        using openAfter_append [of k "pre @ [it]" suf] by (auto split: if_splits)
      then show "dangling items ?n" using Call at_n by (simp add: dangling_def)
    next
      assume "dangling items ?n"
      then have none: "list_all (\<lambda>it. keyOf it \<noteq> Some k) suf" using Call at_n by (simp add: dangling_def)
      then have "openAfter k items" using items Call openAfter_append [of k "pre @ [it]" suf] by simp
      moreover have "list_all (\<lambda>it. roleOf it \<noteq> Call k) suf" using none by (auto simp: list_all_iff)
      ultimately show "k \<in> set open" using snoc.prems(2) by simp
    qed
    have rest: "{k'. openAfter k' items \<and> list_all (\<lambda>it. roleOf it \<noteq> Call k') (it # suf)} = set open - {k}"
      using snoc.prems(2) Call by auto
    show ?thesis
    proof (cases "k \<in> set open")
      case True
      then show ?thesis
        using snoc.IH [OF items, of "removeAll k open" "?n # dropped"] rest here step Call split by auto
    next
      case False
      then show ?thesis using snoc.IH [OF items, of "open" dropped] rest here step Call split by auto
    qed
  next
    case (Result k)
    then have "\<not> dangling items ?n" using at_n by (simp add: dangling_def)
    then show ?thesis using snoc.IH [OF items, of "open" dropped] snoc.prems(2) step Result split by simp
  next
    case NoTool
    then have "\<not> dangling items ?n" using at_n by (simp add: dangling_def)
    then show ?thesis using snoc.IH [OF items, of "open" dropped] snoc.prems(2) step NoTool split by simp
  qed
qed

lemma unpaired_iff: "unpaired items i \<longleftrightarrow> orphan items i \<or> dangling items i"
  by (auto simp: unpaired_def orphan_def dangling_def split: tool_role.splits)

lemma nextIsDropped_spec:
  "nextIsDropped dropped (length pre) its =
     (case List.find (\<lambda>j. \<not> is_reasoning ((pre @ its) ! j)) [length pre..<length (pre @ its)] of
        Some j \<Rightarrow> j \<in> set dropped | None \<Rightarrow> False)"
proof (induction its arbitrary: pre)
  case Nil
  show ?case by simp
next
  case (Cons it its)
  then show ?case using Cons.IH [of "pre @ [it]"] by (simp add: upt_rec)
qed


lemma stranded_Cons:
  assumes "items = pre @ it # its"
  shows "stranded items (length pre) \<longleftrightarrow> is_reasoning it \<and>
     (case List.find (\<lambda>j. \<not> is_reasoning (items ! j)) [length (pre @ [it])..<length items] of
        Some j \<Rightarrow> unpaired items j | None \<Rightarrow> False)"
proof -
  have "items ! length pre = it" using assms by simp
  then show ?thesis by (simp add: stranded_def)
qed

lemma dropStranded_spec:
  assumes "items = pre @ its"
    and "\<And>j. j < length items \<Longrightarrow> \<not> is_reasoning (items ! j) \<Longrightarrow> j \<in> set dropped \<longleftrightarrow> unpaired items j"
  shows "set (dropStranded (length pre) its dropped)
           = set dropped \<union> {i. length pre \<le> i \<and> i < length items \<and> stranded items i}"
  using assms
proof (induction its arbitrary: pre dropped)
  case Nil
  then show ?case by auto
next
  case (Cons it its)
  let ?n = "length pre"
  have items: "items = (pre @ [it]) @ its" using Cons.prems(1) by simp
  have at_n: "items ! ?n = it" using Cons.prems(1) by simp
  have split: "{i. ?n \<le> i \<and> i < length items \<and> stranded items i}
      = (if stranded items ?n then {?n} else {}) \<union> {i. length (pre @ [it]) \<le> i \<and> i < length items \<and> stranded items i}"
    using items by (auto simp: le_less)
  have nxt: "nextIsDropped dropped (Suc ?n) its \<longleftrightarrow> stranded items ?n" if "is_reasoning it"
  proof -
    have same: "j \<in> set dropped \<longleftrightarrow> unpaired items j"
      if "List.find (\<lambda>j. \<not> is_reasoning (items ! j)) [length (pre @ [it])..<length items] = Some j" for j
      using that Cons.prems(2) by (auto dest: find_SomeD)
    show ?thesis using nextIsDropped_spec [of dropped "pre @ [it]" its] same that stranded_Cons [OF Cons.prems(1)]
      unfolding items [symmetric] by (auto split: option.splits)
  qed
  have skip: ?case if "\<not> stranded items ?n \<or> ?n \<in> set dropped"
    "dropStranded ?n (it # its) dropped = dropStranded (Suc ?n) its dropped"
    using Cons.IH [OF items Cons.prems(2)] that split by auto
  show ?case
  proof (cases "?n \<in> set dropped \<or> \<not> is_reasoning it \<or> \<not> stranded items ?n")
    case True
    then show ?thesis using skip nxt at_n by (auto simp: stranded_def)
  next
    case False
    then have "set (dropStranded (length (pre @ [it])) its (?n # dropped))
        = set (?n # dropped) \<union> {i. length (pre @ [it]) \<le> i \<and> i < length items \<and> stranded items i}"
      using Cons.prems(2) at_n by (intro Cons.IH [OF items]) auto
    with False nxt split show ?thesis by auto
  qed
qed

lemma set_droppedIndices: "set (droppedIndices items) = {i. i < length items \<and> rejected items i}"
proof -
  obtain orphans stillOpen where scan: "scanPairs 0 items [] [] = (orphans, stillOpen)" by fastforce
  have orphans: "set orphans = {i. i < length items \<and> orphan items i}"
    and still: "set stillOpen = {k. openAfter k items}"
    using scanPairs_spec [of items "[]" items "[]" "[]"] scan by simp_all
  define dropped where
    "dropped = (if stillOpen \<noteq> [] then dropOpenCalls (rev (enumerate 0 items)) stillOpen orphans else orphans)"
  have no_dangling: "\<not> dangling items i" if "stillOpen = []" "i < length items" for i
  proof
    assume "dangling items i"
    then obtain k where "roleOf (items ! i) = Call k" "list_all (\<lambda>it. keyOf it \<noteq> Some k) (drop (Suc i) items)"
      by (auto simp: dangling_def split: tool_role.splits)
    then have "openAfter k items" using that(2) unfolding openAfter_call_index by blast
    then have "k \<in> set stillOpen" using still by blast
    with that(1) show False by simp
  qed
  have "set dropped = {i. i < length items \<and> unpaired items i}"
    using dropOpenCalls_spec [of items items "[]" stillOpen orphans] still orphans no_dangling
    by (auto simp: dropped_def unpaired_iff)
  moreover have "droppedIndices items = (if dropped \<noteq> [] then dropStranded 0 items dropped else dropped)"
    by (simp add: droppedIndices_def scan dropped_def)
  moreover have "\<not> stranded items i" if "dropped = []" for i
    using that calculation(1) by (auto simp: stranded_def split: option.splits dest: find_SomeD)
  ultimately show ?thesis
    using dropStranded_spec [of items "[]" items dropped] by (auto simp: rejected_def)
qed

lemma map_snd_filter_enumerate:
  "map snd (filter (\<lambda>(i, x). i \<notin> A) (enumerate n xs)) = nths xs {i. n + i \<notin> A}"
  by (induction xs arbitrary: n) (simp_all add: enumerate_simps nths_Cons)

lemma nths_cong: "(\<And>i. i < length xs \<Longrightarrow> i \<in> A \<longleftrightarrow> i \<in> B) \<Longrightarrow> nths xs A = nths xs B"
  unfolding nths_def by (rule arg_cong [where f = "map fst"], rule filter_cong) (auto simp: set_zip)

text \<open>
  C23: The sanitizer's three passes keep exactly the items that are not rejected: a result goes when the nearest earlier use of its
  key is no call, a call goes when its key is not used again, a reasoning item goes when the next item that is
  no reasoning item is such a call or result; the others stay, in their order.
\<close>

theorem sanitizer_keeps_the_paired:
  "sanitizeHistoryItemsForModel items = nths items {i. \<not> rejected items i}"
proof -
  have "nths items {i. i \<notin> set (droppedIndices items)} = nths items {i. \<not> rejected items i}"
    by (rule nths_cong) (simp add: set_droppedIndices)
  moreover have "nths items {i. i \<notin> set (droppedIndices items)} = items" if "droppedIndices items = []"
    using that by (simp add: nths_all)
  ultimately show ?thesis
    using map_snd_filter_enumerate [of "set (droppedIndices items)" 0 items]
    by (cases "droppedIndices items = []") (simp_all add: sanitizeHistoryItemsForModel_def)
qed

subsection \<open>What a provider accepts\<close>

text \<open>
  Every result answers the nearest earlier use of its key, which is a call; every call is used again, by a
  result; no key is called again while its call is open.
\<close>

definition results_answer :: "item list \<Rightarrow> bool" where
  "results_answer its \<longleftrightarrow>
     (\<forall>i < length its. case roleOf (its ! i) of Result k \<Rightarrow> openAfter k (take i its) | _ \<Rightarrow> True)"

definition calls_settled :: "item list \<Rightarrow> bool" where
  "calls_settled its \<longleftrightarrow>
     (\<forall>i < length its. case roleOf (its ! i) of
        Call k \<Rightarrow> list_ex (\<lambda>it. roleOf it = Result k) (drop (Suc i) its) | _ \<Rightarrow> True)"

definition keys_not_reused :: "item list \<Rightarrow> bool" where
  "keys_not_reused its \<longleftrightarrow>
     (\<forall>i < length its. case roleOf (its ! i) of Call k \<Rightarrow> \<not> openAfter k (take i its) | _ \<Rightarrow> True)"

definition settled :: "item list \<Rightarrow> bool" where
  "settled its \<longleftrightarrow> list_all (\<lambda>it. case roleOf it of Call k \<Rightarrow> \<not> openAfter k its | _ \<Rightarrow> True) its"

lemma settled_iff: "settled its \<longleftrightarrow> (\<forall>k. \<not> openAfter k its)"
proof -
  have "openAfter k its \<Longrightarrow> \<exists>it \<in> set its. roleOf it = Call k" for k
    unfolding openAfter_call_index by auto
  then show ?thesis unfolding settled_def list_all_iff by (fastforce split: tool_role.splits)
qed

lemma openAfter_split:
  "openAfter k xs \<longleftrightarrow> (\<exists>p c q. xs = p @ c # q \<and> roleOf c = Call k \<and> list_all (\<lambda>it. keyOf it \<noteq> Some k) q)"
proof
  assume "openAfter k xs"
  then obtain i where "i < length xs" "roleOf (xs ! i) = Call k"
      "list_all (\<lambda>it. keyOf it \<noteq> Some k) (drop (Suc i) xs)"
    unfolding openAfter_call_index by blast
  then show "\<exists>p c q. xs = p @ c # q \<and> roleOf c = Call k \<and> list_all (\<lambda>it. keyOf it \<noteq> Some k) q"
    by (metis id_take_nth_drop)
next
  assume "\<exists>p c q. xs = p @ c # q \<and> roleOf c = Call k \<and> list_all (\<lambda>it. keyOf it \<noteq> Some k) q"
  then obtain p c q where "xs = (p @ [c]) @ q" "roleOf c = Call k" "list_all (\<lambda>it. keyOf it \<noteq> Some k) q" by auto
  then show "openAfter k xs" using openAfter_append [of k "p @ [c]" q] by simp
qed

lemma nths_splitD:
  "nths xs A = us @ x # vs \<Longrightarrow>
   \<exists>i < length xs. i \<in> A \<and> xs ! i = x \<and> us = nths (take i xs) A \<and> vs = nths (drop (Suc i) xs) {j. j + Suc i \<in> A}"
proof (induction xs arbitrary: A us)
  case Nil
  then show ?case by simp
next
  case (Cons y ys)
  let ?B = "{j. Suc j \<in> A}"
  show ?case
  proof (cases "0 \<in> A \<and> us = []")
    case True
    then show ?thesis using Cons.prems by (auto simp: nths_Cons intro!: exI [of _ 0])
  next
    case False
    then obtain us' where us: "us = (if 0 \<in> A then [y] else []) @ us'" "nths ys ?B = us' @ x # vs"
      using Cons.prems by (cases us) (auto simp: nths_Cons split: if_splits)
    from Cons.IH [OF us(2)] obtain i where "i < length ys" "Suc i \<in> A" "ys ! i = x"
      "us' = nths (take i ys) ?B" "vs = nths (drop (Suc i) ys) {j. Suc (j + Suc i) \<in> A}" by auto
    with us(1) show ?thesis by (intro exI [of _ "Suc i"]) (auto simp: nths_Cons)
  qed
qed

lemma nths_no_key: "list_all P xs \<Longrightarrow> list_all P (nths xs A)"
  by (auto simp: list_all_iff dest: in_set_nthsD)

lemma open_call_survives:
  assumes "openAfter k (take i items)" "i < length items" "keyOf (items ! i) = Some k"
  shows "openAfter k (nths (take i items) {i. \<not> rejected items i})"
proof -
  obtain p c q where split: "take i items = p @ c # q" "roleOf c = Call k" "list_all (\<lambda>it. keyOf it \<noteq> Some k) q"
    using assms(1) unfolding openAfter_split by blast
  let ?A = "{i. \<not> rejected items i}"
  have items: "items = p @ c # q @ items ! i # drop (Suc i) items"
    using split(1) id_take_nth_drop [OF assms(2)] by simp
  have at: "items ! length p = c" "drop (Suc (length p)) items = q @ items ! i # drop (Suc i) items"
    by (subst items, simp)+
  have "\<not> is_reasoning c" using split(2) reasoning_no_tool by fastforce
  then have "length p \<in> ?A"
    using at split(2) assms(3) by (simp add: rejected_def unpaired_def stranded_def)
  then have "nths (take i items) ?A = nths p ?A @ c # nths q {j. j + Suc (length p) \<in> ?A}"
    using split(1) by (simp add: nths_append nths_Cons ac_simps)
  with split(2,3) nths_no_key show ?thesis unfolding openAfter_split by blast
qed

lemma sanitized_results_answer: "results_answer (sanitizeHistoryItemsForModel items)"
  unfolding results_answer_def
proof (intro allI impI)
  fix n
  let ?out = "sanitizeHistoryItemsForModel items" and ?A = "{i. \<not> rejected items i}"
  assume "n < length ?out"
  then have "?out = take n ?out @ ?out ! n # drop (Suc n) ?out" by (rule id_take_nth_drop)
  then obtain i where i: "i < length items" "\<not> rejected items i" "items ! i = ?out ! n"
    "take n ?out = nths (take i items) ?A"
    using nths_splitD [of items ?A "take n ?out"] by (auto simp: sanitizer_keeps_the_paired)
  show "case roleOf (?out ! n) of Result k \<Rightarrow> openAfter k (take n ?out) | _ \<Rightarrow> True"
  proof (cases "roleOf (?out ! n)")
    case (Result k)
    then have "openAfter k (take i items)" using i(2,3) by (simp add: rejected_def unpaired_def)
    with open_call_survives [of k i items] i Result show ?thesis by simp
  qed simp_all
qed

lemma first_use:
  "\<not> list_all (\<lambda>it. keyOf it \<noteq> Some k) xs \<Longrightarrow>
   \<exists>p x q. xs = p @ x # q \<and> keyOf x = Some k \<and> list_all (\<lambda>it. keyOf it \<noteq> Some k) p"
proof (induction xs)
  case (Cons y ys)
  show ?case
  proof (cases "keyOf y = Some k")
    case True
    then have "y # ys = [] @ y # ys \<and> keyOf y = Some k \<and> list_all (\<lambda>it. keyOf it \<noteq> Some k) []" by simp
    then show ?thesis by blast
  next
    case False
    then obtain p x q where "ys = p @ x # q" "keyOf x = Some k" "list_all (\<lambda>it. keyOf it \<noteq> Some k) p"
      using Cons by auto
    with False have "y # ys = (y # p) @ x # q \<and> keyOf x = Some k \<and> list_all (\<lambda>it. keyOf it \<noteq> Some k) (y # p)" by simp
    then show ?thesis by blast
  qed
qed simp

lemma sanitized_calls_settled:
  assumes "keys_not_reused items"
  shows "calls_settled (sanitizeHistoryItemsForModel items)"
  unfolding calls_settled_def
proof (intro allI impI)
  fix n
  let ?out = "sanitizeHistoryItemsForModel items" and ?A = "{i. \<not> rejected items i}"
  assume "n < length ?out"
  then have "?out = take n ?out @ ?out ! n # drop (Suc n) ?out" by (rule id_take_nth_drop)
  then obtain i where i: "i < length items" "\<not> rejected items i" "items ! i = ?out ! n"
    "drop (Suc n) ?out = nths (drop (Suc i) items) {j. j + Suc i \<in> ?A}"
    using nths_splitD [of items ?A "take n ?out"] by (auto simp: sanitizer_keeps_the_paired)
  show "case roleOf (?out ! n) of Call k \<Rightarrow> list_ex (\<lambda>it. roleOf it = Result k) (drop (Suc n) ?out) | _ \<Rightarrow> True"
  proof (cases "roleOf (?out ! n)")
    case (Call k)
    then have "\<not> list_all (\<lambda>it. keyOf it \<noteq> Some k) (drop (Suc i) items)"
      using i(2,3) by (simp add: rejected_def unpaired_def)
    then obtain p x q where later: "drop (Suc i) items = p @ x # q" "keyOf x = Some k"
      "list_all (\<lambda>it. keyOf it \<noteq> Some k) p" using first_use by blast
    let ?j = "Suc i + length p"
    have items: "items = (take i items @ items ! i # p) @ x # q"
      using later(1) id_take_nth_drop [OF i(1)] by simp
    have len: "length (take i items @ items ! i # p) = ?j" using i(1) by simp
    have j: "?j < length items \<and> items ! ?j = x \<and> take ?j items = take i items @ items ! i # p"
    proof -
      define pre where "pre = take i items @ items ! i # p"
      have "items = pre @ x # q" "length pre = ?j" using items len unfolding pre_def by simp_all
      then show ?thesis unfolding pre_def [symmetric] by (metis append_eq_conv_conj length_append length_Cons
          less_add_Suc1 add_Suc_right nth_append_length)
    qed
    have "openAfter k (take ?j items)"
      unfolding openAfter_split using j later(3) Call i(3) by metis
    moreover have "roleOf x \<noteq> Call k"
      using assms j calculation unfolding keys_not_reused_def by fastforce
    ultimately have res: "roleOf x = Result k"
      using later(2) by (auto simp: keyOf_def split: tool_role.splits)
    moreover have "\<not> is_reasoning x" using res reasoning_no_tool by fastforce
    ultimately have "\<not> rejected items ?j"
      using j \<open>openAfter k (take ?j items)\<close> by (simp add: rejected_def unpaired_def stranded_def)
    then have "x \<in> set (nths (drop (Suc i) items) {j. j + Suc i \<in> ?A})"
      using later(1) by (simp add: nths_append nths_Cons ac_simps)
    with res Call i(4) show ?thesis by (auto simp: list_ex_iff)
  qed simp_all
qed

lemma paired_history_unchanged:
  assumes "results_answer items" "calls_settled items"
  shows "sanitizeHistoryItemsForModel items = items"
proof -
  have "\<not> unpaired items i" if "i < length items" for i
  proof (cases "roleOf (items ! i)")
    case (Call k)
    then have "list_ex (\<lambda>it. roleOf it = Result k) (drop (Suc i) items)"
      using assms(2) that by (fastforce simp: calls_settled_def)
    then obtain it where "it \<in> set (drop (Suc i) items)" "keyOf it = Some k" by (auto simp: list_ex_iff)
    with Call show ?thesis by (auto simp: unpaired_def list_all_iff)
  next
    case (Result k)
    with assms(1) that show ?thesis by (fastforce simp: unpaired_def results_answer_def)
  qed (simp add: unpaired_def)
  then have "\<not> rejected items i" if "i < length items" for i
    using that by (auto simp: rejected_def stranded_def split: option.splits dest: find_SomeD)
  then show ?thesis by (simp add: sanitizer_keeps_the_paired nths_all)
qed

text \<open>
  C24: Whatever was stored, in the history a model is sent every result answers the nearest earlier use of its call id, which is a call;
  and if no call id is taken again while its call is open, every call has its result and a
  second pass changes nothing.
\<close>

theorem sanitized_history_is_paired:
  "results_answer (sanitizeHistoryItemsForModel items) \<and>
   (keys_not_reused items \<longrightarrow>
      calls_settled (sanitizeHistoryItemsForModel items) \<and>
      sanitizeHistoryItemsForModel (sanitizeHistoryItemsForModel items) = sanitizeHistoryItemsForModel items)"
  by (simp add: sanitized_results_answer sanitized_calls_settled paired_history_unchanged)

text \<open>
  Two calls under one id that nothing answers: the sanitizer drops only the later one, and the earlier one is sent to the model
  with no result after it.
\<close>

theorem reused_call_id_stays_open:
  assumes "roleOf c = Call k" "roleOf d = Call k" "list_all (\<lambda>it. keyOf it \<noteq> Some k) mid"
    "list_all (\<lambda>it. keyOf it \<noteq> Some k) post"
  shows "\<exists>us vs. sanitizeHistoryItemsForModel (pre @ c # mid @ d # post) = us @ c # vs
           \<and> list_all (\<lambda>it. keyOf it \<noteq> Some k) vs"
proof -
  let ?items = "pre @ c # mid @ d # post"
  let ?A = "{i. \<not> rejected ?items i}"
  let ?m = "length pre" and ?n = "Suc (length pre + length mid)"
  have "\<not> is_reasoning c" using assms(1) reasoning_no_tool by fastforce
  then have first: "?m \<in> ?A" using assms(1,2) by (simp add: rejected_def unpaired_def stranded_def)
  have "?items ! ?n = d" "drop (Suc ?n) ?items = post"
    using nth_append_length [of "pre @ c # mid" d post] by (simp_all)
  then have second: "?n \<notin> ?A" using assms(2,4) by (simp add: rejected_def unpaired_def)
  have "sanitizeHistoryItemsForModel ?items
      = nths pre ?A @ c # (nths mid {j. j + Suc ?m \<in> ?A} @ nths post {j. j + Suc ?n \<in> ?A})"
    using first second by (simp add: sanitizer_keeps_the_paired nths_append nths_Cons ac_simps)
  moreover have "list_all (\<lambda>it. keyOf it \<noteq> Some k) (nths mid M @ nths post N)" for M N
    using assms(3,4) by (simp add: nths_no_key)
  ultimately show ?thesis by blast
qed

subsection \<open>Sanitizing a history that grows\<close>

definition plain :: "item \<Rightarrow> bool" where
  "plain it \<longleftrightarrow> roleOf it = NoTool \<and> \<not> is_reasoning it"

definition clean_cut :: "item list \<Rightarrow> item list \<Rightarrow> bool" where
  "clean_cut xs ys \<longleftrightarrow> settled xs \<and> (xs = [] \<or> ys = [] \<or> \<not> is_reasoning (List.last xs) \<or> plain (hd ys))"

lemma settledD: "settled xs \<Longrightarrow> \<not> openAfter k xs"
  using settled_iff by blast

lemma openAfter_no_key: "list_all (\<lambda>it. keyOf it \<noteq> Some k) xs \<Longrightarrow> \<not> openAfter k xs"
  using openAfter_append [of k "[]" xs] by simp

lemma unpaired_append_left:
  assumes "settled xs" "i < length xs"
  shows "unpaired (xs @ ys) i = unpaired xs i"
proof (cases "roleOf (xs ! i)")
  case (Call k)
  have "\<not> openAfter k xs" using assms(1) by (rule settledD)
  then have "\<not> list_all (\<lambda>it. keyOf it \<noteq> Some k) (drop (Suc i) xs)"
    using Call assms(2) unfolding openAfter_call_index by blast
  with Call assms(2) show ?thesis by (auto simp: unpaired_def nth_append)
qed (use assms(2) in \<open>simp_all add: unpaired_def nth_append\<close>)

lemma unpaired_append_right:
  assumes "settled xs"
  shows "unpaired (xs @ ys) (length xs + j) = unpaired ys j"
proof -
  have "openAfter k (xs @ take j ys) = openAfter k (take j ys)" for k
    using settledD [OF assms] openAfter_no_key [of k "take j ys"] by (auto simp: openAfter_append)
  then show ?thesis by (simp add: unpaired_def nth_append split: tool_role.splits)
qed

lemma find_shift:
  "List.find P [a + m..<a + n] = map_option ((+) a) (List.find (\<lambda>j. P (a + j)) [m..<n])"
proof (induction "n - m" arbitrary: m)
  case 0
  then show ?case by simp
next
  case (Suc d)
  then have "m < n" "d = n - Suc m" by simp_all
  with Suc(1) [of "Suc m"] show ?case by (simp add: upt_rec [of m] upt_rec [of "a + m"])
qed

lemma rejected_append_right:
  assumes "settled xs"
  shows "rejected (xs @ ys) (length xs + j) = rejected ys j"
proof -
  have "List.find (\<lambda>j. \<not> is_reasoning ((xs @ ys) ! j)) [Suc (length xs + j)..<length (xs @ ys)]
      = map_option ((+) (length xs)) (List.find (\<lambda>j. \<not> is_reasoning (ys ! j)) [Suc j..<length ys])"
    using find_shift [of "\<lambda>j. \<not> is_reasoning ((xs @ ys) ! j)" "length xs" "Suc j" "length ys"] by simp
  then show ?thesis
    using assms by (simp add: rejected_def stranded_def unpaired_append_right split: option.splits)
qed

lemma stranded_append_left:
  assumes "clean_cut xs ys" "i < length xs"
  shows "stranded (xs @ ys) i = stranded xs i"
proof -
  let ?P = "\<lambda>j. \<not> is_reasoning ((xs @ ys) ! j)"
  have range: "[Suc i..<length (xs @ ys)] = [Suc i..<length xs] @ [length xs..<length (xs @ ys)]"
    using assms(2) upt_add_eq_append [of "Suc i" "length xs" "length ys"] by simp
  have left: "List.find ?P [Suc i..<length xs] = List.find (\<lambda>j. \<not> is_reasoning (xs ! j)) [Suc i..<length xs]"
    by (rule find_cong) (auto simp: nth_append)
  have set: "settled xs" using assms(1) by (simp add: clean_cut_def)
  show ?thesis
  proof (cases "List.find (\<lambda>j. \<not> is_reasoning (xs ! j)) [Suc i..<length xs]")
    case None
    have "ys = [] \<or> plain (hd ys)" if "is_reasoning (xs ! i)"
    proof -
      have "is_reasoning (xs ! j)" if "Suc i \<le> j" "j < length xs" for j
        using that None by (auto simp: find_None_iff)
      moreover have "xs \<noteq> []" using assms(2) by auto
      moreover have "length xs - 1 = i \<or> Suc i \<le> length xs - 1 \<and> length xs - 1 < length xs"
        using assms(2) by arith
      ultimately have "is_reasoning (List.last xs)" using that by (metis last_conv_nth)
      with assms show ?thesis by (auto simp: clean_cut_def)
    qed
    moreover have "(case List.find ?P [length xs..<length (xs @ ys)] of Some j \<Rightarrow> unpaired (xs @ ys) j | None \<Rightarrow> False) = False"
      if "ys = [] \<or> plain (hd ys)"
      using that by (cases ys) (auto simp: upt_rec plain_def unpaired_def)
    ultimately show ?thesis
      using None assms(2) unfolding stranded_def range find_append left by (auto simp: nth_append)
  next
    case (Some j)
    then have "j < length xs" by (auto dest!: find_SomeD)
    with Some assms(2) set show ?thesis
      unfolding stranded_def range find_append left by (simp add: nth_append unpaired_append_left)
  qed
qed

lemma sanitize_append:
  assumes "clean_cut xs ys"
  shows "sanitizeHistoryItemsForModel (xs @ ys) = sanitizeHistoryItemsForModel xs @ sanitizeHistoryItemsForModel ys"
proof -
  have set: "settled xs" using assms by (simp add: clean_cut_def)
  have "nths xs {i. \<not> rejected (xs @ ys) i} = nths xs {i. \<not> rejected xs i}"
    using assms set by (intro nths_cong) (simp add: rejected_def unpaired_append_left stranded_append_left)
  moreover have "{j. j + length xs \<in> {i. \<not> rejected (xs @ ys) i}} = {j. \<not> rejected ys j}"
    using rejected_append_right [OF set, of ys] by (simp add: add.commute)
  ultimately show ?thesis by (simp add: sanitizer_keeps_the_paired nths_append)
qed

subsection \<open>Example items\<close>

definition ex_call :: "string \<Rightarrow> item" where
  "ex_call c = [(u16 ''type'', VStr (u16 ''function_call'')), (u16 ''callId'', VStr (u16 c))]"

definition ex_result :: "string \<Rightarrow> item" where
  "ex_result c = [(u16 ''type'', VStr (u16 ''function_call_result'')), (u16 ''callId'', VStr (u16 c))]"

definition ex_message :: "string \<Rightarrow> string \<Rightarrow> item" where
  "ex_message role s =
     [(u16 ''type'', VStr (u16 ''message'')), (u16 ''role'', VStr (u16 role)), (u16 ''content'', VStr (u16 s))]"

definition ex_key :: "string \<Rightarrow> tool_key" where
  "ex_key c = (u16 ''function_call_result'', u16 c)"

lemma ex_key_inject [simp]: "ex_key c = ex_key d \<longleftrightarrow> c = d"
  by (simp add: ex_key_def)

lemma u16_Nil [simp]: "u16 s = [] \<longleftrightarrow> s = []"
  by (simp add: u16_def)

lemma ex_roles [simp]:
  "c \<noteq> [] \<Longrightarrow> roleOf (ex_call c) = Call (ex_key c)"
  "c \<noteq> [] \<Longrightarrow> roleOf (ex_result c) = Result (ex_key c)"
  "roleOf (ex_message r s) = NoTool"
  "\<not> is_reasoning (ex_call c)" "\<not> is_reasoning (ex_result c)" "\<not> is_reasoning (ex_message r s)"
  by (simp_all add: roleOf_def ex_call_def ex_result_def ex_message_def ex_key_def itemType_def callIdOf_def
      providerCallId_def field_def is_reasoning_def TOOL_CALL_RESULT_TYPE_BY_CALL_TYPE_def RESULT_TYPES_def)

lemma ex_keys [simp]:
  "c \<noteq> [] \<Longrightarrow> keyOf (ex_call c) = Some (ex_key c)" "c \<noteq> [] \<Longrightarrow> keyOf (ex_result c) = Some (ex_key c)"
  "keyOf (ex_message r s) = None"
  by simp_all

lemma openAfter_Cons:
  "openAfter k (it # its) =
     (if list_all (\<lambda>it. keyOf it \<noteq> Some k) its then keyOf it = Some k \<and> roleOf it = Call k else openAfter k its)"
  using openAfter_append [of k "[it]" its] openAfter_snoc [of k "[]" it] by simp

theorem sanitized_history_is_paired_witness:
  "keys_not_reused [ex_call ''a'', ex_result ''b'', ex_result ''a'', ex_call ''c'']
   \<and> calls_settled (sanitizeHistoryItemsForModel [ex_call ''a'', ex_result ''b'', ex_result ''a'', ex_call ''c''])"
proof -
  have "keys_not_reused [ex_call ''a'', ex_result ''b'', ex_result ''a'', ex_call ''c'']"
    by (simp add: keys_not_reused_def less_Suc_eq all_conj_distrib openAfter_Cons)
  then show ?thesis using sanitized_history_is_paired by blast
qed

theorem reused_call_id_stays_open_witness:
  "\<exists>us vs. sanitizeHistoryItemsForModel [ex_message ''user'' ''hi'', ex_call ''a'', ex_message ''user'' ''again'', ex_call ''a'']
     = us @ ex_call ''a'' # vs \<and> list_all (\<lambda>it. keyOf it \<noteq> Some (ex_key ''a'')) vs"
  using reused_call_id_stays_open
    [of "ex_call ''a''" "ex_key ''a''" "ex_call ''a''" "[ex_message ''user'' ''again'']" "[]" "[ex_message ''user'' ''hi'']"]
  by simp

end
