(* ===== verification/Transcript_Props.thy ===== *)
theory Transcript_Props
  imports Transcript History_Props
begin

text \<open>
  What holds of a session's stored conversation: a turn's items are appended once and in order when the history is
  at rest at each reconciliation, and the two situations in which items are lost; what a compaction and a clear leave
  active; what another account's turn is sent; and the bounds of the budget guard and the fallback.
\<close>

subsection \<open>The table\<close>

definition positions_below :: "history_scope \<Rightarrow> rat \<Rightarrow> history_row list \<Rightarrow> bool" where
  "positions_below s p rows \<longleftrightarrow> list_all (\<lambda>r. in_session s r \<longrightarrow> h_position r < p) rows"

lemma in_session_historyRow [simp]: "in_session s (historyRow s t pr e)"
  by (simp add: in_session_def historyRow_def)

lemma historyRow_simps [simp]:
  "h_position (historyRow s t pr e) = fst e" "h_item (historyRow s t pr e) = storedItem (snd e)"
  "h_active (historyRow s t pr e)" "h_producer (historyRow s t pr e) = pr"
  by (simp_all add: historyRow_def)

lemma at_position_historyRow:
  "at_position (historyRow s t pr e) r \<longleftrightarrow> in_session s r \<and> h_position r = fst e"
  by (auto simp: at_position_def historyRow_def in_session_def)

lemma foldl_max_start: "p \<le> foldl max p ps" for p :: "'a::linorder"
proof (induction ps arbitrary: p)
  case (Cons q ps)
  show ?case using Cons.IH [of "max p q"] by simp
qed simp

lemma foldl_max_ge: "x \<in> set (p # ps) \<Longrightarrow> x \<le> foldl max p ps" for x :: "'a::linorder"
proof (induction ps arbitrary: p)
  case (Cons q ps)
  show ?case using Cons foldl_max_start [of "max p q" ps] by auto
qed simp

lemma positions_below_next: "positions_below s (of_int (nextSessionHistoryPosition s db)) (history_items db)"
  unfolding positions_below_def list_all_iff
proof (intro ballI impI)
  fix r
  assume r: "r \<in> set (history_items db)" "in_session s r"
  let ?ps = "map h_position (select_where (in_session s) (history_items db))"
  have "h_position r \<in> set ?ps" using r by (auto simp: set_select_where)
  then obtain p ps where ps: "?ps = p # ps" by (cases ?ps) auto
  with \<open>h_position r \<in> set ?ps\<close> have "h_position r \<le> foldl max p ps" by (intro foldl_max_ge) simp
  then have "h_position r < of_int (\<lfloor>foldl max p ps\<rfloor> + 1)" by linarith
  with ps(1) show "h_position r < of_int (nextSessionHistoryPosition s db)"
    by (simp add: nextSessionHistoryPosition_def)
qed

definition numbered :: "int \<Rightarrow> item list \<Rightarrow> (rat \<times> item) list" where
  "numbered p its = map (\<lambda>(i, it). (of_int (p + int i), it)) (enumerate 0 its)"

lemma numbered_simps [simp]: "numbered p [] = []" "numbered p (it # its) = (of_int p, it) # numbered (p + 1) its"
proof -
  have "enumerate (Suc n) xs = map (\<lambda>(i, x). (Suc i, x)) (enumerate n xs)" for n and xs :: "item list"
    by (induction xs arbitrary: n) (simp_all add: enumerate_simps)
  then show "numbered p (it # its) = (of_int p, it) # numbered (p + 1) its"
    by (simp add: numbered_def enumerate_simps case_prod_beta comp_def algebra_simps)
qed (simp add: numbered_def enumerate_simps)

lemma numbered_append: "numbered p (xs @ ys) = numbered p xs @ numbered (p + int (length xs)) ys"
  by (induction xs arbitrary: p) (simp_all add: algebra_simps)

lemma map_snd_numbered [simp]: "map snd (numbered p its) = its"
  by (induction its arbitrary: p) simp_all

lemma length_numbered [simp]: "length (numbered p its) = length its"
  by (simp add: numbered_def)

lemma map_item_rows [simp]: "map h_item (map (historyRow s t pr) (numbered p its)) = map storedItem its"
  by (induction its arbitrary: p) simp_all

lemma insert_fresh:
  assumes "positions_below s (fst e) rows"
  shows "insertDoNothing (historyRow s t pr e) rows = rows @ [historyRow s t pr e]"
    and "insertOrActivate (historyRow s t pr e) rows = rows @ [historyRow s t pr e]"
proof -
  have "\<not> exists_where (at_position (historyRow s t pr e)) rows"
    using assms by (auto simp: exists_where_iff at_position_historyRow positions_below_def list_all_iff)
  then show "insertDoNothing (historyRow s t pr e) rows = rows @ [historyRow s t pr e]"
    "insertOrActivate (historyRow s t pr e) rows = rows @ [historyRow s t pr e]"
    by (simp_all add: insertDoNothing_def insertOrActivate_def)
qed

lemma positions_below_snoc:
  "positions_below s (of_int p) rows \<Longrightarrow> positions_below s (of_int (p + 1)) (rows @ [historyRow s t pr (of_int p, it)])"
  by (fastforce simp: positions_below_def list_all_iff)

lemma fold_insert_fresh:
  assumes "positions_below s (of_int p) rows"
  shows "fold (\<lambda>e. insertDoNothing (historyRow s t pr e)) (numbered p its) rows
           = rows @ map (historyRow s t pr) (numbered p its)"
    and "fold (\<lambda>e. insertOrActivate (historyRow s t pr e)) (numbered p its) rows
           = rows @ map (historyRow s t pr) (numbered p its)"
  using assms
proof (induction its arbitrary: p rows)
  case (Cons it its)
  {
    case 1
    then show ?case using Cons.IH(1) [OF positions_below_snoc [OF 1]] insert_fresh(1) [of s "(of_int p, it)" rows t pr] by simp
  next
    case 2
    then show ?case using Cons.IH(2) [OF positions_below_snoc [OF 2]] insert_fresh(2) [of s "(of_int p, it)" rows t pr] by simp
  }
qed simp_all

lemma positions_below_numbered:
  assumes "positions_below s (of_int p) rows"
  shows "positions_below s (of_int (p + int (length its))) (rows @ map (historyRow s t pr) (numbered p its))"
  using assms
proof (induction its arbitrary: p rows)
  case (Cons it its)
  show ?case using Cons.IH [OF positions_below_snoc [OF Cons.prems]] by (simp add: algebra_simps)
qed simp

lemma sorted_numbered: "sorted (map fst (numbered p its)) \<and> (\<forall>e \<in> set (numbered p its). of_int p \<le> fst e)"
proof (induction its arbitrary: p)
  case (Cons it its)
  then show ?case using Cons [of "p + 1"] by fastforce
qed simp

lemma sort_key_append_above:
  fixes f :: "'a \<Rightarrow> 'b::linorder"
  assumes "\<forall>x \<in> set xs. \<forall>y \<in> set ys. f x \<le> f y" "sorted (map f ys)"
  shows "sort_key f (xs @ ys) = sort_key f xs @ ys"
proof -
  have insort: "insort_key f x (zs @ ys) = insort_key f x zs @ ys" if "\<forall>y \<in> set ys. f x \<le> f y" for x zs
    using that by (induction zs) (cases ys, simp_all)
  have "sort_key f ys = ys" using assms(2) by (induction ys) (auto simp: insort_is_Cons)
  then show ?thesis using assms(1) by (induction xs) (simp_all add: insort)
qed

lemma active_append_fresh:
  assumes "positions_below s (of_int p) (history_items db)"
  shows "getActiveSessionHistoryItems s (appendSessionHistoryItems s t pr (numbered p its) db)
           = getActiveSessionHistoryItems s db @ map (historyRow s t pr) (numbered p its)"
proof -
  let ?new = "map (historyRow s t pr) (numbered p its)" and ?P = "\<lambda>r. in_session s r \<and> h_active r"
  have rows: "history_items (appendSessionHistoryItems s t pr (numbered p its) db) = history_items db @ ?new"
    using fold_insert_fresh(1) [OF assms] by (simp add: appendSessionHistoryItems_def)
  have all: "select_where ?P ?new = ?new" by (auto simp: select_where_def filter_id_conv)
  have "sorted (map h_position ?new)" using sorted_numbered by (simp add: comp_def)
  moreover have "\<forall>x \<in> set (select_where ?P (history_items db)). \<forall>y \<in> set ?new. h_position x \<le> h_position y"
    using assms sorted_numbered [of p its] by (fastforce simp: set_select_where positions_below_def list_all_iff)
  ultimately show ?thesis
    using sort_key_append_above [of "select_where ?P (history_items db)" ?new h_position] all rows
    by (simp add: getActiveSessionHistoryItems_def select_where_def)
qed

subsection \<open>Reconciling a turn's history with the table\<close>

definition at_rest :: "item list \<Rightarrow> bool" where
  "at_rest its \<longleftrightarrow> settled its \<and> (its = [] \<or> \<not> is_reasoning (List.last its))"

lemma at_rest_clean_cut: "at_rest xs \<Longrightarrow> clean_cut xs ys"
  by (auto simp: at_rest_def clean_cut_def)

lemma calls_settled_settled: "calls_settled its \<Longrightarrow> settled its"
  unfolding settled_iff openAfter_call_index calls_settled_def
  by (fastforce simp: list_ex_iff list_all_iff)

lemma rows_to_append:
  assumes "clean_cut d u" "persistedHistoryCount rs = length (sanitizeHistoryItemsForModel d)"
  shows "historyRowsToAppend (d @ u) (persistedHistoryCount rs) p =
     \<lparr>appendRows = numbered p (sanitizeHistoryItemsForModel u),
      nextWatermark = length (sanitizeHistoryItemsForModel (d @ u)),
      nextFreePosition = p + int (length (sanitizeHistoryItemsForModel u))\<rparr>"
  using assms by (simp add: historyRowsToAppend_def sanitize_append numbered_def Let_def)

text \<open>
  A turn's reconciliations: each sees the history so far, \<open>h\<close>, grown by a chunk, with pending items behind it that a
  sanitizer would still drop (calls whose results are not in yet); its write may fail.
\<close>

type_synonym snapshot = "bool \<times> item list \<times> item list"

fun reconcileTurn ::
    "history_scope \<Rightarrow> uuid \<Rightarrow> uuid option \<Rightarrow> item list \<Rightarrow> snapshot list \<Rightarrow> reconcile_state \<Rightarrow> history_db
     \<Rightarrow> reconcile_state \<times> history_db" where
  "reconcileTurn s t pr h [] rs db = (rs, db)"
| "reconcileTurn s t pr h ((fails, chunk, pending) # rest) rs db =
     (let (db', rs', _) = reconcileConversationTruth s t pr False False fails (h @ chunk @ pending) rs db
      in reconcileTurn s t pr (h @ chunk) rest rs' db')"

fun rests_between :: "item list \<Rightarrow> snapshot list \<Rightarrow> bool" where
  "rests_between h [] = True"
| "rests_between h ((fails, chunk, pending) # rest) =
     (at_rest (h @ chunk) \<and> sanitizeHistoryItemsForModel pending = [] \<and> rests_between (h @ chunk) rest)"

definition chunks :: "snapshot list \<Rightarrow> item list" where
  "chunks snaps = concat (map (\<lambda>(fails, chunk, pending). chunk) snaps)"

text \<open>The rows hold the history up to \<open>d\<close>; \<open>u\<close> is not written yet.\<close>

definition persisted_upto ::
    "history_scope \<Rightarrow> item list \<Rightarrow> item list \<Rightarrow> item list \<Rightarrow> item list \<Rightarrow> reconcile_state \<Rightarrow> history_db \<Rightarrow> bool" where
  "persisted_upto s start base d u rs db \<longleftrightarrow>
     (\<forall>ys. clean_cut d (u @ ys))
     \<and> persistedHistoryCount rs = length (sanitizeHistoryItemsForModel d)
     \<and> positions_below s (of_int (nextHistoryPosition rs)) (history_items db)
     \<and> (\<exists>z. sanitizeHistoryItemsForModel d = start @ z
            \<and> map h_item (getActiveSessionHistoryItems s db) = base @ map storedItem z)"

lemma reconcile_step:
  assumes inv: "persisted_upto s start base d u rs db"
    and quiet: "at_rest (d @ u @ chunk)" and pend: "sanitizeHistoryItemsForModel pending = []"
    and run: "reconcileConversationTruth s t pr False False fails (d @ u @ chunk @ pending) rs db = (db', rs', x)"
  shows "persisted_upto s start base (d @ u @ chunk) [] rs' db'
         \<or> fails \<and> persisted_upto s start base d (u @ chunk) rs' db'"
proof -
  let ?p = "nextHistoryPosition rs" and ?new = "sanitizeHistoryItemsForModel (u @ chunk)"
  have cut: "clean_cut d (u @ chunk @ ys)" for ys
    using inv by (simp add: persisted_upto_def)
  have "sanitizeHistoryItemsForModel (d @ u @ chunk @ pending) = sanitizeHistoryItemsForModel (d @ u @ chunk)"
    using sanitize_append [OF at_rest_clean_cut [OF quiet], of pending] pend by simp
  then have "historyRowsToAppend (d @ u @ chunk @ pending) (persistedHistoryCount rs) ?p
      = historyRowsToAppend (d @ u @ chunk) (persistedHistoryCount rs) ?p"
    by (simp add: historyRowsToAppend_def)
  also have "\<dots> = \<lparr>appendRows = numbered ?p ?new,
      nextWatermark = length (sanitizeHistoryItemsForModel (d @ u @ chunk)), nextFreePosition = ?p + int (length ?new)\<rparr>"
    using rows_to_append [of d "u @ chunk" rs ?p] cut [of "[]"] inv by (simp add: persisted_upto_def)
  finally have rows: "historyRowsToAppend (d @ u @ chunk @ pending) (persistedHistoryCount rs) ?p = \<dots>" .
  obtain z where z: "sanitizeHistoryItemsForModel d = start @ z"
      "map h_item (getActiveSessionHistoryItems s db) = base @ map storedItem z"
    using inv by (auto simp: persisted_upto_def)
  have below: "positions_below s (of_int ?p) (history_items db)" using inv by (simp add: persisted_upto_def)
  have numbered_Nil: "numbered ?p ?new = [] \<longleftrightarrow> ?new = []" by (cases ?new) simp_all
  note out = run [unfolded reconcileConversationTruth_def rows Let_def, simplified rows_to_append.simps numbered_Nil]
  show ?thesis
  proof (cases "fails \<and> ?new \<noteq> []")
    case True
    then have "db' = db" "rs' = rs"
      using out by simp_all
    with True inv show ?thesis by (simp add: persisted_upto_def)
  next
    case False
    let ?db = "appendSessionHistoryItems s (Some t) pr (numbered ?p ?new) db"
    have db': "db' = ?db"
      using out False numbered_Nil by (cases "?new = []") (auto simp: appendSessionHistoryItems_def)
    have rs': "persistedHistoryCount rs' = length (sanitizeHistoryItemsForModel (d @ u @ chunk))"
        "nextHistoryPosition rs' = ?p + int (length ?new)"
      using out False by (cases "?new = []"; auto split: if_splits)+
    have "history_items ?db = history_items db @ map (historyRow s (Some t) pr) (numbered ?p ?new)"
      using fold_insert_fresh(1) [OF below] by (simp add: appendSessionHistoryItems_def)
    then have "positions_below s (of_int (nextHistoryPosition rs')) (history_items db')"
      using below positions_below_numbered [OF below] db' rs' by simp
    moreover have "map h_item (getActiveSessionHistoryItems s db') = base @ map storedItem (z @ ?new)"
      using active_append_fresh [OF below] z(2) db' by (simp del: map_map)
    moreover have "sanitizeHistoryItemsForModel (d @ u @ chunk) = start @ z @ ?new"
      using sanitize_append [OF cut [of "[]"]] z(1) by simp
    ultimately have "persisted_upto s start base (d @ u @ chunk) [] rs' db'"
      using rs'(1) at_rest_clean_cut [OF quiet] unfolding persisted_upto_def by (metis append_Nil)
    then show ?thesis by blast
  qed
qed

lemma reconcile_turn:
  assumes "persisted_upto s start base d u rs db" "rests_between (d @ u) snaps"
    "snaps \<noteq> []" "\<not> fst (List.last snaps)"
    "reconcileTurn s t pr (d @ u) snaps rs db = (rs', db')"
  shows "persisted_upto s start base (d @ u @ chunks snaps) [] rs' db'"
  using assms
proof (induction snaps arbitrary: d u rs db)
  case (Cons snap snaps)
  obtain fails chunk pending where snap: "snap = (fails, chunk, pending)" by (cases snap)
  obtain db1 rs1 x where step:
    "reconcileConversationTruth s t pr False False fails (d @ u @ chunk @ pending) rs db = (db1, rs1, x)"
    by (metis prod_cases3)
  have quiet: "at_rest (d @ u @ chunk)" "sanitizeHistoryItemsForModel pending = []"
    using Cons.prems(2) snap by simp_all
  have rest: "rests_between ((d @ u @ chunk) @ []) snaps"
      "reconcileTurn s t pr ((d @ u @ chunk) @ []) snaps rs1 db1 = (rs', db')"
    using Cons.prems(2,5) snap step by simp_all
  from reconcile_step [OF Cons.prems(1) quiet step]
  consider (ok) "persisted_upto s start base (d @ u @ chunk) [] rs1 db1"
    | (failed) "fails" "persisted_upto s start base d (u @ chunk) rs1 db1" by blast
  then show ?case
  proof cases
    case ok
    show ?thesis
    proof (cases "snaps = []")
      case True
      then show ?thesis using ok rest(2) snap by (simp add: chunks_def)
    next
      case False
      then show ?thesis using Cons.IH [OF ok rest(1) False _ rest(2)] Cons.prems(4) snap by (simp add: chunks_def)
    qed
  next
    case failed
    then have more: "snaps \<noteq> []" using Cons.prems(4) snap by auto
    then show ?thesis
      using Cons.IH [OF failed(2) _ more] rest Cons.prems(4) snap by (simp add: chunks_def)
  qed
qed simp

text \<open>
  C25: A turn whose history in memory starts as the whole stored conversation, sanitized, and the user's message
  (the budget guard trimmed nothing), in which no call id is reused while open and whose history is at rest
  whenever it is reconciled (calls still running may stand at its end), stores each new item once and in order
  after what was there, even if writes before the last one fail: the user's message first, then everything the
  turn added that a sanitizer keeps. A turn that was trimmed can lose as many new items as were cut, the
  message first (\<open>trimmed_turn_loses_items\<close>, \<^verbatim>\<open>agent-turn.ts:3200\<close>).
\<close>

theorem turn_persists_its_history:
  assumes "db_history = applyCodexHistoryStrip (map withProducer (getActiveSessionHistoryItems s db)) current"
    and "keys_not_reused db_history" "plain msg"
    and "rests_between (sanitizeHistoryItemsForModel db_history @ [msg]) snaps" "snaps \<noteq> []" "\<not> fst (List.last snaps)"
    and "reconcileTurn s t current (sanitizeHistoryItemsForModel db_history @ [msg]) snaps
           (seedReconcile s current True db) db = (rs', db')"
  shows "map h_item (getActiveSessionHistoryItems s db')
           = map h_item (getActiveSessionHistoryItems s db)
             @ map storedItem (msg # sanitizeHistoryItemsForModel (chunks snaps))"
proof -
  let ?start = "sanitizeHistoryItemsForModel db_history" and ?base = "map h_item (getActiveSessionHistoryItems s db)"
  have start: "settled ?start" "sanitizeHistoryItemsForModel ?start = ?start"
    using sanitized_calls_settled [OF assms(2)] sanitized_results_answer
    by (auto intro: calls_settled_settled paired_history_unchanged)
  have cut: "clean_cut ?start ([msg] @ ys)" for ys
    using start(1) assms(3) by (simp add: clean_cut_def)
  have "persisted_upto s ?start ?base ?start [msg] (seedReconcile s current True db) db"
    unfolding persisted_upto_def
    using cut start(2) positions_below_next [of s db] assms(1)
    by (auto simp: seedReconcile_def reconcileSeedCount_def)
  from reconcile_turn [OF this _ assms(5,6,7)] assms(4)
  have "persisted_upto s ?start ?base (?start @ [msg] @ chunks snaps) [] rs' db'" by simp
  then obtain z where z: "sanitizeHistoryItemsForModel (?start @ [msg] @ chunks snaps) = ?start @ z"
      "map h_item (getActiveSessionHistoryItems s db') = ?base @ map storedItem z"
    by (auto simp: persisted_upto_def)
  have "clean_cut [msg] (chunks snaps)"
    using assms(3) by (simp add: clean_cut_def plain_def settled_def)
  moreover have "sanitizeHistoryItemsForModel [msg] = [msg]"
    using assms(3) by (intro paired_history_unchanged) (simp_all add: plain_def results_answer_def calls_settled_def)
  ultimately have "sanitizeHistoryItemsForModel (?start @ [msg] @ chunks snaps)
      = ?start @ msg # sanitizeHistoryItemsForModel (chunks snaps)"
    using sanitize_append [OF cut] sanitize_append [of "[msg]"] start(2) by simp
  with z show ?thesis by simp
qed

subsection \<open>Two ways to lose items\<close>

lemma sanitize_interrupted_pair:
  assumes "roleOf a = Call k" "roleOf b = Call k'" "roleOf rb = Result k'" "k \<noteq> k'"
  shows "sanitizeHistoryItemsForModel [a, b, rb] = [b, rb]"
proof -
  have no_reasoning: "\<not> is_reasoning a" "\<not> is_reasoning b" "\<not> is_reasoning rb"
    using assms reasoning_no_tool by fastforce+
  have "rejected [a, b, rb] 0" using assms by (simp add: rejected_def unpaired_def)
  moreover have "\<not> rejected [a, b, rb] (Suc 0)"
    using assms no_reasoning by (simp add: rejected_def unpaired_def stranded_def)
  moreover have "\<not> rejected [a, b, rb] (Suc (Suc 0))"
    using assms no_reasoning openAfter_snoc [of k' "[a]" b] by (simp add: rejected_def unpaired_def stranded_def)
  ultimately show ?thesis by (simp add: sanitizer_keeps_the_paired nths_Cons)
qed

lemma sanitize_both_answered:
  assumes "roleOf a = Call k" "roleOf b = Call k'" "roleOf rb = Result k'" "roleOf ra = Result k" "k \<noteq> k'"
  shows "sanitizeHistoryItemsForModel [a, b, rb, ra] = [a, b, rb, ra]"
    and "sanitizeHistoryItemsForModel [b, rb, rb, ra] = [b, rb]"
proof -
  have no_reasoning: "\<not> is_reasoning a" "\<not> is_reasoning b" "\<not> is_reasoning rb" "\<not> is_reasoning ra"
    using assms reasoning_no_tool by fastforce+
  have "openAfter k' [a, b]" "openAfter k [a, b, rb]" "openAfter k' [b]" "\<not> openAfter k' [b, rb]" "\<not> openAfter k [b, rb, rb]"
    using assms openAfter_snoc [of k' "[a]" b] openAfter_snoc [of k "[a, b]" rb] openAfter_snoc [of k "[a]" b]
      openAfter_snoc [of k "[]" a] openAfter_snoc [of k' "[]" b] openAfter_snoc [of k' "[b]" rb]
      openAfter_snoc [of k "[b, rb]" rb] openAfter_snoc [of k "[b]" rb] openAfter_snoc [of k "[]" b] by simp_all
  then show "sanitizeHistoryItemsForModel [a, b, rb, ra] = [a, b, rb, ra]"
    "sanitizeHistoryItemsForModel [b, rb, rb, ra] = [b, rb]"
    using assms no_reasoning
    by (simp_all add: sanitizer_keeps_the_paired nths_Cons rejected_def unpaired_def stranded_def)
qed

text \<open>
  C26: Two calls of one response, the first waiting for approval, the second answered: the reconciliation at the pause stores the second with
  its result; the one after the approval stores that result again and the first call's result, and never the first call; replayed, what
  is stored has lost the first call's result.
\<close>

theorem approval_after_parallel_call_loses_it:
  fixes p :: int
  assumes "results_answer xs" "calls_settled xs" "xs = [] \<or> \<not> is_reasoning (List.last xs)"
    and "roleOf a = Call k" "roleOf b = Call k'" "roleOf rb = Result k'" "roleOf ra = Result k" "k \<noteq> k'"
    and "pause = historyRowsToAppend (xs @ [a, b, rb]) (length xs) p"
    and "resumed = historyRowsToAppend (xs @ [a, b, rb, ra]) (nextWatermark pause) (nextFreePosition pause)"
  shows "map snd (appendRows pause) = [b, rb] \<and> map snd (appendRows resumed) = [rb, ra]
    \<and> sanitizeHistoryItemsForModel (xs @ map snd (appendRows pause @ appendRows resumed)) = xs @ [b, rb]"
proof -
  have same: "sanitizeHistoryItemsForModel xs = xs" using assms(1,2) by (rule paired_history_unchanged)
  have cut: "clean_cut xs ys" for ys
    using calls_settled_settled [OF assms(2)] assms(3) by (auto simp: clean_cut_def)
  note pair = sanitize_interrupted_pair [OF assms(4-6,8)] sanitize_both_answered [OF assms(4-8)]
  have "pause = \<lparr>appendRows = numbered p [b, rb], nextWatermark = length xs + 2, nextFreePosition = p + 2\<rparr>"
    using assms(9) sanitize_append [OF cut, of "[a, b, rb]"] same pair
    by (simp add: historyRowsToAppend_def numbered_def Let_def)
  moreover from this have "appendRows resumed = numbered (p + 2) [rb, ra]"
    using assms(10) sanitize_append [OF cut, of "[a, b, rb, ra]"] same pair
    by (simp add: historyRowsToAppend_def numbered_def Let_def)
  moreover have "sanitizeHistoryItemsForModel (xs @ [b, rb, rb, ra]) = xs @ [b, rb]"
    using sanitize_append [OF cut] same pair by simp
  ultimately show ?thesis by (simp flip: append_assoc)
qed

subsection \<open>The budget guard\<close>

lemma estimateItemTokens_pos: "1 \<le> estimateItemTokens it"
proof -
  have "2 \<le> int (length (stringify (VObj it)))" by simp
  then show ?thesis unfolding estimateItemTokens_def estimatedTextTokens_def by linarith
qed

lemma estimateTokens_simps [simp]:
  "estimateTokens [] = 0" "estimateTokens (it # its) = estimateItemTokens it + estimateTokens its"
  "estimateTokens (xs @ ys) = estimateTokens xs + estimateTokens ys"
  by (simp_all add: estimateTokens_def)

lemma estimateTokens_pos: "its \<noteq> [] \<Longrightarrow> 1 \<le> estimateTokens its"
proof (induction its)
  case (Cons it its)
  then show ?case using estimateItemTokens_pos [of it] by (cases its) auto
qed simp

lemma set_boundaries: "b \<in> set (boundaries items) \<longleftrightarrow> b < length items \<and> isUserMessage (items ! b)"
  by (auto simp: boundaries_def)

lemma last_boundary:
  assumes "boundaries items \<noteq> []"
  shows "List.last (boundaries items) \<in> set (boundaries items)
    \<and> list_all (\<lambda>it. \<not> isUserMessage it) (drop (Suc (List.last (boundaries items))) items)"
proof
  show "List.last (boundaries items) \<in> set (boundaries items)" using assms by simp
  have "sorted (boundaries items)" unfolding boundaries_def
    using sorted_filter [of id "[0..<length items]"] by simp
  then have "i \<le> List.last (boundaries items)" if "i \<in> set (boundaries items)" for i
    using that assms \<open>sorted (boundaries items)\<close>
    by (auto simp: last_conv_nth in_set_conv_nth intro: sorted_nth_mono)
  show "list_all (\<lambda>it. \<not> isUserMessage it) (drop (Suc (List.last (boundaries items))) items)"
  proof (unfold list_all_length, intro allI impI notI)
    fix n
    let ?l = "List.last (boundaries items)"
    assume n: "n < length (drop (Suc ?l) items)" "isUserMessage (drop (Suc ?l) items ! n)"
    then have "Suc ?l + n \<in> set (boundaries items)" by (simp add: set_boundaries)
    with \<open>\<And>i. i \<in> set (boundaries items) \<Longrightarrow> i \<le> ?l\<close> show False by fastforce
  qed
qed

lemma findKeepBoundary_cases:
  obtains (none) "boundaries items = []" "findKeepBoundary items n = 0"
  | (fits) "findKeepBoundary items n \<in> set (boundaries items)" "estimateTokens (drop (findKeepBoundary items n) items) \<le> n"
  | (final) "boundaries items \<noteq> []" "findKeepBoundary items n = List.last (boundaries items)"
  by (cases "boundaries items = []"; cases "List.find (\<lambda>b. estimateTokens (drop b items) \<le> n) (boundaries items)")
    (auto simp: findKeepBoundary_def dest: find_SomeD)

lemma boundary_in_range: "findKeepBoundary items n \<noteq> 0 \<Longrightarrow> findKeepBoundary items n \<in> set (boundaries items)"
  using last_boundary by (cases rule: findKeepBoundary_cases [of items n]) auto

lemma budget_cut:
  assumes "g = enforceInputBudget items maxTokens trailing" "trimmed g"
  shows "guardedItems g = drop (droppedCount g) items" "droppedCount g < length items"
proof -
  let ?b = "findKeepBoundary items (max 0 (maxTokens - max 0 trailing))"
  have "?b \<noteq> 0 \<and> guardedItems g = drop ?b items \<and> droppedCount g = ?b"
    using assms by (auto simp: enforceInputBudget_def Let_def split: if_splits)
  then show "guardedItems g = drop (droppedCount g) items" "droppedCount g < length items"
    using boundary_in_range [of items] by (auto simp: set_boundaries)
qed

lemma items_to_append: "map snd (appendRows (historyRowsToAppend raw n p)) = drop n (sanitizeHistoryItemsForModel raw)"
  by (simp add: historyRowsToAppend_def Let_def comp_def case_prod_beta)

text \<open>
  The budget guard returns a suffix of the history and its exact estimate. When it cuts, the suffix starts with a user message. It is over
  the budget only if no user message follows its first item: then no cut could have helped.
\<close>

theorem budget_guard_cuts_at_a_user_message:
  fixes items :: "item list" and maxTokens trailing :: int
  defines "g \<equiv> enforceInputBudget items maxTokens trailing"
  shows "guardedItems g = drop (droppedCount g) items
    \<and> estimated g = estimateTokens (guardedItems g) + max 0 trailing
    \<and> (if trimmed g then droppedCount g \<in> set (boundaries items) \<and> 0 < droppedCount g else droppedCount g = 0)
    \<and> (estimated g > maxTokens \<longrightarrow> list_all (\<lambda>it. \<not> isUserMessage it) (tl (guardedItems g)))"
proof (cases "items = [] \<or> estimateTokens items + max 0 trailing \<le> maxTokens")
  case True
  then show ?thesis by (auto simp: g_def enforceInputBudget_def)
next
  case False
  let ?n = "max 0 (maxTokens - max 0 trailing)"
  let ?b = "findKeepBoundary items ?n"
  have g: "g = (if ?b = 0 then \<lparr>guardedItems = items, trimmed = False, droppedCount = 0,
                                estimated = estimateTokens items + max 0 trailing\<rparr>
      else \<lparr>guardedItems = drop ?b items, trimmed = True, droppedCount = ?b,
            estimated = estimateTokens (drop ?b items) + max 0 trailing\<rparr>)"
    using False by (simp add: g_def enforceInputBudget_def Let_def)
  show ?thesis
  proof (cases rule: findKeepBoundary_cases [of items ?n])
    case none
    then have "\<not> isUserMessage it" if "it \<in> set items" for it
      using that set_boundaries [of _ items] by (auto simp: in_set_conv_nth)
    then have "list_all (\<lambda>it. \<not> isUserMessage it) (tl items)"
      using list.set_sel(2) [of items] by (cases items) (auto simp: list_all_iff)
    with none g show ?thesis by simp
  next
    case fits
    then have "drop ?b items \<noteq> []" by (simp add: set_boundaries)
    then have "1 \<le> estimateTokens (drop ?b items)" by (rule estimateTokens_pos)
    with fits have "estimateTokens (drop ?b items) + max 0 trailing \<le> maxTokens" by linarith
    with fits g False show ?thesis by (cases "?b = 0") simp_all
  next
    case final
    then have "?b \<in> set (boundaries items)" "list_all (\<lambda>it. \<not> isUserMessage it) (tl (drop ?b items))"
      using last_boundary [OF final(1)] by (simp_all add: drop_Suc tl_drop)
    with g show ?thesis by (cases "?b = 0") simp_all
  qed
qed

text \<open>
  A turn whose history the budget guard cut by some items seeds its watermark with the length before the cut, so the first
  reconciliation skips as many new items, the user's message first.
\<close>

theorem trimmed_turn_loses_items:
  fixes p :: int
  assumes "stored = sanitizeHistoryItemsForModel (applyCodexHistoryStrip rows current)"
    and "g = enforceInputBudget stored budget (estimateItemTokens msg)" "0 < budget" "trimmed g"
    and "results_answer (guardedItems g @ msg # added)" "calls_settled (guardedItems g @ msg # added)"
  shows "guardAssembledInput stored msg (Some budget) = guardedItems g @ [msg]
    \<and> map snd (appendRows (historyRowsToAppend (guardedItems g @ msg # added) (reconcileSeedCount rows True current) p))
        = drop (droppedCount g) (msg # added)"
proof -
  have cut: "guardedItems g = drop (droppedCount g) stored" "droppedCount g < length stored"
    using budget_cut [OF assms(2,4)] by simp_all
  have seed: "reconcileSeedCount rows True current = length stored"
    using assms(1) by (simp add: reconcileSeedCount_def)
  have same: "sanitizeHistoryItemsForModel (guardedItems g @ msg # added) = guardedItems g @ msg # added"
    using assms(5,6) by (rule paired_history_unchanged)
  have "drop (length stored) (guardedItems g @ msg # added) = drop (droppedCount g) (msg # added)"
    using cut by simp
  then have "map snd (appendRows (historyRowsToAppend (guardedItems g @ msg # added) (length stored) p))
      = drop (droppedCount g) (msg # added)"
    using same by (simp add: items_to_append)
  with assms(2,3) seed show ?thesis by (simp add: guardAssembledInput_def)
qed

subsection \<open>Example conversations\<close>

definition ex_scope :: history_scope where
  "ex_scope = \<lparr>hs_account = ''acc'', hs_workspace = ''ws'', hs_session = ''s''\<rparr>"

definition ex_hello :: item where
  "ex_hello = ex_message ''user'' ''hello''"

definition ex_db :: history_db where
  "ex_db = \<lparr>history_items = [historyRow ex_scope None None (0, ex_hello)], run_states = [], contexts = []\<rparr>"

definition ex_snapshots :: "snapshot list" where
  "ex_snapshots = [(True, [ex_message ''assistant'' ''ok''], []), (False, [ex_call ''a'', ex_result ''a''], [ex_call ''b''])]"

lemma ex_stored [simp]: "storedItem ex_hello = ex_hello"
  by code_simp

lemma ex_ordinary [simp]: "applyCodexHistoryStrip [(ex_hello, None)] current = [ex_hello]"
  by (simp add: applyCodexHistoryStrip_def ex_hello_def ex_message_def itemType_def field_def)

lemma ex_active [simp]: "getActiveSessionHistoryItems ex_scope ex_db = [historyRow ex_scope None None (0, ex_hello)]"
  by (simp add: getActiveSessionHistoryItems_def ex_db_def select_where_def)

lemma ex_plain: "plain (ex_message r s)" "keys_not_reused [ex_message r s]"
  by (simp_all add: plain_def keys_not_reused_def)

theorem turn_persists_its_history_witness:
  "map h_item (getActiveSessionHistoryItems ex_scope
      (snd (reconcileTurn ex_scope ''t'' None ([ex_hello] @ [ex_message ''user'' ''go'']) ex_snapshots
              (seedReconcile ex_scope None True ex_db) ex_db)))
   = [ex_hello] @ map storedItem (ex_message ''user'' ''go'' # sanitizeHistoryItemsForModel
        [ex_message ''assistant'' ''ok'', ex_call ''a'', ex_result ''a''])"
proof -
  have strip: "applyCodexHistoryStrip (map withProducer (getActiveSessionHistoryItems ex_scope ex_db)) None = [ex_hello]"
    by (simp add: withProducer_def)
  have same: "sanitizeHistoryItemsForModel [ex_hello] = [ex_hello]"
    by (rule paired_history_unchanged) (simp_all add: ex_hello_def results_answer_def calls_settled_def)
  have pending: "sanitizeHistoryItemsForModel [ex_call ''b''] = []"
    by (simp add: sanitizer_keeps_the_paired rejected_def unpaired_def)
  have rests: "rests_between ([ex_hello] @ [ex_message ''user'' ''go'']) ex_snapshots"
    using pending by (simp add: ex_snapshots_def at_rest_def settled_def openAfter_Cons ex_hello_def
        sanitizeHistoryItemsForModel_def [of "[]"])
  obtain rs' db' where run: "reconcileTurn ex_scope ''t'' None ([ex_hello] @ [ex_message ''user'' ''go'']) ex_snapshots
      (seedReconcile ex_scope None True ex_db) ex_db = (rs', db')" by fastforce
  have "map h_item (getActiveSessionHistoryItems ex_scope db')
      = map h_item (getActiveSessionHistoryItems ex_scope ex_db)
        @ map storedItem (ex_message ''user'' ''go'' # sanitizeHistoryItemsForModel (chunks ex_snapshots))"
    using turn_persists_its_history [OF strip [symmetric], of "ex_message ''user'' ''go''" ex_snapshots "''t''" rs' db']
      same rests run ex_plain by (simp add: ex_hello_def ex_snapshots_def)
  then show ?thesis using run by (simp add: chunks_def ex_snapshots_def)
qed

theorem approval_after_parallel_call_loses_it_witness:
  "sanitizeHistoryItemsForModel ([ex_hello] @
     (let pause = historyRowsToAppend ([ex_hello] @ [ex_call ''a'', ex_call ''b'', ex_result ''b'']) (length [ex_hello]) 1;
          resumed = historyRowsToAppend ([ex_hello] @ [ex_call ''a'', ex_call ''b'', ex_result ''b'', ex_result ''a''])
                      (nextWatermark pause) (nextFreePosition pause)
      in map snd (appendRows pause @ appendRows resumed)))
   = [ex_hello] @ [ex_call ''b'', ex_result ''b'']"
  unfolding Let_def
  by (rule approval_after_parallel_call_loses_it [where k = "ex_key ''a''" and k' = "ex_key ''b''" and rb = "ex_result ''b''"
        and a = "ex_call ''a''" and b = "ex_call ''b''" and ra = "ex_result ''a''", OF _ _ _ _ _ _ _ _ refl refl,
        THEN conjunct2, THEN conjunct2])
    (simp_all add: results_answer_def calls_settled_def ex_hello_def)

theorem budget_guard_cuts_at_a_user_message_witness:
  "list_all (\<lambda>it. \<not> isUserMessage it) (tl (guardedItems (enforceInputBudget [ex_hello] 0 0)))"
  using budget_guard_cuts_at_a_user_message [of "[ex_hello]" 0 0] estimateTokens_pos [of "guardedItems (enforceInputBudget [ex_hello] 0 0)"]
  by (simp add: enforceInputBudget_def findKeepBoundary_def boundaries_def Let_def)

theorem trimmed_turn_loses_items_witness:
  "let stored = [ex_hello, ex_message ''user'' ''b'']; msg = ex_message ''user'' ''c'';
       g = enforceInputBudget stored 30 (estimateItemTokens msg) in
   map snd (appendRows (historyRowsToAppend (guardedItems g @ msg # [ex_message ''assistant'' ''d''])
     (reconcileSeedCount [(ex_hello, None), (ex_message ''user'' ''b'', None)] True None) 2))
   = [ex_message ''assistant'' ''d'']"
proof -
  let ?stored = "[ex_hello, ex_message ''user'' ''b'']" and ?msg = "ex_message ''user'' ''c''"
  let ?g = "enforceInputBudget ?stored 30 (estimateItemTokens ?msg)"
  have g: "trimmed ?g" "droppedCount ?g = 1" "guardedItems ?g = [ex_message ''user'' ''b'']" by code_simp+
  have "sanitizeHistoryItemsForModel (applyCodexHistoryStrip [(ex_hello, None), (ex_message ''user'' ''b'', None)] None) = ?stored"
    by (simp add: applyCodexHistoryStrip_def)
      (rule paired_history_unchanged, simp_all add: ex_hello_def results_answer_def calls_settled_def less_Suc_eq)
  from trimmed_turn_loses_items [OF this [symmetric] refl _ g(1), of "[ex_message ''assistant'' ''d'']" 2] g
  show ?thesis by (simp add: Let_def results_answer_def calls_settled_def less_Suc_eq)
qed

end
