(* ===== verification/Context_Props.thy ===== *)
theory Context_Props
  imports Transcript_Props
begin

text \<open>
  What bounds and replaces a conversation: the fallback of a compaction meets its target, a compaction leaves
  messages with one summary at the end, a clear leaves nothing to replay, and a turn on another account is sent no reasoning of the
  first.
\<close>

subsection \<open>The deterministic fallback\<close>

lemma shrinkContent_SomeD:
  "shrinkContent n it m b = Some capped \<Longrightarrow>
   estimateItemTokens capped \<le> m \<and> (\<exists>b'. capped = compactMessageToTokenBudget it b')"
  by (induction n arbitrary: b) (auto simp: Let_def split: if_splits)

lemma capped_SomeD:
  "compactMessageToEstimatedItemBudget it m = Some capped \<Longrightarrow>
   estimateItemTokens capped \<le> m \<and> (\<exists>b'. capped = compactMessageToTokenBudget it b')"
  by (auto simp: compactMessageToEstimatedItemBudget_def Let_def split: if_splits dest: shrinkContent_SomeD)

lemma retainInstructions_budget:
  "0 \<le> remaining \<Longrightarrow> retainInstructions its remaining = (kept, rest) \<Longrightarrow>
   estimateTokens kept + rest = remaining \<and> 0 \<le> rest"
proof (induction its remaining arbitrary: kept rest rule: retainInstructions.induct)
  case (2 it its remaining)
  let ?c = "compactMessageToEstimatedItemBudget it (min 2000 remaining)"
  show ?case
  proof (cases "isInitialInstructionMessage it \<and> \<not> remaining \<le> 0")
    case False
    then show ?thesis using 2(1) 2(5,6) by (auto split: if_splits)
  next
    case True
    show ?thesis
    proof (cases ?c)
      case None
      then show ?thesis using True 2(2) 2(5,6) by simp
    next
      case (Some c)
      show ?thesis
      proof (cases "estimateItemTokens c \<le> remaining")
        case fit: True
        obtain kept' where "retainInstructions its (remaining - estimateItemTokens c) = (kept', rest)" "kept = c # kept'"
          using True Some fit 2(6) by (auto simp: Let_def split: prod.splits)
        then show ?thesis using True Some fit 2(3) [of c "estimateItemTokens c" kept' rest] by simp
      next
        case False
        then show ?thesis using True Some 2(4) [of c "estimateItemTokens c"] 2(5,6) by (simp add: Let_def)
      qed
    qed
  qed
qed simp

lemma retainUsers_budget:
  "0 \<le> remaining \<Longrightarrow> estimateTokens (retainUsers its remaining acc) \<le> estimateTokens acc + remaining"
proof (induction its remaining acc rule: retainUsers.induct)
  case (2 it its remaining acc)
  show ?case
  proof (cases "remaining \<le> 0 \<or> \<not> isUserMessage it \<or> isCompactionSummary it")
    case True
    then show ?thesis using 2 by auto
  next
    case False
    then show ?thesis
      using 2(2) 2(3) 2(4) 2(5) by (cases "compactMessageToEstimatedItemBudget it (min COMPACT_USER_MESSAGE_MAX_TOKENS remaining)")
        (auto simp: Let_def)
  qed
qed simp

text \<open>
  The deterministic fallback of a compaction is estimated at no more than its target, or its summary alone is over the target.
\<close>

theorem fallback_meets_its_target:
  "estimateTokens (buildDeterministicFallbackCompactionHistory items cause targetTokens)
     \<le> max (fallbackTarget items targetTokens) (estimateItemTokens (fallbackSummary cause))"
proof -
  let ?n = "max 0 (fallbackTarget items targetTokens - estimateItemTokens (fallbackSummary cause))"
  obtain kept rest where split: "retainInstructions items ?n = (kept, rest)" by fastforce
  have "estimateTokens kept + rest = ?n \<and> 0 \<le> rest" using retainInstructions_budget [OF _ split] by simp
  moreover have "estimateTokens (retainUsers (rev items) rest []) \<le> rest"
    using retainUsers_budget [of rest "rev items" "[]"] calculation by simp
  ultimately have "estimateTokens kept + estimateTokens (retainUsers (rev items) rest []) \<le> ?n" by linarith
  with split show ?thesis by (simp add: buildDeterministicFallbackCompactionHistory_def Let_def)
qed

subsection \<open>The shape of a replacement\<close>

lemma compact_keeps_fields:
  "k \<noteq> ''content'' \<Longrightarrow> field (compactMessageToTokenBudget it n) k = field it k"
  by (simp add: compactMessageToTokenBudget_def Let_def split: option.splits)

lemma compact_keeps_kind:
  "itemType (compactMessageToTokenBudget it n) = itemType it"
  "isUserMessage (compactMessageToTokenBudget it n) = isUserMessage it"
  "isCompactionSummary (compactMessageToTokenBudget it n) = isCompactionSummary it"
  by (simp_all add: itemType_def isUserMessage_def itemRole_def isCompactionSummary_def COMPACTION_SUMMARY_MARKER_def
      compact_keeps_fields)

definition retained :: "item \<Rightarrow> bool" where
  "retained it \<longleftrightarrow> itemType it = Some (u16 ''message'') \<and> \<not> isCompactionSummary it"

lemma retained_compact: "retained (compactMessageToTokenBudget it n) = retained it"
  by (simp add: retained_def compact_keeps_kind)

lemma instruction_retained: "isInitialInstructionMessage it \<Longrightarrow> retained it"
  by (auto simp: isInitialInstructionMessage_def retained_def isCompactionSummary_def isUserMessage_def)

lemma user_retained: "isUserMessage it \<Longrightarrow> \<not> isCompactionSummary it \<Longrightarrow> retained it"
  by (simp add: retained_def isUserMessage_def)

lemma retainInstructions_retained:
  "retainInstructions its remaining = (kept, rest) \<Longrightarrow> list_all retained kept"
proof (induction its remaining arbitrary: kept rest rule: retainInstructions.induct)
  case (2 it its remaining)
  then show ?case
    by (auto simp: Let_def retained_compact instruction_retained dest!: capped_SomeD
        split: if_splits option.splits prod.splits)
qed simp

lemma retainUsers_retained: "list_all retained acc \<Longrightarrow> list_all retained (retainUsers its remaining acc)"
proof (induction its remaining acc rule: retainUsers.induct)
  case (2 it its remaining acc)
  show ?case
  proof (cases "remaining \<le> 0 \<or> \<not> isUserMessage it \<or> isCompactionSummary it")
    case True
    then show ?thesis using 2 by auto
  next
    case False
    then show ?thesis
      using 2(2) 2(3) 2(4) 2(5) by (cases "compactMessageToEstimatedItemBudget it (min COMPACT_USER_MESSAGE_MAX_TOKENS remaining)")
        (auto simp: Let_def retained_compact user_retained dest: capped_SomeD)
  qed
qed simp

lemma summary_item: "isCompactionSummary (buildSummaryItem b)" "itemType (buildSummaryItem b) = Some (u16 ''message'')"
  by (simp_all add: isCompactionSummary_def isUserMessage_def itemType_def itemRole_def buildSummaryItem_def field_def
      COMPACTION_SUMMARY_MARKER_def)

lemma chooseReplacement_shape:
  assumes "chooseReplacement items must bound threshold attempt = (repl, m)"
  shows "\<exists>kept b. repl = kept @ [buildSummaryItem b] \<and> list_all retained kept"
proof -
  have "\<exists>kept b. buildDeterministicFallbackCompactionHistory items cause t = kept @ [buildSummaryItem b] \<and> list_all retained kept"
    for cause t
  proof -
    let ?n = "max 0 (fallbackTarget items t - estimateItemTokens (fallbackSummary cause))"
    obtain kept rest where split: "retainInstructions items ?n = (kept, rest)" by fastforce
    have "buildDeterministicFallbackCompactionHistory items cause t = (kept @ retainUsers (rev items) rest []) @ [fallbackSummary cause]"
      using split by (simp add: buildDeterministicFallbackCompactionHistory_def Let_def)
    moreover have "list_all retained (kept @ retainUsers (rev items) rest [])"
      using retainInstructions_retained [OF split] retainUsers_retained [of "[]"] by simp
    ultimately show ?thesis unfolding fallbackSummary_def by blast
  qed
  moreover have "\<exists>kept b'. buildCompactionReplacementHistory items b = kept @ [buildSummaryItem b'] \<and> list_all retained kept" for b
  proof -
    have "list_all retained (map compactUserMessage (filter (\<lambda>it. isUserMessage it \<and> \<not> isCompactionSummary it) items))"
      by (auto simp: list_all_iff compactUserMessage_def retained_compact user_retained)
    then show ?thesis unfolding buildCompactionReplacementHistory_def by blast
  qed
  ultimately show ?thesis
    using assms by (auto simp: chooseReplacement_def Let_def split: option.splits if_splits)
qed

subsection \<open>Compacting the table\<close>

definition deactivated :: "history_row \<Rightarrow> history_row" where
  "deactivated r = r\<lparr>h_active := False\<rparr>"

lemma supersede_all:
  assumes "positions_below s p rows"
  shows "update_where (\<lambda>r. in_session s r \<and> h_active r \<and> h_position r < p) (h_active_update (\<lambda>_. False)) rows
       = map (\<lambda>r. if in_session s r then deactivated r else r) rows"
  unfolding update_where_def
proof (rule map_cong [OF refl])
  fix r
  assume "r \<in> set rows"
  with assms have "in_session s r \<Longrightarrow> h_position r < p" by (auto simp: positions_below_def list_all_iff)
  then show "(if in_session s r \<and> h_active r \<and> h_position r < p then r\<lparr>h_active := False\<rparr> else r)
      = (if in_session s r then deactivated r else r)"
    by (cases r) (auto simp: deactivated_def)
qed

lemma superseded_facts:
  fixes s :: history_scope and rows :: "history_row list"
  defines "after \<equiv> map (\<lambda>r. if in_session s r then deactivated r else r) rows"
  shows "positions_below s p after = positions_below s p rows"
    and "select_where (\<lambda>r. in_session s r \<and> h_active r) after = []"
    and "map deactivated after = map deactivated rows"
    and "map h_position (select_where (in_session s) after) = map h_position (select_where (in_session s) rows)"
  unfolding after_def
  by (induction rows) (auto simp: positions_below_def deactivated_def in_session_def select_where_def)

lemma applied_compaction:
  assumes "p = nextSessionHistoryPosition s db"
  shows "map h_item (getActiveSessionHistoryItems s
            (applyContextCompaction s t (of_int p) (numbered p its) (of_int (p + int (length its))) final db))
          = map storedItem (its @ [final])"
    and "map deactivated (take (length (history_items db)) (history_items
            (applyContextCompaction s t (of_int p) (numbered p its) (of_int (p + int (length its))) final db)))
          = map deactivated (history_items db)"
proof -
  let ?P = "\<lambda>r. in_session s r \<and> h_active r"
  let ?after = "map (\<lambda>r. if in_session s r then deactivated r else r) (history_items db)"
  let ?db' = "applyContextCompaction s t (of_int p) (numbered p its) (of_int (p + int (length its))) final db"
  let ?new = "map (historyRow s None None) (numbered p its) @ [historyRow s t None (of_int (p + int (length its)), final)]"
  have below: "positions_below s (of_int p) (history_items db)" using positions_below_next assms by simp
  then have after: "positions_below s (of_int p) ?after" by (simp add: superseded_facts)
  have rows: "history_items ?db' = ?after @ ?new"
    using fold_insert_fresh(2) [OF after] insert_fresh(2) [where s = s and e = "(of_int (p + int (length its)), final)"]
      positions_below_numbered [OF after] supersede_all [OF below]
    by (simp add: applyContextCompaction_def Let_def)
  have "select_where ?P (history_items ?db') = ?new"
    using rows superseded_facts(2) [of s "history_items db"] by (auto simp: select_where_def filter_id_conv)
  moreover have "sorted (map h_position ?new)"
    using sorted_numbered [of p "its @ [final]"] by (simp add: numbered_append comp_def)
  ultimately have "getActiveSessionHistoryItems s ?db' = ?new"
    using sort_key_append_above [of "[]" ?new h_position] by (simp add: getActiveSessionHistoryItems_def)
  then show "map h_item (getActiveSessionHistoryItems s ?db') = map storedItem (its @ [final])"
    by (simp del: map_map)
  show "map deactivated (take (length (history_items db)) (history_items ?db')) = map deactivated (history_items db)"
    using rows superseded_facts(3) [of s "history_items db"] by simp
qed

text \<open>\<open>kept\<close> are messages of \<open>items\<close>, in their order, each perhaps cut to a budget.\<close>

definition cut_to :: "item \<Rightarrow> item \<Rightarrow> bool" where
  "cut_to it it' \<longleftrightarrow> (\<exists>n. it' = compactMessageToTokenBudget it n)"

definition cuts_of :: "item list \<Rightarrow> item list \<Rightarrow> bool" where
  "cuts_of items kept \<longleftrightarrow> (\<exists>src. subseq src items \<and> list_all2 cut_to src kept)"

lemma cuts_of_Nil: "cuts_of items []"
  by (simp add: cuts_of_def)

lemma cuts_of_skip: "cuts_of items kept \<Longrightarrow> cuts_of (it # items) kept"
  by (auto simp: cuts_of_def)

lemma cuts_of_cut: "cut_to it c \<Longrightarrow> cuts_of items kept \<Longrightarrow> cuts_of (it # items) (c # kept)"
  unfolding cuts_of_def by (metis list_all2_Cons subseq_Cons2)

lemma cuts_of_append: "cuts_of xs ks \<Longrightarrow> cuts_of ys ls \<Longrightarrow> cuts_of (xs @ ys) (ks @ ls)"
  unfolding cuts_of_def by (meson list_all2_appendI list_emb_append_mono)

lemma capped_cut: "compactMessageToEstimatedItemBudget it m = Some c \<Longrightarrow> cut_to it c"
  unfolding cut_to_def using capped_SomeD by blast

lemma cuts_of_sub: "subseq xs ys \<Longrightarrow> cuts_of xs kept \<Longrightarrow> cuts_of ys kept"
  unfolding cuts_of_def using subseq_order.trans by blast

lemma retainInstructions_cuts:
  "retainInstructions its remaining = (kept, rest) \<Longrightarrow> cuts_of (takeWhile (\<lambda>it. \<not> isUserMessage it) its) kept"
proof (induction its remaining arbitrary: kept rest rule: retainInstructions.induct)
  case (2 it its remaining)
  have u: "isInitialInstructionMessage it \<Longrightarrow> \<not> isUserMessage it"
    by (auto simp: isInitialInstructionMessage_def isUserMessage_def)
  show ?case
    using 2 u by (auto simp: Let_def cuts_of_Nil cuts_of_skip cuts_of_cut capped_cut
        split: if_splits option.splits prod.splits)
qed (simp add: cuts_of_Nil)

lemma retainUsers_cuts: "cuts_of ys acc \<Longrightarrow> cuts_of (rev its @ ys) (retainUsers its remaining acc)"
proof (induction its arbitrary: ys remaining acc)
  case (Cons it its)
  have "cuts_of (it # ys) acc'" if "acc' = acc \<or> (\<exists>c. acc' = c # acc \<and> cut_to it c)" for acc'
    using that Cons.prems by (auto simp: cuts_of_skip cuts_of_cut)
  moreover have "cuts_of (rev (it # its) @ ys) acc"
    by (rule cuts_of_sub [OF _ Cons.prems]) (auto intro!: list_emb_append2 list_emb_Cons)
  ultimately show ?case
    using Cons.IH [of "it # ys"] capped_cut [of it]
    by (auto simp: Let_def split: option.splits)
qed simp

lemma retainUsers_filter: "retainUsers its remaining acc = retainUsers (filter isUserMessage its) remaining acc"
proof (induction its remaining acc rule: retainUsers.induct)
  case (2 it its remaining acc)
  have "remaining \<le> 0 \<Longrightarrow> retainUsers zs remaining acc = acc" for zs by (cases zs) simp_all
  with 2 show ?case
    by (cases "isUserMessage it \<and> \<not> isCompactionSummary it") (auto simp: Let_def split: option.splits)
qed simp

lemma fallback_cuts:
  assumes "retainInstructions items n = (instructions, rest)"
  shows "cuts_of items (instructions @ retainUsers (rev items) rest [])"
proof -
  let ?p = "\<lambda>it. \<not> isUserMessage it"
  have "retainUsers (rev items) rest [] = retainUsers (rev (filter isUserMessage items)) rest []"
    by (simp add: retainUsers_filter [of "rev items"] rev_filter)
  then have "cuts_of (filter isUserMessage items) (retainUsers (rev items) rest [])"
    using retainUsers_cuts [OF cuts_of_Nil [of "[]"], of "rev (filter isUserMessage items)" rest] by simp
  moreover have "subseq (takeWhile ?p items @ filter isUserMessage items) items"
  proof -
    have "filter isUserMessage items = filter isUserMessage (dropWhile ?p items)"
      by (induction items) auto
    then show ?thesis
      using list_emb_append_mono [of "(=)" "takeWhile ?p items" "takeWhile ?p items" "filter isUserMessage items" "dropWhile ?p items"]
      by (simp add: subseq_filter_left)
  qed
  ultimately show ?thesis
    using cuts_of_append [OF retainInstructions_cuts [OF assms]] cuts_of_sub by blast
qed

text \<open>
  What a compaction must stay below when it has to shrink: the estimate before it, and the signal it was decided on.
\<close>

definition shrink_bound :: "compacted \<Rightarrow> int" where
  "shrink_bound r = min (estimatedBefore r) (if compactSignal r > 0 then compactSignal r else estimatedBefore r)"

definition user_messages :: "item list \<Rightarrow> item list" where
  "user_messages items = filter (\<lambda>it. isUserMessage it \<and> \<not> isCompactionSummary it) items"

text \<open>The two ways to replace \<open>items\<close>: by the summarizer's answer, or by what fits a budget.\<close>

definition by_summary :: "item list \<Rightarrow> jstr \<Rightarrow> item list \<Rightarrow> item \<Rightarrow> bool" where
  "by_summary items body kept final \<longleftrightarrow>
     kept = map compactUserMessage (user_messages items) \<and> final = buildSummaryItem body"

definition by_fallback :: "item list \<Rightarrow> int \<Rightarrow> item list \<Rightarrow> item \<Rightarrow> bool" where
  "by_fallback items target kept final \<longleftrightarrow>
     (\<exists>cause instructions rest. final = fallbackSummary (Some cause)
        \<and> retainInstructions items (max 0 (fallbackTarget items (Some target) - estimateItemTokens final)) = (instructions, rest)
        \<and> kept = instructions @ retainUsers (rev items) rest [])"

lemma fallback_parts:
  assumes "buildDeterministicFallbackCompactionHistory items (Some cause) (Some target) = repl"
  shows "\<exists>kept final. repl = kept @ [final] \<and> by_fallback items target kept final"
proof -
  let ?n = "max 0 (fallbackTarget items (Some target) - estimateItemTokens (fallbackSummary (Some cause)))"
  obtain instructions rest where split: "retainInstructions items ?n = (instructions, rest)" by fastforce
  with assms have "repl = (instructions @ retainUsers (rev items) rest []) @ [fallbackSummary (Some cause)]"
    by (simp add: buildDeterministicFallbackCompactionHistory_def Let_def)
  with split show ?thesis unfolding by_fallback_def by blast
qed

lemma by_fallback_facts:
  assumes "by_fallback items target kept final"
  shows "cuts_of items kept" "list_all retained kept" "isCompactionSummary final"
    "estimateTokens kept \<le> max 0 (fallbackTarget items (Some target) - estimateItemTokens final)"
proof -
  let ?n = "max 0 (fallbackTarget items (Some target) - estimateItemTokens final)"
  obtain cause instructions rest where p: "final = fallbackSummary (Some cause)"
      "retainInstructions items ?n = (instructions, rest)" "kept = instructions @ retainUsers (rev items) rest []"
    using assms by (auto simp: by_fallback_def)
  show "cuts_of items kept" using fallback_cuts [OF p(2)] p(3) by simp
  show "list_all retained kept"
    using retainInstructions_retained [OF p(2)] retainUsers_retained [of "[]"] p(3) by simp
  show "isCompactionSummary final" using p(1) summary_item by (simp add: fallbackSummary_def)
  have "estimateTokens instructions + rest = ?n \<and> 0 \<le> rest" using retainInstructions_budget [OF _ p(2)] by simp
  with retainUsers_budget [of rest "rev items" "[]"] p(3) show "estimateTokens kept \<le> ?n" by simp
qed

lemma by_summary_facts:
  assumes "by_summary items body kept final"
  shows "cuts_of items kept" "list_all retained kept" "isCompactionSummary final"
proof -
  have "list_all2 cut_to xs (map compactUserMessage xs)" for xs
    by (induction xs) (auto simp: cut_to_def compactUserMessage_def)
  then show "cuts_of items kept"
    using assms unfolding cuts_of_def by_summary_def user_messages_def by (metis subseq_filter_left)
qed (use assms in \<open>auto simp: by_summary_def user_messages_def list_all_iff compactUserMessage_def retained_compact
      user_retained summary_item\<close>)

text \<open>
  C27: After a compaction the active history is the replacement: when the summarizer answered and its replacement is small enough, every
  user message of the sanitized active history, in order and cut to the budget of a message, then its answer; otherwise the fallback's
  instructions and newest user messages, which fit the fallback's budget, then the note of the failure. Everything kept is a message of
  the active history in its order, perhaps cut, and none is a summary but the last item. The estimates are those reported. Unless it
  was forced and need not shrink, the replacement is estimated below the history before and below the signal that
  triggered it. No row is deleted or changed but for its active flag.
\<close>

theorem compaction_replaces_the_active_history:
  assumes "maybeCompactContext summarize settings s turnId lastInputTokens force mustShrink db = (db', Compacted r)"
  defines "items \<equiv> sanitizeHistoryItemsForModel (map h_item (getActiveSessionHistoryItems s db))"
    and "answer \<equiv> fst (summarizeTwice summarize (buildCompactionPromptInput
           (sanitizeHistoryItemsForModel (map h_item (getActiveSessionHistoryItems s db)))) (compactThreshold r))"
  shows "\<exists>kept final. map h_item (getActiveSessionHistoryItems s db') = map storedItem (kept @ [final])
      \<and> (case compactMethod r of
           BySummary \<Rightarrow> \<exists>body. answer = Some body \<and> by_summary items body kept final
         | ByFallback \<Rightarrow>
             by_fallback items (max 1 (min (max 1 (shrink_bound r div 2)) (max 1 (max 1 (compactThreshold r) div 2)))) kept final
             \<and> (\<forall>body. answer = Some body \<longrightarrow>
                  shrink_bound r \<le> estimateTokens (map compactUserMessage (user_messages items) @ [buildSummaryItem body])))
      \<and> cuts_of items kept \<and> list_all retained kept \<and> isCompactionSummary final
      \<and> estimatedBefore r = estimateTokens items \<and> estimatedAfter r = estimateTokens (kept @ [final])
      \<and> (mustShrink \<or> \<not> force \<longrightarrow> estimatedAfter r < shrink_bound r)
      \<and> map deactivated (take (length (history_items db)) (history_items db')) = map deactivated (history_items db)"
proof -
  define decision where "decision = decideClientCompaction settings items lastInputTokens force"
  define bound where "bound = min (estimateTokens items)
      (if signalTokens decision > 0 then signalTokens decision else estimateTokens items)"
  define must where "must = (mustShrink \<or> decisionReason decision = AboveThreshold)"
  let ?attempt = "summarizeTwice summarize (buildCompactionPromptInput items) (thresholdTokens decision)"
  obtain repl m where choice: "chooseReplacement items must bound (thresholdTokens decision) ?attempt = (repl, m)" by fastforce
  let ?p = "nextSessionHistoryPosition s db"
  have written: "shouldCompact decision" "db' = applyContextCompaction s turnId (of_int ?p) (numbered ?p (butlast repl))
        (of_int (?p + int (length (butlast repl)))) (List.last repl) db"
      "estimatedBefore r = estimateTokens items" "estimatedAfter r = estimateTokens repl" "compactMethod r = m"
      "compactSignal r = signalTokens decision" "compactThreshold r = thresholdTokens decision"
      "must \<Longrightarrow> estimateTokens repl < bound"
    using assms(1) unfolding maybeCompactContext_def Let_def items_def [symmetric] decision_def [symmetric]
      bound_def [symmetric] must_def [symmetric] choice
    by (auto simp: numbered_def split: if_splits)
  have b: "shrink_bound r = bound" by (simp add: shrink_bound_def bound_def written)
  have a: "answer = fst ?attempt" by (simp add: answer_def items_def written)
  have must: "mustShrink \<or> \<not> force \<Longrightarrow> must"
    using written(1) by (auto simp: must_def decision_def decideClientCompaction_def Let_def split: if_splits)
  let ?target = "max 1 (min (max 1 (bound div 2)) (max 1 (max 1 (thresholdTokens decision) div 2)))"
  obtain kept final where repl: "repl = kept @ [final]" and how: "case m of
           BySummary \<Rightarrow> \<exists>body. answer = Some body \<and> by_summary items body kept final
         | ByFallback \<Rightarrow> by_fallback items ?target kept final
             \<and> (\<forall>body. answer = Some body \<longrightarrow>
                  bound \<le> estimateTokens (map compactUserMessage (user_messages items) @ [buildSummaryItem body]))"
  proof (cases "\<exists>body. answer = Some body \<and> (\<not> must \<or> estimateTokens (buildCompactionReplacementHistory items body) < bound)")
    case True
    then obtain body where "answer = Some body" "repl = buildCompactionReplacementHistory items body" "m = BySummary"
      using choice a by (auto simp: chooseReplacement_def Let_def)
    then show ?thesis
      by (intro that) (auto simp: by_summary_def buildCompactionReplacementHistory_def user_messages_def)
  next
    case False
    then obtain cause where m: "m = ByFallback" "buildDeterministicFallbackCompactionHistory items (Some cause) (Some ?target) = repl"
      using choice a by (auto simp: chooseReplacement_def Let_def split: option.splits if_splits)
    from fallback_parts [OF m(2)] obtain kept final where f: "repl = kept @ [final]" "by_fallback items ?target kept final" by blast
    have built: "buildCompactionReplacementHistory items body = map compactUserMessage (user_messages items) @ [buildSummaryItem body]"
      for body by (simp add: buildCompactionReplacementHistory_def user_messages_def)
    have n: "\<forall>body. answer = Some body \<longrightarrow>
        bound \<le> estimateTokens (map compactUserMessage (user_messages items) @ [buildSummaryItem body])"
      unfolding built [symmetric]
    proof (intro allI impI, rule ccontr)
      fix body assume "answer = Some body" "\<not> bound \<le> estimateTokens (buildCompactionReplacementHistory items body)"
      with False show False unfolding not_le by blast
    qed
    show ?thesis by (rule that [OF f(1)], unfold m(1) compact_method.case) (rule conjI [OF f(2) n])
  qed
  have kept: "cuts_of items kept \<and> list_all retained kept \<and> isCompactionSummary final"
  proof (cases m)
    case BySummary
    from how obtain body where "by_summary items body kept final" unfolding BySummary compact_method.case by blast
    then show ?thesis by (intro conjI by_summary_facts)
  next
    case ByFallback
    from how have "by_fallback items ?target kept final" unfolding ByFallback compact_method.case by blast
    then show ?thesis by (intro conjI by_fallback_facts)
  qed
  from applied_compaction [where s = s and db = db and t = turnId and its = kept and final = final, OF refl] written repl
  have "map h_item (getActiveSessionHistoryItems s db') = map storedItem (kept @ [final])"
      "map deactivated (take (length (history_items db)) (history_items db')) = map deactivated (history_items db)"
    by simp_all
  moreover have "mustShrink \<or> \<not> force \<longrightarrow> estimatedAfter r < shrink_bound r"
    using must written(4,8) b by simp
  ultimately show ?thesis
    using kept how written(3,4) repl unfolding b [symmetric] written(5,7) [symmetric] by blast
qed

subsection \<open>Clearing\<close>

lemma stored_marker: "storedItem clearedContextMarkerItem = clearedContextMarkerItem"
  by code_simp

lemma untouched_blob:
  assumes "parse blob = Some (VObj [(u16 CLEARED_RUN_STATE_MARKER, VBool True)])"
  shows "rewriteSerialized parse f blob = blob"
  using assms by (simp add: rewriteSerialized_def onRunStateItems_def on_field_def CLEARED_RUN_STATE_MARKER_def)

lemma sanitize_plain: "plain m \<Longrightarrow> sanitizeHistoryItemsForModel [m] = [m]"
  by (intro paired_history_unchanged) (simp_all add: plain_def results_answer_def calls_settled_def)

lemma marker_facts: "plain clearedContextMarkerItem" "itemType clearedContextMarkerItem = Some (u16 ''message'')"
  by (simp_all add: plain_def roleOf_def is_reasoning_def itemType_def clearedContextMarkerItem_def field_def
      TOOL_CALL_RESULT_TYPE_BY_CALL_TYPE_def RESULT_TYPES_def callIdOf_def providerCallId_def split: option.splits)

lemma guard_single: "guardAssembledInput [m] msg budget = [m, msg]"
proof -
  have "findKeepBoundary [m] n = 0" for n
    by (simp add: findKeepBoundary_def boundaries_def)
  then show ?thesis by (simp add: guardAssembledInput_def enforceInputBudget_def Let_def split: option.splits)
qed

lemma fresh_marker:
  assumes "p = (case map h_position (select_where (in_session s) rows) of [] \<Rightarrow> - 1 | q # qs \<Rightarrow> foldl max q qs) + 1"
  shows "positions_below s p rows"
  unfolding positions_below_def list_all_iff
proof (intro ballI impI)
  fix r
  assume r: "r \<in> set rows" "in_session s r"
  let ?ps = "map h_position (select_where (in_session s) rows)"
  have "h_position r \<in> set ?ps" using r by (auto simp: set_select_where)
  then obtain q qs where ps: "?ps = q # qs" by (cases ?ps) auto
  with \<open>h_position r \<in> set ?ps\<close> have "h_position r \<le> foldl max q qs" by (intro foldl_max_ge) simp
  with ps assms show "h_position r < p" by simp
qed

lemma latest_snoc:
  "(\<And>x. x \<in> set (r # rs) \<Longrightarrow> r_created_at x \<le> r_created_at y) \<Longrightarrow>
   foldl (\<lambda>best x. if r_created_at best \<le> r_created_at x then x else best) r (rs @ [y]) = y"
proof -
  assume "\<And>x. x \<in> set (r # rs) \<Longrightarrow> r_created_at x \<le> r_created_at y"
  moreover have "foldl (\<lambda>best x. if r_created_at best \<le> r_created_at x then x else best) r rs \<in> set (r # rs)"
    by (induction rs arbitrary: r) auto
  ultimately show ?thesis by simp
qed

text \<open>
  C28: After a clear, whatever was stored and on whatever account and settings, the next message is sent with nothing but the marker before
  it, or alone when history is read from run states; no row of the transcript is deleted.
\<close>

theorem cleared_context_is_not_replayed:
  assumes "clearSessionContext s now db = (db', out)"
    and "\<forall>r \<in> set (run_states db). r_created_at r \<le> now"
    and "parse CLEARED_RUN_STATE_BLOB = Some (VObj [(u16 CLEARED_RUN_STATE_MARKER, VBool True)])"
  shows "messageInput parse historyOf settings itemsSource s current txt db'
      = Inr (if itemsSource then InputItems [clearedContextMarkerItem, userMessage txt] else InputText txt, itemsSource)
    \<and> map deactivated (take (length (history_items db)) (history_items db')) = map deactivated (history_items db)"
proof -
  let ?P = "\<lambda>r. in_session s r \<and> h_active r"
  let ?superseded = "update_where ?P (h_active_update (\<lambda>_. False)) (history_items db)"
  define p where "p = (case map h_position (select_where (in_session s) ?superseded) of [] \<Rightarrow> - 1 | q # qs \<Rightarrow> foldl max q qs) + 1"
  let ?row = "historyRow s None None (p, clearedContextMarkerItem)"
  let ?state = "\<lparr>r_workspace_id = hs_workspace s, r_session_id = hs_session s, r_turn_id = None,
      r_version = nextStateVersion s db, r_serialized = CLEARED_RUN_STATE_BLOB, r_frozen_account = None, r_created_at = now\<rparr>"
  have below: "positions_below s p ?superseded" using p_def by (rule fresh_marker)
  have tables: "history_items db' = ?superseded @ [?row]" "run_states db' = run_states db @ [?state]"
    using assms(1) insert_fresh(1) [where s = s and e = "(p, clearedContextMarkerItem)" and rows = ?superseded] below
    by (auto simp: clearSessionContext_def Let_def p_def [symmetric] saveRunState_def setSessionLastInputTokens_def nextStateVersion_def)
  have "select_where ?P ?superseded = []"
    by (auto simp: select_where_def update_where_def filter_empty_conv in_session_def)
  then have active: "getActiveSessionHistoryItems s db' = [?row]"
    using tables(1) by (simp add: getActiveSessionHistoryItems_def select_where_def)
  have "of_session s ?state" by (simp add: of_session_def)
  then have rows: "select_where (of_session s) (run_states db') = select_where (of_session s) (run_states db) @ [?state]"
    using tables(2) by (simp add: select_where_def)
  have latest: "getLatestRunState s db' = Some ?state"
  proof (cases "select_where (of_session s) (run_states db)")
    case Nil
    with rows show ?thesis by (simp add: getLatestRunState_def)
  next
    case (Cons r rs)
    then have "set (r # rs) \<subseteq> set (run_states db)" by (metis select_where_def filter_is_subset)
    then have "foldl (\<lambda>best x. if r_created_at best \<le> r_created_at x then x else best) r (rs @ [?state]) = ?state"
      using assms(2) by (intro latest_snoc) auto
    with rows Cons show ?thesis by (simp add: getLatestRunState_def)
  qed
  have "isClearedRunStateBlob parse CLEARED_RUN_STATE_BLOB"
    using assms(3) by (simp add: isClearedRunStateBlob_def field_def CLEARED_RUN_STATE_BLOB_def)
  moreover have "CLEARED_RUN_STATE_BLOB \<noteq> []" by (simp add: CLEARED_RUN_STATE_BLOB_def)
  moreover have "resumeRunStateForCodexAccount parse ?state current = CLEARED_RUN_STATE_BLOB"
    using untouched_blob [where parse = parse and blob = CLEARED_RUN_STATE_BLOB] assms(3)
    by (simp add: resumeRunStateForCodexAccount_def neutralizeToolSearchItemsInSerializedRunState_def
        stripReasoningIdentityFromSerializedRunState_def)
  moreover have "applyCodexHistoryStrip [(clearedContextMarkerItem, None)] current = [clearedContextMarkerItem]"
    by (simp add: applyCodexHistoryStrip_def marker_facts)
  ultimately have "messageInput parse historyOf settings itemsSource s current txt db'
      = Inr (if itemsSource then InputItems [clearedContextMarkerItem, userMessage txt] else InputText txt, itemsSource)"
    using active latest sanitize_plain [OF marker_facts(1)] guard_single
    by (simp add: messageInput_def prepareRunInput_def Let_def withProducer_def stored_marker)
  moreover have "map deactivated ?superseded = map deactivated (history_items db)"
    by (auto simp: update_where_def deactivated_def)
  ultimately show ?thesis using tables(1) by simp
qed

subsection \<open>Another account's history\<close>

definition account_bound_types :: "jstr list" where
  "account_bound_types = map u16 [''reasoning'', ''tool_search_call'', ''tool_search_output'', ''compaction'']"

definition ordinary :: "item \<Rightarrow> bool" where
  "ordinary it \<longleftrightarrow> (case itemType it of Some t \<Rightarrow> t \<notin> set account_bound_types | None \<Rightarrow> True)"

definition has_blob :: "item \<Rightarrow> bool" where
  "has_blob it \<longleftrightarrow>
     has_prop it ''encrypted_content''
     \<or> (case fields_of (field it ''providerData'') of
          Some p \<Rightarrow> has_prop p ''encryptedContent'' \<or> has_prop p ''encrypted_content''
        | None \<Rightarrow> False)"

lemma strip_keeps_fields:
  "k \<noteq> ''providerData'' \<Longrightarrow> k \<noteq> ''encrypted_content'' \<Longrightarrow> field (stripReasoningEncryptedContent it) k = field it k"
  by (simp add: stripReasoningEncryptedContent_def Let_def)

lemma strip_removes_blob:
  "itemType it = Some (u16 ''compaction'') \<Longrightarrow> \<not> has_blob (stripReasoningEncryptedContent it)"
  by (auto simp: stripReasoningEncryptedContent_def has_blob_def has_prop_iff Let_def split: option.splits)

lemma strip_type [simp]: "itemType (stripReasoningEncryptedContent it) = itemType it"
  by (simp add: itemType_def strip_keeps_fields)

lemma strip_rows_Cons:
  "applyCodexHistoryStrip ((it, producer) # rows) current =
     (if producer = current \<or> ordinary it then [it]
      else if itemType it = Some (u16 ''compaction'') then [stripReasoningEncryptedContent it] else [])
     @ applyCodexHistoryStrip rows current"
  by (auto simp: applyCodexHistoryStrip_def ordinary_def account_bound_types_def Let_def split: option.splits)

text \<open>
  Of the items another account produced, a turn is sent no reasoning and no connector search, and a compaction item without its
  encrypted part; what is neither is sent as it is stored, in order; and with one account nothing changes.
\<close>

theorem foreign_account_items_are_stripped:
  "(\<forall>it \<in> set (applyCodexHistoryStrip rows current).
      ordinary it \<or> (it, current) \<in> set rows \<or> itemType it = Some (u16 ''compaction'') \<and> \<not> has_blob it)
   \<and> filter ordinary (applyCodexHistoryStrip rows current) = filter ordinary (map fst rows)
   \<and> ((\<forall>r \<in> set rows. snd r = current) \<longrightarrow> applyCodexHistoryStrip rows current = map fst rows)"
proof (induction rows)
  case Nil
  show ?case by (simp add: applyCodexHistoryStrip_def)
next
  case (Cons row rows)
  obtain it producer where row: "row = (it, producer)" by (cases row)
  have "\<not> ordinary x" if "itemType x = Some (u16 ''compaction'')" for x
    using that by (simp add: ordinary_def account_bound_types_def)
  with Cons.IH row show ?case
    by (cases "producer = current \<or> ordinary it"; cases "itemType it = Some (u16 ''compaction'')")
      (auto simp: strip_rows_Cons strip_removes_blob)
qed

subsection \<open>A serialized run state resumed on another account\<close>

fun elements :: "jsval \<Rightarrow> jsval list" where
  "elements (VArr xs) = xs"
| "elements v = []"

fun at_key :: "string \<Rightarrow> jsval \<Rightarrow> jsval list" where
  "at_key k (VObj fs) = (case field fs k of Some v \<Rightarrow> [v] | None \<Rightarrow> [])"
| "at_key k v = []"

text \<open>The protocol items a run state holds, place by place.\<close>

definition runStateItems :: "jsval \<Rightarrow> jsval list" where
  "runStateItems doc =
     concat (map elements (at_key ''originalInput'' doc))
     @ concat (map (at_key ''rawItem'') (concat (map elements (at_key ''generatedItems'' doc))))
     @ concat (map (\<lambda>r. concat (map elements (at_key ''output'' r))) (concat (map elements (at_key ''modelResponses'' doc))))
     @ concat (map (\<lambda>r. concat (map elements (at_key ''output'' r))) (at_key ''lastModelResponse'' doc))"

lemma field_on_field: "field (on_field k f it) j = (if j = k then map_option f (field it j) else field it j)"
  unfolding field_def on_field_def by (induction it) auto

lemma elements_on_array [simp]: "elements (on_array f v) = map f (elements v)"
  by (cases v) simp_all

lemma at_key_on_object: "at_key k (on_object (on_field k f) v) = map f (at_key k v)"
  by (cases v) (simp_all add: field_on_field split: option.splits)

lemma runStateItems_map: "runStateItems (onRunStateItems f doc) = map f (runStateItems doc)"
proof (cases doc)
  case (VObj fs)
  have outputs: "concat (map elements (at_key ''output'' (on_object (on_field ''output'' (on_array f)) r)))
      = map f (concat (map elements (at_key ''output'' r)))" for r
    by (simp add: at_key_on_object map_concat comp_def)
  show ?thesis
    using VObj
    by (simp add: runStateItems_def onRunStateItems_def Let_def field_on_field option.map_comp
        at_key_on_object outputs map_concat comp_def split: option.splits)
qed (simp_all add: runStateItems_def onRunStateItems_def Let_def)

definition neutral :: "jsval \<Rightarrow> bool" where
  "neutral v \<longleftrightarrow>
     (case v of
        VObj it \<Rightarrow>
          (field it ''type'' = Some (VStr (u16 ''reasoning'')) \<longrightarrow> field it ''id'' = None \<and> \<not> has_blob it)
          \<and> (field it ''type'' \<in> {Some (VStr (u16 ''tool_search_call'')), Some (VStr (u16 ''tool_search_output''))}
             \<longrightarrow> field it ''execution'' = Some (VStr (u16 ''server'')))
      | _ \<Rightarrow> True)"

lemma fields_of_on_object: "fields_of (map_option (on_object g) v) = map_option g (fields_of v)"
  by (cases v rule: fields_of.cases) simp_all

lemma neutral_after: "neutral (neutralizeToolSearch (scrubReasoning v))"
proof (cases v)
  case (VObj it)
  show ?thesis
  proof (cases "field it ''type'' = Some (VStr (u16 ''reasoning''))")
    case True
    then show ?thesis
      using VObj
      by (auto simp: neutral_def neutralizeToolSearch_def scrubReasoning_def field_on_field has_blob_def has_prop_iff
          fields_of_on_object split: option.splits)
  next
    case False
    then show ?thesis using VObj by (auto simp: neutral_def neutralizeToolSearch_def scrubReasoning_def)
  qed
qed (simp_all add: neutral_def neutralizeToolSearch_def scrubReasoning_def)

lemma rewriteSerialized_parses:
  assumes "parse (stringify (onRunStateItems f doc)) = Some (onRunStateItems f doc)" "parse blob = Some doc"
  shows "parse (rewriteSerialized parse f blob) = Some (onRunStateItems f doc)"
  using assms by (auto simp: rewriteSerialized_def)

text \<open>
  A run state resumed on another account than the one that froze it is replayed with as many items as it had: reasoning
  items without id and encrypted part, connector searches marked as the server's; on the same account it is replayed as it is.
  The parser is assumed to read back the two values the code serialises.
\<close>

theorem resumed_run_state_is_neutral:
  assumes "parse (r_serialized state) = Some doc"
    and "scrubbed = onRunStateItems scrubReasoning doc" "parse (stringify scrubbed) = Some scrubbed"
    and "both = onRunStateItems neutralizeToolSearch scrubbed" "parse (stringify both) = Some both"
  shows "\<exists>doc'. parse (resumeRunStateForCodexAccount parse state current) = Some doc'
    \<and> length (runStateItems doc') = length (runStateItems doc)
    \<and> (if r_frozen_account state = current then resumeRunStateForCodexAccount parse state current = r_serialized state
       else list_all neutral (runStateItems doc'))"
proof (cases "r_frozen_account state = current")
  case True
  with assms(1) show ?thesis by (simp add: resumeRunStateForCodexAccount_def)
next
  case False
  have "parse (rewriteSerialized parse scrubReasoning (r_serialized state)) = Some scrubbed"
    using rewriteSerialized_parses [of parse scrubReasoning doc] assms(1-3) by simp
  then have "parse (resumeRunStateForCodexAccount parse state current) = Some both"
    using False rewriteSerialized_parses [of parse neutralizeToolSearch scrubbed] assms(4,5)
    by (simp add: resumeRunStateForCodexAccount_def neutralizeToolSearchItemsInSerializedRunState_def
        stripReasoningIdentityFromSerializedRunState_def)
  with False assms(2,4) show ?thesis by (simp add: runStateItems_map neutral_after list_all_iff)
qed

subsection \<open>Examples\<close>

definition ex_settings :: context_settings where
  "ex_settings = \<lparr>contextCompactionMode = ModeAuto, openaiProvider = ''azure'', contextWindowTokens = 1000,
     contextReservedOutputTokens = 100, contextCompactionThresholdRatio = Some (1/2)\<rparr>"

definition ex_summarizer :: summarizer where
  "ex_summarizer promptInput bound = (case bound of None \<Rightarrow> Inl (u16 ''timeout'') | Some n \<Rightarrow> Inr (Some (u16 ''greeted'')))"

theorem compaction_replaces_the_active_history_witness:
  "\<exists>db' r kept final.
     maybeCompactContext ex_summarizer ex_settings ex_scope (Some ''t'') None True False ex_db = (db', Compacted r)
     \<and> map h_item (getActiveSessionHistoryItems ex_scope db') = map storedItem (kept @ [final])
     \<and> isCompactionSummary final \<and> list_all retained kept \<and> cuts_of [ex_hello] kept"
proof -
  have same: "sanitizeHistoryItemsForModel [ex_hello] = [ex_hello]"
    by (rule sanitize_plain) (simp add: ex_hello_def ex_plain)
  have "\<exists>db' r. maybeCompactContext ex_summarizer ex_settings ex_scope (Some ''t'') None True False ex_db = (db', Compacted r)"
    by (simp add: maybeCompactContext_def resolveContextCompactionMode_def ex_settings_def decideClientCompaction_def
        Let_def same case_prod_beta)
  then obtain db' r where run:
    "maybeCompactContext ex_summarizer ex_settings ex_scope (Some ''t'') None True False ex_db = (db', Compacted r)" by blast
  have active: "map h_item (getActiveSessionHistoryItems ex_scope ex_db) = [ex_hello]" by code_simp
  from compaction_replaces_the_active_history [OF run] obtain kept final where
    "map h_item (getActiveSessionHistoryItems ex_scope db') = map storedItem (kept @ [final])"
    "cuts_of [ex_hello] kept" "list_all retained kept" "isCompactionSummary final"
    unfolding active same by blast
  with run show ?thesis by blast
qed

theorem cleared_context_is_not_replayed_witness:
  "messageInput (\<lambda>s. Some (VObj [(u16 CLEARED_RUN_STATE_MARKER, VBool True)])) (\<lambda>s. None) ex_settings True ex_scope (Some ''account'')
     (u16 ''hi'') (fst (clearSessionContext ex_scope 5 ex_db))
   = Inr (InputItems [clearedContextMarkerItem, userMessage (u16 ''hi'')], True)"
proof -
  obtain db' out where run: "clearSessionContext ex_scope 5 ex_db = (db', out)" by fastforce
  have "\<forall>r \<in> set (run_states ex_db). r_created_at r \<le> 5" by (simp add: ex_db_def)
  from cleared_context_is_not_replayed [OF run this, of "\<lambda>s. Some (VObj [(u16 CLEARED_RUN_STATE_MARKER, VBool True)])"
      "\<lambda>s. None" ex_settings True "Some ''account''" "u16 ''hi''"] run
  show ?thesis by simp
qed

theorem foreign_account_items_are_stripped_witness:
  "applyCodexHistoryStrip [(ex_message ''user'' ''hi'', Some ''B''), (ex_call ''a'', Some ''B'')] (Some ''B'')
   = [ex_message ''user'' ''hi'', ex_call ''a'']"
  using foreign_account_items_are_stripped
    [of "[(ex_message ''user'' ''hi'', Some ''B''), (ex_call ''a'', Some ''B'')]" "Some ''B''"] by simp

definition ex_doc :: "string list \<Rightarrow> jsval" where
  "ex_doc keys = VObj [(u16 ''originalInput'',
     VArr [VObj ((u16 ''type'', VStr (u16 ''reasoning'')) # map (\<lambda>k. (u16 k, VStr (u16 ''x''))) keys)])]"

definition ex_state :: run_state_row where
  "ex_state = \<lparr>r_workspace_id = ''ws'', r_session_id = ''s'', r_turn_id = None, r_version = 1,
     r_serialized = stringify (ex_doc [''id'', ''encrypted_content'']), r_frozen_account = Some ''A'', r_created_at = 0\<rparr>"

definition ex_parse :: "jstr \<Rightarrow> jsval option" where
  "ex_parse s =
     (if s = stringify (ex_doc []) then Some (ex_doc [])
      else if s = stringify (ex_doc [''id'', ''encrypted_content'']) then Some (ex_doc [''id'', ''encrypted_content''])
      else None)"

theorem resumed_run_state_is_neutral_witness:
  "\<exists>doc'. ex_parse (resumeRunStateForCodexAccount ex_parse ex_state (Some ''B'')) = Some doc'
     \<and> length (runStateItems doc') = length (runStateItems (ex_doc [''id'', ''encrypted_content'']))
     \<and> list_all neutral (runStateItems doc')"
proof -
  have parses: "ex_parse (r_serialized ex_state) = Some (ex_doc [''id'', ''encrypted_content''])"
    "ex_parse (stringify (ex_doc [])) = Some (ex_doc [])" by code_simp+
  have steps: "ex_doc [] = onRunStateItems scrubReasoning (ex_doc [''id'', ''encrypted_content''])"
    "ex_doc [] = onRunStateItems neutralizeToolSearch (ex_doc [])" by code_simp+
  from resumed_run_state_is_neutral [OF parses(1) steps(1) parses(2) steps(2) parses(2), of "Some ''B''"]
  show ?thesis by (simp add: ex_state_def)
qed

end
