(* ===== verification/Session_State.thy ===== *)
theory Session_State
  imports Child_Wake
begin

text \<open>
  The activities by which a session workflow moves the durable state of its session
  (\<^verbatim>\<open>apps/worker/src/activities/session-state.ts\<close>) and the completion wake they send to the
  session's parent (\<^verbatim>\<open>parent-wake.ts\<close>). An activity is several transactions: \<open>env i\<close> is what
  other writers do before the \<open>i\<close>-th one, and an error leaves what was committed before it.
  Left out: the queued-turns gauge, the publication on the event bus (a best-effort copy of the
  committed events), logging, and the parent link of a session (a column written once, at
  creation), which is an argument.
\<close>

subsection \<open>The completion wake\<close>

datatype terminal_status = TerminalIdle | TerminalFailed

fun terminal_text :: "terminal_status \<Rightarrow> string" where
  "terminal_text TerminalIdle = ''idle''"
| "terminal_text TerminalFailed = ''failed''"

fun goal_status_text :: "goal_status \<Rightarrow> string" where
  "goal_status_text GActive = ''active''"
| "goal_status_text GPaused = ''paused''"
| "goal_status_text GCompleted = ''completed''"

definition truthy_text :: "jstr option \<Rightarrow> jstr option" where
  "truthy_text x = (case x of Some (c # cs) \<Rightarrow> Some (c # cs) | _ \<Rightarrow> None)"

definition optional_field :: "string \<Rightarrow> jsval option \<Rightarrow> (jstr \<times> jsval) list" where
  "optional_field k v = (case v of None \<Rightarrow> [] | Some x \<Rightarrow> [(u16 k, x)])"

definition childCompletionPayload :: "session_row \<Rightarrow> goal_row option \<Rightarrow> terminal_status \<Rightarrow> jsval" where
  "childCompletionPayload child goal st =
     VObj ([(u16 ''childSessionId'', VStr (u16 (s_id child))), (u16 ''status'', VStr (u16 (terminal_text st)))]
       @ (case goal of
            None \<Rightarrow> []
          | Some g \<Rightarrow> [(u16 ''goal'', VObj (
              [(u16 ''status'', VStr (u16 (goal_status_text (g_status g)))), (u16 ''text'', VStr (g_text g))]
              @ optional_field ''evidence'' (map_option VStr (truthy_text (g_evidence g)))
              @ optional_field ''rationale'' (map_option VStr (truthy_text (g_rationale g)))
              @ optional_field ''pausedReason'' (map_option (\<lambda>r. VStr (u16 (reason_text r))) (g_paused_reason g))))]))"

definition childHeadline :: "session_row \<Rightarrow> goal_row option \<Rightarrow> terminal_status \<Rightarrow> jstr" where
  "childHeadline child goal st = u16 (
     (if st = TerminalFailed then ''A worker session you spawned has FAILED. Worker session id: ''
      else if map_option g_status goal = Some GCompleted
        then ''A worker session you spawned has COMPLETED its goal. Worker session id: ''
      else if map_option g_status goal = Some GPaused
        then ''A worker session you spawned has PAUSED its goal and gone idle. Worker session id: ''
      else ''A worker session you spawned has finished its work and gone idle. Worker session id: '')
     @ s_id child @ ''.'')"

definition childCompletionSummary :: "session_row \<Rightarrow> goal_row option \<Rightarrow> terminal_status \<Rightarrow> jstr" where
  "childCompletionSummary child goal st =
     join_lines (childHeadline child goal st #
       (case goal of
          None \<Rightarrow> []
        | Some g \<Rightarrow> (u16 ''Worker goal: '' @ g_text g)
            # (case truthy_text (g_evidence g) of
                 Some t \<Rightarrow> if g_status g = GCompleted then [u16 ''Completion evidence: '' @ t] else []
               | None \<Rightarrow> [])
            @ (case truthy_text (g_rationale g) of
                 Some t \<Rightarrow> if g_status g = GPaused then [u16 ''Pause rationale: '' @ t] else []
               | None \<Rightarrow> [])))"

definition childCompletionTrailing :: "bool \<Rightarrow> jstr" where
  "childCompletionTrailing parentGoalUserPaused =
     (if parentGoalUserPaused
      then u16 (''Read each worker'' @ [CHR 0x27] @ ''s session events/notebook output for its result. This session was paused by the user ''
             ) @ [0x2014] @ u16 '' do NOT resume or replace your goal; summarize the result for the user and stop.''
      else u16 (''Read each worker'' @ [CHR 0x27] @ ''s session events/notebook output for its result, then continue. If your own goal was paused awaiting these workers, resume it now.''))"

record notify_services =
  ns_enabled :: bool
  ns_parent_of :: "uuid \<Rightarrow> uuid option"
  ns_event_id :: "int \<Rightarrow> uuid"
  ns_turn_id :: uuid
  ns_now :: millis
  ns_reasoning_effort :: string

definition userPaused :: "goal_row option \<Rightarrow> bool" where
  "userPaused goal \<longleftrightarrow> (case goal of
     None \<Rightarrow> False
   | Some g \<Rightarrow> g_status g = GPaused \<and> g_paused_reason g = Some ByUserInterrupt)"

definition notifyInput ::
    "notify_services \<Rightarrow> uuid \<Rightarrow> uuid \<Rightarrow> session_row \<Rightarrow> goal_row option \<Rightarrow> goal_row option \<Rightarrow> terminal_status
      \<Rightarrow> string option \<Rightarrow> wake_input" where
  "notifyInput ns ws parent child goal parentGoal st episodeKey =
     \<lparr>wi_workspace_id = ws, wi_parent_session_id = parent,
      wi_client_event_id = ''child-completion:'' @ s_id child @ '':'' @ or_else episodeKey (int_dec (s_last_sequence child)),
      wi_child_summary = childCompletionSummary child goal st,
      wi_trailing = childCompletionTrailing (userPaused parentGoal),
      wi_child_completion = childCompletionPayload child goal st,
      wi_reasoning_effort_fallback = ns_reasoning_effort ns\<rparr>"

text \<open>The result is the workflow the caller must signal, when a turn was queued for it.\<close>

definition notifyParentOfChildTerminal ::
    "(nat \<Rightarrow> session_db \<Rightarrow> session_db) \<Rightarrow> notify_services \<Rightarrow> uuid \<Rightarrow> uuid \<Rightarrow> terminal_status \<Rightarrow> string option
      \<Rightarrow> session_db \<Rightarrow> session_db \<times> (uuid \<times> string) option" where
  "notifyParentOfChildTerminal env ns ws sid st episodeKey db =
     (if \<not> ns_enabled ns then (db, None)
      else case find_session ws sid db of
        None \<Rightarrow> (db, None)
      | Some child \<Rightarrow>
          (case ns_parent_of ns sid of
             None \<Rightarrow> (db, None)
           | Some parent \<Rightarrow>
               (let db1 = env 0 db; goal = getSessionGoal ws sid db1;
                    db2 = env 1 db1; parentGoal = getSessionGoal ws parent db2;
                    db3 = env 2 db2
                in case wakeParentSessionForChildCompletion (ns_event_id ns) (ns_turn_id ns) (ns_now ns)
                          (notifyInput ns ws parent child goal parentGoal st episodeKey) db3 of
                     Inl _ \<Rightarrow> (db3, None)
                   | Inr (db4, NotDelivered _) \<Rightarrow> (db4, None)
                   | Inr (db4, Passive _ _) \<Rightarrow> (db4, None)
                   | Inr (db4, Delivered _ _ _ _ wid) \<Rightarrow> (db4, Some (parent, wid)))))"

subsection \<open>Failing, interrupting, idling\<close>

definition active_turn :: "session_row \<Rightarrow> uuid option" where
  "active_turn s = (case s_active_turn_id s of Some (c # cs) \<Rightarrow> Some (c # cs) | _ \<Rightarrow> None)"

definition statusEvent :: "uuid option \<Rightarrow> string \<Rightarrow> append_input" where
  "statusEvent tid status =
     (goal_event ''session.status.changed'' [(''status'', VStr (u16 status))])\<lparr>ap_turn_id := tid\<rparr>"

definition trigger_payload :: "session_event option \<Rightarrow> jsval" where
  "trigger_payload trigger = (case trigger of None \<Rightarrow> VNull | Some e \<Rightarrow> ev_payload e)"

definition failedEvent :: "uuid option \<Rightarrow> uuid \<Rightarrow> session_event option \<Rightarrow> jstr option \<Rightarrow> append_input" where
  "failedEvent tid trig trigger err =
     (goal_event ''turn.failed'' [(''triggerEventId'', VStr (u16 trig)), (''trigger'', trigger_payload trigger),
        (''error'', VStr (or_else err (u16 ''Agent activity failed before it could report a terminal state.'')))])
     \<lparr>ap_turn_id := tid\<rparr>"

definition failSession ::
    "(nat \<Rightarrow> session_db \<Rightarrow> session_db) \<Rightarrow> notify_services \<Rightarrow> uuid \<Rightarrow> uuid \<Rightarrow> uuid \<Rightarrow> jstr option
      \<Rightarrow> session_db \<Rightarrow> session_db \<times> session_error option" where
  "failSession env ns ws sid trig err db =
     (case find_session ws sid db of
        None \<Rightarrow> (db, Some (SessionNotFound sid))
      | Some s \<Rightarrow>
          if s_status s = SFailed then (db, None)
          else
            (let db1 = env 0 db; trigger = getSessionEvent ws trig db1; tid = s_active_turn_id s; db2 = env 1 db1
             in case appendSessionEvents (ns_event_id ns) (ns_now ns) ws sid
                       [failedEvent tid trig trigger err, statusEvent tid ''failed''] db2 of
                  Inl e \<Rightarrow> (db2, Some e)
                | Inr (db3, _) \<Rightarrow>
                    (let db4 = (case active_turn s of
                            None \<Rightarrow> db3
                          | Some t \<Rightarrow> finishTurn (ns_now ns) ws t FinFailed (env 2 db3));
                         db5 = setSessionStatus ws sid SFailed (Some None) (env 3 db4)
                     in (fst (notifyParentOfChildTerminal (\<lambda>i. env (i + 5)) ns ws sid TerminalFailed None (env 4 db5)),
                         None))))"

definition queueDrainedEvent :: "uuid \<Rightarrow> uuid list \<Rightarrow> append_input" where
  "queueDrainedEvent trig ids = goal_event ''turn.queue_drained''
     [(''triggerEventId'', VStr (u16 trig)), (''drainedCount'', VNum (int (length ids))),
      (''drainedTurnIds'', VArr (map (\<lambda>i. VStr (u16 i)) ids))]"

definition cancelledEvent :: "uuid \<Rightarrow> uuid \<Rightarrow> session_event option \<Rightarrow> append_input" where
  "cancelledEvent tid trig trigger =
     (goal_event ''turn.cancelled'' [(''triggerEventId'', VStr (u16 trig)), (''reason'', trigger_payload trigger)])
     \<lparr>ap_turn_id := Some tid\<rparr>"

text \<open>What a stop does beyond the active turn: the goal is paused and the queue drained.\<close>

definition stopWork ::
    "(nat \<Rightarrow> session_db \<Rightarrow> session_db) \<Rightarrow> (int \<Rightarrow> uuid) \<Rightarrow> millis \<Rightarrow> uuid \<Rightarrow> uuid \<Rightarrow> uuid \<Rightarrow> session_db
      \<Rightarrow> session_db \<times> session_error option" where
  "stopWork env newId now ws sid trig db =
     (case pauseActiveGoalOnInterrupt (\<lambda>i. env (i + 2)) newId now ws sid (env 1 db) of
        (db1, Some e) \<Rightarrow> (db1, Some e)
      | (db1, None) \<Rightarrow>
          (let (db2, drained) = cancelQueuedSessionTurns now ws sid (env 5 db1) in
           if drained = [] then (db2, None)
           else
             (let db3 = env 6 db2 in
              case appendSessionEvents newId now ws sid [queueDrainedEvent trig drained] db3 of
                Inl e \<Rightarrow> (db3, Some e)
              | Inr (db4, _) \<Rightarrow> (db4, None))))"

definition cancelActive ::
    "(nat \<Rightarrow> session_db \<Rightarrow> session_db) \<Rightarrow> (int \<Rightarrow> uuid) \<Rightarrow> millis \<Rightarrow> uuid \<Rightarrow> uuid \<Rightarrow> uuid \<Rightarrow> session_event option
      \<Rightarrow> uuid option \<Rightarrow> session_db \<Rightarrow> session_db \<times> session_error option" where
  "cancelActive env newId now ws sid trig trigger active db =
     (case active of
        None \<Rightarrow> (db, None)
      | Some t \<Rightarrow>
          (let db1 = env 7 db in
           case appendSessionEvents newId now ws sid
                  [cancelledEvent t trig trigger, statusEvent (Some t) ''queued''] db1 of
             Inl e \<Rightarrow> (db1, Some e)
           | Inr (db2, _) \<Rightarrow>
               (let db3 = finishTurn now ws t FinCancelled (env 8 db2)
                in (setSessionStatus ws sid SQueued (Some None) (env 9 db3), None))))"

definition interruptActiveTurn ::
    "(nat \<Rightarrow> session_db \<Rightarrow> session_db) \<Rightarrow> (int \<Rightarrow> uuid) \<Rightarrow> millis \<Rightarrow> uuid \<Rightarrow> uuid \<Rightarrow> uuid \<Rightarrow> session_db
      \<Rightarrow> session_db \<times> session_error option" where
  "interruptActiveTurn env newId now ws sid trig db =
     (case find_session ws sid db of
        None \<Rightarrow> (db, Some (SessionNotFound sid))
      | Some s \<Rightarrow>
          (let db1 = env 0 db; trigger = getSessionEvent ws trig db1 in
           case (if isSteerInterrupt trigger then (db1, None) else stopWork env newId now ws sid trig db1) of
             (db2, Some e) \<Rightarrow> (db2, Some e)
           | (db2, None) \<Rightarrow> cancelActive env newId now ws sid trig trigger (active_turn s) db2))"

definition markSessionIdle ::
    "(nat \<Rightarrow> session_db \<Rightarrow> session_db) \<Rightarrow> notify_services \<Rightarrow> uuid \<Rightarrow> uuid \<Rightarrow> session_db
      \<Rightarrow> session_db \<times> session_error option" where
  "markSessionIdle env ns ws sid db =
     (case find_session ws sid db of
        None \<Rightarrow> (db, Some (SessionNotFound sid))
      | Some s \<Rightarrow>
          (let db1 = (if s_status s \<in> {SQueued, SRunning} then setSessionStatus ws sid SIdle (Some None) (env 0 db) else db)
           in (fst (notifyParentOfChildTerminal (\<lambda>i. env (i + 2)) ns ws sid TerminalIdle None (env 1 db1)), None)))"

subsection \<open>A dead worker\<close>

definition WORKER_DEATH_MAX_REDISPATCHES :: int where
  "WORKER_DEATH_MAX_REDISPATCHES = 3"

definition WORKER_DEATH_RESUME_TEXT :: jstr where
  "WORKER_DEATH_RESUME_TEXT = join_lines
     [u16 ''[TURN RESUMED AFTER WORKER CRASH] The platform worker running this turn died before the turn finished.'',
      u16 (''Your conversation history above, including this turn'' @ [CHR 0x27] @ ''s earlier work, is preserved up to the last checkpoint; anything in flight after that checkpoint was lost.''),
      u16 ''Continue the original task from where it left off. Before repeating any action with side effects, check whether it already happened.'']"

datatype requeue_result = Requeued int | StaleTurn | Exceeded int

definition preemptedEvent :: "uuid \<Rightarrow> uuid \<Rightarrow> int \<Rightarrow> bool \<Rightarrow> append_input" where
  "preemptedEvent tid trig n resume =
     (goal_event ''turn.preempted''
        ([(''triggerEventId'', VStr (u16 trig)), (''reason'', VStr (u16 ''worker_death'')), (''redispatches'', VNum n),
          (''resumeWithNotice'', VBool resume)]
         @ (if resume then [(''text'', VStr WORKER_DEATH_RESUME_TEXT)] else [])))\<lparr>ap_turn_id := Some tid\<rparr>"

definition requeueable :: "turn_status list" where
  "requeueable = [TRunning, TRequiresAction, TCancelled]"

definition getSessionTurn :: "uuid \<Rightarrow> uuid \<Rightarrow> session_db \<Rightarrow> turn_row option" where
  "getSessionTurn ws tid db = List.find (turn_is ws tid) (session_turns db)"

definition is_requeueable :: "uuid \<Rightarrow> uuid \<Rightarrow> session_db \<Rightarrow> bool" where
  "is_requeueable ws tid db =
     (case getSessionTurn ws tid db of None \<Rightarrow> False | Some t \<Rightarrow> t_status t \<in> set requeueable)"

definition is_approval :: "session_event option \<Rightarrow> bool" where
  "is_approval trigger \<longleftrightarrow> map_option ev_type trigger = Some ''user.approvalDecision''"

text \<open>\<open>fromItems\<close> is the configured history source, \<open>stored\<close> the number of stored items of the turn.\<close>

definition redispatchTurn ::
    "(nat \<Rightarrow> session_db \<Rightarrow> session_db) \<Rightarrow> (int \<Rightarrow> uuid) \<Rightarrow> millis \<Rightarrow> uuid \<Rightarrow> uuid \<Rightarrow> uuid \<Rightarrow> uuid \<Rightarrow> int \<Rightarrow> bool
      \<Rightarrow> session_db \<Rightarrow> session_db \<times> (session_error + requeue_result)" where
  "redispatchTurn env newId now ws sid trig tid n resume db =
     (case appendSessionEvents newId now ws sid
             [preemptedEvent tid trig n resume, statusEvent (Some tid) ''queued''] db of
        Inl e \<Rightarrow> (db, Inl e)
      | Inr (db1, evs) \<Rightarrow>
          (let db2 = env 3 db1 in
           case requeuePreemptedTurn ws tid (if resume then ev_id (hd evs) else trig) requeueable db2 of
             Inl e \<Rightarrow> (let db3 = env 4 db2 in (db3, if is_requeueable ws tid db3 then Inl e else Inr StaleTurn))
           | Inr db3 \<Rightarrow> (setSessionStatus ws sid SQueued (Some None) (env 5 db3), Inr (Requeued n))))"

definition requeueTurnAfterWorkerDeath ::
    "(nat \<Rightarrow> session_db \<Rightarrow> session_db) \<Rightarrow> (int \<Rightarrow> uuid) \<Rightarrow> millis \<Rightarrow> bool \<Rightarrow> nat \<Rightarrow> uuid \<Rightarrow> uuid \<Rightarrow> uuid \<Rightarrow> uuid
      \<Rightarrow> session_db \<Rightarrow> session_db \<times> (session_error + requeue_result)" where
  "requeueTurnAfterWorkerDeath env newId now fromItems stored ws sid trig tid db =
     (if \<not> is_requeueable ws tid db then (db, Inr StaleTurn)
      else
        (let db1 = env 0 db in
         case incrementTurnWorkerDeathRedispatches ws tid db1 of
           Inl e \<Rightarrow> (db1, Inl e)
         | Inr (db2, n) \<Rightarrow>
             if WORKER_DEATH_MAX_REDISPATCHES < n then (db2, Inr (Exceeded (n - 1)))
             else
               (let db3 = env 1 db2; trigger = getSessionEvent ws trig db3;
                    resume = (\<not> is_approval trigger \<and> fromItems \<and> 0 < stored)
                in redispatchTurn env newId now ws sid trig tid n resume (env 2 db3))))"

end
