(* ===== verification/Workflow.thy ===== *)
theory Workflow
  imports Session_State
begin

text \<open>
  The session workflow (\<^verbatim>\<open>apps/worker/src/workflows/session.ts\<close>): the loop that claims turns,
  runs them and decides when the run ends. The function is asynchronous code over the variables
  \<open>wf_vars\<close>, which signal handlers write while it waits. A \<open>wf_point\<close> is an \<open>await\<close>
  of the source, with the local variables still needed after it; \<open>resume\<close> is the code from one
  \<open>await\<close> to the next, for each way the awaited thing can end; \<open>scheduled\<close> is the activity that is
  awaited there. Every \<open>patched\<close> marker is taken as set (a run started by this code).
\<close>

subsection \<open>Values\<close>

record wf_vars =
  approvalQueue :: "uuid list"
  interruptedEventId :: "uuid option"
  wakeups :: nat
  capacityWakeups :: nat
  turnsThisRun :: nat
  capacityChecksThisRun :: nat

definition fresh_vars :: wf_vars where
  "fresh_vars = \<lparr>approvalQueue = [], interruptedEventId = None, wakeups = 0, capacityWakeups = 0,
     turnsThisRun = 0, capacityChecksThisRun = 0\<rparr>"

record wf_config =
  maxTurnsPerRun :: "nat option"
  maxCapacityChecksPerRun :: "nat option"

definition TURNS_PER_RUN_BACKSTOP :: nat where "TURNS_PER_RUN_BACKSTOP = 2000"
definition CODEX_CAPACITY_CHECKS_PER_RUN_BACKSTOP :: nat where "CODEX_CAPACITY_CHECKS_PER_RUN_BACKSTOP = 512"
definition ROTATION_IDLE_FLOOR_MS :: int where "ROTATION_IDLE_FLOOR_MS = 60000"

definition turn_limit :: "wf_config \<Rightarrow> nat" where
  "turn_limit cfg = or_else (maxTurnsPerRun cfg) TURNS_PER_RUN_BACKSTOP"

definition check_limit :: "wf_config \<Rightarrow> nat" where
  "check_limit cfg = or_else (maxCapacityChecksPerRun cfg) CODEX_CAPACITY_CHECKS_PER_RUN_BACKSTOP"

text \<open>\<open>Date.parse\<close> of the next check is done when the reference is read: \<open>None\<close> is \<open>NaN\<close>.\<close>

record wait_ref =
  waiterId :: uuid
  generation :: int
  nextCheckAt :: "millis option"

datatype reconcile_cause = CauseTimer | CauseSignal | CauseQueue

datatype run_status = RunIdle | RunRequiresAction | RunFailed | RunCancelled | RunPreempted

record run_result =
  r_status :: run_status
  r_continue_delay_ms :: "int option"
  r_idle_until_reset :: bool
  r_capacity_wait :: "wait_ref option"

definition continuationHoldMs :: "run_result \<Rightarrow> int \<Rightarrow> int" where
  "continuationHoldMs r floorMs =
     (if r_status r \<noteq> RunIdle then 0
      else
        (let delay = or_else (r_continue_delay_ms r) 0 in
         if r_idle_until_reset r then max delay floorMs else max delay 0))"

datatype timeout_type = Heartbeat | ScheduleToStart | StartToClose | ScheduleToClose

datatype failure_cause = CauseTimeout timeout_type | CauseCancelled | CauseOther

datatype wf_failure = ActivityFailure failure_cause jstr | CancelledFailure jstr | OtherFailure jstr

fun isWorkerDeathFailure :: "wf_failure \<Rightarrow> bool" where
  "isWorkerDeathFailure (ActivityFailure (CauseTimeout t) _) \<longleftrightarrow> t = Heartbeat \<or> t = ScheduleToStart"
| "isWorkerDeathFailure _ \<longleftrightarrow> False"

fun isCancellation :: "wf_failure \<Rightarrow> bool" where
  "isCancellation (ActivityFailure c _) \<longleftrightarrow> c = CauseCancelled"
| "isCancellation (CancelledFailure _) \<longleftrightarrow> True"
| "isCancellation (OtherFailure _) \<longleftrightarrow> False"

fun workflowFailureMessage :: "wf_failure \<Rightarrow> jstr" where
  "workflowFailureMessage (ActivityFailure _ m) = m"
| "workflowFailureMessage (CancelledFailure m) = m"
| "workflowFailureMessage (OtherFailure m) = m"

definition workerDeathMessage :: "int \<Rightarrow> jstr" where
  "workerDeathMessage n = u16 (''Worker died '' @ int_dec (n + 1)
     @ '' times while running this turn (heartbeat timeout); giving up after '' @ int_dec n @ '' re-dispatches.'')"

subsection \<open>Where the function waits\<close>

datatype ending = IdledOut | Stopped | TurnFailed

datatype wf_point =
    AtStart
  | AtClaim
  | AtCapacityRead
  | AtContinueGoal
  | AtIdleWait (seen: nat)
  | AtPauseGoal uuid
  | AtStopIdle
  | AtFinalClaim (seen: nat)
  | AtMarkIdle (seen: nat)
  | AtInterrupt uuid
  | AtRun uuid uuid nat nat
  | AtFailureRead uuid uuid nat nat wf_failure
  | AtRequeue uuid uuid
  | AtFailSession uuid jstr
  | AtApproval uuid
  | AtHold int nat
  | AtCapacityTimer wait_ref int nat nat
  | AtReconcile wait_ref reconcile_cause
  | Ended ending
  | ContinuedAsNew
  | Crashed wf_failure

datatype wf_activity =
    ClaimNextQueuedTurn
  | GetCodexCapacityWait
  | MaybeContinueGoal
  | PauseGoalForInterrupt uuid
  | MarkSessionIdle
  | InterruptActiveTurn uuid
  | RunAgentSegment uuid uuid
  | RequeueTurnAfterWorkerDeath uuid uuid
  | FailSession uuid jstr
  | ReconcileCodexCapacityWait uuid int reconcile_cause

fun scheduled :: "wf_point \<Rightarrow> wf_activity option" where
  "scheduled AtClaim = Some ClaimNextQueuedTurn"
| "scheduled AtCapacityRead = Some GetCodexCapacityWait"
| "scheduled AtContinueGoal = Some MaybeContinueGoal"
| "scheduled (AtPauseGoal e) = Some (PauseGoalForInterrupt e)"
| "scheduled AtStopIdle = Some MarkSessionIdle"
| "scheduled (AtFinalClaim _) = Some ClaimNextQueuedTurn"
| "scheduled (AtMarkIdle _) = Some MarkSessionIdle"
| "scheduled (AtInterrupt e) = Some (InterruptActiveTurn e)"
| "scheduled (AtRun turn trigger _ _) = Some (RunAgentSegment turn trigger)"
| "scheduled (AtFailureRead _ _ _ _ _) = Some GetCodexCapacityWait"
| "scheduled (AtRequeue turn trigger) = Some (RequeueTurnAfterWorkerDeath turn trigger)"
| "scheduled (AtFailSession trigger msg) = Some (FailSession trigger msg)"
| "scheduled (AtReconcile w c) = Some (ReconcileCodexCapacityWait (waiterId w) (generation w) c)"
| "scheduled _ = None"

text \<open>The timer of a \<open>condition\<close> with a time limit, in milliseconds.\<close>

fun timer :: "wf_point \<Rightarrow> int option" where
  "timer (AtIdleWait _) = Some 5000"
| "timer (AtHold ms _) = Some ms"
| "timer (AtCapacityTimer _ ms _ _) = Some ms"
| "timer _ = None"

text \<open>A string tested as a condition is false when it is empty.\<close>

definition nonempty_id :: "uuid option \<Rightarrow> uuid option" where
  "nonempty_id v = (case v of Some (c # cs) \<Rightarrow> Some (c # cs) | _ \<Rightarrow> None)"

subsection \<open>Signals\<close>

datatype wf_signal =
    UserMessage uuid
  | QueueChanged
  | ApprovalDecision uuid
  | Interrupt uuid
  | CodexCapacityChanged int

fun handle :: "wf_signal \<Rightarrow> wf_vars \<Rightarrow> wf_vars" where
  "handle (UserMessage _) v = v\<lparr>wakeups := wakeups v + 1\<rparr>"
| "handle QueueChanged v = v\<lparr>wakeups := wakeups v + 1\<rparr>"
| "handle (ApprovalDecision e) v = v\<lparr>approvalQueue := approvalQueue v @ [e]\<rparr>"
| "handle (Interrupt e) v = v\<lparr>interruptedEventId := Some e\<rparr>"
| "handle (CodexCapacityChanged _) v = v\<lparr>capacityWakeups := capacityWakeups v + 1\<rparr>"

subsection \<open>The code between two waits\<close>

text \<open>What the run-time tells the code: the clock and whether the history has grown large.\<close>

record wf_info =
  wf_now :: millis
  continueAsNewSuggested :: bool

type_synonym wf_state = "wf_point \<times> wf_vars"

definition loopTop :: "wf_config \<Rightarrow> wf_info \<Rightarrow> wf_vars \<Rightarrow> wf_state" where
  "loopTop cfg info v =
     (if (continueAsNewSuggested info \<or> turn_limit cfg \<le> turnsThisRun v) \<and> interruptedEventId v = None
      then (ContinuedAsNew, v\<lparr>approvalQueue := []\<rparr>)
      else (AtClaim, v))"

definition startTurn :: "uuid \<Rightarrow> uuid \<Rightarrow> wf_vars \<Rightarrow> wf_state" where
  "startTurn turn trigger v =
     (case nonempty_id (interruptedEventId v) of
        Some e \<Rightarrow> (AtInterrupt e, v)
      | None \<Rightarrow> (AtRun turn trigger (wakeups v) (capacityWakeups v), v))"

definition runClaimed :: "uuid \<times> uuid \<Rightarrow> wf_vars \<Rightarrow> wf_state" where
  "runClaimed t v = startTurn (fst t) (snd t) (v\<lparr>turnsThisRun := turnsThisRun v + 1\<rparr>)"

definition waitForCapacity ::
    "wf_config \<Rightarrow> wf_info \<Rightarrow> wait_ref \<Rightarrow> (nat \<times> nat) option \<Rightarrow> wf_vars \<Rightarrow> wf_state" where
  "waitForCapacity cfg info w baseline v =
     (if interruptedEventId v \<noteq> None then loopTop cfg info v
      else
        (let (seenWakeups, seenCapacity) = or_else baseline (wakeups v, capacityWakeups v);
             timerMs = (case nextCheckAt w of Some t \<Rightarrow> max 0 (t - wf_now info) | None \<Rightarrow> 0)
         in if wakeups v \<noteq> seenWakeups then (AtReconcile w CauseQueue, v)
            else if capacityWakeups v \<noteq> seenCapacity then (AtReconcile w CauseSignal, v)
            else if 0 < timerMs then (AtCapacityTimer w timerMs seenWakeups seenCapacity, v)
            else (AtReconcile w CauseTimer, v)))"

definition afterCapacityTimer ::
    "wf_config \<Rightarrow> wf_info \<Rightarrow> wait_ref \<Rightarrow> nat \<Rightarrow> nat \<Rightarrow> wf_vars \<Rightarrow> wf_state" where
  "afterCapacityTimer cfg info w seenWakeups seenCapacity v =
     (if interruptedEventId v \<noteq> None then loopTop cfg info v
      else (AtReconcile w (if wakeups v \<noteq> seenWakeups then CauseQueue
              else if capacityWakeups v \<noteq> seenCapacity then CauseSignal else CauseTimer), v))"

definition afterReconcile :: "wf_config \<Rightarrow> wf_info \<Rightarrow> wait_ref option \<Rightarrow> wf_vars \<Rightarrow> wf_state" where
  "afterReconcile cfg info waiting v =
     (case waiting of
        None \<Rightarrow> loopTop cfg info v
      | Some w \<Rightarrow>
          (let v1 = v\<lparr>capacityChecksThisRun := capacityChecksThisRun v + 1\<rparr> in
           if interruptedEventId v1 = None
              \<and> (continueAsNewSuggested info \<or> check_limit cfg \<le> capacityChecksThisRun v1)
           then (ContinuedAsNew, v1)
           else waitForCapacity cfg info w None v1))"

text \<open>No turn was claimed.\<close>

definition afterCapacityRead :: "wf_vars \<Rightarrow> wf_state" where
  "afterCapacityRead v =
     (if interruptedEventId v = None then (AtContinueGoal, v) else (AtIdleWait (wakeups v), v))"

definition afterEmptyClaim :: "wf_vars \<Rightarrow> wf_state" where
  "afterEmptyClaim v =
     (if interruptedEventId v = None then (AtCapacityRead, v) else (AtIdleWait (wakeups v), v))"

definition afterIdleWait :: "wf_config \<Rightarrow> wf_info \<Rightarrow> nat \<Rightarrow> bool \<Rightarrow> wf_vars \<Rightarrow> wf_state" where
  "afterIdleWait cfg info seenWakeups woke v =
     (case nonempty_id (interruptedEventId v) of
        Some e \<Rightarrow> (AtPauseGoal e, v\<lparr>interruptedEventId := None\<rparr>)
      | None \<Rightarrow> if woke then loopTop cfg info v else (AtFinalClaim seenWakeups, v))"

definition afterMarkIdle :: "wf_config \<Rightarrow> wf_info \<Rightarrow> nat \<Rightarrow> wf_vars \<Rightarrow> wf_state" where
  "afterMarkIdle cfg info seenWakeups v =
     (if interruptedEventId v \<noteq> None \<or> wakeups v \<noteq> seenWakeups then loopTop cfg info v
      else (Ended IdledOut, v))"

text \<open>A turn activity returned.\<close>

definition holdOrLoop :: "wf_config \<Rightarrow> wf_info \<Rightarrow> run_result \<Rightarrow> wf_vars \<Rightarrow> wf_state" where
  "holdOrLoop cfg info r v =
     (let holdMs = continuationHoldMs r ROTATION_IDLE_FLOOR_MS in
      if 0 < holdMs then (AtHold holdMs (wakeups v), v) else loopTop cfg info v)"

definition afterRun ::
    "wf_config \<Rightarrow> wf_info \<Rightarrow> uuid \<Rightarrow> nat \<times> nat \<Rightarrow> run_result \<Rightarrow> wf_vars \<Rightarrow> wf_state" where
  "afterRun cfg info turn baseline r v =
     (if r_status r = RunFailed then (Ended TurnFailed, v)
      else if r_status r = RunCancelled \<or> r_status r = RunPreempted then loopTop cfg info v
      else (case r_capacity_wait r of
              Some w \<Rightarrow> waitForCapacity cfg info w (Some baseline) v
            | None \<Rightarrow>
                if r_status r = RunRequiresAction then (AtApproval turn, v)
                else holdOrLoop cfg info r v))"

definition afterApproval :: "wf_config \<Rightarrow> wf_info \<Rightarrow> uuid \<Rightarrow> wf_vars \<Rightarrow> wf_state" where
  "afterApproval cfg info turn v =
     (case nonempty_id (interruptedEventId v) of
        Some e \<Rightarrow> (AtInterrupt e, v)
      | None \<Rightarrow>
          (let v1 = v\<lparr>approvalQueue := tl (approvalQueue v)\<rparr> in
           case nonempty_id (case approvalQueue v of [] \<Rightarrow> None | e # _ \<Rightarrow> Some e) of
             Some e \<Rightarrow> startTurn turn e v1
           | None \<Rightarrow> loopTop cfg info v1))"

definition afterFailureRead ::
    "wf_config \<Rightarrow> wf_info \<Rightarrow> uuid \<Rightarrow> uuid \<Rightarrow> nat \<times> nat \<Rightarrow> wf_failure \<Rightarrow> wait_ref option \<Rightarrow> wf_vars \<Rightarrow> wf_state" where
  "afterFailureRead cfg info turn trigger baseline err waiter v =
     (case waiter of
        Some w \<Rightarrow> waitForCapacity cfg info w (Some baseline) v
      | None \<Rightarrow>
          if isWorkerDeathFailure err then (AtRequeue turn trigger, v)
          else (AtFailSession trigger (workflowFailureMessage err), v))"

definition afterRequeue :: "wf_config \<Rightarrow> wf_info \<Rightarrow> uuid \<Rightarrow> requeue_result \<Rightarrow> wf_vars \<Rightarrow> wf_state" where
  "afterRequeue cfg info trigger r v =
     (case r of
        Exceeded n \<Rightarrow> (AtFailSession trigger (workerDeathMessage n), v)
      | _ \<Rightarrow> loopTop cfg info v)"

subsection \<open>One step of the function\<close>

datatype wf_event =
    Activate
  | Claimed "(uuid \<times> uuid) option"
  | CapacityWait "wait_ref option"
  | GoalChecked goal_action
  | RunReturned run_result
  | RequeueReturned requeue_result
  | Reconciled "wait_ref option"
  | Completed
  | Threw wf_failure
  | ConditionMet
  | TimedOut

fun condition_met :: "wf_point \<Rightarrow> wf_vars \<Rightarrow> bool" where
  "condition_met (AtIdleWait n) v \<longleftrightarrow> interruptedEventId v \<noteq> None \<or> wakeups v \<noteq> n"
| "condition_met (AtRun _ _ _ _) v \<longleftrightarrow> interruptedEventId v \<noteq> None"
| "condition_met (AtApproval _) v \<longleftrightarrow> interruptedEventId v \<noteq> None \<or> approvalQueue v \<noteq> []"
| "condition_met (AtHold _ n) v \<longleftrightarrow> interruptedEventId v \<noteq> None \<or> wakeups v \<noteq> n"
| "condition_met (AtCapacityTimer _ _ n m) v \<longleftrightarrow>
     interruptedEventId v \<noteq> None \<or> wakeups v \<noteq> n \<or> capacityWakeups v \<noteq> m"
| "condition_met _ v \<longleftrightarrow> False"

text \<open>The \<open>condition\<close> of a wait resolved, with \<open>woke\<close> telling it from its time limit.\<close>

fun afterWait :: "wf_config \<Rightarrow> wf_info \<Rightarrow> bool \<Rightarrow> wf_point \<Rightarrow> wf_vars \<Rightarrow> wf_state" where
  "afterWait cfg info woke (AtIdleWait n) v = afterIdleWait cfg info n woke v"
| "afterWait cfg info woke (AtRun _ _ _ _) v = (AtInterrupt (or_else (interruptedEventId v) []), v)"
| "afterWait cfg info woke (AtApproval turn) v = afterApproval cfg info turn v"
| "afterWait cfg info woke (AtHold _ _) v = loopTop cfg info v"
| "afterWait cfg info woke (AtCapacityTimer w _ n m) v = afterCapacityTimer cfg info w n m v"
| "afterWait cfg info woke p v = (p, v)"

text \<open>An activity threw: only a goal check and a turn have a handler.\<close>

fun afterThrow :: "wf_failure \<Rightarrow> wf_point \<Rightarrow> wf_vars \<Rightarrow> wf_state" where
  "afterThrow err AtContinueGoal v =
     (if isCancellation err then (Crashed err, v) else (AtIdleWait (wakeups v), v))"
| "afterThrow err (AtRun turn trigger n m) v = (AtFailureRead turn trigger n m err, v)"
| "afterThrow err p v = (Crashed err, v)"

text \<open>A void activity completed.\<close>

fun afterCompletion :: "wf_config \<Rightarrow> wf_info \<Rightarrow> wf_point \<Rightarrow> wf_vars \<Rightarrow> wf_state option" where
  "afterCompletion cfg info (AtPauseGoal _) v = Some (AtStopIdle, v)"
| "afterCompletion cfg info AtStopIdle v = Some (Ended Stopped, v)"
| "afterCompletion cfg info (AtMarkIdle n) v = Some (afterMarkIdle cfg info n v)"
| "afterCompletion cfg info (AtInterrupt _) v = Some (loopTop cfg info (v\<lparr>interruptedEventId := None\<rparr>))"
| "afterCompletion cfg info (AtFailSession _ _) v = Some (Ended TurnFailed, v)"
| "afterCompletion cfg info p v = None"

fun afterClaim :: "(uuid \<times> uuid) option \<Rightarrow> wf_point \<Rightarrow> wf_vars \<Rightarrow> wf_state option" where
  "afterClaim (Some t) AtClaim v = Some (runClaimed t v)"
| "afterClaim None AtClaim v = Some (afterEmptyClaim v)"
| "afterClaim (Some t) (AtFinalClaim n) v = Some (runClaimed t v)"
| "afterClaim None (AtFinalClaim n) v = Some (AtMarkIdle n, v)"
| "afterClaim t p v = None"

fun afterRead :: "wf_config \<Rightarrow> wf_info \<Rightarrow> wait_ref option \<Rightarrow> wf_point \<Rightarrow> wf_vars \<Rightarrow> wf_state option" where
  "afterRead cfg info (Some w) AtCapacityRead v = Some (waitForCapacity cfg info w None v)"
| "afterRead cfg info None AtCapacityRead v = Some (afterCapacityRead v)"
| "afterRead cfg info w (AtFailureRead turn trigger n m err) v =
     Some (afterFailureRead cfg info turn trigger (n, m) err w v)"
| "afterRead cfg info w p v = None"

definition afterGoal :: "wf_config \<Rightarrow> wf_info \<Rightarrow> goal_action \<Rightarrow> wf_vars \<Rightarrow> wf_state" where
  "afterGoal cfg info a v =
     (if a = ActContinue \<or> a = ActQueue then loopTop cfg info v else (AtIdleWait (wakeups v), v))"

fun resume :: "wf_config \<Rightarrow> wf_info \<Rightarrow> wf_event \<Rightarrow> wf_point \<Rightarrow> wf_vars \<Rightarrow> wf_state option" where
  "resume cfg info Activate p v = (if p = AtStart then Some (loopTop cfg info v) else None)"
| "resume cfg info (Claimed t) p v = afterClaim t p v"
| "resume cfg info (CapacityWait w) p v = afterRead cfg info w p v"
| "resume cfg info (GoalChecked a) p v = (if p = AtContinueGoal then Some (afterGoal cfg info a v) else None)"
| "resume cfg info (RunReturned r) p v =
     (case p of AtRun turn trigger n m \<Rightarrow> Some (afterRun cfg info turn (n, m) r v) | _ \<Rightarrow> None)"
| "resume cfg info (RequeueReturned r) p v =
     (case p of AtRequeue turn trigger \<Rightarrow> Some (afterRequeue cfg info trigger r v) | _ \<Rightarrow> None)"
| "resume cfg info (Reconciled w) p v =
     (case p of AtReconcile _ _ \<Rightarrow> Some (afterReconcile cfg info w v) | _ \<Rightarrow> None)"
| "resume cfg info Completed p v = afterCompletion cfg info p v"
| "resume cfg info (Threw err) p v = (if scheduled p = None then None else Some (afterThrow err p v))"
| "resume cfg info ConditionMet p v = (if condition_met p v then Some (afterWait cfg info True p v) else None)"
| "resume cfg info TimedOut p v = (if timer p = None then None else Some (afterWait cfg info False p v))"

end
