(* ===== verification/Workflow_System.thy ===== *)
theory Workflow_System
  imports Workflow Goals_Props
begin

text \<open>
  One session's workflow together with its tables and its signals. The program's rule is that a
  turn is written to the queue first and its signal sent after; \<open>unsignalled\<close> are the queued turns
  whose signal is still to come. An activity commits its transactions while the workflow waits, and
  its reply is \<open>pending\<close> until the workflow takes it, so signals and other writers come in between.
  \<open>skipped\<close> are the rows the last claim passed over because another transaction held them.
  Sessions are not deleted. A signal to a run that is over starts the next run.
\<close>

subsection \<open>The system\<close>

record wf_scope =
  sc_workspace :: uuid
  sc_session :: uuid
  sc_workflow :: string
  sc_config :: wf_config

record wf_system =
  at_point :: wf_point
  vars :: wf_vars
  tables :: session_db
  pending :: "wf_event option"
  unsignalled :: "uuid list"
  skipped :: "uuid list"

definition queued_ids :: "wf_scope \<Rightarrow> session_db \<Rightarrow> uuid list" where
  "queued_ids sc db = map t_id (select_where (queued_in (sc_workspace sc) (sc_session sc)) (session_turns db))"

definition has_session :: "wf_scope \<Rightarrow> session_db \<Rightarrow> bool" where
  "has_session sc db \<longleftrightarrow> find_session (sc_workspace sc) (sc_session sc) db \<noteq> None"

fun live :: "wf_point \<Rightarrow> bool" where
  "live (Ended _) = False"
| "live ContinuedAsNew = False"
| "live (Crashed _) = False"
| "live _ = True"

fun over :: "wf_point \<Rightarrow> bool" where
  "over (Ended _) = True"
| "over (Crashed _) = True"
| "over _ = False"

text \<open>Event ids are generated keys, so never empty.\<close>

fun well_formed :: "wf_signal \<Rightarrow> bool" where
  "well_formed (Interrupt e) = (e \<noteq> [])"
| "well_formed (ApprovalDecision e) = (e \<noteq> [])"
| "well_formed _ = True"

fun is_wake :: "wf_signal \<Rightarrow> bool" where
  "is_wake (UserMessage _) = True"
| "is_wake QueueChanged = True"
| "is_wake _ = False"

text \<open>The signals sent with \<open>signalWithStart\<close>.\<close>

fun starts :: "wf_signal \<Rightarrow> bool" where
  "starts QueueChanged = True"
| "starts (Interrupt _) = True"
| "starts (CodexCapacityChanged _) = True"
| "starts _ = False"

fun reply_of :: "wf_activity \<Rightarrow> wf_event \<Rightarrow> bool" where
  "reply_of a (Threw _) = True"
| "reply_of GetCodexCapacityWait (CapacityWait _) = True"
| "reply_of MaybeContinueGoal (GoalChecked _) = True"
| "reply_of (PauseGoalForInterrupt _) Completed = True"
| "reply_of MarkSessionIdle Completed = True"
| "reply_of (InterruptActiveTurn _) Completed = True"
| "reply_of (RunAgentSegment _ _) (RunReturned _) = True"
| "reply_of (RequeueTurnAfterWorkerDeath _ _) (RequeueReturned _) = True"
| "reply_of (FailSession _ _) Completed = True"
| "reply_of (ReconcileCodexCapacityWait _ _ _) (Reconciled _) = True"
| "reply_of _ _ = False"

text \<open>Marking the session idle writes no turn of it; a claim is one transaction, a step of its own.\<close>

definition activity_may_write :: "wf_scope \<Rightarrow> wf_activity \<Rightarrow> session_db \<Rightarrow> session_db \<Rightarrow> bool" where
  "activity_may_write sc a db db' \<longleftrightarrow> a \<noteq> ClaimNextQueuedTurn \<and> has_session sc db'
     \<and> (a = MarkSessionIdle \<longrightarrow> queued_ids sc db' = queued_ids sc db)"

datatype wf_label =
    Signal wf_signal "uuid list"
  | StartNext
  | OtherWriter session_db
  | DoClaim "uuid list" millis
  | ActivityWrites session_db
  | ActivityReplies wf_event
  | Deliver wf_info
  | Proceed wf_info wf_event

definition announce :: "wf_signal \<Rightarrow> uuid list \<Rightarrow> wf_system \<Rightarrow> uuid list" where
  "announce sg ids s = (if is_wake sg then filter (\<lambda>i. i \<notin> set ids) (unsignalled s) else unsignalled s)"

definition signalled :: "wf_signal \<Rightarrow> uuid list \<Rightarrow> wf_system \<Rightarrow> wf_system option" where
  "signalled sg ids s =
     (if \<not> well_formed sg then None
      else if live (at_point s) then Some (s\<lparr>vars := handle sg (vars s), unsignalled := announce sg ids s\<rparr>)
      else if over (at_point s) \<and> starts sg
      then Some (s\<lparr>at_point := AtStart, vars := handle sg fresh_vars, pending := None, unsignalled := announce sg ids s\<rparr>)
      else None)"

definition newly_queued :: "wf_scope \<Rightarrow> session_db \<Rightarrow> session_db \<Rightarrow> uuid list" where
  "newly_queued sc db db' = filter (\<lambda>i. i \<notin> set (queued_ids sc db)) (queued_ids sc db')"

definition claimed :: "wf_scope \<Rightarrow> uuid list \<Rightarrow> millis \<Rightarrow> wf_system \<Rightarrow> wf_system" where
  "claimed sc locked now s =
     (let (db', t) = claimNextQueuedTurn locked now (sc_workspace sc) (sc_session sc) (sc_workflow sc) (tables s)
      in s\<lparr>tables := db', skipped := locked,
           pending := Some (Claimed (map_option (\<lambda>t. (t_id t, t_trigger_event_id t)) t))\<rparr>)"

definition resumed :: "wf_scope \<Rightarrow> wf_info \<Rightarrow> wf_event \<Rightarrow> wf_system \<Rightarrow> wf_system option" where
  "resumed sc info ev s =
     (case resume (sc_config sc) info ev (at_point s) (vars s) of
        None \<Rightarrow> None
      | Some (p, v) \<Rightarrow> Some (s\<lparr>at_point := p, vars := v, pending := None\<rparr>))"

fun wf_next :: "wf_scope \<Rightarrow> wf_label \<Rightarrow> wf_system \<Rightarrow> wf_system option" where
  "wf_next sc (Signal sg ids) s = signalled sg ids s"
| "wf_next sc StartNext s =
     (if at_point s = ContinuedAsNew then Some (s\<lparr>at_point := AtStart, vars := fresh_vars, pending := None\<rparr>) else None)"
| "wf_next sc (OtherWriter db') s =
     (if has_session sc db'
      then Some (s\<lparr>tables := db', unsignalled := unsignalled s @ newly_queued sc (tables s) db'\<rparr>) else None)"
| "wf_next sc (DoClaim locked now) s =
     (if scheduled (at_point s) = Some ClaimNextQueuedTurn \<and> pending s = None then Some (claimed sc locked now s) else None)"
| "wf_next sc (ActivityWrites db') s =
     (case scheduled (at_point s) of
        Some a \<Rightarrow> if pending s = None \<and> activity_may_write sc a (tables s) db' then Some (s\<lparr>tables := db'\<rparr>) else None
      | None \<Rightarrow> None)"
| "wf_next sc (ActivityReplies ev) s =
     (case scheduled (at_point s) of
        Some a \<Rightarrow> if pending s = None \<and> reply_of a ev then Some (s\<lparr>pending := Some ev\<rparr>) else None
      | None \<Rightarrow> None)"
| "wf_next sc (Deliver info) s = (case pending s of Some ev \<Rightarrow> resumed sc info ev s | None \<Rightarrow> None)"
| "wf_next sc (Proceed info ev) s =
     (if ev \<in> {Activate, ConditionMet, TimedOut} then resumed sc info ev s else None)"

definition wf_init :: "wf_scope \<Rightarrow> wf_system \<Rightarrow> bool" where
  "wf_init sc s \<longleftrightarrow> at_point s = AtStart \<and> vars s = fresh_vars \<and> pending s = None \<and> has_session sc (tables s)"

inductive wf_reach :: "wf_scope \<Rightarrow> wf_system \<Rightarrow> bool" for sc where
  start: "wf_init sc s \<Longrightarrow> wf_reach sc s"
| step: "wf_reach sc s \<Longrightarrow> wf_next sc l s = Some s' \<Longrightarrow> wf_reach sc s'"

fun wf_run :: "wf_scope \<Rightarrow> wf_label list \<Rightarrow> wf_system \<Rightarrow> wf_system option" where
  "wf_run sc [] s = Some s"
| "wf_run sc (l # ls) s = (case wf_next sc l s of None \<Rightarrow> None | Some s' \<Rightarrow> wf_run sc ls s')"

lemma wf_run_reach: "wf_reach sc s \<Longrightarrow> wf_run sc ls s = Some s' \<Longrightarrow> wf_reach sc s'"
proof (induction ls arbitrary: s)
  case Nil
  then show ?case by simp
next
  case (Cons l ls)
  then show ?case by (auto split: option.splits intro: wf_reach.step)
qed

end
