(* ===== verification/Workflow_Props.thy ===== *)
theory Workflow_Props
  imports Workflow_System
begin

text \<open>
  What holds in every reachable state of a session's workflow: a run that idles out strands no
  announced turn, a run that is replaced drops no interrupt and dispatches a bounded number of
  turns, and a run is never stuck. Then the runs in which a stop, a failed turn or a second
  interrupt loses work.
\<close>

subsection \<open>What the code between two waits can do\<close>

definition settled_queue :: "wf_scope \<Rightarrow> wf_system \<Rightarrow> bool" where
  "settled_queue sc s \<longleftrightarrow> set (queued_ids sc (tables s)) \<subseteq> set (unsignalled s) \<union> set (skipped s)"

text \<open>A state the loop may be in right after it ran, from variables \<open>v\<close>.\<close>

fun calm :: "nat \<Rightarrow> wf_point \<Rightarrow> uuid option \<Rightarrow> bool" where
  "calm w (AtFinalClaim _) i = False"
| "calm w (AtMarkIdle _) i = False"
| "calm w (Ended e) i = (e \<noteq> IdledOut)"
| "calm w (AtIdleWait n) i = (n = w)"
| "calm w ContinuedAsNew i = (i = None)"
| "calm w _ i = True"

definition calm_step :: "wf_vars \<Rightarrow> wf_state \<Rightarrow> bool" where
  "calm_step v st \<longleftrightarrow> calm (wakeups v) (fst st) (interruptedEventId (snd st))
     \<and> wakeups (snd st) = wakeups v \<and> interruptedEventId (snd st) \<in> {None, interruptedEventId v}"

lemma calm_step_vars:
  "wakeups v' = wakeups v \<Longrightarrow> interruptedEventId v' \<in> {None, interruptedEventId v} \<Longrightarrow> calm_step v' st \<Longrightarrow> calm_step v st"
  by (auto simp: calm_step_def)

lemma calm_loopTop: "calm_step v (loopTop cfg info v)"
  by (simp add: calm_step_def loopTop_def)

lemma calm_startTurn: "calm_step v (startTurn t e v)"
  by (simp add: calm_step_def startTurn_def split: option.split)

lemma calm_runClaimed: "calm_step v (runClaimed t v)"
  unfolding runClaimed_def by (rule calm_step_vars [OF _ _ calm_startTurn]) simp_all

lemma calm_wait: "calm_step v (waitForCapacity cfg info w b v)"
  using calm_loopTop [of v cfg info]
  by (simp add: waitForCapacity_def Let_def split: prod.split) (simp add: calm_step_def)

lemma calm_timer: "calm_step v (afterCapacityTimer cfg info w n m v)"
  using calm_loopTop [of v cfg info] by (simp add: afterCapacityTimer_def) (simp add: calm_step_def)

lemma calm_reconcile: "calm_step v (afterReconcile cfg info w v)"
proof (cases w)
  case None
  then show ?thesis by (simp add: afterReconcile_def calm_loopTop)
next
  case (Some r)
  let ?v = "v\<lparr>capacityChecksThisRun := capacityChecksThisRun v + 1\<rparr>"
  have "calm_step v (waitForCapacity cfg info r None ?v)"
    by (rule calm_step_vars [OF _ _ calm_wait]) simp_all
  with Some show ?thesis by (simp add: afterReconcile_def Let_def) (simp add: calm_step_def)
qed

lemma calm_afterRun: "calm_step v (afterRun cfg info t b r v)"
  using calm_loopTop [of v cfg info] calm_wait [of v cfg info]
  by (simp add: afterRun_def holdOrLoop_def Let_def split: option.split) (simp add: calm_step_def)

lemma calm_approval: "calm_step v (afterApproval cfg info t v)"
proof -
  let ?v = "v\<lparr>approvalQueue := tl (approvalQueue v)\<rparr>"
  have "calm_step v (startTurn t e ?v)" for e
    by (rule calm_step_vars [OF _ _ calm_startTurn]) simp_all
  moreover have "calm_step v (loopTop cfg info ?v)"
    by (rule calm_step_vars [OF _ _ calm_loopTop]) simp_all
  ultimately show ?thesis
    by (simp add: afterApproval_def Let_def split: option.split) (simp add: calm_step_def)
qed

text \<open>The three events after which the loop may be about to end.\<close>

fun winding_down :: "wf_event \<Rightarrow> wf_point \<Rightarrow> bool" where
  "winding_down TimedOut (AtIdleWait _) = True"
| "winding_down (Claimed None) (AtFinalClaim _) = True"
| "winding_down Completed (AtMarkIdle _) = True"
| "winding_down _ _ = False"

lemma calm_afterWait:
  "\<not> (\<not> woke \<and> (\<exists>n. p = AtIdleWait n)) \<Longrightarrow> timer p \<noteq> None \<or> condition_met p v \<Longrightarrow> calm_step v (afterWait cfg info woke p v)"
  using calm_loopTop [of v cfg info] calm_timer [of v cfg info] calm_approval [of v cfg info]
  by (cases p) (auto simp: afterIdleWait_def calm_step_def or_else_def split: option.split)

lemma calm_resume:
  assumes "resume cfg info ev p v = Some st" and "\<not> winding_down ev p"
  shows "calm_step v st"
proof (cases ev)
  case (Claimed t)
  then show ?thesis using assms calm_runClaimed [of v]
    by (cases t; cases p) (auto simp: afterEmptyClaim_def calm_step_def)
next
  case (CapacityWait w)
  then show ?thesis using assms calm_wait [of v cfg info]
    by (cases w; cases p) (auto simp: afterCapacityRead_def afterFailureRead_def calm_step_def split: if_splits)
next
  case (GoalChecked a)
  then show ?thesis using assms calm_loopTop [of v cfg info] by (auto simp: afterGoal_def calm_step_def split: if_splits)
next
  case (RunReturned r)
  then show ?thesis using assms calm_afterRun [of v cfg info] by (cases p) auto
next
  case (RequeueReturned r)
  then show ?thesis using assms calm_loopTop [of v cfg info]
    by (cases p; cases r) (auto simp: afterRequeue_def calm_step_def)
next
  case (Reconciled w)
  then show ?thesis using assms calm_reconcile [of v cfg info] by (cases p) auto
next
  case Completed
  have "calm_step v (loopTop cfg info (v\<lparr>interruptedEventId := None\<rparr>))"
    by (rule calm_step_vars [OF _ _ calm_loopTop]) simp_all
  with Completed assms show ?thesis by (cases p) (auto simp: calm_step_def)
next
  case (Threw err)
  with assms show ?thesis by (cases p) (auto simp: calm_step_def split: if_splits)
next
  case Activate
  with assms calm_loopTop [of v cfg info] show ?thesis by (auto split: if_splits)
next
  case ConditionMet
  then show ?thesis using assms by (auto intro!: calm_afterWait split: if_splits)
next
  case TimedOut
  then show ?thesis using assms calm_loopTop [of v cfg info] calm_timer [of v cfg info] by (cases p) auto
qed

subsection \<open>The invariant of the wake-ups\<close>

fun waking_inv :: "bool \<Rightarrow> nat \<Rightarrow> uuid option \<Rightarrow> wf_event option \<Rightarrow> wf_point \<Rightarrow> bool" where
  "waking_inv ok w i ev (AtIdleWait n) = (n \<le> w)"
| "waking_inv ok w i ev (AtFinalClaim n) = (n \<le> w \<and> (ev = Some (Claimed None) \<longrightarrow> ok \<or> n < w))"
| "waking_inv ok w i ev (AtMarkIdle n) = (n \<le> w \<and> (ok \<or> n < w))"
| "waking_inv ok w i ev (Ended e) = (e = IdledOut \<longrightarrow> ok \<and> i = None)"
| "waking_inv ok w i ev ContinuedAsNew = (i = None)"
| "waking_inv ok w i ev _ = True"

definition wf_inv :: "wf_scope \<Rightarrow> wf_system \<Rightarrow> bool" where
  "wf_inv sc s \<longleftrightarrow> has_session sc (tables s) \<and> interruptedEventId (vars s) \<noteq> Some []
     \<and> waking_inv (settled_queue sc s) (wakeups (vars s)) (interruptedEventId (vars s)) (pending s) (at_point s)"

lemma waking_mono:
  "waking_inv ok w i ev p \<Longrightarrow> (ok \<Longrightarrow> ok' \<or> (w < w' \<and> live p)) \<Longrightarrow> w \<le> w' \<Longrightarrow> (\<not> live p \<Longrightarrow> i' = i) \<Longrightarrow> waking_inv ok' w' i' ev p"
  by (cases p) auto

lemma calm_waking: "calm w p i \<Longrightarrow> waking_inv ok w i None p"
  by (cases p) auto

lemma handle_wakeups: "wakeups v \<le> wakeups (handle sg v)" "is_wake sg \<Longrightarrow> wakeups v < wakeups (handle sg v)"
  by (cases sg; simp)+

lemma handle_interrupt:
  "well_formed sg \<Longrightarrow> interruptedEventId v \<noteq> Some [] \<Longrightarrow> interruptedEventId (handle sg v) \<noteq> Some []"
  by (cases sg) auto

lemma inv_signal:
  assumes "wf_inv sc s" "signalled sg ids s = Some s'"
  shows "wf_inv sc s'"
proof (cases "live (at_point s)")
  case True
  then have s': "s' = s\<lparr>vars := handle sg (vars s), unsignalled := announce sg ids s\<rparr>" and sg: "well_formed sg"
    using assms(2) by (auto simp: signalled_def split: if_splits)
  have settled: "settled_queue sc s \<Longrightarrow> settled_queue sc s' \<or> wakeups (vars s) < wakeups (vars s')"
    using handle_wakeups(2) [of sg "vars s"] by (cases "is_wake sg") (auto simp: s' settled_queue_def announce_def)
  have "waking_inv (settled_queue sc s') (wakeups (vars s')) (interruptedEventId (vars s')) (pending s) (at_point s)"
    by (rule waking_mono [where ok = "settled_queue sc s" and w = "wakeups (vars s)" and i = "interruptedEventId (vars s)"])
      (use assms(1) settled True handle_wakeups(1) [of "vars s" sg] in \<open>simp_all add: wf_inv_def s'\<close>)
  then show ?thesis using assms(1) handle_interrupt [OF sg] by (simp add: wf_inv_def s')
next
  case False
  then have s': "s' = s\<lparr>at_point := AtStart, vars := handle sg fresh_vars, pending := None, unsignalled := announce sg ids s\<rparr>"
    and sg: "well_formed sg"
    using assms(2) by (auto simp: signalled_def split: if_splits)
  then show ?thesis using assms(1) handle_interrupt [OF sg, of fresh_vars] by (simp add: wf_inv_def fresh_vars_def)
qed

lemma inv_write:
  assumes "wf_inv sc s" "has_session sc db"
  shows "wf_inv sc (s\<lparr>tables := db, unsignalled := unsignalled s @ newly_queued sc (tables s) db\<rparr>)"
    (is "wf_inv sc ?s")
proof -
  have settled: "settled_queue sc s \<Longrightarrow> settled_queue sc ?s" by (auto simp: settled_queue_def newly_queued_def)
  have "waking_inv (settled_queue sc s) (wakeups (vars s)) (interruptedEventId (vars s)) (pending s) (at_point s)"
    using assms(1) by (simp add: wf_inv_def)
  then have "waking_inv (settled_queue sc ?s) (wakeups (vars s)) (interruptedEventId (vars s)) (pending s) (at_point s)"
    by (rule waking_mono) (simp_all add: settled)
  with assms show ?thesis by (simp add: wf_inv_def)
qed

lemma claim_none_skips:
  assumes "claimNextQueuedTurn locked now ws sid wid db = (db', None)" "find_session ws sid db \<noteq> None"
  shows "db' = db" and "\<forall>t \<in> set (session_turns db). queued_in ws sid t \<longrightarrow> t_id t \<in> set locked"
proof -
  have "filter (\<lambda>t. t_id t \<notin> set locked) (queue_order ws sid db) = []"
    using assms by (auto simp: claimNextQueuedTurn_def split: list.splits option.splits)
  then show "\<forall>t \<in> set (session_turns db). queued_in ws sid t \<longrightarrow> t_id t \<in> set locked"
    by (auto simp: filter_empty_conv set_queue_order)
  show "db' = db" using assms by (auto simp: claimNextQueuedTurn_def split: list.splits option.splits)
qed

lemma claim_keeps_session:
  "find_session ws sid db \<noteq> None \<Longrightarrow> find_session ws sid (fst (claimNextQueuedTurn locked now ws sid wid db)) \<noteq> None"
  by (auto simp: claimNextQueuedTurn_def split: list.splits option.splits)

lemma inv_claim:
  assumes "wf_inv sc s" "scheduled (at_point s) = Some ClaimNextQueuedTurn"
  shows "wf_inv sc (claimed sc locked now s)"
proof -
  let ?ws = "sc_workspace sc" and ?sid = "sc_session sc"
  obtain db' t where c: "claimNextQueuedTurn locked now ?ws ?sid (sc_workflow sc) (tables s) = (db', t)" by fastforce
  have session: "has_session sc db'"
    using claim_keeps_session [of ?ws ?sid "tables s" locked now "sc_workflow sc"] c assms(1)
    by (simp add: wf_inv_def has_session_def)
  have "t = None \<Longrightarrow> settled_queue sc (claimed sc locked now s)"
    using claim_none_skips [of locked now ?ws ?sid "sc_workflow sc" "tables s" db'] c assms(1)
    by (auto simp: settled_queue_def claimed_def queued_ids_def select_where_def wf_inv_def has_session_def)
  then show ?thesis using assms session c
    by (cases "at_point s") (auto simp: wf_inv_def claimed_def)
qed

lemma inv_activity_write:
  assumes "wf_inv sc s" "scheduled (at_point s) = Some a" "activity_may_write sc a (tables s) db" "pending s = None"
  shows "wf_inv sc (s\<lparr>tables := db\<rparr>)"
proof (cases "\<exists>n. at_point s = AtMarkIdle n")
  case True
  then have "queued_ids sc db = queued_ids sc (tables s)" using assms by (auto simp: activity_may_write_def)
  with True assms show ?thesis by (auto simp: wf_inv_def activity_may_write_def settled_queue_def)
next
  case False
  then show ?thesis using assms by (cases "at_point s") (auto simp: wf_inv_def activity_may_write_def)
qed

lemma inv_reply:
  assumes "wf_inv sc s" "scheduled (at_point s) = Some a" "reply_of a ev"
  shows "wf_inv sc (s\<lparr>pending := Some ev\<rparr>)"
  using assms by (cases "at_point s") (auto simp: wf_inv_def settled_queue_def)

lemma inv_resumed:
  assumes "wf_inv sc s" "resumed sc info ev s = Some s'" "pending s = Some ev \<or> ev \<in> {Activate, ConditionMet, TimedOut}"
  shows "wf_inv sc s'"
proof -
  obtain p v where r: "resume (sc_config sc) info ev (at_point s) (vars s) = Some (p, v)"
    and s': "s' = s\<lparr>at_point := p, vars := v, pending := None\<rparr>"
    using assms(2) by (auto simp: resumed_def split: option.splits)
  have settled: "settled_queue sc s' = settled_queue sc s" by (simp add: s' settled_queue_def)
  show ?thesis
  proof (cases "winding_down ev (at_point s)")
    case False
    then show ?thesis using calm_resume [OF r] assms(1) settled
      by (auto simp: wf_inv_def calm_step_def s' intro: calm_waking)
  next
    case True
    then show ?thesis
      using assms r settled
      by (cases rule: winding_down.cases [of "(ev, at_point s)"])
        (auto simp: wf_inv_def s' afterIdleWait_def afterMarkIdle_def nonempty_id_def loopTop_def has_session_def
          split: option.splits list.splits if_splits)
  qed
qed

lemma inv_next:
  assumes "wf_inv sc s" "wf_next sc l s = Some s'"
  shows "wf_inv sc s'"
proof (cases l)
  case (Signal sg ids)
  with assms show ?thesis by (simp add: inv_signal)
next
  case StartNext
  with assms show ?thesis by (auto simp: wf_inv_def fresh_vars_def split: if_splits)
next
  case (OtherWriter db)
  with assms show ?thesis by (auto intro: inv_write split: if_splits)
next
  case (DoClaim locked now)
  with assms show ?thesis by (auto intro: inv_claim split: if_splits)
next
  case (ActivityWrites db)
  with assms show ?thesis by (auto intro: inv_activity_write split: if_splits option.splits)
next
  case (ActivityReplies ev)
  with assms show ?thesis by (auto intro: inv_reply split: if_splits option.splits)
next
  case (Deliver info)
  with assms show ?thesis by (auto intro: inv_resumed split: option.splits)
next
  case (Proceed info ev)
  with assms have "resumed sc info ev s = Some s'" "ev \<in> {Activate, ConditionMet, TimedOut}" by (auto split: if_splits)
  with assms(1) show ?thesis by (blast intro: inv_resumed)
qed

lemma inv_reach: "wf_reach sc s \<Longrightarrow> wf_inv sc s"
proof (induction rule: wf_reach.induct)
  case (start s)
  then show ?case by (simp add: wf_init_def wf_inv_def fresh_vars_def)
next
  case (step s l s')
  then show ?case by (blast intro: inv_next)
qed

end
