(* ===== verification/Workflow_Bounds.thy ===== *)
theory Workflow_Bounds
  imports Workflow_Props
begin

text \<open>
  The turns one run of a session's workflow may dispatch before it is replaced, and the progress of
  a run: in every reachable state some step of the workflow itself is enabled, unless the run is
  over or waits for a user's approval.
\<close>

subsection \<open>Turns per run\<close>

fun turn_inv :: "nat \<Rightarrow> nat \<Rightarrow> uuid option \<Rightarrow> wf_point \<Rightarrow> bool" where
  "turn_inv L n i AtClaim = (n < L \<or> (i \<noteq> None \<and> n \<le> L))"
| "turn_inv L n i (AtIdleWait _) = (n < L \<or> (i \<noteq> None \<and> n \<le> L))"
| "turn_inv L n i AtCapacityRead = (n < L)"
| "turn_inv L n i AtContinueGoal = (n < L)"
| "turn_inv L n i (AtFinalClaim _) = (n < L)"
| "turn_inv L n i (AtMarkIdle _) = (n < L)"
| "turn_inv L n i (AtInterrupt _) = (n \<le> L + 1)"
| "turn_inv L n i ContinuedAsNew = (n \<le> L + 1)"
| "turn_inv L n i (Ended _) = (n \<le> L + 1)"
| "turn_inv L n i (Crashed _) = (n \<le> L + 1)"
| "turn_inv L n i _ = (n \<le> L)"

definition bounded :: "nat \<Rightarrow> wf_state \<Rightarrow> bool" where
  "bounded L st \<longleftrightarrow> turn_inv L (turnsThisRun (snd st)) (interruptedEventId (snd st)) (fst st)"

lemma turn_inv_bound: "turn_inv L n i p \<Longrightarrow> n \<le> L + 1"
  by (cases p) auto

lemma turn_inv_signal: "turn_inv L n i p \<Longrightarrow> (i \<noteq> None \<Longrightarrow> i' \<noteq> None) \<Longrightarrow> turn_inv L n i' p"
  by (cases p) auto

lemma bounded_loopTop:
  "turnsThisRun v \<le> turn_limit cfg \<or> (turnsThisRun v = turn_limit cfg + 1 \<and> interruptedEventId v = None) \<Longrightarrow>
   bounded (turn_limit cfg) (loopTop cfg info v)"
  by (auto simp: bounded_def loopTop_def)

lemma bounded_startTurn: "turnsThisRun v \<le> L \<Longrightarrow> bounded L (startTurn t e v)"
  by (simp add: bounded_def startTurn_def split: option.split)

lemma bounded_runClaimed:
  assumes "turnsThisRun v < L \<or> (interruptedEventId v \<noteq> None \<and> turnsThisRun v \<le> L)" "interruptedEventId v \<noteq> Some []"
  shows "bounded L (runClaimed t v)"
  using assms by (auto simp: bounded_def runClaimed_def startTurn_def nonempty_id_def split: option.splits list.splits)

lemma bounded_wait: "turnsThisRun v \<le> turn_limit cfg \<Longrightarrow> bounded (turn_limit cfg) (waitForCapacity cfg info w b v)"
  using bounded_loopTop [of v cfg info]
  by (simp add: waitForCapacity_def Let_def split: prod.split) (simp add: bounded_def)

lemma bounded_timer: "turnsThisRun v \<le> turn_limit cfg \<Longrightarrow> bounded (turn_limit cfg) (afterCapacityTimer cfg info w n m v)"
  using bounded_loopTop [of v cfg info] by (simp add: afterCapacityTimer_def) (simp add: bounded_def)

lemma bounded_reconcile: "turnsThisRun v \<le> turn_limit cfg \<Longrightarrow> bounded (turn_limit cfg) (afterReconcile cfg info w v)"
  using bounded_loopTop [of v cfg info]
    bounded_wait [of "v\<lparr>capacityChecksThisRun := capacityChecksThisRun v + 1\<rparr>" cfg info]
  by (simp add: afterReconcile_def Let_def split: option.split) (simp add: bounded_def)

lemma bounded_afterRun: "turnsThisRun v \<le> turn_limit cfg \<Longrightarrow> bounded (turn_limit cfg) (afterRun cfg info t b r v)"
  using bounded_loopTop [of v cfg info] bounded_wait [of v cfg info]
  by (simp add: afterRun_def holdOrLoop_def Let_def split: option.split) (simp add: bounded_def)

lemma bounded_approval: "turnsThisRun v \<le> turn_limit cfg \<Longrightarrow> bounded (turn_limit cfg) (afterApproval cfg info t v)"
  using bounded_loopTop [of "v\<lparr>approvalQueue := tl (approvalQueue v)\<rparr>" cfg info]
    bounded_startTurn [of "v\<lparr>approvalQueue := tl (approvalQueue v)\<rparr>" "turn_limit cfg"]
  by (simp add: afterApproval_def Let_def split: option.split) (simp add: bounded_def)

lemma bounded_idle_wait:
  assumes "turn_inv (turn_limit cfg) (turnsThisRun v) (interruptedEventId v) (AtIdleWait n)" "interruptedEventId v \<noteq> Some []"
  shows "bounded (turn_limit cfg) (afterIdleWait cfg info n woke v)"
proof (cases "nonempty_id (interruptedEventId v)")
  case None
  then have "interruptedEventId v = None" using assms(2) by (auto simp: nonempty_id_def split: option.splits list.splits)
  with assms(1) None bounded_loopTop [of v cfg info] show ?thesis
    by (simp add: afterIdleWait_def) (simp add: bounded_def)
next
  case (Some e)
  with assms(1) show ?thesis by (auto simp: afterIdleWait_def bounded_def)
qed

lemma bounded_afterWait:
  assumes "turn_inv (turn_limit cfg) (turnsThisRun v) (interruptedEventId v) p" "interruptedEventId v \<noteq> Some []"
  shows "bounded (turn_limit cfg) (afterWait cfg info woke p v)"
proof (cases p)
  case (AtIdleWait n)
  with assms show ?thesis using bounded_idle_wait [of cfg v n info woke] by simp
next
  case (AtApproval t)
  with assms show ?thesis by (simp add: bounded_approval)
next
  case (AtHold ms n)
  with assms show ?thesis by (simp add: bounded_loopTop)
next
  case (AtCapacityTimer w ms n m)
  with assms show ?thesis by (simp add: bounded_timer)
qed (use assms in \<open>simp_all add: bounded_def\<close>)

lemma bounded_completion:
  assumes "turn_inv (turn_limit cfg) (turnsThisRun v) (interruptedEventId v) p" "afterCompletion cfg info p v = Some st"
  shows "bounded (turn_limit cfg) st"
proof (cases p)
  case (AtInterrupt e)
  have "bounded (turn_limit cfg) (loopTop cfg info (v\<lparr>interruptedEventId := None\<rparr>))"
    by (rule bounded_loopTop) (use assms(1) AtInterrupt in auto)
  with AtInterrupt assms(2) show ?thesis by simp
next
  case (AtMarkIdle n)
  with assms show ?thesis using bounded_loopTop [of v cfg info]
    by (auto simp: afterMarkIdle_def) (simp add: bounded_def)
qed (use assms in \<open>auto simp: bounded_def\<close>)

lemma bounded_resume:
  assumes r: "resume cfg info ev p v = Some st"
    and inv: "turn_inv (turn_limit cfg) (turnsThisRun v) (interruptedEventId v) p" "interruptedEventId v \<noteq> Some []"
  shows "bounded (turn_limit cfg) st"
proof (cases ev)
  case (Claimed t)
  then show ?thesis using r inv bounded_runClaimed [of v "turn_limit cfg"]
    by (cases t; cases p) (auto simp: afterEmptyClaim_def bounded_def)
next
  case (CapacityWait w)
  then show ?thesis using r inv bounded_wait [of v cfg info]
    by (cases w; cases p) (auto simp: afterCapacityRead_def afterFailureRead_def bounded_def split: if_splits)
next
  case (GoalChecked a)
  then show ?thesis using r inv bounded_loopTop [of v cfg info] by (auto simp: afterGoal_def bounded_def split: if_splits)
next
  case (RunReturned x)
  then show ?thesis using r inv bounded_afterRun [of v cfg info] by (cases p) auto
next
  case (RequeueReturned x)
  then show ?thesis using r inv bounded_loopTop [of v cfg info] by (cases p; cases x) (auto simp: afterRequeue_def bounded_def)
next
  case (Reconciled w)
  then show ?thesis using r inv bounded_reconcile [of v cfg info] by (cases p) auto
next
  case Completed
  then show ?thesis using r inv bounded_completion [of cfg v p info] by auto
next
  case (Threw err)
  then show ?thesis using r inv by (cases p) (auto simp: bounded_def split: if_splits)
next
  case Activate
  then show ?thesis using r inv bounded_loopTop [of v cfg info] by (auto split: if_splits)
next
  case ConditionMet
  then show ?thesis using r inv bounded_afterWait [of cfg v p info True] by (auto split: if_splits)
next
  case TimedOut
  then show ?thesis using r inv bounded_afterWait [of cfg v p info False] by (auto split: if_splits)
qed

definition turns_ok :: "wf_scope \<Rightarrow> wf_system \<Rightarrow> bool" where
  "turns_ok sc s \<longleftrightarrow> bounded (turn_limit (sc_config sc)) (at_point s, vars s)"

lemma fresh_turns_ok: "turns_ok sc (s\<lparr>at_point := AtStart, vars := fresh_vars, pending := e\<rparr>)"
  by (simp add: turns_ok_def bounded_def fresh_vars_def)

lemma handle_turns: "turnsThisRun (handle sg v) = turnsThisRun v"
  by (cases sg) simp_all

lemma handle_keeps_interrupt: "interruptedEventId v \<noteq> None \<Longrightarrow> interruptedEventId (handle sg v) \<noteq> None"
  by (cases sg) simp_all

lemma turns_ok_signal:
  assumes "turns_ok sc s" "signalled sg ids s = Some s'"
  shows "turns_ok sc s'"
proof (cases "live (at_point s)")
  case True
  then have s': "at_point s' = at_point s" "vars s' = handle sg (vars s)"
    using assms(2) by (auto simp: signalled_def split: if_splits)
  with assms(1) show ?thesis unfolding turns_ok_def bounded_def snd_conv fst_conv s' handle_turns
    by (metis turn_inv_signal handle_keeps_interrupt)
next
  case False
  then have s': "at_point s' = AtStart" "vars s' = handle sg fresh_vars"
    using assms(2) by (auto simp: signalled_def split: if_splits)
  show ?thesis unfolding turns_ok_def bounded_def snd_conv fst_conv s' handle_turns by (simp add: fresh_vars_def)
qed

lemma turns_ok_resumed:
  assumes "turns_ok sc s" "wf_inv sc s" "resumed sc info ev s = Some s'"
  shows "turns_ok sc s'"
proof -
  obtain p v where r: "resume (sc_config sc) info ev (at_point s) (vars s) = Some (p, v)"
    and s': "s' = s\<lparr>at_point := p, vars := v, pending := None\<rparr>"
    using assms(3) by (auto simp: resumed_def split: option.splits)
  have "bounded (turn_limit (sc_config sc)) (p, v)"
    using bounded_resume [OF r] assms(1,2) by (simp add: turns_ok_def bounded_def wf_inv_def)
  then show ?thesis by (simp add: turns_ok_def s')
qed

text \<open>The steps that are neither a signal nor a step of the function leave its point and variables alone.\<close>

lemma wf_next_cases:
  assumes "wf_next sc l s = Some s'"
  obtains (signal) sg ids where "signalled sg ids s = Some s'"
  | (again) "s' = s\<lparr>at_point := AtStart, vars := fresh_vars, pending := None\<rparr>"
  | (resume) info ev where "resumed sc info ev s = Some s'"
  | (same) "at_point s' = at_point s" "vars s' = vars s"
proof (cases l)
  case (Signal sg ids)
  with assms show ?thesis by (intro signal) simp
next
  case StartNext
  with assms show ?thesis by (intro again) (auto split: if_splits)
next
  case (OtherWriter db)
  with assms show ?thesis by (intro same) (auto split: if_splits)
next
  case (DoClaim locked now)
  with assms show ?thesis by (intro same) (auto simp: claimed_def split: if_splits prod.splits)
next
  case (ActivityWrites db)
  with assms show ?thesis by (intro same) (auto split: if_splits option.splits)
next
  case (ActivityReplies ev)
  with assms show ?thesis by (intro same) (auto split: if_splits option.splits)
next
  case (Deliver info)
  with assms obtain ev where "resumed sc info ev s = Some s'" by (auto split: option.splits)
  then show ?thesis by (rule resume)
next
  case (Proceed info ev)
  with assms show ?thesis by (intro resume [of info ev]) (simp split: if_splits)
qed

lemma turns_ok_next:
  assumes "turns_ok sc s" "wf_inv sc s" "wf_next sc l s = Some s'"
  shows "turns_ok sc s'"
  using assms(3)
proof (cases rule: wf_next_cases)
  case (signal sg ids)
  with assms(1) show ?thesis by (rule turns_ok_signal)
next
  case again
  then show ?thesis by (simp add: fresh_turns_ok)
next
  case (resume info ev)
  with assms(1,2) show ?thesis by (rule turns_ok_resumed)
next
  case same
  with assms(1) show ?thesis by (simp add: turns_ok_def)
qed

lemma turns_ok_reach: "wf_reach sc s \<Longrightarrow> turns_ok sc s"
proof (induction rule: wf_reach.induct)
  case (start s)
  then show ?case by (simp add: wf_init_def turns_ok_def bounded_def fresh_vars_def)
next
  case (step s l s')
  then show ?case by (blast intro: turns_ok_next inv_reach)
qed

subsection \<open>Progress\<close>

text \<open>A reply that is pending is one the workflow can take.\<close>

definition deliverable :: "wf_system \<Rightarrow> bool" where
  "deliverable s \<longleftrightarrow> (\<forall>ev. pending s = Some ev \<longrightarrow> (\<exists>a. scheduled (at_point s) = Some a \<and>
     (reply_of a ev \<or> (a = ClaimNextQueuedTurn \<and> (\<exists>t. ev = Claimed t)))))"

lemma deliverable_next:
  assumes "deliverable s" "wf_next sc l s = Some s'"
  shows "deliverable s'"
proof (cases l)
  case (Signal sg ids)
  then show ?thesis using assms by (auto simp: signalled_def deliverable_def split: if_splits)
next
  case (DoClaim locked now)
  then show ?thesis using assms by (auto simp: deliverable_def claimed_def split: if_splits prod.splits)
qed (use assms in \<open>auto simp: deliverable_def resumed_def split: if_splits option.splits\<close>)

lemma deliverable_reach: "wf_reach sc s \<Longrightarrow> deliverable s"
proof (induction rule: wf_reach.induct)
  case (start s)
  then show ?case by (simp add: wf_init_def deliverable_def)
next
  case (step s l s')
  then show ?case by (blast intro: deliverable_next)
qed

lemma reply_taken:
  assumes "scheduled p = Some a" "reply_of a ev \<or> (a = ClaimNextQueuedTurn \<and> (\<exists>t. ev = Claimed t))"
  shows "\<exists>st. resume cfg info ev p v = Some st"
proof (cases ev)
  case (Claimed t)
  with assms show ?thesis by (cases p; cases t) auto
next
  case (CapacityWait w)
  with assms show ?thesis by (cases p; cases w) auto
qed (use assms in \<open>(cases p; auto)+\<close>)

text \<open>The steps of the workflow and of the activities it awaits.\<close>

fun own_step :: "wf_label \<Rightarrow> bool" where
  "own_step (Signal _ _) = False"
| "own_step (OtherWriter _) = False"
| "own_step _ = True"

text \<open>Every activity has a reply that is not an error.\<close>

definition replied :: "wf_event \<Rightarrow> bool" where
  "replied ev \<longleftrightarrow> (\<forall>err. ev \<noteq> Threw err)"

lemma activity_replies:
  assumes "a \<noteq> ClaimNextQueuedTurn"
  shows "\<exists>ev. reply_of a ev \<and> replied ev"
proof (cases a)
  case GetCodexCapacityWait
  then show ?thesis by (intro exI [where x = "CapacityWait None"]) (simp add: replied_def)
next
  case MaybeContinueGoal
  then show ?thesis by (intro exI [where x = "GoalChecked ActNone"]) (simp add: replied_def)
next
  case (RunAgentSegment t e)
  then show ?thesis by (intro exI [where x = "RunReturned undefined"]) (simp add: replied_def)
next
  case (RequeueTurnAfterWorkerDeath t e)
  then show ?thesis by (intro exI [where x = "RequeueReturned StaleTurn"]) (simp add: replied_def)
next
  case (ReconcileCodexCapacityWait w g c)
  then show ?thesis by (intro exI [where x = "Reconciled None"]) (simp add: replied_def)
qed (use assms in \<open>auto simp: replied_def intro!: exI [where x = Completed]\<close>)

lemma own_step_enabled:
  assumes "deliverable s" "live (at_point s)" "\<not> (\<exists>t. at_point s = AtApproval t \<and> \<not> condition_met (AtApproval t) (vars s))"
  shows "\<exists>l s'. own_step l \<and> (\<forall>ev. l = ActivityReplies ev \<longrightarrow> replied ev) \<and> wf_next sc l s = Some s'"
proof (cases "scheduled (at_point s)")
  case None
  show ?thesis
  proof (cases "timer (at_point s)")
    case None
    with \<open>scheduled (at_point s) = None\<close> assms(2) consider "at_point s = AtStart" | t where "at_point s = AtApproval t"
      by (cases "at_point s") auto
    then show ?thesis
    proof cases
      case 1
      then show ?thesis by (intro exI [where x = "Proceed undefined Activate"]) (simp add: resumed_def split: prod.split)
    next
      case (2 t)
      with assms(3) have "condition_met (AtApproval t) (vars s)" by auto
      with 2 show ?thesis
        by (intro exI [where x = "Proceed undefined ConditionMet"]) (simp add: resumed_def split: prod.split)
    qed
  next
    case (Some ms)
    then show ?thesis by (intro exI [where x = "Proceed undefined TimedOut"]) (simp add: resumed_def split: prod.split)
  qed
next
  case (Some a)
  show ?thesis
  proof (cases "pending s")
    case (Some ev)
    then obtain st where "resume (sc_config sc) undefined ev (at_point s) (vars s) = Some st"
      using reply_taken [of "at_point s"] assms(1) unfolding deliverable_def by metis
    with Some show ?thesis
      by (intro exI [where x = "Deliver undefined"]) (simp add: resumed_def split: prod.split)
  next
    case None
    show ?thesis
    proof (cases "a = ClaimNextQueuedTurn")
      case True
      with Some None show ?thesis by (intro exI [where x = "DoClaim [] 0"]) simp
    next
      case False
      then obtain ev where "reply_of a ev" "replied ev" using activity_replies by blast
      with Some None show ?thesis by (intro exI [where x = "ActivityReplies ev"]) simp
    qed
  qed
qed

subsection \<open>Between two claims\<close>

text \<open>The points at which the loop has come round, and the resumptions a run may need to get there.\<close>

fun boundary :: "wf_point \<Rightarrow> bool" where
  "boundary AtClaim = True"
| "boundary ContinuedAsNew = True"
| "boundary (Ended _) = True"
| "boundary (Crashed _) = True"
| "boundary _ = False"

fun rank_at :: "nat \<Rightarrow> nat \<Rightarrow> wf_point \<Rightarrow> nat" where
  "rank_at c a AtStart = 2 * c + 2 * a + 11"
| "rank_at c a AtClaim = 2 * c + 2 * a + 10"
| "rank_at c a AtCapacityRead = 2 * c + 2 * a + 9"
| "rank_at c a AtContinueGoal = 2 * c + 2 * a + 8"
| "rank_at c a (AtIdleWait _) = 2 * c + 2 * a + 7"
| "rank_at c a (AtFinalClaim _) = 2 * c + 2 * a + 6"
| "rank_at c a (AtRun _ _ _ _) = 2 * c + 2 * a + 5"
| "rank_at c a (AtApproval _) = 2 * c + 2 * a + 4"
| "rank_at c a (AtFailureRead _ _ _ _ _) = 2 * c + 3"
| "rank_at c a (AtCapacityTimer _ _ _ _) = 2 * c + 2"
| "rank_at c a (AtReconcile _ _) = 2 * c + 1"
| "rank_at c a (AtRequeue _ _) = 2"
| "rank_at c a (AtPauseGoal _) = 2"
| "rank_at c a (AtFailSession _ _) = 1"
| "rank_at c a AtStopIdle = 1"
| "rank_at c a (AtMarkIdle _) = 1"
| "rank_at c a (AtInterrupt _) = 1"
| "rank_at c a (AtHold _ _) = 1"
| "rank_at c a _ = 0"

definition rank :: "wf_config \<Rightarrow> wf_state \<Rightarrow> nat" where
  "rank cfg st = rank_at (check_limit cfg - capacityChecksThisRun (snd st)) (length (approvalQueue (snd st))) (fst st)"

definition nearer :: "wf_config \<Rightarrow> nat \<Rightarrow> wf_state \<Rightarrow> bool" where
  "nearer cfg n st \<longleftrightarrow> boundary (fst st) \<or> rank cfg st < n"

lemma nearer_mono: "nearer cfg n st \<Longrightarrow> n \<le> m \<Longrightarrow> nearer cfg m st"
  by (auto simp: nearer_def)

lemma nearer_loopTop: "nearer cfg n (loopTop cfg info v)"
  by (simp add: nearer_def loopTop_def)

lemma nearer_startTurn:
  "rank_at (check_limit cfg - capacityChecksThisRun v) (length (approvalQueue v)) (AtRun t e 0 0) < n \<Longrightarrow> nearer cfg n (startTurn t e v)"
  by (auto simp: nearer_def startTurn_def rank_def split: option.split)

lemma nearer_wait: "2 * (check_limit cfg - capacityChecksThisRun v) + 2 < n \<Longrightarrow> nearer cfg n (waitForCapacity cfg info w b v)"
  using nearer_loopTop [of cfg n info v]
  by (simp add: waitForCapacity_def Let_def split: prod.split) (simp add: nearer_def rank_def)

lemma nearer_reconcile:
  "nearer cfg (2 * (check_limit cfg - capacityChecksThisRun v) + 1) (afterReconcile cfg info w v)"
proof (cases w)
  case None
  then show ?thesis by (simp add: afterReconcile_def nearer_loopTop)
next
  case (Some r)
  let ?v = "v\<lparr>capacityChecksThisRun := capacityChecksThisRun v + 1\<rparr>"
  show ?thesis
  proof (cases "interruptedEventId v = None \<and> (continueAsNewSuggested info \<or> check_limit cfg \<le> capacityChecksThisRun ?v)")
    case True
    with Some show ?thesis by (simp add: afterReconcile_def Let_def nearer_def)
  next
    case False
    show ?thesis
    proof (cases "interruptedEventId v = None")
      case True
      with False have "capacityChecksThisRun v + 1 < check_limit cfg" by auto
      then have "nearer cfg (2 * (check_limit cfg - capacityChecksThisRun v) + 1) (waitForCapacity cfg info r None ?v)"
        by (intro nearer_wait) auto
      with Some False show ?thesis by (auto simp: afterReconcile_def Let_def)
    next
      case False
      with Some show ?thesis by (auto simp: afterReconcile_def Let_def waitForCapacity_def nearer_loopTop)
    qed
  qed
qed

lemma nearer_afterRun:
  "nearer cfg (rank cfg (AtRun t e i j, v)) (afterRun cfg info t b r v)"
proof -
  have "nearer cfg (rank cfg (AtRun t e i j, v)) (waitForCapacity cfg info w (Some b) v)" for w
    by (rule nearer_wait) (simp add: rank_def)
  then show ?thesis
    by (simp add: afterRun_def holdOrLoop_def Let_def nearer_loopTop split: option.split) (simp add: nearer_def rank_def)
qed

lemma nearer_approval:
  assumes "condition_met (AtApproval t) v"
  shows "nearer cfg (rank cfg (AtApproval t, v)) (afterApproval cfg info t v)"
proof (cases "nonempty_id (interruptedEventId v)")
  case (Some e)
  then show ?thesis by (simp add: afterApproval_def nearer_def rank_def)
next
  case None
  let ?v = "v\<lparr>approvalQueue := tl (approvalQueue v)\<rparr>"
  show ?thesis
  proof (cases "approvalQueue v")
    case Nil
    with None show ?thesis by (simp add: afterApproval_def Let_def nonempty_id_def nearer_loopTop)
  next
    case (Cons x xs)
    have "nearer cfg (rank cfg (AtApproval t, v)) (startTurn t e ?v)" for e
      by (rule nearer_startTurn) (simp add: rank_def Cons)
    then show ?thesis using None Cons by (simp add: afterApproval_def Let_def nearer_loopTop split: option.split)
  qed
qed

lemma nearer_wake: "condition_met p v \<or> timer p \<noteq> None \<Longrightarrow> nearer cfg (rank cfg (p, v)) (afterWait cfg info woke p v)"
  using nearer_loopTop [of cfg _ info v] nearer_approval [of _ v cfg info]
  by (cases p) (auto simp: afterIdleWait_def afterCapacityTimer_def nearer_def [of _ _ "(_, _)"] rank_def split: option.split)

lemma nearer_resume:
  assumes r: "resume cfg info ev p v = Some st"
  shows "nearer cfg (rank cfg (p, v)) st"
proof (cases ev)
  case (Claimed t)
  have "nearer cfg (2 * (check_limit cfg - capacityChecksThisRun v) + 2 * length (approvalQueue v) + n) (runClaimed x v)"
    if "6 \<le> n" for x n
    unfolding runClaimed_def by (rule nearer_startTurn) (use that in simp)
  then show ?thesis using Claimed r
    by (cases t; cases p) (auto simp: afterEmptyClaim_def rank_def nearer_def [of _ _ "(_, _)"])
next
  case (CapacityWait w)
  have "nearer cfg (rank cfg (p, v)) (waitForCapacity cfg info x b v)" if "p = AtCapacityRead \<or> (\<exists>a b c d e. p = AtFailureRead a b c d e)" for x b
    by (rule nearer_wait) (use that in \<open>auto simp: rank_def\<close>)
  then show ?thesis using CapacityWait r
    by (cases w; cases p) (auto simp: afterCapacityRead_def afterFailureRead_def rank_def nearer_def [of _ _ "(_, _)"] split: if_splits)
next
  case (GoalChecked a)
  then show ?thesis using r by (auto simp: afterGoal_def nearer_loopTop nearer_def [of _ _ "(_, _)"] rank_def split: if_splits)
next
  case (RunReturned x)
  then show ?thesis using r by (cases p) (auto simp: nearer_afterRun)
next
  case (RequeueReturned x)
  then show ?thesis using r
    by (cases p; cases x) (auto simp: afterRequeue_def nearer_loopTop nearer_def [of _ _ "(_, _)"] rank_def)
next
  case (Reconciled w)
  then show ?thesis using r nearer_reconcile [of cfg v info w] by (cases p) (auto simp: rank_def)
next
  case Completed
  then show ?thesis using r
    by (cases p) (auto simp: afterMarkIdle_def nearer_loopTop nearer_def [of _ _ "(_, _)"] rank_def)
next
  case (Threw err)
  then show ?thesis using r by (cases p) (auto simp: nearer_def rank_def split: if_splits)
next
  case Activate
  then show ?thesis using r by (auto simp: nearer_loopTop split: if_splits)
next
  case ConditionMet
  then show ?thesis using r by (auto intro: nearer_wake split: if_splits)
next
  case TimedOut
  then show ?thesis using r by (auto intro: nearer_wake split: if_splits)
qed

fun wf_trace :: "wf_config \<Rightarrow> (wf_info \<times> wf_event) list \<Rightarrow> wf_state \<Rightarrow> wf_state list option" where
  "wf_trace cfg [] st = Some []"
| "wf_trace cfg ((info, ev) # evs) st =
     (case resume cfg info ev (fst st) (snd st) of
        None \<Rightarrow> None
      | Some st' \<Rightarrow> map_option (\<lambda>sts. st' # sts) (wf_trace cfg evs st'))"

lemma trace_rank:
  "wf_trace cfg evs st = Some sts \<Longrightarrow> \<forall>st' \<in> set sts. \<not> boundary (fst st') \<Longrightarrow> length evs \<le> rank cfg st"
proof (induction evs arbitrary: st sts)
  case Nil
  then show ?case by simp
next
  case (Cons e evs)
  obtain info ev where e: "e = (info, ev)" by fastforce
  with Cons.prems(1) obtain st' sts' where r: "resume cfg info ev (fst st) (snd st) = Some st'"
    and t: "wf_trace cfg evs st' = Some sts'" and sts: "sts = st' # sts'"
    by (auto split: option.splits)
  have "length evs \<le> rank cfg st'" using Cons.IH [OF t] Cons.prems(2) sts by simp
  moreover have "rank cfg st' < rank cfg st"
    using nearer_resume [OF r] Cons.prems(2) sts by (auto simp: nearer_def)
  ultimately show ?case by simp
qed

lemma rank_limit: "rank cfg (p, v) \<le> 2 * (check_limit cfg - capacityChecksThisRun v + length (approvalQueue v)) + 11"
  by (cases p) (auto simp: rank_def)

end
