(* ===== verification/Workflow_Runs.thy ===== *)
theory Workflow_Runs
  imports Workflow_Bounds
begin

text \<open>
  The properties of a session's workflow over its reachable states, and concrete runs: the one in
  which the wait ends well, and those in which a run leaves an announced turn behind.
\<close>

subsection \<open>Concrete runs\<close>

definition demo_scope :: wf_scope where
  "demo_scope = \<lparr>sc_workspace = ''w'', sc_session = ''s'', sc_workflow = ''wf'',
     sc_config = \<lparr>maxTurnsPerRun = None, maxCapacityChecksPerRun = None\<rparr>\<rparr>"

definition calm_info :: wf_info where
  "calm_info = \<lparr>wf_now = 0, continueAsNewSuggested = False\<rparr>"

definition fresh_run :: "session_db \<Rightarrow> wf_system" where
  "fresh_run db = \<lparr>at_point = AtStart, vars = fresh_vars, tables = db, pending = None, unsignalled = [], skipped = []\<rparr>"

definition demo_turn :: "uuid \<Rightarrow> session_db \<Rightarrow> session_db" where
  "demo_turn tid db = fst (enqueueSessionTurn tid 1 (demo_enqueue (VObj []) True) db)"

text \<open>An activity that replies at once.\<close>

definition answer :: "wf_event \<Rightarrow> wf_label list" where
  "answer ev = [ActivityReplies ev, Deliver calm_info]"

definition to_idle_wait :: "wf_label list" where
  "to_idle_wait = [Proceed calm_info Activate, DoClaim [] 1, Deliver calm_info]
     @ answer (CapacityWait None) @ answer (GoalChecked ActNone)"

text \<open>A message is queued after the last claim; the run ends before its signal is sent.\<close>

definition idle_run :: "wf_label list" where
  "idle_run = to_idle_wait @ [Proceed calm_info TimedOut, DoClaim [] 2, OtherWriter (demo_turn ''t1'' demo_db),
     Deliver calm_info] @ answer Completed"

text \<open>A message is queued and signalled while the run acts on a stop.\<close>

definition stop_run :: "wf_label list" where
  "stop_run = to_idle_wait @ [Signal (Interrupt ''e'') [], Proceed calm_info ConditionMet,
     OtherWriter (demo_turn ''t1'' demo_db), Signal QueueChanged [''t1'']] @ answer Completed @ answer Completed"

text \<open>A message is queued and signalled while a turn runs that fails.\<close>

definition failed_result :: run_result where
  "failed_result = \<lparr>r_status = RunFailed, r_continue_delay_ms = None, r_idle_until_reset = False, r_capacity_wait = None\<rparr>"

definition failed_run :: "wf_label list" where
  "failed_run = [Proceed calm_info Activate, DoClaim [] 1, Deliver calm_info,
     OtherWriter (demo_turn ''t2'' demo_running), Signal QueueChanged [''t2'']] @ answer (RunReturned failed_result)"

definition run_outcome :: "wf_system option \<Rightarrow> (wf_point \<times> uuid list \<times> uuid list \<times> uuid list) option" where
  "run_outcome = map_option (\<lambda>s. (at_point s, queued_ids demo_scope (tables s), unsignalled s, skipped s))"

lemma demo_runs:
  "run_outcome (wf_run demo_scope idle_run (fresh_run demo_db)) = Some (Ended IdledOut, [''t1''], [''t1''], [])"
  "run_outcome (wf_run demo_scope stop_run (fresh_run demo_db)) = Some (Ended Stopped, [''t1''], [], [])"
  "run_outcome (wf_run demo_scope failed_run (fresh_run (demo_turn ''t1'' demo_db))) = Some (Ended TurnFailed, [''t2''], [], [])"
  by code_simp+

lemma fresh_run_reach: "has_session demo_scope db \<Longrightarrow> wf_reach demo_scope (fresh_run db)"
  by (rule wf_reach.start) (simp add: wf_init_def fresh_run_def)

lemma demo_sessions: "has_session demo_scope demo_db" "has_session demo_scope (demo_turn ''t1'' demo_db)"
  by code_simp+

lemma run_outcome_reach:
  assumes "run_outcome (wf_run demo_scope ls (fresh_run db)) = Some (p, q, u, k)" "has_session demo_scope db"
  obtains s where "wf_reach demo_scope s" "at_point s = p" "queued_ids demo_scope (tables s) = q"
    "unsignalled s = u" "skipped s = k"
  using assms wf_run_reach [OF fresh_run_reach [OF assms(2)]] by (auto simp: run_outcome_def)

subsection \<open>Runs that end, and runs that are replaced\<close>

text \<open>
  C29: a run that idles out strands nothing. However signals, other writers and the activities
  interleave, when a run ends because there is no work, every turn of its session that is still
  queued has its wake-up signal still to come (and that signal starts the next run), or was locked
  by another transaction during the last claim; and no interrupt is pending, neither then nor when
  the run is replaced by a fresh one.
\<close>

theorem idle_end_strands_nothing:
  assumes "wf_reach sc s" and "at_point s = Ended IdledOut \<or> at_point s = ContinuedAsNew"
  shows "interruptedEventId (vars s) = None \<and>
    (at_point s = Ended IdledOut \<longrightarrow> (\<forall>t \<in> set (session_turns (tables s)).
       queued_in (sc_workspace sc) (sc_session sc) t \<longrightarrow> t_id t \<in> set (unsignalled s) \<union> set (skipped s)))"
  using inv_reach [OF assms(1)] assms(2)
  by (auto simp: wf_inv_def settled_queue_def queued_ids_def select_where_def image_subset_iff)

lemma idle_end_strands_nothing_witness:
  "\<exists>s. wf_reach demo_scope s \<and> at_point s = Ended IdledOut \<and> queued_ids demo_scope (tables s) = [''t1'']
     \<and> interruptedEventId (vars s) = None \<and> ''t1'' \<in> set (unsignalled s) \<union> set (skipped s)"
proof -
  obtain s where s: "wf_reach demo_scope s" "at_point s = Ended IdledOut" "queued_ids demo_scope (tables s) = [''t1'']"
    by (rule run_outcome_reach [OF demo_runs(1) demo_sessions(1)])
  have "''t1'' \<in> set (queued_ids demo_scope (tables s))" using s(3) by simp
  then obtain t where "t \<in> set (session_turns (tables s))" "queued_in (sc_workspace demo_scope) (sc_session demo_scope) t"
    "t_id t = ''t1''"
    by (auto simp: queued_ids_def select_where_def)
  with idle_end_strands_nothing [OF s(1)] s show ?thesis by (intro exI [where x = s]) auto
qed

text \<open>
  C30: the other ends can strand a turn. There are runs in which a message's turn is queued and
  its signal delivered while the run acts on a stop, or while a turn runs that then fails, and the
  run ends all the same: the turn stays queued, nobody is left to signal it, and no claim passed
  over it.
\<close>

theorem announced_turns_can_strand:
  "(\<exists>sc s. wf_reach sc s \<and> at_point s = Ended Stopped
      \<and> queued_ids sc (tables s) \<noteq> [] \<and> unsignalled s = [] \<and> skipped s = [])
   \<and> (\<exists>sc s. wf_reach sc s \<and> at_point s = Ended TurnFailed
      \<and> queued_ids sc (tables s) \<noteq> [] \<and> unsignalled s = [] \<and> skipped s = [])"
proof -
  obtain s1 where "wf_reach demo_scope s1" "at_point s1 = Ended Stopped" "queued_ids demo_scope (tables s1) = [''t1'']"
    "unsignalled s1 = []" "skipped s1 = []"
    by (rule run_outcome_reach [OF demo_runs(2) demo_sessions(1)])
  moreover obtain s2 where "wf_reach demo_scope s2" "at_point s2 = Ended TurnFailed"
    "queued_ids demo_scope (tables s2) = [''t2'']" "unsignalled s2 = []" "skipped s2 = []"
    by (rule run_outcome_reach [OF demo_runs(3) demo_sessions(2)])
  ultimately show ?thesis by (metis list.distinct(1))
qed

text \<open>
  C31: the history of one run is bounded. In every reachable state the run has dispatched at most
  one turn more than its limit (2000 unless configured): a limit that is reached while an interrupt
  is pending lets one more claim through, whose turn is cancelled and not run.
\<close>

theorem turns_per_run_bounded:
  assumes "wf_reach sc s"
  shows "turnsThisRun (vars s) \<le> turn_limit (sc_config sc) + 1
    \<and> (\<forall>turn trigger n m. at_point s = AtRun turn trigger n m \<longrightarrow> turnsThisRun (vars s) \<le> turn_limit (sc_config sc))"
  using turns_ok_reach [OF assms] by (auto simp: turns_ok_def bounded_def dest: turn_inv_bound)

lemma turns_per_run_bounded_witness:
  "\<exists>s. wf_reach demo_scope s \<and> at_point s = Ended TurnFailed \<and> turnsThisRun (vars s) \<le> 2001"
proof -
  obtain s where s: "wf_reach demo_scope s" "at_point s = Ended TurnFailed"
    by (rule run_outcome_reach [OF demo_runs(3) demo_sessions(2)])
  from turns_per_run_bounded [OF s(1)] s show ?thesis
    by (auto simp: demo_scope_def turn_limit_def TURNS_PER_RUN_BACKSTOP_def or_else_def)
qed

text \<open>
  The loop comes round. From any point, whatever the activities reply and the timers do, a run
  that receives no further signal claims again, is replaced or is over within twice its remaining
  capacity checks and buffered approval decisions, and eleven, resumptions.
\<close>

theorem claims_keep_coming:
  assumes "wf_trace cfg evs (p, v) = Some sts"
    and "2 * (check_limit cfg - capacityChecksThisRun v + length (approvalQueue v)) + 11 < length evs"
  shows "\<exists>st \<in> set sts. fst st = AtClaim \<or> fst st = ContinuedAsNew \<or> over (fst st)"
proof (rule ccontr)
  assume "\<not> ?thesis"
  moreover have "boundary p \<longleftrightarrow> p = AtClaim \<or> p = ContinuedAsNew \<or> over p" for p by (cases p) auto
  ultimately have "\<forall>st \<in> set sts. \<not> boundary (fst st)" by blast
  from trace_rank [OF assms(1) this] rank_limit [of cfg p v] assms(2) show False by simp
qed

text \<open>A wait for capacity that is told to go on waiting once, then five rounds of the loop.\<close>

definition small_config :: wf_config where
  "small_config = \<lparr>maxTurnsPerRun = Some 1, maxCapacityChecksPerRun = Some 2\<rparr>"

definition demo_ref :: wait_ref where
  "demo_ref = \<lparr>waiterId = ''wt'', generation = 1, nextCheckAt = None\<rparr>"

definition demo_events :: "(wf_info \<times> wf_event) list" where
  "demo_events = map (\<lambda>ev. (calm_info, ev))
     ([CapacityWait (Some demo_ref), Reconciled (Some demo_ref), Reconciled None]
      @ concat (replicate 5 [Claimed None, CapacityWait None, GoalChecked ActContinue]))"

lemma claims_keep_coming_witness:
  "\<exists>sts. wf_trace small_config demo_events (AtCapacityRead, fresh_vars) = Some sts
    \<and> (\<exists>st \<in> set sts. fst st = AtClaim \<or> fst st = ContinuedAsNew \<or> over (fst st))"
proof -
  have "wf_trace small_config demo_events (AtCapacityRead, fresh_vars) \<noteq> None" by code_simp
  then obtain sts where sts: "wf_trace small_config demo_events (AtCapacityRead, fresh_vars) = Some sts" by blast
  have "2 * (check_limit small_config - capacityChecksThisRun fresh_vars + length (approvalQueue fresh_vars)) + 11 < length demo_events"
    by code_simp
  from claims_keep_coming [OF sts this] sts show ?thesis by blast
qed

text \<open>
  A run is never stuck: in every reachable state that is not over, a step of the workflow or of the
  activity it awaits is enabled (no error is needed for it), unless the run waits for a user's
  approval, or has been replaced and the fresh run starts.
\<close>

theorem run_never_stuck:
  assumes "wf_reach sc s" and "live (at_point s)"
    and "\<not> (\<exists>t. at_point s = AtApproval t \<and> interruptedEventId (vars s) = None \<and> approvalQueue (vars s) = [])"
  shows "\<exists>l s'. own_step l \<and> (\<forall>ev. l = ActivityReplies ev \<longrightarrow> replied ev) \<and> wf_next sc l s = Some s'"
  using assms by (intro own_step_enabled deliverable_reach) auto

end
