(* ===== verification/Session_State_Props.thy ===== *)
theory Session_State_Props
  imports Session_State Goals_Props Child_Wake_Props
begin

text \<open>
  What the activities of a session workflow do to its turns, its goal and its row, when no other
  writer comes in between: a stop stops, a steer redirects, an idle session keeps its turns, and a
  turn survives at most three dead workers.
\<close>

abbreviation alone :: "nat \<Rightarrow> session_db \<Rightarrow> session_db" where
  "alone \<equiv> \<lambda>_ db. db"

subsection \<open>Frames\<close>

lemma append_frame:
  assumes "appendSessionEvents newId now ws sid inputs db = Inr (db', evs)"
  shows "session_turns db' = session_turns db" "session_goals db' = session_goals db"
  using assms by (auto simp: appendSessionEvents_def appendWith_def insertEvents_def Let_def
      split: option.splits sum.splits if_splits)

text \<open>A transaction that writes the log and the row of one session only.\<close>

definition own_writes :: "uuid \<Rightarrow> uuid \<Rightarrow> session_db \<Rightarrow> session_db \<Rightarrow> bool" where
  "own_writes ws sid db db' \<longleftrightarrow>
     select_where (\<lambda>r. \<not> session_is ws sid r) (sessions db') = select_where (\<lambda>r. \<not> session_is ws sid r) (sessions db)
     \<and> (\<exists>vs. session_events db' = session_events db @ vs
           \<and> list_all (\<lambda>v. er_workspace_id v = ws \<and> er_session_id v = sid) vs)"

lemma own_writes_same:
  "sessions db' = sessions db \<Longrightarrow> session_events db' = session_events db \<Longrightarrow> own_writes ws sid db db'"
  by (simp add: own_writes_def)

lemma own_writes_trans: "own_writes ws sid a b \<Longrightarrow> own_writes ws sid b c \<Longrightarrow> own_writes ws sid a c"
  by (auto simp: own_writes_def)

lemma select_not_updated:
  "(\<And>r. session_is ws sid r \<Longrightarrow> session_is ws sid (f r)) \<Longrightarrow>
   select_where (\<lambda>r. \<not> session_is ws sid r) (update_where (session_is ws sid) f rs) = select_where (\<lambda>r. \<not> session_is ws sid r) rs"
  by (induction rs) (auto simp: select_where_def)

lemma own_writes_session:
  assumes "\<And>r. s_workspace_id (f r) = s_workspace_id r" "\<And>r. s_id (f r) = s_id r"
  shows "own_writes ws sid db (update_session ws sid f db)"
  using assms select_not_updated [of ws sid f "sessions db"]
  by (simp add: own_writes_def update_session_def) (simp add: session_is_def)

lemma own_writes_append:
  assumes "appendSessionEvents newId now ws sid inputs db = Inr (db', evs)"
  shows "own_writes ws sid db db'"
proof (cases "inputs = []")
  case True
  with assms show ?thesis by (simp add: appendSessionEvents_def own_writes_same)
next
  case False
  then obtain s db1 where s: "find_session ws sid db = Some s"
      "insertEvents (eventValues newId now s (s_last_sequence s) inputs) db = Inr db1"
      "db' = update_session (s_workspace_id s) (s_id s) (\<lambda>r. r\<lparr>s_last_sequence := s_last_sequence s + int (length inputs)\<rparr>) db1"
    using assms by (auto simp: appendSessionEvents_def appendWith_def Let_def split: option.splits sum.splits)
  have owner: "s_workspace_id s = ws" "s_id s = sid" using find_sessionD [OF s(1)] by simp_all
  have "own_writes ws sid db db1"
    using insertEvents_Inr(1) [OF s(2)] eventValues_owner owner by (auto simp: own_writes_def list_all_iff)
  then show ?thesis
    unfolding s(3) owner by (rule own_writes_trans) (simp add: own_writes_session)
qed

lemma setSessionStatus_own: "own_writes ws sid db (setSessionStatus ws sid st a db)"
  by (simp add: setSessionStatus_def own_writes_session)

lemma setSessionStatus_frame [simp]:
  "session_turns (setSessionStatus ws sid st a db) = session_turns db"
  "session_goals (setSessionStatus ws sid st a db) = session_goals db"
  "session_events (setSessionStatus ws sid st a db) = session_events db"
  by (simp_all add: setSessionStatus_def)

lemma finishTurn_frame [simp]:
  "session_goals (finishTurn now ws tid st db) = session_goals db"
  "sessions (finishTurn now ws tid st db) = sessions db"
  by (simp_all add: finishTurn_def)

lemma getSessionGoal_cong: "session_goals db = session_goals db' \<Longrightarrow> getSessionGoal ws sid db = getSessionGoal ws sid db'"
  by (simp add: getSessionGoal_def)

lemma find_setSessionStatus:
  "find_session ws sid (setSessionStatus ws sid st (Some a) db)
     = map_option (\<lambda>s. s\<lparr>s_status := st, s_active_turn_id := a\<rparr>) (find_session ws sid db)"
proof -
  have "List.find (session_is ws sid) (update_where (session_is ws sid) (\<lambda>s. s\<lparr>s_status := st, s_active_turn_id := a\<rparr>) (sessions db))
     = map_option (\<lambda>s. if session_is ws sid s then s\<lparr>s_status := st, s_active_turn_id := a\<rparr> else s) (List.find (session_is ws sid) (sessions db))"
    by (rule find_update_where) (simp add: session_is_def)
  also have "\<dots> = map_option (\<lambda>s. s\<lparr>s_status := st, s_active_turn_id := a\<rparr>) (List.find (session_is ws sid) (sessions db))"
    by (rule option.map_cong) (auto dest: find_SomeD)
  finally show ?thesis by (simp add: find_session_def setSessionStatus_def update_session_def or_else_def)
qed

subsection \<open>Cancelling the active turn\<close>

lemma cancelActive_frame:
  assumes "cancelActive alone newId now ws sid trig trigger active db = (db', None)"
  shows "session_goals db' = session_goals db"
    and "session_turns db' = (case active of None \<Rightarrow> session_turns db
      | Some t \<Rightarrow> update_where (turn_is ws t) (cancelRow now) (session_turns db))"
  using assms append_frame
  by (auto simp: cancelActive_def Let_def finishTurn_def cancelRow_def [abs_def] split: option.splits sum.splits)

lemma cancelActive_session:
  "cancelActive alone newId now ws sid trig trigger (Some t) db = (db', None) \<Longrightarrow> find_session ws sid db' = Some s \<Longrightarrow>
   s_status s = SQueued \<and> s_active_turn_id s = None"
  by (auto simp: cancelActive_def Let_def find_setSessionStatus split: sum.splits)

lemma interrupt_cases:
  assumes "interruptActiveTurn alone newId now ws sid trig db = (db', None)"
  obtains s db1 where "find_session ws sid db = Some s"
    and "if isSteerInterrupt (getSessionEvent ws trig db) then db1 = db
         else stopWork alone newId now ws sid trig db = (db1, None)"
    and "cancelActive alone newId now ws sid trig (getSessionEvent ws trig db) (active_turn s) db1 = (db', None)"
  using assms that by (auto simp: interruptActiveTurn_def Let_def split: option.splits prod.splits if_splits)

lemma cancelActive_own:
  assumes "cancelActive alone newId now ws sid trig trigger active db = (db', None)"
  shows "own_writes ws sid db db'"
proof (cases active)
  case (Some t)
  then obtain db2 evs where a: "appendSessionEvents newId now ws sid [cancelledEvent t trig trigger, statusEvent (Some t) ''queued''] db = Inr (db2, evs)"
      and db': "db' = setSessionStatus ws sid SQueued (Some None) (finishTurn now ws t FinCancelled db2)"
    using assms by (auto simp: cancelActive_def Let_def split: sum.splits)
  have "own_writes ws sid db2 (finishTurn now ws t FinCancelled db2)"
    by (rule own_writes_same) (simp_all add: finishTurn_def)
  with own_writes_append [OF a] setSessionStatus_own show ?thesis unfolding db' by (metis own_writes_trans)
qed (use assms in \<open>simp add: cancelActive_def own_writes_same\<close>)

text \<open>The goal of a stopped session, when it is active, becomes paused by the user; no other goal row changes.\<close>

definition pausedByStop :: "goal_row \<Rightarrow> goal_row" where
  "pausedByStop g = g\<lparr>g_status := GPaused, g_version := g_version g + 1, g_rationale := None, g_paused_reason := Some ByUserInterrupt\<rparr>"

definition goals_after_stop :: "uuid \<Rightarrow> uuid \<Rightarrow> session_db \<Rightarrow> goal_row list" where
  "goals_after_stop ws sid db =
     (case getSessionGoal ws sid db of
        None \<Rightarrow> session_goals db
      | Some g \<Rightarrow> if g_status g = GActive then update_where (\<lambda>h. g_id h = g_id g) pausedByStop (session_goals db)
                  else session_goals db)"

lemma pause_frame:
  assumes "pauseActiveGoalOnInterrupt alone newId now ws sid db = (db', None)"
  shows "session_goals db' = goals_after_stop ws sid db" and "own_writes ws sid db db'"
proof -
  have row: "setStatusRow \<lparr>gs_status = GPaused, gs_evidence = None, gs_rationale = None, gs_paused_reason = Some ByUserInterrupt\<rparr>
      = pausedByStop"
    by (rule ext) (simp add: setStatusRow_def pausedByStop_def Let_def)
  have "session_goals db' = goals_after_stop ws sid db \<and> own_writes ws sid db db'"
  proof (cases "\<exists>g. getSessionGoal ws sid db = Some g \<and> g_status g = GActive")
    case False
    with assms show ?thesis
      by (auto simp: pauseActiveGoalOnInterrupt_def goals_after_stop_def own_writes_same split: option.splits)
  next
    case True
    then obtain g where g: "getSessionGoal ws sid db = Some g" "g_status g = GActive" by blast
    obtain inputs evs where a: "appendSessionEvents newId now ws sid inputs (update_goal (g_id g) pausedByStop db) = Inr (db', evs)"
      using assms g by (auto simp: pauseActiveGoalOnInterrupt_def setSessionGoalStatus_def row Let_def split: sum.splits)
    have "own_writes ws sid db (update_goal (g_id g) pausedByStop db)" by (simp add: own_writes_same)
    with own_writes_append [OF a] append_frame(2) [OF a] g show ?thesis
      by (auto simp: goals_after_stop_def update_goal_def intro: own_writes_trans)
  qed
  then show "session_goals db' = goals_after_stop ws sid db" and "own_writes ws sid db db'" by simp_all
qed

lemma paused_goal_not_active:
  assumes "pauseActiveGoalOnInterrupt alone newId now ws sid db = (db', None)" "getSessionGoal ws sid db' = Some g"
  shows "g_status g \<noteq> GActive"
proof (cases "getSessionGoal ws sid db")
  case None
  with assms show ?thesis by (simp add: pauseActiveGoalOnInterrupt_def)
next
  case (Some h)
  show ?thesis
  proof (cases "g_status h = GActive")
    case False
    with Some assms show ?thesis by (simp add: pauseActiveGoalOnInterrupt_def)
  next
    case True
    let ?inp = "\<lparr>gs_status = GPaused, gs_evidence = None, gs_rationale = None, gs_paused_reason = Some ByUserInterrupt\<rparr>"
    from Some True have set: "setSessionGoalStatus ws sid ?inp db
        = Inr (update_goal (g_id h) (setStatusRow ?inp) db, setStatusRow ?inp h, True)"
      by (simp add: setSessionGoalStatus_def)
    with assms(1) Some True obtain evs where
      "appendSessionEvents newId now ws sid [goalPausedEvent ''user'' ''user_interrupt'' None (setStatusRow ?inp h)]
         (update_goal (g_id h) (setStatusRow ?inp) db) = Inr (db', evs)"
      by (auto simp: pauseActiveGoalOnInterrupt_def Let_def split: sum.splits)
    from append_frame(2) [OF this] have "getSessionGoal ws sid db' = Some (setStatusRow ?inp h)"
      using Some by (simp add: getSessionGoal_cong [of db' "update_goal (g_id h) (setStatusRow ?inp) db"] get_update_goal)
    with assms(2) show ?thesis by (auto simp: setStatusRow_status)
  qed
qed

lemma pause_turns:
  "pauseActiveGoalOnInterrupt alone newId now ws sid db = (db', None) \<Longrightarrow> session_turns db' = session_turns db"
  using append_frame(1)
  by (auto simp: pauseActiveGoalOnInterrupt_def setSessionGoalStatus_def Let_def split: option.splits sum.splits if_splits)

lemma stopWork_frame:
  assumes "stopWork alone newId now ws sid trig db = (db', None)"
  shows "session_turns db' = update_where (queued_in ws sid) (cancelRow now) (session_turns db)"
    and "\<And>g. getSessionGoal ws sid db' = Some g \<Longrightarrow> g_status g \<noteq> GActive"
    and "session_goals db' = goals_after_stop ws sid db" and "own_writes ws sid db db'"
proof -
  obtain db1 where p: "pauseActiveGoalOnInterrupt alone newId now ws sid db = (db1, None)"
    using assms by (auto simp: stopWork_def split: prod.splits option.splits)
  have rest: "session_turns db' = update_where (queued_in ws sid) (cancelRow now) (session_turns db1)
      \<and> session_goals db' = session_goals db1"
    using assms p append_frame(1,2)
    by (auto simp: stopWork_def cancelQueuedSessionTurns_def Let_def split: if_splits sum.splits)
  then show "session_turns db' = update_where (queued_in ws sid) (cancelRow now) (session_turns db)"
    using pause_turns [OF p] by simp
  have drained: "own_writes ws sid db1 (fst (cancelQueuedSessionTurns now ws sid db1))"
    by (simp add: own_writes_same cancelQueuedSessionTurns_def)
  have "own_writes ws sid db1 db'"
    using assms p drained own_writes_trans [OF drained own_writes_append]
    by (auto simp: stopWork_def Let_def split_beta split: if_splits sum.splits)
  then show "own_writes ws sid db db'" using pause_frame(2) [OF p] own_writes_trans by blast
  show "session_goals db' = goals_after_stop ws sid db" using rest pause_frame(1) [OF p] by simp
  show "g_status g \<noteq> GActive" if "getSessionGoal ws sid db' = Some g" for g
    using that rest paused_goal_not_active [OF p, of g] getSessionGoal_cong [of db' db1] by simp
qed

subsection \<open>Stop and steer\<close>

text \<open>
  C32: stop means stop. After an interrupt that is no steer, with no other writer between its transactions, the
  session's queue is empty, its goal is not active, the turn it was running is cancelled and the session free of
  it. Nothing else changed: the turns table is the one before with the queued turns and the active one cancelled, the
  goals table the one before with the session's active goal paused by the user, other sessions' rows are as
  before, and events are only appended, to the log of this session.
\<close>

theorem stop_means_stop:
  assumes "interruptActiveTurn alone newId now ws sid trig db = (db', None)"
    and "\<not> isSteerInterrupt (getSessionEvent ws trig db)" and "find_session ws sid db = Some s"
  shows "queue_order ws sid db' = []
    \<and> (\<forall>g. getSessionGoal ws sid db' = Some g \<longrightarrow> g_status g \<noteq> GActive)
    \<and> (\<forall>t s'. active_turn s = Some t \<longrightarrow>
          (\<forall>u \<in> set (session_turns db'). turn_is ws t u \<longrightarrow> t_status u = TCancelled)
          \<and> (find_session ws sid db' = Some s' \<longrightarrow> s_status s' = SQueued \<and> s_active_turn_id s' = None))
    \<and> (\<forall>u \<in> set (session_turns db). \<not> queued_in ws sid u \<and> (\<forall>t. active_turn s = Some t \<longrightarrow> \<not> turn_is ws t u)
          \<longrightarrow> u \<in> set (session_turns db'))
    \<and> session_turns db' = (let mid = update_where (queued_in ws sid) (cancelRow now) (session_turns db)
          in case active_turn s of None \<Rightarrow> mid | Some t \<Rightarrow> update_where (turn_is ws t) (cancelRow now) mid)
    \<and> session_goals db' = goals_after_stop ws sid db
    \<and> select_where (\<lambda>r. \<not> session_is ws sid r) (sessions db') = select_where (\<lambda>r. \<not> session_is ws sid r) (sessions db)
    \<and> (\<exists>vs. session_events db' = session_events db @ vs
          \<and> list_all (\<lambda>v. er_workspace_id v = ws \<and> er_session_id v = sid) vs)"
proof -
  obtain db1 where stop: "stopWork alone newId now ws sid trig db = (db1, None)"
    and cancel: "cancelActive alone newId now ws sid trig (getSessionEvent ws trig db) (active_turn s) db1 = (db', None)"
    using interrupt_cases [OF assms(1)] assms(2,3) by auto
  let ?mid = "update_where (queued_in ws sid) (cancelRow now) (session_turns db)"
  note goals = cancelActive_frame(1) [OF cancel]
  have turns: "session_turns db' = (case active_turn s of None \<Rightarrow> ?mid
      | Some t \<Rightarrow> update_where (turn_is ws t) (cancelRow now) ?mid)"
    unfolding stopWork_frame(1) [OF stop, symmetric] by (rule cancelActive_frame(2) [OF cancel])
  have "\<not> queued_in ws sid u" if "u \<in> set (session_turns db')" for u
    using that turns by (auto simp: set_update_where queued_in_def split: option.splits if_splits)
  then have "queue_order ws sid db' = []"
    by (simp add: queue_order_def select_where_def filter_empty_conv)
  moreover have "g_status g \<noteq> GActive" if "getSessionGoal ws sid db' = Some g" for g
    using that stopWork_frame(2) [OF stop, of g] getSessionGoal_cong [OF goals] by simp
  moreover have "t_status u = TCancelled" if act: "active_turn s = Some t" and u: "u \<in> set (session_turns db')" "turn_is ws t u" for t u
  proof -
    have "u \<in> (\<lambda>w. if turn_is ws t w then cancelRow now w else w) ` set ?mid"
      using u(1) by (simp add: turns act set_update_where)
    with u(2) show ?thesis by auto
  qed
  moreover have "s_status s' = SQueued \<and> s_active_turn_id s' = None"
    if "active_turn s = Some t" "find_session ws sid db' = Some s'" for t s'
    using cancelActive_session [of newId now ws sid trig _ t db1 db' s'] cancel that by simp
  moreover have "u \<in> set (session_turns db')"
    if "u \<in> set (session_turns db)" "\<not> queued_in ws sid u" "\<forall>t. active_turn s = Some t \<longrightarrow> \<not> turn_is ws t u" for u
    using that turns by (force simp: set_update_where split: option.splits)
  moreover have "session_goals db' = goals_after_stop ws sid db" using goals stopWork_frame(3) [OF stop] by simp
  moreover have "own_writes ws sid db db'"
    using own_writes_trans [OF stopWork_frame(4) [OF stop] cancelActive_own [OF cancel]] .
  ultimately show ?thesis unfolding own_writes_def Let_def turns [symmetric] by blast
qed

text \<open>A session with an active goal, a running turn and a queued one is stopped.\<close>

definition demo_busy :: session_db where
  "demo_busy = (fst (enqueueSessionTurn ''t2'' 3 (demo_enqueue (VObj []) True) demo_running))\<lparr>session_goals := [demo_goal]\<rparr>"

lemma demo_busy_facts:
  "snd (interruptActiveTurn alone (\<lambda>_. ''e'') 5 ''w'' ''s'' ''x'' demo_busy) = None"
  "isSteerInterrupt (getSessionEvent ''w'' ''x'' demo_busy) = False"
  "map_option active_turn (find_session ''w'' ''s'' demo_busy) = Some (Some ''t1'')"
  "map t_id (queue_order ''w'' ''s'' demo_busy) = [''t2'']"
  "list_ex (turn_is ''w'' ''t1'') (session_turns (fst (interruptActiveTurn alone (\<lambda>_. ''e'') 5 ''w'' ''s'' ''x'' demo_busy)))"
  by code_simp+

lemma stop_means_stop_witness:
  "queue_order ''w'' ''s'' demo_busy \<noteq> []
   \<and> queue_order ''w'' ''s'' (fst (interruptActiveTurn alone (\<lambda>_. ''e'') 5 ''w'' ''s'' ''x'' demo_busy)) = []
   \<and> (\<exists>u \<in> set (session_turns (fst (interruptActiveTurn alone (\<lambda>_. ''e'') 5 ''w'' ''s'' ''x'' demo_busy))).
        turn_is ''w'' ''t1'' u \<and> t_status u = TCancelled)"
proof -
  obtain s where s: "find_session ''w'' ''s'' demo_busy = Some s" "active_turn s = Some ''t1''"
    using demo_busy_facts(3) by auto
  have i: "interruptActiveTurn alone (\<lambda>_. ''e'') 5 ''w'' ''s'' ''x'' demo_busy
      = (fst (interruptActiveTurn alone (\<lambda>_. ''e'') 5 ''w'' ''s'' ''x'' demo_busy), None)"
    using demo_busy_facts(1) by (metis surjective_pairing)
  have "\<not> isSteerInterrupt (getSessionEvent ''w'' ''x'' demo_busy)" using demo_busy_facts(2) by simp
  from stop_means_stop [OF i this s(1)] s(2) demo_busy_facts(4,5) show ?thesis by (auto simp: list_ex_iff)
qed

text \<open>What a steer leaves alone: the goal, and every turn but the active one.\<close>

lemma steer_frame:
  assumes "interruptActiveTurn alone newId now ws sid trig db = (db', None)"
    and "isSteerInterrupt (getSessionEvent ws trig db)" and "find_session ws sid db = Some s"
  shows "session_goals db' = session_goals db"
    and "session_turns db' = (case active_turn s of None \<Rightarrow> session_turns db
      | Some t \<Rightarrow> update_where (turn_is ws t) (cancelRow now) (session_turns db))"
proof -
  have "cancelActive alone newId now ws sid trig (getSessionEvent ws trig db) (active_turn s) db = (db', None)"
    using interrupt_cases [OF assms(1)] assms(2,3) by auto
  then show "session_goals db' = session_goals db"
    and "session_turns db' = (case active_turn s of None \<Rightarrow> session_turns db
      | Some t \<Rightarrow> update_where (turn_is ws t) (cancelRow now) (session_turns db))"
    by (rule cancelActive_frame)+
qed

subsection \<open>Idling\<close>

lemma select_update_other:
  "(\<And>t. t \<in> set ts \<Longrightarrow> p t \<Longrightarrow> \<not> q t \<and> \<not> q (f t)) \<Longrightarrow> select_where q (update_where p f ts) = select_where q ts"
  by (induction ts) (auto simp: select_where_def)

text \<open>A wake of the parent writes turns of the parent only.\<close>

lemma wake_other_turns:
  assumes wake: "wakeParentSessionForChildCompletion newId turnId now inp db = Inr (db', r)"
    and other: "wi_parent_session_id inp \<noteq> sid" and unique: "turns_unique db"
  shows "map t_id (select_where (queued_in ws sid) (session_turns db')) = map t_id (select_where (queued_in ws sid) (session_turns db))"
proof (cases "queues_turn r")
  case False
  then have "session_turns db' = session_turns db"
    using wake by (auto simp: wakeParentSessionForChildCompletion_def wakeActive_def appendWith_def insertEvents_def Let_def
        split: option.splits if_splits sum.splits prod.splits)
  then show ?thesis by simp
next
  case True
  let ?ws = "wi_workspace_id inp" and ?parent = "wi_parent_session_id inp"
  obtain s where s: "wakeActive newId turnId now inp s db = Inr (db', r)" "s_workspace_id s = ?ws" "s_id s = ?parent"
    by (rule wake_queues [OF wake True, of ?ws ?parent]) (auto simp: wake_for_def)
  show ?thesis
  proof (cases rule: wakeActive_cases [OF s(1)])
    case 1
    then show ?case using s by simp
  next
    case (2 digest turn trigger)
    have "digest \<in> set (select_where (\<lambda>t. queued_in ?ws ?parent t \<and> child_notification t) (session_turns db))"
      using 2(1) s by (auto simp: digestTurn_def dest!: arg_cong [where f = set] split: list.splits)
    then have d: "digest \<in> set (session_turns db)" "t_session_id digest \<noteq> sid"
      using other by (auto simp: set_select_where queued_in_def turn_of_def)
    have "t = digest" if "t \<in> set (session_turns db)" "turn_is (s_workspace_id s) (t_id digest) t" for t
      using distinct_map_inj [OF unique [unfolded turns_unique_def] d(1) that(1)] that(2) by (auto simp: turn_is_def)
    then have "select_where (queued_in ws sid) (session_turns db') = select_where (queued_in ws sid) (session_turns db)"
      unfolding 2(3) using d(2) by (intro select_update_other) (auto simp: queued_in_def turn_of_def foldRow_def)
    then show ?thesis by simp
  next
    case (3 trigger latest)
    then show ?thesis using s other by (simp add: select_where_def wakeRow_def queued_in_def turn_of_def)
  qed
qed

text \<open>Marking a session idle leaves its own queue alone.\<close>

lemma idle_keeps_queue:
  assumes "markSessionIdle alone ns ws sid db = (db', None)" "turns_unique db" "ns_parent_of ns sid \<noteq> Some sid"
  shows "map t_id (select_where (queued_in ws sid) (session_turns db')) = map t_id (select_where (queued_in ws sid) (session_turns db))"
proof -
  have notify: "map t_id (select_where (queued_in ws sid) (session_turns (fst (notifyParentOfChildTerminal alone ns ws sid st None d))))
      = map t_id (select_where (queued_in ws sid) (session_turns d))" if "turns_unique d" for d st
    using that assms(3)
    by (auto simp: notifyParentOfChildTerminal_def Let_def notifyInput_def intro!: wake_other_turns
        split: option.splits sum.splits wake_result.splits)
  obtain d where d: "db' = fst (notifyParentOfChildTerminal alone ns ws sid TerminalIdle None d)" "session_turns d = session_turns db"
    using assms(1) by (auto simp: markSessionIdle_def Let_def split: option.splits if_splits)
  then have "turns_unique d" using assms(2) by (simp add: turns_unique_def)
  from notify [OF this, of TerminalIdle] d show ?thesis by simp
qed


subsection \<open>Dead workers\<close>

text \<open>A worker dies under the turn, after what other queue operations did since the last time.\<close>

record death =
  de_ops :: "turn_op list"
  de_new_id :: "int \<Rightarrow> uuid"
  de_now :: millis
  de_from_items :: bool
  de_stored :: nat
  de_trigger :: uuid

definition after_death :: "uuid \<Rightarrow> uuid \<Rightarrow> uuid \<Rightarrow> death \<Rightarrow> session_db \<Rightarrow> session_db \<times> (session_error + requeue_result)" where
  "after_death ws sid tid d db =
     requeueTurnAfterWorkerDeath alone (de_new_id d) (de_now d) (de_from_items d) (de_stored d) ws sid (de_trigger d) tid
       (run_ops turn_step (de_ops d) db)"

fun is_requeued :: "session_error + requeue_result \<Rightarrow> bool" where
  "is_requeued (Inr (Requeued _)) = True"
| "is_requeued _ = False"

fun redispatch_count :: "uuid \<Rightarrow> uuid \<Rightarrow> uuid \<Rightarrow> death list \<Rightarrow> session_db \<Rightarrow> nat" where
  "redispatch_count ws sid tid [] db = 0"
| "redispatch_count ws sid tid (d # ds) db =
     (if is_requeued (snd (after_death ws sid tid d db)) then 1 else 0)
       + redispatch_count ws sid tid ds (fst (after_death ws sid tid d db))"

text \<open>New turns get new ids, and nobody replaces the metadata of the turn, where its counter is.\<close>

fun deaths_ok :: "uuid \<Rightarrow> uuid \<Rightarrow> uuid \<Rightarrow> death list \<Rightarrow> session_db \<Rightarrow> bool" where
  "deaths_ok ws sid tid [] db = True"
| "deaths_ok ws sid tid (d # ds) db \<longleftrightarrow>
     admissible turn_step fresh_turn (de_ops d) db
     \<and> (\<forall>op \<in> set (de_ops d). case op of OpPatch w i p \<Rightarrow> i = tid \<longrightarrow> tp_metadata p = None | _ \<Rightarrow> True)
     \<and> deaths_ok ws sid tid ds (fst (after_death ws sid tid d db))"

definition counted :: "uuid \<Rightarrow> int \<Rightarrow> turn_row \<Rightarrow> bool" where
  "counted ws n t \<longleftrightarrow> t_workspace_id t = ws \<and> (\<exists>k \<ge> n. redispatches t = Inr k)"

definition turn_counted :: "uuid \<Rightarrow> uuid \<Rightarrow> int \<Rightarrow> session_db \<Rightarrow> bool" where
  "turn_counted ws tid n db \<longleftrightarrow> turns_unique db \<and> (\<exists>t. find_turn tid db = Some t \<and> counted ws n t)"

lemma counted_after_ops:
  assumes "turn_counted ws tid n db" "admissible turn_step fresh_turn ops db"
    and "\<forall>op \<in> set ops. case op of OpPatch w i p \<Rightarrow> i = tid \<longrightarrow> tp_metadata p = None | _ \<Rightarrow> True"
  shows "turn_counted ws tid n (run_ops turn_step ops db)"
proof -
  obtain t where t: "turns_unique db" "find_turn tid db = Some t" "counted ws n t"
    using assms(1) by (auto simp: turn_counted_def)
  have kept: "counted ws n v" if "op \<in> set ops" "turn_change op u v" "t_id u = tid" "counted ws n u" for op u v
  proof (cases "bumps op u")
    case True
    with that(2,4) show ?thesis by (fastforce simp: turn_change_def counted_def)
  next
    case False
    have "\<not> patches_metadata op u" using assms(3) that(1,3) by (cases op) (auto simp: turn_is_def)
    with False that(2,4) show ?thesis by (auto simp: turn_change_def counted_def redispatches_def)
  qed
  have "\<exists>u. find_turn tid (run_ops turn_step ops db) = Some u \<and> counted ws n u"
    using run_turn [OF t(1) assms(2) t(2), of "counted ws n"] t(3) kept by blast
  moreover have "turns_unique (run_ops turn_step ops db)" using t(1) assms(2) by (rule turn_run.run_inv)
  ultimately show ?thesis by (simp add: turn_counted_def)
qed

lemma counted_update:
  assumes "turn_counted ws tid n db" and turns: "session_turns db' = update_where p f (session_turns db)"
    and "\<And>t. t_id (f t) = t_id t \<and> t_workspace_id (f t) = t_workspace_id t \<and> t_metadata (f t) = t_metadata t"
  shows "turn_counted ws tid n db'"
proof -
  obtain t where t: "turns_unique db" "find_turn tid db = Some t" "counted ws n t"
    using assms(1) by (auto simp: turn_counted_def)
  have "turns_unique db'" using t(1) assms(3) by (simp add: turns_unique_def turns map_update_where)
  moreover have "find_turn tid db' = Some (if p t then f t else t)"
    using t(2) assms(3) by (simp add: find_turn_def turns find_update_where)
  moreover have "counted ws n (if p t then f t else t)"
    using t(3) assms(3) [of t] by (auto simp: counted_def redispatches_def)
  ultimately show ?thesis by (simp add: turn_counted_def)
qed

lemma counted_cong: "session_turns db = session_turns db' \<Longrightarrow> turn_counted ws tid n db = turn_counted ws tid n db'"
  by (simp add: turn_counted_def turns_unique_def find_turn_def)

lemma bump_counts:
  assumes "turn_counted ws tid n db"
  obtains k db' where "incrementTurnWorkerDeathRedispatches ws tid db = Inr (db', k)" "n < k" "turn_counted ws tid k db'"
proof -
  obtain t k where t: "turns_unique db" "find_turn tid db = Some t" "t_workspace_id t = ws" "redispatches t = Inr k" "n \<le> k"
    using assms by (auto simp: turn_counted_def counted_def)
  have "List.find (turn_is ws tid) (session_turns db) \<noteq> None"
    using find_turnD [OF t(2)] t(3) by (auto simp: find_None_iff turn_is_def)
  then obtain u where u: "List.find (turn_is ws tid) (session_turns db) = Some u" by blast
  then have "find_turn tid db = Some u" using find_SomeD [OF u] by (intro find_turnI [OF t(1)]) (auto simp: turn_is_def)
  with t(2) have [simp]: "u = t" by simp
  let ?db' = "update_turn (turn_is ws tid) (bumpRedispatches (k + 1)) db"
  have inc: "incrementTurnWorkerDeathRedispatches ws tid db = Inr (?db', k + 1)"
    using u t(4) by (simp add: incrementTurnWorkerDeathRedispatches_def)
  have "find_turn tid ?db' = Some (bumpRedispatches (k + 1) t)"
    using t(2,3) find_turnD [OF t(2)] by (simp add: find_turn_def find_update_where turn_is_def)
  moreover have "turns_unique ?db'" using t(1) by (simp add: turns_unique_update)
  ultimately have "turn_counted ws tid (k + 1) ?db'"
    using t(3) by (auto simp: turn_counted_def counted_def redispatches_bump)
  with inc t(5) show thesis by (intro that [of ?db' "k + 1"]) simp_all
qed

lemma redispatchTurn_counted:
  assumes "turn_counted ws tid n db"
  shows "turn_counted ws tid n (fst (redispatchTurn alone newId now ws sid trig tid m resume db))"
proof -
  have requeue: "turn_counted ws tid n db2" if "turn_counted ws tid n db1" "requeuePreemptedTurn ws tid e ss db1 = Inr db2" for db1 db2 e ss
  proof -
    let ?f = "\<lambda>t. t\<lparr>t_status := TQueued, t_trigger_event_id := e, t_started_at := None, t_finished_at := None\<rparr>"
    have "session_turns db2 = update_where (\<lambda>t. turn_is ws tid t \<and> t_status t \<in> set ss) ?f (session_turns db1)"
      using that(2) by (auto simp: requeuePreemptedTurn_def Let_def split: if_splits)
    with that(1) show ?thesis by (rule counted_update) simp
  qed
  show ?thesis
  proof (cases "appendSessionEvents newId now ws sid [preemptedEvent tid trig m resume, statusEvent (Some tid) ''queued''] db")
    case (Inl e)
    with assms show ?thesis by (simp add: redispatchTurn_def)
  next
    case (Inr r)
    obtain db1 evs where r: "r = (db1, evs)" by fastforce
    have one: "turn_counted ws tid n db1"
      using assms counted_cong [OF append_frame(1) [OF Inr [unfolded r]]] by blast
    show ?thesis
      using Inr r one requeue [OF one]
      by (simp add: redispatchTurn_def Let_def counted_cong [OF setSessionStatus_frame(1)] split: sum.split)
  qed
qed

lemma death_counts:
  assumes "turn_counted ws tid n db"
  shows "if is_requeued (snd (requeueTurnAfterWorkerDeath alone newId now items stored ws sid trig tid db))
    then n < 3 \<and> turn_counted ws tid (n + 1) (fst (requeueTurnAfterWorkerDeath alone newId now items stored ws sid trig tid db))
    else turn_counted ws tid n (fst (requeueTurnAfterWorkerDeath alone newId now items stored ws sid trig tid db))"
proof -
  obtain k db' where bump: "incrementTurnWorkerDeathRedispatches ws tid db = Inr (db', k)" "n < k" "turn_counted ws tid k db'"
    by (rule bump_counts [OF assms])
  have weak: "turn_counted ws tid m d" if "turn_counted ws tid k d" "m \<le> k" for m d
    using that by (force simp: turn_counted_def counted_def)
  show ?thesis
    using assms bump weak [OF redispatchTurn_counted [OF bump(3)]] weak [OF bump(3)]
    by (simp add: requeueTurnAfterWorkerDeath_def Let_def WORKER_DEATH_MAX_REDISPATCHES_def)
qed

text \<open>
  C33: a turn is put back after a worker's death at most three times while nobody edits its metadata.
  Whatever the queue's other operations do in between, and however often a worker dies under the turn, it is
  requeued at most as often as its counter leaves of three; every later death is answered \<open>exceeded\<close>, upon
  which the workflow fails the session. An edit of the queued turn that carries metadata replaces the
  counter, and the count starts again (\<open>metadata_patch_opens_fence\<close>, \<^verbatim>\<open>index.ts:18298\<close>).
\<close>

theorem dead_workers_bounded:
  assumes "turns_unique db" and "find_turn tid db = Some t" and "redispatches t = Inr n" and "0 \<le> n"
    and "deaths_ok (t_workspace_id t) sid tid ds db"
  shows "int (redispatch_count (t_workspace_id t) sid tid ds db) \<le> max 0 (WORKER_DEATH_MAX_REDISPATCHES - n)"
proof -
  have "int (redispatch_count ws sid tid ds db) \<le> max 0 (3 - n)"
    if "turn_counted ws tid n db" "deaths_ok ws sid tid ds db" for ws n db
    using that
  proof (induction ds arbitrary: db n)
    case (Cons d ds)
    let ?r = "after_death ws sid tid d db"
    have "turn_counted ws tid n (run_ops turn_step (de_ops d) db)"
      using counted_after_ops Cons.prems by simp
    from death_counts [OF this] have step: "if is_requeued (snd ?r) then n < 3 \<and> turn_counted ws tid (n + 1) (fst ?r)
        else turn_counted ws tid n (fst ?r)"
      by (simp add: after_death_def)
    show ?case
    proof (cases "is_requeued (snd ?r)")
      case True
      with step Cons.IH [of "n + 1" "fst ?r"] Cons.prems(2) show ?thesis by simp
    next
      case False
      with step Cons.IH [of n "fst ?r"] Cons.prems(2) show ?thesis by simp
    qed
  qed simp
  moreover have "turn_counted (t_workspace_id t) tid n db"
    using assms(1-3) by (auto simp: turn_counted_def counted_def)
  ultimately show ?thesis using assms(5) by (simp add: WORKER_DEATH_MAX_REDISPATCHES_def)
qed

text \<open>A worker dies four times under the only turn of the session, which is claimed anew each time.\<close>

definition demo_death :: death where
  "demo_death = \<lparr>de_ops = [OpClaim [] 3 ''w'' ''s'' ''wf''], de_new_id = (\<lambda>_. ''e''), de_now = 4, de_from_items = True,
     de_stored = 0, de_trigger = ''e''\<rparr>"

lemma demo_deaths:
  "deaths_ok ''w'' ''s'' ''t1'' (replicate 4 demo_death) demo_running"
  "redispatch_count ''w'' ''s'' ''t1'' (replicate 4 demo_death) demo_running = 3"
  by code_simp+

lemma dead_workers_bounded_witness:
  "int (redispatch_count ''w'' ''s'' ''t1'' (replicate 4 demo_death) demo_running) \<le> max 0 (WORKER_DEATH_MAX_REDISPATCHES - 0)
   \<and> redispatch_count ''w'' ''s'' ''t1'' (replicate 4 demo_death) demo_running = 3"
proof -
  obtain t where t: "find_turn ''t1'' demo_running = Some t" "redispatches t = Inr 0" "t_workspace_id t = ''w''"
    by (rule demo_running_turn)
  from dead_workers_bounded [OF demo_running_facts(1) t(1,2), of "''s''" "replicate 4 demo_death"] demo_deaths t(3)
  show ?thesis by simp
qed

end
