(* ===== verification/Workflow_Interrupts.thy ===== *)
theory Workflow_Interrupts
  imports Workflow_Runs Session_State_Props
begin

text \<open>
  The workflow and its activities together: which turn an interrupt meets, what becomes of a second
  interrupt, and the smaller facts about approvals, pacing and idling.
\<close>

subsection \<open>The turn an interrupt meets\<close>

lemma claim_activates:
  assumes "claimNextQueuedTurn locked now ws sid wid db = (db1, Some t)"
  obtains u s where "u \<in> set (session_turns db1)" "turn_is ws (t_id t) u"
    and "find_session ws sid db1 = Some s" "s_active_turn_id s = Some (t_id t)"
proof -
  obtain q r s0 where f: "filter (\<lambda>t. t_id t \<notin> set locked) (queue_order ws sid db) = q # r"
    and q: "t = claimedRow wid now q" "find_session ws sid db = Some s0"
    and db1: "db1 = update_session ws sid (runSession (t_id q)) (update_turn (turn_is ws (t_id q)) (claimedRow wid now) db)"
    using assms by (auto simp: claimNextQueuedTurn_def split: option.splits list.splits)
  have "q \<in> set (filter (\<lambda>t. t_id t \<notin> set locked) (queue_order ws sid db))" unfolding f by simp
  then have mem: "q \<in> set (queue_order ws sid db)" by simp
  have "turn_is ws (t_id q) q" using mem by (auto simp: set_queue_order queued_in_def turn_of_def turn_is_def)
  moreover have "q \<in> set (session_turns db)" using mem by (simp add: set_queue_order)
  ultimately have "claimedRow wid now q \<in> set (session_turns db1)" by (auto simp: db1 set_update_where)
  moreover have "turn_is ws (t_id t) (claimedRow wid now q)"
    using \<open>turn_is ws (t_id q) q\<close> by (simp add: q(1) turn_is_def)
  moreover have "find_session ws sid db1 = Some (runSession (t_id q) s0)" by (simp add: db1 q(2))
  ultimately show thesis by (intro that) (auto simp: runSession_def q(1))
qed

text \<open>
  C34: the message a steer was to deliver is cancelled. When an interrupt is pending as a claim returns a
  turn (the session was idle, and the message and the steer arrived together), the workflow does not
  run the turn but interrupts it: the turn is cancelled, it is not in the queue any more, and if the
  interrupt is a steer the goal goes on as if the message had not been sent.
\<close>

theorem steered_message_is_cancelled:
  assumes claim: "claimNextQueuedTurn locked now ws sid wid db = (db1, Some t)" "t_id t \<noteq> []"
    and pending: "interruptedEventId v = Some e" "e \<noteq> []"
    and interrupt: "interruptActiveTurn alone newId now' ws sid e db1 = (db2, None)"
  shows "resume cfg info (Claimed (Some (t_id t, t_trigger_event_id t))) AtClaim v
        = Some (AtInterrupt e, v\<lparr>turnsThisRun := turnsThisRun v + 1\<rparr>)
    \<and> (\<exists>u \<in> set (session_turns db2). turn_is ws (t_id t) u)
    \<and> (\<forall>u \<in> set (session_turns db2). turn_is ws (t_id t) u \<longrightarrow> t_status u = TCancelled)
    \<and> (isSteerInterrupt (getSessionEvent ws e db1) \<longrightarrow> session_goals db2 = session_goals db)"
proof -
  obtain u s where u: "u \<in> set (session_turns db1)" "turn_is ws (t_id t) u"
    and s: "find_session ws sid db1 = Some s" "s_active_turn_id s = Some (t_id t)"
    by (rule claim_activates [OF claim(1)])
  have act: "active_turn s = Some (t_id t)" using s(2) claim(2) by (simp add: active_turn_def split: list.split)
  have goals: "session_goals db1 = session_goals db"
    using claim(1) by (auto simp: claimNextQueuedTurn_def split: option.splits list.splits)
  obtain db' where cancel: "cancelActive alone newId now' ws sid e (getSessionEvent ws e db1) (active_turn s) db' = (db2, None)"
    and stop: "if isSteerInterrupt (getSessionEvent ws e db1) then db' = db1
               else stopWork alone newId now' ws sid e db1 = (db', None)"
    using interrupt_cases [OF interrupt] s(1) by (metis option.inject)
  have "\<exists>w \<in> set (session_turns db'). turn_is ws (t_id t) w"
  proof (cases "isSteerInterrupt (getSessionEvent ws e db1)")
    case True
    with stop u show ?thesis by auto
  next
    case False
    then have "(if queued_in ws sid u then cancelRow now' u else u) \<in> set (session_turns db')"
      using stop stopWork_frame(1) [of newId now' ws sid e db1 db'] u(1) by (simp add: set_update_where)
    moreover have "turn_is ws (t_id t) (if queued_in ws sid u then cancelRow now' u else u)"
      using u(2) by (simp add: turn_is_def)
    ultimately show ?thesis by blast
  qed
  then obtain w where w: "w \<in> set (session_turns db')" "turn_is ws (t_id t) w" by blast
  then have "cancelRow now' w \<in> set (session_turns db2)"
    using cancelActive_frame(2) [OF cancel] by (auto simp: act set_update_where)
  moreover have "turn_is ws (t_id t) (cancelRow now' w)" using w(2) by (simp add: turn_is_def)
  ultimately have "\<exists>w \<in> set (session_turns db2). turn_is ws (t_id t) w" by blast
  moreover have "t_status w = TCancelled" if "w \<in> set (session_turns db2)" "turn_is ws (t_id t) w" for w
    using that cancelActive_frame(2) [OF cancel] by (auto simp: act set_update_where)
  moreover have "session_goals db2 = session_goals db" if "isSteerInterrupt (getSessionEvent ws e db1)"
    using that steer_frame(1) [OF interrupt _ s(1)] goals by simp
  moreover have "nonempty_id (Some e) = Some e" using pending(2) by (simp add: nonempty_id_def split: list.split)
  ultimately show ?thesis using pending by (simp add: runClaimed_def startTurn_def)
qed

text \<open>An idle session with a message just queued, and the steer that was sent with it.\<close>

definition demo_steer :: append_input where
  "demo_steer = goal_event ''user.interrupt'' [(''reason'', VStr (u16 ''steer''))]"

definition demo_steered :: session_db where
  "demo_steered = committed fst demo_db (appendSessionEvents (\<lambda>_. ''x'') 1 ''w'' ''s'' [demo_steer] (demo_turn ''t1'' demo_goal_db))"

definition demo_claimed :: "session_db \<times> turn_row option" where
  "demo_claimed = claimNextQueuedTurn [] 2 ''w'' ''s'' ''wf'' demo_steered"

lemma demo_steered_facts:
  "map_option t_id (snd demo_claimed) = Some ''t1''"
  "snd (interruptActiveTurn alone (\<lambda>_. ''y'') 3 ''w'' ''s'' ''x'' (fst demo_claimed)) = None"
  "isSteerInterrupt (getSessionEvent ''w'' ''x'' (fst demo_claimed)) = True"
  by code_simp+

lemma steered_message_is_cancelled_witness:
  "session_goals (fst (interruptActiveTurn alone (\<lambda>_. ''y'') 3 ''w'' ''s'' ''x'' (fst demo_claimed))) = [demo_goal]
   \<and> (\<exists>u \<in> set (session_turns (fst (interruptActiveTurn alone (\<lambda>_. ''y'') 3 ''w'' ''s'' ''x'' (fst demo_claimed)))).
        turn_is ''w'' ''t1'' u \<and> t_status u = TCancelled)"
proof -
  obtain t where c: "snd demo_claimed = Some t" and t2: "t_id t = ''t1''" using demo_steered_facts(1) by auto
  have t: "claimNextQueuedTurn [] 2 ''w'' ''s'' ''wf'' demo_steered = (fst demo_claimed, Some t)"
    unfolding c [symmetric] demo_claimed_def by simp
  let ?r = "interruptActiveTurn alone (\<lambda>_. ''y'') 3 ''w'' ''s'' ''x'' (fst demo_claimed)"
  have r: "?r = (fst ?r, None)" using demo_steered_facts(2) by (metis surjective_pairing)
  have "session_goals demo_steered = [demo_goal]" by code_simp
  with steered_message_is_cancelled [OF t _ _ _ r, of "fresh_vars\<lparr>interruptedEventId := Some ''x''\<rparr>"]
    demo_steered_facts(3) t2 show ?thesis by auto
qed

subsection \<open>A second interrupt\<close>

text \<open>
  C35: a stop that follows a steer is lost. While the workflow waits for a steer to cancel the active turn,
  an interrupt that arrives is forgotten when that wait ends: the loop goes on with no interrupt
  pending, the goal is as it was, and every queued turn is still queued.
\<close>

theorem stop_after_steer_is_lost:
  assumes "interruptActiveTurn alone newId now ws sid steer db = (db', None)"
    and "isSteerInterrupt (getSessionEvent ws steer db)" and "find_session ws sid db = Some s"
  shows "\<exists>p v'. resume cfg info Completed (AtInterrupt steer) (handle (Interrupt stop) v) = Some (p, v')
      \<and> (p = AtClaim \<or> p = ContinuedAsNew) \<and> interruptedEventId v' = None
    \<and> session_goals db' = session_goals db
    \<and> (\<forall>u \<in> set (session_turns db). queued_in ws sid u \<and> s_active_turn_id s \<noteq> Some (t_id u)
         \<longrightarrow> u \<in> set (session_turns db'))"
proof -
  have "u \<in> set (session_turns db')" if "u \<in> set (session_turns db)" "s_active_turn_id s \<noteq> Some (t_id u)" for u
  proof (cases "active_turn s")
    case None
    with that steer_frame(2) [OF assms] show ?thesis by simp
  next
    case (Some t)
    then have "s_active_turn_id s = Some t" by (auto simp: active_turn_def split: option.splits list.splits)
    then have "\<not> turn_is ws t u" using that(2) by (auto simp: turn_is_def)
    then show ?thesis using that(1) steer_frame(2) [OF assms] Some by (force simp: set_update_where)
  qed
  then show ?thesis using steer_frame(1) [OF assms] by (simp add: loopTop_def)
qed

text \<open>A steer cancels the running turn of a busy session; a message waits in its queue.\<close>

definition demo_redirected :: session_db where
  "demo_redirected = committed fst demo_db (appendSessionEvents (\<lambda>_. ''x'') 1 ''w'' ''s'' [demo_steer] demo_busy)"

lemma demo_redirected_facts:
  "map_option s_active_turn_id (find_session ''w'' ''s'' demo_redirected) = Some (Some ''t1'')"
  "snd (interruptActiveTurn alone (\<lambda>_. ''y'') 3 ''w'' ''s'' ''x'' demo_redirected) = None"
  "isSteerInterrupt (getSessionEvent ''w'' ''x'' demo_redirected) = True"
  by code_simp+

lemma stop_after_steer_is_lost_witness:
  "\<exists>p v'. resume small_config calm_info Completed (AtInterrupt ''x'') (handle (Interrupt ''stop'') fresh_vars) = Some (p, v')
     \<and> interruptedEventId v' = None
     \<and> session_goals (fst (interruptActiveTurn alone (\<lambda>_. ''y'') 3 ''w'' ''s'' ''x'' demo_redirected)) = [demo_goal]"
proof -
  let ?r = "interruptActiveTurn alone (\<lambda>_. ''y'') 3 ''w'' ''s'' ''x'' demo_redirected"
  have r: "?r = (fst ?r, None)" using demo_redirected_facts(2) by (metis surjective_pairing)
  have steer: "isSteerInterrupt (getSessionEvent ''w'' ''x'' demo_redirected)" using demo_redirected_facts(3) by simp
  obtain s where s: "find_session ''w'' ''s'' demo_redirected = Some s" using demo_redirected_facts(1) by auto
  have "session_goals demo_redirected = [demo_goal]" by code_simp
  with stop_after_steer_is_lost [OF r steer s, of small_config calm_info "''stop''" fresh_vars] show ?thesis by auto
qed

subsection \<open>Approvals, pacing, idling\<close>

text \<open>
  A decision that is left over from an earlier turn answers the next turn that needs an approval at
  once, before the user has seen it.
\<close>

lemma surplus_approval_answers_next_request:
  assumes "approvalQueue v = e # es" "e \<noteq> []" "interruptedEventId v = None"
    and "r_status r = RunRequiresAction" "r_capacity_wait r = None"
  shows "wf_trace cfg [(info, RunReturned r), (info', ConditionMet)] (AtRun turn trigger n m, v)
    = Some [(AtApproval turn, v), (AtRun turn e (wakeups v) (capacityWakeups v), v\<lparr>approvalQueue := es\<rparr>)]"
  using assms by (cases e) (simp_all add: afterRun_def afterApproval_def nonempty_id_def startTurn_def)

text \<open>When every account is capped the loop is held for at least the floor, whatever delay was asked for.\<close>

lemma capped_idle_is_held:
  assumes "r_status r = RunIdle" "r_idle_until_reset r" "r_capacity_wait r = None"
  shows "\<exists>ms. resume cfg info (RunReturned r) (AtRun turn trigger n m) v = Some (AtHold ms (wakeups v), v) \<and> 60000 \<le> ms"
  using assms by (simp add: afterRun_def holdOrLoop_def continuationHoldMs_def ROTATION_IDLE_FLOOR_MS_def Let_def less_max_iff_disj)

text \<open>The write that marking the session idle makes is one the system allows.\<close>

lemma marking_idle_is_allowed:
  assumes "markSessionIdle alone ns (sc_workspace sc) (sc_session sc) db = (db', None)" "turns_unique db"
    and "ns_parent_of ns (sc_session sc) \<noteq> Some (sc_session sc)" "has_session sc db'"
  shows "activity_may_write sc MarkSessionIdle db db'"
  using idle_keeps_queue [OF assms(1,2,3)] assms(4) by (simp add: activity_may_write_def queued_ids_def)

end
