(* ===== verification/Credential_Rotation.thy ===== *)
theory Credential_Rotation
  imports Payload
begin

text \<open>
  The ranker that picks the Codex subscription a turn runs on
  (\<^verbatim>\<open>apps/worker/src/activities/codex-rotation.ts\<close>): how a session's pin governs the turn, which
  accounts are healthy and eligible, the four rotation strategies, when an account that is
  capped comes back, the idle and retry delays, and the policy of one turn over all of them.
  The code is pure and so is the model; instants are milliseconds, percentages the integers of
  the cached usage columns, and \<open>nearExhaustionPct\<close> the integer setting (1 to 100, 90 by
  default). A \<open>reduce\<close> over an empty list throws: such a result is \<open>None\<close>.

  The record of a credential holds the metadata columns of
  \<^verbatim>\<open>codex_subscription_credentials\<close> that selection reads; a lease account extends it with the
  number of live leases of other turns. A plain account status, which lacks the lease and
  cursor columns, is one with the values the ranker substitutes (0, 0 and none).
\<close>

subsection \<open>Accounts\<close>

datatype codex_status = CodexActive | CodexNeedsRelogin | CodexError

record codex_credential =
  cc_id :: uuid
  cc_status :: codex_status
  cc_last_error :: "string option"
  cc_allocator_enabled :: bool
  cc_primary_used :: "int option"
  cc_primary_reset :: "millis option"
  cc_secondary_used :: "int option"
  cc_secondary_reset :: "millis option"
  cc_exhausted_until :: "millis option"
  cc_connectors :: "string list option"
  cc_selection_count :: nat
  cc_last_selected :: "millis option"
  cc_created_at :: millis

record codex_account = codex_credential +
  ca_active_leases :: nat

datatype rotation_strategy = MostRemaining | RoundRobin | DrainThenNext | Sharded

datatype pin_source = PinSourceManual | PinSourcePolicy

datatype pin_disposition = PinManual | PinSharded | PinClearStale | PinUnpinned

definition classifyCodexPin ::
  "uuid option \<Rightarrow> pin_source option \<Rightarrow> rotation_strategy \<Rightarrow> bool \<Rightarrow> pin_disposition" where
  "classifyCodexPin pin src strategy rotationEnabled =
     (if pin \<noteq> None \<and> src \<noteq> Some PinSourcePolicy then PinManual
      else if rotationEnabled \<and> strategy = Sharded then PinSharded
      else if pin \<noteq> None \<and> src = Some PinSourcePolicy then PinClearStale
      else PinUnpinned)"

datatype rotation_decision =
  RActive uuid bool "string list option"
| RAllCapped millis
| RNone

text \<open>\<open>id ? accounts.find(a => a.id === id) : undefined\<close>: a missing or empty id finds nothing.\<close>

definition find_account :: "uuid option \<Rightarrow> 'r codex_credential_scheme list \<Rightarrow> 'r codex_credential_scheme option" where
  "find_account i accts =
     (case i of None \<Rightarrow> None | Some x \<Rightarrow> if x = [] then None else List.find (\<lambda>a. cc_id a = x) accts)"

subsection \<open>Health\<close>

definition MIN_IDLE_MS :: millis where
  "MIN_IDLE_MS = 60000"

definition DEFAULT_RESET_COOLDOWN_MS :: millis where
  "DEFAULT_RESET_COOLDOWN_MS = 60000"

definition effectiveWindowUsed :: "int option \<Rightarrow> millis option \<Rightarrow> millis \<Rightarrow> int" where
  "effectiveWindowUsed used reset now =
     (case reset of
        Some r \<Rightarrow> if r \<le> now then 0 else case_option 0 id used
      | None \<Rightarrow> case_option 0 id used)"

definition bindingUsedPct :: "codex_account \<Rightarrow> millis \<Rightarrow> int" where
  "bindingUsedPct a now =
     max (effectiveWindowUsed (cc_primary_used a) (cc_primary_reset a) now)
         (effectiveWindowUsed (cc_secondary_used a) (cc_secondary_reset a) now)"

definition bindingRemaining :: "codex_account \<Rightarrow> millis \<Rightarrow> int" where
  "bindingRemaining a now =
     min (100 - effectiveWindowUsed (cc_primary_used a) (cc_primary_reset a) now)
         (100 - effectiveWindowUsed (cc_secondary_used a) (cc_secondary_reset a) now)"

definition cooling :: "codex_account \<Rightarrow> millis \<Rightarrow> bool" where
  "cooling a now = (case cc_exhausted_until a of None \<Rightarrow> False | Some u \<Rightarrow> u > now)"

definition covers :: "codex_account \<Rightarrow> string list \<Rightarrow> bool" where
  "covers a used =
     (if used = [] then True
      else case cc_connectors a of
             None \<Rightarrow> False
           | Some owned \<Rightarrow> list_all (\<lambda>c. c \<in> set owned) used)"

definition droppedConnectorsFor :: "codex_account \<Rightarrow> string list \<Rightarrow> string list" where
  "droppedConnectorsFor a used =
     (if used = [] then []
      else case cc_connectors a of
             None \<Rightarrow> used
           | Some owned \<Rightarrow> filter (\<lambda>c. c \<notin> set owned) used)"

definition isCodexCredentialHealthy :: "codex_account \<Rightarrow> int \<Rightarrow> millis \<Rightarrow> bool" where
  "isCodexCredentialHealthy a pct now =
     (cc_status a = CodexActive \<and> \<not> cooling a now \<and> bindingUsedPct a now < pct)"

definition isCodexCredentialEligible :: "codex_account \<Rightarrow> int \<Rightarrow> millis \<Rightarrow> bool" where
  "isCodexCredentialEligible a pct now =
     (cc_allocator_enabled a \<and> isCodexCredentialHealthy a pct now)"

subsection \<open>When a capped account comes back\<close>

definition windowClear :: "bool \<Rightarrow> millis option \<Rightarrow> millis \<Rightarrow> millis list" where
  "windowClear over reset now =
     (if \<not> over then []
      else [case reset of
              Some r \<Rightarrow> if r > now then r else now + DEFAULT_RESET_COOLDOWN_MS
            | None \<Rightarrow> now + DEFAULT_RESET_COOLDOWN_MS])"

definition latest :: "millis \<Rightarrow> millis \<Rightarrow> millis" where
  "latest a b = (if b > a then b else a)"

definition availableAt :: "codex_account \<Rightarrow> int \<Rightarrow> millis \<Rightarrow> millis" where
  "availableAt a pct now =
     (let candidates =
        (case cc_exhausted_until a of Some u \<Rightarrow> if u > now then [u] else [] | None \<Rightarrow> [])
        @ windowClear (effectiveWindowUsed (cc_primary_used a) (cc_primary_reset a) now \<ge> pct)
            (cc_primary_reset a) now
        @ windowClear (effectiveWindowUsed (cc_secondary_used a) (cc_secondary_reset a) now \<ge> pct)
            (cc_secondary_reset a) now
      in case candidates of
           [] \<Rightarrow> now + DEFAULT_RESET_COOLDOWN_MS
         | c # cs \<Rightarrow> foldl latest c cs)"

definition earliest :: "millis \<Rightarrow> millis \<Rightarrow> millis" where
  "earliest a b = (if b < a then b else a)"

definition earliestReset :: "codex_account list \<Rightarrow> int \<Rightarrow> millis \<Rightarrow> millis option" where
  "earliestReset accts pct now =
     (case map (\<lambda>a. availableAt a pct now) accts of
        [] \<Rightarrow> None
      | t # ts \<Rightarrow> Some (foldl earliest t ts))"

text \<open>The resets that are known, for the durable capacity wait.\<close>

definition known_resets :: "codex_account \<Rightarrow> int \<Rightarrow> millis \<Rightarrow> millis list" where
  "known_resets a pct now =
     (let future = (\<lambda>t. case t of Some r \<Rightarrow> if r > now then [r] else [] | None \<Rightarrow> [])
      in if \<not> cc_allocator_enabled a \<or> cc_status a \<noteq> CodexActive then []
         else future (cc_exhausted_until a)
              @ (if case_option 0 id (cc_primary_used a) \<ge> pct then future (cc_primary_reset a) else [])
              @ (if case_option 0 id (cc_secondary_used a) \<ge> pct then future (cc_secondary_reset a) else []))"

definition authoritativeCodexCapacityResetAt :: "codex_account list \<Rightarrow> int \<Rightarrow> millis \<Rightarrow> millis option" where
  "authoritativeCodexCapacityResetAt accts pct now =
     (case concat (map (\<lambda>a. known_resets a pct now) accts) of
        [] \<Rightarrow> None
      | t # ts \<Rightarrow> Some (foldl (\<lambda>e c. if c < e then c else e) t ts))"

definition computeIdleDelayMs :: "millis \<Rightarrow> millis \<Rightarrow> millis \<Rightarrow> millis" where
  "computeIdleDelayMs earliestResetAt now maxMs = min (max (earliestResetAt - now) MIN_IDLE_MS) maxMs"

subsection \<open>The reactive failover\<close>

definition REACTIVE_PERSISTENCE_FAULT_FLOOR_MS :: millis where
  "REACTIVE_PERSISTENCE_FAULT_FLOOR_MS = 5000"

definition REACTIVE_ROTATION_MARGIN :: nat where
  "REACTIVE_ROTATION_MARGIN = 2"

definition REACTIVE_CIRCUIT_BREAKER_IDLE_MS :: millis where
  "REACTIVE_CIRCUIT_BREAKER_IDLE_MS = MIN_IDLE_MS"

text \<open>The delay and whether the hold is mandatory (\<open>idleUntilReset\<close>).\<close>

definition computeReactiveRotationResume :: "bool \<Rightarrow> nat \<Rightarrow> nat \<Rightarrow> millis \<times> bool" where
  "computeReactiveRotationResume cooldownPersisted priorConsecutiveRotations connectedAccountCount =
     (if priorConsecutiveRotations + 1 > connectedAccountCount + REACTIVE_ROTATION_MARGIN
      then (REACTIVE_CIRCUIT_BREAKER_IDLE_MS, True)
      else if \<not> cooldownPersisted then (REACTIVE_PERSISTENCE_FAULT_FLOOR_MS, False)
      else (0, False))"

subsection \<open>Session-sharded homes\<close>

definition fnv_step :: "32 word \<Rightarrow> 16 word \<Rightarrow> 32 word" where
  "fnv_step hash c = xor hash (ucast c) * 0x01000193"

definition fnv1a32 :: "jstr \<Rightarrow> 32 word" where
  "fnv1a32 input = foldl fnv_step 0x811c9dc5 input"

definition shardCredentialForSession :: "uuid \<Rightarrow> codex_account list \<Rightarrow> int \<Rightarrow> millis \<Rightarrow> uuid option" where
  "shardCredentialForSession sessionId accts pct now =
     (let eligibles = filter (\<lambda>a. isCodexCredentialEligible a pct now) accts
      in if eligibles = [] then None
         else Some (cc_id (eligibles ! (unat (fnv1a32 (u16 sessionId)) mod length eligibles))))"

datatype sharded_home = Home uuid bool | HomeCapped millis

definition chooseShardedHome ::
  "uuid \<Rightarrow> uuid option \<Rightarrow> codex_account list \<Rightarrow> int \<Rightarrow> millis \<Rightarrow> sharded_home option" where
  "chooseShardedHome sessionId pin accts pct now =
     (case find_account pin accts of
        Some a \<Rightarrow>
          if isCodexCredentialEligible a pct now then Some (Home (the pin) False)
          else (case shardCredentialForSession sessionId accts pct now of
                  None \<Rightarrow> map_option HomeCapped (earliestReset accts pct now)
                | Some h \<Rightarrow> Some (Home h True))
      | None \<Rightarrow>
          (case shardCredentialForSession sessionId accts pct now of
             None \<Rightarrow> map_option HomeCapped (earliestReset accts pct now)
           | Some h \<Rightarrow> Some (Home h True)))"

subsection \<open>The ranker\<close>

definition lastSelected :: "codex_account \<Rightarrow> millis" where
  "lastSelected a = case_option 0 id (cc_last_selected a)"

definition better :: "millis \<Rightarrow> codex_account \<Rightarrow> codex_account \<Rightarrow> codex_account" where
  "better now best a =
     (if ca_active_leases a \<noteq> ca_active_leases best
      then (if ca_active_leases a < ca_active_leases best then a else best)
      else if bindingRemaining a now \<noteq> bindingRemaining best now
      then (if bindingRemaining a now > bindingRemaining best now then a else best)
      else if cc_selection_count a \<noteq> cc_selection_count best
      then (if cc_selection_count a < cc_selection_count best then a else best)
      else if lastSelected a < lastSelected best then a else best)"

definition best_of :: "millis \<Rightarrow> codex_account list \<Rightarrow> codex_account option" where
  "best_of now pool = foldl (\<lambda>best a. case best of None \<Rightarrow> Some a | Some b \<Rightarrow> Some (better now b a)) None pool"

definition decide ::
  "uuid option \<Rightarrow> string list \<Rightarrow> codex_account list \<Rightarrow> int \<Rightarrow> millis \<Rightarrow> codex_account option
   \<Rightarrow> rotation_decision option" where
  "decide active used allocatable pct now chosen =
     (case chosen of
        None \<Rightarrow> map_option RAllCapped (earliestReset allocatable pct now)
      | Some a \<Rightarrow>
          let dropped = droppedConnectorsFor a used
          in Some (RActive (cc_id a) (Some (cc_id a) \<noteq> active) (if dropped = [] then None else Some dropped)))"

fun index_of :: "('a \<Rightarrow> bool) \<Rightarrow> 'a list \<Rightarrow> nat option" where
  "index_of p [] = None"
| "index_of p (x # xs) = (if p x then Some 0 else map_option Suc (index_of p xs))"

definition rotate_after :: "uuid option \<Rightarrow> codex_account list \<Rightarrow> codex_account list" where
  "rotate_after prior accts =
     (case (case prior of None \<Rightarrow> None
            | Some p \<Rightarrow> if p = [] then None else index_of (\<lambda>a. cc_id a = p) accts) of
        Some i \<Rightarrow> drop (i + 1) accts @ take (i + 1) accts
      | None \<Rightarrow> accts)"

definition chooseRotationActive ::
  "rotation_strategy \<Rightarrow> uuid option \<Rightarrow> uuid option \<Rightarrow> codex_account list \<Rightarrow> int \<Rightarrow> millis
   \<Rightarrow> string list \<Rightarrow> rotation_decision option" where
  "chooseRotationActive strategy active prior accts pct now used =
     (let allocatable = filter cc_allocator_enabled accts;
          eligible = (\<lambda>a. isCodexCredentialEligible a pct now);
          eligibles = filter eligible allocatable
      in if allocatable = [] then Some RNone
         else case strategy of
           RoundRobin \<Rightarrow>
             if eligibles = [] then map_option RAllCapped (earliestReset allocatable pct now)
             else decide active used allocatable pct now (List.find eligible (rotate_after prior allocatable))
         | DrainThenNext \<Rightarrow>
             (case find_account prior accts of
                Some a \<Rightarrow>
                  if eligible a then decide active used allocatable pct now (Some a)
                  else decide active used allocatable pct now (case eligibles of [] \<Rightarrow> None | e # _ \<Rightarrow> Some e)
              | None \<Rightarrow> decide active used allocatable pct now (case eligibles of [] \<Rightarrow> None | e # _ \<Rightarrow> Some e))
         | _ \<Rightarrow>
             let covering = filter (\<lambda>a. covers a used) eligibles;
                 pool = (if covering \<noteq> [] then covering else eligibles)
             in decide active used allocatable pct now (best_of now pool))"

definition chooseLegacyRotationActive ::
  "rotation_strategy \<Rightarrow> uuid option \<Rightarrow> uuid option \<Rightarrow> codex_account list \<Rightarrow> int \<Rightarrow> millis
   \<Rightarrow> string list \<Rightarrow> rotation_decision option" where
  "chooseLegacyRotationActive strategy active prior accts pct now used =
     (let ranked = chooseRotationActive strategy active prior
            (map (\<lambda>a. a \<lparr>ca_active_leases := 0, cc_selection_count := 0, cc_last_selected := None\<rparr>) accts)
            pct now used
      in if strategy = MostRemaining then
           (case find_account active accts of
              Some a \<Rightarrow> if isCodexCredentialEligible a pct now then Some (RActive (cc_id a) False None) else ranked
            | None \<Rightarrow> ranked)
         else ranked)"

subsection \<open>The policy of one turn\<close>

record lease_context =
  lx_accounts :: "codex_account list"
  lx_active :: "uuid option"
  lx_rotation_enabled :: bool
  lx_lease_rotation_enabled :: bool
  lx_strategy :: rotation_strategy
  lx_existing :: "uuid option"

record turn_policy =
  tp_leasing_enabled :: bool
  tp_session :: uuid
  tp_pin :: "uuid option"
  tp_pin_source :: "pin_source option"
  tp_last :: "uuid option"
  tp_continuation :: "uuid option"
  tp_pct :: int

record lease_selection =
  ls_credential :: "uuid option"
  ls_decision :: rotation_decision
  ls_advance :: "bool option"

definition selection_of :: "bool option \<Rightarrow> rotation_decision \<Rightarrow> lease_selection" where
  "selection_of adv d =
     \<lparr>ls_credential = (case d of RActive c _ _ \<Rightarrow> Some c | _ \<Rightarrow> None), ls_decision = d, ls_advance = adv\<rparr>"

text \<open>Same-turn continuity: the account of a live lease or of the frozen run state.\<close>

definition continuing ::
  "uuid option \<Rightarrow> lease_context \<Rightarrow> int \<Rightarrow> millis \<Rightarrow> lease_selection option" where
  "continuing i ctx pct now =
     (case find_account i (lx_accounts ctx) of
        Some a \<Rightarrow>
          if isCodexCredentialHealthy a pct now
          then Some (selection_of (Some False) (RActive (cc_id a) (Some (cc_id a) \<noteq> lx_active ctx) None))
          else None
      | None \<Rightarrow> None)"

definition select_pinned :: "uuid \<Rightarrow> lease_context \<Rightarrow> int \<Rightarrow> millis \<Rightarrow> lease_selection" where
  "select_pinned p ctx pct now = selection_of (Some False)
     (case List.find (\<lambda>a. cc_id a = p) (lx_accounts ctx) of
        None \<Rightarrow> RNone
      | Some a \<Rightarrow>
          if \<not> cc_allocator_enabled a then RNone
          else if isCodexCredentialHealthy a pct now then RActive (cc_id a) False None
          else RAllCapped (availableAt a pct now))"

definition select_sharded :: "turn_policy \<Rightarrow> lease_context \<Rightarrow> millis \<Rightarrow> lease_selection option" where
  "select_sharded tp ctx now =
     (if lx_accounts ctx = [] then Some (selection_of (Some False) RNone)
      else map_option (\<lambda>h. selection_of (Some False)
             (case h of
                HomeCapped t \<Rightarrow> RAllCapped t
              | Home c _ \<Rightarrow> RActive c (Some c \<noteq> lx_active ctx) None))
             (chooseShardedHome (tp_session tp)
                (if tp_pin_source tp = Some PinSourcePolicy then tp_pin tp else None)
                (lx_accounts ctx) (tp_pct tp) now))"

text \<open>\<open>id && connectedIds.has(id) ? id : null\<close>\<close>

definition connected :: "uuid option \<Rightarrow> lease_context \<Rightarrow> uuid option" where
  "connected i ctx =
     (case i of
        None \<Rightarrow> None
      | Some x \<Rightarrow>
          if x \<noteq> [] \<and> x \<in> set (map cc_id (filter cc_allocator_enabled (lx_accounts ctx))) then Some x else None)"

definition select_connected :: "uuid option \<Rightarrow> lease_selection" where
  "select_connected c =
     selection_of None (case c of Some x \<Rightarrow> if x = [] then RNone else RActive x False None | None \<Rightarrow> RNone)"

definition selectCodexCredentialLeaseForTurn ::
  "turn_policy \<Rightarrow> lease_context \<Rightarrow> millis \<Rightarrow> lease_selection option" where
  "selectCodexCredentialLeaseForTurn tp ctx now =
     (let leasing = (tp_leasing_enabled tp \<and> lx_lease_rotation_enabled ctx);
          disposition = classifyCodexPin (tp_pin tp) (tp_pin_source tp) (lx_strategy ctx) (lx_rotation_enabled ctx)
      in case continuing (lx_existing ctx) ctx (tp_pct tp) now of Some s \<Rightarrow> Some s | None \<Rightarrow>
        (case continuing (tp_continuation tp) ctx (tp_pct tp) now of Some s \<Rightarrow> Some s | None \<Rightarrow>
          if disposition = PinManual \<and> the (tp_pin tp) \<noteq> []
          then Some (select_pinned (the (tp_pin tp)) ctx (tp_pct tp) now)
          else if disposition = PinSharded then select_sharded tp ctx now
          else if \<not> lx_rotation_enabled ctx then Some (select_connected (connected (lx_active ctx) ctx))
          else if \<not> leasing \<and> disposition \<noteq> PinClearStale \<and> tp_pin tp \<noteq> None \<and> tp_pin tp \<noteq> Some []
          then Some (select_connected
                 (case connected (tp_pin tp) ctx of Some c \<Rightarrow> Some c | None \<Rightarrow> connected (lx_active ctx) ctx))
          else
            let prior = (case tp_last tp of Some l \<Rightarrow> Some l | None \<Rightarrow> lx_active ctx);
                chooser = (if leasing then chooseRotationActive else chooseLegacyRotationActive);
                used = (case (case prior of None \<Rightarrow> None
                              | Some p \<Rightarrow> List.find (\<lambda>a. cc_id a = p) (lx_accounts ctx)) of
                          Some a \<Rightarrow> case_option [] id (cc_connectors a)
                        | None \<Rightarrow> [])
            in map_option (selection_of None)
                 (chooser (lx_strategy ctx) (lx_active ctx) prior (lx_accounts ctx) (tp_pct tp) now used)))"

end
