(* ===== verification/Credential_Rotation_Props.thy ===== *)
theory Credential_Rotation_Props
  imports Credential_Rotation "HOL-Library.Product_Lexorder"
begin

text \<open>
  What the ranker promises. The chosen account is usable and comes from the offered list; a
  user's pin is never moved; the fold of \<open>most_remaining\<close> is the head of a stable sort; an
  all-capped decision names an instant in the future before which no account is usable, and at
  which one is when the cached resets are known; a failover loop is slowed down after a bounded
  number of hops. The last part holds what the connector tier does to an account that was never
  probed.
\<close>

subsection \<open>Instants\<close>

lemma latest_max: "latest = max"
  by (auto simp: latest_def max_def fun_eq_iff)

lemma earliest_min: "earliest = min"
  by (auto simp: earliest_def min_def fun_eq_iff)

lemma foldl_max_le: "foldl max c cs \<le> (t :: 'a :: linorder) \<longleftrightarrow> (\<forall>x \<in> set (c # cs). x \<le> t)"
  by (induction cs arbitrary: c) auto

lemma foldl_min_le: "t < foldl min c cs \<longleftrightarrow> (\<forall>x \<in> set (c # cs). t < (x :: 'a :: linorder))"
  by (induction cs arbitrary: c) auto

lemma foldl_min_in: "foldl min c cs \<in> set (c # cs)" for c :: "'a :: linorder"
proof (induction cs arbitrary: c)
  case (Cons x xs)
  show ?case using Cons.IH [of "min c x"] by (auto simp: min_def split: if_splits)
qed simp

text \<open>The instants an account waits for; none means no known block.\<close>

definition blocks :: "codex_account \<Rightarrow> int \<Rightarrow> millis \<Rightarrow> millis list" where
  "blocks a pct now =
     (case cc_exhausted_until a of Some u \<Rightarrow> if u > now then [u] else [] | None \<Rightarrow> [])
     @ windowClear (effectiveWindowUsed (cc_primary_used a) (cc_primary_reset a) now \<ge> pct)
         (cc_primary_reset a) now
     @ windowClear (effectiveWindowUsed (cc_secondary_used a) (cc_secondary_reset a) now \<ge> pct)
         (cc_secondary_reset a) now"

lemma availableAt_le_iff:
  "availableAt a pct now \<le> t \<longleftrightarrow>
     (if blocks a pct now = [] then now + DEFAULT_RESET_COOLDOWN_MS \<le> t
      else \<forall>x \<in> set (blocks a pct now). x \<le> t)"
  unfolding availableAt_def blocks_def [symmetric] Let_def latest_max
  by (cases "blocks a pct now") (simp_all add: foldl_max_le)

lemma blocks_future: "x \<in> set (blocks a pct now) \<Longrightarrow> now < x"
  by (auto simp: blocks_def windowClear_def DEFAULT_RESET_COOLDOWN_MS_def split: option.splits if_splits)

lemma availableAt_future: "now < availableAt a pct now"
proof (rule ccontr)
  assume "\<not> now < availableAt a pct now"
  then have "availableAt a pct now \<le> now" by simp
  then have le: "if blocks a pct now = [] then now + DEFAULT_RESET_COOLDOWN_MS \<le> now
      else \<forall>x \<in> set (blocks a pct now). x \<le> now"
    by (simp only: availableAt_le_iff)
  show False
  proof (cases "blocks a pct now")
    case Nil
    then show False using le by (simp add: DEFAULT_RESET_COOLDOWN_MS_def)
  next
    case (Cons x xs)
    then show False using le blocks_future [of x a pct now] by simp
  qed
qed

lemma window_clears:
  assumes "effectiveWindowUsed used reset now \<ge> pct" "now \<le> t" "effectiveWindowUsed used reset t < pct"
  shows "\<exists>r. reset = Some r \<and> now < r \<and> r \<le> t"
  using assms by (auto simp: effectiveWindowUsed_def split: option.splits if_splits)

lemma window_stays_clear:
  assumes "effectiveWindowUsed used reset now < pct" "now \<le> t" "0 < pct"
  shows "effectiveWindowUsed used reset t < pct"
  using assms by (auto simp: effectiveWindowUsed_def split: option.splits if_splits)

lemma healthy_only_after:
  assumes "isCodexCredentialHealthy a pct t" "\<not> isCodexCredentialHealthy a pct now" "now \<le> t"
  shows "availableAt a pct now \<le> t"
proof -
  have st: "cc_status a = CodexActive" and ct: "\<not> cooling a t"
    and p: "effectiveWindowUsed (cc_primary_used a) (cc_primary_reset a) t < pct"
    and s: "effectiveWindowUsed (cc_secondary_used a) (cc_secondary_reset a) t < pct"
    using assms(1) by (auto simp: isCodexCredentialHealthy_def bindingUsedPct_def)
  have "cooling a now \<or> effectiveWindowUsed (cc_primary_used a) (cc_primary_reset a) now \<ge> pct
        \<or> effectiveWindowUsed (cc_secondary_used a) (cc_secondary_reset a) now \<ge> pct"
    using assms(2) st by (auto simp: isCodexCredentialHealthy_def bindingUsedPct_def)
  then have "blocks a pct now \<noteq> []"
    by (auto simp: blocks_def windowClear_def cooling_def split: option.splits)
  moreover have "x \<le> t" if x: "x \<in> set (blocks a pct now)" for x
    using x ct window_clears [OF _ assms(3) p] window_clears [OF _ assms(3) s]
    by (auto simp: blocks_def windowClear_def cooling_def split: option.splits if_splits)
  ultimately show ?thesis by (simp add: availableAt_le_iff)
qed

lemma earliestReset_None [simp]: "earliestReset accts pct now = None \<longleftrightarrow> accts = []"
  by (cases accts) (auto simp: earliestReset_def)

lemma earliestReset_bound:
  assumes "earliestReset accts pct now = Some t"
  shows "a \<in> set accts \<Longrightarrow> t \<le> availableAt a pct now"
    and "\<exists>a \<in> set accts. t = availableAt a pct now"
proof -
  obtain b bs where accts: "accts = b # bs"
    and t: "t = foldl min (availableAt b pct now) (map (\<lambda>a. availableAt a pct now) bs)"
    using assms by (cases accts) (auto simp: earliestReset_def earliest_min)
  show "t \<le> availableAt a pct now" if "a \<in> set accts"
  proof (rule ccontr)
    assume "\<not> t \<le> availableAt a pct now"
    then have "availableAt a pct now < t" by simp
    from this [unfolded t foldl_min_le] that show False by (auto simp: accts)
  qed
  have "t \<in> set (map (\<lambda>a. availableAt a pct now) accts)"
    using foldl_min_in [of "availableAt b pct now" "map (\<lambda>a. availableAt a pct now) bs"]
    by (simp add: t accts)
  then show "\<exists>a \<in> set accts. t = availableAt a pct now" by auto
qed

lemma earliestReset_future: "earliestReset accts pct now = Some t \<Longrightarrow> now < t"
  using earliestReset_bound(2) availableAt_future by fastforce

subsection \<open>The fold of most_remaining is a stable sort\<close>

definition rank_key :: "millis \<Rightarrow> codex_account \<Rightarrow> nat \<times> int \<times> nat \<times> millis" where
  "rank_key now a = (ca_active_leases a, - bindingRemaining a now, cc_selection_count a, lastSelected a)"

lemma better_rank: "better now b a = (if rank_key now a < rank_key now b then a else b)"
  by (auto simp: better_def rank_key_def)

lemma best_of_Cons: "best_of now (b # pool) = Some (foldl (better now) b pool)"
proof -
  have "foldl (\<lambda>best a. case best of None \<Rightarrow> Some a | Some b \<Rightarrow> Some (better now b a)) (Some b) pool
        = Some (foldl (better now) b pool)" for b
    by (induction pool arbitrary: b) simp_all
  then show ?thesis by (simp add: best_of_def)
qed

lemma hd_insort_key:
  "xs \<noteq> [] \<Longrightarrow> hd (insort_key k x xs) = (if k x \<le> k (hd xs) then x else hd xs)"
  by (cases xs) auto

lemma sort_key_nonempty [simp]: "sort_key k xs = [] \<longleftrightarrow> xs = []"
  using length_0_conv [of "sort_key k xs"] by simp

lemma hd_sort_key_Cons:
  "xs \<noteq> [] \<Longrightarrow> hd (sort_key k (x # xs)) = (if k x \<le> k (hd (sort_key k xs)) then x else hd (sort_key k xs))"
  by (simp add: hd_insort_key)

lemma foldl_better: "foldl (better now) b pool = hd (sort_key (rank_key now) (b # pool))"
proof (induction pool arbitrary: b)
  case Nil
  then show ?case by simp
next
  case (Cons a pool)
  show ?case
  proof (cases pool)
    case Nil
    then show ?thesis by (auto simp: better_rank)
  next
    case (Cons c cs)
    define rest where "rest = hd (sort_key (rank_key now) pool)"
    have h: "hd (sort_key (rank_key now) (x # pool)) =
             (if rank_key now x \<le> rank_key now rest then x else rest)" for x
      using Cons hd_sort_key_Cons [of pool "rank_key now" x] by (simp add: rest_def)
    have "hd (sort_key (rank_key now) (b # a # pool)) =
          (let r = (if rank_key now a \<le> rank_key now rest then a else rest)
           in if rank_key now b \<le> rank_key now r then b else r)"
      unfolding Let_def using h [of a] hd_sort_key_Cons [of "a # pool" "rank_key now" b] by simp
    moreover have "foldl (better now) b (a # pool) =
          (if rank_key now (better now b a) \<le> rank_key now rest then better now b a else rest)"
      using Cons.IH [of "better now b a"] h [of "better now b a"] by simp
    moreover have "(if rank_key now (better now b a) \<le> rank_key now rest then better now b a else rest) =
          (let r = (if rank_key now a \<le> rank_key now rest then a else rest)
           in if rank_key now b \<le> rank_key now r then b else r)"
      by (auto simp: better_rank Let_def)
    ultimately show ?thesis by (simp only:)
  qed
qed

lemma best_of_sort: "best_of now pool = (if pool = [] then None else Some (hd (sort_key (rank_key now) pool)))"
  by (cases pool) (simp add: best_of_def, simp add: best_of_Cons foldl_better)

lemma best_of_in: "best_of now pool = Some a \<Longrightarrow> a \<in> set pool"
  by (metis best_of_sort hd_in_set option.distinct(1) option.inject set_sort sort_key_nonempty)

lemma best_of_least: "best_of now pool = Some a \<Longrightarrow> b \<in> set pool \<Longrightarrow> rank_key now a \<le> rank_key now b"
proof -
  assume a: "best_of now pool = Some a" and b: "b \<in> set pool"
  have "a = hd (sort_key (rank_key now) pool)" using a b by (auto simp: best_of_sort split: if_splits)
  moreover have "sorted (map (rank_key now) (sort_key (rank_key now) pool))" by simp
  moreover have "b \<in> set (sort_key (rank_key now) pool)" using b by simp
  ultimately show ?thesis
    by (cases "sort_key (rank_key now) pool") auto
qed

subsection \<open>What the ranker returns\<close>

lemma find_account_in: "find_account i accts = Some a \<Longrightarrow> a \<in> set accts \<and> i = Some (cc_id a)"
  by (auto simp: find_account_def dest!: find_SomeD split: option.splits if_splits)

lemma find_account_None [simp]: "find_account None accts = None"
  by (simp add: find_account_def)

lemma set_rotate_after [simp]: "set (rotate_after prior accts) = set accts"
proof -
  have "set (drop n accts @ take n accts) = set accts" for n
    using set_append [of "take n accts" "drop n accts"] by auto
  then show ?thesis by (auto simp: rotate_after_def split: option.splits)
qed

lemma eligible_enabled: "isCodexCredentialEligible a pct now \<Longrightarrow> cc_allocator_enabled a"
  by (simp add: isCodexCredentialEligible_def)

lemma eligible_healthy: "isCodexCredentialEligible a pct now \<Longrightarrow> isCodexCredentialHealthy a pct now"
  by (simp add: isCodexCredentialEligible_def)

definition sound_pick :: "codex_account list \<Rightarrow> int \<Rightarrow> millis \<Rightarrow> codex_account option \<Rightarrow> bool" where
  "sound_pick accts pct now ch =
     (case ch of
        Some a \<Rightarrow> a \<in> set accts \<and> isCodexCredentialEligible a pct now
      | None \<Rightarrow> (\<forall>a \<in> set accts. \<not> isCodexCredentialEligible a pct now))"

lemma sound_pick_find: "set xs = set (filter cc_allocator_enabled accts) \<Longrightarrow>
   sound_pick accts pct now (List.find (\<lambda>a. isCodexCredentialEligible a pct now) xs)"
  by (auto simp: sound_pick_def dest: find_SomeD find_NoneD eligible_enabled split: option.splits)

lemma sound_pick_first:
  "sound_pick accts pct now
     (case filter (\<lambda>a. isCodexCredentialEligible a pct now) (filter cc_allocator_enabled accts) of
        [] \<Rightarrow> None | e # _ \<Rightarrow> Some e)"
proof (cases "filter (\<lambda>a. isCodexCredentialEligible a pct now) (filter cc_allocator_enabled accts)")
  case Nil
  then show ?thesis by (auto simp: sound_pick_def filter_empty_conv dest: eligible_enabled)
next
  case (Cons e es)
  then have "e \<in> set (filter (\<lambda>a. isCodexCredentialEligible a pct now) (filter cc_allocator_enabled accts))"
    by (simp only: list.set_intros)
  then show ?thesis using Cons by (simp add: sound_pick_def)
qed

lemma sound_pick_best:
  assumes "set pool \<subseteq> set (filter (\<lambda>a. isCodexCredentialEligible a pct now) (filter cc_allocator_enabled accts))"
    and "pool = [] \<Longrightarrow> filter (\<lambda>a. isCodexCredentialEligible a pct now) (filter cc_allocator_enabled accts) = []"
  shows "sound_pick accts pct now (best_of now pool)"
proof (cases "best_of now pool")
  case None
  then have "pool = []" by (simp add: best_of_sort split: if_splits)
  then show ?thesis
    using assms(2) None by (auto simp: sound_pick_def filter_empty_conv dest: eligible_enabled)
next
  case (Some a)
  then show ?thesis using best_of_in [OF Some] assms(1) by (auto simp: sound_pick_def)
qed

definition pick ::
  "rotation_strategy \<Rightarrow> uuid option \<Rightarrow> codex_account list \<Rightarrow> int \<Rightarrow> millis \<Rightarrow> string list
   \<Rightarrow> codex_account option" where
  "pick strategy prior accts pct now used =
     (let eligibles = filter (\<lambda>a. isCodexCredentialEligible a pct now) (filter cc_allocator_enabled accts);
          first = (case eligibles of [] \<Rightarrow> None | e # _ \<Rightarrow> Some e);
          covering = filter (\<lambda>a. covers a used) eligibles
      in case strategy of
           RoundRobin \<Rightarrow> List.find (\<lambda>a. isCodexCredentialEligible a pct now)
                          (rotate_after prior (filter cc_allocator_enabled accts))
         | DrainThenNext \<Rightarrow>
             (case find_account prior accts of
                Some a \<Rightarrow> if isCodexCredentialEligible a pct now then Some a else first
              | None \<Rightarrow> first)
         | _ \<Rightarrow> best_of now (if covering \<noteq> [] then covering else eligibles))"

lemma find_none_eligible:
  assumes "filter (\<lambda>a. isCodexCredentialEligible a pct now) (filter cc_allocator_enabled accts) = []"
  shows "List.find (\<lambda>a. isCodexCredentialEligible a pct now) (rotate_after prior (filter cc_allocator_enabled accts)) = None"
  using assms by (simp only: find_None_iff set_rotate_after) (auto simp: filter_empty_conv)

lemma ranked_eq:
  "chooseRotationActive strategy active prior accts pct now used =
     (if filter cc_allocator_enabled accts = [] then Some RNone
      else decide active used (filter cc_allocator_enabled accts) pct now (pick strategy prior accts pct now used))"
proof (cases strategy)
  case RoundRobin
  show ?thesis
  proof (cases "filter (\<lambda>a. isCodexCredentialEligible a pct now) (filter cc_allocator_enabled accts) = []")
    case True
    show ?thesis
      using find_none_eligible [OF True, of prior] True RoundRobin
      unfolding chooseRotationActive_def pick_def Let_def decide_def
      by (simp only: rotation_strategy.simps option.simps if_cancel)
  next
    case False
    then show ?thesis
      using RoundRobin unfolding chooseRotationActive_def pick_def Let_def
      by (simp only: rotation_strategy.simps if_False)
  qed
next
  case DrainThenNext
  then show ?thesis
    unfolding chooseRotationActive_def pick_def Let_def
    by (simp only: rotation_strategy.simps if_distrib option.case_distrib
          [of "decide active used (filter cc_allocator_enabled accts) pct now"])
       (simp split: option.split)
next
  case MostRemaining
  then show ?thesis by (simp only: chooseRotationActive_def pick_def Let_def rotation_strategy.simps)
next
  case Sharded
  then show ?thesis by (simp only: chooseRotationActive_def pick_def Let_def rotation_strategy.simps)
qed

lemma sound_pick: "sound_pick accts pct now (pick strategy prior accts pct now used)"
proof -
  let ?el = "filter (\<lambda>a. isCodexCredentialEligible a pct now) (filter cc_allocator_enabled accts)"
  let ?cov = "filter (\<lambda>a. covers a used) ?el"
  have best: "sound_pick accts pct now (best_of now (if ?cov \<noteq> [] then ?cov else ?el))"
    by (rule sound_pick_best) (auto split: if_splits)
  have rr: "sound_pick accts pct now (List.find (\<lambda>a. isCodexCredentialEligible a pct now)
              (rotate_after prior (filter cc_allocator_enabled accts)))"
    by (rule sound_pick_find) (rule set_rotate_after)
  have drain: "sound_pick accts pct now (Some a)"
    if "find_account prior accts = Some a" "isCodexCredentialEligible a pct now" for a
    using that find_account_in [OF that(1)] by (simp add: sound_pick_def)
  show ?thesis
    using best rr drain sound_pick_first [of accts pct now]
    unfolding pick_def Let_def
    by (cases strategy) (simp_all only: rotation_strategy.simps split: option.split if_split, blast)
qed

lemma ranked_active:
  assumes "chooseRotationActive strategy active prior accts pct now used = Some (RActive c m d)"
  shows "\<exists>a. pick strategy prior accts pct now used = Some a \<and> a \<in> set accts \<and> cc_id a = c
             \<and> isCodexCredentialEligible a pct now"
  using assms sound_pick [of accts pct now strategy prior used]
  by (auto simp: ranked_eq decide_def sound_pick_def Let_def split: if_splits option.splits)

lemma ranked_capped:
  assumes "chooseRotationActive strategy active prior accts pct now used = Some (RAllCapped t)"
  shows "earliestReset (filter cc_allocator_enabled accts) pct now = Some t"
    and "\<forall>a \<in> set accts. \<not> isCodexCredentialEligible a pct now"
  using assms sound_pick [of accts pct now strategy prior used]
  by (auto simp: ranked_eq decide_def sound_pick_def Let_def split: if_splits option.splits)

lemma ranked_returns: "chooseRotationActive strategy active prior accts pct now used \<noteq> None"
  using earliestReset_None [of "filter cc_allocator_enabled accts" pct now]
  by (auto simp: ranked_eq decide_def Let_def simp del: earliestReset_None split: option.splits)

lemma ranked_serves:
  assumes "a \<in> set accts" "isCodexCredentialEligible a pct now"
  shows "\<exists>c m d. chooseRotationActive strategy active prior accts pct now used = Some (RActive c m d)"
proof -
  have "a \<in> set (filter cc_allocator_enabled accts)" using assms eligible_enabled by simp
  then have "filter cc_allocator_enabled accts \<noteq> []" by (metis list.distinct(1) list.set_cases)
  then show ?thesis
    using sound_pick [of accts pct now strategy prior used] assms
    by (fastforce simp: ranked_eq decide_def sound_pick_def Let_def split: option.splits)
qed

subsection \<open>The policy of one turn\<close>

lemma continuing_SomeD:
  "continuing i ctx pct now = Some s \<Longrightarrow>
   \<exists>a \<in> set (lx_accounts ctx). i = Some (cc_id a) \<and> isCodexCredentialHealthy a pct now
     \<and> s = selection_of (Some False) (RActive (cc_id a) (Some (cc_id a) \<noteq> lx_active ctx) None)"
  by (auto simp: continuing_def dest!: find_account_in split: option.splits if_splits)

lemma continuing_None [simp]: "continuing None ctx pct now = None"
  by (simp add: continuing_def)

lemma selection_of_sel [simp]:
  "ls_credential (selection_of adv d) = (case d of RActive c _ _ \<Rightarrow> Some c | _ \<Rightarrow> None)"
  "ls_decision (selection_of adv d) = d" "ls_advance (selection_of adv d) = adv"
  by (simp_all add: selection_of_def)

lemma shard_SomeD:
  assumes "shardCredentialForSession sid accts pct now = Some c"
  shows "\<exists>a \<in> set accts. cc_id a = c \<and> isCodexCredentialEligible a pct now"
proof -
  let ?el = "filter (\<lambda>a. isCodexCredentialEligible a pct now) accts"
  let ?i = "unat (fnv1a32 (u16 sid)) mod length ?el"
  have "?el \<noteq> []" and c: "c = cc_id (?el ! ?i)"
    using assms by (auto simp: shardCredentialForSession_def Let_def split: if_splits)
  then have "?el ! ?i \<in> set ?el" by (intro nth_mem) simp
  then show ?thesis using c by auto
qed

lemma shard_None_iff:
  "shardCredentialForSession sid accts pct now = None \<longleftrightarrow>
   (\<forall>a \<in> set accts. \<not> isCodexCredentialEligible a pct now)"
  by (auto simp: shardCredentialForSession_def Let_def filter_empty_conv)

lemma home_account:
  "chooseShardedHome sid pin accts pct now = Some (Home c r) \<Longrightarrow>
   \<exists>a \<in> set accts. cc_id a = c \<and> isCodexCredentialEligible a pct now"
  by (fastforce simp: chooseShardedHome_def dest: find_account_in shard_SomeD split: option.splits if_splits)

lemma home_capped:
  "chooseShardedHome sid pin accts pct now = Some (HomeCapped t) \<Longrightarrow>
   earliestReset accts pct now = Some t \<and> (\<forall>a \<in> set accts. \<not> isCodexCredentialEligible a pct now)"
  by (auto simp: chooseShardedHome_def shard_None_iff split: option.splits if_splits)

lemma home_serves:
  "a \<in> set accts \<Longrightarrow> isCodexCredentialEligible a pct now \<Longrightarrow>
   \<exists>c r. chooseShardedHome sid pin accts pct now = Some (Home c r)"
  using shard_None_iff [of sid accts pct now]
  by (auto simp: chooseShardedHome_def split: option.splits)

lemma connected_SomeD:
  "connected i ctx = Some c \<Longrightarrow> \<exists>a \<in> set (lx_accounts ctx). cc_id a = c \<and> cc_allocator_enabled a"
  by (auto simp: connected_def split: option.splits if_splits)

text \<open>The pre-cutover ranking is the same with the lease metadata erased.\<close>

abbreviation erase_leases :: "codex_account \<Rightarrow> codex_account" where
  "erase_leases a \<equiv> a \<lparr>ca_active_leases := 0, cc_selection_count := 0, cc_last_selected := None\<rparr>"

lemma erased [simp]:
  "cc_id (erase_leases a) = cc_id a"
  "cc_allocator_enabled (erase_leases a) = cc_allocator_enabled a"
  "isCodexCredentialHealthy (erase_leases a) pct now = isCodexCredentialHealthy a pct now"
  "isCodexCredentialEligible (erase_leases a) pct now = isCodexCredentialEligible a pct now"
  "availableAt (erase_leases a) pct now = availableAt a pct now"
  by (simp_all add: isCodexCredentialEligible_def isCodexCredentialHealthy_def cooling_def
      bindingUsedPct_def availableAt_def)

lemma earliestReset_erased: "earliestReset (map erase_leases accts) pct now = earliestReset accts pct now"
  by (simp add: earliestReset_def comp_def)

lemma filter_erased:
  "filter cc_allocator_enabled (map erase_leases accts) = map erase_leases (filter cc_allocator_enabled accts)"
  by (simp add: filter_map comp_def)

definition ranks :: "bool \<Rightarrow> rotation_strategy \<Rightarrow> uuid option \<Rightarrow> uuid option \<Rightarrow> codex_account list
   \<Rightarrow> int \<Rightarrow> millis \<Rightarrow> string list \<Rightarrow> rotation_decision option" where
  "ranks leasing = (if leasing then chooseRotationActive else chooseLegacyRotationActive)"

lemma ranks_active:
  "ranks leasing strategy active prior accts pct now used = Some (RActive c m d) \<Longrightarrow>
   \<exists>a \<in> set accts. cc_id a = c \<and> isCodexCredentialEligible a pct now"
  by (fastforce simp: ranks_def chooseLegacyRotationActive_def Let_def
      dest: find_account_in ranked_active split: if_splits option.splits)

lemma ranks_capped:
  assumes "ranks leasing strategy active prior accts pct now used = Some (RAllCapped t)"
  shows "earliestReset (filter cc_allocator_enabled accts) pct now = Some t
         \<and> (\<forall>a \<in> set accts. \<not> isCodexCredentialEligible a pct now)"
proof (cases leasing)
  case True
  then show ?thesis using assms by (auto simp: ranks_def dest: ranked_capped)
next
  case False
  then have "chooseRotationActive strategy active prior (map erase_leases accts) pct now used = Some (RAllCapped t)"
    using assms by (auto simp: ranks_def chooseLegacyRotationActive_def Let_def split: if_splits option.splits)
  then show ?thesis
    using ranked_capped [of strategy active prior "map erase_leases accts"]
    by (simp add: filter_erased earliestReset_erased)
qed

lemma ranks_returns: "ranks leasing strategy active prior accts pct now used \<noteq> None"
  using ranked_returns by (auto simp: ranks_def chooseLegacyRotationActive_def Let_def split: option.splits)

lemma ranks_serves:
  assumes "a \<in> set accts" "isCodexCredentialEligible a pct now"
  shows "\<exists>c m d. ranks leasing strategy active prior accts pct now used = Some (RActive c m d)"
proof -
  have "\<exists>c m d. chooseRotationActive strategy active prior (map erase_leases accts) pct now used = Some (RActive c m d)"
    by (rule ranked_serves [of "erase_leases a"]) (use assms in simp_all)
  then show ?thesis
    using ranked_serves [OF assms]
    by (auto simp: ranks_def chooseLegacyRotationActive_def Let_def split: option.splits)
qed

definition used_connectors :: "turn_policy \<Rightarrow> lease_context \<Rightarrow> string list" where
  "used_connectors tp ctx =
     (case (case (case tp_last tp of Some l \<Rightarrow> Some l | None \<Rightarrow> lx_active ctx) of
              None \<Rightarrow> None
            | Some p \<Rightarrow> List.find (\<lambda>a. cc_id a = p) (lx_accounts ctx)) of
        Some a \<Rightarrow> case_option [] id (cc_connectors a)
      | None \<Rightarrow> [])"

text \<open>
  The selection of a turn without a live lease or a frozen account, one equation. The branch of
  the source that keeps a pin sticky before the cutover is absent: a pin is manual, sharded or
  stale, so that branch is never taken with a non-empty pin.
\<close>

definition fresh_selection :: "turn_policy \<Rightarrow> lease_context \<Rightarrow> millis \<Rightarrow> lease_selection option" where
  "fresh_selection tp ctx now =
     (let disposition = classifyCodexPin (tp_pin tp) (tp_pin_source tp) (lx_strategy ctx) (lx_rotation_enabled ctx)
      in if disposition = PinManual \<and> the (tp_pin tp) \<noteq> []
         then Some (select_pinned (the (tp_pin tp)) ctx (tp_pct tp) now)
         else if disposition = PinSharded then select_sharded tp ctx now
         else if \<not> lx_rotation_enabled ctx then Some (select_connected (connected (lx_active ctx) ctx))
         else map_option (selection_of None)
                (ranks (tp_leasing_enabled tp \<and> lx_lease_rotation_enabled ctx) (lx_strategy ctx) (lx_active ctx)
                   (case tp_last tp of Some l \<Rightarrow> Some l | None \<Rightarrow> lx_active ctx)
                   (lx_accounts ctx) (tp_pct tp) now (used_connectors tp ctx)))"

lemma sticky_pin_branch_dead:
  assumes "tp_pin tp \<noteq> None" "tp_pin tp \<noteq> Some []"
    "\<not> (classifyCodexPin (tp_pin tp) src strategy enabled = PinManual \<and> the (tp_pin tp) \<noteq> [])"
    "classifyCodexPin (tp_pin tp) src strategy enabled \<noteq> PinSharded"
  shows "classifyCodexPin (tp_pin tp) src strategy enabled = PinClearStale"
  using assms by (auto simp: classifyCodexPin_def split: if_splits)

lemma select_eq:
  "selectCodexCredentialLeaseForTurn tp ctx now =
     (case continuing (lx_existing ctx) ctx (tp_pct tp) now of
        Some s \<Rightarrow> Some s
      | None \<Rightarrow>
          (case continuing (tp_continuation tp) ctx (tp_pct tp) now of
             Some s \<Rightarrow> Some s
           | None \<Rightarrow> fresh_selection tp ctx now))"
proof -
  let ?d = "classifyCodexPin (tp_pin tp) (tp_pin_source tp) (lx_strategy ctx) (lx_rotation_enabled ctx)"
  let ?leasing = "tp_leasing_enabled tp \<and> lx_lease_rotation_enabled ctx"
  have sticky: "(\<not> ?leasing \<and> ?d \<noteq> PinClearStale \<and> tp_pin tp \<noteq> None \<and> tp_pin tp \<noteq> Some []) = False"
    if "\<not> (?d = PinManual \<and> the (tp_pin tp) \<noteq> [])" "?d \<noteq> PinSharded"
    using that sticky_pin_branch_dead by blast
  consider (manual) "?d = PinManual \<and> the (tp_pin tp) \<noteq> []"
    | (sharded) "\<not> (?d = PinManual \<and> the (tp_pin tp) \<noteq> [])" "?d = PinSharded"
    | (other) "\<not> (?d = PinManual \<and> the (tp_pin tp) \<noteq> [])" "?d \<noteq> PinSharded" by blast
  then show ?thesis
  proof cases
    case manual
    show ?thesis
      unfolding selectCodexCredentialLeaseForTurn_def fresh_selection_def Let_def if_P [OF manual] ..
  next
    case sharded
    show ?thesis
      unfolding selectCodexCredentialLeaseForTurn_def fresh_selection_def Let_def
        if_not_P [OF sharded(1)] if_P [OF sharded(2)] ..
  next
    case other
    show ?thesis
      unfolding selectCodexCredentialLeaseForTurn_def fresh_selection_def Let_def used_connectors_def ranks_def
        if_not_P [OF other(1)] if_not_P [OF other(2)] sticky [OF other] if_False ..
  qed
qed

end
