(* ===== verification/Credential_Selection.thy ===== *)
theory Credential_Selection
  imports Credential_Rotation_Props
begin

text \<open>
  The promises of \<^verbatim>\<open>selectCodexCredentialLeaseForTurn\<close>, the policy the worker runs at the start
  of every Codex turn and while a session waits for capacity: over all strategies, pins,
  continuations and both rollout states.
\<close>

subsection \<open>Fresh selections\<close>

lemma select_pinned_SomeD:
  "ls_credential (select_pinned p ctx pct now) = Some c \<Longrightarrow>
   c = p \<and> (\<exists>a \<in> set (lx_accounts ctx). cc_id a = p \<and> isCodexCredentialEligible a pct now)"
  by (auto simp: select_pinned_def isCodexCredentialEligible_def dest!: find_SomeD
      split: option.splits if_splits)

lemma select_sharded_cases:
  assumes "select_sharded tp ctx now = Some sel"
  obtains (empty) "lx_accounts ctx = []" "sel = selection_of (Some False) RNone"
  | (homed) pin c r where "chooseShardedHome (tp_session tp) pin (lx_accounts ctx) (tp_pct tp) now = Some (Home c r)"
      "sel = selection_of (Some False) (RActive c (Some c \<noteq> lx_active ctx) None)"
  | (capped) pin t where "chooseShardedHome (tp_session tp) pin (lx_accounts ctx) (tp_pct tp) now = Some (HomeCapped t)"
      "sel = selection_of (Some False) (RAllCapped t)"
proof (cases "lx_accounts ctx = []")
  case True
  then show ?thesis using assms empty by (simp add: select_sharded_def)
next
  case False
  let ?pin = "if tp_pin_source tp = Some PinSourcePolicy then tp_pin tp else None"
  obtain h where h: "chooseShardedHome (tp_session tp) ?pin (lx_accounts ctx) (tp_pct tp) now = Some h"
    and sel: "sel = selection_of (Some False)
       (case h of HomeCapped t \<Rightarrow> RAllCapped t | Home c _ \<Rightarrow> RActive c (Some c \<noteq> lx_active ctx) None)"
    using assms False unfolding select_sharded_def if_not_P [OF False] by (elim map_option_eq_Some [THEN iffD1, THEN exE]) simp
  show ?thesis
  proof (cases h)
    case (Home c r)
    then show ?thesis using homed h sel by simp
  next
    case (HomeCapped t)
    then show ?thesis using capped h sel by simp
  qed
qed

lemma select_sharded_SomeD:
  assumes "select_sharded tp ctx now = Some sel" "ls_credential sel = Some c"
  shows "\<exists>a \<in> set (lx_accounts ctx). cc_id a = c \<and> isCodexCredentialEligible a (tp_pct tp) now"
  using assms(1)
proof (cases rule: select_sharded_cases)
  case (homed pin c' r)
  then show ?thesis using home_account [OF homed(1)] assms(2) by simp
qed (use assms(2) in simp_all)

lemma select_connected_SomeD: "ls_credential (select_connected i) = Some c \<Longrightarrow> i = Some c"
  by (auto simp: select_connected_def split: option.splits if_splits)

lemma rotated_SomeD:
  "ranks leasing strategy active prior accts pct now used = Some d \<Longrightarrow>
   ls_credential (selection_of adv d) = Some c \<Longrightarrow>
   \<exists>a \<in> set accts. cc_id a = c \<and> isCodexCredentialEligible a pct now"
  by (cases d) (auto dest: ranks_active)

lemma fresh_cases:
  assumes "fresh_selection tp ctx now = Some sel"
  obtains (pinned) "tp_pin_source tp \<noteq> Some PinSourcePolicy" "tp_pin tp \<noteq> None" "tp_pin tp \<noteq> Some []"
      "sel = select_pinned (the (tp_pin tp)) ctx (tp_pct tp) now"
  | (sharded) "classifyCodexPin (tp_pin tp) (tp_pin_source tp) (lx_strategy ctx) (lx_rotation_enabled ctx) = PinSharded"
      "select_sharded tp ctx now = Some sel"
  | (off) "\<not> lx_rotation_enabled ctx"
      "\<not> (classifyCodexPin (tp_pin tp) (tp_pin_source tp) (lx_strategy ctx) (lx_rotation_enabled ctx) = PinManual
          \<and> the (tp_pin tp) \<noteq> [])"
      "sel = select_connected (connected (lx_active ctx) ctx)"
  | (ranked) d where "lx_rotation_enabled ctx"
      "\<not> (classifyCodexPin (tp_pin tp) (tp_pin_source tp) (lx_strategy ctx) (lx_rotation_enabled ctx) = PinManual
          \<and> the (tp_pin tp) \<noteq> [])"
      "classifyCodexPin (tp_pin tp) (tp_pin_source tp) (lx_strategy ctx) (lx_rotation_enabled ctx) \<noteq> PinSharded"
      "ranks (tp_leasing_enabled tp \<and> lx_lease_rotation_enabled ctx) (lx_strategy ctx) (lx_active ctx)
        (case tp_last tp of Some l \<Rightarrow> Some l | None \<Rightarrow> lx_active ctx)
        (lx_accounts ctx) (tp_pct tp) now (used_connectors tp ctx) = Some d" "sel = selection_of None d"
proof -
  let ?d = "classifyCodexPin (tp_pin tp) (tp_pin_source tp) (lx_strategy ctx) (lx_rotation_enabled ctx)"
  note f = assms [unfolded fresh_selection_def Let_def]
  show ?thesis
  proof (cases "?d = PinManual \<and> the (tp_pin tp) \<noteq> []")
    case True
    then have "tp_pin tp \<noteq> None" "tp_pin tp \<noteq> Some []" "tp_pin_source tp \<noteq> Some PinSourcePolicy"
      by (auto simp: classifyCodexPin_def split: if_splits)
    then show ?thesis using pinned f [unfolded if_P [OF True]] by blast
  next
    case manual: False
    show ?thesis
    proof (cases "?d = PinSharded")
      case True
      then show ?thesis using sharded f [unfolded if_not_P [OF manual] if_P [OF True]] by blast
    next
      case False
      note g = f [unfolded if_not_P [OF manual] if_not_P [OF False]]
      show ?thesis
        by (cases "lx_rotation_enabled ctx") (use g off ranked manual False in auto)
    qed
  qed
qed

lemma fresh_credential:
  assumes "fresh_selection tp ctx now = Some sel" "ls_credential sel = Some c"
  shows "\<exists>a \<in> set (lx_accounts ctx). cc_id a = c \<and> cc_allocator_enabled a
           \<and> (isCodexCredentialHealthy a (tp_pct tp) now \<or> \<not> lx_rotation_enabled ctx)"
proof -
  have el: ?thesis if "\<exists>a \<in> set (lx_accounts ctx). cc_id a = c \<and> isCodexCredentialEligible a (tp_pct tp) now"
    using that by (auto simp: isCodexCredentialEligible_def)
  show ?thesis using assms(1)
  proof (cases rule: fresh_cases)
    case pinned
    then show ?thesis using select_pinned_SomeD [of "the (tp_pin tp)" ctx "tp_pct tp" now c] assms(2) by (intro el) simp
  next
    case sharded
    then show ?thesis by (intro el select_sharded_SomeD [OF _ assms(2)])
  next
    case off
    then show ?thesis using assms(2) by (auto dest!: select_connected_SomeD connected_SomeD)
  next
    case (ranked d)
    show ?thesis using rotated_SomeD [OF ranked(4)] assms(2) ranked(5) by (intro el) simp
  qed
qed

text \<open>
  C36: The account a turn is given is one of the workspace's, enabled for new work unless the
  turn already holds it or froze its run state on it, and healthy whenever rotation is on:
  under every strategy, pin and rollout state.
\<close>

theorem selected_account_is_usable:
  assumes "selectCodexCredentialLeaseForTurn tp ctx now = Some sel" "ls_credential sel = Some c"
  shows "\<exists>a \<in> set (lx_accounts ctx). cc_id a = c
           \<and> (cc_allocator_enabled a \<or> lx_existing ctx = Some c \<or> tp_continuation tp = Some c)
           \<and> (isCodexCredentialHealthy a (tp_pct tp) now \<or> \<not> lx_rotation_enabled ctx)"
proof (cases "fresh_selection tp ctx now = Some sel")
  case True
  then show ?thesis using fresh_credential [OF True assms(2)] by blast
next
  case False
  then obtain i where "continuing i ctx (tp_pct tp) now = Some sel"
    and i: "i = lx_existing ctx \<or> i = tp_continuation tp"
    using assms(1) by (auto simp: select_eq split: option.splits)
  then show ?thesis using assms(2) by (auto dest!: continuing_SomeD)
qed

lemma select_returns: "selectCodexCredentialLeaseForTurn tp ctx now \<noteq> None"
proof -
  have "select_sharded tp ctx now \<noteq> None"
    using earliestReset_None [of "lx_accounts ctx" "tp_pct tp" now]
    by (auto simp: select_sharded_def chooseShardedHome_def simp del: earliestReset_None split: option.splits)
  then show ?thesis
    using ranks_returns by (auto simp: select_eq fresh_selection_def Let_def split: option.splits)
qed

text \<open>
  C37: A pin that is not marked as set by the policy is never failed over: a turn that holds
  no other account gets the pinned one or none, and the workspace's pointer stays.
\<close>

theorem a_pin_is_never_moved:
  assumes "tp_pin tp = Some p" "tp_pin_source tp \<noteq> Some PinSourcePolicy" "p \<noteq> []"
    "lx_existing ctx \<in> {None, Some p}" "tp_continuation tp \<in> {None, Some p}"
  shows "\<exists>sel. selectCodexCredentialLeaseForTurn tp ctx now = Some sel
           \<and> ls_credential sel \<in> {None, Some p} \<and> ls_advance sel = Some False"
proof -
  have fresh: "fresh_selection tp ctx now = Some (select_pinned p ctx (tp_pct tp) now)"
    using assms(1,2,3) by (simp add: fresh_selection_def classifyCodexPin_def)
  have pinned: "ls_credential (select_pinned p ctx (tp_pct tp) now) \<in> {None, Some p}"
    using select_pinned_SomeD [of p ctx "tp_pct tp" now]
    by (cases "ls_credential (select_pinned p ctx (tp_pct tp) now)") auto
  have adv: "ls_advance (select_pinned p ctx (tp_pct tp) now) = Some False"
    by (simp add: select_pinned_def)
  have "ls_credential s = Some p \<and> ls_advance s = Some False"
    if "continuing i ctx (tp_pct tp) now = Some s" "i \<in> {None, Some p}" for i s
    using that by (auto dest!: continuing_SomeD)
  then show ?thesis
    using assms(4,5) fresh pinned adv by (auto simp: select_eq split: option.split)
qed

subsection \<open>Waiting for capacity\<close>

text \<open>Every window of the account that is over the threshold says when it resets.\<close>

definition reset_known :: "codex_account \<Rightarrow> int \<Rightarrow> millis \<Rightarrow> bool" where
  "reset_known a pct now =
     ((effectiveWindowUsed (cc_primary_used a) (cc_primary_reset a) now < pct \<or> cc_primary_reset a \<noteq> None)
      \<and> (effectiveWindowUsed (cc_secondary_used a) (cc_secondary_reset a) now < pct \<or> cc_secondary_reset a \<noteq> None))"

lemma window_open_at:
  assumes "effectiveWindowUsed used reset now < pct \<or> reset \<noteq> None" "0 < pct" "now \<le> t"
    and "\<And>x. x \<in> set (windowClear (effectiveWindowUsed used reset now \<ge> pct) reset now) \<Longrightarrow> x \<le> t"
  shows "effectiveWindowUsed used reset t < pct"
proof (cases "effectiveWindowUsed used reset now < pct")
  case True
  then show ?thesis using window_stays_clear assms(2,3) by blast
next
  case False
  then obtain r where r: "reset = Some r" "now < r"
    using assms(1,2) by (auto simp: effectiveWindowUsed_def split: if_splits)
  then have "r \<le> t" using assms(4) [of r] False by (simp add: windowClear_def)
  then show ?thesis using r assms(2) by (simp add: effectiveWindowUsed_def)
qed

lemma eligible_at_reset:
  assumes "reset_known a pct now" "cc_status a = CodexActive" "cc_allocator_enabled a"
    and "\<not> isCodexCredentialHealthy a pct now" "0 < pct"
  shows "isCodexCredentialEligible a pct (availableAt a pct now)"
proof -
  let ?t = "availableAt a pct now"
  have fut: "now < ?t" by (rule availableAt_future)
  have "blocks a pct now \<noteq> []"
    using assms(1,2,4)
    by (auto simp: blocks_def windowClear_def cooling_def reset_known_def isCodexCredentialHealthy_def
        bindingUsedPct_def split: option.splits)
  then have le: "x \<le> ?t" if "x \<in> set (blocks a pct now)" for x
    using that availableAt_le_iff [of a pct now ?t] by simp
  have p: "effectiveWindowUsed (cc_primary_used a) (cc_primary_reset a) ?t < pct"
    by (rule window_open_at [of _ _ now]) (use assms fut le in \<open>auto simp: reset_known_def blocks_def\<close>)
  have s: "effectiveWindowUsed (cc_secondary_used a) (cc_secondary_reset a) ?t < pct"
    by (rule window_open_at [of _ _ now]) (use assms fut le in \<open>auto simp: reset_known_def blocks_def\<close>)
  have "\<not> cooling a ?t"
    using le fut by (fastforce simp: cooling_def blocks_def split: option.splits if_splits)
  then show ?thesis
    using p s assms(2,3)
    by (simp add: isCodexCredentialEligible_def isCodexCredentialHealthy_def bindingUsedPct_def reset_known_def)
qed

text \<open>
  The accounts a capped turn waits for: the pinned one, all of them under the sharded policy
  (those disabled for new work too), else the enabled ones.
\<close>

definition waits_for :: "turn_policy \<Rightarrow> lease_context \<Rightarrow> codex_account list" where
  "waits_for tp ctx =
     (let disposition = classifyCodexPin (tp_pin tp) (tp_pin_source tp) (lx_strategy ctx) (lx_rotation_enabled ctx)
      in if disposition = PinManual \<and> the (tp_pin tp) \<noteq> []
         then (case List.find (\<lambda>a. cc_id a = the (tp_pin tp)) (lx_accounts ctx) of Some a \<Rightarrow> [a] | None \<Rightarrow> [])
         else if disposition = PinSharded then lx_accounts ctx
         else filter cc_allocator_enabled (lx_accounts ctx))"

definition ranked_or_pinned :: "turn_policy \<Rightarrow> lease_context \<Rightarrow> bool" where
  "ranked_or_pinned tp ctx =
     (lx_rotation_enabled ctx
      \<or> (classifyCodexPin (tp_pin tp) (tp_pin_source tp) (lx_strategy ctx) (lx_rotation_enabled ctx) = PinManual
         \<and> the (tp_pin tp) \<noteq> []))"

lemma capped_fresh:
  assumes "fresh_selection tp ctx now = Some sel" "ls_decision sel = RAllCapped t"
  shows "earliestReset (waits_for tp ctx) (tp_pct tp) now = Some t"
    and "\<forall>a \<in> set (waits_for tp ctx). \<not> isCodexCredentialEligible a (tp_pct tp) now"
    and "ranked_or_pinned tp ctx"
proof -
  let ?C = "earliestReset (waits_for tp ctx) (tp_pct tp) now = Some t
    \<and> (\<forall>a \<in> set (waits_for tp ctx). \<not> isCodexCredentialEligible a (tp_pct tp) now)
    \<and> ranked_or_pinned tp ctx"
  have ?C using assms(1)
  proof (cases rule: fresh_cases)
    case pinned
    then show ?thesis
      using assms(2)
      by (auto simp: select_pinned_def waits_for_def classifyCodexPin_def earliestReset_def
          isCodexCredentialEligible_def ranked_or_pinned_def split: option.splits if_splits)
  next
    case sharded
    then have w: "waits_for tp ctx = lx_accounts ctx" by (simp add: waits_for_def)
    have on: "lx_rotation_enabled ctx" using sharded(1) by (auto simp: classifyCodexPin_def split: if_splits)
    from sharded(2) show ?thesis
      by (cases rule: select_sharded_cases) (use assms(2) w on home_capped in \<open>auto simp: ranked_or_pinned_def\<close>)
  next
    case off
    then show ?thesis using assms(2) by (auto simp: select_connected_def split: option.splits if_splits)
  next
    case (ranked d)
    then have w: "waits_for tp ctx = filter cc_allocator_enabled (lx_accounts ctx)"
      unfolding waits_for_def Let_def by (simp only: if_False simp_thms)
    show ?thesis
      using ranks_capped ranked assms(2) w by (fastforce simp: ranked_or_pinned_def)
  qed
  then show "earliestReset (waits_for tp ctx) (tp_pct tp) now = Some t"
    "\<forall>a \<in> set (waits_for tp ctx). \<not> isCodexCredentialEligible a (tp_pct tp) now"
    "ranked_or_pinned tp ctx" by blast+
qed

lemma served_fresh:
  assumes "fresh_selection tp ctx now = Some sel" "ls_credential sel = Some c"
    "ranked_or_pinned tp ctx"
  shows "\<exists>a \<in> set (waits_for tp ctx). cc_id a = c \<and> isCodexCredentialEligible a (tp_pct tp) now"
  using assms(1)
proof (cases rule: fresh_cases)
  case pinned
  then show ?thesis
    using assms(2)
    by (auto simp: select_pinned_def waits_for_def classifyCodexPin_def
        isCodexCredentialEligible_def split: option.splits if_splits dest: find_SomeD)
next
  case sharded
  then have "waits_for tp ctx = lx_accounts ctx" by (simp add: waits_for_def)
  then show ?thesis using select_sharded_SomeD [OF sharded(2) assms(2)] by simp
next
  case off
  then show ?thesis using assms(3) by (auto simp: ranked_or_pinned_def)
next
  case (ranked d)
  then have w: "waits_for tp ctx = filter cc_allocator_enabled (lx_accounts ctx)"
    unfolding waits_for_def Let_def by (simp only: if_False simp_thms)
  have "\<exists>a \<in> set (lx_accounts ctx). cc_id a = c \<and> isCodexCredentialEligible a (tp_pct tp) now"
    using rotated_SomeD [OF ranked(4)] assms(2) ranked(5) by simp
  then show ?thesis using eligible_enabled by (auto simp: w)
qed

lemma serves_fresh:
  assumes "a \<in> set (waits_for tp ctx)" "isCodexCredentialEligible a (tp_pct tp) now" "ranked_or_pinned tp ctx"
  shows "\<exists>sel c. fresh_selection tp ctx now = Some sel \<and> ls_credential sel = Some c"
proof -
  let ?d = "classifyCodexPin (tp_pin tp) (tp_pin_source tp) (lx_strategy ctx) (lx_rotation_enabled ctx)"
  consider (manual) "?d = PinManual \<and> the (tp_pin tp) \<noteq> []"
    | (sharded) "\<not> (?d = PinManual \<and> the (tp_pin tp) \<noteq> [])" "?d = PinSharded"
    | (ranked) "\<not> (?d = PinManual \<and> the (tp_pin tp) \<noteq> [])" "?d \<noteq> PinSharded" "lx_rotation_enabled ctx"
    using assms(3) unfolding ranked_or_pinned_def by blast
  then show ?thesis
  proof cases
    case manual
    have "waits_for tp ctx = (case List.find (\<lambda>a. cc_id a = the (tp_pin tp)) (lx_accounts ctx) of Some a \<Rightarrow> [a] | None \<Rightarrow> [])"
      unfolding waits_for_def Let_def if_P [OF manual] ..
    then have "List.find (\<lambda>a. cc_id a = the (tp_pin tp)) (lx_accounts ctx) = Some a"
      using assms(1) by (auto split: option.splits)
    moreover have "fresh_selection tp ctx now = Some (select_pinned (the (tp_pin tp)) ctx (tp_pct tp) now)"
      unfolding fresh_selection_def Let_def if_P [OF manual] ..
    ultimately show ?thesis
      using assms(2) by (auto simp: select_pinned_def isCodexCredentialEligible_def)
  next
    case sharded
    have w: "waits_for tp ctx = lx_accounts ctx"
      unfolding waits_for_def Let_def if_not_P [OF sharded(1)] if_P [OF sharded(2)] ..
    have f: "fresh_selection tp ctx now = select_sharded tp ctx now"
      unfolding fresh_selection_def Let_def if_not_P [OF sharded(1)] if_P [OF sharded(2)] ..
    have "\<exists>c r. chooseShardedHome (tp_session tp)
        (if tp_pin_source tp = Some PinSourcePolicy then tp_pin tp else None) (lx_accounts ctx) (tp_pct tp) now
        = Some (Home c r)"
      by (rule home_serves) (use assms w in auto)
    moreover have "lx_accounts ctx \<noteq> []" using assms(1) w by auto
    ultimately show ?thesis by (auto simp: f select_sharded_def split: if_splits)
  next
    case ranked
    have w: "waits_for tp ctx = filter cc_allocator_enabled (lx_accounts ctx)"
      unfolding waits_for_def Let_def if_not_P [OF ranked(1)] if_not_P [OF ranked(2)] ..
    have on: "(\<not> lx_rotation_enabled ctx) = False" using ranked(3) by simp
    show ?thesis
      unfolding fresh_selection_def Let_def if_not_P [OF ranked(1)] if_not_P [OF ranked(2)] on if_False
      using ranks_serves [of a "lx_accounts ctx" "tp_pct tp" now] assms(1,2) w by fastforce
  qed
qed

lemma fresh_only:
  assumes "lx_existing ctx = None" "tp_continuation tp = None"
  shows "selectCodexCredentialLeaseForTurn tp ctx now = fresh_selection tp ctx now"
  using assms by (simp add: select_eq)

text \<open>The account a turn holds: by a live lease, or because its run state is frozen on it.\<close>

definition holds :: "turn_policy \<Rightarrow> lease_context \<Rightarrow> codex_account \<Rightarrow> bool" where
  "holds tp ctx a \<longleftrightarrow> lx_existing ctx = Some (cc_id a) \<or> tp_continuation tp = Some (cc_id a)"

text \<open>An all-capped decision comes from a fresh selection: what the turn holds is capped too.\<close>

lemma capped_selection:
  assumes "selectCodexCredentialLeaseForTurn tp ctx now = Some sel" "ls_decision sel = RAllCapped t"
  shows "fresh_selection tp ctx now = Some sel"
    and "i = lx_existing ctx \<or> i = tp_continuation tp \<Longrightarrow> find_account i (lx_accounts ctx) = Some a
      \<Longrightarrow> \<not> isCodexCredentialHealthy a (tp_pct tp) now"
proof -
  have none: "continuing (lx_existing ctx) ctx (tp_pct tp) now = None" "continuing (tp_continuation tp) ctx (tp_pct tp) now = None"
    using assms by (auto simp: select_eq dest!: continuing_SomeD split: option.splits)
  then show "fresh_selection tp ctx now = Some sel" using assms(1) by (simp add: select_eq)
  show "i = lx_existing ctx \<or> i = tp_continuation tp \<Longrightarrow> find_account i (lx_accounts ctx) = Some a
      \<Longrightarrow> \<not> isCodexCredentialHealthy a (tp_pct tp) now"
    using none by (auto simp: continuing_def split: if_splits)
qed

lemma given_cases:
  assumes "selectCodexCredentialLeaseForTurn tp ctx now = Some sel"
  obtains (fresh) "fresh_selection tp ctx now = Some sel"
  | (held) i a where "i = lx_existing ctx \<or> i = tp_continuation tp" "find_account i (lx_accounts ctx) = Some a"
      "isCodexCredentialHealthy a (tp_pct tp) now" "ls_credential sel = Some (cc_id a)"
proof (cases "fresh_selection tp ctx now = Some sel")
  case True
  then show ?thesis by (rule fresh)
next
  case False
  then obtain i where i: "i = lx_existing ctx \<or> i = tp_continuation tp" "continuing i ctx (tp_pct tp) now = Some sel"
    using assms by (auto simp: select_eq split: option.splits)
  then obtain a where "find_account i (lx_accounts ctx) = Some a" "isCodexCredentialHealthy a (tp_pct tp) now"
      "ls_credential sel = Some (cc_id a)"
    by (auto simp: continuing_def split: option.splits if_splits)
  with i(1) show ?thesis by (rule held)
qed

text \<open>
  C38: The instant an all-capped decision names is in the future, and up to it no selection
  over the same cached usage gives the turn an account: waking earlier would be for nothing. If the
  turn holds an account, by a live lease or a frozen run state, it must be one of those the decision
  waits for: a turn frozen on an account disabled for new work is left out of the instant though it
  could go on (\<open>frozen_turn_waits_too_long\<close>).
\<close>

theorem capped_turns_wait_long_enough:
  assumes capped: "selectCodexCredentialLeaseForTurn tp ctx now = Some sel" "ls_decision sel = RAllCapped t"
    and held: "\<forall>a \<in> set (lx_accounts ctx). holds tp ctx a \<longrightarrow> a \<in> set (waits_for tp ctx)"
    and later: "now \<le> t'" "t' < t" "selectCodexCredentialLeaseForTurn tp ctx t' = Some sel'"
  shows "now < t \<and> ls_credential sel' = None"
proof -
  note fresh = capped_selection [OF capped]
  note c = capped_fresh [OF fresh(1) capped(2)]
  have early: False
    if a: "a \<in> set (waits_for tp ctx)" "isCodexCredentialHealthy a (tp_pct tp) t'" "\<not> isCodexCredentialHealthy a (tp_pct tp) now" for a
  proof -
    have "availableAt a (tp_pct tp) now \<le> t'" using healthy_only_after [OF a(2,3) later(1)] .
    moreover have "t \<le> availableAt a (tp_pct tp) now" by (rule earliestReset_bound(1) [OF c(1) a(1)])
    ultimately show False using later(2) by simp
  qed
  have "ls_credential sel' = None"
    using later(3)
  proof (cases rule: given_cases)
    case fresh
    show ?thesis
    proof (rule ccontr)
      assume "ls_credential sel' \<noteq> None"
      then obtain x where x: "ls_credential sel' = Some x" by blast
      obtain a where a: "a \<in> set (waits_for tp ctx)" "isCodexCredentialEligible a (tp_pct tp) t'"
        using served_fresh [OF fresh x c(3)] by blast
      with c(2) early show False by (auto simp: isCodexCredentialEligible_def)
    qed
  next
    case (held i a)
    have "a \<in> set (lx_accounts ctx)" "i = Some (cc_id a)" using find_account_in [OF held(2)] by simp_all
    then have "a \<in> set (waits_for tp ctx)" using held(1) assms(3) by (auto simp: holds_def)
    with early held fresh(2) [OF held(1,2)] show ?thesis by blast
  qed
  then show ?thesis using earliestReset_future [OF c(1)] by simp
qed

text \<open>
  C39: If the account whose return an all-capped decision waits for is signed in, enabled for new work
  and says when its capped windows reset, the selection at that instant gives the turn an account, whatever
  the turn holds. An account that needs a new sign-in counts as back a minute later all the same, and then
  the turn wakes for nothing (\<open>relogin_ends_wait_early\<close>).
\<close>

theorem capped_turns_come_back:
  assumes capped: "selectCodexCredentialLeaseForTurn tp ctx now = Some sel" "ls_decision sel = RAllCapped t"
    and first: "a \<in> set (waits_for tp ctx)" "availableAt a (tp_pct tp) now = t"
    and usable: "cc_status a = CodexActive" "cc_allocator_enabled a" "reset_known a (tp_pct tp) now" "0 < tp_pct tp"
  shows "\<exists>sel' c. selectCodexCredentialLeaseForTurn tp ctx t = Some sel' \<and> ls_credential sel' = Some c"
proof -
  note c = capped_fresh [OF capped_selection(1) [OF capped] capped(2)]
  have "\<not> isCodexCredentialHealthy a (tp_pct tp) now"
    using c(2) first(1) usable(2) by (auto simp: isCodexCredentialEligible_def)
  then have "isCodexCredentialEligible a (tp_pct tp) t"
    using eligible_at_reset [OF usable(3,1,2) _ usable(4)] first(2) by simp
  then obtain s x where s: "fresh_selection tp ctx t = Some s" "ls_credential s = Some x"
    using serves_fresh [OF first(1) _ c(3)] by blast
  obtain sel' where sel': "selectCodexCredentialLeaseForTurn tp ctx t = Some sel'"
    using select_returns [of tp ctx t] by blast
  then show ?thesis
    by (cases rule: given_cases) (use s sel' in auto)
qed

text \<open>Such an account exists: the instant is the return of one the turn waits for.\<close>

lemma capped_turns_wait_for_one:
  assumes "selectCodexCredentialLeaseForTurn tp ctx now = Some sel" "ls_decision sel = RAllCapped t"
  shows "\<exists>a \<in> set (waits_for tp ctx). availableAt a (tp_pct tp) now = t"
  using earliestReset_bound(2) [OF capped_fresh(1) [OF capped_selection(1) [OF assms] assms(2)]] by metis

subsection \<open>The order and the connector tier\<close>

text \<open>The fold of \<open>most_remaining\<close> is the head of a stable sort of the connector tier.\<close>

theorem most_remaining_is_a_stable_sort:
  fixes accts :: "codex_account list" and used :: "string list" and pct :: int and now :: millis
  defines "eligibles \<equiv> filter (\<lambda>a. isCodexCredentialEligible a pct now) accts"
  defines "covering \<equiv> filter (\<lambda>a. covers a used) eligibles"
  assumes "eligibles \<noteq> []"
  shows "chooseRotationActive MostRemaining active prior accts pct now used =
           decide active used (filter cc_allocator_enabled accts) pct now
             (Some (hd (sort_key (rank_key now) (if covering \<noteq> [] then covering else eligibles))))"
proof -
  have el: "filter (\<lambda>a. isCodexCredentialEligible a pct now) (filter cc_allocator_enabled accts) = eligibles"
    using eligible_enabled by (auto simp: eligibles_def intro!: filter_cong)
  have ne: "filter cc_allocator_enabled accts \<noteq> []"
    using assms(3) eligible_enabled by (auto simp: eligibles_def filter_empty_conv)
  show ?thesis
    using ne assms(3) unfolding ranked_eq pick_def Let_def el covering_def [symmetric]
    by (auto simp: best_of_sort)
qed

lemma covering_choice:
  assumes "chooseRotationActive MostRemaining active prior accts pct now used = Some (RActive c m d)"
    and "p \<in> set accts" "isCodexCredentialEligible p pct now" "covers p used"
  shows "\<exists>b \<in> set accts. cc_id b = c \<and> covers b used"
proof -
  let ?el = "filter (\<lambda>a. isCodexCredentialEligible a pct now) (filter cc_allocator_enabled accts)"
  let ?cov = "filter (\<lambda>a. covers a used) ?el"
  obtain b where b: "pick MostRemaining prior accts pct now used = Some b" "cc_id b = c"
    using ranked_active [OF assms(1)] by blast
  have "p \<in> set ?cov" using assms(2,3,4) eligible_enabled by simp
  then have "?cov \<noteq> []" by (metis list.distinct(1) list.set_cases)
  then have "best_of now ?cov = Some b"
    using b(1) unfolding pick_def Let_def by (simp only: rotation_strategy.simps simp_thms if_True)
  then have "b \<in> set ?cov" by (rule best_of_in)
  then show ?thesis using b(2) by auto
qed

lemma covers_erased [simp]: "covers (erase_leases a) used = covers a used"
  by (simp add: covers_def)

text \<open>Both rankers pick one that covers, but the old one stays on an eligible active account.\<close>

lemma ranks_covering:
  assumes d: "ranks leasing MostRemaining active prior accts pct now used = Some (RActive c m d)"
    and p: "p \<in> set accts" "isCodexCredentialEligible p pct now" "covers p used"
  shows "(\<exists>b \<in> set accts. cc_id b = c \<and> covers b used) \<or> \<not> leasing \<and> active = Some c \<and> c \<in> cc_id ` set accts"
proof (cases leasing)
  case True
  then show ?thesis using covering_choice [OF _ p] d by (simp add: ranks_def)
next
  case False
  note leg = d [unfolded ranks_def if_not_P [OF False] chooseLegacyRotationActive_def Let_def]
  show ?thesis
  proof (cases "\<exists>a. find_account active accts = Some a \<and> isCodexCredentialEligible a pct now")
    case True
    then obtain x where x: "find_account active accts = Some x" "isCodexCredentialEligible x pct now" by blast
    then have "c = cc_id x" using leg by simp
    with find_account_in [OF x(1)] False show ?thesis by auto
  next
    case no: False
    then have "chooseRotationActive MostRemaining active prior (map erase_leases accts) pct now used = Some (RActive c m d)"
      using leg by (auto split: option.splits if_splits)
    then have "\<exists>b \<in> set (map erase_leases accts). cc_id b = c \<and> covers b used"
      by (rule covering_choice [where p = "erase_leases p"]) (use p in simp_all)
    then show ?thesis by auto
  qed
qed

text \<open>
  C40: With rotation on and the most-remaining strategy, for a turn without a pin and without an account
  it holds: while the account a session ran on last is eligible and has connectors, no other account is picked
  whose connectors were not probed, however loaded the others are. Only a turn that runs on an account
  probes it. Before lease rotation is rolled out (the default) there is one exception: the workspace's
  active account, which the old ranker keeps while it is eligible.
\<close>

theorem unprobed_account_is_never_chosen:
  assumes policy: "lx_rotation_enabled ctx" "lx_strategy ctx = MostRemaining"
    and rollout: "tp_leasing_enabled tp \<and> lx_lease_rotation_enabled ctx \<or> lx_active ctx \<noteq> Some (cc_id a)"
    and fresh: "tp_pin tp = None" "lx_existing ctx = None" "tp_continuation tp = None"
    and prior: "(case tp_last tp of Some l \<Rightarrow> Some l | None \<Rightarrow> lx_active ctx) = Some (cc_id p)"
      "p \<in> set (lx_accounts ctx)" "isCodexCredentialEligible p (tp_pct tp) now"
      "cc_connectors p = Some ns" "ns \<noteq> []"
    and unprobed: "a \<in> set (lx_accounts ctx)" "cc_connectors a = None"
    and ids: "distinct (map cc_id (lx_accounts ctx))"
    and sel: "selectCodexCredentialLeaseForTurn tp ctx now = Some sel"
  shows "\<exists>b \<in> set (lx_accounts ctx). ls_credential sel = Some (cc_id b) \<and> cc_id b \<noteq> cc_id a"
proof -
  let ?leasing = "tp_leasing_enabled tp \<and> lx_lease_rotation_enabled ctx"
  have used: "used_connectors tp ctx = ns"
    using prior(1,4) find_unique [OF ids prior(2) refl] by (simp add: used_connectors_def)
  have "fresh_selection tp ctx now = Some sel" using sel fresh_only [OF fresh(2,3)] by simp
  then obtain d where d: "ranks ?leasing MostRemaining (lx_active ctx) (Some (cc_id p)) (lx_accounts ctx)
        (tp_pct tp) now ns = Some d" "sel = selection_of None d"
    using policy fresh(1) prior(1) used
    by (auto simp: fresh_selection_def classifyCodexPin_def)
  obtain c m dr where c: "d = RActive c m dr"
    using ranks_serves [OF prior(2,3), of ?leasing MostRemaining "lx_active ctx" "Some (cc_id p)" ns] d(1) by auto
  have "covers p ns" using prior(4) by (simp add: covers_def list_all_iff)
  from ranks_covering [OF d(1) [unfolded c] prior(2,3) this]
  have "\<exists>b \<in> set (lx_accounts ctx). cc_id b = c \<and> cc_id b \<noteq> cc_id a"
  proof (elim disjE)
    assume "\<exists>b \<in> set (lx_accounts ctx). cc_id b = c \<and> covers b ns"
    then obtain b where b: "b \<in> set (lx_accounts ctx)" "cc_id b = c" "covers b ns" by blast
    then have "b \<noteq> a" using unprobed(2) prior(5) by (auto simp: covers_def)
    then have "cc_id b \<noteq> cc_id a" using distinct_map_inj [OF ids b(1) unprobed(1)] by blast
    with b show ?thesis by blast
  next
    assume "\<not> ?leasing \<and> lx_active ctx = Some c \<and> c \<in> cc_id ` set (lx_accounts ctx)"
    with rollout show ?thesis by auto
  qed
  then show ?thesis using d(2) c by auto
qed

subsection \<open>At concrete inputs\<close>

definition sample_account :: "uuid \<Rightarrow> int option \<Rightarrow> millis option \<Rightarrow> string list option \<Rightarrow> codex_account" where
  "sample_account i used reset conns =
     \<lparr>cc_id = i, cc_status = CodexActive, cc_last_error = None, cc_allocator_enabled = True,
      cc_primary_used = used, cc_primary_reset = reset, cc_secondary_used = None, cc_secondary_reset = None,
      cc_exhausted_until = None, cc_connectors = conns, cc_selection_count = 0, cc_last_selected = None,
      cc_created_at = 0, ca_active_leases = 0\<rparr>"

definition sample_policy :: "uuid option \<Rightarrow> turn_policy" where
  "sample_policy pin =
     \<lparr>tp_leasing_enabled = True, tp_session = ''s'', tp_pin = pin, tp_pin_source = None, tp_last = None,
      tp_continuation = None, tp_pct = 90\<rparr>"

definition sample_context :: "codex_account list \<Rightarrow> lease_context" where
  "sample_context accts =
     \<lparr>lx_accounts = accts, lx_active = Some ''a'', lx_rotation_enabled = True, lx_lease_rotation_enabled = True,
      lx_strategy = MostRemaining, lx_existing = None\<rparr>"

definition sample_fleet :: lease_context where
  "sample_fleet = sample_context
     [sample_account ''a'' (Some 50) None (Some [''github'']), sample_account ''b'' None None None]"

definition capped_fleet :: lease_context where
  "capped_fleet = sample_context
     [sample_account ''a'' (Some 95) (Some 700000) None, sample_account ''b'' (Some 100) (Some 300000) None]"

lemmas sample_defs = sample_account_def sample_policy_def sample_context_def sample_fleet_def capped_fleet_def

lemma sample_fleet_selects:
  "selectCodexCredentialLeaseForTurn (sample_policy None) sample_fleet 0
     = Some \<lparr>ls_credential = Some ''a'', ls_decision = RActive ''a'' False None, ls_advance = None\<rparr>"
  by code_simp

lemma selected_account_is_usable_witness:
  "\<exists>a \<in> set (lx_accounts sample_fleet). cc_id a = ''a''
     \<and> (cc_allocator_enabled a \<or> lx_existing sample_fleet = Some ''a'' \<or> tp_continuation (sample_policy None) = Some ''a'')
     \<and> (isCodexCredentialHealthy a (tp_pct (sample_policy None)) 0 \<or> \<not> lx_rotation_enabled sample_fleet)"
  by (rule selected_account_is_usable [OF sample_fleet_selects]) simp

lemma a_pin_is_never_moved_witness:
  "\<exists>sel. selectCodexCredentialLeaseForTurn (sample_policy (Some ''b'')) capped_fleet 0 = Some sel
     \<and> ls_credential sel \<in> {None, Some ''b''} \<and> ls_advance sel = Some False"
  by (rule a_pin_is_never_moved) (simp_all add: sample_defs)

text \<open>A turn that holds the capped account it waits for.\<close>

definition held_fleet :: lease_context where
  "held_fleet = capped_fleet\<lparr>lx_existing := Some ''a''\<rparr>"

lemma held_fleet_waits:
  "selectCodexCredentialLeaseForTurn (sample_policy None) held_fleet 0
     = Some \<lparr>ls_credential = None, ls_decision = RAllCapped 300000, ls_advance = None\<rparr>"
  "selectCodexCredentialLeaseForTurn (sample_policy None) held_fleet 299999
     = Some \<lparr>ls_credential = None, ls_decision = RAllCapped 300000, ls_advance = None\<rparr>"
  by code_simp+

lemma capped_turns_wait_long_enough_witness: "(0::int) < 300000 \<and> ls_credential
   \<lparr>ls_credential = None, ls_decision = RAllCapped 300000, ls_advance = None\<rparr> = None"
  by (rule capped_turns_wait_long_enough [OF held_fleet_waits(1) _ _ _ _ held_fleet_waits(2)])
     (simp_all add: sample_defs held_fleet_def holds_def waits_for_def classifyCodexPin_def)

lemma capped_turns_come_back_witness:
  "\<exists>sel' c. selectCodexCredentialLeaseForTurn (sample_policy None) held_fleet 300000 = Some sel'
     \<and> ls_credential sel' = Some c"
proof (rule capped_turns_come_back [OF held_fleet_waits(1)])
  let ?b = "sample_account ''b'' (Some 100) (Some 300000) None"
  show "?b \<in> set (waits_for (sample_policy None) held_fleet)" "availableAt ?b (tp_pct (sample_policy None)) 0 = 300000"
      "reset_known ?b (tp_pct (sample_policy None)) 0"
    by code_simp+
qed (simp_all add: sample_defs)

lemma unprobed_account_is_never_chosen_witness:
  "\<exists>b \<in> set (lx_accounts sample_fleet).
     ls_credential \<lparr>ls_credential = Some ''a'', ls_decision = RActive ''a'' False None, ls_advance = None\<rparr>
       = Some (cc_id b)
     \<and> cc_id b \<noteq> cc_id (sample_account ''b'' None None None)"
  by (rule unprobed_account_is_never_chosen [OF _ _ _ _ _ _ _ _ _ _ _ _ _ _ sample_fleet_selects,
        where p = "sample_account ''a'' (Some 50) None (Some [''github''])" and ns = "[''github'']"])
     (simp_all add: sample_defs isCodexCredentialEligible_def isCodexCredentialHealthy_def cooling_def
        bindingUsedPct_def effectiveWindowUsed_def)

subsection \<open>Where the promises stop\<close>

text \<open>
  A turn frozen on account \<^verbatim>\<open>b\<close>, which is capped until 100 and disabled for new work, beside an enabled account
  capped until 700000, is told 700000, though the selection at 100 gives it \<^verbatim>\<open>b\<close>.
\<close>

definition frozen_fleet :: lease_context where
  "frozen_fleet = sample_context
     [sample_account ''a'' (Some 95) (Some 700000) None,
      (sample_account ''b'' (Some 100) (Some 100) None)\<lparr>cc_allocator_enabled := False\<rparr>]"

lemma frozen_turn_waits_too_long:
  "selectCodexCredentialLeaseForTurn ((sample_policy None)\<lparr>tp_continuation := Some ''b''\<rparr>) frozen_fleet 0
     = Some \<lparr>ls_credential = None, ls_decision = RAllCapped 700000, ls_advance = None\<rparr>"
  "map_option ls_credential
     (selectCodexCredentialLeaseForTurn ((sample_policy None)\<lparr>tp_continuation := Some ''b''\<rparr>) frozen_fleet 100) = Some (Some ''b'')"
  by code_simp+

text \<open>
  Beside a capped account, one that needs a new sign-in makes the all-capped instant a minute from now, and the
  selection then gives nothing again.
\<close>

definition relogin_fleet :: lease_context where
  "relogin_fleet = sample_context
     [sample_account ''a'' (Some 95) (Some 700000) None,
      (sample_account ''b'' None None None)\<lparr>cc_status := CodexNeedsRelogin\<rparr>]"

lemma relogin_ends_wait_early:
  "selectCodexCredentialLeaseForTurn (sample_policy None) relogin_fleet 0
     = Some \<lparr>ls_credential = None, ls_decision = RAllCapped 60000, ls_advance = None\<rparr>"
  "map_option ls_credential (selectCodexCredentialLeaseForTurn (sample_policy None) relogin_fleet 60000) = Some None"
  by code_simp+

text \<open>
  Before the rollout an unprobed active account is kept although the account the session ran on last is
  eligible and probed.
\<close>

definition legacy_fleet :: lease_context where
  "legacy_fleet = sample_fleet\<lparr>lx_active := Some ''b'', lx_lease_rotation_enabled := False\<rparr>"

lemma legacy_ranker_keeps_unprobed_active:
  "map_option ls_credential
     (selectCodexCredentialLeaseForTurn ((sample_policy None)\<lparr>tp_last := Some ''a''\<rparr>) legacy_fleet 0) = Some (Some ''b'')"
  by code_simp

end
