(* ===== verification/Spec2Isabelle.thy ===== *)
theory Spec2Isabelle
  imports Lease_Props Stream World Enrollment_Props Routing_Props Reaper_Props Context_Props Workflow_Interrupts Credential_Selection
begin

text \<open>
  OpenGeni runs long-lived agent sessions. A session is a row with a durable event log, a queue of turns
  and at most one goal; a worker takes the turns and runs each inside a sandbox, a box that a group of
  sessions shares; clients follow the log over server-sent events; users may enroll machines of their own and
  point a session at one of them. All state lives in Postgres, so the program's core is the transactions of
  \<^verbatim>\<open>packages/db/src/index.ts\<close> and the services and worker activities that call them. This development models
  that core and proves what holds of it in every order its callers can run it.

  \<^bold>\<open>Reading the model.\<close> A table is the list of its rows; a transaction is a function from the tables to the
  new tables and the value returned; an error is a value of a sum type and carries no tables, because the
  transaction is rolled back. Times are integers in milliseconds and an argument of each transaction; ids that
  the database or the runtime draws are arguments too, with their freshness a condition of the step.
  What is not under \<^verbatim>\<open>src\<close>, or is no code (the provider SDKs, a machine's answers, token signatures, base64 and
  JSON parsers, the clock), is an argument of the definitions that use it. Where a function runs several
  transactions, an argument \<open>env\<close> says what other callers do to the tables between them.

  \<^bold>\<open>Theories, with the code they model.\<close>
  \<^item> \<open>Prelude\<close>: tables, runs of operations, and the locales every component is an instance of: an
    invariant of every step (\<open>step_invariant\<close>), a relation every step respects (\<open>step_monotone\<close>), and a
    compare-and-set fenced by an epoch (\<open>epoch_cas\<close>). \<open>Json\<close>: JSON values and the \<^verbatim>\<open>jsonb\<close> operators.
    \<open>Durable_Log\<close> and \<open>Queue\<close>: the contracts of a paged log and of a queue, as locales.
  \<^item> \<open>Lease\<close>: the sandbox lease of a group, with its holders: acquire, commit, release, heartbeat, reap, drain and
    warm snapshots, data-plane addresses, files already on a box. \<open>Lease_Inv\<close>: unique keys and exact counters.
    \<open>Lease_Machine\<close>: every operation, the force-drain of a workspace over its limits included, refines a machine of
    four states and an epoch; a box with a live holder is not taken away. \<open>Lease_Props\<close>: the properties.
  \<^item> \<open>Payload\<close>: \<^verbatim>\<open>packages/db/src/event-payload-sanitizer.ts\<close>, over JavaScript's UTF-16 strings.
  \<^item> \<open>Sessions\<close>, \<open>Session_Log\<close>: the session tables and the ways to append to the log, which stays contiguous.
    \<open>Turn_Queue\<close> and \<open>Turn_Queue_Props\<close>: enqueue, claim, settle, cancel, preemption, the per-turn tool budget.
    \<open>Goals\<close> and \<open>Goals_Props\<close>: goals, their continuation decision and the worker's activities
    (\<^verbatim>\<open>apps/worker/src/activities/goals.ts\<close>). \<open>Child_Wake\<close> and \<open>Child_Wake_Props\<close>: a parent is told when a child
    ends. \<open>World\<close>: all of these interleaved, with the invariant of the whole.
  \<^item> \<open>Sse\<close>: the wire format (\<^verbatim>\<open>packages/sdk/src/sse.ts\<close>, \<^verbatim>\<open>packages/events\<close>). \<open>Stream\<close>: the server's stream and the
    client's reconnecting reader (\<^verbatim>\<open>apps/api/src/http/sse.ts\<close>, \<^verbatim>\<open>packages/sdk/src/stream.ts\<close>).
  \<^item> \<open>Machines\<close>, \<open>Enrollment\<close>, \<open>Enrollment_Props\<close>: users' machines and how they enroll
    (\<^verbatim>\<open>apps/api/src/sandbox/enrollment.ts\<close>).
  \<^item> \<open>Fleet\<close>, \<open>Fleet_Props\<close>: a session's active sandbox, its epoch-fenced pointer and the service that swaps it
    (\<^verbatim>\<open>packages/core/src/sandbox/fleet.ts\<close>). A sandbox row deleted by a cascade takes its pointers with it, at
    their epoch. \<open>Routing\<close>, \<open>Routing_Props\<close>: the proxy that resolves the pointer for
    each operation of a turn (\<^verbatim>\<open>packages/runtime/src/sandbox/routing\<close>), against a reference without its cache.
  \<^item> \<open>Metering\<close>, \<open>Metering_Props\<close>: usage events, the credit ledger, warm-time billing and the limits that
    lead to a force-drain.
    \<open>Reaper\<close>, \<open>Reaper_Props\<close>: one sweep of \<^verbatim>\<open>apps/worker/src/activities/sandbox-lease.ts\<close> over the lease and
    metering tables, and the sweep of provider orphans, which reads the leases before other writers act and stops
    boxes after.
  \<^item> \<open>Js_Values\<close>: properties of objects and \<^verbatim>\<open>JSON.stringify\<close>. \<open>History\<close>, \<open>History_Props\<close>: the sanitizer of replayed
    history (\<^verbatim>\<open>packages/runtime/src/history-sanitizer.ts\<close>), against a specification without its passes.
    \<open>Compaction\<close>: estimates, triggers, the budget guard and the replacement histories
    (\<^verbatim>\<open>packages/runtime/src/context-compaction.ts\<close>). \<open>Transcript\<close>, \<open>Transcript_Props\<close>: the stored conversation, the
    input of a turn and its reconciliation with the table; \<open>Context_Props\<close>: compaction, clearing, and turns on another account.
  \<^item> \<open>Session_State\<close>, \<open>Session_State_Props\<close>: the activities that fail, interrupt, idle and requeue
    (\<^verbatim>\<open>apps/worker/src/activities/session-state.ts\<close>). \<open>Workflow\<close>: the session workflow
    (\<^verbatim>\<open>apps/worker/src/workflows/session.ts\<close>) as a function from one \<open>await\<close> to the next. \<open>Workflow_System\<close>: one session's run
    with its tables, signals and pending replies, as a step relation. \<open>Workflow_Props\<close>, \<open>Workflow_Bounds\<close>: its invariants.
    \<open>Workflow_Runs\<close>, \<open>Workflow_Interrupts\<close>: the properties, and the runs in which work is lost.
  \<^item> \<open>Credential_Rotation\<close>: the ranker that picks the subscription a turn runs on
    (\<^verbatim>\<open>apps/worker/src/activities/codex-rotation.ts\<close>). \<open>Credential_Rotation_Props\<close>: its instants, its order and
    its strategies. \<open>Credential_Selection\<close>: the properties of the policy of one turn.

  \<^bold>\<open>How the parts meet.\<close> The lease machine is used by metering and the reaper as it stands: their runs contain
  its operations, and the reaper's snapshot and confirmation are two of them. The session tables are used by the
  log, the queue, goals and wakes, which \<open>World\<close> runs against each other; \<open>Fleet_Props\<close> adds the machine
  tables and pointer swaps to that run, and \<open>Routing_Props\<close> an operation of a turn's proxy. The conversation's
  rows pass the sanitizer of \<open>Payload\<close> when stored and the one of \<open>History\<close> when read and when appended. The readers of
  \<open>Stream\<close> see the log only through the contract of \<open>Durable_Log\<close>, which \<open>Stream\<close> instantiates on \<open>Session_Log\<close>.
  The workflow claims with the transaction of \<open>Turn_Queue\<close>; any other activity may write what it likes while
  it is awaited, except that marking a session idle leaves its queue alone, which \<open>Workflow_Interrupts\<close> shows of the
  modelled activity. \<open>Workflow_Interrupts\<close> puts the workflow's reaction to an interrupt together with what the
  activity does to the tables.

  \<^bold>\<open>Bounds.\<close> The loops with a bound of their own keep it: four attempts of a routed operation, two rounds of a
  swap, five codes for a device request, six attempts to fit a message to its budget. The readers of a stream are runs over a finite list of deliveries. The
  orphan sweep takes fuel for the pages it reads; \<open>orphan_sweep_ends\<close> says how much is enough. A run of the
  workflow dispatches 2000 turns and makes 512 capacity checks at most before it is replaced, up to one more turn
  when an interrupt is pending; \<open>claims_keep_coming\<close> bounds what it does between two claims. All other
  definitions are total.

  \<^bold>\<open>Not modelled\<close>, and why:
  \<^item> row-level security and authorization: every caller is taken to be allowed what it asks;
  \<^item> interleaving inside one transaction, and two operations of one routing proxy that overlap in time; an attempt
    of a routed operation reads the pointer and the sandbox row in one state of the tables, and building a machine's
    handle does not fail;
    database errors other than those the code raises or handles; \<^verbatim>\<open>bigint\<close> overflow (quantities are unbounded);
  \<^item> running a turn (\<^verbatim>\<open>apps/worker/src/activities/agent-turn.ts\<close>, \<^verbatim>\<open>packages/runtime/src/index.ts\<close>): it drives the model
    provider's SDK and is mostly calls into it; its history, input and reconciliation are in \<open>Transcript\<close>;
  \<^item> the workflow service: replay, its patch markers (taken as set), the time limits of activities. An activity that was
    cancelled may go on writing; its writes are those of any other writer;
  \<^item> the tokens of subscriptions to model providers with the rows of their leases and capacity waiters, memory, rigs,
    scheduled tasks, workspace captures, the Stripe side of billing: further tables with their own transactions. The
    ranker that the lease transaction runs is modelled, over whatever accounts it is given;
  \<^item> the user interfaces, the deployment, the Rust agent on a machine, generated protocol code, configuration and
    schema parsing, integrations, document storage, observability: no state of the core is decided there.
\<close>

end
